(* ===== verification/Prelude.thy ===== *)
theory Prelude
  imports Complex_Main "HOL-Library.Word" "HOL-Library.Sublist"
begin

section \<open>Prelude: results, state passing, Python strings and numbers\<close>

text \<open>
  Shared vocabulary of the development. A Python call that may raise is a value of
  \<open>'e + 'a\<close>: \<open>Inl\<close> carries the exception, \<open>Inr\<close> the returned value. A call that also acts
  on the outside world returns such a value together with the new state; \<open>try_seq\<close> runs the
  rest of a function after such a call and lets an exception pass through unchanged, as the
  source does.

  Python floats (timeouts, token counts, ratios) are exact rationals \<open>rat\<close>: rounding of
  binary floating point is not modelled. Python integers are \<open>int\<close>, sizes of values are
  \<open>nat\<close>, instants of wall-clock time are \<open>int\<close> (microseconds since the epoch, UTC).
\<close>

named_theorems res_simps \<open>equations that evaluate the result and sequencing combinators\<close>
named_theorems bound_simps \<open>numeric and length bounds used by the components\<close>

type_synonym instant = int

subsection \<open>Results\<close>

fun res_bind :: "'e + 'a \<Rightarrow> ('a \<Rightarrow> 'e + 'b) \<Rightarrow> 'e + 'b" where
  "res_bind (Inl e) f = Inl e"
| "res_bind (Inr x) f = f x"

fun is_ok :: "'e + 'a \<Rightarrow> bool" where
  "is_ok (Inl e) = False"
| "is_ok (Inr x) = True"

definition guard :: "bool \<Rightarrow> 'e \<Rightarrow> 'e + unit" where
  "guard ok e = (if ok then Inr () else Inl e)"

fun res_map :: "('a \<Rightarrow> 'e + 'b) \<Rightarrow> 'a list \<Rightarrow> 'e + 'b list" where
  "res_map f [] = Inr []"
| "res_map f (x # xs) = res_bind (f x) (\<lambda>y. res_bind (res_map f xs) (\<lambda>ys. Inr (y # ys)))"

lemma res_bind_Inr [res_simps]:
  "res_bind r f = Inr y \<longleftrightarrow> (\<exists>x. r = Inr x \<and> f x = Inr y)"
  by (cases r) auto

lemma res_bind_Inl [res_simps]:
  "res_bind r f = Inl e \<longleftrightarrow> r = Inl e \<or> (\<exists>x. r = Inr x \<and> f x = Inl e)"
  by (cases r) auto

lemma guard_Inr [res_simps]: "guard b e = Inr u \<longleftrightarrow> b"
  by (simp add: guard_def)

lemma guard_Inl [res_simps]: "guard b e = Inl e' \<longleftrightarrow> \<not> b \<and> e' = e"
  by (auto simp: guard_def)

lemma if_Some_None: "(if b then Some e else x) = None \<longleftrightarrow> \<not> b \<and> x = None"
  by simp

lemma is_ok_iff: "is_ok r \<longleftrightarrow> (\<exists>x. r = Inr x)"
  by (cases r) auto

lemma res_map_length: "res_map f xs = Inr ys \<Longrightarrow> length ys = length xs"
  by (induction xs arbitrary: ys) (auto simp: res_simps)

lemma res_map_Inr_nth:
  "res_map f xs = Inr ys \<Longrightarrow> i < length xs \<Longrightarrow> f (xs ! i) = Inr (ys ! i)"
  by (induction xs arbitrary: ys i) (auto simp: res_simps nth_Cons split: nat.splits)

subsection \<open>State passing with exceptions\<close>

fun try_seq :: "('e + 'a) \<times> 's \<Rightarrow> ('a \<Rightarrow> 's \<Rightarrow> ('e + 'b) \<times> 's) \<Rightarrow> ('e + 'b) \<times> 's" where
  "try_seq (Inl e, s) f = (Inl e, s)"
| "try_seq (Inr x, s) f = f x s"

lemma try_seq_split:
  "P (try_seq m f) \<longleftrightarrow>
     (\<forall>e s. m = (Inl e, s) \<longrightarrow> P (Inl e, s)) \<and> (\<forall>x s. m = (Inr x, s) \<longrightarrow> P (f x s))"
  by (cases m; cases "fst m") auto

lemma try_seq_Inr [res_simps]:
  "try_seq m f = (Inr y, s') \<longleftrightarrow> (\<exists>x s. m = (Inr x, s) \<and> f x s = (Inr y, s'))"
  by (cases m; cases "fst m") auto

lemma try_seq_Inl [res_simps]:
  "try_seq m f = (Inl e, s') \<longleftrightarrow>
     m = (Inl e, s') \<or> (\<exists>x s. m = (Inr x, s) \<and> f x s = (Inl e, s'))"
  by (cases m; cases "fst m") auto

subsection \<open>Python numbers\<close>

text \<open>\<open>round\<close> of Python 3 rounds halves to the nearest even integer.\<close>

definition py_round :: "rat \<Rightarrow> int" where
  "py_round x = (let f = \<lfloor>x\<rfloor>; d = x - of_int f in
     if d < 1 / 2 then f else if d > 1 / 2 then f + 1 else if even f then f else f + 1)"

lemma py_round_lower [bound_simps]: "x - 1 / 2 \<le> of_int (py_round x)"
  unfolding py_round_def Let_def by (simp split: if_splits) linarith+

lemma py_round_upper [bound_simps]: "of_int (py_round x) \<le> x + 1 / 2"
  unfolding py_round_def Let_def by (simp split: if_splits) linarith+

subsection \<open>Python strings\<close>

definition lower_char :: "char \<Rightarrow> char" where
  "lower_char c = (let n = of_char c :: nat in
     if (65 \<le> n \<and> n \<le> 90) \<or> (192 \<le> n \<and> n \<le> 222 \<and> n \<noteq> 215) then char_of (n + 32) else c)"

definition str_lower :: "string \<Rightarrow> string" where
  "str_lower s = map lower_char s"

definition is_space :: "char \<Rightarrow> bool" where
  "is_space c \<longleftrightarrow> (let n = of_char c :: nat in n = 32 \<or> (9 \<le> n \<and> n \<le> 13) \<or> (28 \<le> n \<and> n \<le> 31)
     \<or> n = 133 \<or> n = 160)"

definition strip_set :: "(char \<Rightarrow> bool) \<Rightarrow> string \<Rightarrow> string" where
  "strip_set p s = rev (dropWhile p (rev (dropWhile p s)))"

definition str_strip :: "string \<Rightarrow> string" where
  "str_strip s = strip_set is_space s"

text \<open>\<open>str.split()\<close> and \<open>str.split(sep)\<close> with a separator of one character.\<close>

fun split_ws_from :: "string \<Rightarrow> string \<Rightarrow> string list" where
  "split_ws_from [] acc = (if acc = [] then [] else [acc])"
| "split_ws_from (c # s) acc = (if is_space c
     then (if acc = [] then split_ws_from s [] else acc # split_ws_from s [])
     else split_ws_from s (acc @ [c]))"

definition split_ws :: "string \<Rightarrow> string list" where
  "split_ws s = split_ws_from s []"

fun split_on :: "'a \<Rightarrow> 'a list \<Rightarrow> 'a list list" where
  "split_on c [] = [[]]"
| "split_on c (x # xs) = (if x = c then [] # split_on c xs
     else case split_on c xs of [] \<Rightarrow> [[x]] | p # ps \<Rightarrow> (x # p) # ps)"

definition is_hex_lower :: "char \<Rightarrow> bool" where
  "is_hex_lower c \<longleftrightarrow> c \<in> set ''0123456789abcdef''"

definition starts_with :: "string \<Rightarrow> string \<Rightarrow> bool" where
  "starts_with p s \<longleftrightarrow> take (length p) s = p"

lemma starts_with_append [simp]: "starts_with p (p @ s)"
  by (simp add: starts_with_def)

lemma length_dropWhile_rev_le [bound_simps]: "length (strip_set p s) \<le> length s"
  unfolding strip_set_def
  by (metis length_rev length_dropWhile_le le_trans)

lemma length_str_lower [simp]: "length (str_lower s) = length s"
  by (simp add: str_lower_def)

subsection \<open>Association lists that keep the first binding\<close>

lemma distinct_map_find:
  "find (\<lambda>x. f x = k) xs = Some x \<Longrightarrow> x \<in> set xs \<and> f x = k"
  by (induction xs) (auto split: if_splits)

lemma drop_split: "drop a xs = take b (drop a xs) @ drop (a + b) xs"
  by (metis append_take_drop_id drop_drop add.commute)

lemma upt_shift: "map (\<lambda>j. i + int j) [0..<Suc n] = i # map (\<lambda>j. (i + 1) + int j) [0..<n]"
proof -
  have "[0..<Suc n] = 0 # map Suc [0..<n]"
    unfolding map_Suc_upt by (rule upt_conv_Cons) simp
  then show ?thesis by (simp add: comp_def algebra_simps)
qed

end
