(* ===== verification/Common.thy ===== *)
theory Common
  imports Prelude "HOL-Library.Multiset"
begin

section \<open>Errors, outcomes, authorization, deadlines and retry policy\<close>

text \<open>
  The application layer's shared contracts: \<open>application/common/errors.py\<close>, \<open>hints.py\<close>,
  \<open>results.py\<close>, \<open>auth.py\<close>, \<open>context.py\<close>, \<open>core/time.py\<close>, \<open>core/ids.py\<close> and the trusted retry
  descriptors of \<open>transport/mcp/retry.py\<close>.

  The human-readable \<open>message\<close> of an error, warning or hint is fixed text in Russian that no
  code inspects; the records below leave it out and keep every machine-readable field.
\<close>

subsection \<open>Errors (application/common/errors.py)\<close>

datatype ErrorCategory =
    VALIDATION | POLICY | PERMISSION | AUTHENTICATION | NOT_FOUND | EXPIRED_CATEGORY | CONFLICT
  | UNSUPPORTED | RATE_LIMITED_CATEGORY | CAPACITY | UPSTREAM | TIMEOUT | INFRASTRUCTURE
  | RESOURCE_LOST | CANCELLED_CATEGORY | UNKNOWN_OUTCOME | INTERNAL

text \<open>The JSON values that the code puts into \<open>details\<close>.\<close>

datatype DetailValue = DetailInt int | DetailStr string

record FieldError =
  fe_path :: string
  fe_code :: string

record OperationError =
  oe_category :: ErrorCategory
  oe_code :: string
  oe_retryable :: bool
  oe_retry_after_seconds :: "int option"
  oe_fields :: "FieldError list"
  oe_details :: "(string \<times> DetailValue) list option"

text \<open>\<open>MachineCode\<close>: 1 to 64 characters of \<open>[a-z0-9_]\<close>.\<close>

definition machine_char :: "char \<Rightarrow> bool" where
  "machine_char c \<longleftrightarrow> c \<in> set ''abcdefghijklmnopqrstuvwxyz0123456789_''"

definition machine_code :: "string \<Rightarrow> bool" where
  "machine_code s \<longleftrightarrow> 1 \<le> length s \<and> length s \<le> 64 \<and> list_all machine_char s"

definition field_error_ok :: "FieldError \<Rightarrow> bool" where
  "field_error_ok f \<longleftrightarrow> length (fe_path f) \<le> 256 \<and> machine_code (fe_code f)"

text \<open>The field constraints of \<open>OperationError\<close>, the size of \<open>details\<close> excepted.\<close>

definition operation_error_ok :: "OperationError \<Rightarrow> bool" where
  "operation_error_ok e \<longleftrightarrow> machine_code (oe_code e)
     \<and> (case oe_retry_after_seconds e of None \<Rightarrow> True | Some n \<Rightarrow> 0 \<le> n)
     \<and> length (oe_fields e) \<le> 32 \<and> list_all field_error_ok (oe_fields e)"

text \<open>\<open>OperationError(category=..., code=..., message=...)\<close> with the defaults of the class.\<close>

definition op_error :: "ErrorCategory \<Rightarrow> string \<Rightarrow> OperationError" where
  "op_error cat code = \<lparr>oe_category = cat, oe_code = code, oe_retryable = False,
     oe_retry_after_seconds = None, oe_fields = [], oe_details = None\<rparr>"

datatype AuthenticationFailure =
    MISSING_CREDENTIALS | INVALID_CREDENTIALS | EXPIRED_CREDENTIALS | CREDENTIAL_DISABLED
  | INSUFFICIENT_SCOPE | OWNER_ACCESS_DENIED

fun auth_failure_value :: "AuthenticationFailure \<Rightarrow> string" where
  "auth_failure_value MISSING_CREDENTIALS = ''missing_credentials''"
| "auth_failure_value INVALID_CREDENTIALS = ''invalid_credentials''"
| "auth_failure_value EXPIRED_CREDENTIALS = ''expired_credentials''"
| "auth_failure_value CREDENTIAL_DISABLED = ''credential_disabled''"
| "auth_failure_value INSUFFICIENT_SCOPE = ''insufficient_scope''"
| "auth_failure_value OWNER_ACCESS_DENIED = ''owner_access_denied''"

subsection \<open>Warnings and hints (application/common/hints.py)\<close>

record Warning =
  wn_code :: string
  wn_details :: "(string \<times> DetailValue) list option"

definition warning :: "string \<Rightarrow> Warning" where
  "warning code = \<lparr>wn_code = code, wn_details = None\<rparr>"

record StructuredHint =
  sh_code :: string
  sh_related_tool :: "string option"
  sh_related_capability :: "string option"

definition browser_may_be_required :: StructuredHint where
  "browser_may_be_required = \<lparr>sh_code = ''browser_may_be_required'', sh_related_tool = None,
     sh_related_capability = Some ''browser''\<rparr>"

definition advanced_processing_may_be_required :: StructuredHint where
  "advanced_processing_may_be_required = \<lparr>sh_code = ''advanced_processing_may_be_required'',
     sh_related_tool = None, sh_related_capability = Some ''advanced_content_processing''\<rparr>"

definition native_processing_unsupported :: StructuredHint where
  "native_processing_unsupported = \<lparr>sh_code = ''native_processing_unsupported'',
     sh_related_tool = None, sh_related_capability = Some ''native_content_processing''\<rparr>"

subsection \<open>Outcomes and results (application/common/results.py)\<close>

datatype OperationOutcome =
    OO_SUCCEEDED | OO_PARTIAL_SUCCESS | OO_FAILED | OO_REJECTED | OO_CANCELLED | OO_UNKNOWN

datatype PublicOperationOutcome =
    PO_SUCCEEDED | PO_PARTIAL | PO_FAILED | PO_REJECTED | PO_CANCELLED | PO_UNKNOWN

datatype LeafOutcome = LO_SUCCEEDED | LO_FAILED | LO_REJECTED | LO_CANCELLED | LO_UNKNOWN

fun outcome_value :: "OperationOutcome \<Rightarrow> string" where
  "outcome_value OO_SUCCEEDED = ''succeeded''"
| "outcome_value OO_PARTIAL_SUCCESS = ''partial_success''"
| "outcome_value OO_FAILED = ''failed''"
| "outcome_value OO_REJECTED = ''rejected''"
| "outcome_value OO_CANCELLED = ''cancelled''"
| "outcome_value OO_UNKNOWN = ''unknown''"

text \<open>\<open>PublicOperationOutcome(value)\<close>: the enum lookup, which raises on an unknown value.\<close>

definition public_of_value :: "string \<Rightarrow> PublicOperationOutcome option" where
  "public_of_value v = map_of
     [(''succeeded'', PO_SUCCEEDED), (''partial'', PO_PARTIAL), (''failed'', PO_FAILED),
      (''rejected'', PO_REJECTED), (''cancelled'', PO_CANCELLED), (''unknown'', PO_UNKNOWN)] v"

definition public_outcome :: "OperationOutcome \<Rightarrow> PublicOperationOutcome option" where
  "public_outcome oc =
     (if oc = OO_PARTIAL_SUCCESS then Some PO_PARTIAL else public_of_value (outcome_value oc))"

record 'd OperationResult =
  or_operation_id :: string
  or_outcome :: OperationOutcome
  or_data :: "'d option"
  or_error :: "OperationError option"
  or_warnings :: "Warning list"
  or_hints :: "StructuredHint list"

record 'd PublicOperationResult =
  pr_operation_id :: string
  pr_outcome :: PublicOperationOutcome
  pr_data :: "'d option"
  pr_error :: "OperationError option"
  pr_warnings :: "Warning list"
  pr_hints :: "StructuredHint list"

record 'd BatchItemResult =
  bi_index :: int
  bi_outcome :: LeafOutcome
  bi_data :: "'d option"
  bi_error :: "OperationError option"
  bi_warnings :: "Warning list"
  bi_hints :: "StructuredHint list"

text \<open>The validators that run when such a value is built.\<close>

definition operation_result_ok :: "'d OperationResult \<Rightarrow> bool" where
  "operation_result_ok r \<longleftrightarrow>
     (if or_outcome r \<in> {OO_SUCCEEDED, OO_PARTIAL_SUCCESS} then or_error r = None
      else or_error r \<noteq> None)
     \<and> length (or_warnings r) \<le> 16 \<and> length (or_hints r) \<le> 16"

definition batch_item_ok :: "'d BatchItemResult \<Rightarrow> bool" where
  "batch_item_ok i \<longleftrightarrow> 0 \<le> bi_index i
     \<and> \<not> (bi_outcome i = LO_SUCCEEDED \<and> bi_error i \<noteq> None)
     \<and> \<not> (bi_outcome i \<noteq> LO_SUCCEEDED \<and> bi_error i = None)
     \<and> length (bi_warnings i) \<le> 16 \<and> length (bi_hints i) \<le> 16"

definition project_result :: "'d OperationResult \<Rightarrow> 'd PublicOperationResult option" where
  "project_result r = (case public_outcome (or_outcome r) of None \<Rightarrow> None
     | Some oc \<Rightarrow> Some \<lparr>pr_operation_id = or_operation_id r, pr_outcome = oc, pr_data = or_data r,
         pr_error = or_error r, pr_warnings = or_warnings r, pr_hints = or_hints r\<rparr>)"

datatype results_error = EmptyBatch | DuplicateIndexes

definition aggregate_batch_outcome :: "LeafOutcome list \<Rightarrow> results_error + OperationOutcome" where
  "aggregate_batch_outcome os =
     (if os = [] then Inl EmptyBatch
      else if list_all (\<lambda>x. x = LO_SUCCEEDED) os then Inr OO_SUCCEEDED
      else if list_ex (\<lambda>x. x = LO_SUCCEEDED) os then Inr OO_PARTIAL_SUCCESS
      else if list_ex (\<lambda>x. x = LO_UNKNOWN) os then Inr OO_UNKNOWN
      else if list_all (\<lambda>x. x = LO_REJECTED) os then Inr OO_REJECTED
      else if list_all (\<lambda>x. x = LO_CANCELLED) os then Inr OO_CANCELLED
      else Inr OO_FAILED)"

definition ordered_batch_items ::
  "'d BatchItemResult list \<Rightarrow> results_error + 'd BatchItemResult list" where
  "ordered_batch_items items =
     (let indexes = map bi_index items in
      if card (set indexes) \<noteq> length indexes then Inl DuplicateIndexes
      else Inr (sort_key bi_index items))"

text \<open>\<open>asyncio.gather\<close> over the numbered items of a batch: every item runs to its end one way or another,
  here in the order of the list; the first exception in the order of the items is raised.\<close>

fun gather_all :: "(int \<Rightarrow> 'a \<Rightarrow> 's \<Rightarrow> ('e + 'b) \<times> 's) \<Rightarrow> int \<Rightarrow> 'a list \<Rightarrow> 's \<Rightarrow> ('e + 'b list) \<times> 's" where
  "gather_all run i [] s = (Inr [], s)"
| "gather_all run i (x # xs) s = (case run i x s of (r, s) \<Rightarrow>
     (case gather_all run (i + 1) xs s of (rs, s) \<Rightarrow>
       (res_bind r (\<lambda>item. res_bind rs (\<lambda>items. Inr (item # items))), s)))"

datatype RetryClass = SAFE_RETRY | IDEMPOTENT_RETRY | NEVER_AUTOMATIC | PHASE_EVIDENCE_REQUIRED

datatype ExecutionStage =
    BEFORE_DISPATCH | DISPATCHED | EXECUTING | SIDE_EFFECT_POSSIBLE | TERMINAL_KNOWN | RESPONSE_LOST

record OperationEffects =
  ef_billable_cost_possible :: bool
  ef_resource_creation_possible :: bool
  ef_external_side_effect_possible :: bool

definition no_effects :: OperationEffects where
  "no_effects = \<lparr>ef_billable_cost_possible = False, ef_resource_creation_possible = False,
     ef_external_side_effect_possible = False\<rparr>"

definition automatic_retry_allowed ::
  "RetryClass \<Rightarrow> ExecutionStage \<Rightarrow> OperationEffects \<Rightarrow> bool \<Rightarrow> bool \<Rightarrow> bool" where
  "automatic_retry_allowed cls stage effects error_retryable idempotency_proven =
     (if \<not> error_retryable then False
      else if cls = NEVER_AUTOMATIC then False
      else if cls = IDEMPOTENT_RETRY
        then idempotency_proven \<and> \<not> ef_billable_cost_possible effects
      else if cls = PHASE_EVIDENCE_REQUIRED then stage = BEFORE_DISPATCH
      else \<not> (ef_billable_cost_possible effects \<or> ef_resource_creation_possible effects
               \<or> ef_external_side_effect_possible effects))"

subsection \<open>Trusted retry descriptors (transport/mcp/retry.py)\<close>

record TrustedToolRetryDescriptor =
  td_retry_class :: RetryClass
  td_effects :: OperationEffects
  td_blind_retry_after_possible_dispatch :: bool
  td_idempotency_proven :: bool

definition trusted_retry_descriptor :: "string \<Rightarrow> TrustedToolRetryDescriptor option" where
  "trusted_retry_descriptor tool = map_of
     [(''web_search'', \<lparr>td_retry_class = PHASE_EVIDENCE_REQUIRED,
         td_effects = no_effects\<lparr>ef_billable_cost_possible := True\<rparr>,
         td_blind_retry_after_possible_dispatch = False, td_idempotency_proven = False\<rparr>),
      (''web_fetch'', \<lparr>td_retry_class = PHASE_EVIDENCE_REQUIRED,
         td_effects = no_effects\<lparr>ef_resource_creation_possible := True\<rparr>,
         td_blind_retry_after_possible_dispatch = False, td_idempotency_proven = False\<rparr>),
      (''content_get'', \<lparr>td_retry_class = SAFE_RETRY, td_effects = no_effects,
         td_blind_retry_after_possible_dispatch = True, td_idempotency_proven = False\<rparr>),
      (''content_parse'', \<lparr>td_retry_class = IDEMPOTENT_RETRY,
         td_effects = no_effects\<lparr>ef_resource_creation_possible := True\<rparr>,
         td_blind_retry_after_possible_dispatch = True, td_idempotency_proven = True\<rparr>)] tool"

subsection \<open>Principals and authorization (context.py, auth.py)\<close>

record PrincipalContext =
  pc_principal_id :: string
  pc_scopes :: "string set"
  pc_registry_revision :: "string option"

definition require_scope :: "PrincipalContext \<Rightarrow> string \<Rightarrow> AuthenticationFailure + unit" where
  "require_scope p scope =
     (if ''*'' \<notin> pc_scopes p \<and> scope \<notin> pc_scopes p then Inl INSUFFICIENT_SCOPE else Inr ())"

definition require_owner :: "PrincipalContext \<Rightarrow> string \<Rightarrow> AuthenticationFailure + unit" where
  "require_owner p owner =
     (if pc_principal_id p \<noteq> owner then Inl OWNER_ACCESS_DENIED else Inr ())"

subsection \<open>Deadlines (core/time.py, context.py)\<close>

text \<open>A clock reading is the pair of its wall-clock instant and its monotonic seconds.\<close>

record Clock =
  ck_utc_now :: instant
  ck_monotonic :: rat

type_synonym Deadline = rat

definition deadline_after :: "Clock \<Rightarrow> rat \<Rightarrow> Deadline option" where
  "deadline_after c timeout = (if timeout < 0 then None else Some (ck_monotonic c + timeout))"

definition deadline_remaining :: "Deadline \<Rightarrow> Clock \<Rightarrow> rat" where
  "deadline_remaining d c = max 0 (d - ck_monotonic c)"

definition deadline_expired :: "Deadline \<Rightarrow> Clock \<Rightarrow> bool" where
  "deadline_expired d c \<longleftrightarrow> deadline_remaining d c = 0"

definition deadline_child :: "Deadline \<Rightarrow> Clock \<Rightarrow> rat \<Rightarrow> Deadline option" where
  "deadline_child d c timeout = map_option (min d) (deadline_after c timeout)"

text \<open>\<open>FakeClock.advance\<close>; the wall clock counts microseconds.\<close>

definition clock_advance :: "Clock \<Rightarrow> rat \<Rightarrow> Clock option" where
  "clock_advance c seconds = (if seconds < 0 then None
     else Some \<lparr>ck_utc_now = ck_utc_now c + py_round (seconds * 1000000),
                ck_monotonic = ck_monotonic c + seconds\<rparr>)"

definition remaining_seconds :: "Deadline option \<Rightarrow> Clock \<Rightarrow> rat option" where
  "remaining_seconds d c = (case d of None \<Rightarrow> None | Some x \<Rightarrow> Some (deadline_remaining x c))"

definition downstream_deadline :: "Deadline option \<Rightarrow> Clock \<Rightarrow> rat \<Rightarrow> Deadline option" where
  "downstream_deadline d c timeout =
     (case deadline_after c timeout of None \<Rightarrow> None
      | Some requested \<Rightarrow> (case d of None \<Rightarrow> Some requested
          | Some parent \<Rightarrow> deadline_child parent c timeout))"

text \<open>The context a request carries: who asks, under which operation id, until when, and whether its
  cancellation was already requested.\<close>

record ExecutionContext =
  cx_operation_id :: string
  cx_principal :: PrincipalContext
  cx_cancel_requested :: bool
  cx_deadline :: "Deadline option"

subsection \<open>Identifiers (core/ids.py)\<close>

datatype IdPrefix = OPERATION | CONTENT

fun id_prefix_value :: "IdPrefix \<Rightarrow> string" where
  "id_prefix_value OPERATION = ''op''"
| "id_prefix_value CONTENT = ''cnt''"

text \<open>\<open>Uuid4IdGenerator.new\<close> with the hexadecimal digits of the UUID as an argument.\<close>

definition new_id :: "IdPrefix \<Rightarrow> string \<Rightarrow> string" where
  "new_id p hex = id_prefix_value p @ ''_'' @ hex"

definition deterministic_new_id :: "IdPrefix \<Rightarrow> string \<Rightarrow> string option" where
  "deterministic_new_id p v =
     (if length v \<noteq> 32 \<or> \<not> list_all is_hex_lower v then None else Some (new_id p v))"

definition is_valid_id :: "string \<Rightarrow> IdPrefix \<Rightarrow> bool" where
  "is_valid_id v p =
     (let expected = id_prefix_value p @ ''_'';
          suffix = (if starts_with expected v then drop (length expected) v else v)
      in starts_with expected v \<and> length suffix = 32 \<and> list_all is_hex_lower suffix)"

section \<open>Facts about the shared contracts\<close>

subsection \<open>Batch aggregation\<close>

lemma aggregate_total [simp]: "os \<noteq> [] \<Longrightarrow> \<exists>oc. aggregate_batch_outcome os = Inr oc"
  by (simp add: aggregate_batch_outcome_def)

definition aggregate_of_set :: "LeafOutcome set \<Rightarrow> OperationOutcome" where
  "aggregate_of_set A =
     (if A = {LO_SUCCEEDED} then OO_SUCCEEDED
      else if LO_SUCCEEDED \<in> A then OO_PARTIAL_SUCCESS
      else if LO_UNKNOWN \<in> A then OO_UNKNOWN
      else if A = {LO_REJECTED} then OO_REJECTED
      else if A = {LO_CANCELLED} then OO_CANCELLED else OO_FAILED)"

lemma aggregate_eq:
  assumes "os \<noteq> []"
  shows "aggregate_batch_outcome os = Inr (aggregate_of_set (set os))"
proof -
  have all_iff: "list_all (\<lambda>x. x = a) os \<longleftrightarrow> set os = {a}" for a
    using assms by (auto simp: list_all_iff) (metis list.set_intros(1) neq_Nil_conv)
  show ?thesis
    using assms unfolding aggregate_batch_outcome_def aggregate_of_set_def all_iff
    by (simp add: list_ex_iff)
qed

lemma aggregate_of_set_success:
  "aggregate_of_set A \<in> {OO_SUCCEEDED, OO_PARTIAL_SUCCESS} \<longleftrightarrow> LO_SUCCEEDED \<in> A"
  by (auto simp: aggregate_of_set_def)

lemma aggregate_of_set_unknown:
  "aggregate_of_set A = OO_UNKNOWN \<longleftrightarrow> LO_UNKNOWN \<in> A \<and> LO_SUCCEEDED \<notin> A"
  by (auto simp: aggregate_of_set_def)

lemma aggregate_of_set_single:
  "aggregate_of_set A = OO_SUCCEEDED \<longleftrightarrow> A = {LO_SUCCEEDED}"
  "aggregate_of_set A = OO_REJECTED \<longleftrightarrow> A = {LO_REJECTED}"
  "aggregate_of_set A = OO_CANCELLED \<longleftrightarrow> A = {LO_CANCELLED}"
  by (auto simp: aggregate_of_set_def)

lemma aggregate_no_success:
  assumes "aggregate_batch_outcome os = Inr oc" "oc \<notin> {OO_SUCCEEDED, OO_PARTIAL_SUCCESS}"
  shows "os \<noteq> [] \<and> LO_SUCCEEDED \<notin> set os"
proof -
  have ne: "os \<noteq> []"
    using assms(1) by (auto simp: aggregate_batch_outcome_def)
  then have "oc = aggregate_of_set (set os)"
    using assms(1) by (simp add: aggregate_eq)
  then show ?thesis
    using ne assms(2) aggregate_of_set_success [of "set os"] by blast
qed

text \<open>Aggregation of a batch never hides a possible side effect. For every non-empty batch
  it returns an outcome; the batch counts as unsuccessful exactly when no item succeeded, and
  then an item with an unknown outcome makes the whole batch unknown, whatever the others are.
  The outcome does not depend on the order in which the items completed.\<close>

theorem aggregate_batch_outcome_sound:
  assumes "os \<noteq> []"
  shows "\<exists>oc. aggregate_batch_outcome os = Inr oc
      \<and> (oc = OO_SUCCEEDED \<longleftrightarrow> (\<forall>x \<in> set os. x = LO_SUCCEEDED))
      \<and> (oc \<in> {OO_SUCCEEDED, OO_PARTIAL_SUCCESS} \<longleftrightarrow> LO_SUCCEEDED \<in> set os)
      \<and> (oc = OO_UNKNOWN \<longleftrightarrow> LO_UNKNOWN \<in> set os \<and> LO_SUCCEEDED \<notin> set os)
      \<and> (oc = OO_REJECTED \<longleftrightarrow> set os = {LO_REJECTED})
      \<and> (\<forall>ps. mset ps = mset os \<longrightarrow> aggregate_batch_outcome ps = Inr oc)"
proof (intro exI conjI allI impI)
  let ?oc = "aggregate_of_set (set os)"
  show "aggregate_batch_outcome os = Inr ?oc"
    by (rule aggregate_eq [OF assms])
  show "?oc = OO_SUCCEEDED \<longleftrightarrow> (\<forall>x \<in> set os. x = LO_SUCCEEDED)"
    using assms unfolding aggregate_of_set_single(1) by (cases os) auto
  show "?oc \<in> {OO_SUCCEEDED, OO_PARTIAL_SUCCESS} \<longleftrightarrow> LO_SUCCEEDED \<in> set os"
    by (rule aggregate_of_set_success)
  show "?oc = OO_UNKNOWN \<longleftrightarrow> LO_UNKNOWN \<in> set os \<and> LO_SUCCEEDED \<notin> set os"
    by (rule aggregate_of_set_unknown)
  show "?oc = OO_REJECTED \<longleftrightarrow> set os = {LO_REJECTED}"
    by (rule aggregate_of_set_single(2))
  fix ps
  assume "mset ps = mset os"
  then have "set ps = set os" "ps \<noteq> []"
    using assms by (auto dest: mset_eq_setD)
  then show "aggregate_batch_outcome ps = Inr ?oc"
    by (simp add: aggregate_eq)
qed

theorem aggregate_batch_outcome_sound_witness:
  "\<exists>oc. aggregate_batch_outcome [LO_FAILED, LO_UNKNOWN] = Inr oc
      \<and> (oc = OO_UNKNOWN \<longleftrightarrow> LO_UNKNOWN \<in> set [LO_FAILED, LO_UNKNOWN]
           \<and> LO_SUCCEEDED \<notin> set [LO_FAILED, LO_UNKNOWN])"
  using aggregate_batch_outcome_sound [of "[LO_FAILED, LO_UNKNOWN]"] by auto

lemma gather_all_items:
  assumes "gather_all run i xs s = (Inr items, s')" "0 \<le> i"
    and "\<And>i x s item. 0 \<le> i \<Longrightarrow> fst (run i x s) = Inr item \<Longrightarrow> batch_item_ok item \<and> bi_index item = i"
  shows "map bi_index items = map (\<lambda>k. i + int k) [0..<length xs] \<and> list_all batch_item_ok items"
  using assms(1,2)
proof (induction xs arbitrary: i s items)
  case (Cons x xs)
  obtain r s1 where r: "run i x s = (r, s1)" by fastforce
  obtain rs s2 where rs: "gather_all run (i + 1) xs s1 = (rs, s2)" by fastforce
  obtain item rest where it: "r = Inr item" "rs = Inr rest" "items = item # rest" "s' = s2"
    using Cons.prems(1) r rs by (auto simp: res_simps)
  have "batch_item_ok item" "bi_index item = i"
    using assms(3) [of i x s item] r it(1) Cons.prems(2) by auto
  moreover have "map bi_index rest = map (\<lambda>k. (i + 1) + int k) [0..<length xs]" "list_all batch_item_ok rest"
    using Cons.IH [of "i + 1" s1 rest] rs it(2,4) Cons.prems(2) by auto
  ultimately show ?case using it(3) by (simp only: length_Cons upt_shift list.map list.pred_inject)
qed simp

lemma gather_all_error:
  assumes "gather_all run i xs s = (Inl e, s')" "\<And>i x s e. fst (run i x s) = Inl e \<Longrightarrow> P e"
  shows "P e"
  using assms(1)
proof (induction xs arbitrary: i s)
  case (Cons x xs)
  obtain r s1 where r: "run i x s = (r, s1)" by fastforce
  obtain rs s2 where rs: "gather_all run (i + 1) xs s1 = (rs, s2)" by fastforce
  have "r = Inl e \<or> rs = Inl e \<and> s2 = s'" using Cons.prems r rs by (auto simp: res_simps)
  then show ?case using assms(2) [of i x s e] r rs Cons.IH by auto
qed simp

lemma card_set_map_distinct: "card (set (map f xs)) = length xs \<longleftrightarrow> distinct (map f xs)"
  by (metis card_distinct distinct_card length_map)

text \<open>\<open>ordered_batch_items\<close> accepts exactly the batches whose indexes are pairwise
  different, and then returns the same items in increasing order of their index.\<close>

theorem ordered_batch_items_sorts:
  "ordered_batch_items items =
     (if distinct (map bi_index items) then Inr (sort_key bi_index items) else Inl DuplicateIndexes)
   \<and> mset (sort_key bi_index items) = mset items
   \<and> sorted (map bi_index (sort_key bi_index items))"
  using card_set_map_distinct [of bi_index items]
  by (simp add: ordered_batch_items_def Let_def)

subsection \<open>Retry policy\<close>

text \<open>An automatic retry never risks a second charge. Whatever its class and the proof of
  idempotency, an operation that may cost money is retried only under phase evidence that the
  first attempt was not dispatched, and an operation that may create a resource or act outside
  only then or under a proof of idempotency; an error that is not retryable is never retried.\<close>

theorem automatic_retry_safe:
  "\<not> automatic_retry_allowed cls stage effects False proven
   \<and> (automatic_retry_allowed cls stage effects retryable proven \<and> ef_billable_cost_possible effects
      \<longrightarrow> cls = PHASE_EVIDENCE_REQUIRED \<and> stage = BEFORE_DISPATCH)
   \<and> (automatic_retry_allowed cls stage effects retryable proven
        \<and> (ef_resource_creation_possible effects \<or> ef_external_side_effect_possible effects)
      \<longrightarrow> (cls = PHASE_EVIDENCE_REQUIRED \<and> stage = BEFORE_DISPATCH)
          \<or> (cls = IDEMPOTENT_RETRY \<and> proven))"
  by (cases cls) (auto simp: automatic_retry_allowed_def)

theorem automatic_retry_safe_witness:
  "automatic_retry_allowed PHASE_EVIDENCE_REQUIRED BEFORE_DISPATCH
       (no_effects\<lparr>ef_billable_cost_possible := True\<rparr>) True False
   \<and> \<not> automatic_retry_allowed SAFE_RETRY BEFORE_DISPATCH
       (no_effects\<lparr>ef_billable_cost_possible := True\<rparr>) True True"
  using automatic_retry_safe [of SAFE_RETRY BEFORE_DISPATCH
      "no_effects\<lparr>ef_billable_cost_possible := True\<rparr>" True True]
  by (simp add: automatic_retry_allowed_def no_effects_def)

lemma trusted_descriptor_cases:
  assumes "trusted_retry_descriptor tool = Some d"
  shows "tool \<in> {''web_search'', ''web_fetch'', ''content_get'', ''content_parse''}"
  using assms by (auto simp: trusted_retry_descriptor_def split: if_splits)

text \<open>The retry descriptor of every MCP tool agrees with the retry policy: a retryable error
  of a tool may be retried after a possible dispatch exactly when its descriptor says that a
  blind retry is allowed, and before dispatch it may always be retried.\<close>

theorem trusted_descriptors_agree:
  assumes "trusted_retry_descriptor tool = Some d"
  shows "automatic_retry_allowed (td_retry_class d) stage (td_effects d) True
           (td_idempotency_proven d)
         \<longleftrightarrow> stage = BEFORE_DISPATCH \<or> td_blind_retry_after_possible_dispatch d"
  using assms
  by (auto simp: trusted_retry_descriptor_def automatic_retry_allowed_def no_effects_def
      split: if_splits)

theorem trusted_descriptors_agree_witness:
  "\<exists>d. trusted_retry_descriptor ''web_search'' = Some d
     \<and> \<not> automatic_retry_allowed (td_retry_class d) DISPATCHED (td_effects d) True
           (td_idempotency_proven d)"
proof -
  obtain d where d: "trusted_retry_descriptor ''web_search'' = Some d"
    "\<not> td_blind_retry_after_possible_dispatch d"
    by (simp add: trusted_retry_descriptor_def)
  then show ?thesis
    using trusted_descriptors_agree [OF d(1), of DISPATCHED] by auto
qed

subsection \<open>Outcome projection, scopes, deadlines, identifiers\<close>

lemma public_outcome_total: "\<exists>p. public_outcome oc = Some p"
  by (cases oc) (auto simp: public_outcome_def public_of_value_def)

lemma project_result_total: "\<exists>p. project_result r = Some p \<and> pr_error p = or_error r"
  using public_outcome_total [of "or_outcome r"] by (auto simp: project_result_def)

lemma require_scope_ok [res_simps]:
  "require_scope p s = Inr u \<longleftrightarrow> ''*'' \<in> pc_scopes p \<or> s \<in> pc_scopes p"
  by (simp add: require_scope_def)

lemma require_owner_ok [res_simps]: "require_owner p owner = Inr u \<longleftrightarrow> pc_principal_id p = owner"
  by (simp add: require_owner_def)

lemma deadline_after_ge: "deadline_after c t = Some d \<Longrightarrow> ck_monotonic c \<le> d"
  by (auto simp: deadline_after_def split: if_splits)

text \<open>A downstream deadline never exceeds the parent's budget: a child deadline is at most
  the parent deadline and at most the requested timeout away, and once any time passes the
  remaining budget shrinks by exactly that time until it is zero.\<close>

theorem deadline_budget:
  assumes "downstream_deadline (Some parent) c timeout = Some d"
    and "clock_advance c s = Some c'"
  shows "d \<le> parent \<and> deadline_remaining d c \<le> timeout
      \<and> deadline_remaining d c' = max 0 (deadline_remaining d c - s)"
proof -
  have t: "0 \<le> timeout" and d: "d = min parent (ck_monotonic c + timeout)"
    using assms(1)
    by (auto simp: downstream_deadline_def deadline_child_def deadline_after_def split: if_splits)
  have s: "0 \<le> s" and c': "ck_monotonic c' = ck_monotonic c + s"
    using assms(2) by (auto simp: clock_advance_def split: if_splits)
  show ?thesis
    using t s unfolding d deadline_remaining_def c' by (auto simp: max_def min_def)
qed

theorem deadline_budget_witness:
  "downstream_deadline (Some 7) \<lparr>ck_utc_now = 0, ck_monotonic = 5\<rparr> 10 = Some 7
   \<and> deadline_remaining 7 \<lparr>ck_utc_now = 1000000, ck_monotonic = 6\<rparr> = 1"
proof -
  let ?c = "\<lparr>ck_utc_now = 0, ck_monotonic = 5\<rparr>"
  have a: "downstream_deadline (Some 7) ?c 10 = Some 7"
    by (simp add: downstream_deadline_def deadline_after_def deadline_child_def)
  have b: "clock_advance ?c 1 = Some \<lparr>ck_utc_now = 1000000, ck_monotonic = 6\<rparr>"
    by (simp add: clock_advance_def py_round_def)
  show ?thesis
    using a deadline_budget [OF a b] by (simp add: deadline_remaining_def)
qed

lemma is_valid_id_new_id:
  "is_valid_id (new_id p hex) p \<longleftrightarrow> length hex = 32 \<and> list_all is_hex_lower hex"
  by (cases p) (simp_all add: is_valid_id_def new_id_def starts_with_def Let_def)

lemma deterministic_new_id_valid: "deterministic_new_id p v = Some i \<Longrightarrow> is_valid_id i p"
  using is_valid_id_new_id [of p v] by (auto simp: deterministic_new_id_def split: if_splits)

lemma new_id_inject: "new_id p a = new_id q b \<Longrightarrow> p = q \<and> a = b"
  by (cases p; cases q) (auto simp: new_id_def)

end
