(* ===== verification/Utf8.thy ===== *)
theory Utf8
  imports Prelude
begin

section \<open>UTF-8 as the Python codecs implement it\<close>

text \<open>
  The parts of the \<open>utf-8\<close> codec that the Content code calls: \<open>str.encode\<close>,
  \<open>bytes.decode\<close> with strict errors, and the incremental decoder
  \<open>codecs.getincrementaldecoder("utf-8")(errors="strict")\<close>, which keeps the bytes of an
  unfinished sequence until the next call. Text is a list of code points and a byte is a
  number; a byte list that holds a number above 255 does not decode.
\<close>

type_synonym codepoint = nat
type_synonym byte = nat
type_synonym bytes = "byte list"

definition scalar_value :: "codepoint \<Rightarrow> bool" where
  "scalar_value c \<longleftrightarrow> c < 0xD800 \<or> (0xE000 \<le> c \<and> c < 0x110000)"

definition encode_cp :: "codepoint \<Rightarrow> bytes" where
  "encode_cp c =
     (if c < 0x80 then [c]
      else if c < 0x800 then [0xC0 + c div 64, 0x80 + c mod 64]
      else if c < 0x10000 then [0xE0 + c div 4096, 0x80 + c div 64 mod 64, 0x80 + c mod 64]
      else [0xF0 + c div 262144, 0x80 + c div 4096 mod 64, 0x80 + c div 64 mod 64,
            0x80 + c mod 64])"

definition utf8_encode :: "codepoint list \<Rightarrow> bytes" where
  "utf8_encode cs = concat (map encode_cp cs)"

text \<open>One step of the decoder at the head of the input.\<close>

datatype u8_step = U8_Char codepoint nat | U8_Incomplete | U8_Invalid

definition cont :: "byte \<Rightarrow> bool" where
  "cont b \<longleftrightarrow> 0x80 \<le> b \<and> b \<le> 0xBF"

text \<open>The range of the second byte depends on the first one: overlong forms, surrogates and
  values above U+10FFFF are refused there.\<close>

definition second_ok :: "byte \<Rightarrow> byte \<Rightarrow> bool" where
  "second_ok b0 b1 \<longleftrightarrow> cont b1 \<and> (b0 = 0xE0 \<longrightarrow> 0xA0 \<le> b1) \<and> (b0 = 0xED \<longrightarrow> b1 \<le> 0x9F)
     \<and> (b0 = 0xF0 \<longrightarrow> 0x90 \<le> b1) \<and> (b0 = 0xF4 \<longrightarrow> b1 \<le> 0x8F)"

definition seq_len :: "byte \<Rightarrow> nat" where
  "seq_len b0 = (if b0 < 0x80 then 1 else if b0 < 0xC2 then 0 else if b0 < 0xE0 then 2
                 else if b0 < 0xF0 then 3 else if b0 < 0xF5 then 4 else 0)"

fun u8_head :: "bytes \<Rightarrow> u8_step" where
  "u8_head [] = U8_Incomplete"
| "u8_head (b0 # bs) =
     (if seq_len b0 = 0 then U8_Invalid
      else if seq_len b0 = 1 then U8_Char b0 1
      else (case bs of [] \<Rightarrow> U8_Incomplete
       | b1 # bs1 \<Rightarrow>
          if \<not> second_ok b0 b1 then U8_Invalid
          else if seq_len b0 = 2 then U8_Char ((b0 - 0xC0) * 64 + (b1 - 0x80)) 2
          else (case bs1 of [] \<Rightarrow> U8_Incomplete
           | b2 # bs2 \<Rightarrow>
              if \<not> cont b2 then U8_Invalid
              else if seq_len b0 = 3
                then U8_Char ((b0 - 0xE0) * 4096 + (b1 - 0x80) * 64 + (b2 - 0x80)) 3
              else (case bs2 of [] \<Rightarrow> U8_Incomplete
               | b3 # bs3 \<Rightarrow>
                  if \<not> cont b3 then U8_Invalid
                  else U8_Char ((b0 - 0xF0) * 262144 + (b1 - 0x80) * 4096
                                + (b2 - 0x80) * 64 + (b3 - 0x80)) 4))))"

lemma u8_head_bound: "u8_head bs = U8_Char c n \<Longrightarrow> 0 < n \<and> n \<le> length bs"
  by (cases bs) (auto split: if_splits list.splits)

text \<open>The incremental decoder: the characters it can deliver and the bytes it keeps.\<close>

function u8_feed :: "bytes \<Rightarrow> (codepoint list \<times> bytes) option" where
  "u8_feed bs =
     (if bs = [] then Some ([], [])
      else case u8_head bs of
        U8_Invalid \<Rightarrow> None
      | U8_Incomplete \<Rightarrow> Some ([], bs)
      | U8_Char c n \<Rightarrow> (case u8_feed (drop n bs) of
          None \<Rightarrow> None | Some (cs, rest) \<Rightarrow> Some (c # cs, rest)))"
  by pat_completeness auto
termination
proof (relation "measure length", goal_cases)
  case 1
  show ?case by simp
next
  case (2 bs c n)
  then show ?case using u8_head_bound [of bs c n] by auto
qed

declare u8_feed.simps [simp del]

lemma u8_feed_Nil [simp]: "u8_feed [] = Some ([], [])"
  by (simp add: u8_feed.simps)

text \<open>\<open>decoder.decode(b"", final=True)\<close> fails when bytes are still pending.\<close>

definition u8_final :: "bytes \<Rightarrow> unit option" where
  "u8_final pending = (if pending = [] then Some () else None)"

text \<open>\<open>bytes.decode("utf-8")\<close>.\<close>

definition utf8_decode :: "bytes \<Rightarrow> codepoint list option" where
  "utf8_decode bs =
     (case u8_feed bs of None \<Rightarrow> None | Some (cs, rest) \<Rightarrow> if rest = [] then Some cs else None)"

subsection \<open>Round trip\<close>

lemma encode_cp_length [simp]: "0 < length (encode_cp c)" "length (encode_cp c) \<le> 4"
  by (simp_all add: encode_cp_def)

lemma encode_cp_not_Nil [simp]: "encode_cp c \<noteq> []"
  by (simp add: encode_cp_def)

lemma split_base64:
  fixes c :: nat
  shows "c div 64 * 64 + c mod 64 = c"
    and "c div 4096 * 4096 + c div 64 mod 64 * 64 + c mod 64 = c"
    and "c div 262144 * 262144 + c div 4096 mod 64 * 4096 + c div 64 mod 64 * 64 + c mod 64 = c"
proof -
  have 1: "\<And>n :: nat. n div 64 * 64 + n mod 64 = n"
    by simp
  have 2: "c div 4096 = c div 64 div 64" "c div 262144 = c div 64 div 64 div 64"
    by (simp_all flip: div_mult2_eq)
  show "c div 64 * 64 + c mod 64 = c"
    by (rule 1)
  show "c div 4096 * 4096 + c div 64 mod 64 * 64 + c mod 64 = c"
    using 1 [of c] 1 [of "c div 64"] unfolding 2 by linarith
  show "c div 262144 * 262144 + c div 4096 mod 64 * 4096 + c div 64 mod 64 * 64 + c mod 64 = c"
    using 1 [of c] 1 [of "c div 64"] 1 [of "c div 64 div 64"] unfolding 2 by linarith
qed

lemma second_ok_three:
  assumes "0x800 \<le> c" "c < 0x10000" "scalar_value c"
  shows "second_ok (0xE0 + c div 4096) (0x80 + c div 64 mod 64)"
proof -
  define n q r where "n = c div 64" and "q = n div 64" and "r = n mod 64"
  have "n = q * 64 + r" "r < 64"
    by (simp_all add: q_def r_def)
  moreover have "n < 0x360 \<or> 0x380 \<le> n" "0x20 \<le> n" "n < 0x400"
    using assms unfolding scalar_value_def n_def by auto
  ultimately have "second_ok (0xE0 + q) (0x80 + r)"
    unfolding second_ok_def cont_def by (intro conjI impI) linarith+
  moreover have "c div 4096 = q"
    by (simp add: n_def q_def flip: div_mult2_eq)
  ultimately show ?thesis
    by (simp add: n_def r_def)
qed

lemma second_ok_four:
  assumes "0x10000 \<le> c" "c < 0x110000"
  shows "second_ok (0xF0 + c div 262144) (0x80 + c div 4096 mod 64)"
proof -
  define n q r where "n = c div 4096" and "q = n div 64" and "r = n mod 64"
  have "n = q * 64 + r" "r < 64"
    by (simp_all add: q_def r_def)
  moreover have "0x10 \<le> n" "n < 0x110"
    using assms unfolding n_def by auto
  ultimately have "second_ok (0xF0 + q) (0x80 + r)"
    unfolding second_ok_def cont_def by (intro conjI impI) linarith+
  moreover have "c div 262144 = q"
    by (simp add: n_def q_def flip: div_mult2_eq)
  ultimately show ?thesis
    by (simp add: n_def r_def)
qed

lemma u8_head_encode_cp:
  assumes "scalar_value c"
  shows "u8_head (encode_cp c @ bs) = U8_Char c (length (encode_cp c))"
proof -
  consider (one) "c < 0x80" | (two) "0x80 \<le> c" "c < 0x800" | (three) "0x800 \<le> c" "c < 0x10000"
    | (four) "0x10000 \<le> c" "c < 0x110000"
    using assms unfolding scalar_value_def by linarith
  then show ?thesis
  proof cases
    case one
    then show ?thesis by (simp add: encode_cp_def seq_len_def)
  next
    case two
    moreover have "2 \<le> c div 64" "c div 64 < 32" using two by auto
    ultimately show ?thesis
      using split_base64(1) [of c]
      by (auto simp: encode_cp_def seq_len_def second_ok_def cont_def)
  next
    case three
    moreover have "c div 4096 < 16" using three by auto
    ultimately show ?thesis
      using split_base64(2) [of c] second_ok_three [OF three assms]
      by (auto simp: encode_cp_def seq_len_def cont_def)
  next
    case four
    moreover have "c div 262144 < 5" using four by auto
    ultimately show ?thesis
      using split_base64(3) [of c] second_ok_four [OF four]
      by (auto simp: encode_cp_def seq_len_def cont_def)
  qed
qed

lemma u8_feed_encode_cp:
  assumes "scalar_value c"
  shows "u8_feed (encode_cp c @ bs) =
     (case u8_feed bs of None \<Rightarrow> None | Some (cs, rest) \<Rightarrow> Some (c # cs, rest))"
  using u8_head_encode_cp [OF assms, of bs]
  by (subst u8_feed.simps) simp

lemma u8_feed_encode:
  assumes "list_all scalar_value cs"
  shows "u8_feed (utf8_encode cs @ bs) =
     (case u8_feed bs of None \<Rightarrow> None | Some (ds, rest) \<Rightarrow> Some (cs @ ds, rest))"
  using assms
proof (induction cs)
  case Nil
  then show ?case by (simp add: utf8_encode_def split: option.split)
next
  case (Cons c cs)
  then show ?case
    using u8_feed_encode_cp [of c "utf8_encode cs @ bs"]
    by (auto simp: utf8_encode_def split: option.splits)
qed

lemma utf8_decode_encode: "list_all scalar_value cs \<Longrightarrow> utf8_decode (utf8_encode cs) = Some cs"
  using u8_feed_encode [of cs "[]"] by (simp add: utf8_decode_def)

lemma utf8_encode_append [simp]: "utf8_encode (cs @ ds) = utf8_encode cs @ utf8_encode ds"
  by (simp add: utf8_encode_def)

lemma utf8_encode_Nil [simp]: "utf8_encode [] = []"
  by (simp add: utf8_encode_def)

lemma length_utf8_encode_ge: "length cs \<le> length (utf8_encode cs)"
proof (induction cs)
  case (Cons c cs)
  have "1 \<le> length (encode_cp c)"
    by (simp add: Suc_leI)
  then have "1 + length cs \<le> length (encode_cp c) + length (utf8_encode cs)"
    using Cons.IH by (rule add_mono)
  then show ?case by (simp add: utf8_encode_def)
qed simp

subsection \<open>Feeding the decoder in pieces\<close>

text \<open>Once the head of the input is decided, more input does not change the decision.\<close>

lemma u8_head_append:
  "u8_head bs = U8_Char c n \<Longrightarrow> u8_head (bs @ ds) = U8_Char c n"
  "u8_head bs = U8_Invalid \<Longrightarrow> u8_head (bs @ ds) = U8_Invalid"
  by (cases bs; auto split: if_splits list.splits)+

lemma u8_feed_append:
  "u8_feed (bs @ ds) =
     (case u8_feed bs of None \<Rightarrow> None
      | Some (cs, rest) \<Rightarrow> (case u8_feed (rest @ ds) of None \<Rightarrow> None
          | Some (es, rest') \<Rightarrow> Some (cs @ es, rest')))"
proof (induction bs rule: u8_feed.induct)
  case (1 bs)
  show ?case
  proof (cases "bs = []")
    case True
    then show ?thesis by (simp split: option.split)
  next
    case False
    show ?thesis
    proof (cases "u8_head bs")
      case (U8_Char c n)
      then have hd: "u8_head (bs @ ds) = U8_Char c n" and le: "n \<le> length bs"
        using u8_head_append(1) u8_head_bound by blast+
      have "u8_feed (bs @ ds) = (case u8_feed (drop n bs @ ds) of
          None \<Rightarrow> None | Some (cs, rest) \<Rightarrow> Some (c # cs, rest))"
        using hd le False by (subst u8_feed.simps) simp
      moreover have "u8_feed bs = (case u8_feed (drop n bs) of
          None \<Rightarrow> None | Some (cs, rest) \<Rightarrow> Some (c # cs, rest))"
        using U8_Char False by (subst u8_feed.simps) simp
      ultimately show ?thesis
        using 1 [OF False U8_Char] by (auto split: option.splits)
    next
      case U8_Incomplete
      then have "u8_feed bs = Some ([], bs)"
        using False by (subst u8_feed.simps) simp
      then show ?thesis by (simp split: option.split)
    next
      case U8_Invalid
      then have "u8_feed bs = None" "u8_feed (bs @ ds) = None"
        using False u8_head_append(2) [OF U8_Invalid, of ds]
        by (subst u8_feed.simps; simp)+
      then show ?thesis by simp
    qed
  qed
qed

lemma u8_feed_rest: "u8_feed bs = Some (cs, rest) \<Longrightarrow> u8_feed rest = Some ([], rest)"
proof (induction bs arbitrary: cs rule: u8_feed.induct)
  case (1 bs)
  show ?case
  proof (cases "bs = []")
    case True
    then show ?thesis using "1.prems" by simp
  next
    case False
    show ?thesis
    proof (cases "u8_head bs")
      case (U8_Char c n)
      then obtain ds where "u8_feed (drop n bs) = Some (ds, rest)"
        using "1.prems" False by (subst (asm) u8_feed.simps) (auto split: option.splits)
      then show ?thesis using "1.IH" [OF False U8_Char] by blast
    next
      case U8_Incomplete
      then have "u8_feed bs = Some ([], bs)" using False by (subst u8_feed.simps) simp
      then show ?thesis using "1.prems" by simp
    next
      case U8_Invalid
      then show ?thesis using "1.prems" False by (subst (asm) u8_feed.simps) simp
    qed
  qed
qed

end
