(* ===== verification/Content_Domain.thy ===== *)
theory Content_Domain
  imports Common Utf8
begin

section \<open>Content resources: values, states and invariants\<close>

text \<open>
  \<open>domain/content/models.py\<close> (states, transitions, \<open>ContentObject\<close>), the value models of
  \<open>application/content/models.py\<close>, the records of \<open>application/content/ports.py\<close> and the blob
  values of \<open>application/common/content_store.py\<close>.
\<close>

subsection \<open>States and kinds\<close>

datatype ContentState = CREATING | AVAILABLE | FAILED | EXPIRED | DELETED

datatype ContentRepresentationKind = RAW | TEXT | MARKDOWN | STRUCTURED | BINARY

datatype ContentFormat = FMT_HTML | FMT_TEXT | FMT_JSON | FMT_XML | FMT_CSV | FMT_PDF | FMT_UNKNOWN

datatype ParserAvailability = PA_AVAILABLE | PA_UNSUPPORTED | PA_JOB_REQUIRED

datatype ParserExecutionMode = INLINE | ISOLATED

fun content_transitions :: "ContentState \<Rightarrow> ContentState set" where
  "content_transitions CREATING = {AVAILABLE, FAILED}"
| "content_transitions AVAILABLE = {EXPIRED, DELETED}"
| "content_transitions FAILED = {DELETED}"
| "content_transitions EXPIRED = {DELETED}"
| "content_transitions DELETED = {}"

definition can_transition_content :: "ContentState \<Rightarrow> ContentState \<Rightarrow> bool" where
  "can_transition_content current target \<longleftrightarrow> target \<in> content_transitions current"

subsection \<open>Identifiers and digests\<close>

text \<open>The regular expressions \<open>^cnt_[0-9a-f]{32}$\<close> and \<open>^[0-9a-f]{64}$\<close>, matched in full.\<close>

definition content_id_ok :: "string \<Rightarrow> bool" where
  "content_id_ok v \<longleftrightarrow> take 4 v = ''cnt_'' \<and> length v = 36 \<and> list_all is_hex_lower (drop 4 v)"

definition sha256_ok :: "string \<Rightarrow> bool" where
  "sha256_ok v \<longleftrightarrow> length v = 64 \<and> list_all is_hex_lower v"

type_synonym ContentId = string

subsection \<open>Content objects\<close>

record ContentObject =
  content_id :: ContentId
  owner_principal_id :: string
  state :: ContentState
  revision :: int
  representation_kind :: ContentRepresentationKind
  created_at :: instant
  media_type :: "string option"
  detected_format :: "ContentFormat option"
  source_filename :: "codepoint list option"
  size_bytes :: "int option"
  sha256 :: "string option"
  expires_at :: "instant option"
  source_content_id :: "ContentId option"
  producer_capability :: "string option"
  producer_revision :: "string option"
  representation_schema_revision :: "string option"
  processing_profile_revision :: "string option"
  parameters_hash :: "string option"

text \<open>The errors of \<open>ContentObject.__post_init__\<close>, in the order of its checks. The timestamps
  are UTC instants by construction, so its timezone check has no counterpart.\<close>

datatype content_value_error =
    InvalidContentOwner | RevisionNotPositive | NegativeSize | InvalidSha256
  | SizeHashMismatch | AvailableWithoutIntegrity | RootWithProvenance | IncompleteProvenance
  | SelfDerived | InvalidParametersHash

definition provenance_fields :: "ContentObject \<Rightarrow> string option list" where
  "provenance_fields c = [producer_capability c, producer_revision c,
     representation_schema_revision c, processing_profile_revision c, parameters_hash c]"

definition content_object_check :: "ContentObject \<Rightarrow> content_value_error option" where
  "content_object_check c =
     (if \<not> (1 \<le> length (owner_principal_id c) \<and> length (owner_principal_id c) \<le> 128)
        then Some InvalidContentOwner
      else if revision c < 1 then Some RevisionNotPositive
      else if (case size_bytes c of None \<Rightarrow> False | Some n \<Rightarrow> n < 0) then Some NegativeSize
      else if (case sha256 c of None \<Rightarrow> False | Some h \<Rightarrow> \<not> sha256_ok h) then Some InvalidSha256
      else if (size_bytes c = None) \<noteq> (sha256 c = None) then Some SizeHashMismatch
      else if state c = AVAILABLE \<and> sha256 c = None then Some AvailableWithoutIntegrity
      else if source_content_id c = None \<and> list_ex (\<lambda>v. v \<noteq> None) (provenance_fields c)
        then Some RootWithProvenance
      else if source_content_id c \<noteq> None \<and> list_ex (\<lambda>v. v = None) (provenance_fields c)
        then Some IncompleteProvenance
      else if source_content_id c = Some (content_id c) then Some SelfDerived
      else if (case parameters_hash c of None \<Rightarrow> False | Some h \<Rightarrow> \<not> sha256_ok h)
        then Some InvalidParametersHash
      else None)"

definition content_object_ok :: "ContentObject \<Rightarrow> bool" where
  "content_object_ok c \<longleftrightarrow> content_object_check c = None"

record ContentRelation =
  rel_source_content_id :: ContentId
  rel_target_content_id :: ContentId
  rel_created_at :: instant

definition content_relation_ok :: "ContentRelation \<Rightarrow> bool" where
  "content_relation_ok r \<longleftrightarrow> rel_source_content_id r \<noteq> rel_target_content_id r"

subsection \<open>Application values (application/content/models.py, ports.py)\<close>

record ContentRef =
  cr_content_id :: string
  cr_media_type :: "string option"
  cr_representation :: ContentRepresentationKind
  cr_size_bytes :: int
  cr_sha256 :: string
  cr_created_at :: instant
  cr_expires_at :: "instant option"

record ContentInspection =
  in_size_bytes :: int
  in_sha256 :: string
  in_declared_media_type :: "string option"
  in_detected_media_type :: "string option"
  in_detected_format :: ContentFormat
  in_source_filename :: "codepoint list option"
  in_encoding :: "string option"
  in_parser_availability :: ParserAvailability
  in_warnings :: "Warning list"

record ParserDescriptor =
  pd_capability :: string
  pd_revision :: string
  pd_profile_revision :: string
  pd_supported_formats :: "ContentFormat list"
  pd_primary_representation :: ContentRepresentationKind
  pd_representation_schema_revision :: string
  pd_execution_mode :: ParserExecutionMode

definition parser_descriptor_ok :: "ParserDescriptor \<Rightarrow> bool" where
  "parser_descriptor_ok d \<longleftrightarrow> 1 \<le> length (pd_supported_formats d)
     \<and> length (pd_supported_formats d) \<le> 16 \<and> distinct (pd_supported_formats d)"

record NativeParseResult =
  np_source :: ContentRef
  np_representations :: "ContentRef list"
  np_reused :: bool
  np_parser_capability :: "string option"
  np_warnings :: "Warning list"
  np_hints :: "StructuredHint list"

record ParsedRepresentation =
  pp_representation :: ContentRepresentationKind
  pp_media_type :: string
  pp_schema_revision :: string
  pp_data :: bytes

record NativeParserOutput =
  po_representations :: "ParsedRepresentation list"
  po_warnings :: "Warning list"
  po_hints :: "StructuredHint list"

definition native_parser_output_ok :: "NativeParserOutput \<Rightarrow> bool" where
  "native_parser_output_ok p \<longleftrightarrow> 1 \<le> length (po_representations p)
     \<and> length (po_representations p) \<le> 8
     \<and> distinct (map (\<lambda>r. (pp_representation r, pp_schema_revision r)) (po_representations p))
     \<and> length (po_warnings p) \<le> 16 \<and> length (po_hints p) \<le> 16"

record ContentReadResult =
  rr_content :: ContentRef
  rr_text :: "codepoint list option"
  rr_returned_chars :: int
  rr_next_cursor :: "string option"
  rr_inspection :: "ContentInspection option"
  rr_available_representations :: "ContentRef list"

record ContentProvenance =
  pv_source_content_id :: string
  pv_producer_capability :: string
  pv_producer_revision :: string
  pv_representation_schema_revision :: string
  pv_processing_profile_revision :: string

record ContentMetadata =
  md_content :: ContentRef
  md_state :: ContentState
  md_representation_kind :: ContentRepresentationKind
  md_media_type :: "string option"
  md_detected_format :: "ContentFormat option"
  md_source_filename :: "codepoint list option"
  md_inspection :: "ContentInspection option"
  md_provenance :: "ContentProvenance option"
  md_available_representations :: "ContentRef list"
  md_retention_expires_at :: "instant option"

record ContentRepresentationSummary =
  rs_content :: ContentRef
  rs_representation_kind :: ContentRepresentationKind
  rs_provenance :: ContentProvenance

record ContentCursorClaims =
  cc_owner_principal_id :: string
  cc_content_id :: ContentId
  cc_content_revision :: int
  cc_byte_offset :: int

record ContentRecord =
  content :: ContentObject
  storage_key :: "string option"
  staging_key :: "string option"
  staged_at :: "instant option"
  available_at :: "instant option"
  updated_at :: instant
  failure_code :: "string option"
  inspection :: "ContentInspection option"

subsection \<open>Blobs (application/common/content_store.py)\<close>

record StoredBlob =
  sb_key :: string
  sb_sha256 :: string
  sb_size :: int

record StagedBlob =
  st_handle :: string
  st_sha256 :: string
  st_size :: int

record StagingEntry =
  se_handle :: string
  se_modified_at :: instant

section \<open>Facts about the values\<close>

lemma content_id_ok_iff: "content_id_ok v \<longleftrightarrow> is_valid_id v CONTENT"
proof -
  have "take 4 v = ''cnt_'' \<Longrightarrow> 4 \<le> length v"
    by (drule arg_cong [where f = length]) (simp add: min_def split: if_splits)
  then show ?thesis
    unfolding content_id_ok_def is_valid_id_def Let_def starts_with_def
    by (auto simp: eval_nat_numeral)
qed

lemma content_object_ok_iff:
  "content_object_ok c \<longleftrightarrow>
     1 \<le> length (owner_principal_id c) \<and> length (owner_principal_id c) \<le> 128 \<and> 1 \<le> revision c
     \<and> pred_option (\<lambda>n. 0 \<le> n) (size_bytes c) \<and> pred_option sha256_ok (sha256 c)
     \<and> (size_bytes c = None) = (sha256 c = None)
     \<and> (state c = AVAILABLE \<longrightarrow> sha256 c \<noteq> None)
     \<and> (source_content_id c = None \<longrightarrow> list_all (\<lambda>v. v = None) (provenance_fields c))
     \<and> (source_content_id c \<noteq> None \<longrightarrow> list_all (\<lambda>v. v \<noteq> None) (provenance_fields c))
     \<and> source_content_id c \<noteq> Some (content_id c)
     \<and> pred_option sha256_ok (parameters_hash c)"
proof -
  have p: "pred_option P v \<longleftrightarrow> \<not> (case v of None \<Rightarrow> False | Some x \<Rightarrow> \<not> P x)" for P and v :: "'x option"
    by (cases v) simp_all
  have n: "(case v of None \<Rightarrow> False | Some x \<Rightarrow> x < (0 :: int)) \<longleftrightarrow>
      (case v of None \<Rightarrow> False | Some x \<Rightarrow> \<not> 0 \<le> x)" for v
    by (cases v) auto
  have x1: "list_ex (\<lambda>v. v \<noteq> None) xs \<longleftrightarrow> \<not> list_all (\<lambda>v. v = None) xs"
    and x2: "list_ex (\<lambda>v. v = None) xs \<longleftrightarrow> \<not> list_all (\<lambda>v. v \<noteq> None) xs" for xs :: "'x option list"
    by (auto simp: list_ex_iff list_all_iff)
  have r: "revision c < 1 \<longleftrightarrow> \<not> 1 \<le> revision c" by auto
  show ?thesis
    unfolding content_object_ok_def content_object_check_def p n if_Some_None
    unfolding x1 x2 r simp_thms(6) by satx
qed

lemma content_object_ok_available:
  "content_object_ok c \<Longrightarrow> state c = AVAILABLE \<Longrightarrow>
     (\<exists>n h. size_bytes c = Some n \<and> sha256 c = Some h \<and> 0 \<le> n \<and> sha256_ok h)"
  by (cases "size_bytes c"; cases "sha256 c")
    (auto simp: content_object_ok_def content_object_check_def split: if_splits)

lemma can_transition_irrefl: "\<not> can_transition_content s s"
  by (cases s) (simp_all add: can_transition_content_def)

text \<open>The age of a state: it grows along every transition, so no state is entered twice.\<close>

fun state_rank :: "ContentState \<Rightarrow> nat" where
  "state_rank CREATING = 0"
| "state_rank AVAILABLE = 1"
| "state_rank FAILED = 1"
| "state_rank EXPIRED = 2"
| "state_rank DELETED = 3"

lemma can_transition_rank: "can_transition_content s t \<Longrightarrow> state_rank s < state_rank t"
  by (cases s; cases t) (simp_all add: can_transition_content_def)

end
