(* ===== verification/Content_Repository.thy ===== *)
theory Content_Repository
  imports Content_Domain
begin

section \<open>The Content repository over PostgreSQL\<close>

text \<open>
  \<open>infrastructure/database/content.py\<close> over the tables of
  \<open>infrastructure/database/models/content.py\<close> with the constraints of the migration
  \<open>alembic/versions/0003_content_core.py\<close>. A table is the list of its rows in the order of
  their identity column. Every operation works on the view of one session: the caller keeps
  the new view by committing or drops it by leaving the unit of work.

  SQLAlchemy sends the insert of \<open>session.add\<close> with the next statement or commit of the same
  transaction; here it is sent at once, so a constraint violation is reported by \<open>add\<close> itself.
  The widths of the character columns are not modelled.
\<close>

subsection \<open>Rows and constraints\<close>

record ContentObjectRow = ContentRecord +
  row_detected_media_type :: "string option"

record content_db =
  db_rows :: "ContentObjectRow list"
  db_relations :: "ContentRelation list"

definition empty_db :: content_db where
  "empty_db = \<lparr>db_rows = [], db_relations = []\<rparr>"

datatype repo_error =
    RowInvalid content_value_error | ConstraintViolation | NotDerivedContent
  | ClaimNotReadable | NoCompatibleWinner | RelationLimitNotPositive

text \<open>The check constraints of \<open>content_objects\<close> (the enum columns are typed).\<close>

definition row_constraints :: "ContentObjectRow \<Rightarrow> bool" where
  "row_constraints r \<longleftrightarrow> (let c = content r in
     revision c > 0
     \<and> (case size_bytes c of None \<Rightarrow> True | Some n \<Rightarrow> n \<ge> 0)
     \<and> (case sha256 c of None \<Rightarrow> True | Some h \<Rightarrow> sha256_ok h)
     \<and> (case parameters_hash c of None \<Rightarrow> True | Some h \<Rightarrow> sha256_ok h)
     \<and> (size_bytes c = None) = (sha256 c = None)
     \<and> (state c \<noteq> AVAILABLE \<or> (storage_key r \<noteq> None \<and> staging_key r = None
          \<and> size_bytes c \<noteq> None \<and> sha256 c \<noteq> None \<and> available_at r \<noteq> None))
     \<and> (source_content_id c = None \<or> list_all (\<lambda>v. v \<noteq> None) (provenance_fields c)))"

text \<open>The partial unique index \<open>uq_content_active_representation_identity\<close>.\<close>

definition active_derived :: "ContentObjectRow \<Rightarrow> bool" where
  "active_derived r \<longleftrightarrow>
     source_content_id (content r) \<noteq> None \<and> state (content r) \<in> {CREATING, AVAILABLE}"

type_synonym representation_identity =
  "string \<times> string option \<times> string option \<times> string option \<times> string option \<times> string option
   \<times> ContentRepresentationKind \<times> string option"

definition object_identity :: "ContentObject \<Rightarrow> representation_identity" where
  "object_identity c = (owner_principal_id c, source_content_id c, producer_capability c,
     producer_revision c, processing_profile_revision c, parameters_hash c,
     representation_kind c, representation_schema_revision c)"

abbreviation row_id :: "ContentObjectRow \<Rightarrow> ContentId" where
  "row_id r \<equiv> content_id (content r)"

definition unique_rows :: "ContentObjectRow list \<Rightarrow> bool" where
  "unique_rows rs \<longleftrightarrow> distinct (map row_id rs)
     \<and> distinct (map (\<lambda>r. object_identity (content r)) (filter active_derived rs))"

definition foreign_keys_ok :: "content_db \<Rightarrow> bool" where
  "foreign_keys_ok db \<longleftrightarrow>
     list_all (\<lambda>r. case source_content_id (content r) of None \<Rightarrow> True
                   | Some s \<Rightarrow> s \<in> set (map row_id (db_rows db))) (db_rows db)
     \<and> list_all (\<lambda>e. rel_source_content_id e \<in> set (map row_id (db_rows db))
          \<and> rel_target_content_id e \<in> set (map row_id (db_rows db))
          \<and> rel_source_content_id e \<noteq> rel_target_content_id e) (db_relations db)
     \<and> distinct (map (\<lambda>e. (rel_source_content_id e, rel_target_content_id e)) (db_relations db))"

definition db_constraints :: "content_db \<Rightarrow> bool" where
  "db_constraints db \<longleftrightarrow>
     list_all row_constraints (db_rows db) \<and> unique_rows (db_rows db) \<and> foreign_keys_ok db"

subsection \<open>Reading rows\<close>

text \<open>\<open>_record\<close> builds the domain object again, so its checks run on every read.\<close>

definition read_row :: "ContentObjectRow \<Rightarrow> repo_error + ContentRecord" where
  "read_row r = (case content_object_check (content r) of
     Some e \<Rightarrow> Inl (RowInvalid e) | None \<Rightarrow> Inr (ContentRecord.truncate r))"

definition find_row :: "ContentId \<Rightarrow> content_db \<Rightarrow> ContentObjectRow option" where
  "find_row cid db = find (\<lambda>r. row_id r = cid) (db_rows db)"

definition db_get :: "ContentId \<Rightarrow> content_db \<Rightarrow> repo_error + ContentRecord option" where
  "db_get cid db = (case find_row cid db of None \<Rightarrow> Inr None
     | Some r \<Rightarrow> res_bind (read_row r) (\<lambda>x. Inr (Some x)))"

subsection \<open>Inserting\<close>

text \<open>\<open>_content_values\<close>: the columns a new row gets; \<open>updated_at\<close> starts at \<open>created_at\<close>.\<close>

definition content_values :: "ContentObject \<Rightarrow> ContentObjectRow" where
  "content_values c = \<lparr>content = c, storage_key = None, staging_key = None, staged_at = None,
     available_at = None, updated_at = created_at c, failure_code = None, inspection = None,
     row_detected_media_type = None\<rparr>"

definition insert_row :: "ContentObjectRow \<Rightarrow> content_db \<Rightarrow> content_db" where
  "insert_row r db = db\<lparr>db_rows := db_rows db @ [r]\<rparr>"

definition contents_add :: "ContentObject \<Rightarrow> content_db \<Rightarrow> (repo_error + unit) \<times> content_db" where
  "contents_add c db = (let db' = insert_row (content_values c) db in
     if db_constraints db' then (Inr (), db') else (Inl ConstraintViolation, db))"

definition relations_add :: "ContentRelation \<Rightarrow> content_db \<Rightarrow> (repo_error + unit) \<times> content_db" where
  "relations_add e db = (let db' = db\<lparr>db_relations := db_relations db @ [e]\<rparr> in
     if db_constraints db' then (Inr (), db') else (Inl ConstraintViolation, db))"

text \<open>\<open>claim_representation\<close>: insert unless a unique index objects; the loser reads the winner.
  \<open>ON CONFLICT DO NOTHING\<close> covers the unique indexes only, other violations still raise.\<close>

record ContentRepresentationClaim =
  cl_record :: ContentRecord
  cl_claimed :: bool

definition claim_representation ::
  "ContentObject \<Rightarrow> content_db \<Rightarrow> (repo_error + ContentRepresentationClaim) \<times> content_db" where
  "claim_representation c db =
     (if source_content_id c = None then (Inl NotDerivedContent, db)
      else let db' = insert_row (content_values c) db in
        if unique_rows (db_rows db') then
          (if \<not> db_constraints db' then (Inl ConstraintViolation, db)
           else case db_get (content_id c) db' of
               Inl e \<Rightarrow> (Inl e, db')
             | Inr None \<Rightarrow> (Inl ClaimNotReadable, db')
             | Inr (Some r) \<Rightarrow> (Inr \<lparr>cl_record = r, cl_claimed = True\<rparr>, db'))
        else (case find (\<lambda>r. object_identity (content r) = object_identity c
                              \<and> state (content r) \<in> {CREATING, AVAILABLE}) (db_rows db) of
            None \<Rightarrow> (Inl NoCompatibleWinner, db)
          | Some r \<Rightarrow> (res_bind (read_row r)
              (\<lambda>x. Inr \<lparr>cl_record = x, cl_claimed = False\<rparr>), db)))"

subsection \<open>Compare-and-set updates\<close>

text \<open>\<open>UPDATE ... WHERE ... RETURNING\<close>: the rows that satisfy the condition are rewritten, a
  violated constraint raises and leaves the view as it was, and with no such row the result
  is \<open>None\<close>. Otherwise the row is read back.\<close>

definition update_where ::
  "ContentId \<Rightarrow> (ContentObjectRow \<Rightarrow> bool) \<Rightarrow> (ContentObjectRow \<Rightarrow> ContentObjectRow) \<Rightarrow> content_db
   \<Rightarrow> (repo_error + ContentRecord option) \<times> content_db" where
  "update_where cid p f db =
     (if \<not> list_ex (\<lambda>r. row_id r = cid \<and> p r) (db_rows db) then (Inr None, db)
      else let db' = db\<lparr>db_rows := map (\<lambda>r. if row_id r = cid \<and> p r then f r else r) (db_rows db)\<rparr> in
        if db_constraints db' then (db_get cid db', db') else (Inl ConstraintViolation, db))"

definition set_staged ::
  "instant \<Rightarrow> ContentId \<Rightarrow> int \<Rightarrow> string \<Rightarrow> string \<Rightarrow> int \<Rightarrow> content_db
   \<Rightarrow> (repo_error + ContentRecord option) \<times> content_db" where
  "set_staged now cid expected stk sha sz db =
     update_where cid (\<lambda>r. state (content r) = CREATING \<and> revision (content r) = expected)
       (\<lambda>r. r\<lparr>staging_key := Some stk, staged_at := Some now, updated_at := now,
              content := (content r)\<lparr>sha256 := Some sha, size_bytes := Some sz,
                                     revision := expected + 1\<rparr>\<rparr>) db"

definition publish ::
  "instant \<Rightarrow> ContentId \<Rightarrow> int \<Rightarrow> string \<Rightarrow> content_db
   \<Rightarrow> (repo_error + ContentRecord option) \<times> content_db" where
  "publish now cid expected key db =
     update_where cid
       (\<lambda>r. state (content r) = CREATING \<and> revision (content r) = expected
            \<and> sha256 (content r) \<noteq> None \<and> size_bytes (content r) \<noteq> None)
       (\<lambda>r. r\<lparr>storage_key := Some key, staging_key := None, available_at := Some now,
              updated_at := now,
              content := (content r)\<lparr>state := AVAILABLE, revision := expected + 1\<rparr>\<rparr>) db"

definition mark_failed ::
  "instant \<Rightarrow> ContentId \<Rightarrow> int \<Rightarrow> string \<Rightarrow> content_db
   \<Rightarrow> (repo_error + ContentRecord option) \<times> content_db" where
  "mark_failed now cid expected code db =
     update_where cid (\<lambda>r. state (content r) = CREATING \<and> revision (content r) = expected)
       (\<lambda>r. r\<lparr>failure_code := Some code, updated_at := now,
              content := (content r)\<lparr>state := FAILED, revision := expected + 1\<rparr>\<rparr>) db"

definition save_inspection ::
  "instant \<Rightarrow> ContentId \<Rightarrow> int \<Rightarrow> ContentInspection \<Rightarrow> content_db
   \<Rightarrow> (repo_error + ContentRecord option) \<times> content_db" where
  "save_inspection now cid expected insp db =
     update_where cid
       (\<lambda>r. state (content r) = AVAILABLE \<and> revision (content r) = expected \<and> inspection r = None)
       (\<lambda>r. r\<lparr>row_detected_media_type := in_detected_media_type insp, inspection := Some insp,
              updated_at := now,
              content := (content r)\<lparr>detected_format := Some (in_detected_format insp),
                                     revision := expected + 1\<rparr>\<rparr>) db"

subsection \<open>Queries of the maintenance run\<close>

text \<open>Rows locked by another session are skipped (\<open>with_for_update(skip_locked=True)\<close>);
  \<open>locked\<close> says which.\<close>

definition stale_creating ::
  "(ContentId \<Rightarrow> bool) \<Rightarrow> instant \<Rightarrow> nat \<Rightarrow> content_db \<Rightarrow> repo_error + ContentRecord list" where
  "stale_creating locked older_than limit db =
     res_map read_row (take limit (filter (\<lambda>r. \<not> locked (row_id r)) (sort_key updated_at
       (filter (\<lambda>r. state (content r) = CREATING \<and> updated_at r \<le> older_than) (db_rows db)))))"

definition known_staging_handles :: "content_db \<Rightarrow> string set" where
  "known_staging_handles db =
     set (List.map_filter staging_key (filter (\<lambda>r. state (content r) = CREATING) (db_rows db)))"

text \<open>\<open>SELECT DISTINCT ... LIMIT\<close> leaves the order open; here the first rows come first.\<close>

definition gc_storage_candidates :: "instant \<Rightarrow> nat \<Rightarrow> content_db \<Rightarrow> string list" where
  "gc_storage_candidates older_than limit db =
     take limit (remdups (List.map_filter storage_key
       (filter (\<lambda>r. state (content r) \<in> {FAILED, EXPIRED, DELETED} \<and> updated_at r \<le> older_than)
         (db_rows db))))"

definition has_active_storage_reference :: "string \<Rightarrow> content_db \<Rightarrow> bool" where
  "has_active_storage_reference key db \<longleftrightarrow>
     list_ex (\<lambda>r. storage_key r = Some key \<and> state (content r) = AVAILABLE) (db_rows db)"

definition available_for_audit :: "nat \<Rightarrow> content_db \<Rightarrow> repo_error + ContentRecord list" where
  "available_for_audit limit db =
     res_map read_row (take limit (sort_key updated_at
       (filter (\<lambda>r. state (content r) = AVAILABLE) (db_rows db))))"

definition relations_for_source ::
  "ContentId \<Rightarrow> int option \<Rightarrow> content_db \<Rightarrow> repo_error + ContentRelation list" where
  "relations_for_source src limit db =
     (case limit of Some l \<Rightarrow> if l < 1 then Inl RelationLimitNotPositive
         else Inr (take (nat l) (sort_key rel_created_at
           (filter (\<lambda>e. rel_source_content_id e = src) (db_relations db))))
      | None \<Rightarrow> Inr (sort_key rel_created_at
           (filter (\<lambda>e. rel_source_content_id e = src) (db_relations db))))"

section \<open>Facts about the repository\<close>

subsection \<open>Rows and lookups\<close>

text \<open>What the service may insert: a valid object that is being created.\<close>

definition fresh_object :: "ContentObject \<Rightarrow> bool" where
  "fresh_object c \<longleftrightarrow> content_object_ok c \<and> content_id_ok (content_id c) \<and> state c = CREATING"

text \<open>What the operations keep of a row: it reads back as a valid object, it has a storage key
  exactly when it is available, and an inspection only then.\<close>

definition row_inv :: "ContentObjectRow \<Rightarrow> bool" where
  "row_inv r \<longleftrightarrow> content_object_ok (content r) \<and> content_id_ok (row_id r)
     \<and> state (content r) \<in> {CREATING, AVAILABLE, FAILED}
     \<and> (storage_key r \<noteq> None \<longleftrightarrow> state (content r) = AVAILABLE)
     \<and> (inspection r \<noteq> None \<longrightarrow> state (content r) = AVAILABLE)"

definition db_inv :: "content_db \<Rightarrow> bool" where
  "db_inv db \<longleftrightarrow> db_constraints db \<and> list_all row_inv (db_rows db)"

lemma db_inv_distinct: "db_inv db \<Longrightarrow> distinct (map row_id (db_rows db))"
  by (simp add: db_inv_def db_constraints_def unique_rows_def)

lemma db_inv_row: "db_inv db \<Longrightarrow> r \<in> set (db_rows db) \<Longrightarrow> row_inv r \<and> row_constraints r"
  by (simp add: db_inv_def db_constraints_def list_all_iff)

lemma empty_db_inv: "db_inv empty_db"
  by (simp add: db_inv_def db_constraints_def unique_rows_def foreign_keys_ok_def empty_db_def)

lemma find_row_Some: "find_row cid db = Some r \<Longrightarrow> r \<in> set (db_rows db) \<and> row_id r = cid"
  unfolding find_row_def by (rule distinct_map_find)

lemma find_distinct_id:
  "distinct (map row_id rs) \<Longrightarrow> r \<in> set rs \<Longrightarrow> find (\<lambda>x. row_id x = row_id r) rs = Some r"
  by (induction rs) auto

lemma find_row_mem: "db_inv db \<Longrightarrow> r \<in> set (db_rows db) \<Longrightarrow> find_row (row_id r) db = Some r"
  unfolding find_row_def by (rule find_distinct_id [OF db_inv_distinct])

lemma read_row_ok: "content_object_ok (content r) \<Longrightarrow> read_row r = Inr (ContentRecord.truncate r)"
  by (simp add: read_row_def content_object_ok_def)

lemma db_get_inv:
  assumes "db_inv db"
  shows "db_get cid db = Inr (map_option ContentRecord.truncate (find_row cid db))"
proof (cases "find_row cid db")
  case (Some r)
  then have "content_object_ok (content r)"
    using assms find_row_Some db_inv_row row_inv_def by blast
  with Some show ?thesis by (simp add: db_get_def read_row_ok)
qed (simp add: db_get_def)

lemma truncate_simps [simp]:
  "content (ContentRecord.truncate r) = content r"
  "storage_key (ContentRecord.truncate r) = storage_key r"
  "staging_key (ContentRecord.truncate r) = staging_key r"
  "inspection (ContentRecord.truncate r) = inspection r"
  "failure_code (ContentRecord.truncate r) = failure_code r"
  "updated_at (ContentRecord.truncate r) = updated_at r"
  by (simp_all add: ContentRecord.truncate_def)

subsection \<open>Updates of one row\<close>

definition map_row :: "ContentId \<Rightarrow> (ContentObjectRow \<Rightarrow> bool) \<Rightarrow>
    (ContentObjectRow \<Rightarrow> ContentObjectRow) \<Rightarrow> ContentObjectRow \<Rightarrow> ContentObjectRow" where
  "map_row cid p f r = (if row_id r = cid \<and> p r then f r else r)"

text \<open>A rewrite that keeps identity and provenance and does not revive a row.\<close>

definition benign :: "(ContentObjectRow \<Rightarrow> bool) \<Rightarrow> (ContentObjectRow \<Rightarrow> ContentObjectRow) \<Rightarrow> bool" where
  "benign p f \<longleftrightarrow> (\<forall>r. p r \<longrightarrow> row_id (f r) = row_id r
     \<and> object_identity (content (f r)) = object_identity (content r)
     \<and> (active_derived (f r) \<longrightarrow> active_derived r))"

lemma benign_source:
  "benign p f \<Longrightarrow> p r \<Longrightarrow> source_content_id (content (f r)) = source_content_id (content r)"
  by (simp add: benign_def object_identity_def)

lemma map_row_id: "benign p f \<Longrightarrow> row_id (map_row cid p f r) = row_id r"
  by (simp add: map_row_def benign_def)

lemma map_row_ids: "benign p f \<Longrightarrow> map row_id (map (map_row cid p f) rs) = map row_id rs"
  by (simp add: map_row_id)

lemma distinct_identities_map:
  assumes "benign p f"
    and "distinct (map (\<lambda>r. object_identity (content r)) (filter active_derived rs))"
  shows "distinct (map (\<lambda>r. object_identity (content r)) (filter active_derived (map (map_row cid p f) rs)))"
  using assms(2)
proof (induction rs)
  case (Cons r rs)
  have step: "active_derived (map_row cid p f x) \<Longrightarrow> active_derived x"
    "object_identity (content (map_row cid p f x)) = object_identity (content x)" for x
    using assms(1) by (auto simp: map_row_def benign_def split: if_splits)
  have "set (map (\<lambda>r. object_identity (content r)) (filter active_derived (map (map_row cid p f) rs)))
        \<subseteq> set (map (\<lambda>r. object_identity (content r)) (filter active_derived rs))"
    using step by auto
  then show ?case
    using Cons step [of r] by (auto split: if_splits)
qed simp

lemma map_row_foreign_keys:
  assumes "benign p f" "foreign_keys_ok db"
  shows "foreign_keys_ok (db\<lparr>db_rows := map (map_row cid p f) (db_rows db)\<rparr>)"
proof -
  have src: "source_content_id (content (map_row cid p f r)) = source_content_id (content r)" for r
    using benign_source [OF assms(1)] by (simp add: map_row_def)
  have ids: "map row_id (db_rows (db\<lparr>db_rows := map (map_row cid p f) (db_rows db)\<rparr>))
      = map row_id (db_rows db)"
    using map_row_ids [OF assms(1)] by simp
  show ?thesis
    using assms(2) unfolding foreign_keys_ok_def ids
    by (simp add: list.pred_map src o_def)
qed

lemma map_row_constraints:
  assumes "benign p f" "db_constraints db"
    and "\<And>r. r \<in> set (db_rows db) \<Longrightarrow> row_id r = cid \<Longrightarrow> p r \<Longrightarrow> row_constraints (f r)"
  shows "db_constraints (db\<lparr>db_rows := map (map_row cid p f) (db_rows db)\<rparr>)"
  using assms map_row_foreign_keys [OF assms(1), of db cid]
    distinct_identities_map [OF assms(1), of "db_rows db" cid]
    map_row_ids [OF assms(1), of cid "db_rows db"]
  unfolding db_constraints_def unique_rows_def
  by (auto simp: list_all_iff map_row_def simp del: map_map)

lemma map_row_find:
  assumes "benign p f"
  shows "find_row k (db\<lparr>db_rows := map (map_row cid p f) (db_rows db)\<rparr>) =
     map_option (map_row cid p f) (find_row k db)"
proof -
  have "find (\<lambda>x. row_id x = k) (map (map_row cid p f) rs) =
      map_option (map_row cid p f) (find (\<lambda>x. row_id x = k) rs)" for rs
    by (induction rs) (auto simp: map_row_id [OF assms])
  then show ?thesis by (simp add: find_row_def)
qed

text \<open>The exact behaviour of an update on a database that satisfies the invariant.\<close>

lemma update_where_eq:
  assumes inv: "db_inv db" and ben: "benign p f"
    and step: "\<And>r. row_inv r \<Longrightarrow> row_constraints r \<Longrightarrow> p r \<Longrightarrow> row_inv (f r) \<and> row_constraints (f r)"
  shows "update_where cid p f db =
     (case find_row cid db of
        Some r \<Rightarrow> if p r
          then (Inr (Some (ContentRecord.truncate (f r))), db\<lparr>db_rows := map (map_row cid p f) (db_rows db)\<rparr>)
          else (Inr None, db)
      | None \<Rightarrow> (Inr None, db))
   \<and> db_inv (snd (update_where cid p f db))"
proof -
  let ?db = "db\<lparr>db_rows := map (map_row cid p f) (db_rows db)\<rparr>"
  have ex: "list_ex (\<lambda>r. row_id r = cid \<and> p r) (db_rows db) \<longleftrightarrow>
      (case find_row cid db of Some r \<Rightarrow> p r | None \<Rightarrow> False)"
  proof (cases "find_row cid db")
    case None
    then have "\<forall>r \<in> set (db_rows db). row_id r \<noteq> cid"
      by (auto simp: find_row_def find_None_iff)
    with None show ?thesis
      by (auto simp: list_ex_iff)
  next
    case (Some r)
    have "x = r" if "x \<in> set (db_rows db)" "row_id x = cid" for x
      using find_row_mem [OF inv that(1)] that(2) Some by simp
    with Some show ?thesis
      using find_row_Some [OF Some] by (auto simp: list_ex_iff)
  qed
  have rows: "map (\<lambda>r. if row_id r = cid \<and> p r then f r else r) (db_rows db) =
      map (map_row cid p f) (db_rows db)"
    by (simp add: map_row_def)
  have inv': "db_inv ?db"
    using map_row_constraints [OF ben, of db cid] inv step db_inv_row [OF inv]
    by (auto simp: db_inv_def list_all_iff map_row_def)
  have "db_get cid ?db = Inr (map_option ContentRecord.truncate (map_option (map_row cid p f) (find_row cid db)))"
    using db_get_inv [OF inv'] map_row_find [OF ben] by simp
  then show ?thesis
    using inv inv' ex find_row_Some
    unfolding update_where_def rows Let_def
    by (auto simp: db_inv_def map_row_def split: option.splits)
qed

subsection \<open>The four compare-and-set operations\<close>

datatype repo_cas =
    SetStaged string string int
  | Publish string
  | MarkFailed string
  | SaveInspection ContentInspection

fun cas_apply ::
  "instant \<Rightarrow> ContentId \<Rightarrow> int \<Rightarrow> repo_cas \<Rightarrow> content_db \<Rightarrow> (repo_error + ContentRecord option) \<times> content_db"
where
  "cas_apply now cid e (SetStaged k h n) db = set_staged now cid e k h n db"
| "cas_apply now cid e (Publish k) db = publish now cid e k db"
| "cas_apply now cid e (MarkFailed c) db = mark_failed now cid e c db"
| "cas_apply now cid e (SaveInspection i) db = save_inspection now cid e i db"

fun cas_guard :: "int \<Rightarrow> repo_cas \<Rightarrow> ContentObjectRow \<Rightarrow> bool" where
  "cas_guard e (SetStaged k h n) r \<longleftrightarrow> state (content r) = CREATING \<and> revision (content r) = e"
| "cas_guard e (Publish k) r \<longleftrightarrow> state (content r) = CREATING \<and> revision (content r) = e
     \<and> sha256 (content r) \<noteq> None \<and> size_bytes (content r) \<noteq> None"
| "cas_guard e (MarkFailed c) r \<longleftrightarrow> state (content r) = CREATING \<and> revision (content r) = e"
| "cas_guard e (SaveInspection i) r \<longleftrightarrow>
     state (content r) = AVAILABLE \<and> revision (content r) = e \<and> inspection r = None"

fun cas_row :: "instant \<Rightarrow> int \<Rightarrow> repo_cas \<Rightarrow> ContentObjectRow \<Rightarrow> ContentObjectRow" where
  "cas_row now e (SetStaged k h n) r = r\<lparr>staging_key := Some k, staged_at := Some now,
     updated_at := now,
     content := (content r)\<lparr>sha256 := Some h, size_bytes := Some n, revision := e + 1\<rparr>\<rparr>"
| "cas_row now e (Publish k) r = r\<lparr>storage_key := Some k, staging_key := None,
     available_at := Some now, updated_at := now,
     content := (content r)\<lparr>state := AVAILABLE, revision := e + 1\<rparr>\<rparr>"
| "cas_row now e (MarkFailed c) r = r\<lparr>failure_code := Some c, updated_at := now,
     content := (content r)\<lparr>state := FAILED, revision := e + 1\<rparr>\<rparr>"
| "cas_row now e (SaveInspection i) r = r\<lparr>row_detected_media_type := in_detected_media_type i,
     inspection := Some i, updated_at := now,
     content := (content r)\<lparr>detected_format := Some (in_detected_format i), revision := e + 1\<rparr>\<rparr>"

text \<open>The data a staging step may write: a SHA-256 digest and a size.\<close>

fun cas_args_ok :: "repo_cas \<Rightarrow> bool" where
  "cas_args_ok (SetStaged k h n) \<longleftrightarrow> sha256_ok h \<and> 0 \<le> n"
| "cas_args_ok _ \<longleftrightarrow> True"

lemma cas_apply_update:
  "cas_apply now cid e a db = update_where cid (cas_guard e a) (cas_row now e a) db"
  by (cases a)
    (simp_all add: set_staged_def publish_def mark_failed_def save_inspection_def update_where_def
       cong: if_cong)

lemma cas_benign: "benign (cas_guard e a) (cas_row now e a)"
  by (cases a) (auto simp: benign_def object_identity_def active_derived_def)

lemma cas_revision: "revision (content (cas_row now e a r)) = e + 1"
  by (cases a) simp_all

lemma cas_guard_revision: "cas_guard e a r \<Longrightarrow> revision (content r) = e"
  by (cases a) simp_all

lemma row_constraints_iff:
  "row_constraints r \<longleftrightarrow> 0 < revision (content r)
     \<and> pred_option (\<lambda>n. 0 \<le> n) (size_bytes (content r)) \<and> pred_option sha256_ok (sha256 (content r))
     \<and> pred_option sha256_ok (parameters_hash (content r))
     \<and> (size_bytes (content r) = None) = (sha256 (content r) = None)
     \<and> (state (content r) = AVAILABLE \<longrightarrow> storage_key r \<noteq> None \<and> staging_key r = None
          \<and> size_bytes (content r) \<noteq> None \<and> sha256 (content r) \<noteq> None \<and> available_at r \<noteq> None)
     \<and> (source_content_id (content r) \<noteq> None \<longrightarrow> list_all (\<lambda>v. v \<noteq> None) (provenance_fields (content r)))"
proof -
  have p: "(case v of None \<Rightarrow> True | Some x \<Rightarrow> P x) = pred_option P v" for P and v :: "'x option"
    by (cases v) simp_all
  show ?thesis unfolding row_constraints_def Let_def p by auto
qed

lemmas row_valid_iff = row_inv_def content_object_ok_iff row_constraints_iff provenance_fields_def

lemma cas_row_inv:
  assumes "row_inv r" "row_constraints r" "cas_guard e a r" "cas_args_ok a"
  shows "row_inv (cas_row now e a r) \<and> row_constraints (cas_row now e a r)"
  using assms by (cases a) (simp_all add: row_valid_iff)

lemma cas_apply_eq:
  assumes "db_inv db" "cas_args_ok a"
  shows "cas_apply now cid e a db =
     (case find_row cid db of
        Some r \<Rightarrow> if cas_guard e a r
          then (Inr (Some (ContentRecord.truncate (cas_row now e a r))),
                db\<lparr>db_rows := map (map_row cid (cas_guard e a) (cas_row now e a)) (db_rows db)\<rparr>)
          else (Inr None, db)
      | None \<Rightarrow> (Inr None, db))" (is ?eq)
    and "db_inv (snd (cas_apply now cid e a db))" (is ?inv)
proof -
  have "?eq \<and> ?inv"
    unfolding cas_apply_update
    by (rule update_where_eq [OF assms(1) cas_benign]) (use cas_row_inv assms(2) in blast)
  then show ?eq and ?inv by blast+
qed

lemma cas_apply_hit:
  assumes "db_inv db" "cas_args_ok a" "cas_apply now cid e a db = (Inr (Some x), db')"
  obtains r where "find_row cid db = Some r" "cas_guard e a r"
    "x = ContentRecord.truncate (cas_row now e a r)" "find_row cid db' = Some (cas_row now e a r)"
    "db_inv db'"
proof -
  from cas_apply_eq(1) [OF assms(1,2), of now cid e] cas_apply_eq(2) [OF assms(1,2), of now cid e]
    assms(3)
  obtain r where r: "find_row cid db = Some r" "cas_guard e a r"
      "x = ContentRecord.truncate (cas_row now e a r)"
      "db' = db\<lparr>db_rows := map (map_row cid (cas_guard e a) (cas_row now e a)) (db_rows db)\<rparr>"
      "db_inv db'"
    by (auto split: option.splits if_splits)
  moreover have "find_row cid db' = Some (cas_row now e a r)"
    using r find_row_Some [OF r(1)] by (simp add: map_row_find [OF cas_benign] map_row_def)
  ultimately show thesis using that by blast
qed

lemma cas_apply_frame:
  assumes "db_inv db" "cas_args_ok a" "cas_apply now cid e a db = (x, db')" "k \<noteq> cid"
  shows "find_row k db' = find_row k db"
proof -
  have id: "map_row cid p f r = r" if "find_row k db = Some r" for p f r
    using find_row_Some [OF that] assms(4) by (simp add: map_row_def)
  show ?thesis
    using cas_apply_eq(1) [OF assms(1,2), of now cid e] assms(3) id
    by (cases "find_row k db")
      (auto simp: map_row_find [OF cas_benign] split: option.splits if_splits)
qed

subsection \<open>Histories of the database\<close>

text \<open>Every committed change of the two Content tables is one of these steps. \<close>

inductive repo_step :: "content_db \<Rightarrow> content_db \<Rightarrow> bool" where
  add: "fresh_object c \<Longrightarrow> contents_add c db = (Inr u, db') \<Longrightarrow> repo_step db db'"
| claim: "fresh_object c \<Longrightarrow> claim_representation c db = (Inr x, db') \<Longrightarrow> repo_step db db'"
| relate: "relations_add e db = (Inr u, db') \<Longrightarrow> repo_step db db'"
| cas: "cas_args_ok a \<Longrightarrow> cas_apply now cid e a db = (Inr y, db') \<Longrightarrow> repo_step db db'"

inductive_cases repo_stepE: "repo_step db db'"

lemma fresh_row_inv: "fresh_object c \<Longrightarrow> row_inv (content_values c)"
  by (simp add: fresh_object_def row_inv_def content_values_def)

lemma insert_row_inv:
  "db_inv db \<Longrightarrow> row_inv r \<Longrightarrow> db_constraints (insert_row r db) \<Longrightarrow> db_inv (insert_row r db)"
  by (simp add: db_inv_def insert_row_def)

lemma find_row_insert:
  "find_row k (insert_row r db) =
     (case find_row k db of Some x \<Rightarrow> Some x | None \<Rightarrow> if row_id r = k then Some r else None)"
proof -
  have "find (\<lambda>x. row_id x = k) (rs @ [r]) =
     (case find (\<lambda>x. row_id x = k) rs of Some x \<Rightarrow> Some x
        | None \<Rightarrow> if row_id r = k then Some r else None)" for rs
    by (induction rs) auto
  then show ?thesis by (simp add: find_row_def insert_row_def)
qed

lemma content_values_content [simp]: "content (content_values c) = c"
  by (simp add: content_values_def)

text \<open>A claim inserts its row or leaves the view alone, and its answer says which.\<close>

lemma claim_representation_cases:
  assumes "claim_representation c db = (Inr x, db')"
  obtains (claimed) "cl_claimed x" "db' = insert_row (content_values c) db"
      "db_constraints db'" "db_get (content_id c) db' = Inr (Some (cl_record x))"
  | (lost) r where "\<not> cl_claimed x" "db' = db" "r \<in> set (db_rows db)"
      "object_identity (content r) = object_identity c" "state (content r) \<in> {CREATING, AVAILABLE}"
      "cl_record x = ContentRecord.truncate r"
proof (cases "unique_rows (db_rows (insert_row (content_values c) db))")
  case True
  then show thesis
    using assms by (intro claimed)
      (auto simp: claim_representation_def Let_def split: if_splits sum.splits option.splits)
next
  case False
  let ?p = "\<lambda>r. object_identity (content r) = object_identity c \<and> state (content r) \<in> {CREATING, AVAILABLE}"
  obtain r where r: "find ?p (db_rows db) = Some r"
      "res_bind (read_row r) (\<lambda>y. Inr \<lparr>cl_record = y, cl_claimed = False\<rparr>) = Inr x" "db' = db"
    using assms False
    by (auto simp: claim_representation_def Let_def split: if_splits option.splits)
  have mem: "?p r" "r \<in> set (db_rows db)"
    using find_Some_iff [of ?p "db_rows db" r] r(1) by (metis, metis nth_mem)
  have "cl_record x = ContentRecord.truncate r" "\<not> cl_claimed x"
    using r(2) by (auto simp: res_simps read_row_def split: option.splits)
  then show thesis using lost mem r(3) by blast
qed

lemma repo_step_inv: "repo_step db db' \<Longrightarrow> db_inv db \<Longrightarrow> db_inv db'"
proof (induction rule: repo_step.induct)
  case (add c db u db')
  then show ?case
    by (auto simp: contents_add_def Let_def insert_row_inv fresh_row_inv split: if_splits)
next
  case (claim c db x db')
  then show ?case
    by (auto elim!: claim_representation_cases simp: insert_row_inv fresh_row_inv)
next
  case (relate e db u db')
  then show ?case
    by (auto simp: relations_add_def Let_def db_inv_def split: if_splits)
next
  case (cas a now cid e db y db')
  then show ?case using cas_apply_eq(2) [of db a now cid e] by simp
qed

text \<open>What no step changes in a row that has been published.\<close>

definition published_facts :: "ContentObjectRow \<Rightarrow>
    ContentState \<times> representation_identity \<times> string option \<times> int option \<times> string option
    \<times> instant option \<times> string option" where
  "published_facts r = (state (content r), object_identity (content r), sha256 (content r),
     size_bytes (content r), storage_key r, available_at r, media_type (content r))"

lemma cas_row_published:
  "cas_guard e a r \<Longrightarrow> state (content r) = AVAILABLE \<Longrightarrow>
     published_facts (cas_row now e a r) = published_facts r"
  by (cases a) (simp_all add: published_facts_def object_identity_def)

lemma repo_step_row:
  assumes "repo_step db db'" "db_inv db" "find_row cid db = Some r"
  shows "find_row cid db' = Some r \<or>
    (\<exists>now a. cas_args_ok a \<and> cas_guard (revision (content r)) a r
       \<and> find_row cid db' = Some (cas_row now (revision (content r)) a r))"
  using assms
proof (induction rule: repo_step.induct)
  case (add c db u db')
  then show ?case by (auto simp: contents_add_def Let_def find_row_insert split: if_splits)
next
  case (claim c db x db')
  then show ?case by (auto elim!: claim_representation_cases simp: find_row_insert)
next
  case (relate e db u db')
  then show ?case by (auto simp: relations_add_def Let_def find_row_def split: if_splits)
next
  case (cas a now k e db y db')
  note eq = cas_apply_eq(1) [OF cas.prems(1) cas.hyps(1), of now k e]
  show ?case
  proof (cases "k = cid \<and> cas_guard e a r")
    case True
    then obtain x where "cas_apply now k e a db = (Inr (Some x), db')"
      using eq cas.hyps(2) cas.prems(2) by auto
    then show ?thesis
      using cas_apply_hit [OF cas.prems(1) cas.hyps(1)] cas.prems(2) cas.hyps(1) True
        cas_guard_revision [of e a r] by (metis option.inject)
  next
    case False
    then show ?thesis
      using eq cas.hyps cas.prems cas_apply_frame [OF cas.prems(1) cas.hyps, of cid]
      by (cases "k = cid") auto
  qed
qed

definition repo_reachable :: "content_db \<Rightarrow> bool" where
  "repo_reachable db \<longleftrightarrow> repo_step\<^sup>*\<^sup>* empty_db db"

lemma repo_steps_inv: "repo_step\<^sup>*\<^sup>* db db' \<Longrightarrow> db_inv db \<Longrightarrow> db_inv db'"
  by (induction rule: rtranclp_induct) (auto dest: repo_step_inv)

lemma reachable_inv: "repo_reachable db \<Longrightarrow> db_inv db"
  unfolding repo_reachable_def using repo_steps_inv empty_db_inv by blast

lemma repo_steps_published:
  assumes "repo_step\<^sup>*\<^sup>* db db'" "db_inv db" "find_row cid db = Some r" "state (content r) = AVAILABLE"
  shows "\<exists>r'. find_row cid db' = Some r' \<and> published_facts r' = published_facts r
     \<and> revision (content r) \<le> revision (content r')"
  using assms(1)
proof (induction rule: rtranclp_induct)
  case base
  then show ?case using assms(3) by simp
next
  case (step y z)
  then obtain r1 where r1: "find_row cid y = Some r1" "published_facts r1 = published_facts r"
      "revision (content r) \<le> revision (content r1)" by blast
  have av: "state (content r1) = AVAILABLE" using r1(2) assms(4) by (simp add: published_facts_def)
  from repo_step_row [OF step.hyps(2) repo_steps_inv [OF step.hyps(1) assms(2)] r1(1)]
  show ?case
  proof
    assume "find_row cid z = Some r1"
    then show ?thesis using r1 by blast
  next
    assume "\<exists>now a. cas_args_ok a \<and> cas_guard (revision (content r1)) a r1 \<and>
      find_row cid z = Some (cas_row now (revision (content r1)) a r1)"
    then obtain now a where a: "cas_guard (revision (content r1)) a r1"
        "find_row cid z = Some (cas_row now (revision (content r1)) a r1)" by blast
    then show ?thesis
      using r1 cas_row_published [OF a(1) av, of now] cas_revision [of now "revision (content r1)" a r1]
      by auto
  qed
qed

lemma reachable_row_bound:
  "repo_reachable db \<Longrightarrow> r \<in> set (db_rows db) \<Longrightarrow> row_inv r"
  using reachable_inv db_inv_row by blast

subsection \<open>Claims of derived rows\<close>

abbreviation same_identity :: "ContentObject \<Rightarrow> ContentObjectRow \<Rightarrow> bool" where
  "same_identity c r \<equiv> active_derived r \<and> object_identity (content r) = object_identity c"

lemma filter_key_le_1: "distinct (map g xs) \<Longrightarrow> length (filter (\<lambda>r. g r = v) xs) \<le> 1"
  by (induction xs) (auto simp: filter_empty_conv image_iff)

lemma db_inv_identity:
  assumes "db_inv db"
  shows "length (filter (same_identity c) (db_rows db)) \<le> 1"
proof -
  have "filter (same_identity c) (db_rows db) =
      filter (\<lambda>r. object_identity (content r) = object_identity c) (filter active_derived (db_rows db))"
    by (simp add: conj_commute)
  then show ?thesis
    using assms filter_key_le_1 [of "\<lambda>r. object_identity (content r)" "filter active_derived (db_rows db)"]
    by (simp add: db_inv_def db_constraints_def unique_rows_def)
qed

lemma list_ex_filter: "list_ex p xs \<Longrightarrow> 1 \<le> length (filter p xs)"
  by (induction xs) auto

lemma new_row_active:
  "fresh_object c \<Longrightarrow> source_content_id c = Some s \<Longrightarrow> active_derived (content_values c)"
  by (simp add: fresh_object_def active_derived_def)

lemma claim_taken:
  assumes "db_inv db" "fresh_object c" "source_content_id c = Some s"
    and "list_ex (same_identity c) (db_rows db)"
  shows "\<exists>x. claim_representation c db = (Inr x, db) \<and> \<not> cl_claimed x
    \<and> object_identity (content (cl_record x)) = object_identity c
    \<and> length (filter (same_identity c) (db_rows db)) = 1"
proof -
  let ?p = "\<lambda>r. object_identity (content r) = object_identity c \<and> state (content r) \<in> {CREATING, AVAILABLE}"
  obtain r0 where r0: "r0 \<in> set (db_rows db)" "same_identity c r0"
    using assms(4) by (auto simp: list_ex_iff)
  have dup: "\<not> unique_rows (db_rows (insert_row (content_values c) db))"
    using r0 new_row_active [OF assms(2,3)] by (auto simp: unique_rows_def insert_row_def image_iff)
  have "?p r0" using r0(2) by (auto simp: active_derived_def)
  then obtain r where r: "find ?p (db_rows db) = Some r"
    using r0(1) by (cases "find ?p (db_rows db)") (auto simp: find_None_iff)
  then have mem: "r \<in> set (db_rows db)" "?p r"
    by (auto simp: find_Some_iff)
  have "read_row r = Inr (ContentRecord.truncate r)"
    using db_inv_row [OF assms(1) mem(1)] by (simp add: read_row_ok row_inv_def)
  then have "claim_representation c db =
      (Inr \<lparr>cl_record = ContentRecord.truncate r, cl_claimed = False\<rparr>, db)"
    using dup r assms(3) by (simp add: claim_representation_def Let_def)
  then show ?thesis
    using mem(2) db_inv_identity [OF assms(1), of c] list_ex_filter [OF assms(4)] by auto
qed

lemma claim_free:
  assumes "db_inv db" "fresh_object c" "source_content_id c = Some s"
    and "s \<in> set (map row_id (db_rows db))" "content_id c \<notin> set (map row_id (db_rows db))"
    and "\<not> list_ex (same_identity c) (db_rows db)"
  shows "\<exists>x db'. claim_representation c db = (Inr x, db') \<and> cl_claimed x
    \<and> object_identity (content (cl_record x)) = object_identity c
    \<and> length (filter (same_identity c) (db_rows db')) = 1 \<and> db_inv db'"
proof -
  let ?r = "content_values c" and ?db = "insert_row (content_values c) db"
  note act = new_row_active [OF assms(2,3)]
  have uniq: "unique_rows (db_rows ?db)"
    using assms(1,5,6) act
    by (auto simp: unique_rows_def insert_row_def db_inv_def db_constraints_def list_ex_iff image_iff)
  have row: "row_constraints ?r"
    using assms(2) by (simp add: fresh_object_def content_object_ok_iff row_constraints_iff)
  have "foreign_keys_ok ?db"
    using assms(1,3,4)
    by (auto simp: db_inv_def db_constraints_def foreign_keys_ok_def insert_row_def list_all_iff
        split: option.splits)
  then have con: "db_constraints ?db"
    using assms(1) uniq row by (simp add: db_constraints_def db_inv_def insert_row_def)
  then have inv: "db_inv ?db"
    using insert_row_inv [OF assms(1) fresh_row_inv [OF assms(2)]] by blast
  have "find_row (content_id c) ?db = Some ?r"
    using find_row_mem [OF inv, of ?r] by (simp add: insert_row_def)
  then have "claim_representation c db =
      (Inr \<lparr>cl_record = ContentRecord.truncate ?r, cl_claimed = True\<rparr>, ?db)"
    using uniq con assms(3) db_get_inv [OF inv] by (simp add: claim_representation_def Let_def)
  moreover have "list_ex (same_identity c) (db_rows ?db)"
    using act by (simp add: insert_row_def)
  ultimately show ?thesis
    using inv db_inv_identity [OF inv, of c] list_ex_filter [of "same_identity c" "db_rows ?db"] by auto
qed

subsection \<open>Concurrent writers\<close>

text \<open>
  The contract a client of a revisioned store relies on: a compare-and-set that succeeds found
  the revision it expected and left the next one, and whatever else happens to the store never
  lowers a revision. From it follows that of two writers that read the same revision at most
  one wins, whatever runs between them.
\<close>

locale revision_cas =
  fixes look :: "'db \<Rightarrow> 'k \<Rightarrow> 'r option"
    and rev_of :: "'r \<Rightarrow> int"
    and cas :: "'k \<Rightarrow> int \<Rightarrow> 'a \<Rightarrow> 'db \<Rightarrow> ('e + 's option) \<times> 'db"
    and step :: "'db \<Rightarrow> 'db \<Rightarrow> bool"
    and valid :: "'db \<Rightarrow> bool"
    and args_ok :: "'a \<Rightarrow> bool"
  assumes step_valid: "valid db \<Longrightarrow> step db db' \<Longrightarrow> valid db'"
    and step_mono: "valid db \<Longrightarrow> step db db' \<Longrightarrow> look db k = Some r \<Longrightarrow>
       \<exists>r'. look db' k = Some r' \<and> rev_of r \<le> rev_of r'"
    and cas_step: "valid db \<Longrightarrow> args_ok a \<Longrightarrow> cas k e a db = (Inr y, db') \<Longrightarrow> step db db'"
    and cas_hit: "valid db \<Longrightarrow> args_ok a \<Longrightarrow> cas k e a db = (Inr (Some x), db') \<Longrightarrow>
       \<exists>r r'. look db k = Some r \<and> rev_of r = e \<and> look db' k = Some r' \<and> rev_of r' = e + 1"
begin

lemma steps_valid: "step\<^sup>*\<^sup>* db db' \<Longrightarrow> valid db \<Longrightarrow> valid db'"
  by (induction rule: rtranclp_induct) (auto intro: step_valid)

lemma steps_mono:
  assumes "step\<^sup>*\<^sup>* db db'" "valid db" "look db k = Some r"
  shows "\<exists>r'. look db' k = Some r' \<and> rev_of r \<le> rev_of r'"
  using assms(1)
proof (induction rule: rtranclp_induct)
  case base
  then show ?case using assms(3) by simp
next
  case (step y z)
  then show ?case
    using step_mono [OF steps_valid [OF step.hyps(1) assms(2)] step.hyps(2)] by (meson order_trans)
qed

lemma at_most_one_winner:
  assumes "valid db" "args_ok a" "args_ok b"
    and "cas k e a db = (Inr (Some x), db1)" "step\<^sup>*\<^sup>* db1 db2"
  shows "cas k e b db2 \<noteq> (Inr (Some y), db3)"
proof
  assume win: "cas k e b db2 = (Inr (Some y), db3)"
  have v1: "valid db1" using step_valid [OF assms(1) cas_step [OF assms(1,2,4)]] .
  obtain r1 where r1: "look db1 k = Some r1" "rev_of r1 = e + 1"
    using cas_hit [OF assms(1,2,4)] by blast
  obtain r2 where "look db2 k = Some r2" "e + 1 \<le> rev_of r2"
    using steps_mono [OF assms(5) v1 r1(1)] r1(2) by auto
  then show False
    using cas_hit [OF steps_valid [OF assms(5) v1] assms(3) win] by auto
qed

end

interpretation pg: revision_cas "\<lambda>db k. find_row k db" "\<lambda>r. revision (content r)"
  "\<lambda>k e (now, a). cas_apply now k e a" repo_step db_inv "\<lambda>(now, a). cas_args_ok a"
proof (unfold_locales, goal_cases)
  case (1 db db')
  then show ?case using repo_step_inv by blast
next
  case (2 db db' k r)
  then show ?case
    using repo_step_row [OF 2(2,1,3)] cas_revision by (metis order_refl zle_add1_eq_le zless_add1_eq)
next
  case (3 db a k e y db')
  then show ?case by (cases a) (auto intro: repo_step.cas)
next
  case (4 db a k e x db')
  obtain now b where a: "a = (now, b)" by (cases a)
  from 4 have "db_inv db" "cas_args_ok b" "cas_apply now k e b db = (Inr (Some x), db')"
    unfolding a split by blast+
  then obtain r where "find_row k db = Some r" "cas_guard e b r"
      "find_row k db' = Some (cas_row now e b r)"
    by (rule cas_apply_hit)
  then show ?case using cas_guard_revision [of e b r] cas_revision [of now e b r] by blast
qed

subsection \<open>Examples\<close>

definition example_id :: string where
  "example_id = ''cnt_00000000000000000000000000000001''"

definition example_hash :: string where
  "example_hash = replicate 64 CHR ''a''"

definition example_object :: ContentObject where
  "example_object = \<lparr>content_id = example_id, owner_principal_id = ''principal'', state = CREATING,
     revision = 1, representation_kind = RAW, created_at = 100, media_type = Some ''text/plain'',
     detected_format = None, source_filename = None, size_bytes = None, sha256 = None,
     expires_at = None, source_content_id = None, producer_capability = None,
     producer_revision = None, representation_schema_revision = None,
     processing_profile_revision = None, parameters_hash = None\<rparr>"

definition example_db :: content_db where
  "example_db = snd (contents_add example_object empty_db)"

definition example_staged :: content_db where
  "example_staged = snd (set_staged 101 example_id 1 ''stage'' example_hash 5 example_db)"

definition example_published :: content_db where
  "example_published = snd (publish 102 example_id 2 ''key'' example_staged)"

lemma example_fresh: "fresh_object example_object"
  by code_simp

lemma example_add: "contents_add example_object empty_db = (Inr (), example_db)"
  by code_simp

lemma example_db_reachable: "repo_reachable example_db"
  unfolding repo_reachable_def
  using repo_step.add [OF example_fresh example_add] by blast

lemma example_stage_step: "repo_step example_db example_staged"
  by (rule repo_step.cas [where a = "SetStaged ''stage'' example_hash 5" and now = 101
        and cid = example_id and e = 1
        and y = "Some (ContentRecord.truncate (hd (db_rows example_staged)))"])
    code_simp+

lemma example_publish_step: "repo_step example_staged example_published"
  by (rule repo_step.cas [where a = "Publish ''key''" and now = 102 and cid = example_id and e = 2
        and y = "Some (ContentRecord.truncate (hd (db_rows example_published)))"])
    code_simp+

lemma example_published_reachable: "repo_reachable example_published"
  using example_db_reachable example_stage_step example_publish_step
  unfolding repo_reachable_def by (meson rtranclp.rtrancl_into_rtrancl)

lemma example_staged_inv: "db_inv example_staged"
  using example_db_reachable example_stage_step reachable_inv repo_step_inv by blast

lemma example_staged_row: "find_row example_id example_staged = Some (hd (db_rows example_staged))"
  by code_simp

lemma example_published_find:
  "find_row example_id example_published = Some (hd (db_rows example_published))
   \<and> state (content (hd (db_rows example_published))) = AVAILABLE"
  by code_simp

lemma example_staged_guard: "cas_guard 2 (Publish ''key'') (hd (db_rows example_staged))"
  by code_simp

lemma example_published_row:
  "cas_row 102 2 (Publish ''key'') (hd (db_rows example_staged)) = hd (db_rows example_published)"
  by code_simp

lemma example_publish:
  "cas_apply 102 example_id 2 (Publish ''key'') example_staged =
     (Inr (Some (ContentRecord.truncate (hd (db_rows example_published)))), example_published)"
  by code_simp

definition example_derived :: ContentObject where
  "example_derived = example_object\<lparr>content_id := ''cnt_00000000000000000000000000000002'',
     representation_kind := TEXT, source_content_id := Some example_id,
     producer_capability := Some ''html'', producer_revision := Some ''1'',
     representation_schema_revision := Some ''1'', processing_profile_revision := Some ''1'',
     parameters_hash := Some example_hash\<rparr>"

lemma example_derived_claim:
  "fresh_object example_derived \<and> example_id \<in> set (map row_id (db_rows example_published))
   \<and> source_content_id example_derived = Some example_id
   \<and> content_id example_derived \<notin> set (map row_id (db_rows example_published))
   \<and> \<not> list_ex (\<lambda>r. active_derived r \<and> object_identity (content r) = object_identity example_derived)
        (db_rows example_published)"
  by code_simp

section \<open>Properties\<close>

text \<open>C5: Every compare-and-set of the Content repository is exact. On a database that
  satisfies the invariant it never raises: it returns the updated record exactly when the row
  exists, is in the required state and has the expected revision, and otherwise returns None
  and changes nothing. A success raises the revision by one, follows the allowed state
  transitions, leaves every other row alone and keeps the invariant.\<close>

theorem repository_cas_exact:
  assumes "db_inv db" "cas_args_ok a"
  shows "db_inv (snd (cas_apply now cid e a db))
    \<and> (case find_row cid db of
         None \<Rightarrow> cas_apply now cid e a db = (Inr None, db)
       | Some r \<Rightarrow>
           if cas_guard e a r
           then \<exists>db'. cas_apply now cid e a db = (Inr (Some (ContentRecord.truncate (cas_row now e a r))), db')
              \<and> revision (content (cas_row now e a r)) = revision (content r) + 1
              \<and> (state (content (cas_row now e a r)) = state (content r)
                 \<or> can_transition_content (state (content r)) (state (content (cas_row now e a r))))
              \<and> (\<forall>k. k \<noteq> cid \<longrightarrow> find_row k db' = find_row k db)
           else cas_apply now cid e a db = (Inr None, db))"
proof -
  note eq = cas_apply_eq(1) [OF assms, of now cid e]
  note inv = cas_apply_eq(2) [OF assms, of now cid e]
  have trans: "cas_guard e a r \<Longrightarrow> state (content (cas_row now e a r)) = state (content r)
      \<or> can_transition_content (state (content r)) (state (content (cas_row now e a r)))" for r
    by (cases a) (auto simp: can_transition_content_def)
  show ?thesis
  proof (cases "find_row cid db")
    case None
    then show ?thesis using eq inv by simp
  next
    case (Some r)
    show ?thesis
    proof (cases "cas_guard e a r")
      case True
      obtain db' where db': "cas_apply now cid e a db =
          (Inr (Some (ContentRecord.truncate (cas_row now e a r))), db')"
        using eq Some True by auto
      moreover have "\<forall>k. k \<noteq> cid \<longrightarrow> find_row k db' = find_row k db"
        using cas_apply_frame [OF assms db'] by blast
      ultimately show ?thesis
        using inv Some True trans cas_revision cas_guard_revision [OF True] by auto
    next
      case False
      then show ?thesis using eq inv Some by simp
    qed
  qed
qed

theorem repository_cas_exact_witness:
  "\<exists>db'. cas_apply 102 example_id 2 (Publish ''key'') example_staged =
      (Inr (Some (ContentRecord.truncate (hd (db_rows example_published)))), db')"
  using repository_cas_exact [OF example_staged_inv, of "Publish ''key''" 102 example_id 2]
    example_staged_row example_staged_guard example_published_row
  by auto

text \<open>Publication and failure happen at most once. When a compare-and-set against one
  revision of a content has succeeded, no later compare-and-set against the same revision
  succeeds, whatever other repository operations run in between.\<close>

theorem single_winner_per_revision:
  assumes "db_inv db" "cas_args_ok a" "cas_args_ok b"
    and "cas_apply now cid e a db = (Inr (Some x), db1)" "repo_step\<^sup>*\<^sup>* db1 db2"
  shows "cas_apply now' cid e b db2 \<noteq> (Inr (Some y), db3)"
  using pg.at_most_one_winner [of db "(now, a)" "(now', b)" cid e x db1 db2 y db3] assms by simp

theorem single_winner_per_revision_witness:
  "\<forall>y db3. cas_apply 103 example_id 2 (MarkFailed ''late'') example_published \<noteq> (Inr (Some y), db3)"
proof (intro allI)
  fix y db3
  show "cas_apply 103 example_id 2 (MarkFailed ''late'') example_published \<noteq> (Inr (Some y), db3)"
    by (rule single_winner_per_revision [OF example_staged_inv _ _ example_publish
          rtranclp.rtrancl_refl]) simp_all
qed

text \<open>C6: A published content is immutable. From any reachable database, no sequence of
  repository operations removes a row that is AVAILABLE, changes its state, owner, identity,
  digest, size, storage key or media type, or lowers its revision.\<close>

theorem published_content_immutable:
  assumes "repo_reachable db" "repo_step\<^sup>*\<^sup>* db db'"
    and "find_row cid db = Some r" "state (content r) = AVAILABLE"
  shows "\<exists>r'. find_row cid db' = Some r' \<and> published_facts r' = published_facts r
     \<and> revision (content r) \<le> revision (content r')"
  using repo_steps_published [OF assms(2) reachable_inv [OF assms(1)] assms(3,4)] .

theorem published_content_immutable_witness:
  "\<exists>r'. find_row example_id example_published = Some r'
     \<and> published_facts r' = published_facts (hd (db_rows example_published))"
  using published_content_immutable [OF example_published_reachable rtranclp.rtrancl_refl
      conjunct1 [OF example_published_find] conjunct2 [OF example_published_find]]
  by blast

text \<open>C7: Every reachable database satisfies the table constraints and the row invariant, so
  every row reads back as a valid content object; and the query for garbage collection never
  returns a key, because no operation leaves a storage key on a FAILED, EXPIRED or DELETED
  row.\<close>

theorem reachable_database_invariant:
  assumes "repo_reachable db"
  shows "db_inv db \<and> (\<forall>cid. is_ok (db_get cid db)) \<and> gc_storage_candidates older n db = []"
proof -
  have key: "storage_key r = None"
    if "r \<in> set (db_rows db)" "state (content r) \<in> {FAILED, EXPIRED, DELETED}" for r
    using reachable_row_bound [OF assms that(1)] that(2) by (auto simp: row_inv_def)
  have "filter (\<lambda>r. state (content r) \<in> {FAILED, EXPIRED, DELETED} \<and> updated_at r \<le> older) (db_rows db)
      = filter (\<lambda>r. state (content r) \<in> {FAILED, EXPIRED, DELETED} \<and> updated_at r \<le> older
          \<and> storage_key r = None) (db_rows db)"
    using key by (intro filter_cong) auto
  then have "List.map_filter storage_key
      (filter (\<lambda>r. state (content r) \<in> {FAILED, EXPIRED, DELETED} \<and> updated_at r \<le> older) (db_rows db)) = []"
    by (auto simp: List.map_filter_def filter_empty_conv)
  then show ?thesis
    using reachable_inv [OF assms] db_get_inv by (simp add: gc_storage_candidates_def)
qed

theorem reachable_database_invariant_witness:
  "db_inv example_published \<and> gc_storage_candidates 200 10 example_published = []"
  using reachable_database_invariant [OF example_published_reachable, of 200 10] by blast

text \<open>Concurrent parsers of one source agree on one derived row. A claim for a fresh
  derived content of an existing source always answers; it inserts its own row exactly when no
  active row has the same identity (owner, source, producer, profile, parameters,
  representation), otherwise it returns the winner; and afterwards exactly one active row has
  that identity.\<close>

theorem claim_representation_single_winner:
  assumes "repo_reachable db" "fresh_object c" "source_content_id c = Some s"
    and "s \<in> set (map row_id (db_rows db))" "content_id c \<notin> set (map row_id (db_rows db))"
  shows "\<exists>x db'. claim_representation c db = (Inr x, db')
    \<and> (cl_claimed x \<longleftrightarrow> \<not> list_ex (\<lambda>r. active_derived r \<and> object_identity (content r) = object_identity c) (db_rows db))
    \<and> object_identity (content (cl_record x)) = object_identity c
    \<and> length (filter (\<lambda>r. active_derived r \<and> object_identity (content r) = object_identity c) (db_rows db')) = 1
    \<and> db_inv db'"
proof -
  let ?p = "\<lambda>r. active_derived r \<and> object_identity (content r) = object_identity c"
  have inv: "db_inv db" by (rule reachable_inv [OF assms(1)])
  show ?thesis
  proof (cases "list_ex ?p (db_rows db)")
    case False
    from claim_free [OF inv assms(2-5) False] show ?thesis using False by auto
  next
    case True
    from claim_taken [OF inv assms(2,3) True] show ?thesis using True inv by auto
  qed
qed

theorem claim_representation_single_winner_witness:
  "\<exists>x db'. claim_representation example_derived example_published = (Inr x, db') \<and> cl_claimed x"
  using claim_representation_single_winner [OF example_published_reachable, of example_derived example_id]
    example_derived_claim
  by blast

end
