(* ===== verification/Sha256.thy ===== *)
theory Sha256
  imports Prelude Utf8
begin

section \<open>SHA-256 and HMAC-SHA-256\<close>

text \<open>
  The digest of Python's \<open>hashlib.sha256\<close> (FIPS 180-4) and the keyed digest of \<open>hmac.new\<close>
  with it (RFC 2104), on lists of bytes. A digest object that is updated with several chunks
  has the digest of their concatenation, so the models collect the chunks.
\<close>

unbundle bit_operations_syntax

type_synonym word32 = "32 word"

definition rotr :: "nat \<Rightarrow> word32 \<Rightarrow> word32" where
  "rotr n w = (drop_bit n w) OR (push_bit (32 - n) w)"

definition sha_k :: "word32 list" where
  "sha_k = [
     1116352408, 1899447441, 3049323471, 3921009573, 961987163, 1508970993, 2453635748,
     2870763221, 3624381080, 310598401, 607225278, 1426881987, 1925078388, 2162078206,
     2614888103, 3248222580, 3835390401, 4022224774, 264347078, 604807628, 770255983,
     1249150122, 1555081692, 1996064986, 2554220882, 2821834349, 2952996808, 3210313671,
     3336571891, 3584528711, 113926993, 338241895, 666307205, 773529912, 1294757372,
     1396182291, 1695183700, 1986661051, 2177026350, 2456956037, 2730485921, 2820302411,
     3259730800, 3345764771, 3516065817, 3600352804, 4094571909, 275423344, 430227734,
     506948616, 659060556, 883997877, 958139571, 1322822218, 1537002063, 1747873779,
     1955562222, 2024104815, 2227730452, 2361852424, 2428436474, 2756734187, 3204031479,
     3329325298]"

type_synonym sha_state =
  "word32 \<times> word32 \<times> word32 \<times> word32 \<times> word32 \<times> word32 \<times> word32 \<times> word32"

definition sha_init :: sha_state where
  "sha_init = (1779033703, 3144134277, 1013904242, 2773480762,
               1359893119, 2600822924, 528734635, 1541459225)"

text \<open>Big-endian bytes of a number and the padded message.\<close>

fun be_bytes :: "nat \<Rightarrow> nat \<Rightarrow> byte list" where
  "be_bytes 0 n = []"
| "be_bytes (Suc k) n = be_bytes k (n div 256) @ [n mod 256]"

definition sha_pad :: "byte list \<Rightarrow> byte list" where
  "sha_pad bs = bs @ [128] @ replicate ((119 - length bs mod 64) mod 64) 0 @ be_bytes 8 (8 * length bs)"

fun word_of_bytes :: "byte list \<Rightarrow> word32" where
  "word_of_bytes [a, b, c, d] = of_nat (((a * 256 + b) * 256 + c) * 256 + d)"
| "word_of_bytes _ = 0"

fun words_of :: "byte list \<Rightarrow> word32 list" where
  "words_of (a # b # c # d # bs) = word_of_bytes [a, b, c, d] # words_of bs"
| "words_of _ = []"

text \<open>The message schedule, newest word first, extended \<open>n\<close> times.\<close>

fun sha_schedule :: "nat \<Rightarrow> word32 list \<Rightarrow> word32 list" where
  "sha_schedule 0 ws = rev ws"
| "sha_schedule (Suc n) ws = sha_schedule n
     ((let w2 = ws ! 1; w7 = ws ! 6; w15 = ws ! 14; w16 = ws ! 15 in
       (rotr 17 w2 XOR rotr 19 w2 XOR drop_bit 10 w2) + w7
       + (rotr 7 w15 XOR rotr 18 w15 XOR drop_bit 3 w15) + w16) # ws)"

definition sha_round :: "sha_state \<Rightarrow> word32 \<times> word32 \<Rightarrow> sha_state" where
  "sha_round s kw = (case s of (a, b, c, d, e, f, g, h) \<Rightarrow>
     let t1 = h + (rotr 6 e XOR rotr 11 e XOR rotr 25 e)
                + ((e AND f) XOR (NOT e AND g)) + fst kw + snd kw;
         t2 = (rotr 2 a XOR rotr 13 a XOR rotr 22 a)
                + ((a AND b) XOR (a AND c) XOR (b AND c))
     in (t1 + t2, a, b, c, d + t1, e, f, g))"

definition sha_add :: "sha_state \<Rightarrow> sha_state \<Rightarrow> sha_state" where
  "sha_add s t = (case s of (a, b, c, d, e, f, g, h) \<Rightarrow> case t of (a', b', c', d', e', f', g', h') \<Rightarrow>
     (a + a', b + b', c + c', d + d', e + e', f + f', g + g', h + h'))"

definition sha_block :: "sha_state \<Rightarrow> byte list \<Rightarrow> sha_state" where
  "sha_block s block = sha_add s
     (foldl sha_round s (zip sha_k (sha_schedule 48 (rev (words_of block)))))"

fun sha_blocks :: "nat \<Rightarrow> sha_state \<Rightarrow> byte list \<Rightarrow> sha_state" where
  "sha_blocks 0 s bs = s"
| "sha_blocks (Suc n) s bs = sha_blocks n (sha_block s (take 64 bs)) (drop 64 bs)"

definition state_words :: "sha_state \<Rightarrow> word32 list" where
  "state_words s = (case s of (a, b, c, d, e, f, g, h) \<Rightarrow> [a, b, c, d, e, f, g, h])"

definition sha256_digest :: "byte list \<Rightarrow> byte list" where
  "sha256_digest bs = (let m = sha_pad bs in
     concat (map (\<lambda>w. be_bytes 4 (unat w))
       (state_words (sha_blocks (length m div 64) sha_init m))))"

definition hex_digit :: "nat \<Rightarrow> char" where
  "hex_digit n = ''0123456789abcdef'' ! (n mod 16)"

definition hex_of_bytes :: "byte list \<Rightarrow> string" where
  "hex_of_bytes bs = concat (map (\<lambda>b. [hex_digit (b div 16), hex_digit b]) bs)"

definition sha256_hex :: "byte list \<Rightarrow> string" where
  "sha256_hex bs = hex_of_bytes (sha256_digest bs)"

definition hmac_key :: "byte list \<Rightarrow> byte list" where
  "hmac_key k = (let k' = (if length k > 64 then sha256_digest k else k)
                 in k' @ replicate (64 - length k') 0)"

definition xor_bytes :: "nat \<Rightarrow> byte list \<Rightarrow> byte list" where
  "xor_bytes m bs = map (\<lambda>b. b XOR m) bs"

definition hmac_sha256 :: "byte list \<Rightarrow> byte list \<Rightarrow> byte list" where
  "hmac_sha256 key msg =
     sha256_digest (xor_bytes 92 (hmac_key key) @ sha256_digest (xor_bytes 54 (hmac_key key) @ msg))"

section \<open>Shape of the digests\<close>

lemma length_be_bytes [simp]: "length (be_bytes k n) = k"
  by (induction k arbitrary: n) simp_all

lemma be_bytes_byte: "list_all (\<lambda>b. b < 256) (be_bytes k n)"
  by (induction k arbitrary: n) simp_all

lemma length_sha256_digest [simp]: "length (sha256_digest bs) = 32"
  by (simp add: sha256_digest_def Let_def state_words_def split: prod.splits)

lemma sha256_digest_byte: "list_all (\<lambda>b. b < 256) (sha256_digest bs)"
  using be_bytes_byte
  by (auto simp: sha256_digest_def Let_def list_all_iff)

lemma hex_digit_hex: "is_hex_lower (hex_digit n)"
  unfolding is_hex_lower_def hex_digit_def
  by (rule nth_mem) (use mod_less_divisor [of 16 n] in simp)

lemma length_hex_of_bytes [simp]: "length (hex_of_bytes bs) = 2 * length bs"
  by (simp add: hex_of_bytes_def length_concat comp_def sum_list_triv)

lemma length_sha256_hex [simp]: "length (sha256_hex bs) = 64"
  by (simp add: sha256_hex_def)

lemma sha256_hex_hex: "list_all is_hex_lower (sha256_hex bs)"
  by (auto simp: sha256_hex_def hex_of_bytes_def list_all_iff hex_digit_hex)

lemma length_hmac_sha256 [simp]: "length (hmac_sha256 k m) = 32"
  by (simp add: hmac_sha256_def)

end
