(* ===== verification/Content_Store.thy ===== *)
theory Content_Store
  imports Content_Domain Sha256 "HOL-Library.AList" "HOL-Library.List_Lexorder" "HOL-Library.Char_ord"
begin

section \<open>The content-addressed filesystem store\<close>

text \<open>
  \<open>infrastructure/content/filesystem.py\<close>. The state is the directory tree under the canonical
  store root: a path is the list of its names below the root, a node is a directory, a regular
  file with its modification time, or a symbolic link. A link carries the canonical place in
  the tree it leads to, or \<open>None\<close> when it leads out of the tree; the listing of a directory
  reached through a link that leaves the tree is empty here.

  Every operation is one function of the tree. \<open>secrets.token_hex\<close> and the time of a write are
  arguments. \<open>finalize\<close> takes the interference of concurrent callers between its integrity
  probe and its link as an argument. Failures of the disk itself are injected by the callers.
\<close>

subsection \<open>The directory tree\<close>

type_synonym path = "string list"

datatype fs_node = Dir | Reg bytes instant | Link "path option"

type_synonym fs = "(path \<times> fs_node) list"

datatype store_error =
    InvalidStorageKey | FileNotFound | FileExists | OSErr | StreamRaised string | ChunkTypeError
  | LimitValueError

definition fs_get :: "path \<Rightarrow> fs \<Rightarrow> fs_node option" where
  "fs_get p t = map_of t p"

definition fs_put :: "path \<Rightarrow> fs_node \<Rightarrow> fs \<Rightarrow> fs" where
  "fs_put p n t = AList.update p n t"

definition fs_del :: "path \<Rightarrow> fs \<Rightarrow> fs" where
  "fs_del p t = AList.delete p t"

definition is_link :: "path \<Rightarrow> fs \<Rightarrow> bool" where
  "is_link p t \<longleftrightarrow> (case fs_get p t of Some (Link q) \<Rightarrow> True | _ \<Rightarrow> False)"

text \<open>The file at a path that is no link (\<open>not is_symlink and is_file\<close>).\<close>

definition plain_file :: "path \<Rightarrow> fs \<Rightarrow> (bytes \<times> instant) option" where
  "plain_file p t = (case fs_get p t of Some (Reg bs m) \<Rightarrow> Some (bs, m) | _ \<Rightarrow> None)"

text \<open>\<open>Path.resolve\<close> of a directory whose parents are no links; \<open>None\<close> is outside the root.\<close>

definition resolve_dir :: "path \<Rightarrow> fs \<Rightarrow> path option" where
  "resolve_dir p t = (case fs_get p t of Some (Link q) \<Rightarrow> q | _ \<Rightarrow> Some p)"

definition is_dir :: "path \<Rightarrow> fs \<Rightarrow> bool" where
  "is_dir p t \<longleftrightarrow> (case fs_get p t of Some Dir \<Rightarrow> True
     | Some (Link (Some q)) \<Rightarrow> fs_get q t = Some Dir | _ \<Rightarrow> False)"

text \<open>\<open>unlink\<close>, and \<open>mkdir(parents, exist_ok)\<close> under an existing parent.\<close>

definition fs_unlink :: "path \<Rightarrow> fs \<Rightarrow> store_error + fs" where
  "fs_unlink p t = (case fs_get p t of None \<Rightarrow> Inl FileNotFound | Some Dir \<Rightarrow> Inl OSErr
     | Some _ \<Rightarrow> Inr (fs_del p t))"

definition fs_mkdir :: "path \<Rightarrow> fs \<Rightarrow> store_error + fs" where
  "fs_mkdir p t = (if fs_get p t = None then Inr (fs_put p Dir t)
     else if is_dir p t then Inr t else Inl FileExists)"

text \<open>\<open>os.link\<close> follows a link at its source.\<close>

definition fs_link :: "path \<Rightarrow> path \<Rightarrow> fs \<Rightarrow> store_error + fs" where
  "fs_link src dst t =
     (let n = (case fs_get src t of Some (Link (Some q)) \<Rightarrow> fs_get q t
               | Some (Link None) \<Rightarrow> None | n \<Rightarrow> n) in
      if fs_get (butlast dst) t = None \<or> n = None then Inl FileNotFound
      else if fs_get dst t \<noteq> None then Inl FileExists
      else case n of Some (Reg bs m) \<Rightarrow> Inr (fs_put dst (Reg bs m) t) | _ \<Rightarrow> Inl OSErr)"

subsection \<open>Managed directories and names\<close>

abbreviation (input) blob_root :: path where "blob_root \<equiv> [''blobs'', ''sha256'']"
abbreviation (input) staging_root :: path where "staging_root \<equiv> [''staging'']"

definition managed_dirs :: "path list" where
  "managed_dirs = [[], [''blobs''], [''blobs'', ''sha256''], [''staging'']]"

definition ensure_managed_directory :: "path \<Rightarrow> fs \<Rightarrow> store_error + fs" where
  "ensure_managed_directory p t = (case fs_get p t of
     Some (Link q) \<Rightarrow> Inl InvalidStorageKey
   | Some (Reg bs m) \<Rightarrow> Inl FileExists
   | Some Dir \<Rightarrow> Inr t
   | None \<Rightarrow> Inr (fs_put p Dir t))"

definition initialize_directories :: "fs \<Rightarrow> store_error + fs" where
  "initialize_directories t = res_bind (fs_mkdir [] t) (\<lambda>t.
     foldl (\<lambda>r p. res_bind r (ensure_managed_directory p)) (Inr t) managed_dirs)"

definition validate_managed_directories :: "fs \<Rightarrow> store_error + unit" where
  "validate_managed_directories t =
     (if list_all (\<lambda>p. fs_get p t = Some Dir) managed_dirs then Inr () else Inl InvalidStorageKey)"

text \<open>The patterns \<open>^sha256/([0-9a-f]{2})/([0-9a-f]{64})$\<close> and
  \<open>^staging/(cnt_[0-9a-f]{32})/([0-9a-f]{32})\.part$\<close>, with their groups.\<close>

definition hex_n :: "nat \<Rightarrow> string \<Rightarrow> bool" where
  "hex_n n s \<longleftrightarrow> length s = n \<and> list_all is_hex_lower s"

definition match_key :: "string \<Rightarrow> (string \<times> string) option" where
  "match_key k = (let d = take 2 (drop 7 k); h = drop 10 k in
     if take 7 k = ''sha256/'' \<and> hex_n 2 d \<and> take 1 (drop 9 k) = ''/'' \<and> hex_n 64 h
     then Some (d, h) else None)"

definition match_handle :: "string \<Rightarrow> (string \<times> string) option" where
  "match_handle k = (let c = take 36 (drop 8 k); x = take 32 (drop 45 k) in
     if take 8 k = ''staging/'' \<and> content_id_ok c \<and> take 1 (drop 44 k) = ''/'' \<and> hex_n 32 x
        \<and> drop 77 k = ''.part'' then Some (c, x) else None)"

definition path_for_key :: "string \<Rightarrow> fs \<Rightarrow> store_error + path \<times> string" where
  "path_for_key k t = res_bind (validate_managed_directories t) (\<lambda>_.
     case match_key k of None \<Rightarrow> Inl InvalidStorageKey
     | Some (d, h) \<Rightarrow>
         if d \<noteq> take 2 h then Inl InvalidStorageKey
         else case resolve_dir (blob_root @ [d]) t of
             None \<Rightarrow> Inl InvalidStorageKey
           | Some q \<Rightarrow> if prefix blob_root q then Inr (q @ [h], h) else Inl InvalidStorageKey)"

definition path_for_staging_handle :: "string \<Rightarrow> fs \<Rightarrow> store_error + path" where
  "path_for_staging_handle hdl t = res_bind (validate_managed_directories t) (\<lambda>_.
     case match_handle hdl of None \<Rightarrow> Inl InvalidStorageKey
     | Some (c, x) \<Rightarrow> (case resolve_dir (staging_root @ [c]) t of
           None \<Rightarrow> Inl InvalidStorageKey
         | Some q \<Rightarrow> if strict_prefix staging_root q then Inr (q @ [x @ ''.part''])
                     else Inl InvalidStorageKey))"

subsection \<open>Staging\<close>

datatype stream_event = Chunk bytes | NotBytes | Raises string

fun consume_stream :: "stream_event list \<Rightarrow> bytes \<Rightarrow> store_error + bytes" where
  "consume_stream [] acc = Inr acc"
| "consume_stream (Chunk bs # es) acc = consume_stream es (acc @ bs)"
| "consume_stream (NotBytes # es) acc = Inl ChunkTypeError"
| "consume_stream (Raises x # es) acc = Inl (StreamRaised x)"

definition prune_staging_parent :: "path \<Rightarrow> fs \<Rightarrow> fs" where
  "prune_staging_parent p t =
     (if p = staging_root \<or> butlast p \<noteq> staging_root then t
      else if fs_get p t = Some Dir \<and> \<not> list_ex (\<lambda>(q, n). strict_prefix p q) t then fs_del p t
      else t)"

definition safe_unlink_staging :: "path \<Rightarrow> fs \<Rightarrow> store_error + fs" where
  "safe_unlink_staging p t = (case validate_managed_directories t of
     Inl e \<Rightarrow> Inr t
   | Inr _ \<Rightarrow> (case fs_unlink p t of
         Inl OSErr \<Rightarrow> Inl OSErr
       | Inl _ \<Rightarrow> Inr (prune_staging_parent (butlast p) t)
       | Inr t' \<Rightarrow> Inr (prune_staging_parent (butlast p) t')))"

definition after_cleanup :: "store_error \<Rightarrow> path \<Rightarrow> fs \<Rightarrow> (store_error + 'a) \<times> fs" where
  "after_cleanup e p t = (case safe_unlink_staging p t of
     Inl e' \<Rightarrow> (Inl e', t) | Inr t' \<Rightarrow> (Inl e, t'))"

definition staging_handle :: "string \<Rightarrow> string \<Rightarrow> string" where
  "staging_handle ident tok = ''staging/'' @ ident @ ''/'' @ tok @ ''.part''"

definition stage_write ::
  "string \<Rightarrow> instant \<Rightarrow> string \<Rightarrow> stream_event list \<Rightarrow> fs \<Rightarrow> (store_error + StagedBlob) \<times> fs" where
  "stage_write tok now ident stream t = (case initialize_directories t of
     Inl e \<Rightarrow> (Inl e, t)
   | Inr t \<Rightarrow>
      if \<not> content_id_ok ident then (Inl InvalidStorageKey, t)
      else let hk = staging_handle ident tok in case path_for_staging_handle hk t of
        Inl e \<Rightarrow> (Inl e, t)
      | Inr p \<Rightarrow> (case fs_mkdir (staging_root @ [ident]) t of
          Inl e \<Rightarrow> (Inl e, t)
        | Inr t \<Rightarrow>
          if is_link (staging_root @ [ident]) t then (Inl InvalidStorageKey, t)
          else if fs_get p t \<noteq> None then after_cleanup FileExists p t
          else (case consume_stream stream [] of
              Inl e \<Rightarrow> after_cleanup e p (fs_put p (Reg [] now) t)
            | Inr bs \<Rightarrow> (Inr \<lparr>st_handle = hk, st_sha256 = sha256_hex bs, st_size = int (length bs)\<rparr>,
                        fs_put p (Reg bs now) t))))"

definition stat_staging :: "string \<Rightarrow> fs \<Rightarrow> store_error + StagedBlob option" where
  "stat_staging hdl t = res_bind (path_for_staging_handle hdl t) (\<lambda>p.
     Inr (map_option (\<lambda>(bs, m). \<lparr>st_handle = hdl, st_sha256 = sha256_hex bs, st_size = int (length bs)\<rparr>)
            (plain_file p t)))"

subsection \<open>Publishing\<close>

definition key_of :: "string \<Rightarrow> string" where
  "key_of h = ''sha256/'' @ take 2 h @ ''/'' @ h"

definition verify_blob :: "path \<Rightarrow> string \<Rightarrow> int \<Rightarrow> fs \<Rightarrow> bool" where
  "verify_blob p h n t \<longleftrightarrow> (case plain_file p t of None \<Rightarrow> False
     | Some (bs, m) \<Rightarrow> int (length bs) = n \<and> sha256_hex bs = h)"

definition stored :: "StagedBlob \<Rightarrow> StoredBlob" where
  "stored sb = \<lparr>sb_key = key_of (st_sha256 sb), sb_sha256 = st_sha256 sb, sb_size = st_size sb\<rparr>"

text \<open>The last part of \<open>finalize\<close>: link, accept a verified winner, drop the staging file.\<close>

definition finish_link :: "path \<Rightarrow> path \<Rightarrow> StagedBlob \<Rightarrow> fs \<Rightarrow> (store_error + StoredBlob) \<times> fs" where
  "finish_link p target sb t =
     (let done = (\<lambda>t. case safe_unlink_staging p t of Inl e \<Rightarrow> (Inl e, t) | Inr t' \<Rightarrow> (Inr (stored sb), t')) in
      case fs_link p target t of
        Inr t' \<Rightarrow> done t'
      | Inl FileExists \<Rightarrow> if verify_blob target (st_sha256 sb) (st_size sb) t then done t else (Inl OSErr, t)
      | Inl FileNotFound \<Rightarrow> if verify_blob target (st_sha256 sb) (st_size sb) t then done t else (Inl FileNotFound, t)
      | Inl e \<Rightarrow> (Inl e, t))"

definition finalize :: "(fs \<Rightarrow> fs) \<Rightarrow> StagedBlob \<Rightarrow> fs \<Rightarrow> (store_error + StoredBlob) \<times> fs" where
  "finalize interfere sb t = (case path_for_staging_handle (st_handle sb) t of
     Inl e \<Rightarrow> (Inl e, t)
   | Inr p \<Rightarrow> (case stat_staging (st_handle sb) t of
       Inl e \<Rightarrow> (Inl e, t)
     | Inr observed \<Rightarrow> (case path_for_key (key_of (st_sha256 sb)) t of
         Inl e \<Rightarrow> (Inl e, t)
       | Inr (target, _) \<Rightarrow> (case observed of
           None \<Rightarrow> if verify_blob target (st_sha256 sb) (st_size sb) t then (Inr (stored sb), t)
                   else (Inl FileNotFound, t)
         | Some ob \<Rightarrow>
             if st_sha256 ob \<noteq> st_sha256 sb \<or> st_size ob \<noteq> st_size sb then (Inl OSErr, t)
             else case fs_mkdir (blob_root @ [take 2 (st_sha256 sb)]) t of
               Inl e \<Rightarrow> (Inl e, t)
             | Inr t \<Rightarrow> finish_link p target sb (interfere t)))))"

definition remove_staging :: "string \<Rightarrow> fs \<Rightarrow> (store_error + bool) \<times> fs" where
  "remove_staging hdl t = (case path_for_staging_handle hdl t of
     Inl e \<Rightarrow> (Inl e, t)
   | Inr p \<Rightarrow> if is_link p t then (Inl InvalidStorageKey, t)
       else case fs_unlink p t of
         Inl FileNotFound \<Rightarrow> (Inr False, t)
       | Inl e \<Rightarrow> (Inl e, t)
       | Inr t' \<Rightarrow> (Inr True, prune_staging_parent (butlast p) t'))"

text \<open>\<open>write_stream\<close>: the staging file is removed on every exit; an exception of the removal
  replaces the result.\<close>

definition write_stream ::
  "(fs \<Rightarrow> fs) \<Rightarrow> string \<Rightarrow> string \<Rightarrow> instant \<Rightarrow> stream_event list \<Rightarrow> fs \<Rightarrow> (store_error + StoredBlob) \<times> fs" where
  "write_stream interfere ident_tok tok now stream t =
     try_seq (stage_write tok now (''cnt_'' @ ident_tok) stream t) (\<lambda>sb t.
       case finalize interfere sb t of (r, t) \<Rightarrow>
         try_seq (remove_staging (st_handle sb) t) (\<lambda>_ t. (r, t)))"

subsection \<open>Reading and removing blobs\<close>

text \<open>Reading a file in pieces of at most \<open>n\<close> bytes until a read returns nothing.\<close>

function read_chunks :: "nat \<Rightarrow> bytes \<Rightarrow> bytes list" where
  "read_chunks n bs = (if take n bs = [] then [] else take n bs # read_chunks n (drop n bs))"
  by auto
termination
  by (relation "measure (\<lambda>(n, bs). length bs)") (auto simp: not_less)

declare read_chunks.simps [simp del]

definition open_stream :: "nat \<Rightarrow> string \<Rightarrow> fs \<Rightarrow> store_error + bytes list" where
  "open_stream chunk_size k t = res_bind (path_for_key k t) (\<lambda>(p, _).
     case plain_file p t of None \<Rightarrow> Inl FileNotFound | Some (bs, m) \<Rightarrow> Inr (read_chunks chunk_size bs))"

definition store_stat :: "string \<Rightarrow> fs \<Rightarrow> store_error + StoredBlob option" where
  "store_stat k t = res_bind (path_for_key k t) (\<lambda>(p, h).
     Inr (map_option (\<lambda>(bs, m). \<lparr>sb_key = k, sb_sha256 = h, sb_size = int (length bs)\<rparr>) (plain_file p t)))"

definition store_exists :: "string \<Rightarrow> fs \<Rightarrow> store_error + bool" where
  "store_exists k t = res_bind (store_stat k t) (\<lambda>b. Inr (b \<noteq> None))"

definition store_remove :: "string \<Rightarrow> fs \<Rightarrow> (store_error + bool) \<times> fs" where
  "store_remove k t = (case path_for_key k t of
     Inl e \<Rightarrow> (Inl e, t)
   | Inr (p, h) \<Rightarrow> if is_link p t then (Inl InvalidStorageKey, t)
       else case fs_unlink p t of
         Inl FileNotFound \<Rightarrow> (Inr False, t) | Inl e \<Rightarrow> (Inl e, t) | Inr t' \<Rightarrow> (Inr True, t'))"

subsection \<open>Listings\<close>

definition ends_with :: "string \<Rightarrow> string \<Rightarrow> bool" where
  "ends_with suf s \<longleftrightarrow> suffix suf s"

definition part_paths :: "fs \<Rightarrow> path list" where
  "part_paths t = filter (\<lambda>p. strict_prefix staging_root p \<and> ends_with ''.part'' (last p)) (map fst t)"

definition join_path :: "path \<Rightarrow> string" where
  "join_path p = concat (map (\<lambda>s. ''/'' @ s) p)"

definition list_staging :: "int \<Rightarrow> fs \<Rightarrow> store_error + StagingEntry list" where
  "list_staging limit t = (if \<not> (1 \<le> limit \<and> limit \<le> 10000) then Inl LimitValueError
     else res_bind (validate_managed_directories t) (\<lambda>_.
       Inr (take (nat limit) (List.map_filter (\<lambda>p. case plain_file p t of None \<Rightarrow> None
         | Some (bs, m) \<Rightarrow> let hdl = ''staging'' @ join_path (drop 1 p) in
             if match_handle hdl = None then None
             else Some \<lparr>se_handle = hdl, se_modified_at = m\<rparr>) (sort (part_paths t))))))"

definition blob_paths :: "fs \<Rightarrow> (string \<times> string \<times> path) list" where
  "blob_paths t = concat (map (\<lambda>d. case resolve_dir (blob_root @ [d]) t of None \<Rightarrow> []
       | Some q \<Rightarrow> map (\<lambda>p. (d, last p, p)) (filter (\<lambda>p. p \<noteq> [] \<and> butlast p = q) (map fst t)))
     (map last (filter (\<lambda>p. length p = 3 \<and> butlast p = blob_root \<and> hex_n 2 (last p) \<and> is_dir p t) (map fst t))))"

definition list_final :: "int \<Rightarrow> fs \<Rightarrow> store_error + StoredBlob list" where
  "list_final limit t = (if \<not> (1 \<le> limit \<and> limit \<le> 10000) then Inl LimitValueError
     else res_bind (validate_managed_directories t) (\<lambda>_.
       Inr (take (nat limit) (List.map_filter (\<lambda>(d, h, p). case plain_file p t of None \<Rightarrow> None
         | Some (bs, m) \<Rightarrow> let k = ''sha256/'' @ d @ ''/'' @ h in
             if match_key k = None then None
             else Some \<lparr>sb_key = k, sb_sha256 = h, sb_size = int (length bs)\<rparr>)
         (sort_key (\<lambda>(d, h, p). [d, h]) (blob_paths t))))))"

fun cleanup_paths :: "instant \<Rightarrow> path list \<Rightarrow> fs \<Rightarrow> nat \<times> fs" where
  "cleanup_paths cutoff [] t = (0, t)"
| "cleanup_paths cutoff (p # ps) t = (case plain_file p t of
     None \<Rightarrow> cleanup_paths cutoff ps t
   | Some (bs, m) \<Rightarrow> if m \<le> cutoff
       then (case cleanup_paths cutoff ps (fs_del p t) of (n, t') \<Rightarrow> (Suc n, t'))
       else cleanup_paths cutoff ps t)"

definition cleanup_staging :: "instant \<Rightarrow> int \<Rightarrow> fs \<Rightarrow> (store_error + nat) \<times> fs" where
  "cleanup_staging now age t = (if age < 0 then (Inl LimitValueError, t)
     else case validate_managed_directories t of Inl e \<Rightarrow> (Inl e, t)
     | Inr _ \<Rightarrow> (case cleanup_paths (now - age) (part_paths t) t of (n, t') \<Rightarrow> (Inr n, t')))"

text \<open>\<open>probe\<close>: never raises; the access rights of the four directories are an argument.\<close>

definition store_probe :: "(path \<Rightarrow> bool) \<Rightarrow> fs \<Rightarrow> bool" where
  "store_probe accessible t \<longleftrightarrow> is_ok (validate_managed_directories t) \<and> list_all accessible managed_dirs"

section \<open>Facts about the store\<close>

subsection \<open>Trees\<close>

lemma fs_get_put [simp]: "fs_get q (fs_put p n t) = (if q = p then Some n else fs_get q t)"
  by (simp add: fs_get_def fs_put_def update_conv')

lemma fs_get_del [simp]: "fs_get q (fs_del p t) = (if q = p then None else fs_get q t)"
  by (simp add: fs_get_def fs_del_def delete_conv')

lemma plain_file_put [simp]:
  "plain_file q (fs_put p n t) =
     (if q = p then (case n of Reg bs m \<Rightarrow> Some (bs, m) | _ \<Rightarrow> None) else plain_file q t)"
  by (simp add: plain_file_def)

lemma plain_file_del [simp]: "plain_file q (fs_del p t) = (if q = p then None else plain_file q t)"
  by (simp add: plain_file_def)

lemma plain_file_Some: "plain_file p t = Some (bs, m) \<longleftrightarrow> fs_get p t = Some (Reg bs m)"
  by (auto simp: plain_file_def split: option.splits fs_node.splits)

lemma fs_get_mem: "(p, n) \<in> set t \<Longrightarrow> distinct (map fst t) \<Longrightarrow> fs_get p t = Some n"
  by (simp add: fs_get_def map_of_is_SomeI)

subsection \<open>Names\<close>

lemma hex_n_take: "hex_n n h \<Longrightarrow> k \<le> n \<Longrightarrow> hex_n k (take k h)"
  by (auto simp: hex_n_def list_all_iff dest: in_set_takeD)

lemma hex_sha256: "hex_n 64 (sha256_hex bs)"
  by (simp add: hex_n_def sha256_hex_hex)

lemma match_key_shape:
  "match_key k = Some (d, h) \<longleftrightarrow> k = ''sha256/'' @ d @ ''/'' @ h \<and> hex_n 2 d \<and> hex_n 64 h"
proof
  assume m: "match_key k = Some (d, h)"
  have "k = take 7 k @ take 2 (drop 7 k) @ take 1 (drop 9 k) @ drop 10 k"
    using drop_split [of 0 k 7] drop_split [of 7 k 2] drop_split [of 9 k 1] by simp
  with m show "k = ''sha256/'' @ d @ ''/'' @ h \<and> hex_n 2 d \<and> hex_n 64 h"
    by (auto simp: match_key_def Let_def split: if_splits)
next
  assume "k = ''sha256/'' @ d @ ''/'' @ h \<and> hex_n 2 d \<and> hex_n 64 h"
  then show "match_key k = Some (d, h)"
    by (auto simp: match_key_def Let_def hex_n_def)
qed

lemma match_handle_staging:
  assumes "content_id_ok c" "hex_n 32 x"
  shows "match_handle (staging_handle c x) = Some (c, x)"
proof -
  have c: "length c = 36" using assms(1) by (simp add: content_id_ok_def)
  have x: "length x = 32" using assms(2) by (simp add: hex_n_def)
  show ?thesis
    using assms by (simp add: match_handle_def Let_def staging_handle_def c x)
qed

lemma match_key_of: "hex_n 64 h \<Longrightarrow> match_key (key_of h) = Some (take 2 h, h)"
  by (simp add: match_key_shape key_of_def hex_n_take)

lemma match_handle_inv:
  assumes "match_handle k = Some (c, x)"
  shows "k = staging_handle c x \<and> content_id_ok c \<and> hex_n 32 x"
proof -
  have "k = take 8 k @ take 36 (drop 8 k) @ take 1 (drop 44 k) @ take 32 (drop 45 k) @ drop 77 k"
    using drop_split [of 0 k 8] drop_split [of 8 k 36] drop_split [of 44 k 1] drop_split [of 45 k 32]
    by simp
  with assms show ?thesis
    by (auto simp: match_handle_def Let_def staging_handle_def split: if_splits)
qed

subsection \<open>The tree of a store that only this code has written\<close>

fun store_node_ok :: "path \<Rightarrow> fs_node \<Rightarrow> bool" where
  "store_node_ok p Dir \<longleftrightarrow> p \<in> set managed_dirs
     \<or> (\<exists>d. p = blob_root @ [d] \<and> hex_n 2 d) \<or> (\<exists>c. p = staging_root @ [c] \<and> content_id_ok c)"
| "store_node_ok p (Reg bs m) \<longleftrightarrow>
     p = blob_root @ [take 2 (sha256_hex bs), sha256_hex bs]
     \<or> (\<exists>c x. p = staging_root @ [c, x @ ''.part''] \<and> content_id_ok c \<and> hex_n 32 x)"
| "store_node_ok p (Link q) \<longleftrightarrow> False"

definition managed :: "fs \<Rightarrow> bool" where
  "managed t \<longleftrightarrow> (\<forall>p \<in> set managed_dirs. fs_get p t = Some Dir)"

definition fs_inv :: "fs \<Rightarrow> bool" where
  "fs_inv t \<longleftrightarrow> managed t \<and> distinct (map fst t)
     \<and> (\<forall>p n. fs_get p t = Some n \<longrightarrow> store_node_ok p n)
     \<and> (\<forall>p bs m. fs_get p t = Some (Reg bs m) \<longrightarrow> fs_get (butlast p) t = Some Dir)"

text \<open>The abstract store: which bytes are published under a key, which are staged under a handle.\<close>

definition blob_map :: "fs \<Rightarrow> string \<Rightarrow> bytes option" where
  "blob_map t k = (case match_key k of None \<Rightarrow> None
     | Some (d, h) \<Rightarrow> if d = take 2 h then map_option fst (plain_file (blob_root @ [d, h]) t) else None)"

definition staging_map :: "fs \<Rightarrow> string \<Rightarrow> bytes option" where
  "staging_map t hdl = (case match_handle hdl of None \<Rightarrow> None
     | Some (c, x) \<Rightarrow> map_option fst (plain_file (staging_root @ [c, x @ ''.part'']) t))"

lemma managed_get:
  "managed t \<Longrightarrow> fs_get [] t = Some Dir \<and> fs_get [''blobs''] t = Some Dir
     \<and> fs_get blob_root t = Some Dir \<and> fs_get staging_root t = Some Dir"
  by (simp add: managed_def managed_dirs_def)

lemma validate_managed: "validate_managed_directories t = Inr () \<longleftrightarrow> managed t"
  by (simp add: validate_managed_directories_def managed_def list_all_iff)

lemma initialize_managed:
  assumes "managed t"
  shows "initialize_directories t = Inr t"
  using managed_get [OF assms]
  by (simp add: initialize_directories_def fs_mkdir_def is_dir_def managed_dirs_def
      ensure_managed_directory_def)

lemma fs_inv_no_link: "fs_inv t \<Longrightarrow> fs_get p t \<noteq> Some (Link q)"
  unfolding fs_inv_def using store_node_ok.simps(3) by blast

lemma fs_inv_resolve: "fs_inv t \<Longrightarrow> resolve_dir p t = Some p"
  using fs_inv_no_link by (auto simp: resolve_dir_def split: option.splits fs_node.splits)

lemma fs_inv_is_link: "fs_inv t \<Longrightarrow> \<not> is_link p t"
  using fs_inv_no_link by (auto simp: is_link_def split: option.splits fs_node.splits)

lemma path_for_key_inv:
  assumes "fs_inv t"
  shows "path_for_key k t = (case match_key k of None \<Rightarrow> Inl InvalidStorageKey
     | Some (d, h) \<Rightarrow> if d = take 2 h then Inr (blob_root @ [d, h], h) else Inl InvalidStorageKey)"
  using assms validate_managed [of t]
  by (auto simp: path_for_key_def fs_inv_resolve fs_inv_def split: option.splits)

lemma path_for_handle_inv:
  assumes "fs_inv t"
  shows "path_for_staging_handle k t = (case match_handle k of None \<Rightarrow> Inl InvalidStorageKey
     | Some (c, x) \<Rightarrow> Inr (staging_root @ [c, x @ ''.part'']))"
  using assms validate_managed [of t]
  by (auto simp: path_for_staging_handle_def fs_inv_resolve fs_inv_def split: option.splits)

lemma fs_inv_staging_dir:
  assumes "fs_inv t" "content_id_ok c"
  shows "fs_get (staging_root @ [c]) t \<in> {None, Some Dir}"
proof (cases "fs_get (staging_root @ [c]) t")
  case (Some n)
  then have "store_node_ok (staging_root @ [c]) n" using assms(1) by (simp add: fs_inv_def)
  with Some show ?thesis by (cases n) auto
qed simp

lemma fs_inv_blob_dir:
  assumes "fs_inv t"
  shows "fs_get (blob_root @ [d]) t \<in> {None, Some Dir}"
proof (cases "fs_get (blob_root @ [d]) t")
  case (Some n)
  then have "store_node_ok (blob_root @ [d]) n" using assms(1) by (simp add: fs_inv_def)
  with Some show ?thesis by (cases n) auto
qed simp

lemma fs_inv_blob_node:
  assumes "fs_inv t" "fs_get (blob_root @ [d, h]) t = Some n"
  shows "\<exists>bs m. n = Reg bs m \<and> h = sha256_hex bs \<and> d = take 2 h"
proof -
  have "store_node_ok (blob_root @ [d, h]) n" using assms by (simp add: fs_inv_def)
  then show ?thesis by (cases n) (auto simp: managed_dirs_def)
qed

lemma fs_inv_staging_node:
  assumes "fs_inv t" "fs_get (staging_root @ [c, x]) t = Some n"
  shows "\<exists>bs m. n = Reg bs m"
proof -
  have "store_node_ok (staging_root @ [c, x]) n" using assms by (simp add: fs_inv_def)
  then show ?thesis by (cases n) (auto simp: managed_dirs_def)
qed

subsection \<open>Elementary changes keep the invariant\<close>

lemma distinct_fs_put [simp]: "distinct (map fst t) \<Longrightarrow> distinct (map fst (fs_put p n t))"
  by (simp add: fs_put_def distinct_update)

lemma distinct_fs_del [simp]: "distinct (map fst t) \<Longrightarrow> distinct (map fst (fs_del p t))"
  by (simp add: fs_del_def distinct_delete)

lemma fs_inv_put_dir:
  assumes "fs_inv t" "fs_get p t = None" "store_node_ok p Dir"
  shows "fs_inv (fs_put p Dir t)"
  using assms unfolding fs_inv_def managed_def by auto

lemma fs_inv_put_reg:
  assumes "fs_inv t" "fs_get p t = None" "store_node_ok p (Reg bs m)" "fs_get (butlast p) t = Some Dir"
  shows "fs_inv (fs_put p (Reg bs m) t)"
proof -
  have "butlast q \<noteq> p" if "fs_get q t = Some (Reg bs' m')" for q bs' m'
    using that assms(1,2) unfolding fs_inv_def by (metis option.distinct(1))
  moreover have "butlast p \<noteq> p" using assms(2,4) by auto
  ultimately show ?thesis
    using assms unfolding fs_inv_def managed_def by (auto simp del: store_node_ok.simps)
qed

lemma store_dir_not_file: "store_node_ok p Dir \<Longrightarrow> \<not> store_node_ok p (Reg bs m)"
  by (auto simp: managed_dirs_def)

lemma fs_inv_del_reg:
  assumes "fs_inv t" "fs_get p t = Some (Reg bs m)"
  shows "fs_inv (fs_del p t)"
proof -
  have "q \<noteq> p" if "fs_get q t = Some Dir" for q
    using that assms(2) by auto
  then show ?thesis using assms unfolding fs_inv_def managed_def by auto
qed

lemma fs_inv_prune:
  assumes "fs_inv t"
  shows "fs_inv (prune_staging_parent p t)"
proof (cases "fs_get p t = Some Dir \<and> \<not> list_ex (\<lambda>(q, n). strict_prefix p q) t
    \<and> p \<noteq> staging_root \<and> butlast p = staging_root")
  case True
  have "butlast q \<noteq> p" if "fs_get q t = Some n" "q \<noteq> []" for q n
  proof
    assume "butlast q = p"
    then have "strict_prefix p q"
      using that(2) by (metis append_butlast_last_id append_Nil2 list.distinct(1) same_append_eq
          prefixI strict_prefix_def)
    moreover have "(q, n) \<in> set t" using that(1) by (simp add: fs_get_def map_of_SomeD)
    ultimately show False using True by (auto simp: list_ex_iff)
  qed
  moreover have "p \<notin> set managed_dirs" using True by (auto simp: managed_dirs_def)
  moreover have "fs_get [] t = Some Dir" using assms managed_get by (auto simp: fs_inv_def)
  ultimately have "fs_inv (fs_del p t)"
    using assms unfolding fs_inv_def managed_def by (auto, metis fs_node.distinct(1) option.inject)
  then show ?thesis using True by (simp add: prune_staging_parent_def)
qed (use assms in \<open>auto simp: prune_staging_parent_def\<close>)

lemma prune_plain_file [simp]: "plain_file q (prune_staging_parent p t) = plain_file q t"
  by (auto simp: prune_staging_parent_def plain_file_def)

lemma prune_maps [simp]:
  "blob_map (prune_staging_parent p t) = blob_map t"
  "staging_map (prune_staging_parent p t) = staging_map t"
  by (auto simp: blob_map_def staging_map_def fun_eq_iff split: option.splits)

lemma maps_put_dir [simp]:
  assumes "plain_file p t = None"
  shows "blob_map (fs_put p Dir t) = blob_map t" "staging_map (fs_put p Dir t) = staging_map t"
  using assms by (auto simp: blob_map_def staging_map_def fun_eq_iff split: option.splits)

lemma blob_map_key: "hex_n 64 h \<Longrightarrow>
    blob_map t (key_of h) = map_option fst (plain_file (blob_root @ [take 2 h, h]) t)"
  by (simp add: blob_map_def match_key_of)

lemma blob_map_other: "\<not> (\<exists>h. hex_n 64 h \<and> k = key_of h) \<Longrightarrow> blob_map t k = None"
  by (auto simp: blob_map_def match_key_shape key_of_def split: option.splits)

lemma staging_map_handle: "content_id_ok c \<Longrightarrow> hex_n 32 x \<Longrightarrow>
    staging_map t (staging_handle c x) = map_option fst (plain_file (staging_root @ [c, x @ ''.part'']) t)"
  by (simp add: staging_map_def match_handle_staging)

lemma staging_map_other:
  "\<not> (\<exists>c x. content_id_ok c \<and> hex_n 32 x \<and> k = staging_handle c x) \<Longrightarrow> staging_map t k = None"
  by (auto simp: staging_map_def split: option.splits dest: match_handle_inv)

lemma key_of_inj: "hex_n 64 h \<Longrightarrow> hex_n 64 h' \<Longrightarrow> key_of h = key_of h' \<longleftrightarrow> h = h'"
  by (metis match_key_of option.inject prod.inject)

lemma staging_handle_inj:
  "content_id_ok c \<Longrightarrow> hex_n 32 x \<Longrightarrow> content_id_ok c' \<Longrightarrow> hex_n 32 x' \<Longrightarrow>
     staging_handle c x = staging_handle c' x' \<longleftrightarrow> c = c' \<and> x = x'"
  by (metis match_handle_staging option.inject prod.inject)

lemma blob_map_eqI:
  assumes "\<And>h. hex_n 64 h \<Longrightarrow> blob_map t (key_of h) = f (key_of h)"
    and "\<And>k. \<not> (\<exists>h. hex_n 64 h \<and> k = key_of h) \<Longrightarrow> f k = None"
  shows "blob_map t = f"
  using assms blob_map_other by (intro ext) metis

lemma staging_map_eqI:
  assumes "\<And>c x. content_id_ok c \<Longrightarrow> hex_n 32 x \<Longrightarrow> staging_map t (staging_handle c x) = f (staging_handle c x)"
    and "\<And>k. \<not> (\<exists>c x. content_id_ok c \<and> hex_n 32 x \<and> k = staging_handle c x) \<Longrightarrow> f k = None"
  shows "staging_map t = f"
  using assms staging_map_other by (intro ext) metis

lemmas map_simps = blob_map_key staging_map_handle key_of_inj staging_handle_inj

lemma maps_put_staged:
  assumes "content_id_ok c" "hex_n 32 x"
  shows "blob_map (fs_put (staging_root @ [c, x @ ''.part'']) (Reg bs m) t) = blob_map t"
    and "staging_map (fs_put (staging_root @ [c, x @ ''.part'']) (Reg bs m) t) =
       (staging_map t)(staging_handle c x \<mapsto> bs)"
  by (rule blob_map_eqI, simp add: map_simps, simp add: blob_map_other)
    (rule staging_map_eqI; use assms staging_map_other in \<open>auto simp: map_simps\<close>)

lemma maps_del_staged:
  assumes "content_id_ok c" "hex_n 32 x"
  shows "blob_map (fs_del (staging_root @ [c, x @ ''.part'']) t) = blob_map t"
    and "staging_map (fs_del (staging_root @ [c, x @ ''.part'']) t) =
       (staging_map t)(staging_handle c x := None)"
  by (rule blob_map_eqI, simp add: map_simps, simp add: blob_map_other)
    (rule staging_map_eqI; use assms staging_map_other in \<open>auto simp: map_simps\<close>)

lemma maps_put_blob:
  assumes "hex_n 64 h"
  shows "staging_map (fs_put (blob_root @ [take 2 h, h]) (Reg bs m) t) = staging_map t"
    and "blob_map (fs_put (blob_root @ [take 2 h, h]) (Reg bs m) t) = (blob_map t)(key_of h \<mapsto> bs)"
  by (rule staging_map_eqI, simp add: map_simps, simp add: staging_map_other)
    (rule blob_map_eqI; use assms blob_map_other in \<open>auto simp: map_simps\<close>)

lemma maps_del_blob:
  assumes "hex_n 64 h"
  shows "staging_map (fs_del (blob_root @ [take 2 h, h]) t) = staging_map t"
    and "blob_map (fs_del (blob_root @ [take 2 h, h]) t) = (blob_map t)(key_of h := None)"
  by (rule staging_map_eqI, simp add: map_simps, simp add: staging_map_other)
    (rule blob_map_eqI; use assms blob_map_other in \<open>auto simp: map_simps\<close>)

lemma blob_map_Some:
  assumes "fs_inv t" "blob_map t k = Some bs"
  shows "k = key_of (sha256_hex bs)
    \<and> (\<exists>m. fs_get (blob_root @ [take 2 (sha256_hex bs), sha256_hex bs]) t = Some (Reg bs m))"
proof -
  obtain d h m where k: "match_key k = Some (d, h)" "d = take 2 h"
      "plain_file (blob_root @ [d, h]) t = Some (bs, m)"
    using assms(2) by (auto simp: blob_map_def split: option.splits if_splits)
  then show ?thesis
    using fs_inv_blob_node [OF assms(1)] match_key_shape [of k d h]
    by (force simp: plain_file_Some key_of_def)
qed

subsection \<open>The operations refine operations of the abstract store\<close>

lemma safe_unlink_inv:
  assumes "fs_inv t" "content_id_ok c" "hex_n 32 x"
  shows "\<exists>t'. safe_unlink_staging (staging_root @ [c, x @ ''.part'']) t = Inr t' \<and> fs_inv t'
    \<and> blob_map t' = blob_map t \<and> staging_map t' = (staging_map t)(staging_handle c x := None)"
proof -
  let ?p = "staging_root @ [c, x @ ''.part'']"
  have v: "validate_managed_directories t = Inr ()"
    using assms(1) by (simp add: validate_managed fs_inv_def)
  show ?thesis
  proof (cases "fs_get ?p t")
    case None
    then have "staging_map t (staging_handle c x) = None"
      using assms(2,3) by (simp add: staging_map_handle plain_file_def)
    with None v show ?thesis
      using assms(1) fs_inv_prune
      by (auto simp: safe_unlink_staging_def fs_unlink_def fun_upd_idem)
  next
    case (Some n)
    then obtain bs m where n: "fs_get ?p t = Some (Reg bs m)"
      using fs_inv_staging_node [OF assms(1) Some] by auto
    then have "safe_unlink_staging ?p t = Inr (prune_staging_parent (staging_root @ [c]) (fs_del ?p t))"
      using v by (simp add: safe_unlink_staging_def fs_unlink_def)
    then show ?thesis
      using fs_inv_prune [OF fs_inv_del_reg [OF assms(1) n]] maps_del_staged [OF assms(2,3), of t]
      by simp
  qed
qed

lemma stage_mkdir:
  assumes "fs_inv t" "content_id_ok c"
  shows "\<exists>t'. fs_mkdir (staging_root @ [c]) t = Inr t' \<and> fs_inv t' \<and> blob_map t' = blob_map t
    \<and> staging_map t' = staging_map t \<and> fs_get (staging_root @ [c]) t' = Some Dir
    \<and> (\<forall>p. length p = 3 \<longrightarrow> fs_get p t' = fs_get p t)"
proof (cases "fs_get (staging_root @ [c]) t")
  case None
  then show ?thesis
    using fs_inv_put_dir [OF assms(1) None] assms(2) by (auto simp: fs_mkdir_def plain_file_def)
next
  case (Some n)
  then show ?thesis
    using fs_inv_staging_dir [OF assms] assms(1) by (auto simp: fs_mkdir_def is_dir_def)
qed

lemma stage_write_ok_path:
  assumes "fs_inv t" "content_id_ok ident" "hex_n 32 tok"
  obtains t' where "fs_inv t'" "blob_map t' = blob_map t" "staging_map t' = staging_map t"
    "fs_get (staging_root @ [ident]) t' = Some Dir"
    "stage_write tok now ident stream t =
       (let p = staging_root @ [ident, tok @ ''.part''] in
        if staging_map t (staging_handle ident tok) \<noteq> None then after_cleanup FileExists p t'
        else case consume_stream stream [] of
            Inl e \<Rightarrow> after_cleanup e p (fs_put p (Reg [] now) t')
          | Inr bs \<Rightarrow> (Inr \<lparr>st_handle = staging_handle ident tok, st_sha256 = sha256_hex bs,
                          st_size = int (length bs)\<rparr>, fs_put p (Reg bs now) t'))"
    "staging_map t (staging_handle ident tok) = None \<longrightarrow>
       fs_get (staging_root @ [ident, tok @ ''.part'']) t' = None"
proof -
  let ?p = "staging_root @ [ident, tok @ ''.part'']"
  obtain t' where t': "fs_mkdir (staging_root @ [ident]) t = Inr t'" "fs_inv t'"
      "blob_map t' = blob_map t" "staging_map t' = staging_map t"
      "fs_get (staging_root @ [ident]) t' = Some Dir" "fs_get ?p t' = fs_get ?p t"
    using stage_mkdir [OF assms(1,2)] by auto
  have free: "fs_get ?p t = None \<longleftrightarrow> staging_map t (staging_handle ident tok) = None"
    using fs_inv_staging_node [OF assms(1), of ident "tok @ ''.part''"] assms
    by (cases "fs_get ?p t") (auto simp: staging_map_handle plain_file_def)
  have "managed t" using assms(1) by (simp add: fs_inv_def)
  then have "stage_write tok now ident stream t =
       (let p = ?p in
        if staging_map t (staging_handle ident tok) \<noteq> None then after_cleanup FileExists p t'
        else case consume_stream stream [] of
            Inl e \<Rightarrow> after_cleanup e p (fs_put p (Reg [] now) t')
          | Inr bs \<Rightarrow> (Inr \<lparr>st_handle = staging_handle ident tok, st_sha256 = sha256_hex bs,
                          st_size = int (length bs)\<rparr>, fs_put p (Reg bs now) t'))"
    using t' free assms(2,3)
    by (simp add: stage_write_def initialize_managed path_for_handle_inv [OF assms(1)]
        match_handle_staging fs_inv_is_link Let_def)
  then show thesis using that t' free by simp
qed

lemma put_staged_inv:
  assumes "fs_inv t" "content_id_ok c" "hex_n 32 x" "fs_get (staging_root @ [c]) t = Some Dir"
    and "fs_get (staging_root @ [c, x @ ''.part'']) t = None"
  shows "fs_inv (fs_put (staging_root @ [c, x @ ''.part'']) (Reg bs m) t)"
  by (rule fs_inv_put_reg [OF assms(1,5)]) (use assms in auto)

lemma after_cleanup_inv:
  assumes "fs_inv t" "content_id_ok c" "hex_n 32 x"
  shows "\<exists>t'. after_cleanup e (staging_root @ [c, x @ ''.part'']) t = (Inl e, t') \<and> fs_inv t'
    \<and> blob_map t' = blob_map t \<and> staging_map t' = (staging_map t)(staging_handle c x := None)"
  using safe_unlink_inv [OF assms] by (auto simp: after_cleanup_def)

lemma stage_write_refines:
  assumes "fs_inv t" "content_id_ok ident" "hex_n 32 tok"
    and "staging_map t (staging_handle ident tok) = None"
  shows "\<exists>t'. fs_inv t' \<and> blob_map t' = blob_map t
    \<and> (case consume_stream stream [] of
         Inl e \<Rightarrow> stage_write tok now ident stream t = (Inl e, t') \<and> staging_map t' = staging_map t
       | Inr bs \<Rightarrow> stage_write tok now ident stream t =
             (Inr \<lparr>st_handle = staging_handle ident tok, st_sha256 = sha256_hex bs,
                   st_size = int (length bs)\<rparr>, t')
           \<and> staging_map t' = (staging_map t)(staging_handle ident tok \<mapsto> bs))"
proof -
  let ?p = "staging_root @ [ident, tok @ ''.part'']"
  obtain t1 where t1: "fs_inv t1" "blob_map t1 = blob_map t" "staging_map t1 = staging_map t"
    "fs_get (staging_root @ [ident]) t1 = Some Dir"
    "stage_write tok now ident stream t =
       (let p = ?p in
        if staging_map t (staging_handle ident tok) \<noteq> None then after_cleanup FileExists p t1
        else case consume_stream stream [] of
            Inl e \<Rightarrow> after_cleanup e p (fs_put p (Reg [] now) t1)
          | Inr bs \<Rightarrow> (Inr \<lparr>st_handle = staging_handle ident tok, st_sha256 = sha256_hex bs,
                          st_size = int (length bs)\<rparr>, fs_put p (Reg bs now) t1))"
    "staging_map t (staging_handle ident tok) = None \<longrightarrow> fs_get ?p t1 = None"
    by (rule stage_write_ok_path [OF assms(1-3), of now stream])
  note put = put_staged_inv [OF t1(1) assms(2,3) t1(4) t1(6) [rule_format, OF assms(4)]]
  note maps = maps_put_staged [OF assms(2,3)]
  show ?thesis
  proof (cases "consume_stream stream []")
    case (Inl e)
    then show ?thesis
      using after_cleanup_inv [OF put [of "[]" now] assms(2,3), of e] t1(2,3,5) assms(4) maps
      by (auto simp add: fun_upd_idem Let_def)
  next
    case (Inr bs)
    then show ?thesis
      using put [of bs now] t1(2,3,5) assms(4) maps by (simp add: Let_def)
  qed
qed

text \<open>What concurrent callers may do to a tree between the probe and the link of a
  finalization: the staged file stays, or another finalizer of the same handle has published
  the blob; blob directories are never removed; and no colliding blob of another size exists.\<close>

definition finalize_interference :: "StagedBlob \<Rightarrow> bytes \<Rightarrow> fs \<Rightarrow> bool" where
  "finalize_interference sb bs t \<longleftrightarrow> fs_inv t
     \<and> fs_get (blob_root @ [take 2 (st_sha256 sb)]) t = Some Dir
     \<and> (staging_map t (st_handle sb) = Some bs
        \<or> staging_map t (st_handle sb) = None \<and> blob_map t (key_of (st_sha256 sb)) \<noteq> None)
     \<and> (\<forall>b. blob_map t (key_of (st_sha256 sb)) = Some b \<longrightarrow> length b = length bs)"

definition finalize_env :: "(fs \<Rightarrow> fs) \<Rightarrow> StagedBlob \<Rightarrow> bytes \<Rightarrow> fs \<Rightarrow> bool" where
  "finalize_env interfere sb bs t \<longleftrightarrow> (\<forall>u. fs_inv u \<and> blob_map u = blob_map t
     \<and> staging_map u = staging_map t \<and> fs_get (blob_root @ [take 2 (st_sha256 sb)]) u = Some Dir
     \<longrightarrow> finalize_interference sb bs (interfere u))"

lemma verify_blob_inv:
  assumes "fs_inv t" "hex_n 64 h"
  shows "verify_blob (blob_root @ [take 2 h, h]) h n t \<longleftrightarrow>
     (\<exists>b. blob_map t (key_of h) = Some b \<and> int (length b) = n)"
proof -
  have "sha256_hex bs = h" if "plain_file (blob_root @ [take 2 h, h]) t = Some (bs, m)" for bs m
    using fs_inv_blob_node [OF assms(1), of "take 2 h" h] that by (auto simp: plain_file_Some)
  then show ?thesis
    using assms(2)
    by (cases "plain_file (blob_root @ [take 2 h, h]) t")
      (auto simp: verify_blob_def blob_map_key)
qed

lemma blob_mkdir:
  assumes "fs_inv t" "hex_n 2 d"
  shows "\<exists>t'. fs_mkdir (blob_root @ [d]) t = Inr t' \<and> fs_inv t' \<and> blob_map t' = blob_map t
    \<and> staging_map t' = staging_map t \<and> fs_get (blob_root @ [d]) t' = Some Dir"
proof (cases "fs_get (blob_root @ [d]) t")
  case None
  then show ?thesis
    using fs_inv_put_dir [OF assms(1) None] assms(2) by (auto simp: fs_mkdir_def plain_file_def)
next
  case (Some n)
  then show ?thesis
    using fs_inv_blob_dir [OF assms(1), of d] assms(1) by (auto simp: fs_mkdir_def is_dir_def)
qed

lemma put_blob_inv:
  assumes "fs_inv t" "fs_get (blob_root @ [take 2 (sha256_hex bs)]) t = Some Dir"
    and "fs_get (blob_root @ [take 2 (sha256_hex bs), sha256_hex bs]) t = None"
  shows "fs_inv (fs_put (blob_root @ [take 2 (sha256_hex bs), sha256_hex bs]) (Reg bs m) t)"
  by (rule fs_inv_put_reg [OF assms(1,3)]) (use assms in auto)

lemma finish_link_refines:
  assumes "content_id_ok c" "hex_n 32 x" "st_handle sb = staging_handle c x"
    and "st_sha256 sb = sha256_hex bs" "st_size sb = int (length bs)"
    and "finalize_interference sb bs t"
  shows "\<exists>t'. finish_link (staging_root @ [c, x @ ''.part''])
        (blob_root @ [take 2 (sha256_hex bs), sha256_hex bs]) sb t = (Inr (stored sb), t')
    \<and> fs_inv t' \<and> staging_map t' = (staging_map t)(st_handle sb := None)
    \<and> blob_map t' = (if blob_map t (key_of (sha256_hex bs)) = None
                     then (blob_map t)(key_of (sha256_hex bs) \<mapsto> bs) else blob_map t)"
proof -
  let ?p = "staging_root @ [c, x @ ''.part'']" and ?h = "sha256_hex bs"
  let ?q = "blob_root @ [take 2 ?h, ?h]"
  note hex = hex_sha256 [of bs]
  have i: "fs_inv t" "fs_get (blob_root @ [take 2 ?h]) t = Some Dir"
      "staging_map t (st_handle sb) = Some bs \<or> staging_map t (st_handle sb) = None \<and> blob_map t (key_of ?h) \<noteq> None"
      "\<forall>b. blob_map t (key_of ?h) = Some b \<longrightarrow> length b = length bs"
    using assms(4,6) by (auto simp: finalize_interference_def)
  have drop: "\<exists>t'. safe_unlink_staging ?p u = Inr t' \<and> fs_inv t' \<and> blob_map t' = blob_map u
      \<and> staging_map t' = (staging_map u)(st_handle sb := None)" if "fs_inv u" for u
    using safe_unlink_inv [OF that assms(1,2)] assms(3) by simp
  have src: "fs_get ?p t = None \<or> (\<exists>m. fs_get ?p t = Some (Reg bs m))"
    using i(3) fs_inv_staging_node [OF i(1), of c "x @ ''.part''"] assms(1-3)
    by (cases "fs_get ?p t") (auto simp: staging_map_handle plain_file_def)
  show ?thesis
  proof (cases "blob_map t (key_of ?h)")
    case None
    then have free: "fs_get ?q t = None"
      using fs_inv_blob_node [OF i(1), of "take 2 ?h" ?h] hex
      by (cases "fs_get ?q t") (auto simp: blob_map_key plain_file_def)
    obtain m where m: "fs_get ?p t = Some (Reg bs m)"
      using i(3) src None assms(1-3) by (auto simp: staging_map_handle plain_file_def)
    have "fs_link ?p ?q t = Inr (fs_put ?q (Reg bs m) t)"
      using m free i(2) by (simp add: fs_link_def)
    then show ?thesis
      using drop [OF put_blob_inv [OF i(1,2) free, of m]] maps_put_blob [OF hex, of bs m t] None
      by (auto simp: finish_link_def)
  next
    case (Some b)
    then have ver: "verify_blob ?q (st_sha256 sb) (st_size sb) t"
      using i(4) verify_blob_inv [OF i(1) hex] assms(4,5) by simp
    have "fs_get ?q t \<noteq> None"
      using Some hex by (auto simp: blob_map_key plain_file_def split: option.splits)
    then have "fs_link ?p ?q t \<in> {Inl FileExists, Inl FileNotFound}"
      using src i(2) by (auto simp: fs_link_def Let_def)
    then show ?thesis
      using ver drop [OF i(1)] Some by (auto simp: finish_link_def)
  qed
qed

lemma finalize_refines:
  assumes inv: "fs_inv t" and st: "staging_map t (st_handle sb) = Some bs"
    and sb: "st_sha256 sb = sha256_hex bs" "st_size sb = int (length bs)"
    and env: "finalize_env interfere sb bs t"
  shows "\<exists>u t'. fs_inv u \<and> blob_map u = blob_map t \<and> staging_map u = staging_map t
    \<and> finalize interfere sb t = (Inr (stored sb), t') \<and> fs_inv t'
    \<and> staging_map t' = (staging_map (interfere u))(st_handle sb := None)
    \<and> blob_map t' = (if blob_map (interfere u) (key_of (sha256_hex bs)) = None
        then (blob_map (interfere u))(key_of (sha256_hex bs) \<mapsto> bs) else blob_map (interfere u))"
proof -
  note hex = hex_sha256 [of bs]
  obtain c x where cx: "content_id_ok c" "hex_n 32 x" "st_handle sb = staging_handle c x"
    using st staging_map_other [of "st_handle sb" t] by fastforce
  then have file_is: "map_option fst (plain_file (staging_root @ [c, x @ ''.part'']) t) = Some bs"
    using st by (simp add: staging_map_handle)
  obtain u where u: "fs_mkdir (blob_root @ [take 2 (sha256_hex bs)]) t = Inr u" "fs_inv u"
      "blob_map u = blob_map t" "staging_map u = staging_map t"
      "fs_get (blob_root @ [take 2 (sha256_hex bs)]) u = Some Dir"
    using blob_mkdir [OF inv hex_n_take [OF hex, of 2]] by auto
  have "finalize interfere sb t =
      finish_link (staging_root @ [c, x @ ''.part''])
        (blob_root @ [take 2 (sha256_hex bs), sha256_hex bs]) sb (interfere u)"
    using file_is u(1) cx sb
    by (auto simp: finalize_def stat_staging_def path_for_handle_inv [OF inv]
        path_for_key_inv [OF inv] match_handle_staging match_key_of [OF hex])
  then show ?thesis
    using finish_link_refines [OF cx sb, of "interfere u"] env u(2-5) sb(1)
    by (auto simp: finalize_env_def)
qed

lemma remove_staging_refines:
  assumes "fs_inv t"
  shows "if match_handle k = None then remove_staging k t = (Inl InvalidStorageKey, t)
    else \<exists>t'. remove_staging k t = (Inr (staging_map t k \<noteq> None), t') \<and> fs_inv t'
      \<and> blob_map t' = blob_map t \<and> staging_map t' = (staging_map t)(k := None)"
proof (cases "match_handle k")
  case None
  then show ?thesis by (simp add: remove_staging_def path_for_handle_inv [OF assms])
next
  case (Some cx)
  obtain c x where cx: "match_handle k = Some (c, x)" using Some by (cases cx) auto
  then have ok: "k = staging_handle c x" "content_id_ok c" "hex_n 32 x"
    using match_handle_inv by blast+
  let ?p = "staging_root @ [c, x @ ''.part'']"
  show ?thesis
  proof (cases "fs_get ?p t")
    case None
    then show ?thesis
      using cx ok assms fs_inv_is_link [OF assms]
      by (simp add: remove_staging_def path_for_handle_inv [OF assms] fs_unlink_def
          staging_map_handle plain_file_def fun_upd_idem)
  next
    case (Some n)
    then obtain bs m where n: "fs_get ?p t = Some (Reg bs m)"
      using fs_inv_staging_node [OF assms Some] by auto
    then have "remove_staging k t = (Inr True, prune_staging_parent (staging_root @ [c]) (fs_del ?p t))"
      using cx fs_inv_is_link [OF assms]
      by (simp add: remove_staging_def path_for_handle_inv [OF assms] fs_unlink_def)
    then show ?thesis
      using fs_inv_prune [OF fs_inv_del_reg [OF assms n]] maps_del_staged [OF ok(2,3), of t] cx ok n
      by (simp add: staging_map_handle plain_file_def)
  qed
qed

text \<open>The keys \<open>_path_for_key\<close> accepts.\<close>

definition key_ok :: "string \<Rightarrow> bool" where
  "key_ok k \<longleftrightarrow> (case match_key k of None \<Rightarrow> False | Some (d, h) \<Rightarrow> d = take 2 h)"

lemma key_ok_iff: "key_ok k \<longleftrightarrow> (\<exists>h. hex_n 64 h \<and> k = key_of h)"
proof
  assume "key_ok k"
  then show "\<exists>h. hex_n 64 h \<and> k = key_of h"
    by (auto simp: key_ok_def match_key_shape key_of_def split: option.splits)
qed (auto simp: key_ok_def match_key_of)

lemma path_for_key_iff:
  assumes "fs_inv t"
  shows "path_for_key k t = (if key_ok k then Inr (blob_root @ [take 2 (drop 10 k), drop 10 k], drop 10 k)
     else Inl InvalidStorageKey)"
  using match_key_shape
  by (auto simp: path_for_key_inv [OF assms] key_ok_def hex_n_def split: option.splits)

lemma key_of_drop: "hex_n 64 h \<Longrightarrow> drop 10 (key_of h) = h"
  by (simp add: key_of_def hex_n_def)

lemma store_remove_refines:
  assumes "fs_inv t"
  shows "if \<not> key_ok k then store_remove k t = (Inl InvalidStorageKey, t)
    else \<exists>t'. store_remove k t = (Inr (blob_map t k \<noteq> None), t') \<and> fs_inv t'
      \<and> blob_map t' = (blob_map t)(k := None) \<and> staging_map t' = staging_map t"
proof (cases "key_ok k")
  case False
  then show ?thesis by (simp add: store_remove_def path_for_key_iff [OF assms])
next
  case True
  then obtain h where h: "hex_n 64 h" "k = key_of h" by (auto simp: key_ok_iff)
  let ?p = "blob_root @ [take 2 h, h]"
  have path: "path_for_key (key_of h) t = Inr (?p, h)"
    using True h by (simp add: path_for_key_iff [OF assms] key_of_drop)
  show ?thesis
  proof (cases "fs_get ?p t")
    case None
    then show ?thesis
      using True h assms fs_inv_is_link [OF assms]
      by (simp add: store_remove_def path fs_unlink_def blob_map_key plain_file_def fun_upd_idem)
  next
    case (Some n)
    then obtain bs m where n: "fs_get ?p t = Some (Reg bs m)"
      using fs_inv_blob_node [OF assms Some] by auto
    then show ?thesis
      using True h fs_inv_is_link [OF assms] fs_inv_del_reg [OF assms n] maps_del_blob [OF h(1), of t]
      by (simp add: store_remove_def path fs_unlink_def blob_map_key plain_file_def)
  qed
qed

lemma concat_read_chunks: "0 < n \<Longrightarrow> concat (read_chunks n bs) = bs"
  by (induction n bs rule: read_chunks.induct) (subst read_chunks.simps, auto)

lemma read_chunks_bound: "list_all (\<lambda>c. c \<noteq> [] \<and> length c \<le> n) (read_chunks n bs)"
  by (induction n bs rule: read_chunks.induct) (subst read_chunks.simps, auto)

lemma open_stream_refines:
  assumes "fs_inv t"
  shows "open_stream n k t = (if \<not> key_ok k then Inl InvalidStorageKey
    else case blob_map t k of None \<Rightarrow> Inl FileNotFound | Some bs \<Rightarrow> Inr (read_chunks n bs))"
  by (auto simp: open_stream_def path_for_key_iff [OF assms] key_ok_iff key_of_drop blob_map_key
      split: option.splits)

lemma store_stat_refines:
  assumes "fs_inv t"
  shows "store_stat k t = (if \<not> key_ok k then Inl InvalidStorageKey
    else Inr (map_option (\<lambda>bs. \<lparr>sb_key = k, sb_sha256 = sha256_hex bs, sb_size = int (length bs)\<rparr>) (blob_map t k)))"
proof (cases "key_ok k")
  case True
  then obtain h where h: "hex_n 64 h" "k = key_of h" by (auto simp: key_ok_iff)
  have "sha256_hex bs = h" if "plain_file (blob_root @ [take 2 h, h]) t = Some (bs, m)" for bs m
    using fs_inv_blob_node [OF assms, of "take 2 h" h] that by (auto simp: plain_file_Some)
  then show ?thesis
    using True h by (cases "plain_file (blob_root @ [take 2 h, h]) t")
      (auto simp: store_stat_def path_for_key_iff [OF assms] key_of_drop blob_map_key)
qed (simp add: store_stat_def path_for_key_iff [OF assms])

lemma cleanup_paths_refines:
  assumes "fs_inv t" "\<forall>p \<in> set ps. strict_prefix staging_root p"
  shows "fs_inv (snd (cleanup_paths c ps t)) \<and> blob_map (snd (cleanup_paths c ps t)) = blob_map t
    \<and> staging_map (snd (cleanup_paths c ps t)) \<subseteq>\<^sub>m staging_map t"
  using assms
proof (induction ps arbitrary: t)
  case (Cons p ps)
  show ?case
  proof (cases "\<exists>bs m. plain_file p t = Some (bs, m) \<and> m \<le> c")
    case True
    then obtain bs m where f: "fs_get p t = Some (Reg bs m)" "plain_file p t = Some (bs, m)" "m \<le> c"
      by (auto simp: plain_file_Some)
    then obtain cid x where p: "p = staging_root @ [cid, x @ ''.part'']" "content_id_ok cid" "hex_n 32 x"
    proof -
      have "store_node_ok p (Reg bs m)" using Cons.prems(1) f(1) unfolding fs_inv_def by blast
      moreover have "strict_prefix staging_root p" using Cons.prems(2) by simp
      ultimately show ?thesis using that by auto
    qed
    have eq: "snd (cleanup_paths c (p # ps) t) = snd (cleanup_paths c ps (fs_del p t))"
      using f by (simp split: prod.split)
    have "fs_inv (fs_del p t)" by (rule fs_inv_del_reg [OF Cons.prems(1) f(1)])
    from Cons.IH [OF this] Cons.prems(2) show ?thesis
      using maps_del_staged [OF p(2,3), of t] unfolding eq p(1) [symmetric]
      by (auto simp: map_le_def split: if_splits)
  next
    case False
    then have "cleanup_paths c (p # ps) t = cleanup_paths c ps t"
      by (cases "plain_file p t") auto
    then show ?thesis using Cons by simp
  qed
qed (simp add: map_le_def)

subsection \<open>The store contract\<close>

text \<open>
  The laws of the \<open>ContentStore\<close> port that its client relies on. They speak of the bytes
  published under a key and staged under a handle, not of files.
\<close>

locale content_store =
  fixes ok :: "'s \<Rightarrow> bool"
    and blobs :: "'s \<Rightarrow> string \<Rightarrow> bytes option"
    and staged :: "'s \<Rightarrow> string \<Rightarrow> bytes option"
    and stage :: "string \<Rightarrow> instant \<Rightarrow> string \<Rightarrow> stream_event list \<Rightarrow> 's \<Rightarrow> (store_error + StagedBlob) \<times> 's"
    and fin :: "StagedBlob \<Rightarrow> 's \<Rightarrow> (store_error + StoredBlob) \<times> 's"
    and rd :: "nat \<Rightarrow> string \<Rightarrow> 's \<Rightarrow> store_error + bytes list"
    and rm :: "string \<Rightarrow> 's \<Rightarrow> (store_error + bool) \<times> 's"
  assumes stage_law: "ok s \<Longrightarrow> content_id_ok c \<Longrightarrow> hex_n 32 x \<Longrightarrow> staged s (staging_handle c x) = None \<Longrightarrow>
      consume_stream es [] = Inr bs \<Longrightarrow>
      \<exists>s'. stage x now c es s = (Inr \<lparr>st_handle = staging_handle c x, st_sha256 = sha256_hex bs,
              st_size = int (length bs)\<rparr>, s')
         \<and> ok s' \<and> blobs s' = blobs s \<and> staged s' = (staged s)(staging_handle c x \<mapsto> bs)"
    and fin_law: "ok s \<Longrightarrow> staged s (st_handle sb) = Some bs \<Longrightarrow> st_sha256 sb = sha256_hex bs \<Longrightarrow>
      st_size sb = int (length bs) \<Longrightarrow>
      (\<forall>b. blobs s (key_of (sha256_hex bs)) = Some b \<longrightarrow> length b = length bs) \<Longrightarrow>
      \<exists>s'. fin sb s = (Inr (stored sb), s') \<and> ok s' \<and> staged s' = (staged s)(st_handle sb := None)
         \<and> blobs s' = (if blobs s (key_of (sha256_hex bs)) = None
                       then (blobs s)(key_of (sha256_hex bs) \<mapsto> bs) else blobs s)"
    and blob_law: "ok s \<Longrightarrow> blobs s k = Some bs \<Longrightarrow> k = key_of (sha256_hex bs)"
    and rd_law: "ok s \<Longrightarrow> blobs s k = Some bs \<Longrightarrow> rd n k s = Inr (read_chunks n bs)"
    and rm_law: "ok s \<Longrightarrow> key_ok k \<Longrightarrow> \<exists>s'. rm k s = (Inr (blobs s k \<noteq> None), s') \<and> ok s'
         \<and> blobs s' = (blobs s)(k := None) \<and> staged s' = staged s"
begin

text \<open>Writing and reading back. Where the key was free the same bytes come back; where it was
  taken, bytes with the same digest and length do.\<close>

lemma write_read:
  assumes "ok s" "content_id_ok c" "hex_n 32 x" "staged s (staging_handle c x) = None"
    and "consume_stream es [] = Inr bs"
    and "\<forall>b. blobs s (key_of (sha256_hex bs)) = Some b \<longrightarrow> length b = length bs"
  shows "\<exists>sb s1 s2 b. stage x now c es s = (Inr sb, s1) \<and> fin sb s1 = (Inr (stored sb), s2)
     \<and> ok s2 \<and> staged s2 = staged s
     \<and> rd n (sb_key (stored sb)) s2 = Inr (read_chunks n b)
     \<and> sha256_hex b = sha256_hex bs \<and> length b = length bs
     \<and> (blobs s (sb_key (stored sb)) = None \<longrightarrow> b = bs)"
proof -
  let ?sb = "\<lparr>st_handle = staging_handle c x, st_sha256 = sha256_hex bs, st_size = int (length bs)\<rparr>"
  let ?k = "key_of (sha256_hex bs)"
  obtain s1 where s1: "stage x now c es s = (Inr ?sb, s1)" "ok s1" "blobs s1 = blobs s"
      "staged s1 = (staged s)(staging_handle c x \<mapsto> bs)"
    using stage_law [OF assms(1-5), of now] by blast
  obtain s2 where s2: "fin ?sb s1 = (Inr (stored ?sb), s2)" "ok s2"
      "staged s2 = (staged s1)(staging_handle c x := None)"
      "blobs s2 = (if blobs s1 ?k = None then (blobs s1)(?k \<mapsto> bs) else blobs s1)"
    using fin_law [of s1 ?sb bs] s1 assms(6) by auto
  obtain b where b: "blobs s2 ?k = Some b" "blobs s ?k = None \<longrightarrow> b = bs" "length b = length bs"
    using s2(4) s1(3) assms(6) by (cases "blobs s ?k") auto
  have "sha256_hex b = sha256_hex bs"
    using blob_law [OF s2(2) b(1)] by (metis key_of_inj hex_sha256)
  moreover have "staged s2 = staged s" using s2(3) s1(4) assms(4) by (simp add: fun_upd_idem)
  ultimately show ?thesis
    using s1(1) s2(1,2) b rd_law [OF s2(2) b(1)] by (auto simp: stored_def)
qed

lemma removed_unreadable:
  "ok s \<Longrightarrow> key_ok k \<Longrightarrow> rm k s = (r, s') \<Longrightarrow> blobs s' k = None \<and> (\<forall>k'. k' \<noteq> k \<longrightarrow> blobs s' k' = blobs s k')"
  using rm_law [of s k] by auto

end

interpretation fsys: content_store fs_inv blob_map staging_map stage_write "finalize id" open_stream store_remove
proof (unfold_locales, goal_cases)
  case (1 s c x es bs now)
  then show ?case using stage_write_refines [of s c x now es] by auto
next
  case (2 s sb bs)
  have "finalize_env id sb bs s"
    using 2 by (simp add: finalize_env_def finalize_interference_def)
  from finalize_refines [where interfere = id, OF 2(1-4) this]
  obtain u t' where u: "blob_map u = blob_map s" "staging_map u = staging_map s"
      "finalize id sb s = (Inr (stored sb), t')" "fs_inv t'"
      "staging_map t' = (staging_map u)(st_handle sb := None)"
      "blob_map t' = (if blob_map u (key_of (sha256_hex bs)) = None
         then (blob_map u)(key_of (sha256_hex bs) \<mapsto> bs) else blob_map u)"
    unfolding id_apply by blast
  show ?case
    by (rule exI [of _ t']) (simp only: u simp_thms)
next
  case (3 s k bs)
  then show ?case using blob_map_Some by blast
next
  case (4 s k bs n)
  then have "key_ok k" using blob_map_other [of k s] by (force simp: key_ok_iff)
  then show ?case using 4 by (simp add: open_stream_refines)
next
  case (5 s k)
  then show ?case using store_remove_refines [of s k] by simp
qed

subsection \<open>Histories of a store\<close>

text \<open>Any sequence of calls, with any arguments and any result; \<open>token_hex(16)\<close> is 32 hex digits.\<close>

inductive store_step :: "fs \<Rightarrow> fs \<Rightarrow> bool" where
  stage: "hex_n 32 tok \<Longrightarrow> stage_write tok now ident es t = (r, t') \<Longrightarrow> store_step t t'"
| final: "finalize id sb t = (r', t') \<Longrightarrow> store_step t t'"
| unstage: "remove_staging k t = (r'', t') \<Longrightarrow> store_step t t'"
| clean: "cleanup_staging now age t = (n, t') \<Longrightarrow> store_step t t'"
| drop_key: "store_remove k t = (r'', t') \<Longrightarrow> store_step t t'"

lemma stage_write_taken:
  assumes "fs_inv t" "content_id_ok ident" "hex_n 32 tok"
    and "staging_map t (staging_handle ident tok) \<noteq> None"
  shows "\<exists>t'. stage_write tok now ident stream t = (Inl FileExists, t') \<and> fs_inv t'
    \<and> blob_map t' = blob_map t \<and> staging_map t' = (staging_map t)(staging_handle ident tok := None)"
proof (rule stage_write_ok_path [OF assms(1-3), of now stream], goal_cases)
  case (1 t1)
  then show ?case
    using after_cleanup_inv [OF 1(1) assms(2,3), of FileExists] assms(4) by (simp add: Let_def)
qed

lemma stage_write_keeps:
  assumes "fs_inv t" "hex_n 32 tok" "stage_write tok now ident es t = (r, t')"
  shows "fs_inv t' \<and> blob_map t' = blob_map t"
proof (cases "content_id_ok ident")
  case False
  then show ?thesis
    using assms initialize_managed [of t] by (auto simp: stage_write_def fs_inv_def)
next
  case True
  show ?thesis
  proof (cases "staging_map t (staging_handle ident tok)")
    case None
    then show ?thesis
      using stage_write_refines [OF assms(1) True assms(2) None, of now es] assms(3)
      by (cases "consume_stream es []") auto
  next
    case (Some b)
    then show ?thesis
      using stage_write_taken [OF assms(1) True assms(2), of now es] assms(3) by auto
  qed
qed

lemma finalize_collision:
  assumes inv: "fs_inv t" and mh: "match_handle (st_handle sb) = Some (c, x)"
    and f: "plain_file (staging_root @ [c, x @ ''.part'']) t = Some (bs, m)"
    and sb: "st_sha256 sb = sha256_hex bs" "st_size sb = int (length bs)"
    and b: "blob_map t (key_of (sha256_hex bs)) = Some b" "length b \<noteq> length bs"
  shows "\<exists>e t'. finalize id sb t = (Inl e, t') \<and> fs_inv t' \<and> blob_map t' = blob_map t"
proof -
  note hex = hex_sha256 [of bs]
  let ?p = "staging_root @ [c, x @ ''.part'']" and ?q = "blob_root @ [take 2 (sha256_hex bs), sha256_hex bs]"
  obtain u where u: "fs_mkdir (blob_root @ [take 2 (sha256_hex bs)]) t = Inr u" "fs_inv u"
      "blob_map u = blob_map t" "staging_map u = staging_map t"
    using blob_mkdir [OF inv hex_n_take [OF hex, of 2]] by auto
  have eq: "finalize id sb t = finish_link ?p ?q sb u"
    using f u(1) mh sb
    by (auto simp: finalize_def stat_staging_def path_for_handle_inv [OF inv]
        path_for_key_inv [OF inv] match_key_of [OF hex])
  have "\<not> verify_blob ?q (st_sha256 sb) (st_size sb) u"
    using verify_blob_inv [OF u(2) hex] b u(3) sb by simp
  moreover have "fs_get ?q u \<noteq> None"
    using b(1) u(3) hex by (metis blob_map_key plain_file_def option.case(1) option.map(1) option.distinct(1))
  then have "\<exists>e. fs_link ?p ?q u = Inl e"
    by (auto simp: fs_link_def Let_def)
  ultimately have "\<exists>e. finish_link ?p ?q sb u = (Inl e, u)"
    by (auto simp: finish_link_def split: store_error.split)
  then show ?thesis using eq u(2,3) by auto
qed

lemma finalize_keeps:
  assumes "fs_inv t" "finalize id sb t = (r, t')"
  shows "fs_inv t' \<and> (\<forall>k b. blob_map t k = Some b \<longrightarrow> blob_map t' k = Some b)"
proof (cases "\<exists>bs. staging_map t (st_handle sb) = Some bs \<and> st_sha256 sb = sha256_hex bs
    \<and> st_size sb = int (length bs)
    \<and> (\<forall>b. blob_map t (key_of (sha256_hex bs)) = Some b \<longrightarrow> length b = length bs)")
  case True
  then obtain bs where bs: "staging_map t (st_handle sb) = Some bs" "st_sha256 sb = sha256_hex bs"
      "st_size sb = int (length bs)"
      "\<forall>b. blob_map t (key_of (sha256_hex bs)) = Some b \<longrightarrow> length b = length bs" by blast
  from fsys.fin_law [OF assms(1) bs] assms(2) show ?thesis by auto
next
  case False
  show ?thesis
  proof (cases "path_for_staging_handle (st_handle sb) t")
    case (Inl e)
    then show ?thesis using assms by (simp add: finalize_def)
  next
    case (Inr p)
    then obtain c x where mh: "match_handle (st_handle sb) = Some (c, x)"
        and p: "p = staging_root @ [c, x @ ''.part'']"
      by (auto simp: path_for_handle_inv [OF assms(1)] split: option.splits)
    then have cx: "content_id_ok c" "hex_n 32 x" "st_handle sb = staging_handle c x"
      using match_handle_inv by blast+
    show ?thesis
    proof (cases "\<exists>bs m. plain_file p t = Some (bs, m) \<and> st_sha256 sb = sha256_hex bs
        \<and> st_size sb = int (length bs)")
      case True
      then obtain bs m where bs: "plain_file p t = Some (bs, m)" "st_sha256 sb = sha256_hex bs"
          "st_size sb = int (length bs)" by blast
      have "staging_map t (st_handle sb) = Some bs"
        using bs(1) cx p by (simp add: staging_map_handle)
      then obtain b where b: "blob_map t (key_of (sha256_hex bs)) = Some b" "length b \<noteq> length bs"
        using False bs(2,3) by blast
      then show ?thesis
        using finalize_collision [OF assms(1) mh bs(1) [unfolded p] bs(2,3) b] assms(2) by auto
    next
      case False
      then have "t' = t"
        using assms(2) Inr by (auto simp: finalize_def stat_staging_def split: sum.splits option.splits if_splits)
      then show ?thesis using assms(1) by simp
    qed
  qed
qed

lemma store_step_keeps:
  assumes "store_step t t'" "fs_inv t"
  shows "fs_inv t' \<and> (\<forall>k b. blob_map t k = Some b \<longrightarrow>
      blob_map t' k = Some b \<or> (\<exists>r. store_remove k t = (r, t')))"
  using assms
proof (induction rule: store_step.induct)
  case (stage tok now ident es t r t')
  then show ?case using stage_write_keeps by auto
next
  case (final sb t r' t')
  then show ?case using finalize_keeps by auto
next
  case (unstage k t r'' t')
  then show ?case using remove_staging_refines [of t k] by (auto split: if_splits)
next
  case (clean now age t n t')
  have st: "\<forall>p \<in> set (part_paths t). strict_prefix staging_root p" by (simp add: part_paths_def)
  show ?case
    using clean cleanup_paths_refines [OF clean.prems st, of "now - age"]
    by (auto simp: cleanup_staging_def split: if_splits sum.splits prod.splits)
next
  case (drop_key k t r'' t')
  then show ?case using store_remove_refines [of t k] by (auto split: if_splits)
qed

lemma store_steps_inv: "store_step\<^sup>*\<^sup>* t t' \<Longrightarrow> fs_inv t \<Longrightarrow> fs_inv t'"
  by (induction rule: rtranclp_induct) (auto dest: store_step_keeps)

subsection \<open>An example store\<close>

definition empty_store :: fs where
  "empty_store = [([], Dir), ([''blobs''], Dir), ([''blobs'', ''sha256''], Dir), ([''staging''], Dir)]"

lemma empty_store_initialized: "initialize_directories [] = Inr empty_store"
  by code_simp

lemma empty_store_inv: "fs_inv empty_store"
  unfolding fs_inv_def managed_def
  by (auto simp: empty_store_def managed_dirs_def fs_get_def split: if_splits)

lemma empty_store_maps: "blob_map empty_store = (\<lambda>_. None)" "staging_map empty_store = (\<lambda>_. None)"
  by (auto simp: blob_map_def staging_map_def empty_store_def plain_file_def fs_get_def fun_eq_iff
      split: option.splits)

abbreviation (input) demo_id :: string where
  "demo_id \<equiv> ''cnt_00000000000000000000000000000001''"

abbreviation (input) demo_token :: string where
  "demo_token \<equiv> ''0123456789abcdef0123456789abcdef''"

lemma demo_names: "content_id_ok demo_id" "hex_n 32 demo_token"
  by code_simp+

definition demo_staged :: StagedBlob where
  "demo_staged = \<lparr>st_handle = staging_handle demo_id demo_token, st_sha256 = sha256_hex [104, 105], st_size = 2\<rparr>"

lemma demo_stage:
  obtains t1 where
    "stage_write demo_token 5 demo_id [Chunk [104, 105]] empty_store = (Inr demo_staged, t1)"
    "fs_inv t1" "blob_map t1 = blob_map empty_store"
    "staging_map t1 = (staging_map empty_store)(st_handle demo_staged \<mapsto> [104, 105])"
  using stage_write_refines [OF empty_store_inv demo_names, of 5 "[Chunk [104, 105]]"]
  by (auto simp: empty_store_maps demo_staged_def)

lemma demo_finalize:
  assumes "fs_inv u" "blob_map u = blob_map empty_store"
    and "staging_map u = (staging_map empty_store)(st_handle demo_staged \<mapsto> [104, 105])"
  shows "finalize_interference demo_staged [104, 105] (snd (finalize id demo_staged u))"
proof -
  obtain t' where t': "finalize id demo_staged u = (Inr (stored demo_staged), t')" "fs_inv t'"
      "staging_map t' = (staging_map u)(st_handle demo_staged := None)"
      "blob_map t' = (blob_map u)(key_of (sha256_hex [104, 105]) \<mapsto> [104, 105])"
    using fsys.fin_law [of u demo_staged "[104, 105]"] assms
    by (auto simp: empty_store_maps demo_staged_def)
  have "fs_get (blob_root @ [take 2 (sha256_hex [104, 105])]) t' = Some Dir"
    using blob_map_Some [OF t'(2), of "key_of (sha256_hex [104, 105])" "[104, 105]"] t'(2,4)
    unfolding fs_inv_def by fastforce
  then show ?thesis
    using t' by (simp add: finalize_interference_def) (simp add: demo_staged_def)
qed

section \<open>Properties\<close>

text \<open>C8: What is written to the store is read back. In any store written only by this code,
  staging a stream under a fresh handle and finalizing it succeeds, leaves no staging file, and
  the key it returns opens to chunks of at most the chunk size that concatenate to bytes with
  the digest and the length of the stream; where the key was free, to exactly the bytes of the
  stream. (A blob of another length under the same SHA-256 digest is excluded.)\<close>

theorem store_write_read_roundtrip:
  assumes "fs_inv t" "content_id_ok ident" "hex_n 32 tok"
    and "staging_map t (staging_handle ident tok) = None" "consume_stream es [] = Inr bs"
    and "\<forall>b. blob_map t (key_of (sha256_hex bs)) = Some b \<longrightarrow> length b = length bs"
    and "0 < chunk_size"
  shows "\<exists>sb t1 t2 cs. stage_write tok now ident es t = (Inr sb, t1)
    \<and> finalize id sb t1 = (Inr (stored sb), t2) \<and> fs_inv t2 \<and> staging_map t2 = staging_map t
    \<and> open_stream chunk_size (sb_key (stored sb)) t2 = Inr cs
    \<and> list_all (\<lambda>c. c \<noteq> [] \<and> length c \<le> chunk_size) cs
    \<and> sha256_hex (concat cs) = sha256_hex bs \<and> length (concat cs) = length bs
    \<and> (blob_map t (sb_key (stored sb)) = None \<longrightarrow> concat cs = bs)"
proof -
  obtain sb t1 t2 b where w: "stage_write tok now ident es t = (Inr sb, t1)"
      "finalize id sb t1 = (Inr (stored sb), t2)" "fs_inv t2" "staging_map t2 = staging_map t"
      "open_stream chunk_size (sb_key (stored sb)) t2 = Inr (read_chunks chunk_size b)"
      "sha256_hex b = sha256_hex bs" "length b = length bs"
      "blob_map t (sb_key (stored sb)) = None \<longrightarrow> b = bs"
    using fsys.write_read [OF assms(1-6), of now chunk_size] by (elim exE conjE) (rule that)
  then show ?thesis
    using read_chunks_bound [of chunk_size b] concat_read_chunks [OF assms(7), of b] by auto
qed

theorem store_write_read_roundtrip_witness:
  "\<exists>sb t1 t2 cs. stage_write demo_token 5 demo_id [Chunk [104, 105], Chunk [33]] empty_store = (Inr sb, t1)
    \<and> finalize id sb t1 = (Inr (stored sb), t2)
    \<and> open_stream 2 (sb_key (stored sb)) t2 = Inr cs \<and> concat cs = [104, 105, 33]"
  using store_write_read_roundtrip [OF empty_store_inv demo_names, of "[Chunk [104, 105], Chunk [33]]"
      "[104, 105, 33]" 2 5]
  by (auto simp: empty_store_maps)

text \<open>A finalization is safe against concurrent finalizers. Whatever other callers do
  between the integrity probe and the link, as long as they publish the same staged bytes or
  leave them staged, the finalization succeeds, its staging file is gone, the blob is present
  under the content address, and no other blob changes.\<close>

theorem finalize_concurrent:
  assumes "fs_inv t" "staging_map t (st_handle sb) = Some bs"
    and "st_sha256 sb = sha256_hex bs" "st_size sb = int (length bs)"
    and "finalize_env interfere sb bs t"
  shows "\<exists>u t'. fs_inv u \<and> blob_map u = blob_map t \<and> staging_map u = staging_map t
    \<and> finalize interfere sb t = (Inr (stored sb), t') \<and> fs_inv t'
    \<and> staging_map t' (st_handle sb) = None \<and> blob_map t' (key_of (sha256_hex bs)) \<noteq> None
    \<and> (\<forall>k. k \<noteq> key_of (sha256_hex bs) \<longrightarrow> blob_map t' k = blob_map (interfere u) k)"
proof -
  obtain u t' where u: "fs_inv u \<and> blob_map u = blob_map t \<and> staging_map u = staging_map t"
      "finalize interfere sb t = (Inr (stored sb), t') \<and> fs_inv t'"
      "staging_map t' = (staging_map (interfere u))(st_handle sb := None)"
      "blob_map t' = (if blob_map (interfere u) (key_of (sha256_hex bs)) = None
        then (blob_map (interfere u))(key_of (sha256_hex bs) \<mapsto> bs) else blob_map (interfere u))"
    using finalize_refines [OF assms] by blast
  have "staging_map t' (st_handle sb) = None" "blob_map t' (key_of (sha256_hex bs)) \<noteq> None"
    "\<forall>k. k \<noteq> key_of (sha256_hex bs) \<longrightarrow> blob_map t' k = blob_map (interfere u) k"
    unfolding u(3,4) by (auto split: if_splits)
  then show ?thesis using u(1,2) by blast
qed

theorem finalize_concurrent_witness:
  "\<exists>t1 sb t'. stage_write demo_token 5 demo_id [Chunk [104, 105]] empty_store = (Inr sb, t1)
    \<and> finalize (\<lambda>u. snd (finalize id sb u)) sb t1 = (Inr (stored sb), t')
    \<and> blob_map t' (key_of (sha256_hex [104, 105])) \<noteq> None"
proof -
  obtain t1 where t1: "stage_write demo_token 5 demo_id [Chunk [104, 105]] empty_store = (Inr demo_staged, t1)"
      "fs_inv t1" "blob_map t1 = blob_map empty_store"
      "staging_map t1 = (staging_map empty_store)(st_handle demo_staged \<mapsto> [104, 105])"
    by (rule demo_stage)
  have "finalize_env (\<lambda>u. snd (finalize id demo_staged u)) demo_staged [104, 105] t1"
    unfolding finalize_env_def using demo_finalize t1(3,4) by metis
  then show ?thesis
    using finalize_concurrent [of t1 demo_staged "[104, 105]" "\<lambda>u. snd (finalize id demo_staged u)"]
      t1 by (auto simp: demo_staged_def)
qed

text \<open>The store only ever holds intact blobs and never changes one. From an initialized
  store, after any sequence of store calls with any arguments, every published blob hashes to
  its key, and a step changes or removes a published blob only by a removal of that very key.\<close>

theorem store_blobs_intact:
  assumes "store_step\<^sup>*\<^sup>* empty_store t" "store_step t t'" "blob_map t k = Some b"
  shows "k = key_of (sha256_hex b)
    \<and> (blob_map t' k = Some b \<or> (\<exists>r. store_remove k t = (r, t')))"
proof -
  have "fs_inv t" by (rule store_steps_inv [OF assms(1) empty_store_inv])
  then show ?thesis
    using blob_map_Some [OF _ assms(3)] store_step_keeps [OF assms(2)] assms(3) by blast
qed

theorem store_blobs_intact_witness:
  "\<exists>t t'. store_step\<^sup>*\<^sup>* empty_store t \<and> blob_map t (key_of (sha256_hex [104, 105])) = Some [104, 105]
     \<and> remove_staging (st_handle demo_staged) t = (Inr False, t')
     \<and> (blob_map t' (key_of (sha256_hex [104, 105])) = Some [104, 105]
        \<or> (\<exists>r. store_remove (key_of (sha256_hex [104, 105])) t = (r, t')))"
proof -
  obtain t1 where t1: "stage_write demo_token 5 demo_id [Chunk [104, 105]] empty_store = (Inr demo_staged, t1)"
      "fs_inv t1" "blob_map t1 = blob_map empty_store"
      "staging_map t1 = (staging_map empty_store)(st_handle demo_staged \<mapsto> [104, 105])"
    by (rule demo_stage)
  obtain t where t: "finalize id demo_staged t1 = (Inr (stored demo_staged), t)" "fs_inv t"
      "staging_map t = (staging_map t1)(st_handle demo_staged := None)"
      "blob_map t (key_of (sha256_hex [104, 105])) = Some [104, 105]"
    using fsys.fin_law [of t1 demo_staged "[104, 105]"] t1 by (auto simp: empty_store_maps demo_staged_def)
  have steps: "store_step\<^sup>*\<^sup>* empty_store t"
    using store_step.stage [OF demo_names(2) t1(1)] store_step.final [OF t(1)] by auto
  obtain t' where t': "remove_staging (st_handle demo_staged) t = (Inr False, t')"
    using remove_staging_refines [OF t(2), of "st_handle demo_staged"] t(3)
      match_handle_staging [OF demo_names] by (auto simp: demo_staged_def)
  show ?thesis
    using store_blobs_intact [OF steps store_step.unstage [OF t'] t(4)] steps t(4) t' by blast
qed

end
