(* ===== verification/Content_Service.thy ===== *)
theory Content_Service
  imports Content_Repository Content_Store
begin

section \<open>The Content application service\<close>

text \<open>
  \<open>application/content/service.py\<close> over the PostgreSQL repository and the filesystem store.
  The world holds the committed database, the view of the open unit of work, the store tree,
  the clock and a schedule with one entry per awaited call: the call runs, or it raises before
  it has any effect, or it takes effect and then raises (a commit whose acknowledgement is
  lost, a task cancelled while a thread finishes). Cancellation is the exception
  \<open>ExcCancelled\<close> of such an entry. An exhausted schedule lets every call run.

  The answers of the identifier generator and of \<open>secrets.token_hex\<close> are functions of a
  counter. Work other processes commit while a request sleeps is an entry of \<open>w_peers\<close>.
\<close>

subsection \<open>Exceptions\<close>

datatype content_exc =
    ExcCancelled
  | ExcStore store_error
  | ExcDb
  | ExcRepo repo_error
  | ExcLifecycle
  | ExcNotFound
  | ExcUnavailable
  | ExcProcessing "string option"
  | ExcParserTimeout
  | ExcCursor
  | ExcValue
  | ExcAuth AuthenticationFailure
  | ExcParser "string option" bool

text \<open>The classes the handlers name; \<open>ContentLifecycleError\<close> is a \<open>RuntimeError\<close>,
  \<open>InvalidStorageKey\<close> and \<open>ContentCursorError\<close> are \<open>ValueError\<close>s.\<close>

fun is_os_error :: "content_exc \<Rightarrow> bool" where
  "is_os_error (ExcStore e) \<longleftrightarrow> e \<in> {FileNotFound, FileExists, OSErr}"
| "is_os_error e \<longleftrightarrow> False"

fun is_value_error :: "content_exc \<Rightarrow> bool" where
  "is_value_error (ExcStore e) \<longleftrightarrow> e \<in> {InvalidStorageKey, LimitValueError}"
| "is_value_error (ExcRepo (RowInvalid x)) \<longleftrightarrow> True"
| "is_value_error (ExcRepo e) \<longleftrightarrow> e \<in> {NotDerivedContent, RelationLimitNotPositive}"
| "is_value_error ExcCursor \<longleftrightarrow> True"
| "is_value_error ExcValue \<longleftrightarrow> True"
| "is_value_error e \<longleftrightarrow> False"

fun is_runtime_error :: "content_exc \<Rightarrow> bool" where
  "is_runtime_error (ExcRepo e) \<longleftrightarrow> e \<in> {ClaimNotReadable, NoCompatibleWinner}"
| "is_runtime_error ExcLifecycle \<longleftrightarrow> True"
| "is_runtime_error ExcNotFound \<longleftrightarrow> True"
| "is_runtime_error ExcUnavailable \<longleftrightarrow> True"
| "is_runtime_error (ExcProcessing c) \<longleftrightarrow> True"
| "is_runtime_error ExcParserTimeout \<longleftrightarrow> True"
| "is_runtime_error e \<longleftrightarrow> False"

text \<open>The attribute \<open>code\<close>, where the class has one.\<close>

fun exc_code :: "content_exc \<Rightarrow> string option" where
  "exc_code ExcLifecycle = Some ''content_processing_failed''"
| "exc_code ExcNotFound = Some ''content_not_found''"
| "exc_code ExcUnavailable = Some ''content_unavailable''"
| "exc_code (ExcProcessing None) = Some ''native_processing_failed''"
| "exc_code (ExcProcessing (Some c)) = Some c"
| "exc_code ExcParserTimeout = Some ''parser_timeout''"
| "exc_code ExcCursor = Some ''invalid_content_cursor''"
| "exc_code (ExcAuth f) = Some (auth_failure_value f)"
| "exc_code (ExcParser c timeout) = c"
| "exc_code e = None"

subsection \<open>The world and its calls\<close>

datatype sched = Runs | FailsBefore content_exc | FailsAfter content_exc

record world =
  w_db :: content_db
  w_view :: content_db
  w_fs :: fs
  w_sched :: "sched list"
  w_clock :: Clock
  w_ids :: "nat \<Rightarrow> string"
  w_tokens :: "nat \<Rightarrow> string"
  w_count :: nat
  w_peers :: "(content_db \<Rightarrow> content_db) list"

type_synonym 'a io = "world \<Rightarrow> (content_exc + 'a) \<times> world"

abbreviation w_now :: "world \<Rightarrow> instant" where
  "w_now w \<equiv> ck_utc_now (w_clock w)"

definition await :: "'a io \<Rightarrow> 'a io" where
  "await op w = (case w_sched w of
     [] \<Rightarrow> op w
   | s # ss \<Rightarrow> (let w = w\<lparr>w_sched := ss\<rparr> in case s of
       Runs \<Rightarrow> op w
     | FailsBefore e \<Rightarrow> (Inl e, w)
     | FailsAfter e \<Rightarrow> (Inl e, snd (op w))))"

fun lift_err :: "('e \<Rightarrow> content_exc) \<Rightarrow> 'e + 'a \<Rightarrow> content_exc + 'a" where
  "lift_err f (Inl e) = Inl (f e)"
| "lift_err f (Inr x) = Inr x"

definition store_op :: "(fs \<Rightarrow> (store_error + 'a) \<times> fs) \<Rightarrow> 'a io" where
  "store_op f = await (\<lambda>w. case f (w_fs w) of (r, t) \<Rightarrow> (lift_err ExcStore r, w\<lparr>w_fs := t\<rparr>))"

definition store_query :: "(fs \<Rightarrow> store_error + 'a) \<Rightarrow> 'a io" where
  "store_query f = await (\<lambda>w. (lift_err ExcStore (f (w_fs w)), w))"

definition do_stage_write :: "string \<Rightarrow> stream_event list \<Rightarrow> StagedBlob io" where
  "do_stage_write ident stream = await (\<lambda>w.
     case stage_write (w_tokens w (w_count w)) (w_now w) ident stream (w_fs w) of
       (r, t) \<Rightarrow> (lift_err ExcStore r, w\<lparr>w_fs := t, w_count := Suc (w_count w)\<rparr>))"

definition repo_op :: "(content_db \<Rightarrow> (repo_error + 'a) \<times> content_db) \<Rightarrow> 'a io" where
  "repo_op f = await (\<lambda>w. case f (w_view w) of (r, v) \<Rightarrow> (lift_err ExcRepo r, w\<lparr>w_view := v\<rparr>))"

definition repo_query :: "(content_db \<Rightarrow> repo_error + 'a) \<Rightarrow> 'a io" where
  "repo_query f = await (\<lambda>w. (lift_err ExcRepo (f (w_view w)), w))"

definition db_commit :: "unit io" where
  "db_commit = await (\<lambda>w. (Inr (), w\<lparr>w_db := w_view w\<rparr>))"

text \<open>\<open>async with self._uow_factory() as uow\<close>: a view of the committed database that is dropped
  at the end, so what was not committed is rolled back.\<close>

definition with_uow :: "'a io \<Rightarrow> 'a io" where
  "with_uow body w = (case body (w\<lparr>w_view := w_db w\<rparr>) of (r, w') \<Rightarrow> (r, w'\<lparr>w_view := w_db w'\<rparr>))"

text \<open>The advisory lock of a storage key; contention for it is the subject of the protocol theory.\<close>

definition lock_storage_key :: "string \<Rightarrow> unit io" where
  "lock_storage_key k = await (\<lambda>w. (Inr (), w))"

definition fresh_id :: "world \<Rightarrow> string \<times> world" where
  "fresh_id w = (w_ids w (w_count w), w\<lparr>w_count := Suc (w_count w)\<rparr>)"

subsection \<open>Requests and configuration\<close>

record content_service =
  sv_identifier :: "(bytes \<Rightarrow> int \<Rightarrow> string \<Rightarrow> string option \<Rightarrow> codepoint list option
                     \<Rightarrow> content_exc + ContentInspection) option"
  sv_registry :: "(ContentInspection \<Rightarrow> ParserDescriptor option) option"
  sv_executor :: "(ParserDescriptor \<Rightarrow> ContentObject \<Rightarrow> ContentInspection \<Rightarrow> bytes
                   \<Rightarrow> content_exc + NativeParserOutput) option"
  sv_codec :: "((ContentCursorClaims \<Rightarrow> string) \<times> (string \<Rightarrow> ContentCursorClaims option)) option"
  sv_json_size :: "ContentInspection \<Rightarrow> int"
  sv_chunk_size :: nat
  sv_inspection_sample_bytes :: int
  sv_max_inspection_json_bytes :: int
  sv_parser_input_bytes :: int
  sv_representation_wait_seconds :: rat
  sv_representation_poll_seconds :: rat

definition service_ok :: "content_service \<Rightarrow> bool" where
  "service_ok sv \<longleftrightarrow> 0 < sv_inspection_sample_bytes sv \<and> 0 < sv_max_inspection_json_bytes sv
     \<and> 0 < sv_parser_input_bytes sv \<and> 0 < sv_representation_wait_seconds sv
     \<and> 0 < sv_representation_poll_seconds sv"

fun auth_check :: "AuthenticationFailure + unit \<Rightarrow> content_exc + unit" where
  "auth_check (Inl f) = Inl (ExcAuth f)"
| "auth_check (Inr u) = Inr u"

definition typed_content_id :: "string \<Rightarrow> content_exc + ContentId" where
  "typed_content_id v = (if content_id_ok v then Inr v else Inl ExcNotFound)"

subsection \<open>Projections\<close>

definition content_ref :: "ContentObject \<Rightarrow> content_exc + ContentRef" where
  "content_ref c = (case (size_bytes c, sha256 c) of
     (Some n, Some h) \<Rightarrow> Inr \<lparr>cr_content_id = content_id c, cr_media_type = media_type c,
       cr_representation = representation_kind c, cr_size_bytes = n, cr_sha256 = h,
       cr_created_at = created_at c, cr_expires_at = expires_at c\<rparr>
   | _ \<Rightarrow> Inl ExcLifecycle)"

definition provenance_of :: "ContentObject \<Rightarrow> content_exc + ContentProvenance option" where
  "provenance_of c = (case source_content_id c of None \<Rightarrow> Inr None
   | Some s \<Rightarrow> (case (producer_capability c, producer_revision c,
         representation_schema_revision c, processing_profile_revision c) of
       (Some a, Some b, Some d, Some e) \<Rightarrow> Inr (Some \<lparr>pv_source_content_id = s,
          pv_producer_capability = a, pv_producer_revision = b,
          pv_representation_schema_revision = d, pv_processing_profile_revision = e\<rparr>)
     | _ \<Rightarrow> Inl ExcLifecycle))"

subsection \<open>Publication\<close>

definition swallow :: "(content_exc \<Rightarrow> bool) \<Rightarrow> unit io \<Rightarrow> unit io" where
  "swallow caught m w = (case m w of
     (Inl e, w) \<Rightarrow> if caught e then (Inr (), w) else (Inl e, w) | (Inr u, w) \<Rightarrow> (Inr u, w))"

definition mark_failed_uow :: "ContentId \<Rightarrow> int \<Rightarrow> string \<Rightarrow> unit io" where
  "mark_failed_uow cid rvn code = with_uow (\<lambda>w.
     try_seq (repo_op (mark_failed (w_now w) cid rvn code) w) (\<lambda>_. db_commit))"

definition drop_blob_uow :: "string \<Rightarrow> unit io" where
  "drop_blob_uow key = with_uow (\<lambda>w.
     try_seq (lock_storage_key key w) (\<lambda>_ w.
     try_seq (repo_query (\<lambda>v. Inr (has_active_storage_reference key v)) w) (\<lambda>active w.
     try_seq (if active then (Inr True, w) else store_op (store_remove key) w) (\<lambda>_. db_commit))))"

definition cleanup_failed ::
  "ContentId \<Rightarrow> int \<Rightarrow> StagedBlob option \<Rightarrow> StoredBlob option \<Rightarrow> string \<Rightarrow> unit io" where
  "cleanup_failed cid rvn staged final code w =
     try_seq (case staged of None \<Rightarrow> (Inr (), w)
       | Some sb \<Rightarrow> swallow (\<lambda>e. is_os_error e \<or> is_value_error e)
           (\<lambda>w. try_seq (store_op (remove_staging (st_handle sb)) w) (\<lambda>_ w. (Inr (), w))) w) (\<lambda>_ w.
     try_seq (swallow (\<lambda>e. is_os_error e \<or> is_runtime_error e) (mark_failed_uow cid rvn code) w) (\<lambda>_ w.
     case final of None \<Rightarrow> (Inr (), w)
     | Some fb \<Rightarrow> swallow (\<lambda>e. is_os_error e \<or> is_runtime_error e \<or> is_value_error e)
         (drop_blob_uow (sb_key fb)) w))"

definition staged_uow :: "ContentId \<Rightarrow> StagedBlob \<Rightarrow> unit io" where
  "staged_uow cid sb = with_uow (\<lambda>w.
     try_seq (repo_op (set_staged (w_now w) cid 1 (st_handle sb) (st_sha256 sb) (st_size sb)) w) (\<lambda>rec w.
     case rec of None \<Rightarrow> (Inl ExcLifecycle, w)
     | Some r \<Rightarrow> if revision (content r) \<noteq> 2 then (Inl ExcLifecycle, w) else db_commit w))"

definition publish_uow :: "ContentId \<Rightarrow> StoredBlob \<Rightarrow> ContentRecord io" where
  "publish_uow cid fb = with_uow (\<lambda>w.
     try_seq (lock_storage_key (sb_key fb) w) (\<lambda>_ w.
     try_seq (store_query (store_stat (sb_key fb)) w) (\<lambda>observed w.
     if observed \<noteq> Some fb then (Inl ExcLifecycle, w)
     else try_seq (repo_op (publish (w_now w) cid 2 (sb_key fb)) w) (\<lambda>published w.
       case published of None \<Rightarrow> (Inl ExcLifecycle, w)
       | Some r \<Rightarrow> if state (content r) \<noteq> AVAILABLE then (Inl ExcLifecycle, w)
           else try_seq (db_commit w) (\<lambda>_ w. (Inr r, w))))))"

definition publish_failed ::
  "ContentId \<Rightarrow> int \<Rightarrow> StagedBlob option \<Rightarrow> StoredBlob option \<Rightarrow> content_exc \<Rightarrow> ContentRef io" where
  "publish_failed cid rvn staged final e w =
     try_seq (cleanup_failed cid rvn staged final
       (if e = ExcCancelled then ''cancelled'' else ''content_creation_failed'') w) (\<lambda>_ w. (Inl e, w))"

definition publish_reserved :: "stream_event list \<Rightarrow> ContentObject \<Rightarrow> ContentRef io" where
  "publish_reserved stream created w = (let cid = content_id created in
     case do_stage_write cid stream w of
       (Inl e, w) \<Rightarrow> publish_failed cid 1 None None e w
     | (Inr sb, w) \<Rightarrow> (case staged_uow cid sb w of
         (Inl e, w) \<Rightarrow> publish_failed cid 1 (Some sb) None e w
       | (Inr _, w) \<Rightarrow> (case store_op (finalize id sb) w of
           (Inl e, w) \<Rightarrow> publish_failed cid 2 (Some sb) None e w
         | (Inr fb, w) \<Rightarrow> (case publish_uow cid fb w of
             (Inl e, w) \<Rightarrow> publish_failed cid 2 (Some sb) (Some fb) e w
           | (Inr r, w) \<Rightarrow> (case content_ref (content r) of
               Inl e \<Rightarrow> publish_failed cid 2 (Some sb) (Some fb) e w
             | Inr ref \<Rightarrow> (Inr ref, w))))))"

definition publish_created :: "stream_event list \<Rightarrow> ContentObject \<Rightarrow> ContentRelation option \<Rightarrow> ContentRef io" where
  "publish_created stream created relation w =
     try_seq (with_uow (\<lambda>w.
       try_seq (repo_op (contents_add created) w) (\<lambda>_ w.
       try_seq (case relation of None \<Rightarrow> (Inr (), w) | Some e \<Rightarrow> repo_op (relations_add e) w) (\<lambda>_.
       db_commit))) w) (\<lambda>_. publish_reserved stream created)"

definition new_object ::
  "string \<Rightarrow> PrincipalContext \<Rightarrow> instant \<Rightarrow> ContentRepresentationKind \<Rightarrow> string option \<Rightarrow> codepoint list option
   \<Rightarrow> ContentObject" where
  "new_object cid p now kind media filename = \<lparr>content_id = cid, owner_principal_id = pc_principal_id p,
     state = CREATING, revision = 1, representation_kind = kind, created_at = now,
     media_type = media, detected_format = None, source_filename = filename, size_bytes = None,
     sha256 = None, expires_at = None, source_content_id = None, producer_capability = None,
     producer_revision = None, representation_schema_revision = None,
     processing_profile_revision = None, parameters_hash = None\<rparr>"

text \<open>\<open>ContentId(...)\<close> and \<open>ContentObject(...)\<close> raise \<open>ValueError\<close> on values they reject.\<close>

definition ingest ::
  "ExecutionContext \<Rightarrow> stream_event list \<Rightarrow> ContentRepresentationKind \<Rightarrow> string option \<Rightarrow> codepoint list option
   \<Rightarrow> ContentRef io" where
  "ingest cx stream kind media filename w = (case fresh_id w of (cid, w) \<Rightarrow>
     let created = new_object cid (cx_principal cx) (w_now w) kind media filename in
     if \<not> content_id_ok cid \<or> \<not> content_object_ok created then (Inl ExcValue, w)
     else publish_created stream created None w)"

subsection \<open>Bounded reads\<close>

fun bounded_loop :: "int \<Rightarrow> bool \<Rightarrow> bytes list \<Rightarrow> bytes \<Rightarrow> content_exc + bytes" where
  "bounded_loop limit strict [] acc = Inr acc"
| "bounded_loop limit strict (c # cs) acc =
     (let remaining = limit - int (length acc) in
      if remaining \<le> 0 then (if strict then Inl ExcLifecycle else Inr acc)
      else let acc = acc @ take (nat (remaining + (if strict then 1 else 0))) c in
        if int (length acc) > limit then Inl ExcLifecycle
        else if int (length acc) \<ge> limit then (if strict then bounded_loop limit strict cs acc else Inr acc)
        else bounded_loop limit strict cs acc)"

definition read_bounded :: "content_service \<Rightarrow> string \<Rightarrow> int \<Rightarrow> bool \<Rightarrow> bytes io" where
  "read_bounded sv key limit strict w =
     try_seq (store_query (open_stream (sv_chunk_size sv) key) w) (\<lambda>cs w. (bounded_loop limit strict cs [], w))"

text \<open>The loop of \<open>_read_utf8_chunk\<close>: bytes still to skip, the decoder's pending bytes and the
  characters so far. \<open>None\<close> is a \<open>UnicodeDecodeError\<close>.\<close>

fun utf8_loop :: "nat \<Rightarrow> bytes list \<Rightarrow> nat \<Rightarrow> bytes \<Rightarrow> codepoint list
    \<Rightarrow> (bool \<times> nat \<times> bytes \<times> codepoint list) option" where
  "utf8_loop m [] skip pending acc = Some (False, skip, pending, acc)"
| "utf8_loop m (c # cs) skip pending acc =
     (let consumed = min (length c) skip; skip' = skip - consumed; c' = drop consumed c in
      if 0 < skip \<and> c' = [] then utf8_loop m cs skip' pending acc
      else case u8_feed (pending @ c') of
        None \<Rightarrow> None
      | Some (decoded, pending') \<Rightarrow>
          let acc' = acc @ decoded in
          if m < length acc' then Some (True, skip', pending', acc')
          else utf8_loop m cs skip' pending' acc')"

definition utf8_chunk :: "nat \<Rightarrow> nat \<Rightarrow> bytes list \<Rightarrow> content_exc + codepoint list \<times> nat option" where
  "utf8_chunk offset m cs = (case utf8_loop m cs offset [] [] of
     None \<Rightarrow> Inl ExcLifecycle
   | Some (exceeded, skip, pending, value) \<Rightarrow>
       if 0 < skip then Inl ExcCursor
       else if \<not> exceeded \<and> u8_final pending = None then Inl ExcLifecycle
       else if length value \<le> m then Inr (value, None)
       else Inr (take m value, Some (offset + length (utf8_encode (take m value)))))"

subsection \<open>Authorized access\<close>

definition live :: "instant \<Rightarrow> ContentObject \<Rightarrow> bool" where
  "live now c \<longleftrightarrow> (case expires_at c of None \<Rightarrow> True | Some x \<Rightarrow> now < x)"

fun load_targets :: "string \<Rightarrow> ContentRelation list \<Rightarrow> ContentRecord list io" where
  "load_targets owner [] w = (Inr [], w)"
| "load_targets owner (e # es) w =
     try_seq (repo_query (db_get (rel_target_content_id e)) w) (\<lambda>target w.
     try_seq (load_targets owner es w) (\<lambda>rest w.
       (Inr (case target of None \<Rightarrow> rest
          | Some r \<Rightarrow> if owner_principal_id (content r) = owner \<and> state (content r) = AVAILABLE
                        \<and> live (w_now w) (content r) then r # rest else rest), w)))"

definition load_authorized :: "ExecutionContext \<Rightarrow> string \<Rightarrow> (ContentRecord \<times> ContentRecord list) io" where
  "load_authorized cx cid w =
     try_seq (auth_check (require_scope (cx_principal cx) ''content:read''), w) (\<lambda>_ w.
     try_seq (typed_content_id cid, w) (\<lambda>tid. with_uow (\<lambda>w.
       try_seq (repo_query (db_get tid) w) (\<lambda>found w. case found of
         None \<Rightarrow> (Inl ExcNotFound, w)
       | Some r \<Rightarrow>
          try_seq (auth_check (require_owner (cx_principal cx) (owner_principal_id (content r))), w) (\<lambda>_ w.
          if state (content r) \<noteq> AVAILABLE \<or> storage_key r = None \<or> \<not> live (w_now w) (content r)
          then (Inl ExcUnavailable, w)
          else try_seq (repo_query (relations_for_source tid (Some 32)) w) (\<lambda>rels w.
            try_seq (load_targets (pc_principal_id (cx_principal cx)) rels w) (\<lambda>targets w.
              (Inr (r, targets), w))))))))"

definition refs_of :: "ContentRecord list \<Rightarrow> content_exc + ContentRef list" where
  "refs_of rs = res_map (\<lambda>r. content_ref (content r)) rs"

definition metadata :: "ExecutionContext \<Rightarrow> string \<Rightarrow> ContentMetadata io" where
  "metadata cx cid w = try_seq (load_authorized cx cid w) (\<lambda>(r, targets) w.
     (res_bind (content_ref (content r)) (\<lambda>ref.
      res_bind (provenance_of (content r)) (\<lambda>prov.
      res_bind (refs_of targets) (\<lambda>reps.
        Inr \<lparr>md_content = ref, md_state = state (content r),
          md_representation_kind = representation_kind (content r),
          md_media_type = media_type (content r), md_detected_format = detected_format (content r),
          md_source_filename = source_filename (content r), md_inspection = inspection r,
          md_provenance = prov, md_available_representations = reps,
          md_retention_expires_at = expires_at (content r)\<rparr>))), w))"

definition representations :: "ExecutionContext \<Rightarrow> string \<Rightarrow> (ContentRef \<times> ContentRepresentationSummary list) io" where
  "representations cx cid w = try_seq (load_authorized cx cid w) (\<lambda>(r, targets) w.
     (res_bind (res_map (\<lambda>t. res_bind (provenance_of (content t)) (\<lambda>prov. case prov of
          None \<Rightarrow> Inl ExcLifecycle
        | Some p \<Rightarrow> res_bind (content_ref (content t)) (\<lambda>ref.
            Inr \<lparr>rs_content = ref, rs_representation_kind = representation_kind (content t),
                 rs_provenance = p\<rparr>))) targets) (\<lambda>summaries.
      res_bind (content_ref (content r)) (\<lambda>ref. Inr (ref, summaries))), w))"

definition read_cursor :: "ExecutionContext \<Rightarrow> ContentRecord \<Rightarrow> string option
    \<Rightarrow> (string \<Rightarrow> ContentCursorClaims option) \<Rightarrow> content_exc + nat" where
  "read_cursor cx r cursor dec = (case cursor of None \<Rightarrow> Inr 0
   | Some c \<Rightarrow>
       if length c > 2048 then Inl ExcCursor
       else case dec c of None \<Rightarrow> Inl ExcCursor
       | Some cl \<Rightarrow>
           if cc_owner_principal_id cl \<noteq> pc_principal_id (cx_principal cx)
              \<or> cc_content_id cl \<noteq> content_id (content r)
              \<or> cc_content_revision cl \<noteq> revision (content r) then Inl ExcCursor
           else Inr (nat (cc_byte_offset cl)))"

definition content_read ::
  "content_service \<Rightarrow> ExecutionContext \<Rightarrow> string \<Rightarrow> int \<Rightarrow> string option \<Rightarrow> ContentReadResult io" where
  "content_read sv cx cid max_chars cursor w =
     (if \<not> (1 \<le> max_chars \<and> max_chars \<le> 30000) then (Inl ExcValue, w)
      else try_seq (load_authorized cx cid w) (\<lambda>(r, targets) w.
        case res_bind (refs_of targets) (\<lambda>reps. res_bind (content_ref (content r)) (\<lambda>ref. Inr (reps, ref))) of
          Inl e \<Rightarrow> (Inl e, w)
        | Inr (reps, ref) \<Rightarrow>
          if representation_kind (content r) \<notin> {TEXT, MARKDOWN, STRUCTURED}
          then (if cursor \<noteq> None then (Inl ExcCursor, w)
                else (Inr \<lparr>rr_content = ref, rr_text = None, rr_returned_chars = 0,
                   rr_next_cursor = None, rr_inspection = inspection r,
                   rr_available_representations = reps\<rparr>, w))
          else case sv_codec sv of None \<Rightarrow> (Inl ExcLifecycle, w)
          | Some (enc, dec) \<Rightarrow>
            try_seq (read_cursor cx r cursor dec, w) (\<lambda>offset w.
            case storage_key r of None \<Rightarrow> (Inl ExcLifecycle, w)
            | Some key \<Rightarrow>
              try_seq (store_query (open_stream (sv_chunk_size sv) key) w) (\<lambda>cs w.
              try_seq (utf8_chunk offset (nat max_chars) cs, w) (\<lambda>(value, next_offset) w.
                (Inr \<lparr>rr_content = ref, rr_text = Some value, rr_returned_chars = int (length value),
                   rr_next_cursor = map_option (\<lambda>off. enc \<lparr>
                     cc_owner_principal_id = pc_principal_id (cx_principal cx),
                     cc_content_id = content_id (content r),
                     cc_content_revision = revision (content r), cc_byte_offset = int off\<rparr>) next_offset,
                   rr_inspection = inspection r, rr_available_representations = reps\<rparr>, w))))))"

record AuthorizedContentStream =
  as_content :: ContentRef
  as_source_filename :: "codepoint list option"
  as_stream :: "bytes list"

text \<open>The stream of \<open>open_data\<close> opens when it is first read; here it is read at once.\<close>

definition open_data :: "content_service \<Rightarrow> ExecutionContext \<Rightarrow> string \<Rightarrow> AuthorizedContentStream io" where
  "open_data sv cx cid w = try_seq (load_authorized cx cid w) (\<lambda>(r, _) w.
     case storage_key r of None \<Rightarrow> (Inl ExcLifecycle, w)
     | Some key \<Rightarrow>
       try_seq (store_query (store_stat key) w) (\<lambda>observed w.
       case observed of None \<Rightarrow> (Inl ExcLifecycle, w)
       | Some ob \<Rightarrow>
           if Some (sb_sha256 ob) \<noteq> sha256 (content r) \<or> Some (sb_size ob) \<noteq> size_bytes (content r)
           then (Inl ExcLifecycle, w)
           else try_seq (content_ref (content r), w) (\<lambda>ref w.
             try_seq (store_query (open_stream (sv_chunk_size sv) key) w) (\<lambda>cs w.
               (Inr \<lparr>as_content = ref, as_source_filename = source_filename (content r),
                     as_stream = cs\<rparr>, w)))))"

subsection \<open>Inspection and native parsing\<close>

definition save_inspection_uow :: "ContentId \<Rightarrow> int \<Rightarrow> ContentInspection \<Rightarrow> ContentInspection io" where
  "save_inspection_uow tid rvn insp w =
     try_seq (with_uow (\<lambda>w.
       try_seq (repo_op (save_inspection (w_now w) tid rvn insp) w) (\<lambda>saved w. case saved of
         Some r \<Rightarrow> try_seq (db_commit w) (\<lambda>_ w. (case inspection r of
             None \<Rightarrow> (Inl ExcLifecycle, w) | Some i \<Rightarrow> (Inr (Some i), w)))
       | None \<Rightarrow> try_seq (repo_query (db_get tid) w) (\<lambda>winner w.
           (Inr (case winner of None \<Rightarrow> None | Some x \<Rightarrow> inspection x), w)))) w)
     (\<lambda>found w. case found of None \<Rightarrow> (Inl ExcLifecycle, w) | Some i \<Rightarrow> (Inr i, w))"

definition inspect :: "content_service \<Rightarrow> ExecutionContext \<Rightarrow> string \<Rightarrow> ContentInspection io" where
  "inspect sv cx cid w =
     try_seq (auth_check (require_scope (cx_principal cx) ''content:read''), w) (\<lambda>_ w.
     case sv_identifier sv of None \<Rightarrow> (Inl ExcLifecycle, w)
     | Some identify \<Rightarrow>
       try_seq (typed_content_id cid, w) (\<lambda>tid w.
       try_seq (with_uow (repo_query (db_get tid)) w) (\<lambda>found w.
       case found of None \<Rightarrow> (Inl ExcNotFound, w)
       | Some r \<Rightarrow>
         try_seq (auth_check (require_owner (cx_principal cx) (owner_principal_id (content r))), w) (\<lambda>_ w.
         case storage_key r of None \<Rightarrow> (Inl ExcUnavailable, w)
         | Some key \<Rightarrow>
           if state (content r) \<noteq> AVAILABLE then (Inl ExcUnavailable, w)
           else case inspection r of Some i \<Rightarrow> (Inr i, w)
           | None \<Rightarrow> (case (size_bytes (content r), sha256 (content r)) of
               (Some n, Some h) \<Rightarrow>
                 try_seq (read_bounded sv key (sv_inspection_sample_bytes sv) False w) (\<lambda>sample w.
                 try_seq (identify sample n h (media_type (content r)) (source_filename (content r)), w) (\<lambda>insp w.
                 if sv_json_size sv insp > sv_max_inspection_json_bytes sv then (Inl ExcLifecycle, w)
                 else save_inspection_uow tid (revision (content r)) insp w))
             | _ \<Rightarrow> (Inl ExcLifecycle, w))))))"

definition public_parser_codes :: "string set" where
  "public_parser_codes = {''encrypted_content'', ''malformed_pdf'', ''native_parse_failed'',
     ''parser_depth_limit'', ''parser_input_limit'', ''parser_output_limit''}"

text \<open>How an exception of the parser executor is reported; cancellation passes through.\<close>

fun parser_failure :: "content_exc \<Rightarrow> content_exc" where
  "parser_failure ExcCancelled = ExcCancelled"
| "parser_failure e =
     (if exc_code e = Some ''parser_child_timeout'' \<or> (case e of ExcParser c timeout \<Rightarrow> timeout | _ \<Rightarrow> False)
      then ExcParserTimeout
      else ExcProcessing (case exc_code e of None \<Rightarrow> None
        | Some c \<Rightarrow> if c \<in> public_parser_codes then Some c else None))"

definition derived_object ::
  "string \<Rightarrow> PrincipalContext \<Rightarrow> instant \<Rightarrow> ContentObject \<Rightarrow> ParserDescriptor \<Rightarrow> ParsedRepresentation \<Rightarrow> ContentObject" where
  "derived_object cid p now src d parsed =
     (new_object cid p now (pp_representation parsed) (Some (pp_media_type parsed)) None)\<lparr>
       source_content_id := Some (content_id src), producer_capability := Some (pd_capability d),
       producer_revision := Some (pd_revision d),
       representation_schema_revision := Some (pp_schema_revision parsed),
       processing_profile_revision := Some (pd_profile_revision d),
       parameters_hash := Some (sha256_hex [123, 125])\<rparr>"

definition claim_uow :: "ContentObject \<Rightarrow> ContentRelation \<Rightarrow> ContentRepresentationClaim io" where
  "claim_uow created relation = with_uow (\<lambda>w.
     try_seq (repo_op (claim_representation created) w) (\<lambda>claim w.
     if cl_claimed claim
     then try_seq (repo_op (relations_add relation) w) (\<lambda>_ w.
          try_seq (db_commit w) (\<lambda>_ w. (Inr claim, w)))
     else (Inr claim, w)))"

text \<open>\<open>asyncio.sleep\<close>: the clock moves on and other processes may commit.\<close>

definition sleep :: "rat \<Rightarrow> unit io" where
  "sleep seconds = await (\<lambda>w. (Inr (), w\<lparr>
     w_clock := (w_clock w)\<lparr>ck_monotonic := ck_monotonic (w_clock w) + seconds\<rparr>,
     w_db := (case w_peers w of [] \<Rightarrow> w_db w | f # fs \<Rightarrow> f (w_db w)),
     w_peers := tl (w_peers w)\<rparr>))"

lemma derive_loop_measure:
  assumes "0 < (poll :: rat)" "0 < remaining"
  shows "nat \<lceil>(remaining - min poll remaining) / poll\<rceil> < nat \<lceil>remaining / poll\<rceil>"
proof (cases "remaining \<le> poll")
  case True
  then show ?thesis using assms by (simp add: min_absorb2)
next
  case False
  then have "(remaining - min poll remaining) / poll = remaining / poll - 1"
    using assms by (simp add: min_absorb1 diff_divide_distrib)
  moreover have "1 < remaining / poll" using False assms by (simp add: less_divide_eq)
  then have "1 < \<lceil>remaining / poll\<rceil>" by linarith
  ultimately show ?thesis by (simp add: ceiling_diff_one)
qed

text \<open>The waiting loop of \<open>_ingest_derived\<close>, with the seconds that remain of its wait. A poll
  interval that is not positive is refused by the constructor.\<close>

function derive_loop ::
  "rat \<Rightarrow> ExecutionContext \<Rightarrow> bytes \<Rightarrow> ContentObject \<Rightarrow> ContentRelation \<Rightarrow> rat \<Rightarrow> (ContentRef \<times> bool) io" where
  "derive_loop poll cx data created relation remaining w =
     (if cx_cancel_requested cx then (Inl ExcCancelled, w)
      else try_seq (claim_uow created relation w) (\<lambda>claim w.
        if cl_claimed claim
        then try_seq (publish_reserved [Chunk data] created w) (\<lambda>ref w. (Inr (ref, True), w))
        else if state (content (cl_record claim)) = AVAILABLE
        then try_seq (content_ref (content (cl_record claim)), w) (\<lambda>ref w. (Inr (ref, False), w))
        else if remaining \<le> 0 \<or> poll \<le> 0 then (Inl ExcLifecycle, w)
        else try_seq (sleep (min poll remaining) w) (\<lambda>_.
          derive_loop poll cx data created relation (remaining - min poll remaining))))"
  by pat_completeness auto
termination
  by (relation "measure (\<lambda>(poll, cx, data, created, relation, remaining, w). nat \<lceil>remaining / poll\<rceil>)",
      rule wf_measure)
    (simp only: in_measure prod.case, rule derive_loop_measure; simp)

declare derive_loop.simps [simp del]

definition ingest_derived ::
  "content_service \<Rightarrow> ExecutionContext \<Rightarrow> ContentObject \<Rightarrow> ParserDescriptor \<Rightarrow> ParsedRepresentation
   \<Rightarrow> (ContentRef \<times> bool) io" where
  "ingest_derived sv cx src d parsed w = (case fresh_id w of (cid, w) \<Rightarrow>
     let created = derived_object cid (cx_principal cx) (w_now w) src d parsed;
         relation = \<lparr>rel_source_content_id = content_id src, rel_target_content_id = cid,
                     rel_created_at = w_now w\<rparr>;
         wait = (case remaining_seconds (cx_deadline cx) (w_clock w) of
                   None \<Rightarrow> sv_representation_wait_seconds sv
                 | Some s \<Rightarrow> min (sv_representation_wait_seconds sv) s)
     in if \<not> content_id_ok cid \<or> \<not> content_object_ok created \<or> \<not> content_relation_ok relation
        then (Inl ExcValue, w)
        else derive_loop (sv_representation_poll_seconds sv) cx (pp_data parsed) created relation wait w)"

fun derive_all ::
  "content_service \<Rightarrow> ExecutionContext \<Rightarrow> ContentObject \<Rightarrow> ParserDescriptor \<Rightarrow> ParsedRepresentation list
   \<Rightarrow> (ContentRef list \<times> bool) io" where
  "derive_all sv cx src d [] w = (Inr ([], False), w)"
| "derive_all sv cx src d (p # ps) w =
     try_seq (ingest_derived sv cx src d p w) (\<lambda>(ref, made) w.
     try_seq (derive_all sv cx src d ps w) (\<lambda>(refs, any) w. (Inr (ref # refs, made \<or> any), w)))"

text \<open>\<open>native_parse\<close> in three parts: run the selected parser and publish its representations,
  check and dispatch the loaded record, and the entry point.\<close>

definition run_parser ::
  "content_service \<Rightarrow> ExecutionContext \<Rightarrow> ContentRecord \<Rightarrow> ContentInspection \<Rightarrow> ContentRef \<Rightarrow> ParserDescriptor
   \<Rightarrow> content_exc + NativeParserOutput \<Rightarrow> NativeParseResult io" where
  "run_parser sv cx r insp source_ref d answer w = (case await (\<lambda>w. (answer, w)) w of
     (Inl e, w) \<Rightarrow> (Inl (parser_failure e), w)
   | (Inr out, w) \<Rightarrow>
       try_seq (derive_all sv cx (content r) d (po_representations out) w) (\<lambda>(refs, made) w.
         (Inr \<lparr>np_source = source_ref, np_representations = refs, np_reused = (\<not> made),
            np_parser_capability = Some (pd_capability d), np_warnings = po_warnings out,
            np_hints = po_hints out\<rparr>, w)))"

definition parse_record ::
  "content_service \<Rightarrow> ExecutionContext \<Rightarrow> (ContentInspection \<Rightarrow> ParserDescriptor option)
   \<Rightarrow> (ParserDescriptor \<Rightarrow> ContentObject \<Rightarrow> ContentInspection \<Rightarrow> bytes \<Rightarrow> content_exc + NativeParserOutput)
   \<Rightarrow> ContentInspection \<Rightarrow> ContentRecord \<Rightarrow> NativeParseResult io" where
  "parse_record sv cx select execute insp r w = (case storage_key r of
     None \<Rightarrow> (Inl ExcUnavailable, w)
   | Some key \<Rightarrow>
       if state (content r) \<noteq> AVAILABLE then (Inl ExcUnavailable, w)
       else try_seq (auth_check (require_owner (cx_principal cx) (owner_principal_id (content r))), w) (\<lambda>_ w.
       try_seq (content_ref (content r), w) (\<lambda>source_ref w.
       case select insp of
         None \<Rightarrow> (Inr \<lparr>np_source = source_ref, np_representations = [], np_reused = False,
            np_parser_capability = None, np_warnings = [warning ''native_processing_unsupported''],
            np_hints = [native_processing_unsupported]\<rparr>, w)
       | Some d \<Rightarrow>
           try_seq (read_bounded sv key (sv_parser_input_bytes sv) True w) (\<lambda>data.
             run_parser sv cx r insp source_ref d (execute d (content r) insp data)))))"

definition native_parse :: "content_service \<Rightarrow> ExecutionContext \<Rightarrow> string \<Rightarrow> NativeParseResult io" where
  "native_parse sv cx cid w =
     try_seq (auth_check (require_scope (cx_principal cx) ''content:write''), w) (\<lambda>_ w.
     try_seq (auth_check (require_scope (cx_principal cx) ''content:read''), w) (\<lambda>_ w.
     case (sv_registry sv, sv_executor sv) of
       (Some select, Some execute) \<Rightarrow>
         try_seq (typed_content_id cid, w) (\<lambda>tid w.
         try_seq (inspect sv cx cid w) (\<lambda>insp w.
         try_seq (with_uow (repo_query (db_get tid)) w) (\<lambda>found w.
         case found of None \<Rightarrow> (Inl ExcUnavailable, w)
         | Some r \<Rightarrow> parse_record sv cx select execute insp r w)))
     | _ \<Rightarrow> (Inl ExcLifecycle, w)))"

subsection \<open>Batches\<close>

fun batch_error_of :: "content_exc \<Rightarrow> LeafOutcome \<times> ErrorCategory \<times> string" where
  "batch_error_of (ExcAuth f) = (LO_REJECTED, PERMISSION, auth_failure_value f)"
| "batch_error_of ExcNotFound = (LO_FAILED, NOT_FOUND, ''content_not_found'')"
| "batch_error_of ExcUnavailable = (LO_FAILED, CONFLICT, ''content_unavailable'')"
| "batch_error_of e = (LO_FAILED, INTERNAL,
     (case exc_code e of None \<Rightarrow> ''content_processing_failed'' | Some c \<Rightarrow> c))"

definition content_batch_error :: "int \<Rightarrow> content_exc \<Rightarrow> 'd BatchItemResult" where
  "content_batch_error i e = (case batch_error_of e of (oc, cat, code) \<Rightarrow>
     \<lparr>bi_index = i, bi_outcome = oc, bi_data = None, bi_error = Some (op_error cat code),
      bi_warnings = [], bi_hints = []\<rparr>)"

definition batch_success :: "int \<Rightarrow> 'd \<Rightarrow> 'd BatchItemResult" where
  "batch_success i x = \<lparr>bi_index = i, bi_outcome = LO_SUCCEEDED, bi_data = Some x, bi_error = None,
     bi_warnings = [], bi_hints = []\<rparr>"

text \<open>One item after another; \<open>except Exception\<close> turns a failure into an item, a cancellation
  ends the batch.\<close>

fun batch_loop :: "(string \<Rightarrow> 'd io) \<Rightarrow> int \<Rightarrow> string list \<Rightarrow> 'd BatchItemResult list io" where
  "batch_loop f i [] w = (Inr [], w)"
| "batch_loop f i (c # cs) w = (case f c w of
     (Inl ExcCancelled, w) \<Rightarrow> (Inl ExcCancelled, w)
   | (Inl e, w) \<Rightarrow> try_seq (batch_loop f (i + 1) cs w) (\<lambda>items w. (Inr (content_batch_error i e # items), w))
   | (Inr x, w) \<Rightarrow> try_seq (batch_loop f (i + 1) cs w) (\<lambda>items w. (Inr (batch_success i x # items), w)))"

definition content_batch_result ::
  "string \<Rightarrow> 'd BatchItemResult list \<Rightarrow> content_exc + 'd BatchItemResult list OperationResult" where
  "content_batch_result opid items = (case aggregate_batch_outcome (map bi_outcome items) of
     Inl e \<Rightarrow> Inl ExcValue
   | Inr oc \<Rightarrow> Inr \<lparr>or_operation_id = opid, or_outcome = oc, or_data = Some items,
       or_error = (if oc \<in> {OO_SUCCEEDED, OO_PARTIAL_SUCCESS} then None
                   else bi_error (hd (filter (\<lambda>x. bi_error x \<noteq> None) items))),
       or_warnings = [], or_hints = []\<rparr>)"

definition inspect_many ::
  "content_service \<Rightarrow> ExecutionContext \<Rightarrow> string list
   \<Rightarrow> (ContentRef \<times> ContentInspection) BatchItemResult list OperationResult io" where
  "inspect_many sv cx cids w =
     try_seq (auth_check (require_scope (cx_principal cx) ''content:read''), w) (\<lambda>_ w.
     try_seq (batch_loop (\<lambda>c w. try_seq (inspect sv cx c w) (\<lambda>insp w.
         try_seq (metadata cx c w) (\<lambda>md w. (Inr (md_content md, insp), w)))) 0 cids w) (\<lambda>items w.
       (content_batch_result (cx_operation_id cx) items, w)))"

definition native_parse_many ::
  "content_service \<Rightarrow> ExecutionContext \<Rightarrow> string list \<Rightarrow> NativeParseResult BatchItemResult list OperationResult io" where
  "native_parse_many sv cx cids w =
     try_seq (auth_check (require_scope (cx_principal cx) ''content:read''), w) (\<lambda>_ w.
     try_seq (auth_check (require_scope (cx_principal cx) ''content:write''), w) (\<lambda>_ w.
     try_seq (batch_loop (native_parse sv cx) 0 cids w) (\<lambda>items w.
       (content_batch_result (cx_operation_id cx) items, w))))"

section \<open>Consistency of database and store\<close>

subsection \<open>Every published row has its blob\<close>

definition row_backed :: "fs \<Rightarrow> ContentObjectRow \<Rightarrow> bool" where
  "row_backed t r \<longleftrightarrow> (\<exists>k b. storage_key r = Some k \<and> blob_map t k = Some b
     \<and> sha256 (content r) = Some (sha256_hex b) \<and> size_bytes (content r) = Some (int (length b)))"

definition sound :: "content_db \<Rightarrow> fs \<Rightarrow> bool" where
  "sound db t \<longleftrightarrow> db_inv db \<and> fs_inv t
     \<and> (\<forall>r \<in> set (db_rows db). state (content r) = AVAILABLE \<longrightarrow> row_backed t r)"

text \<open>Work of other processes may depend on the store only in that it keeps consistency with
  whatever the store holds.\<close>

definition peers_ok :: "world \<Rightarrow> bool" where
  "peers_ok w \<longleftrightarrow> (\<forall>f \<in> set (w_peers w). \<forall>v t. sound v t \<longrightarrow> sound (f v) t)"

definition world_ok :: "world \<Rightarrow> bool" where
  "world_ok w \<longleftrightarrow> sound (w_db w) (w_fs w) \<and> sound (w_view w) (w_fs w)
     \<and> (\<forall>n. hex_n 32 (w_tokens w n)) \<and> peers_ok w"

definition keeps :: "'a io \<Rightarrow> bool" where
  "keeps m \<longleftrightarrow> (\<forall>w. world_ok w \<longrightarrow> world_ok (snd (m w)))"

named_theorems keeps_intro \<open>which steps keep database and store consistent\<close>

lemma sound_mono: "sound db t \<Longrightarrow> fs_inv t' \<Longrightarrow> blob_map t \<subseteq>\<^sub>m blob_map t' \<Longrightarrow> sound db t'"
  unfolding sound_def row_backed_def by (metis domI map_le_def)

lemma sound_facts:
  assumes "sound db t" "db_inv db'"
    and "\<And>r'. r' \<in> set (db_rows db') \<Longrightarrow> state (content r') = AVAILABLE \<Longrightarrow>
       \<exists>r \<in> set (db_rows db). published_facts r' = published_facts r"
  shows "sound db' t"
proof -
  have "row_backed t r'" if r': "r' \<in> set (db_rows db')" "state (content r') = AVAILABLE" for r'
  proof -
    obtain r where r: "r \<in> set (db_rows db)" "published_facts r' = published_facts r"
      using assms(3) [OF r'] by blast
    then have "row_backed t r" using assms(1) r'(2) by (auto simp: sound_def published_facts_def)
    then show ?thesis using r(2) by (auto simp: row_backed_def published_facts_def)
  qed
  then show ?thesis using assms(1,2) by (simp add: sound_def)
qed

lemma sound_contents_add:
  assumes "sound db t" "fresh_object c"
  shows "sound (snd (contents_add c db)) t"
proof (cases "db_constraints (insert_row (content_values c) db)")
  case True
  have "db_inv (insert_row (content_values c) db)"
    using assms insert_row_inv [OF _ fresh_row_inv [OF assms(2)] True] by (simp add: sound_def)
  then have "sound (insert_row (content_values c) db) t"
    by (rule sound_facts [OF assms(1)])
      (use assms(2) in \<open>auto simp: insert_row_def fresh_object_def\<close>)
  with True show ?thesis by (simp add: contents_add_def)
qed (use assms in \<open>simp add: contents_add_def\<close>)

lemma sound_claim:
  assumes "sound db t" "fresh_object c"
  shows "sound (snd (claim_representation c db)) t"
proof -
  have "snd (claim_representation c db) = db
      \<or> snd (claim_representation c db) = insert_row (content_values c) db
         \<and> db_constraints (insert_row (content_values c) db)"
    by (auto simp: claim_representation_def Let_def split: sum.splits option.splits)
  then show ?thesis
    using assms(1) sound_contents_add [OF assms] by (auto simp: contents_add_def)
qed

lemma sound_relations_add: "sound db t \<Longrightarrow> sound (snd (relations_add e db)) t"
  by (auto simp: relations_add_def sound_def db_inv_def Let_def)

lemma cas_rows:
  assumes "db_inv db" "cas_args_ok a"
  shows "\<forall>r' \<in> set (db_rows (snd (cas_apply now cid e a db))).
     r' \<in> set (db_rows db) \<or> (\<exists>r \<in> set (db_rows db). row_id r = cid \<and> cas_guard e a r \<and> r' = cas_row now e a r)"
  using cas_apply_eq(1) [OF assms, of now cid e]
  by (auto simp: map_row_def split: option.splits if_splits)

lemma sound_cas:
  assumes "sound db t" "cas_args_ok a" "\<forall>k. a \<noteq> Publish k"
  shows "sound (snd (cas_apply now cid e a db)) t"
proof -
  have inv: "db_inv db" using assms(1) by (simp add: sound_def)
  have av: "cas_guard e a r \<Longrightarrow> state (content (cas_row now e a r)) = AVAILABLE \<Longrightarrow>
      state (content r) = AVAILABLE" for r
    using assms(3) by (cases a) auto
  show ?thesis
    by (rule sound_facts [OF assms(1) cas_apply_eq(2) [OF inv assms(2)]])
      (use cas_rows [OF inv assms(2), of now cid e] cas_row_published av in blast)
qed

lemma sound_publish:
  assumes "sound db t" "blob_map t k = Some b"
    and "\<And>r. find_row cid db = Some r \<Longrightarrow> revision (content r) = e \<Longrightarrow>
       sha256 (content r) = Some (sha256_hex b) \<and> size_bytes (content r) = Some (int (length b))"
  shows "sound (snd (cas_apply now cid e (Publish k) db)) t"
proof -
  have inv: "db_inv db" using assms(1) by (simp add: sound_def)
  have "row_backed t r'" if r': "r' \<in> set (db_rows (snd (cas_apply now cid e (Publish k) db)))"
      "state (content r') = AVAILABLE" for r'
  proof -
    from cas_rows [OF inv, of "Publish k" now cid e] r'(1)
    consider "r' \<in> set (db_rows db)"
      | r where "r \<in> set (db_rows db)" "row_id r = cid" "cas_guard e (Publish k) r"
          "r' = cas_row now e (Publish k) r"
      by auto
    then show ?thesis
    proof cases
      case 1
      then show ?thesis using assms(1) r'(2) by (simp add: sound_def)
    next
      case 2
      have "find_row cid db = Some r" using find_row_mem [OF inv 2(1)] 2(2) by simp
      then show ?thesis
        using assms(2) assms(3) [of r] 2(3,4) by (simp add: row_backed_def)
    qed
  qed
  then show ?thesis
    using assms(1) cas_apply_eq(2) [OF inv, of "Publish k" now cid e] by (simp add: sound_def)
qed

subsection \<open>Steps that keep consistency\<close>

lemma world_ok_sched [simp]: "world_ok (w\<lparr>w_sched := ss\<rparr>) = world_ok w"
  by (simp add: world_ok_def peers_ok_def)

lemma world_ok_count [simp]: "world_ok (w\<lparr>w_count := n\<rparr>) = world_ok w"
  by (simp add: world_ok_def peers_ok_def)

lemma world_ok_view: "world_ok w \<Longrightarrow> sound v (w_fs w) \<Longrightarrow> world_ok (w\<lparr>w_view := v\<rparr>)"
  by (simp add: world_ok_def peers_ok_def)

lemma world_ok_fs:
  "world_ok w \<Longrightarrow> fs_inv t \<Longrightarrow> blob_map (w_fs w) \<subseteq>\<^sub>m blob_map t \<Longrightarrow> world_ok (w\<lparr>w_fs := t\<rparr>)"
  using sound_mono by (auto simp: world_ok_def peers_ok_def)

lemma await_cases:
  obtains ss where "await op w = op (w\<lparr>w_sched := ss\<rparr>)"
  | ss e where "await op w = (Inl e, w\<lparr>w_sched := ss\<rparr>)"
  | ss e where "await op w = (Inl e, snd (op (w\<lparr>w_sched := ss\<rparr>)))"
proof (cases "w_sched w")
  case Nil
  have eq: "w\<lparr>w_sched := []\<rparr> = w" using Nil by simp
  have "await op w = op (w\<lparr>w_sched := []\<rparr>)" unfolding eq using Nil by (simp add: await_def)
  then show thesis by (rule that(1))
next
  case (Cons s ss)
  then show thesis using that by (cases s) (auto simp: await_def Let_def)
qed

lemma await_keeps:
  assumes "\<And>w. world_ok w \<Longrightarrow> world_ok (snd (op w))"
  shows "keeps (await op)"
  unfolding keeps_def
proof (intro allI impI)
  fix w assume w: "world_ok w"
  show "world_ok (snd (await op w))"
    by (rule await_cases [of op w]) (use w assms in simp_all)
qed

lemma try_seq_keeps:
  "world_ok (snd m) \<Longrightarrow> (\<And>x w. m = (Inr x, w) \<Longrightarrow> world_ok w \<Longrightarrow> world_ok (snd (f x w))) \<Longrightarrow> world_ok (snd (try_seq m f))"
  by (cases m; cases "fst m") auto

lemma try_seq_keeps_any:
  "world_ok (snd m) \<Longrightarrow> (\<And>x w. world_ok w \<Longrightarrow> world_ok (snd (f x w))) \<Longrightarrow> world_ok (snd (try_seq m f))"
  by (rule try_seq_keeps)

lemma keepsD: "keeps m \<Longrightarrow> world_ok w \<Longrightarrow> world_ok (snd (m w))"
  by (simp add: keeps_def)

lemma repo_op_keeps:
  assumes "\<And>v t. sound v t \<Longrightarrow> sound (snd (f v)) t"
  shows "keeps (repo_op f)"
  unfolding repo_op_def
proof (rule await_keeps)
  fix w assume "world_ok w"
  then show "world_ok (snd (case f (w_view w) of (r, v) \<Rightarrow> (lift_err ExcRepo r, w\<lparr>w_view := v\<rparr>)))"
    using assms [of "w_view w" "w_fs w"] world_ok_view
    by (auto simp: world_ok_def split: prod.split)
qed

lemma repo_query_keeps [keeps_intro]: "keeps (repo_query f)"
  unfolding repo_query_def by (rule await_keeps) simp

lemma store_query_keeps [keeps_intro]: "keeps (store_query f)"
  unfolding store_query_def by (rule await_keeps) simp

lemma lock_keeps [keeps_intro]: "keeps (lock_storage_key k)"
  unfolding lock_storage_key_def by (rule await_keeps) simp

lemma commit_keeps [keeps_intro]: "keeps db_commit"
  unfolding db_commit_def by (rule await_keeps) (simp add: world_ok_def peers_ok_def)

lemma store_op_keeps:
  assumes "\<And>t. fs_inv t \<Longrightarrow> fs_inv (snd (f t)) \<and> blob_map t \<subseteq>\<^sub>m blob_map (snd (f t))"
  shows "keeps (store_op f)"
  unfolding store_op_def
proof (rule await_keeps)
  fix w assume w: "world_ok w"
  then have "fs_inv (w_fs w)" by (simp add: world_ok_def sound_def)
  then show "world_ok (snd (case f (w_fs w) of (r, t) \<Rightarrow> (lift_err ExcStore r, w\<lparr>w_fs := t\<rparr>)))"
    using assms [of "w_fs w"] world_ok_fs [OF w] by (auto split: prod.split)
qed

lemma stage_keeps [keeps_intro]: "keeps (do_stage_write ident stream)"
  unfolding do_stage_write_def
proof (rule await_keeps)
  fix w assume w: "world_ok w"
  obtain r t where st: "stage_write (w_tokens w (w_count w)) (w_now w) ident stream (w_fs w) = (r, t)"
    by (cases "stage_write (w_tokens w (w_count w)) (w_now w) ident stream (w_fs w)")
  then have "fs_inv t \<and> blob_map t = blob_map (w_fs w)"
    using stage_write_keeps w by (metis world_ok_def sound_def)
  then show "world_ok (snd (case stage_write (w_tokens w (w_count w)) (w_now w) ident stream (w_fs w) of
      (r, t) \<Rightarrow> (lift_err ExcStore r, w\<lparr>w_fs := t, w_count := Suc (w_count w)\<rparr>)))"
    using world_ok_fs [OF w] st by (simp add: map_le_def)
qed

lemma finalize_op_keeps [keeps_intro]: "keeps (store_op (finalize id sb))"
proof (rule store_op_keeps)
  fix t assume "fs_inv t"
  then show "fs_inv (snd (finalize id sb t)) \<and> blob_map t \<subseteq>\<^sub>m blob_map (snd (finalize id sb t))"
    using finalize_keeps [of t sb "fst (finalize id sb t)" "snd (finalize id sb t)"]
    by (auto simp: map_le_def)
qed

lemma remove_staging_op_keeps [keeps_intro]: "keeps (store_op (remove_staging h))"
proof (rule store_op_keeps)
  fix t assume "fs_inv t"
  then show "fs_inv (snd (remove_staging h t)) \<and> blob_map t \<subseteq>\<^sub>m blob_map (snd (remove_staging h t))"
    using remove_staging_refines [of t h] by (auto simp: map_le_def split: if_splits)
qed

lemma with_uow_keeps: "keeps m \<Longrightarrow> keeps (with_uow m)"
  unfolding keeps_def
proof (intro allI impI)
  fix w assume m: "\<forall>w. world_ok w \<longrightarrow> world_ok (snd (m w))" and w: "world_ok w"
  have "world_ok (w\<lparr>w_view := w_db w\<rparr>)" using w by (simp add: world_ok_def peers_ok_def)
  then have "world_ok (snd (m (w\<lparr>w_view := w_db w\<rparr>)))" using m by blast
  then show "world_ok (snd (with_uow m w))"
    by (auto simp: with_uow_def world_ok_def peers_ok_def split: prod.split)
qed

lemma swallow_keeps: "keeps m \<Longrightarrow> keeps (swallow p m)"
  unfolding keeps_def
  by (auto simp: swallow_def split: prod.splits sum.splits)

lemma mark_failed_keeps: "keeps (repo_op (mark_failed now cid e code))"
  by (rule repo_op_keeps) (use sound_cas [of _ _ "MarkFailed code"] in simp)

lemma set_staged_keeps: "sha256_ok h \<Longrightarrow> 0 \<le> n \<Longrightarrow> keeps (repo_op (set_staged now cid e k h n))"
  by (rule repo_op_keeps) (use sound_cas [of _ _ "SetStaged k h n"] in simp)

lemma save_inspection_keeps: "keeps (repo_op (save_inspection now cid e i))"
  by (rule repo_op_keeps) (use sound_cas [of _ _ "SaveInspection i"] in simp)

lemma contents_add_keeps: "fresh_object c \<Longrightarrow> keeps (repo_op (contents_add c))"
  by (rule repo_op_keeps) (rule sound_contents_add)

lemma relations_add_keeps: "keeps (repo_op (relations_add e))"
  by (rule repo_op_keeps) (rule sound_relations_add)

lemma claim_keeps: "fresh_object c \<Longrightarrow> keeps (repo_op (claim_representation c))"
  by (rule repo_op_keeps) (rule sound_claim)

subsection \<open>Publication keeps consistency whatever fails\<close>

lemma mark_failed_uow_keeps [keeps_intro]: "keeps (mark_failed_uow cid e code)"
  unfolding mark_failed_uow_def
proof (rule with_uow_keeps, unfold keeps_def, intro allI impI)
  fix w assume "world_ok w"
  then show "world_ok (snd (try_seq (repo_op (mark_failed (w_now w) cid e code) w) (\<lambda>_. db_commit)))"
    by (intro try_seq_keeps keepsD [OF mark_failed_keeps] keepsD [OF commit_keeps])
qed

lemma await_Inr: "await op w = (Inr x, w') \<Longrightarrow> \<exists>ss. op (w\<lparr>w_sched := ss\<rparr>) = (Inr x, w')"
  by (rule await_cases [of op w]) auto

lemma lock_Inr: "lock_storage_key k w = (Inr u, w') \<Longrightarrow> \<exists>ss. w' = w\<lparr>w_sched := ss\<rparr>"
  unfolding lock_storage_key_def by (drule await_Inr) auto

lemma store_query_Inr:
  "store_query f w = (Inr x, w') \<Longrightarrow> (\<exists>ss. w' = w\<lparr>w_sched := ss\<rparr>) \<and> f (w_fs w) = Inr x"
  unfolding store_query_def by (drule await_Inr, cases "f (w_fs w)") auto

lemma repo_query_Inr:
  "repo_query f w = (Inr x, w') \<Longrightarrow> (\<exists>ss. w' = w\<lparr>w_sched := ss\<rparr>) \<and> f (w_view w) = Inr x"
  unfolding repo_query_def by (drule await_Inr, cases "f (w_view w)") auto

lemma repo_op_Inr:
  "repo_op f w = (Inr x, w') \<Longrightarrow> \<exists>ss v. f (w_view w) = (Inr x, v) \<and> w' = w\<lparr>w_sched := ss, w_view := v\<rparr>"
  unfolding repo_op_def
  by (drule await_Inr, cases "f (w_view w)", cases "fst (f (w_view w))") auto

lemma commit_Inr: "db_commit w = (Inr u, w') \<Longrightarrow> \<exists>ss. w' = w\<lparr>w_sched := ss, w_db := w_view w\<rparr>"
  unfolding db_commit_def by (drule await_Inr) auto

text \<open>Removing the blob of a key nobody references.\<close>

lemma remove_unreferenced:
  assumes "world_ok w" "w_view w = w_db w" "\<not> has_active_storage_reference k (w_view w)"
  shows "world_ok (snd (store_op (store_remove k) w))"
proof -
  let ?op = "\<lambda>w. case store_remove k (w_fs w) of (r, t) \<Rightarrow> (lift_err ExcStore r, w\<lparr>w_fs := t\<rparr>)"
  have "world_ok (snd (?op (w\<lparr>w_sched := ss\<rparr>)))" for ss
  proof -
    have inv: "fs_inv (w_fs w)" using assms(1) by (simp add: world_ok_def sound_def)
    obtain r t where rm: "store_remove k (w_fs w) = (r, t)" by (cases "store_remove k (w_fs w)")
    have t: "fs_inv t \<and> (\<forall>k'. k' \<noteq> k \<longrightarrow> blob_map t k' = blob_map (w_fs w) k')"
      using store_remove_refines [OF inv, of k] rm inv by (auto split: if_splits)
    have "sound (w_db w) t"
      unfolding sound_def
    proof (intro conjI ballI impI)
      show "db_inv (w_db w)" using assms(1) by (simp add: world_ok_def sound_def)
      show "fs_inv t" using t by blast
      fix r assume r: "r \<in> set (db_rows (w_db w))" "state (content r) = AVAILABLE"
      then have "row_backed (w_fs w) r" using assms(1) by (auto simp: world_ok_def sound_def)
      moreover have "storage_key r \<noteq> Some k"
        using r assms(2,3) by (auto simp: has_active_storage_reference_def list_ex_iff)
      ultimately show "row_backed t r" using t by (auto simp: row_backed_def)
    qed
    then show ?thesis
      using assms(1,2) rm by (simp add: world_ok_def peers_ok_def)
  qed
  moreover have "world_ok (w\<lparr>w_sched := ss\<rparr>)" for ss using assms(1) by simp
  ultimately show ?thesis
    unfolding store_op_def
    by (rule_tac op = ?op and w = w in await_cases) simp_all
qed

lemma drop_blob_uow_keeps [keeps_intro]: "keeps (drop_blob_uow k)"
proof -
  have "world_ok (snd (drop_blob_uow k w))" if w: "world_ok w" for w
  proof -
    let ?w = "w\<lparr>w_view := w_db w\<rparr>"
    have ok: "world_ok ?w" using w by (simp add: world_ok_def peers_ok_def)
    have "world_ok (snd (try_seq (lock_storage_key k ?w) (\<lambda>_ w.
     try_seq (repo_query (\<lambda>v. Inr (has_active_storage_reference k v)) w) (\<lambda>active w.
     try_seq (if active then (Inr True, w) else store_op (store_remove k) w) (\<lambda>_. db_commit)))))"
    proof (intro try_seq_keeps keepsD [OF lock_keeps] keepsD [OF repo_query_keeps]
        keepsD [OF commit_keeps] ok)
      fix u w1 act w2
      assume lock: "lock_storage_key k ?w = (Inr u, w1)"
        and q: "repo_query (\<lambda>v. Inr (has_active_storage_reference k v)) w1 = (Inr act, w2)"
        and w2: "world_ok w2"
      have "w_view w2 = w_db w2" "act = has_active_storage_reference k (w_view w2)"
        using lock_Inr [OF lock] repo_query_Inr [OF q] by auto
      then show "world_ok (snd (if act then (Inr True, w2) else store_op (store_remove k) w2))"
        using remove_unreferenced [OF w2] w2 by simp
    qed
    then show ?thesis
      by (auto simp: drop_blob_uow_def with_uow_def world_ok_def peers_ok_def split: prod.split)
  qed
  then show ?thesis by (simp add: keeps_def)
qed

lemma cleanup_failed_keeps [keeps_intro]: "keeps (cleanup_failed cid rvn st fb code)"
  unfolding keeps_def cleanup_failed_def
proof (intro allI impI try_seq_keeps)
  fix w assume w: "world_ok w"
  have "keeps (\<lambda>w. try_seq (store_op (remove_staging h) w) (\<lambda>_ w. (Inr (), w)))" for h
    unfolding keeps_def by (intro allI impI try_seq_keeps keepsD [OF remove_staging_op_keeps]) simp_all
  then show "world_ok (snd (case st of None \<Rightarrow> (Inr (), w)
       | Some sb \<Rightarrow> swallow (\<lambda>e. is_os_error e \<or> is_value_error e)
           (\<lambda>w. try_seq (store_op (remove_staging (st_handle sb)) w) (\<lambda>_ w. (Inr (), w))) w))"
    using w by (cases st) (auto intro!: keepsD swallow_keeps)
qed (auto intro!: keepsD swallow_keeps mark_failed_uow_keeps drop_blob_uow_keeps split: option.split)

lemma publish_failed_keeps [keeps_intro]: "keeps (publish_failed cid rvn st fb e)"
  unfolding keeps_def publish_failed_def
  by (intro allI impI try_seq_keeps keepsD [OF cleanup_failed_keeps]) simp_all

lemma stage_write_result:
  "stage_write tok now ident es t = (Inr sb, t') \<Longrightarrow>
     \<exists>bs. st_sha256 sb = sha256_hex bs \<and> st_size sb = int (length bs)"
  by (auto simp: stage_write_def after_cleanup_def Let_def split: sum.splits if_splits)

lemma do_stage_write_result:
  assumes "do_stage_write ident es w = (Inr sb, w')"
  shows "sha256_ok (st_sha256 sb) \<and> 0 \<le> st_size sb"
proof -
  obtain r t where "stage_write (w_tokens w (w_count w)) (w_now w) ident es (w_fs w) = (r, t)"
      "lift_err ExcStore r = Inr sb"
    using await_Inr [OF assms [unfolded do_stage_write_def]]
    by (cases "stage_write (w_tokens w (w_count w)) (w_now w) ident es (w_fs w)") auto
  then have "\<exists>bs. st_sha256 sb = sha256_hex bs \<and> st_size sb = int (length bs)"
    using stage_write_result by (cases r) auto
  then show ?thesis by (auto simp: sha256_ok_def sha256_hex_hex)
qed

lemma finish_link_result: "finish_link p q sb t = (Inr fb, t') \<Longrightarrow> fb = stored sb"
  by (auto simp: finish_link_def Let_def split: sum.splits store_error.splits if_splits)

lemma finalize_result: "finalize f sb t = (Inr fb, t') \<Longrightarrow> fb = stored sb"
  by (auto simp: finalize_def split: sum.splits prod.splits option.splits if_splits dest: finish_link_result)

lemma finalize_op_result:
  assumes "store_op (finalize id sb) w = (Inr fb, w')"
  shows "fb = stored sb \<and> w_db w' = w_db w"
proof -
  obtain ss where "(case finalize id sb (w_fs w) of (r, t) \<Rightarrow>
      (lift_err ExcStore r, w\<lparr>w_sched := ss, w_fs := t\<rparr>)) = (Inr fb, w')"
    using await_Inr [OF assms [unfolded store_op_def]] by auto
  then show ?thesis
    using finalize_result by (cases "finalize id sb (w_fs w)"; cases "fst (finalize id sb (w_fs w))") auto
qed

text \<open>What a database row says about the staged blob.\<close>

definition row_staged :: "ContentId \<Rightarrow> string \<Rightarrow> int \<Rightarrow> content_db \<Rightarrow> bool" where
  "row_staged cid h n db \<longleftrightarrow>
     (\<exists>r. find_row cid db = Some r \<and> sha256 (content r) = Some h \<and> size_bytes (content r) = Some n)"

lemma staged_uow_body:
  assumes "world_ok w" "sha256_ok (st_sha256 sb)" "0 \<le> st_size sb"
    and "try_seq (repo_op (set_staged now cid 1 (st_handle sb) (st_sha256 sb) (st_size sb)) w) (\<lambda>rec w.
       case rec of None \<Rightarrow> (Inl ExcLifecycle, w)
       | Some r \<Rightarrow> if revision (content r) \<noteq> 2 then (Inl ExcLifecycle, w) else db_commit w) = (x, w')"
  shows "world_ok w' \<and> (x = Inr () \<longrightarrow> row_staged cid (st_sha256 sb) (st_size sb) (w_db w'))"
proof
  let ?op = "repo_op (set_staged now cid 1 (st_handle sb) (st_sha256 sb) (st_size sb))"
  have "world_ok (snd (try_seq (?op w) (\<lambda>rec w.
       case rec of None \<Rightarrow> (Inl ExcLifecycle, w)
       | Some r \<Rightarrow> if revision (content r) \<noteq> 2 then (Inl ExcLifecycle, w) else db_commit w)))"
    using assms(1) by (intro try_seq_keeps keepsD [OF set_staged_keeps [OF assms(2,3)]])
      (auto intro: keepsD [OF commit_keeps] split: option.split)
  then show "world_ok w'" using assms(4) by simp
  show "x = Inr () \<longrightarrow> row_staged cid (st_sha256 sb) (st_size sb) (w_db w')"
  proof
    assume "x = Inr ()"
    with assms(4) obtain r w1 where r: "?op w = (Inr (Some r), w1)" "db_commit w1 = (Inr (), w')"
      by (auto simp: res_simps split: option.splits if_splits)
    from repo_op_Inr [OF r(1)] obtain v where v:
      "cas_apply now cid 1 (SetStaged (st_handle sb) (st_sha256 sb) (st_size sb)) (w_view w) = (Inr (Some r), v)"
      "w_view w1 = v" by auto
    have inv: "db_inv (w_view w)" using assms(1) by (simp add: world_ok_def sound_def)
    from cas_apply_hit [OF inv _ v(1)] assms(2,3) obtain r0 where
      "find_row cid v = Some (cas_row now 1 (SetStaged (st_handle sb) (st_sha256 sb) (st_size sb)) r0)"
      by auto
    then show "row_staged cid (st_sha256 sb) (st_size sb) (w_db w')"
      using commit_Inr [OF r(2)] v(2) by (auto simp: row_staged_def)
  qed
qed

lemma staged_uow_spec:
  assumes "world_ok w" "sha256_ok (st_sha256 sb)" "0 \<le> st_size sb" "staged_uow cid sb w = (x, w')"
  shows "world_ok w' \<and> (x = Inr () \<longrightarrow> row_staged cid (st_sha256 sb) (st_size sb) (w_db w'))"
proof -
  let ?w = "w\<lparr>w_view := w_db w\<rparr>"
  have ok: "world_ok ?w" using assms(1) by (simp add: world_ok_def peers_ok_def)
  obtain w1 where w1: "try_seq (repo_op (set_staged (w_now ?w) cid 1 (st_handle sb) (st_sha256 sb) (st_size sb)) ?w)
      (\<lambda>rec w. case rec of None \<Rightarrow> (Inl ExcLifecycle, w)
       | Some r \<Rightarrow> if revision (content r) \<noteq> 2 then (Inl ExcLifecycle, w) else db_commit w) = (x, w1)"
      "w' = w1\<lparr>w_view := w_db w1\<rparr>"
    using assms(4) by (auto simp: staged_uow_def with_uow_def split: prod.splits)
  from staged_uow_body [OF ok assms(2,3) w1(1)] w1(2) show ?thesis
    by (auto simp: world_ok_def peers_ok_def)
qed

lemma publish_uow_keeps:
  assumes w: "world_ok w" and row: "row_staged cid (sb_sha256 fb) (sb_size fb) (w_db w)"
  shows "world_ok (snd (publish_uow cid fb w))"
proof -
  let ?w = "w\<lparr>w_view := w_db w\<rparr>"
  have ok: "world_ok ?w" using w by (simp add: world_ok_def peers_ok_def)
  have "world_ok (snd (try_seq (lock_storage_key (sb_key fb) ?w) (\<lambda>_ w.
     try_seq (store_query (store_stat (sb_key fb)) w) (\<lambda>observed w.
     if observed \<noteq> Some fb then (Inl ExcLifecycle, w)
     else try_seq (repo_op (publish (w_now w) cid 2 (sb_key fb)) w) (\<lambda>published w.
       case published of None \<Rightarrow> (Inl ExcLifecycle, w)
       | Some r \<Rightarrow> if state (content r) \<noteq> AVAILABLE then (Inl ExcLifecycle, w)
           else try_seq (db_commit w) (\<lambda>_ w. (Inr r, w)))))))"
  proof (rule try_seq_keeps [OF keepsD [OF lock_keeps ok]], rule try_seq_keeps [OF keepsD [OF store_query_keeps]])
    fix u w1 obs w2
    assume lock: "lock_storage_key (sb_key fb) ?w = (Inr u, w1)"
      and stat: "store_query (store_stat (sb_key fb)) w1 = (Inr obs, w2)" and w2: "world_ok w2"
    have view: "w_view w2 = w_db w" "w_fs w2 = w_fs w1"
      using lock_Inr [OF lock] store_query_Inr [OF stat] by auto
    show "world_ok (snd (if obs \<noteq> Some fb then (Inl ExcLifecycle, w2)
      else try_seq (repo_op (publish (w_now w2) cid 2 (sb_key fb)) w2) (\<lambda>published w.
       case published of None \<Rightarrow> (Inl ExcLifecycle, w)
       | Some r \<Rightarrow> if state (content r) \<noteq> AVAILABLE then (Inl ExcLifecycle, w)
           else try_seq (db_commit w) (\<lambda>_ w. (Inr r, w)))))"
    proof (cases "obs = Some fb")
      case True
      have inv: "fs_inv (w_fs w2)" using w2 by (simp add: world_ok_def sound_def)
      obtain b where b: "blob_map (w_fs w2) (sb_key fb) = Some b" "sb_sha256 fb = sha256_hex b"
          "sb_size fb = int (length b)"
        using store_query_Inr [OF stat] True store_stat_refines [OF inv, of "sb_key fb"]
        unfolding view(2)
        by (cases "blob_map (w_fs w1) (sb_key fb)"; cases fb) (auto split: if_splits)
      have "world_ok (snd (repo_op (publish (w_now w2) cid 2 (sb_key fb)) w2))"
      proof -
        let ?op = "\<lambda>w. case publish (w_now w2) cid 2 (sb_key fb) (w_view w) of
            (r, v) \<Rightarrow> (lift_err ExcRepo r, w\<lparr>w_view := v\<rparr>)"
        have "sound (snd (cas_apply (w_now w2) cid 2 (Publish (sb_key fb)) (w_view w2))) (w_fs w2)"
          by (rule sound_publish [OF _ b(1)])
            (use w2 row b(2,3) view(1) in \<open>auto simp: world_ok_def row_staged_def\<close>)
        then have "world_ok (snd (?op (w2\<lparr>w_sched := ss\<rparr>)))" for ss
          using w2 by (auto simp: world_ok_def peers_ok_def split: prod.split)
        moreover have "world_ok (w2\<lparr>w_sched := ss\<rparr>)" for ss using w2 by simp
        ultimately show ?thesis
          unfolding repo_op_def by (rule_tac op = ?op and w = w2 in await_cases) simp_all
      qed
      then show ?thesis
        using True by (auto intro!: try_seq_keeps keepsD [OF commit_keeps] split: option.split)
    qed (use w2 in simp)
  qed
  then show ?thesis
    by (auto simp: publish_uow_def with_uow_def world_ok_def peers_ok_def split: prod.split)
qed

lemma publish_reserved_keeps: "keeps (publish_reserved stream created)"
  unfolding keeps_def
proof (intro allI impI)
  fix w assume w: "world_ok w"
  note failed = keepsD [OF publish_failed_keeps]
  obtain x1 w1 where s1: "do_stage_write (content_id created) stream w = (x1, w1)" by fastforce
  have w1: "world_ok w1" using keepsD [OF stage_keeps w] s1 by (metis snd_conv)
  show "world_ok (snd (publish_reserved stream created w))"
  proof (cases x1)
    case (Inl e)
    then show ?thesis using s1 failed [OF w1] by (simp add: publish_reserved_def Let_def)
  next
    case (Inr sb)
    note sb = do_stage_write_result [OF s1 [unfolded Inr]]
    obtain x2 w2 where s2: "staged_uow (content_id created) sb w1 = (x2, w2)" by fastforce
    note st = staged_uow_spec [OF w1 _ _ s2]
    have w2: "world_ok w2" using st sb by blast
    show ?thesis
    proof (cases x2)
      case Inl
      then show ?thesis using s1 s2 Inr failed [OF w2] by (simp add: publish_reserved_def Let_def)
    next
      case x2: (Inr u)
      obtain x3 w3 where s3: "store_op (finalize id sb) w2 = (x3, w3)" by fastforce
      have w3: "world_ok w3" using keepsD [OF finalize_op_keeps w2, of sb] s3 by simp
      show ?thesis
      proof (cases x3)
        case Inl
        then show ?thesis using s1 s2 s3 Inr x2 failed [OF w3] by (simp add: publish_reserved_def Let_def)
      next
        case x3: (Inr fb)
        have fb: "fb = stored sb" "w_db w3 = w_db w2"
          using finalize_op_result [OF s3 [unfolded x3]] by auto
        have "row_staged (content_id created) (sb_sha256 fb) (sb_size fb) (w_db w3)"
          using st sb x2 fb by (simp add: stored_def)
        then have w4: "world_ok (snd (publish_uow (content_id created) fb w3))"
          by (rule publish_uow_keeps [OF w3])
        then show ?thesis
          using s1 s2 s3 Inr x2 x3 failed
          by (auto simp: publish_reserved_def Let_def split: prod.splits sum.splits)
      qed
    qed
  qed
qed

lemma keeps_query [keeps_intro]: "world_ok w \<Longrightarrow> world_ok (snd (x, w))"
  by simp

lemma publish_created_keeps:
  assumes "fresh_object created"
  shows "keeps (publish_created stream created relation)"
  unfolding keeps_def publish_created_def
proof (intro allI impI try_seq_keeps_any)
  fix w assume w: "world_ok w"
  have "keeps (\<lambda>w. try_seq (repo_op (contents_add created) w) (\<lambda>_ w.
       try_seq (case relation of None \<Rightarrow> (Inr (), w) | Some e \<Rightarrow> repo_op (relations_add e) w) (\<lambda>_. db_commit)))"
    unfolding keeps_def
    by (intro allI impI try_seq_keeps_any keepsD [OF contents_add_keeps [OF assms]] keepsD [OF commit_keeps])
      (auto intro: keepsD [OF relations_add_keeps] split: option.split)
  then show "world_ok (snd (with_uow (\<lambda>w. try_seq (repo_op (contents_add created) w) (\<lambda>_ w.
       try_seq (case relation of None \<Rightarrow> (Inr (), w) | Some e \<Rightarrow> repo_op (relations_add e) w)
         (\<lambda>_. db_commit))) w))"
    using w with_uow_keeps keepsD by blast
qed (rule keepsD [OF publish_reserved_keeps])

lemma ingest_keeps: "keeps (ingest cx stream kind media filename)"
  unfolding keeps_def
proof (intro allI impI)
  fix w assume w: "world_ok w"
  let ?c = "new_object (w_ids w (w_count w)) (cx_principal cx) (w_now w) kind media filename"
  show "world_ok (snd (ingest cx stream kind media filename w))"
  proof (cases "content_id_ok (w_ids w (w_count w)) \<and> content_object_ok ?c")
    case True
    then have "fresh_object ?c" by (simp add: fresh_object_def new_object_def)
    then show ?thesis
      using True w keepsD [OF publish_created_keeps] by (simp add: ingest_def fresh_id_def Let_def)
  next
    case False
    then show ?thesis using w by (auto simp: ingest_def fresh_id_def Let_def)
  qed
qed

lemma read_bounded_keeps [keeps_intro]: "keeps (read_bounded sv key limit strict)"
  unfolding keeps_def read_bounded_def
  by (intro allI impI try_seq_keeps_any keepsD [OF store_query_keeps]) simp_all

lemma get_uow_keeps [keeps_intro]: "keeps (with_uow (repo_query f))"
  by (rule with_uow_keeps [OF repo_query_keeps])

lemma save_inspection_uow_keeps [keeps_intro]: "keeps (save_inspection_uow tid rvn insp)"
  unfolding keeps_def save_inspection_uow_def
proof (intro allI impI try_seq_keeps_any)
  fix w assume w: "world_ok w"
  have "keeps (\<lambda>w. try_seq (repo_op (save_inspection (w_now w) tid rvn insp) w) (\<lambda>saved w. case saved of
         Some r \<Rightarrow> try_seq (db_commit w) (\<lambda>_ w. (case inspection r of
             None \<Rightarrow> (Inl ExcLifecycle, w) | Some i \<Rightarrow> (Inr (Some i), w)))
       | None \<Rightarrow> try_seq (repo_query (db_get tid) w) (\<lambda>winner w.
           (Inr (case winner of None \<Rightarrow> None | Some x \<Rightarrow> inspection x), w))))"
    unfolding keeps_def
    by (intro allI impI try_seq_keeps_any keepsD [OF save_inspection_keeps])
      (auto intro!: try_seq_keeps_any keepsD [OF commit_keeps] keepsD [OF repo_query_keeps] split: option.split)
  then show "world_ok (snd (with_uow (\<lambda>w. try_seq (repo_op (save_inspection (w_now w) tid rvn insp) w) (\<lambda>saved w. case saved of
         Some r \<Rightarrow> try_seq (db_commit w) (\<lambda>_ w. (case inspection r of
             None \<Rightarrow> (Inl ExcLifecycle, w) | Some i \<Rightarrow> (Inr (Some i), w)))
       | None \<Rightarrow> try_seq (repo_query (db_get tid) w) (\<lambda>winner w.
           (Inr (case winner of None \<Rightarrow> None | Some x \<Rightarrow> inspection x), w)))) w))"
    using w with_uow_keeps keepsD by blast
qed (auto split: option.split)

lemma inspect_keeps [keeps_intro]: "keeps (inspect sv cx cid)"
  unfolding keeps_def inspect_def
  by (auto intro!: try_seq_keeps_any keepsD [OF get_uow_keeps] keepsD [OF read_bounded_keeps]
      keepsD [OF save_inspection_uow_keeps] simp: Let_def split: option.split)

lemma load_targets_keeps [keeps_intro]: "keeps (load_targets owner es)"
proof (induction es)
  case (Cons e es)
  show ?case
    unfolding keeps_def load_targets.simps
    by (intro allI impI try_seq_keeps_any keepsD [OF repo_query_keeps] keepsD [OF Cons.IH]) simp_all
qed (simp add: keeps_def)

lemma load_authorized_keeps [keeps_intro]: "keeps (load_authorized cx cid)"
proof -
  have body: "keeps (\<lambda>w. try_seq (repo_query (db_get tid) w) (\<lambda>found w. case found of
         None \<Rightarrow> (Inl ExcNotFound, w)
       | Some r \<Rightarrow>
          try_seq (auth_check (require_owner (cx_principal cx) (owner_principal_id (content r))), w) (\<lambda>_ w.
          if state (content r) \<noteq> AVAILABLE \<or> storage_key r = None \<or> \<not> live (w_now w) (content r)
          then (Inl ExcUnavailable, w)
          else try_seq (repo_query (relations_for_source tid (Some 32)) w) (\<lambda>rels w.
            try_seq (load_targets (pc_principal_id (cx_principal cx)) rels w) (\<lambda>targets w.
              (Inr (r, targets), w))))))" for tid
    unfolding keeps_def
    by (auto intro!: try_seq_keeps_any keepsD [OF repo_query_keeps] keepsD [OF load_targets_keeps] split: option.split)
  show ?thesis
    unfolding keeps_def load_authorized_def
    by (auto intro!: try_seq_keeps_any keepsD [OF with_uow_keeps [OF body]])
qed

lemma claim_uow_keeps:
  assumes "fresh_object created"
  shows "keeps (claim_uow created relation)"
  unfolding claim_uow_def
  by (rule with_uow_keeps) (auto simp: keeps_def intro!: try_seq_keeps_any keepsD [OF claim_keeps [OF assms]]
      keepsD [OF relations_add_keeps] keepsD [OF commit_keeps])

lemma sleep_keeps [keeps_intro]: "keeps (sleep s)"
  unfolding sleep_def
proof (rule await_keeps)
  fix w assume w: "world_ok w"
  have "sound (case w_peers w of [] \<Rightarrow> w_db w | f # fs \<Rightarrow> f (w_db w)) (w_fs w)"
    using w by (auto simp: world_ok_def peers_ok_def split: list.split)
  moreover have "set (tl (w_peers w)) \<subseteq> set (w_peers w)" by (cases "w_peers w") auto
  ultimately show "world_ok (snd (Inr (), w\<lparr>
     w_clock := (w_clock w)\<lparr>ck_monotonic := ck_monotonic (w_clock w) + s\<rparr>,
     w_db := (case w_peers w of [] \<Rightarrow> w_db w | f # fs \<Rightarrow> f (w_db w)), w_peers := tl (w_peers w)\<rparr>))"
    using w by (auto simp: world_ok_def peers_ok_def)
qed

lemma derive_loop_keeps:
  assumes "fresh_object created"
  shows "world_ok w \<Longrightarrow> world_ok (snd (derive_loop poll cx data created relation remaining w))"
  using assms
proof (induction poll cx data created relation remaining w rule: derive_loop.induct)
  case (1 poll cx data created relation remaining w)
  show ?case
    using "1.prems" "1.IH"
    by (subst derive_loop.simps)
      (auto intro!: try_seq_keeps_any keepsD [OF claim_uow_keeps] keepsD [OF publish_reserved_keeps] keepsD [OF sleep_keeps])
qed

lemma ingest_derived_keeps [keeps_intro]: "keeps (ingest_derived sv cx src d parsed)"
  unfolding keeps_def
proof (intro allI impI)
  fix w assume w: "world_ok w"
  let ?c = "derived_object (w_ids w (w_count w)) (cx_principal cx) (w_now w) src d parsed"
  show "world_ok (snd (ingest_derived sv cx src d parsed w))"
  proof (cases "content_id_ok (w_ids w (w_count w)) \<and> content_object_ok ?c")
    case True
    then have "fresh_object ?c" by (simp add: fresh_object_def new_object_def derived_object_def)
    then show ?thesis
      using True w derive_loop_keeps by (simp add: ingest_derived_def fresh_id_def Let_def)
  next
    case False
    then show ?thesis using w by (auto simp: ingest_derived_def fresh_id_def Let_def)
  qed
qed

lemma derive_all_keeps [keeps_intro]: "keeps (derive_all sv cx src d ps)"
proof (induction ps)
  case (Cons p ps)
  show ?case
    unfolding keeps_def derive_all.simps split_beta
    by (intro allI impI try_seq_keeps_any keepsD [OF ingest_derived_keeps] keepsD [OF Cons.IH]) simp_all
qed (simp add: keeps_def)

lemma run_parser_keeps [keeps_intro]: "keeps (run_parser sv cx r insp ref d answer)"
  unfolding keeps_def
proof (intro allI impI)
  fix w assume w: "world_ok w"
  obtain x w' where run: "await (\<lambda>w. (answer, w)) w = (x, w')" by fastforce
  have "world_ok w'"
    using keepsD [OF await_keeps w, of "\<lambda>w. (answer, w)"] run by simp
  then show "world_ok (snd (run_parser sv cx r insp ref d answer w))"
    using run by (cases x)
      (auto simp: run_parser_def intro!: try_seq_keeps_any keepsD [OF derive_all_keeps])
qed

lemma parse_record_keeps [keeps_intro]: "keeps (parse_record sv cx select execute insp r)"
  unfolding keeps_def parse_record_def
  by (auto intro!: try_seq_keeps_any keepsD [OF read_bounded_keeps] keepsD [OF run_parser_keeps]
      split: option.split)

lemma native_parse_keeps [keeps_intro]: "keeps (native_parse sv cx cid)"
  unfolding keeps_def native_parse_def
  by (auto intro!: try_seq_keeps_any keepsD [OF inspect_keeps] keepsD [OF get_uow_keeps]
      keepsD [OF parse_record_keeps] split: option.split)

lemma batch_loop_keeps: "(\<And>c. keeps (f c)) \<Longrightarrow> keeps (batch_loop f i cs)"
proof (induction cs arbitrary: i)
  case (Cons c cs)
  have step: "world_ok w \<Longrightarrow> f c w = (x, w') \<Longrightarrow> world_ok w'" for w x w'
    using keepsD [OF Cons.prems, of w c] by simp
  have rest: "world_ok w \<Longrightarrow> world_ok (snd (try_seq (batch_loop f j cs w) (\<lambda>items w. (Inr (g items), w))))"
    for w j and g :: "'a BatchItemResult list \<Rightarrow> 'a BatchItemResult list"
    by (intro try_seq_keeps_any keepsD [OF Cons.IH] Cons.prems) simp_all
  show ?case
    unfolding keeps_def batch_loop.simps
  proof (intro allI impI)
    fix w assume w: "world_ok w"
    obtain x w' where x: "f c w = (x, w')" by fastforce
    note w' = step [OF w x]
    show "world_ok (snd (case f c w of (Inl ExcCancelled, w) \<Rightarrow> (Inl ExcCancelled, w)
      | (Inl e, w) \<Rightarrow> try_seq (batch_loop f (i + 1) cs w) (\<lambda>items w. (Inr (content_batch_error i e # items), w))
      | (Inr x, w) \<Rightarrow> try_seq (batch_loop f (i + 1) cs w) (\<lambda>items w. (Inr (batch_success i x # items), w))))"
      using w' rest [OF w'] unfolding x by (auto split: sum.split content_exc.split)
  qed
qed (simp add: keeps_def)

subsection \<open>An ingestion without faults\<close>

lemma await_run: "w_sched w = [] \<Longrightarrow> await op w = op w"
  by (simp add: await_def)

lemma contents_add_root:
  assumes "db_inv db" "fresh_object c" "source_content_id c = None"
    and "content_id c \<notin> set (map row_id (db_rows db))"
  shows "contents_add c db = (Inr (), insert_row (content_values c) db)
    \<and> db_inv (insert_row (content_values c) db)
    \<and> find_row (content_id c) (insert_row (content_values c) db) = Some (content_values c)"
proof -
  let ?db = "insert_row (content_values c) db"
  have na: "\<not> active_derived (content_values c)" using assms(3) by (simp add: active_derived_def)
  have "unique_rows (db_rows ?db)"
    using assms(1,4) na by (auto simp: unique_rows_def insert_row_def db_inv_def db_constraints_def)
  moreover have "row_constraints (content_values c)"
    using assms(2) by (simp add: fresh_object_def content_object_ok_iff row_constraints_iff)
  moreover have "foreign_keys_ok ?db"
    using assms(1,3)
    by (auto simp: db_inv_def db_constraints_def foreign_keys_ok_def insert_row_def list_all_iff
        split: option.splits)
  ultimately have con: "db_constraints ?db"
    using assms(1) by (simp add: db_constraints_def db_inv_def insert_row_def)
  then have inv: "db_inv ?db"
    using insert_row_inv [OF assms(1) fresh_row_inv [OF assms(2)]] by blast
  have "find_row (content_id c) ?db = Some (content_values c)"
    using find_row_mem [OF inv, of "content_values c"] by (simp add: insert_row_def)
  with con inv show ?thesis by (simp add: contents_add_def)
qed

lemma cas_apply_success:
  assumes "db_inv db" "cas_args_ok a" "find_row cid db = Some r" "cas_guard e a r"
  shows "\<exists>db'. cas_apply now cid e a db = (Inr (Some (ContentRecord.truncate (cas_row now e a r))), db')
     \<and> db_inv db' \<and> find_row cid db' = Some (cas_row now e a r) \<and> db_relations db' = db_relations db"
proof -
  obtain db' where run: "cas_apply now cid e a db =
      (Inr (Some (ContentRecord.truncate (cas_row now e a r))), db')" "db_relations db' = db_relations db"
    using cas_apply_eq(1) [OF assms(1,2), of now cid e] assms(3,4) by simp
  from cas_apply_hit [OF assms(1,2) run(1)] show ?thesis
    using run assms(3) by (metis option.inject)
qed

text \<open>The published object, and the reference a fresh object gets when its bytes are stored.\<close>

definition published_object :: "ContentObject \<Rightarrow> bytes \<Rightarrow> ContentObject" where
  "published_object c bs = c\<lparr>state := AVAILABLE, revision := 3, size_bytes := Some (int (length bs)),
     sha256 := Some (sha256_hex bs)\<rparr>"

definition ref_of_bytes :: "ContentObject \<Rightarrow> bytes \<Rightarrow> ContentRef" where
  "ref_of_bytes c bs = \<lparr>cr_content_id = content_id c, cr_media_type = media_type c,
     cr_representation = representation_kind c, cr_size_bytes = int (length bs),
     cr_sha256 = sha256_hex bs, cr_created_at = created_at c, cr_expires_at = expires_at c\<rparr>"

lemma publish_reserved_success:
  assumes w: "w_sched w = []" "fs_inv (w_fs w)" "hex_n 32 (w_tokens w (w_count w))" "db_inv (w_db w)"
    and row: "find_row (content_id c) (w_db w) = Some (content_values c)" "fresh_object c" "revision c = 1"
    and stg: "staging_map (w_fs w) (staging_handle (content_id c) (w_tokens w (w_count w))) = None"
    and str: "consume_stream stream [] = Inr bs"
    and col: "\<forall>b. blob_map (w_fs w) (key_of (sha256_hex bs)) = Some b \<longrightarrow> length b = length bs"
  shows "\<exists>w' r b. publish_reserved stream c w = (Inr (ref_of_bytes c bs), w')
    \<and> w_sched w' = [] \<and> w_clock w' = w_clock w \<and> w_view w' = w_db w'
    \<and> db_relations (w_db w') = db_relations (w_db w)
    \<and> find_row (content_id c) (w_db w') = Some r \<and> content r = published_object c bs
    \<and> storage_key r = Some (key_of (sha256_hex bs)) \<and> staging_map (w_fs w') = staging_map (w_fs w)
    \<and> blob_map (w_fs w') (key_of (sha256_hex bs)) = Some b \<and> sha256_hex b = sha256_hex bs
    \<and> length b = length bs \<and> (blob_map (w_fs w) (key_of (sha256_hex bs)) = None \<longrightarrow> b = bs)"
proof -
  let ?cid = "content_id c" and ?tok = "w_tokens w (w_count w)" and ?h = "sha256_hex bs"
  let ?sb = "\<lparr>st_handle = staging_handle ?cid ?tok, st_sha256 = ?h, st_size = int (length bs)\<rparr>"
  have cid: "content_id_ok ?cid" "state c = CREATING" using row(2) by (auto simp: fresh_object_def)
  obtain t1 where t1: "stage_write ?tok (w_now w) ?cid stream (w_fs w) = (Inr ?sb, t1)" "fs_inv t1"
      "blob_map t1 = blob_map (w_fs w)" "staging_map t1 = (staging_map (w_fs w))(st_handle ?sb \<mapsto> bs)"
    using fsys.stage_law [OF w(2) cid(1) w(3) stg str, of "w_now w"] by auto
  define w1 where "w1 = w\<lparr>w_fs := t1, w_count := Suc (w_count w)\<rparr>"
  have s1: "do_stage_write ?cid stream w = (Inr ?sb, w1)"
    using t1(1) w(1) by (simp add: do_stage_write_def await_run w1_def)
  let ?a = "SetStaged (st_handle ?sb) ?h (int (length bs))"
  have args: "cas_args_ok ?a" by (simp add: sha256_ok_def sha256_hex_hex)
  obtain db2 where db2: "cas_apply (w_now w) ?cid 1 ?a (w_db w) =
      (Inr (Some (ContentRecord.truncate (cas_row (w_now w) 1 ?a (content_values c)))), db2)"
      "db_inv db2" "find_row ?cid db2 = Some (cas_row (w_now w) 1 ?a (content_values c))"
      "db_relations db2 = db_relations (w_db w)"
    using cas_apply_success [OF w(4) args row(1), of 1 "w_now w"] row(3) cid(2) by auto
  define w2 where "w2 = w1\<lparr>w_view := db2, w_db := db2\<rparr>"
  have s2: "staged_uow ?cid ?sb w1 = (Inr (), w2)"
    using db2(1) w(1) by (simp add: staged_uow_def with_uow_def repo_op_def await_run w1_def w2_def db_commit_def)
  obtain t3 where t3: "finalize id ?sb t1 = (Inr (stored ?sb), t3)" "fs_inv t3"
      "staging_map t3 = (staging_map t1)(st_handle ?sb := None)"
      "blob_map t3 = (if blob_map t1 (key_of ?h) = None then (blob_map t1)(key_of ?h \<mapsto> bs) else blob_map t1)"
    using fsys.fin_law [OF t1(2), of ?sb bs] t1(3,4) col by auto
  define w3 where "w3 = w2\<lparr>w_fs := t3\<rparr>"
  have s3: "store_op (finalize id ?sb) w2 = (Inr (stored ?sb), w3)"
    using t3(1) w(1) by (simp add: store_op_def await_run w1_def w2_def w3_def)
  obtain b where b: "blob_map t3 (key_of ?h) = Some b" "length b = length bs"
      "blob_map (w_fs w) (key_of ?h) = None \<longrightarrow> b = bs"
    using t3(4) t1(3) col by (cases "blob_map (w_fs w) (key_of ?h)") auto
  have hb: "sha256_hex b = ?h"
    using fsys.blob_law [OF t3(2) b(1)] key_of_inj [OF hex_sha256 hex_sha256] by metis
  have key: "key_ok (key_of ?h)" using hex_sha256 by (auto simp: key_ok_iff)
  have stat: "store_stat (key_of ?h) t3 = Inr (Some (stored ?sb))"
    using b hb key by (simp add: store_stat_refines [OF t3(2)] stored_def)
  let ?r = "cas_row (w_now w) 1 ?a (content_values c)"
  obtain db4 where db4: "cas_apply (w_now w) ?cid 2 (Publish (key_of ?h)) db2 =
      (Inr (Some (ContentRecord.truncate (cas_row (w_now w) 2 (Publish (key_of ?h)) ?r))), db4)"
      "find_row ?cid db4 = Some (cas_row (w_now w) 2 (Publish (key_of ?h)) ?r)"
      "db_relations db4 = db_relations db2"
    using cas_apply_success [OF db2(2) _ db2(3), of "Publish (key_of ?h)" 2 "w_now w"] cid(2) by auto
  define w4 where "w4 = w3\<lparr>w_view := db4, w_db := db4\<rparr>"
  have s4: "publish_uow ?cid (stored ?sb) w3 =
      (Inr (ContentRecord.truncate (cas_row (w_now w) 2 (Publish (key_of ?h)) ?r)), w4)"
    using db4(1) stat w(1)
    by (simp add: publish_uow_def with_uow_def lock_storage_key_def store_query_def repo_op_def
        db_commit_def await_run w1_def w2_def w3_def w4_def stored_def)
  have "publish_reserved stream c w = (Inr (ref_of_bytes c bs), w4)"
    using s1 s2 s3 s4 by (simp add: publish_reserved_def Let_def content_ref_def ref_of_bytes_def)
  moreover have "staging_map (w_fs w4) = staging_map (w_fs w)"
    using t3(3) t1(4) stg by (simp add: w4_def w3_def fun_upd_idem)
  ultimately show ?thesis
    using db4(2,3) db2(4) b hb w(1)
    by (auto simp: w4_def w3_def w2_def w1_def published_object_def)
qed

subsection \<open>Pages of a text\<close>

lemma utf8_loop_spec:
  assumes "u8_feed (pending @ drop skip (concat cs)) = Some (ds, rest)"
    and "u8_feed pending = Some ([], pending)"
    and "skip \<le> length (concat cs)" "length acc \<le> m"
  shows "\<exists>ex pend value. utf8_loop m cs skip pending acc = Some (ex, 0, pend, value)
    \<and> prefix value (acc @ ds)
    \<and> (ex \<longrightarrow> m < length value)
    \<and> (\<not> ex \<longrightarrow> value = acc @ ds \<and> pend = rest \<and> length value \<le> m)"
  using assms
proof (induction cs arbitrary: skip pending acc ds)
  case Nil
  then show ?case by auto
next
  case (Cons c cs)
  let ?k = "min (length c) skip" and ?c = "drop (min (length c) skip) c"
  have data: "drop skip (concat (c # cs)) = ?c @ drop (skip - ?k) (concat cs)"
    by (cases "skip \<le> length c") (simp_all add: min_def)
  have le: "skip - ?k \<le> length (concat cs)" using Cons.prems(3) by auto
  show ?case
  proof (cases "0 < skip \<and> ?c = []")
    case True
    then have "utf8_loop m (c # cs) skip pending acc = utf8_loop m cs (skip - ?k) pending acc"
      by (simp add: Let_def)
    then show ?thesis
      using Cons.IH [of pending "skip - ?k" ds acc] Cons.prems data True le by simp
  next
    case False
    have zero: "skip - ?k = 0" using False by (auto simp: min_def)
    have all: "u8_feed ((pending @ ?c) @ concat cs) = Some (ds, rest)"
      using Cons.prems(1) data zero by simp
    then obtain d1 p1 d2 where f: "u8_feed (pending @ ?c) = Some (d1, p1)"
        "u8_feed (p1 @ concat cs) = Some (d2, rest)" "ds = d1 @ d2"
      unfolding u8_feed_append [of "pending @ ?c"] by (auto split: option.splits)
    show ?thesis
    proof (cases "m < length (acc @ d1)")
      case True
      then have "utf8_loop m (c # cs) skip pending acc = Some (True, 0, p1, acc @ d1)"
        using False f(1) zero by (auto simp: Let_def)
      then show ?thesis using True f(3) by auto
    next
      case less: False
      then have eq: "utf8_loop m (c # cs) skip pending acc = utf8_loop m cs 0 p1 (acc @ d1)"
        using False f(1) zero by (auto simp: Let_def)
      show ?thesis
        unfolding eq f(3)
        using Cons.IH [of p1 0 d2 "acc @ d1"] f(2) u8_feed_rest [OF f(1)] less by simp
    qed
  qed
qed

lemma utf8_chunk_page:
  assumes valid: "list_all scalar_value cs" and k: "k \<le> length cs"
    and bytes: "concat chunks = utf8_encode cs" and m: "0 < m"
  shows "utf8_chunk (length (utf8_encode (take k cs))) m chunks =
    Inr (take m (drop k cs),
         if length cs \<le> k + m then None else Some (length (utf8_encode (take (k + m) cs))))"
proof -
  let ?off = "length (utf8_encode (take k cs))"
  have split: "utf8_encode cs = utf8_encode (take k cs) @ utf8_encode (drop k cs)"
    by (metis append_take_drop_id utf8_encode_append)
  have sc: "list_all scalar_value (drop k cs)" using valid by (auto simp: list_all_iff dest: in_set_dropD)
  have "u8_feed ([] @ drop ?off (concat chunks)) = Some (drop k cs, [])"
    using u8_feed_encode [OF sc, of "[]"] bytes split by simp
  from utf8_loop_spec [OF this, of "[]" m] obtain ex pend "value" where v:
    "utf8_loop m chunks ?off [] [] = Some (ex, 0, pend, value)" "prefix value (drop k cs)"
    "ex \<longrightarrow> m < length value" "\<not> ex \<longrightarrow> value = drop k cs \<and> pend = [] \<and> length value \<le> m"
    using bytes split by auto
  have page: "take (k + m) cs = take k cs @ take m (drop k cs)" by (simp add: take_add)
  show ?thesis
  proof (cases ex)
    case True
    then have "m < length value" using v(3) by simp
    moreover obtain zs where "drop k cs = value @ zs" using v(2) by (auto simp: prefix_def)
    ultimately have "take m value = take m (drop k cs)" "m < length (drop k cs)" by simp_all
    then show ?thesis
      using v(1) True \<open>m < length value\<close> page by (auto simp: utf8_chunk_def)
  next
    case False
    then have "value = drop k cs" "pend = []" "length value \<le> m" using v(4) by auto
    then show ?thesis
      using v(1) False k by (auto simp: utf8_chunk_def u8_final_def)
  qed
qed

text \<open>A client that follows the offsets: the pages it collects with at most \<open>n\<close> requests.\<close>

fun follow_pages :: "nat \<Rightarrow> nat \<Rightarrow> bytes list \<Rightarrow> nat \<Rightarrow> codepoint list option" where
  "follow_pages 0 m chunks offset = None"
| "follow_pages (Suc n) m chunks offset = (case utf8_chunk offset m chunks of
     Inl e \<Rightarrow> None
   | Inr (page, None) \<Rightarrow> Some page
   | Inr (page, Some next) \<Rightarrow> map_option ((@) page) (follow_pages n m chunks next))"

lemma follow_pages_from:
  assumes "list_all scalar_value cs" "concat chunks = utf8_encode cs" "0 < m"
  shows "k \<le> length cs \<Longrightarrow> length cs - k < n \<Longrightarrow>
    follow_pages n m chunks (length (utf8_encode (take k cs))) = Some (drop k cs)"
proof (induction n arbitrary: k)
  case (Suc n)
  note page = utf8_chunk_page [OF assms(1) Suc.prems(1) assms(2,3)]
  show ?case
  proof (cases "length cs \<le> k + m")
    case True
    then show ?thesis using page by simp
  next
    case False
    have "length cs - (k + m) < n" using Suc.prems assms(3) False by linarith
    then have "follow_pages n m chunks (length (utf8_encode (take (k + m) cs))) = Some (drop (k + m) cs)"
      using Suc.IH [of "k + m"] False by simp
    moreover have "take m (drop k cs) @ drop (k + m) cs = drop k cs"
      by (metis append_take_drop_id drop_drop add.commute)
    ultimately show ?thesis using page False by simp
  qed
qed simp

subsection \<open>Who may read what\<close>

lemma with_uow_Inr:
  assumes "with_uow m w = (Inr x, w')"
  shows "\<exists>w1. m (w\<lparr>w_view := w_db w\<rparr>) = (Inr x, w1)"
  using assms by (auto simp: with_uow_def split: prod.splits)

lemma load_authorized_Inr:
  assumes "load_authorized cx cid w = (Inr (r, ts), w')" "db_inv (w_db w)"
  shows "(''*'' \<in> pc_scopes (cx_principal cx) \<or> ''content:read'' \<in> pc_scopes (cx_principal cx))
    \<and> content_id_ok cid
    \<and> (\<exists>row. find_row cid (w_db w) = Some row \<and> r = ContentRecord.truncate row
         \<and> owner_principal_id (content row) = pc_principal_id (cx_principal cx)
         \<and> state (content row) = AVAILABLE \<and> storage_key row \<noteq> None \<and> live (w_now w) (content row))"
proof -
  have sc: "auth_check (require_scope (cx_principal cx) ''content:read'') = Inr ()"
    and tid: "typed_content_id cid = Inr cid"
    using assms(1) by (auto simp: load_authorized_def res_simps typed_content_id_def split: if_splits)
  from assms(1) obtain w1 found w2 where q: "repo_query (db_get cid) (w\<lparr>w_view := w_db w\<rparr>) = (Inr found, w1)"
    and rest: "(case found of None \<Rightarrow> (Inl ExcNotFound, w1)
       | Some r \<Rightarrow>
          try_seq (auth_check (require_owner (cx_principal cx) (owner_principal_id (content r))), w1) (\<lambda>_ w.
          if state (content r) \<noteq> AVAILABLE \<or> storage_key r = None \<or> \<not> live (w_now w) (content r)
          then (Inl ExcUnavailable, w)
          else try_seq (repo_query (relations_for_source cid (Some 32)) w) (\<lambda>rels w.
            try_seq (load_targets (pc_principal_id (cx_principal cx)) rels w) (\<lambda>targets w.
              (Inr (r, targets), w))))) = (Inr (r, ts), w2)"
    by (auto simp: load_authorized_def sc tid dest!: with_uow_Inr simp: res_simps)
  from repo_query_Inr [OF q] obtain ss where w1: "w1 = w\<lparr>w_view := w_db w, w_sched := ss\<rparr>"
    and got: "db_get cid (w_db w) = Inr found" by auto
  from rest obtain row where row: "find_row cid (w_db w) = Some row" "found = Some (ContentRecord.truncate row)"
    using db_get_inv [OF assms(2), of cid] got by (cases "find_row cid (w_db w)") auto
  have "auth_check (require_owner (cx_principal cx) (owner_principal_id (content row))) = Inr ()"
    "state (content row) = AVAILABLE" "storage_key row \<noteq> None" "live (w_now w) (content row)"
    "r = ContentRecord.truncate row"
    using rest row(2) w1 by (auto simp: res_simps split: if_splits)
  moreover have "auth_check (require_owner p ow) = Inr () \<Longrightarrow> ow = pc_principal_id p" for p ow
    by (simp add: require_owner_def split: if_splits)
  moreover have "''*'' \<in> pc_scopes (cx_principal cx) \<or> ''content:read'' \<in> pc_scopes (cx_principal cx)"
    using sc by (auto simp: require_scope_def split: if_splits)
  moreover have "content_id_ok cid" using tid by (simp add: typed_content_id_def split: if_splits)
  ultimately show ?thesis using row(1) by blast
qed

lemma load_then_keeps:
  assumes "\<And>x w. world_ok w \<Longrightarrow> world_ok (snd (f x w))" "world_ok w"
  shows "world_ok (snd (try_seq (load_authorized cx cid w) f))"
  using assms by (intro try_seq_keeps_any keepsD [OF load_authorized_keeps])

lemma metadata_keeps [keeps_intro]: "keeps (metadata cx cid)"
  unfolding keeps_def metadata_def split_beta by (intro allI impI load_then_keeps) simp_all

lemma representations_keeps [keeps_intro]: "keeps (representations cx cid)"
  unfolding keeps_def representations_def split_beta by (intro allI impI load_then_keeps) simp_all

lemma open_data_keeps [keeps_intro]: "keeps (open_data sv cx cid)"
  unfolding keeps_def open_data_def split_beta
  by (intro allI impI load_then_keeps)
    (auto intro!: try_seq_keeps_any keepsD [OF store_query_keeps] split: option.split)

lemma content_read_keeps [keeps_intro]: "keeps (content_read sv cx cid m cursor)"
  unfolding keeps_def
proof (intro allI impI)
  fix w assume w: "world_ok w"
  show "world_ok (snd (content_read sv cx cid m cursor w))"
  proof (cases "1 \<le> m \<and> m \<le> 30000")
    case True
    then show ?thesis
      using w unfolding content_read_def split_beta
      by (auto intro!: try_seq_keeps_any keepsD [OF load_authorized_keeps] keepsD [OF store_query_keeps]
          split: option.split sum.split)
  qed (use w in \<open>auto simp: content_read_def\<close>)
qed

lemma inspect_many_keeps [keeps_intro]: "keeps (inspect_many sv cx cids)"
proof -
  have one: "keeps (\<lambda>w. try_seq (inspect sv cx c w) (\<lambda>insp w.
      try_seq (metadata cx c w) (\<lambda>md w. (Inr (md_content md, insp), w))))" for c
    unfolding keeps_def
    by (intro allI impI try_seq_keeps_any keepsD [OF inspect_keeps] keepsD [OF metadata_keeps]) simp_all
  show ?thesis
    unfolding keeps_def inspect_many_def
    by (intro allI impI try_seq_keeps_any keepsD [OF batch_loop_keeps] one) simp_all
qed

lemma native_parse_many_keeps [keeps_intro]: "keeps (native_parse_many sv cx cids)"
  unfolding keeps_def native_parse_many_def
  by (intro allI impI try_seq_keeps_any keepsD [OF batch_loop_keeps] native_parse_keeps) simp_all

subsection \<open>Batches answer every item\<close>

lemma batch_error_item_ok: "0 \<le> i \<Longrightarrow> batch_item_ok (content_batch_error i e) \<and> bi_index (content_batch_error i e) = i"
  by (cases e rule: batch_error_of.cases)
    (simp_all add: content_batch_error_def batch_item_ok_def)

lemma batch_success_ok: "0 \<le> i \<Longrightarrow> batch_item_ok (batch_success i x) \<and> bi_index (batch_success i x) = i"
  by (simp add: batch_success_def batch_item_ok_def)

lemma batch_loop_Cons:
  assumes "batch_loop f i (c # cs) w = (Inr items, w')" "0 \<le> i"
  obtains it items' w1 where "batch_loop f (i + 1) cs w1 = (Inr items', w')" "items = it # items'"
    "bi_index it = i" "batch_item_ok it"
proof -
  obtain x w1 where x: "f c w = (x, w1)" by fastforce
  show thesis
  proof (cases x)
    case (Inl e)
    have "e \<noteq> ExcCancelled" using assms(1) x Inl by auto
    then obtain items' where b: "batch_loop f (i + 1) cs w1 = (Inr items', w')"
        "items = content_batch_error i e # items'"
      using assms(1) x Inl by (cases e) (auto simp: res_simps)
    show ?thesis by (rule that [OF b]) (simp_all add: batch_error_item_ok [OF assms(2)])
  next
    case (Inr y)
    obtain items' where b: "batch_loop f (i + 1) cs w1 = (Inr items', w')"
        "items = batch_success i y # items'"
      using assms(1) unfolding batch_loop.simps x Inr by (auto simp: res_simps)
    show ?thesis by (rule that [OF b]) (simp_all add: batch_success_ok [OF assms(2)])
  qed
qed

lemma batch_loop_items:
  "batch_loop f i cs w = (Inr items, w') \<Longrightarrow> 0 \<le> i \<Longrightarrow>
     map bi_index items = map (\<lambda>j. i + int j) [0..<length cs] \<and> list_all batch_item_ok items"
proof (induction cs arbitrary: i w items)
  case (Cons c cs)
  from batch_loop_Cons [OF Cons.prems] obtain it items' w1 where b:
    "batch_loop f (i + 1) cs w1 = (Inr items', w')" "items = it # items'"
    "bi_index it = i" "batch_item_ok it" .
  have "map bi_index items' = map (\<lambda>j. (i + 1) + int j) [0..<length cs] \<and> list_all batch_item_ok items'"
    using Cons.IH [OF b(1)] Cons.prems(2) by simp
  then show ?case using b(2-4) by (simp only: length_Cons upt_shift list.map list.pred_inject)
qed simp

lemma content_batch_result_ok:
  assumes "items \<noteq> []" "list_all batch_item_ok items"
  shows "\<exists>res. content_batch_result opid items = Inr res \<and> operation_result_ok res
    \<and> or_data res = Some items \<and> aggregate_batch_outcome (map bi_outcome items) = Inr (or_outcome res)"
proof -
  have "map bi_outcome items \<noteq> []" using assms(1) by simp
  from aggregate_total [OF this] obtain oc where oc: "aggregate_batch_outcome (map bi_outcome items) = Inr oc"
    by blast
  have "bi_error (hd (filter (\<lambda>x. bi_error x \<noteq> None) items)) \<noteq> None"
    if "oc \<notin> {OO_SUCCEEDED, OO_PARTIAL_SUCCESS}"
  proof -
    have "\<not> list_all (\<lambda>x. x = LO_SUCCEEDED) (map bi_outcome items)"
      using oc that by (auto simp: aggregate_batch_outcome_def split: if_splits)
    then obtain x where "x \<in> set items" "bi_outcome x \<noteq> LO_SUCCEEDED"
      by (auto simp: list_all_iff)
    then have "x \<in> set (filter (\<lambda>x. bi_error x \<noteq> None) items)"
      using assms(2) by (auto simp: list_all_iff batch_item_ok_def)
    then have "hd (filter (\<lambda>x. bi_error x \<noteq> None) items) \<in> set (filter (\<lambda>x. bi_error x \<noteq> None) items)"
      by (metis hd_in_set list.set(1) empty_iff)
    then show ?thesis by simp
  qed
  then show ?thesis using oc by (auto simp: content_batch_result_def operation_result_ok_def)
qed

lemma ingest_success:
  assumes "world_ok w" "w_sched w = []"
    and "c = new_object (w_ids w (w_count w)) (cx_principal cx) (w_now w) kind media filename"
    and "content_id_ok (content_id c)" "content_object_ok c"
    and "content_id c \<notin> set (map row_id (db_rows (w_db w)))"
    and "staging_map (w_fs w) (staging_handle (content_id c) (w_tokens w (Suc (w_count w)))) = None"
    and "consume_stream stream [] = Inr bs"
    and "\<forall>b. blob_map (w_fs w) (key_of (sha256_hex bs)) = Some b \<longrightarrow> length b = length bs"
  shows "\<exists>w' r b. ingest cx stream kind media filename w = (Inr (ref_of_bytes c bs), w')
    \<and> w_sched w' = [] \<and> w_clock w' = w_clock w \<and> w_view w' = w_db w'
    \<and> db_relations (w_db w') = db_relations (w_db w)
    \<and> find_row (content_id c) (w_db w') = Some r \<and> content r = published_object c bs
    \<and> storage_key r = Some (key_of (sha256_hex bs)) \<and> staging_map (w_fs w') = staging_map (w_fs w)
    \<and> blob_map (w_fs w') (key_of (sha256_hex bs)) = Some b \<and> sha256_hex b = sha256_hex bs
    \<and> length b = length bs \<and> (blob_map (w_fs w) (key_of (sha256_hex bs)) = None \<longrightarrow> b = bs)"
proof -
  have inv: "db_inv (w_db w)" "fs_inv (w_fs w)" "hex_n 32 (w_tokens w n)" for n
    using assms(1) by (auto simp: world_ok_def sound_def)
  have fresh: "fresh_object c" "source_content_id c = None" "revision c = 1"
    "content_id c = w_ids w (w_count w)"
    using assms(3-5) by (auto simp: fresh_object_def new_object_def)
  let ?db = "insert_row (content_values c) (w_db w)"
  have add: "contents_add c (w_db w) = (Inr (), ?db)" "db_inv ?db"
      "find_row (content_id c) ?db = Some (content_values c)"
    using contents_add_root [OF inv(1) fresh(1,2) assms(6)] by auto
  define w1 where "w1 = w\<lparr>w_count := Suc (w_count w), w_db := ?db, w_view := ?db\<rparr>"
  have "ingest cx stream kind media filename w = publish_reserved stream c w1"
    using add(1) assms(2-5) fresh(4)
    by (simp add: ingest_def fresh_id_def Let_def publish_created_def with_uow_def repo_op_def
        await_run db_commit_def w1_def)
  then show ?thesis
    using publish_reserved_success [of w1 c stream bs] inv add fresh assms(2,7-9)
    by (simp add: w1_def insert_row_def)
qed

subsection \<open>An example world\<close>

definition demo_principal :: PrincipalContext where
  "demo_principal = \<lparr>pc_principal_id = ''alice'', pc_scopes = {''content:read''}, pc_registry_revision = None\<rparr>"

definition demo_context :: ExecutionContext where
  "demo_context = \<lparr>cx_operation_id = ''op_1'', cx_principal = demo_principal,
     cx_cancel_requested = False, cx_deadline = None\<rparr>"

definition demo_world :: "sched list \<Rightarrow> world" where
  "demo_world ss = \<lparr>w_db = empty_db, w_view = empty_db, w_fs = empty_store, w_sched = ss,
     w_clock = \<lparr>ck_utc_now = 100, ck_monotonic = 0\<rparr>, w_ids = (\<lambda>_. demo_id), w_tokens = (\<lambda>_. demo_token),
     w_count = 0, w_peers = []\<rparr>"

lemma demo_world_ok: "world_ok (demo_world ss)"
  using empty_db_inv empty_store_inv demo_names(2)
  by (simp add: world_ok_def peers_ok_def demo_world_def sound_def) (simp add: empty_db_def)

definition demo_object :: ContentObject where
  "demo_object = new_object demo_id demo_principal 100 TEXT None None"

lemma demo_object_fresh: "content_object_ok demo_object" "fresh_object demo_object"
  by code_simp+

section \<open>Properties\<close>

text \<open>C1: Database and store stay consistent whatever fails. From a world in which every
  AVAILABLE row has its blob with the recorded digest and size, every operation of the Content
  service leads to such a world again, for every schedule of faults: each awaited call may
  raise before it acts, may act and then raise (a commit whose acknowledgement is lost), or may
  be cancelled, at any point of ingestion, publication, cleanup, inspection or parsing.\<close>

theorem content_operations_consistent:
  assumes "world_ok w"
  shows "world_ok (snd (ingest cx stream kind media filename w))
    \<and> world_ok (snd (inspect sv cx cid w)) \<and> world_ok (snd (native_parse sv cx cid w))
    \<and> world_ok (snd (metadata cx cid w)) \<and> world_ok (snd (representations cx cid w))
    \<and> world_ok (snd (content_read sv cx cid max_chars cursor w)) \<and> world_ok (snd (open_data sv cx cid w))
    \<and> world_ok (snd (inspect_many sv cx cids w)) \<and> world_ok (snd (native_parse_many sv cx cids w))"
  by (intro conjI keepsD [OF ingest_keeps assms] keepsD [OF inspect_keeps assms]
      keepsD [OF native_parse_keeps assms] keepsD [OF metadata_keeps assms]
      keepsD [OF representations_keeps assms] keepsD [OF content_read_keeps assms]
      keepsD [OF open_data_keeps assms] keepsD [OF inspect_many_keeps assms]
      keepsD [OF native_parse_many_keeps assms])

theorem content_operations_consistent_witness:
  "world_ok (snd (ingest demo_context [Chunk [104, 105]] TEXT None None
     (demo_world (replicate 10 Runs @ [FailsAfter ExcCancelled]))))"
  using content_operations_consistent [OF demo_world_ok] by blast

text \<open>C2: An ingestion that meets no fault succeeds. With a fresh valid identifier and a fresh
  staging name, a stream that can be read is published: the reference has the owner's content
  id, the length and the SHA-256 digest of the stream, the row is AVAILABLE under the content
  address, the staging area is as before, and the stored bytes have that digest and length; they
  are the bytes of the stream where the address was free.\<close>

theorem ingest_publishes:
  assumes "world_ok w" "w_sched w = []"
    and "c = new_object (w_ids w (w_count w)) (cx_principal cx) (w_now w) kind media filename"
    and "content_id_ok (content_id c)" "content_object_ok c"
    and "content_id c \<notin> set (map row_id (db_rows (w_db w)))"
    and "staging_map (w_fs w) (staging_handle (content_id c) (w_tokens w (Suc (w_count w)))) = None"
    and "consume_stream stream [] = Inr bs"
    and "\<forall>b. blob_map (w_fs w) (key_of (sha256_hex bs)) = Some b \<longrightarrow> length b = length bs"
  shows "\<exists>w' r b. ingest cx stream kind media filename w = (Inr (ref_of_bytes c bs), w')
    \<and> find_row (content_id c) (w_db w') = Some r \<and> content r = published_object c bs
    \<and> storage_key r = Some (key_of (sha256_hex bs)) \<and> staging_map (w_fs w') = staging_map (w_fs w)
    \<and> blob_map (w_fs w') (key_of (sha256_hex bs)) = Some b \<and> sha256_hex b = sha256_hex bs
    \<and> length b = length bs \<and> (blob_map (w_fs w) (key_of (sha256_hex bs)) = None \<longrightarrow> b = bs)"
  using ingest_success [OF assms] by (elim exE conjE) (intro exI conjI)

theorem ingest_publishes_witness:
  "\<exists>w'. ingest demo_context [Chunk [104], Chunk [105]] TEXT None None (demo_world []) =
     (Inr (ref_of_bytes demo_object [104, 105]), w')"
  using ingest_publishes [OF demo_world_ok, of "[]" demo_object demo_context TEXT None None
      "[Chunk [104], Chunk [105]]" "[104, 105]"]
    demo_object_fresh(1) demo_names(1)
  by (auto simp: demo_world_def demo_object_def demo_context_def empty_db_def empty_store_maps new_object_def)

text \<open>C3: Paging through a text loses and repeats nothing. For every valid text, every way the
  store cuts its UTF-8 bytes into chunks and every page size, a client that starts at offset 0
  and follows the returned offsets gets pages that concatenate to the whole text, after at most
  one request more than the text has characters; no multi-byte character is ever cut.\<close>

theorem text_pages_complete:
  assumes "list_all scalar_value cs" "concat chunks = utf8_encode cs" "0 < m"
  shows "follow_pages (Suc (length cs)) m chunks 0 = Some cs"
  using follow_pages_from [OF assms, of 0 "Suc (length cs)"] by simp

theorem text_pages_complete_witness:
  "follow_pages 4 2 [[208], [159, 226, 130], [172, 33]] 0 = Some [1055, 8364, 33]"
proof -
  have valid: "list_all scalar_value [1055, 8364, 33]" by (simp add: scalar_value_def)
  have bytes: "concat [[208], [159, 226, 130], [172, 33]] = utf8_encode [1055, 8364, 33]"
    by (simp add: utf8_encode_def encode_cp_def)
  have len: "Suc (length [1055, 8364, 33 :: codepoint]) = 4" by simp
  show ?thesis
    using text_pages_complete [OF valid bytes, of 2] unfolding len by (simp only: pos2 simp_thms)
qed

text \<open>C4: Content is only shown to its owner. Whenever a read, a metadata query, a listing of
  representations or a download succeeds, the caller has the content:read scope, the row exists,
  belongs to the caller, is AVAILABLE and has not expired.\<close>

theorem content_access_controlled:
  assumes "db_inv (w_db w)"
    and "is_ok (fst (content_read sv cx cid max_chars cursor w)) \<or> is_ok (fst (metadata cx cid w))
       \<or> is_ok (fst (representations cx cid w)) \<or> is_ok (fst (open_data sv cx cid w))"
  shows "(''*'' \<in> pc_scopes (cx_principal cx) \<or> ''content:read'' \<in> pc_scopes (cx_principal cx))
    \<and> (\<exists>row. find_row cid (w_db w) = Some row
         \<and> owner_principal_id (content row) = pc_principal_id (cx_principal cx)
         \<and> state (content row) = AVAILABLE \<and> live (w_now w) (content row))"
proof -
  have "\<exists>r ts w'. load_authorized cx cid w = (Inr (r, ts), w')"
  proof (cases "load_authorized cx cid w")
    case (Pair x w')
    then show ?thesis
      using assms(2)
      by (cases x) (auto simp: content_read_def metadata_def representations_def open_data_def split: if_splits)
  qed
  then show ?thesis using load_authorized_Inr [OF _ assms(1)] by blast
qed

theorem content_access_controlled_witness:
  "\<exists>row. find_row example_id example_published = Some row \<and> owner_principal_id (content row) = ''principal''"
proof -
  let ?cx = "demo_context\<lparr>cx_principal := demo_principal\<lparr>pc_principal_id := ''principal''\<rparr>\<rparr>"
  let ?w = "(demo_world [])\<lparr>w_db := example_published\<rparr>"
  have "is_ok (fst (metadata ?cx example_id ?w))" by code_simp
  then show ?thesis
    using content_access_controlled [of ?w undefined ?cx example_id 1 None] reachable_inv
      example_published_reachable by auto
qed

lemma open_data_intact:
  assumes "world_ok w" "open_data sv cx cid w = (Inr s, w')" "0 < sv_chunk_size sv"
  shows "sha256_hex (concat (as_stream s)) = cr_sha256 (as_content s)
    \<and> int (length (concat (as_stream s))) = cr_size_bytes (as_content s)
    \<and> cr_content_id (as_content s) = cid"
proof -
  have inv: "db_inv (w_db w)" "fs_inv (w_fs w)" using assms(1) by (auto simp: world_ok_def sound_def)
  from assms(2) obtain r ts w1 key ob w2 ref cs where
    ld: "load_authorized cx cid w = (Inr (r, ts), w1)" and key: "storage_key r = Some key"
    and st: "store_query (store_stat key) w1 = (Inr (Some ob), w2)"
    and eq: "Some (sb_sha256 ob) = sha256 (content r)" "Some (sb_size ob) = size_bytes (content r)"
    and ref: "content_ref (content r) = Inr ref"
    and op: "store_query (open_stream (sv_chunk_size sv) key) w2 = (Inr cs, w')"
    and s: "as_content s = ref" "as_stream s = cs"
    by (auto simp: open_data_def res_simps split: option.splits if_splits)
  have fs: "w_fs w2 = w_fs w1" using store_query_Inr [OF st] by auto
  have inv1: "fs_inv (w_fs w1)"
    using keepsD [OF load_authorized_keeps assms(1), of cx cid] ld by (simp add: world_ok_def sound_def)
  obtain b where b: "blob_map (w_fs w1) key = Some b" "sb_sha256 ob = sha256_hex b"
      "sb_size ob = int (length b)"
    using store_query_Inr [OF st] store_stat_refines [OF inv1, of key] by (auto split: if_splits)
  have "cs = read_chunks (sv_chunk_size sv) b"
    using store_query_Inr [OF op] fs fsys.rd_law [OF inv1 b(1), of "sv_chunk_size sv"] by auto
  then have "concat cs = b" using concat_read_chunks [OF assms(3)] by simp
  moreover have "cr_sha256 ref = sha256_hex b" "cr_size_bytes ref = int (length b)"
      "cr_content_id ref = content_id (content r)"
    using ref eq b by (auto simp: content_ref_def split: option.splits)
  moreover have "content_id (content r) = cid"
    using load_authorized_Inr [OF ld inv(1)] find_row_Some by auto
  ultimately show ?thesis using s by simp
qed

text \<open>A stored object and its download, for the witnesses.\<close>

lemma demo_download:
  assumes "cx_principal cx = demo_principal" "0 < sv_chunk_size sv"
  shows "\<exists>w1 s w2. world_ok w1 \<and> open_data sv cx demo_id w1 = (Inr s, w2)
     \<and> as_content s = ref_of_bytes demo_object [104, 105] \<and> as_source_filename s = None \<and> w_clock w1 = w_clock (demo_world [])"
proof -
  obtain w1 r b where w1: "ingest demo_context [Chunk [104, 105]] TEXT None None (demo_world []) =
      (Inr (ref_of_bytes demo_object [104, 105]), w1)"
    "w_sched w1 = []" "w_clock w1 = w_clock (demo_world [])" "db_relations (w_db w1) = []"
    "find_row demo_id (w_db w1) = Some r" "content r = published_object demo_object [104, 105]"
    "storage_key r = Some (key_of (sha256_hex [104, 105]))"
    "blob_map (w_fs w1) (key_of (sha256_hex [104, 105])) = Some b"
    "sha256_hex b = sha256_hex [104, 105]" "length b = 2"
    using ingest_success [OF demo_world_ok, of "[]" demo_object demo_context TEXT None None
        "[Chunk [104, 105]]" "[104, 105]"] demo_object_fresh(1) demo_names(1)
    by (auto simp: demo_world_def demo_object_def demo_context_def empty_db_def empty_store_maps new_object_def)
  have ok: "world_ok w1" using keepsD [OF ingest_keeps demo_world_ok] w1(1) by (metis snd_conv)
  then have inv: "db_inv (w_db w1)" "fs_inv (w_fs w1)" by (auto simp: world_ok_def sound_def)
  have key: "key_ok (key_of (sha256_hex [104, 105]))" using hex_sha256 by (auto simp: key_ok_iff)
  have ld: "load_authorized cx demo_id w1 =
      (Inr (ContentRecord.truncate r, []), w1\<lparr>w_view := w_db w1\<rparr>)"
    using w1(2-7) demo_names(1) db_get_inv [OF inv(1), of demo_id]
    by (simp add: load_authorized_def assms(1) demo_principal_def require_scope_def
        typed_content_id_def with_uow_def repo_query_def await_run require_owner_def
        published_object_def demo_object_def new_object_def live_def relations_for_source_def)
  obtain s w2 where run: "open_data sv cx demo_id w1 = (Inr s, w2)"
      "as_content s = ref_of_bytes demo_object [104, 105]" "as_source_filename s = None"
    using ld w1(2,6-10) key assms(2)
    by (auto simp: open_data_def store_query_def await_run store_stat_refines [OF inv(2)]
        open_stream_refines [OF inv(2)] published_object_def content_ref_def ref_of_bytes_def demo_object_def new_object_def)
  then show ?thesis using ok w1(3) by blast
qed

text \<open>What a download serves is what was published. A successful download streams chunks
  whose concatenation has exactly the length and the SHA-256 digest that its reference
  advertises.\<close>

theorem download_integrity:
  assumes "world_ok w" "open_data sv cx cid w = (Inr s, w')" "0 < sv_chunk_size sv"
  shows "sha256_hex (concat (as_stream s)) = cr_sha256 (as_content s)
    \<and> int (length (concat (as_stream s))) = cr_size_bytes (as_content s)
    \<and> cr_content_id (as_content s) = cid"
  by (rule open_data_intact [OF assms])

theorem download_integrity_witness:
  "\<exists>w1 sv s w2. open_data sv demo_context demo_id w1 = (Inr s, w2)
     \<and> sha256_hex (concat (as_stream s)) = sha256_hex [104, 105]
     \<and> length (concat (as_stream s)) = 2"
proof -
  let ?sv = "undefined\<lparr>sv_chunk_size := 1\<rparr> :: content_service"
  obtain w1 s w2 where run: "world_ok w1" "open_data ?sv demo_context demo_id w1 = (Inr s, w2)"
      "as_content s = ref_of_bytes demo_object [104, 105]"
    using demo_download [of demo_context ?sv] by (auto simp: demo_context_def)
  have "sha256_hex (concat (as_stream s)) = sha256_hex [104, 105]" "length (concat (as_stream s)) = 2"
    using download_integrity [OF run(1, 2)] run(3) by (auto simp: ref_of_bytes_def)
  then show ?thesis using run(2) by blast
qed

text \<open>A batch answers every identifier in order. When a batch of native parses returns, it
  has one item per requested identifier, indexed from 0 in request order, each item is a success
  without error or a failure with one, and the batch outcome is the aggregate of the item
  outcomes with an error exactly when nothing succeeded.\<close>

theorem native_parse_many_complete:
  assumes "native_parse_many sv cx cids w = (Inr res, w')"
  shows "\<exists>items. or_data res = Some items
    \<and> map bi_index items = map int [0..<length cids] \<and> list_all batch_item_ok items
    \<and> operation_result_ok res
    \<and> aggregate_batch_outcome (map bi_outcome items) = Inr (or_outcome res)"
proof -
  obtain items w1 w2 where run: "batch_loop (native_parse sv cx) 0 cids w1 = (Inr items, w2)"
      "content_batch_result (cx_operation_id cx) items = Inr res"
    using assms by (auto simp: native_parse_many_def res_simps)
  have items: "map bi_index items = map int [0..<length cids]" "list_all batch_item_ok items"
    using batch_loop_items [OF run(1)] by auto
  have "items \<noteq> []" using run(2) by (auto simp: content_batch_result_def aggregate_batch_outcome_def)
  from content_batch_result_ok [OF this items(2), of "cx_operation_id cx"] items run(2)
  show ?thesis by auto
qed

theorem native_parse_many_complete_witness:
  "\<exists>res w'. native_parse_many (undefined\<lparr>sv_registry := None\<rparr>)
      (demo_context\<lparr>cx_principal := demo_principal\<lparr>pc_scopes := {''*''}\<rparr>\<rparr>) [''a'', ''b''] (demo_world []) = (Inr res, w')
    \<and> operation_result_ok res"
proof -
  let ?cx = "demo_context\<lparr>cx_principal := demo_principal\<lparr>pc_scopes := {''*''}\<rparr>\<rparr>"
  let ?sv = "undefined\<lparr>sv_registry := None\<rparr> :: content_service"
  obtain res w' where run: "native_parse_many ?sv ?cx [''a'', ''b''] (demo_world []) = (Inr res, w')"
    by (simp add: native_parse_many_def native_parse_def demo_context_def demo_principal_def
        require_scope_def content_batch_result_def aggregate_batch_outcome_def content_batch_error_def)
  from native_parse_many_complete [OF run] run show ?thesis by blast
qed

end
