(* ===== verification/Content_Maintenance.thy ===== *)
theory Content_Maintenance
  imports Content_Service
begin

section \<open>Content maintenance\<close>

text \<open>
  \<open>application/content/maintenance.py\<close>: recovery of stale creations, removal of orphaned staging
  files, garbage collection of blobs and the integrity audit, in the fault model of the Content
  service. Rows another session has locked are skipped by \<open>stale_creating\<close>; which rows these
  are is a field of the settings record.
\<close>

record ContentMaintenanceResult =
  mr_recovered :: nat
  mr_failed_stale :: nat
  mr_orphan_staging_removed :: nat
  mr_final_blobs_removed :: nat
  mr_integrity_errors :: nat

record maintenance =
  mt_stale_after :: int
  mt_gc_grace :: int
  mt_batch_size :: nat
  mt_locked :: "ContentId \<Rightarrow> bool"

definition maintenance_ok :: "maintenance \<Rightarrow> bool" where
  "maintenance_ok mt \<longleftrightarrow> 0 < mt_stale_after mt \<and> 0 < mt_gc_grace mt \<and> 1 \<le> mt_batch_size mt \<and> mt_batch_size mt \<le> 1000"

subsection \<open>Recovery of one stale creation\<close>

definition fail_stale_uow :: "ContentId \<Rightarrow> int \<Rightarrow> string \<Rightarrow> unit io" where
  "fail_stale_uow cid e code = with_uow (\<lambda>w.
     try_seq (repo_op (mark_failed (w_now w) cid e code) w) (\<lambda>failed w.
       case failed of None \<Rightarrow> (Inr (), w) | Some r \<Rightarrow> db_commit w))"

definition republish_uow :: "ContentId \<Rightarrow> int \<Rightarrow> StoredBlob \<Rightarrow> bool io" where
  "republish_uow cid e fb = with_uow (\<lambda>w.
     try_seq (lock_storage_key (sb_key fb) w) (\<lambda>_ w.
     try_seq (store_query (store_stat (sb_key fb)) w) (\<lambda>observed w.
     if observed \<noteq> Some fb then (Inr False, w)
     else try_seq (repo_op (publish (w_now w) cid e (sb_key fb)) w) (\<lambda>published w.
       case published of
         None \<Rightarrow> try_seq (repo_query (db_get cid) w) (\<lambda>existing w.
           (Inr (case existing of None \<Rightarrow> False | Some r \<Rightarrow> state (content r) = AVAILABLE), w))
       | Some r \<Rightarrow> try_seq (db_commit w) (\<lambda>_ w. (Inr True, w))))))"

text \<open>\<open>except (FileNotFoundError, OSError, ValueError)\<close> around the finalization.\<close>

definition recover :: "ContentRecord \<Rightarrow> bool io" where
  "recover rec w = (let c = content rec in
     if state c \<noteq> CREATING then (Inr False, w)
     else case (staging_key rec, sha256 c, size_bytes c) of
       (Some hdl, Some h, Some n) \<Rightarrow>
         (let sb = \<lparr>st_handle = hdl, st_sha256 = h, st_size = n\<rparr> in
          case store_op (finalize id sb) w of
            (Inl e, w) \<Rightarrow> if is_os_error e \<or> is_value_error e
              then try_seq (fail_stale_uow (content_id c) (revision c) ''staging_lost'' w) (\<lambda>_ w. (Inr False, w))
              else (Inl e, w)
          | (Inr fb, w) \<Rightarrow> republish_uow (content_id c) (revision c) fb w)
     | _ \<Rightarrow> try_seq (fail_stale_uow (content_id c) (revision c) ''stale_creating'' w) (\<lambda>_ w. (Inr False, w)))"

subsection \<open>The loops of a run\<close>

fun recover_all :: "ContentRecord list \<Rightarrow> (nat \<times> nat) io" where
  "recover_all [] w = (Inr (0, 0), w)"
| "recover_all (r # rs) w = try_seq (recover r w) (\<lambda>ok w.
     try_seq (recover_all rs w) (\<lambda>(a, b) w. (Inr (if ok then (Suc a, b) else (a, Suc b)), w)))"

fun remove_orphans :: "string set \<Rightarrow> instant \<Rightarrow> StagingEntry list \<Rightarrow> nat io" where
  "remove_orphans known cutoff [] w = (Inr 0, w)"
| "remove_orphans known cutoff (e # es) w =
     (if se_handle e \<notin> known \<and> se_modified_at e \<le> cutoff
      then try_seq (store_op (remove_staging (se_handle e)) w) (\<lambda>removed w.
           try_seq (remove_orphans known cutoff es w) (\<lambda>n w. (Inr (of_bool removed + n), w)))
      else remove_orphans known cutoff es w)"

definition collect_uow :: "string \<Rightarrow> bool io" where
  "collect_uow key = with_uow (\<lambda>w.
     try_seq (lock_storage_key key w) (\<lambda>_ w.
     try_seq (repo_query (\<lambda>v. Inr (has_active_storage_reference key v)) w) (\<lambda>active w.
     try_seq (if active then (Inr False, w) else store_op (store_remove key) w) (\<lambda>removed w.
     try_seq (db_commit w) (\<lambda>_ w. (Inr removed, w))))))"

fun collect_all :: "string list \<Rightarrow> nat io" where
  "collect_all [] w = (Inr 0, w)"
| "collect_all (k # ks) w = try_seq (collect_uow k w) (\<lambda>removed w.
     try_seq (collect_all ks w) (\<lambda>n w. (Inr (of_bool removed + n), w)))"

fun audit_all :: "ContentRecord list \<Rightarrow> nat io" where
  "audit_all [] w = (Inr 0, w)"
| "audit_all (r # rs) w = (case storage_key r of
     None \<Rightarrow> try_seq (audit_all rs w) (\<lambda>n w. (Inr (Suc n), w))
   | Some key \<Rightarrow> try_seq (store_query (store_stat key) w) (\<lambda>observed w.
       try_seq (audit_all rs w) (\<lambda>n w.
         (Inr (if (case observed of None \<Rightarrow> True
                   | Some ob \<Rightarrow> Some (sb_sha256 ob) \<noteq> sha256 (content r) \<or> Some (sb_size ob) \<noteq> size_bytes (content r))
               then Suc n else n), w))))"

definition run_once :: "maintenance \<Rightarrow> ContentMaintenanceResult io" where
  "run_once mt w = (let now = w_now w; batch = mt_batch_size mt in
     try_seq (with_uow (\<lambda>w.
       try_seq (repo_query (stale_creating (mt_locked mt) (now - mt_stale_after mt) batch) w) (\<lambda>stale w.
       try_seq (repo_query (\<lambda>v. Inr (known_staging_handles v)) w) (\<lambda>known w. (Inr (stale, known), w)))) w)
       (\<lambda>(stale, known) w.
     try_seq (recover_all stale w) (\<lambda>(recovered, failed) w.
     try_seq (store_query (list_staging (int batch)) w) (\<lambda>entries w.
     try_seq (remove_orphans known (now - mt_stale_after mt) entries w) (\<lambda>orphans w.
     try_seq (with_uow (repo_query (\<lambda>v. Inr (gc_storage_candidates (now - mt_gc_grace mt) batch v))) w) (\<lambda>keys w.
     try_seq (collect_all keys w) (\<lambda>removed w.
     try_seq (with_uow (repo_query (available_for_audit batch)) w) (\<lambda>available w.
     try_seq (audit_all available w) (\<lambda>errors w.
       (Inr \<lparr>mr_recovered = recovered, mr_failed_stale = failed, mr_orphan_staging_removed = orphans,
          mr_final_blobs_removed = removed, mr_integrity_errors = errors\<rparr>, w))))))))))"

section \<open>Facts about maintenance\<close>

lemma fail_stale_keeps [keeps_intro]: "keeps (fail_stale_uow cid e code)"
  unfolding fail_stale_uow_def
  by (rule with_uow_keeps) (auto simp: keeps_def intro!: try_seq_keeps_any keepsD [OF mark_failed_keeps]
      keepsD [OF commit_keeps] split: option.split)

text \<open>What a row of an older revision may have become.\<close>

definition row_fixed :: "ContentId \<Rightarrow> int \<Rightarrow> string \<Rightarrow> int \<Rightarrow> content_db \<Rightarrow> bool" where
  "row_fixed cid e h n db \<longleftrightarrow> (\<forall>r. find_row cid db = Some r \<longrightarrow> revision (content r) = e \<longrightarrow>
     sha256 (content r) = Some h \<and> size_bytes (content r) = Some n)"

lemma republish_keeps:
  assumes w: "world_ok w" and row: "row_fixed cid e (sb_sha256 fb) (sb_size fb) (w_db w)"
  shows "world_ok (snd (republish_uow cid e fb w))"
proof -
  let ?w = "w\<lparr>w_view := w_db w\<rparr>"
  have ok: "world_ok ?w" using w by (simp add: world_ok_def peers_ok_def)
  have step: "world_ok (snd (repo_op (publish now cid e (sb_key fb)) w2))"
    if w2: "world_ok w2" "w_view w2 = w_db w" "store_stat (sb_key fb) (w_fs w2) = Inr (Some fb)" for now w2
  proof -
    let ?op = "\<lambda>w. case publish now cid e (sb_key fb) (w_view w) of
        (r, v) \<Rightarrow> (lift_err ExcRepo r, w\<lparr>w_view := v\<rparr>)"
    have inv: "fs_inv (w_fs w2)" using w2(1) by (simp add: world_ok_def sound_def)
    obtain b where b: "blob_map (w_fs w2) (sb_key fb) = Some b" "sb_sha256 fb = sha256_hex b"
        "sb_size fb = int (length b)"
      using w2(3) store_stat_refines [OF inv, of "sb_key fb"]
      by (cases "blob_map (w_fs w2) (sb_key fb)"; cases fb) (auto split: if_splits)
    have "sound (snd (cas_apply now cid e (Publish (sb_key fb)) (w_view w2))) (w_fs w2)"
      by (rule sound_publish [OF _ b(1)])
        (use w2 row b(2,3) in \<open>auto simp: world_ok_def row_fixed_def\<close>)
    then have "world_ok (snd (?op (w2\<lparr>w_sched := ss\<rparr>)))" for ss
      using w2(1) by (auto simp: world_ok_def peers_ok_def split: prod.split)
    moreover have "world_ok (w2\<lparr>w_sched := ss\<rparr>)" for ss using w2(1) by simp
    ultimately show ?thesis
      unfolding repo_op_def by (rule_tac op = ?op and w = w2 in await_cases) simp_all
  qed
  have "world_ok (snd (try_seq (lock_storage_key (sb_key fb) ?w) (\<lambda>_ w.
     try_seq (store_query (store_stat (sb_key fb)) w) (\<lambda>observed w.
     if observed \<noteq> Some fb then (Inr False, w)
     else try_seq (repo_op (publish (w_now w) cid e (sb_key fb)) w) (\<lambda>published w.
       case published of
         None \<Rightarrow> try_seq (repo_query (db_get cid) w) (\<lambda>existing w.
           (Inr (case existing of None \<Rightarrow> False | Some r \<Rightarrow> state (content r) = AVAILABLE), w))
       | Some r \<Rightarrow> try_seq (db_commit w) (\<lambda>_ w. (Inr True, w)))))))"
  proof (rule try_seq_keeps [OF keepsD [OF lock_keeps ok]], rule try_seq_keeps [OF keepsD [OF store_query_keeps]])
    fix u w1 obs w2
    assume lock: "lock_storage_key (sb_key fb) ?w = (Inr u, w1)"
      and stat: "store_query (store_stat (sb_key fb)) w1 = (Inr obs, w2)" and w2: "world_ok w2"
    have "w_view w2 = w_db w" "store_stat (sb_key fb) (w_fs w2) = Inr obs"
      using lock_Inr [OF lock] store_query_Inr [OF stat] by auto
    then show "world_ok (snd (if obs \<noteq> Some fb then (Inr False, w2)
     else try_seq (repo_op (publish (w_now w2) cid e (sb_key fb)) w2) (\<lambda>published w.
       case published of
         None \<Rightarrow> try_seq (repo_query (db_get cid) w) (\<lambda>existing w.
           (Inr (case existing of None \<Rightarrow> False | Some r \<Rightarrow> state (content r) = AVAILABLE), w))
       | Some r \<Rightarrow> try_seq (db_commit w) (\<lambda>_ w. (Inr True, w)))))"
      using w2 by (auto intro!: try_seq_keeps_any step keepsD [OF commit_keeps]
          keepsD [OF repo_query_keeps] split: option.split)
  qed
  then show ?thesis
    by (auto simp: republish_uow_def with_uow_def world_ok_def peers_ok_def split: prod.split)
qed

subsection \<open>Facts of the database that no step undoes\<close>

definition keeps_db :: "(content_db \<Rightarrow> bool) \<Rightarrow> 'a io \<Rightarrow> bool" where
  "keeps_db J m \<longleftrightarrow> (\<forall>w :: world. J (w_db w) \<and> J (w_view w) \<longrightarrow> J (w_db (snd (m w))) \<and> J (w_view (snd (m w))))"

lemma keeps_db_await:
  assumes "\<And>w :: world. J (w_db w) \<Longrightarrow> J (w_view w) \<Longrightarrow> J (w_db (snd (op w))) \<and> J (w_view (snd (op w)))"
  shows "keeps_db J (await op)"
  unfolding keeps_db_def
proof (intro allI impI)
  fix w :: world assume w: "J (w_db w) \<and> J (w_view w)"
  show "J (w_db (snd (await op w))) \<and> J (w_view (snd (await op w)))"
    by (rule await_cases [of op w]) (use w assms in simp_all)
qed

lemma keeps_db_ops:
  "keeps_db J (store_op f)" "keeps_db J (store_query g)" "keeps_db J (repo_query h)"
  "keeps_db J (lock_storage_key k)" "keeps_db J db_commit"
  unfolding store_op_def store_query_def repo_query_def lock_storage_key_def db_commit_def
  by (rule keeps_db_await; simp split: prod.split)+

lemma keeps_db_repo: "(\<And>v. J v \<Longrightarrow> J (snd (f v))) \<Longrightarrow> keeps_db J (repo_op f)"
  unfolding repo_op_def by (rule keeps_db_await) (simp add: split_beta)

lemma keeps_db_uow: "keeps_db J m \<Longrightarrow> keeps_db J (with_uow m)"
  unfolding keeps_db_def
proof (intro allI impI)
  fix w :: world assume m: "\<forall>w :: world. J (w_db w) \<and> J (w_view w) \<longrightarrow> J (w_db (snd (m w))) \<and> J (w_view (snd (m w)))"
    and w: "J (w_db w) \<and> J (w_view w)"
  have "J (w_db (snd (m (w\<lparr>w_view := w_db w\<rparr>))))" using m w by simp
  then show "J (w_db (snd (with_uow m w))) \<and> J (w_view (snd (with_uow m w)))"
    by (simp add: with_uow_def split_beta)
qed

definition holds_db :: "(content_db \<Rightarrow> bool) \<Rightarrow> ('e + 'a) \<times> world \<Rightarrow> bool" where
  "holds_db J x \<longleftrightarrow> J (w_db (snd x)) \<and> J (w_view (snd x))"

lemma holds_db_seq:
  "holds_db J m \<Longrightarrow> (\<And>x (w :: world). J (w_db w) \<Longrightarrow> J (w_view w) \<Longrightarrow> holds_db J (f x w)) \<Longrightarrow> holds_db J (try_seq m f)"
  by (cases m; cases "fst m") (auto simp: holds_db_def)

lemma keeps_dbD: "keeps_db J m \<Longrightarrow> J (w_db w) \<Longrightarrow> J (w_view w) \<Longrightarrow> holds_db J (m w)"
  by (simp add: keeps_db_def holds_db_def)

lemma keeps_dbI: "(\<And>w :: world. J (w_db w) \<Longrightarrow> J (w_view w) \<Longrightarrow> holds_db J (m w)) \<Longrightarrow> keeps_db J m"
  by (simp add: keeps_db_def holds_db_def)

lemma holds_db_pair [simp]: "holds_db J (x, w) \<longleftrightarrow> J (w_db w) \<and> J (w_view w)"
  by (simp add: holds_db_def)

text \<open>The digest and size a row had at a revision stay what they were while the row has that
  revision.\<close>

definition row_seen :: "ContentId \<Rightarrow> int \<Rightarrow> string option \<Rightarrow> int option \<Rightarrow> content_db \<Rightarrow> bool" where
  "row_seen cid e h n db \<longleftrightarrow> db_inv db \<and> (\<exists>r. find_row cid db = Some r \<and> e \<le> revision (content r)
     \<and> (revision (content r) = e \<longrightarrow> sha256 (content r) = h \<and> size_bytes (content r) = n))"

lemma row_seen_fixed: "row_seen cid e (Some h) (Some n) db \<Longrightarrow> row_fixed cid e h n db"
  by (auto simp: row_seen_def row_fixed_def)

lemma row_seen_cas:
  assumes "row_seen cid e h n db" "cas_args_ok a"
  shows "row_seen cid e h n (snd (cas_apply now cid' e' a db))"
proof -
  obtain r where r: "db_inv db" "find_row cid db = Some r" "e \<le> revision (content r)"
      "revision (content r) = e \<longrightarrow> sha256 (content r) = h \<and> size_bytes (content r) = n"
    using assms(1) by (auto simp: row_seen_def)
  note inv = cas_apply_eq(2) [OF r(1) assms(2), of now cid' e']
  show ?thesis
  proof (cases "cid' = cid \<and> cas_guard e' a r")
    case True
    then obtain db' where "cas_apply now cid e' a db = (Inr (Some (ContentRecord.truncate (cas_row now e' a r))), db')"
        "find_row cid db' = Some (cas_row now e' a r)"
      using cas_apply_success [OF r(1) assms(2) r(2), of e' now] by blast
    then show ?thesis
      using True inv r(3) cas_revision [of now e' a r] cas_guard_revision [of e' a r]
      by (auto simp: row_seen_def)
  next
    case False
    have "find_row cid (snd (cas_apply now cid' e' a db)) = Some r"
    proof (cases "cid' = cid")
      case True
      then show ?thesis using False r(2) cas_apply_eq(1) [OF r(1) assms(2), of now cid e'] by simp
    next
      case False
      then show ?thesis
        using cas_apply_frame [OF r(1) assms(2), of now cid' e' _ _ cid] r(2) by (metis prod.collapse)
    qed
    then show ?thesis using inv r by (auto simp: row_seen_def)
  qed
qed

lemma seen_mark_failed: "keeps_db (row_seen cid e h n) (fail_stale_uow cid' e' code)"
  unfolding fail_stale_uow_def
proof (rule keeps_db_uow, rule keeps_dbI)
  fix w :: world assume w: "row_seen cid e h n (w_db w)" "row_seen cid e h n (w_view w)"
  have op: "keeps_db (row_seen cid e h n) (repo_op (mark_failed (w_now w) cid' e' code))"
    by (rule keeps_db_repo) (use row_seen_cas [of cid e h n _ "MarkFailed code"] in simp)
  show "holds_db (row_seen cid e h n) (try_seq (repo_op (mark_failed (w_now w) cid' e' code) w) (\<lambda>failed w.
       case failed of None \<Rightarrow> (Inr (), w) | Some r \<Rightarrow> db_commit w))"
    using w by (auto intro!: holds_db_seq keeps_dbD [OF op] keeps_dbD [OF keeps_db_ops(5)] split: option.split)
qed

lemma seen_republish: "keeps_db (row_seen cid e h n) (republish_uow cid' e' fb)"
  unfolding republish_uow_def
proof (rule keeps_db_uow, rule keeps_dbI)
  fix w :: world assume w: "row_seen cid e h n (w_db w)" "row_seen cid e h n (w_view w)"
  have op: "keeps_db (row_seen cid e h n) (repo_op (publish now cid' e' k))" for now k
    by (rule keeps_db_repo) (use row_seen_cas [of cid e h n _ "Publish k"] in simp)
  show "holds_db (row_seen cid e h n) (try_seq (lock_storage_key (sb_key fb) w) (\<lambda>_ w.
     try_seq (store_query (store_stat (sb_key fb)) w) (\<lambda>observed w.
     if observed \<noteq> Some fb then (Inr False, w)
     else try_seq (repo_op (publish (w_now w) cid' e' (sb_key fb)) w) (\<lambda>published w.
       case published of
         None \<Rightarrow> try_seq (repo_query (db_get cid') w) (\<lambda>existing w.
           (Inr (case existing of None \<Rightarrow> False | Some r \<Rightarrow> state (content r) = AVAILABLE), w))
       | Some r \<Rightarrow> try_seq (db_commit w) (\<lambda>_ w. (Inr True, w))))))"
    using w by (auto intro!: holds_db_seq keeps_dbD [OF op] keeps_dbD [OF keeps_db_ops(1)]
        keeps_dbD [OF keeps_db_ops(2)] keeps_dbD [OF keeps_db_ops(3)] keeps_dbD [OF keeps_db_ops(4)]
        keeps_dbD [OF keeps_db_ops(5)] split: option.split)
qed

lemma seen_recover: "keeps_db (row_seen cid e h n) (recover rec)"
proof (rule keeps_dbI)
  fix w :: world assume w: "row_seen cid e h n (w_db w)" "row_seen cid e h n (w_view w)"
  have fail: "holds_db (row_seen cid e h n) (try_seq (fail_stale_uow c r code u) (\<lambda>_ w. (Inr False, w)))"
    if "row_seen cid e h n (w_db u)" "row_seen cid e h n (w_view u)" for c r code u
    using that by (intro holds_db_seq keeps_dbD [OF seen_mark_failed]) simp_all
  have fin: "row_seen cid e h n (w_db u) \<and> row_seen cid e h n (w_view u)"
    if "store_op (finalize id sb) w = (x, u)" for sb x u
    using keeps_dbD [OF keeps_db_ops(1) w, of "finalize id sb"] that by simp
  show "holds_db (row_seen cid e h n) (recover rec w)"
    unfolding recover_def Let_def
    using w fail [OF w] fail fin keeps_dbD [OF seen_republish]
    by (auto split: option.split prod.split sum.split)
qed

lemma recover_keeps:
  assumes w: "world_ok w"
    and seen: "row_seen (content_id (content rec)) (revision (content rec)) (sha256 (content rec))
        (size_bytes (content rec)) (w_db w)"
  shows "world_ok (snd (recover rec w))"
proof -
  let ?c = "content rec"
  have fail: "world_ok (snd (try_seq (fail_stale_uow c r code u) (\<lambda>_ w. (Inr False, w))))"
    if "world_ok u" for c r code u
    using that by (intro try_seq_keeps_any keepsD [OF fail_stale_keeps]) simp_all
  show ?thesis
  proof (cases "state ?c = CREATING \<and> staging_key rec \<noteq> None \<and> sha256 ?c \<noteq> None \<and> size_bytes ?c \<noteq> None")
    case True
    then obtain hdl h n where f: "state ?c = CREATING" "staging_key rec = Some hdl" "sha256 ?c = Some h"
        "size_bytes ?c = Some n" by auto
    let ?sb = "\<lparr>st_handle = hdl, st_sha256 = h, st_size = n\<rparr>"
    obtain x w1 where x: "store_op (finalize id ?sb) w = (x, w1)" by fastforce
    have w1: "world_ok w1" using keepsD [OF finalize_op_keeps w, of ?sb] x by simp
    show ?thesis
    proof (cases x)
      case (Inl e)
      then show ?thesis using f x w1 fail [OF w1] by (simp add: recover_def Let_def)
    next
      case (Inr fb)
      have fb: "fb = stored ?sb" "w_db w1 = w_db w" using finalize_op_result [OF x [unfolded Inr]] by auto
      have "row_fixed (content_id ?c) (revision ?c) (sb_sha256 fb) (sb_size fb) (w_db w1)"
        using row_seen_fixed seen f fb by (simp add: stored_def)
      then show ?thesis
        using f x Inr republish_keeps [OF w1] by (simp add: recover_def Let_def)
    qed
  next
    case False
    then show ?thesis
      using w fail [OF w] by (auto simp: recover_def Let_def split: option.split)
  qed
qed

abbreviation rec_seen :: "ContentRecord \<Rightarrow> content_db \<Rightarrow> bool" where
  "rec_seen rec \<equiv> row_seen (content_id (content rec)) (revision (content rec)) (sha256 (content rec))
     (size_bytes (content rec))"

lemma recover_all_keeps:
  assumes "world_ok w" "\<And>rec. rec \<in> set rs \<Longrightarrow> rec_seen rec (w_db w) \<and> rec_seen rec (w_view w)"
  shows "world_ok (snd (recover_all rs w))"
  using assms
proof (induction rs arbitrary: w)
  case (Cons r rs)
  have step: "world_ok (snd (recover r w))" by (rule recover_keeps) (use Cons.prems in simp_all)
  have seen: "rec_seen rec (w_db w1) \<and> rec_seen rec (w_view w1)"
    if "rec \<in> set rs" "recover r w = (x, w1)" for rec x w1
    using keeps_dbD [OF seen_recover, of "content_id (content rec)" "revision (content rec)"
        "sha256 (content rec)" "size_bytes (content rec)" w r] Cons.prems(2) that by simp
  show ?case
    unfolding recover_all.simps
  proof (rule try_seq_keeps [OF step])
    fix ok w1 assume r: "recover r w = (Inr ok, w1)" and w1: "world_ok w1"
    show "world_ok (snd (try_seq (recover_all rs w1)
        (\<lambda>(a, b) w. (Inr (if ok then (Suc a, b) else (a, Suc b)), w))))"
      by (rule try_seq_keeps_any [OF Cons.IH [OF w1 seen [OF _ r]]]) (simp_all add: split_beta)
  qed
qed simp

lemma stale_records:
  assumes "stale_creating locked older n db = Inr rs" "rec \<in> set rs" "db_inv db"
  shows "rec_seen rec db"
proof -
  let ?rows = "take n (filter (\<lambda>r. \<not> locked (row_id r)) (sort_key updated_at
       (filter (\<lambda>r. state (content r) = CREATING \<and> updated_at r \<le> older) (db_rows db))))"
  have "\<exists>r \<in> set ys. read_row r = Inr rec" if "res_map read_row ys = Inr rs" for ys
    using that assms(2) by (induction ys arbitrary: rs) (auto simp: res_simps)
  then obtain r where r: "r \<in> set ?rows" "read_row r = Inr rec"
    using assms(1) by (auto simp: stale_creating_def)
  then have mem: "r \<in> set (db_rows db)" by (auto dest!: in_set_takeD)
  have "content rec = content r" using r(2) by (auto simp: read_row_def split: option.splits)
  then show ?thesis using find_row_mem [OF assms(3) mem] assms(3) by (simp add: row_seen_def)
qed

lemma remove_orphans_keeps [keeps_intro]: "keeps (remove_orphans known cutoff es)"
proof (induction es)
  case (Cons e es)
  show ?case
    unfolding keeps_def remove_orphans.simps
    by (auto intro!: try_seq_keeps_any keepsD [OF remove_staging_op_keeps] keepsD [OF Cons.IH])
qed (simp add: keeps_def)

lemma collect_uow_keeps [keeps_intro]: "keeps (collect_uow k)"
proof -
  have "world_ok (snd (collect_uow k w))" if w: "world_ok w" for w
  proof -
    let ?w = "w\<lparr>w_view := w_db w\<rparr>"
    have ok: "world_ok ?w" using w by (simp add: world_ok_def peers_ok_def)
    have "world_ok (snd (try_seq (lock_storage_key k ?w) (\<lambda>_ w.
     try_seq (repo_query (\<lambda>v. Inr (has_active_storage_reference k v)) w) (\<lambda>active w.
     try_seq (if active then (Inr False, w) else store_op (store_remove k) w) (\<lambda>removed w.
     try_seq (db_commit w) (\<lambda>_ w. (Inr removed, w)))))))"
    proof (rule try_seq_keeps [OF keepsD [OF lock_keeps ok]],
        rule try_seq_keeps [OF keepsD [OF repo_query_keeps]], assumption, rule try_seq_keeps_any)
      fix u w1 act w2
      assume lock: "lock_storage_key k ?w = (Inr u, w1)"
        and q: "repo_query (\<lambda>v. Inr (has_active_storage_reference k v)) w1 = (Inr act, w2)"
        and w2: "world_ok w2"
      have "w_view w2 = w_db w2" "act = has_active_storage_reference k (w_view w2)"
        using lock_Inr [OF lock] repo_query_Inr [OF q] by auto
      then show "world_ok (snd (if act then (Inr False, w2) else store_op (store_remove k) w2))"
        using remove_unreferenced [OF w2] w2 by simp
    next
      fix removed w3 assume "world_ok w3"
      then show "world_ok (snd (try_seq (db_commit w3) (\<lambda>_ w. (Inr removed, w))))"
        by (intro try_seq_keeps_any keepsD [OF commit_keeps]) simp_all
    qed
    then show ?thesis
      by (auto simp: collect_uow_def with_uow_def world_ok_def peers_ok_def split: prod.split)
  qed
  then show ?thesis by (simp add: keeps_def)
qed

lemma collect_all_keeps [keeps_intro]: "keeps (collect_all ks)"
proof (induction ks)
  case (Cons k ks)
  show ?case
    unfolding keeps_def collect_all.simps
    by (intro allI impI try_seq_keeps_any keepsD [OF collect_uow_keeps] keepsD [OF Cons.IH]) simp_all
qed (simp add: keeps_def)

lemma audit_all_keeps [keeps_intro]: "keeps (audit_all rs)"
proof (induction rs)
  case (Cons r rs)
  show ?case
    unfolding keeps_def audit_all.simps
    by (auto intro!: try_seq_keeps_any keepsD [OF store_query_keeps] keepsD [OF Cons.IH] split: option.split)
qed (simp add: keeps_def)

text \<open>The audit finds nothing in a consistent world.\<close>

lemma audit_all_clean:
  assumes "world_ok w" "audit_all rs w = (Inr n, w')"
    and "\<And>rec. rec \<in> set rs \<Longrightarrow> \<exists>r \<in> set (db_rows db). content r = content rec \<and> storage_key r = storage_key rec
       \<and> row_backed (w_fs w) r"
  shows "n = 0"
  using assms
proof (induction rs arbitrary: w n)
  case (Cons rec rs)
  obtain r where r0: "content r = content rec" "storage_key r = storage_key rec" "row_backed (w_fs w) r"
    using Cons.prems(3) [of rec] by auto
  obtain k b where r: "content r = content rec" "storage_key rec = Some k" "blob_map (w_fs w) k = Some b"
      "sha256 (content rec) = Some (sha256_hex b)" "size_bytes (content rec) = Some (int (length b))"
    using r0 unfolding row_backed_def by metis
  obtain obs w1 m where o: "store_query (store_stat k) w = (Inr obs, w1)" "audit_all rs w1 = (Inr m, w')"
      "n = (if (case obs of None \<Rightarrow> True | Some ob \<Rightarrow> Some (sb_sha256 ob) \<noteq> sha256 (content rec)
           \<or> Some (sb_size ob) \<noteq> size_bytes (content rec)) then Suc m else m)"
    using Cons.prems(2) r(2) by (auto simp: res_simps)
  have inv: "fs_inv (w_fs w)" using Cons.prems(1) by (simp add: world_ok_def sound_def)
  have key: "key_ok k" using r(3) blob_map_other [of k "w_fs w"] by (force simp: key_ok_iff)
  have fs: "w_fs w1 = w_fs w" "store_stat k (w_fs w) = Inr obs"
    using store_query_Inr [OF o(1)] by auto
  then have "obs = Some \<lparr>sb_key = k, sb_sha256 = sha256_hex b, sb_size = int (length b)\<rparr>"
    using store_stat_refines [OF inv, of k] key r(3) by simp
  then have "n = m" using o(3) r(4,5) by simp
  moreover have "world_ok w1" using keepsD [OF store_query_keeps Cons.prems(1), of "store_stat k"] o(1) by simp
  ultimately show ?case using Cons.IH [OF _ o(2)] Cons.prems(3) fs(1) by simp
qed simp

lemma res_map_mem: "res_map f xs = Inr ys \<Longrightarrow> y \<in> set ys \<Longrightarrow> \<exists>x \<in> set xs. f x = Inr y"
  by (induction xs arbitrary: ys) (auto simp: res_simps)

lemma audit_rows:
  assumes "available_for_audit n db = Inr rs" "rec \<in> set rs" "sound db t"
  shows "\<exists>r \<in> set (db_rows db). content r = content rec \<and> storage_key r = storage_key rec \<and> row_backed t r"
proof -
  obtain r where r: "r \<in> set (take n (sort_key updated_at (filter (\<lambda>r. state (content r) = AVAILABLE) (db_rows db))))"
      "read_row r = Inr rec"
    using res_map_mem [OF assms(1) [unfolded available_for_audit_def] assms(2)] by auto
  then have mem: "r \<in> set (db_rows db)" "state (content r) = AVAILABLE" by (auto dest!: in_set_takeD)
  have "content rec = content r" "storage_key rec = storage_key r"
    using r(2) by (auto simp: read_row_def split: option.splits)
  then show ?thesis using mem assms(3) by (auto simp: sound_def)
qed

lemma gc_candidates_empty:
  assumes "db_inv db"
  shows "gc_storage_candidates older n db = []"
proof -
  have "storage_key r = None"
    if "r \<in> set (db_rows db)" "state (content r) \<in> {FAILED, EXPIRED, DELETED}" for r
    using db_inv_row [OF assms that(1)] that(2) by (auto simp: row_inv_def)
  then have "List.map_filter storage_key
      (filter (\<lambda>r. state (content r) \<in> {FAILED, EXPIRED, DELETED} \<and> updated_at r \<le> older) (db_rows db)) = []"
    by (auto simp: List.map_filter_def filter_empty_conv)
  then show ?thesis by (simp add: gc_storage_candidates_def)
qed

definition scan_uow :: "maintenance \<Rightarrow> instant \<Rightarrow> (ContentRecord list \<times> string set) io" where
  "scan_uow mt now = with_uow (\<lambda>w.
     try_seq (repo_query (stale_creating (mt_locked mt) (now - mt_stale_after mt) (mt_batch_size mt)) w) (\<lambda>stale w.
     try_seq (repo_query (\<lambda>v. Inr (known_staging_handles v)) w) (\<lambda>known w. (Inr (stale, known), w))))"

lemma scan_uow_keeps [keeps_intro]: "keeps (scan_uow mt now)"
  unfolding scan_uow_def
  by (rule with_uow_keeps) (auto simp: keeps_def intro!: try_seq_keeps_any keepsD [OF repo_query_keeps])

lemma scan_uow_seen:
  assumes "world_ok w" "scan_uow mt now w = (Inr (stale, known), w1)" "rec \<in> set stale"
  shows "rec_seen rec (w_db w1) \<and> rec_seen rec (w_view w1)"
proof -
  let ?w = "w\<lparr>w_view := w_db w\<rparr>"
  have inv: "db_inv (w_db w)" using assms(1) by (simp add: world_ok_def sound_def)
  from assms(2) obtain w2 w3 where q:
    "repo_query (stale_creating (mt_locked mt) (now - mt_stale_after mt) (mt_batch_size mt)) ?w = (Inr stale, w2)"
    "repo_query (\<lambda>v. Inr (known_staging_handles v)) w2 = (Inr known, w3)" "w1 = w3\<lparr>w_view := w_db w3\<rparr>"
    by (auto simp: scan_uow_def with_uow_def res_simps split: prod.splits)
  have "stale_creating (mt_locked mt) (now - mt_stale_after mt) (mt_batch_size mt) (w_db w) = Inr stale"
    using repo_query_Inr [OF q(1)] by simp
  then have "rec_seen rec (w_db w)" using stale_records assms(3) inv by blast
  moreover have "w_db w1 = w_db w" "w_view w1 = w_db w"
    using repo_query_Inr [OF q(1)] repo_query_Inr [OF q(2)] q(3) by auto
  ultimately show ?thesis by simp
qed

lemma run_once_keeps: "keeps (run_once mt)"
  unfolding keeps_def
proof (intro allI impI)
  fix w assume w: "world_ok w"
  have "world_ok (snd (try_seq (scan_uow mt (w_now w) w) (\<lambda>(stale, known) u.
     try_seq (recover_all stale u) (\<lambda>(recovered, failed) u.
     try_seq (store_query (list_staging (int (mt_batch_size mt))) u) (\<lambda>entries u.
     try_seq (remove_orphans known (w_now w - mt_stale_after mt) entries u) (\<lambda>orphans u.
     try_seq (with_uow (repo_query (\<lambda>v. Inr (gc_storage_candidates (w_now w - mt_gc_grace mt) (mt_batch_size mt) v))) u) (\<lambda>keys u.
     try_seq (collect_all keys u) (\<lambda>removed u.
     try_seq (with_uow (repo_query (available_for_audit (mt_batch_size mt))) u) (\<lambda>available u.
     try_seq (audit_all available u) (\<lambda>errors u.
       (Inr \<lparr>mr_recovered = recovered, mr_failed_stale = failed, mr_orphan_staging_removed = orphans,
          mr_final_blobs_removed = removed, mr_integrity_errors = errors\<rparr>, u)))))))))))"
  proof (rule try_seq_keeps [OF keepsD [OF scan_uow_keeps w]], clarify)
    fix stale known u
    assume scan: "scan_uow mt (w_now w) w = (Inr (stale, known), u)" and u: "world_ok u"
    have rec: "world_ok (snd (recover_all stale u))"
      by (rule recover_all_keeps [OF u]) (rule scan_uow_seen [OF w scan])
    show "world_ok (snd (try_seq (recover_all stale u) (\<lambda>(recovered, failed) u.
     try_seq (store_query (list_staging (int (mt_batch_size mt))) u) (\<lambda>entries u.
     try_seq (remove_orphans known (w_now w - mt_stale_after mt) entries u) (\<lambda>orphans u.
     try_seq (with_uow (repo_query (\<lambda>v. Inr (gc_storage_candidates (w_now w - mt_gc_grace mt) (mt_batch_size mt) v))) u) (\<lambda>keys u.
     try_seq (collect_all keys u) (\<lambda>removed u.
     try_seq (with_uow (repo_query (available_for_audit (mt_batch_size mt))) u) (\<lambda>available u.
     try_seq (audit_all available u) (\<lambda>errors u.
       (Inr \<lparr>mr_recovered = recovered, mr_failed_stale = failed, mr_orphan_staging_removed = orphans,
          mr_final_blobs_removed = removed, mr_integrity_errors = errors\<rparr>, u))))))))))"
      by (auto intro!: try_seq_keeps_any rec keepsD [OF store_query_keeps] keepsD [OF remove_orphans_keeps]
          keepsD [OF get_uow_keeps] keepsD [OF collect_all_keeps] keepsD [OF audit_all_keeps])
  qed
  then show "world_ok (snd (run_once mt w))" by (simp add: run_once_def Let_def scan_uow_def)
qed


subsection \<open>What a completed run reports\<close>

lemma collect_and_audit_clean:
  assumes ok: "world_ok u"
    and keys: "with_uow (repo_query (\<lambda>v. Inr (gc_storage_candidates older n v))) u = (Inr keys, u1)"
    and coll: "collect_all keys u1 = (Inr removed, u2)"
    and avail: "with_uow (repo_query (available_for_audit m)) u2 = (Inr available, u3)"
    and audit: "audit_all available u3 = (Inr errors, u4)"
  shows "removed = 0 \<and> errors = 0"
proof -
  have u1: "world_ok u1" using keepsD [OF get_uow_keeps ok] keys by (metis snd_conv)
  have "keys = gc_storage_candidates older n (w_db u)"
    using with_uow_Inr [OF keys] repo_query_Inr by fastforce
  then have "keys = []" using gc_candidates_empty ok by (simp add: world_ok_def sound_def)
  then have r: "removed = 0" "u2 = u1" using coll by auto
  have u3: "world_ok u3" using keepsD [OF get_uow_keeps u1] avail r(2) by (metis snd_conv)
  obtain w1 where q: "repo_query (available_for_audit m) (u2\<lparr>w_view := w_db u2\<rparr>) = (Inr available, w1)"
      "u3 = w1\<lparr>w_view := w_db w1\<rparr>"
    using avail by (auto simp: with_uow_def split: prod.splits)
  have "available_for_audit m (w_db u2) = Inr available" "w_fs u3 = w_fs u2"
    using repo_query_Inr [OF q(1)] q(2) by auto
  moreover have "sound (w_db u2) (w_fs u2)" using u1 r(2) by (simp add: world_ok_def)
  ultimately have "errors = 0"
    using audit_all_clean [OF u3 audit] audit_rows by metis
  with r show ?thesis by simp
qed

lemma run_once_clean:
  assumes w: "world_ok w" and run: "run_once mt w = (Inr res, w')"
  shows "mr_final_blobs_removed res = 0 \<and> mr_integrity_errors res = 0"
proof -
  from run obtain stale known u1 recovered failed u2 entries u3 orphans u4 keys u5 removed u6 available u7 errors
    where steps: "scan_uow mt (w_now w) w = (Inr (stale, known), u1)"
      "recover_all stale u1 = (Inr (recovered, failed), u2)"
      "store_query (list_staging (int (mt_batch_size mt))) u2 = (Inr entries, u3)"
      "remove_orphans known (w_now w - mt_stale_after mt) entries u3 = (Inr orphans, u4)"
    and tail: "with_uow (repo_query (\<lambda>v. Inr (gc_storage_candidates (w_now w - mt_gc_grace mt) (mt_batch_size mt) v))) u4
        = (Inr keys, u5)"
      "collect_all keys u5 = (Inr removed, u6)"
      "with_uow (repo_query (available_for_audit (mt_batch_size mt))) u6 = (Inr available, u7)"
      "audit_all available u7 = (Inr errors, w')"
    and res: "mr_final_blobs_removed res = removed" "mr_integrity_errors res = errors"
    by (auto simp: run_once_def Let_def res_simps scan_uow_def [symmetric])
  have u1: "world_ok u1" using keepsD [OF scan_uow_keeps w] steps(1) by (metis snd_conv)
  have "world_ok u2" using recover_all_keeps [OF u1] scan_uow_seen [OF w steps(1)] steps(2) by (metis snd_conv)
  then have "world_ok u3" using keepsD [OF store_query_keeps] steps(3) by (metis snd_conv)
  then have "world_ok u4" using keepsD [OF remove_orphans_keeps] steps(4) by (metis snd_conv)
  from collect_and_audit_clean [OF this tail] res show ?thesis by simp
qed

subsection \<open>A stale creation whose bytes are complete is published\<close>

lemma recover_success:
  assumes w: "world_ok w" "w_sched w = []"
    and row: "find_row cid (w_db w) = Some r" "state (content r) = CREATING" "staging_key r = Some hdl"
      "sha256 (content r) = Some (sha256_hex bs)" "size_bytes (content r) = Some (int (length bs))"
    and stg: "staging_map (w_fs w) hdl = Some bs"
    and col: "\<forall>b. blob_map (w_fs w) (key_of (sha256_hex bs)) = Some b \<longrightarrow> length b = length bs"
  shows "\<exists>w' r'. recover (ContentRecord.truncate r) w = (Inr True, w') \<and> find_row cid (w_db w') = Some r'
     \<and> state (content r') = AVAILABLE \<and> storage_key r' = Some (key_of (sha256_hex bs))
     \<and> staging_map (w_fs w') hdl = None"
proof -
  let ?sb = "\<lparr>st_handle = hdl, st_sha256 = sha256_hex bs, st_size = int (length bs)\<rparr>"
  let ?h = "sha256_hex bs" and ?e = "revision (content r)"
  have inv: "db_inv (w_db w)" "fs_inv (w_fs w)" using w(1) by (auto simp: world_ok_def sound_def)
  have cid: "content_id (content r) = cid" using find_row_Some [OF row(1)] by auto
  obtain t3 where t3: "finalize id ?sb (w_fs w) = (Inr (stored ?sb), t3)" "fs_inv t3"
      "staging_map t3 = (staging_map (w_fs w))(hdl := None)"
      "blob_map t3 = (if blob_map (w_fs w) (key_of ?h) = None then (blob_map (w_fs w))(key_of ?h \<mapsto> bs)
         else blob_map (w_fs w))"
    using fsys.fin_law [OF inv(2), of ?sb bs] stg col by auto
  define w3 where "w3 = w\<lparr>w_fs := t3\<rparr>"
  have s3: "store_op (finalize id ?sb) w = (Inr (stored ?sb), w3)"
    using t3(1) w(2) by (simp add: store_op_def await_run w3_def)
  obtain b where b: "blob_map t3 (key_of ?h) = Some b" "length b = length bs"
    using t3(4) col by (cases "blob_map (w_fs w) (key_of ?h)") auto
  have hb: "sha256_hex b = ?h"
    using fsys.blob_law [OF t3(2) b(1)] key_of_inj [OF hex_sha256 hex_sha256] by metis
  have key: "key_ok (key_of ?h)" using hex_sha256 by (auto simp: key_ok_iff)
  have stat: "store_stat (key_of ?h) t3 = Inr (Some (stored ?sb))"
    using b hb key by (simp add: store_stat_refines [OF t3(2)] stored_def)
  obtain db4 where db4: "cas_apply (w_now w) cid ?e (Publish (key_of ?h)) (w_db w) =
      (Inr (Some (ContentRecord.truncate (cas_row (w_now w) ?e (Publish (key_of ?h)) r))), db4)"
      "find_row cid db4 = Some (cas_row (w_now w) ?e (Publish (key_of ?h)) r)"
    using cas_apply_success [OF inv(1) _ row(1), of "Publish (key_of ?h)" ?e "w_now w"] row by auto
  define w4 where "w4 = w3\<lparr>w_view := db4, w_db := db4\<rparr>"
  have s4: "republish_uow cid ?e (stored ?sb) w3 = (Inr True, w4)"
    using db4(1) stat w(2)
    by (simp add: republish_uow_def with_uow_def lock_storage_key_def store_query_def repo_op_def
        db_commit_def await_run w3_def w4_def stored_def)
  have "recover (ContentRecord.truncate r) w = (Inr True, w4)"
    using s3 s4 row cid by (simp add: recover_def Let_def)
  then show ?thesis using db4(2) t3(3) by (simp add: w4_def w3_def)
qed


text \<open>A process that died after it had staged the bytes of a content.\<close>

lemma demo_interrupted:
  obtains w r where "world_ok w" "w_sched w = []" "find_row demo_id (w_db w) = Some r"
    "state (content r) = CREATING" "staging_key r = Some (st_handle demo_staged)"
    "sha256 (content r) = Some (sha256_hex [104, 105])" "size_bytes (content r) = Some 2"
    "staging_map (w_fs w) (st_handle demo_staged) = Some [104, 105]"
    "blob_map (w_fs w) (key_of (sha256_hex [104, 105])) = None"
proof -
  obtain t1 where t1: "fs_inv t1" "blob_map t1 = blob_map empty_store"
      "staging_map t1 = (staging_map empty_store)(st_handle demo_staged \<mapsto> [104, 105])"
    using demo_stage by metis
  have snd0: "sound empty_db t1"
    using demo_world_ok [of "[]"] t1(1) by (simp add: world_ok_def demo_world_def sound_def empty_db_def)
  let ?db = "insert_row (content_values demo_object) empty_db"
  have id: "content_id demo_object = demo_id" "state demo_object = CREATING" "revision demo_object = 1"
      "source_content_id demo_object = None"
    by (simp_all add: demo_object_def new_object_def)
  have add: "contents_add demo_object empty_db = (Inr (), ?db) \<and> db_inv ?db
      \<and> find_row demo_id ?db = Some (content_values demo_object)"
    using contents_add_root [OF _ demo_object_fresh(2) id(4), of empty_db] snd0 id(1)
    by (simp add: sound_def empty_db_def)
  have snd1: "sound ?db t1"
    using sound_contents_add [OF snd0 demo_object_fresh(2)] add by simp
  let ?a = "SetStaged (st_handle demo_staged) (sha256_hex [104, 105]) 2"
  have args: "cas_args_ok ?a" by (simp add: sha256_ok_def sha256_hex_hex)
  obtain db2 where db2: "cas_apply 101 demo_id 1 ?a ?db =
      (Inr (Some (ContentRecord.truncate (cas_row 101 1 ?a (content_values demo_object)))), db2)"
      "find_row demo_id db2 = Some (cas_row 101 1 ?a (content_values demo_object))"
    using cas_apply_success [OF _ args, of ?db demo_id "content_values demo_object" 1 101] add id by auto
  have "sound db2 t1" using sound_cas [OF snd1 args, of 101 demo_id 1] db2(1) by simp
  then have "world_ok ((demo_world [])\<lparr>w_db := db2, w_view := db2, w_fs := t1\<rparr>)"
    using demo_world_ok [of "[]"] by (simp add: world_ok_def demo_world_def peers_ok_def)
  then show thesis
    by (rule that) (use db2(2) t1 id in \<open>auto simp: demo_world_def empty_store_maps\<close>)
qed

section \<open>Properties\<close>

text \<open>C9: A maintenance run never damages published content. From a consistent world, a run of
  recovery, orphan removal, garbage collection and audit leads to a consistent world, for every
  schedule of faults and cancellation and every set of rows locked by others: each AVAILABLE row
  still has its blob with the recorded digest and size.\<close>

theorem maintenance_run_consistent:
  assumes "world_ok w"
  shows "world_ok (snd (run_once mt w))"
  by (rule keepsD [OF run_once_keeps assms])

theorem maintenance_run_consistent_witness:
  "world_ok (snd (run_once \<lparr>mt_stale_after = 60, mt_gc_grace = 60, mt_batch_size = 10, mt_locked = (\<lambda>_. False)\<rparr>
     (demo_world [Runs, FailsAfter ExcDb])))"
  by (rule maintenance_run_consistent [OF demo_world_ok])

text \<open>A completed run raises no false alarm. In a consistent world the integrity audit of a
  run that returns counts no error, and garbage collection removes no final blob: a row that is
  FAILED, EXPIRED or DELETED holds no storage key, so there is never a candidate.\<close>

theorem maintenance_audit_clean:
  assumes "world_ok w" "run_once mt w = (Inr res, w')"
  shows "mr_integrity_errors res = 0 \<and> mr_final_blobs_removed res = 0"
  using run_once_clean [OF assms] by simp

theorem maintenance_audit_clean_witness:
  "\<exists>w mt res w'. run_once mt w = (Inr res, w') \<and> mr_integrity_errors res = 0"
proof -
  let ?mt = "\<lparr>mt_stale_after = 60, mt_gc_grace = 60, mt_batch_size = 10, mt_locked = (\<lambda>_. False)\<rparr>"
  have "is_ok (fst (run_once ?mt (demo_world [])))" by code_simp
  then obtain res w' where run: "run_once ?mt (demo_world []) = (Inr res, w')"
    by (cases "run_once ?mt (demo_world [])") (auto simp: is_ok_iff)
  from maintenance_audit_clean [OF demo_world_ok run] run show ?thesis by blast
qed

text \<open>C10: Recovery finishes an interrupted publication. If a process died after it staged the
  bytes of a content and recorded their digest and size, recovering that row without further
  faults publishes it: the row becomes AVAILABLE under its content address and the staging file
  is gone.\<close>

theorem recover_completes:
  assumes "world_ok w" "w_sched w = []"
    and "find_row cid (w_db w) = Some r" "state (content r) = CREATING" "staging_key r = Some hdl"
    and "sha256 (content r) = Some (sha256_hex bs)" "size_bytes (content r) = Some (int (length bs))"
    and "staging_map (w_fs w) hdl = Some bs"
    and "\<forall>b. blob_map (w_fs w) (key_of (sha256_hex bs)) = Some b \<longrightarrow> length b = length bs"
  shows "\<exists>w' r'. recover (ContentRecord.truncate r) w = (Inr True, w') \<and> find_row cid (w_db w') = Some r'
     \<and> state (content r') = AVAILABLE \<and> storage_key r' = Some (key_of (sha256_hex bs))
     \<and> staging_map (w_fs w') hdl = None"
  by (rule recover_success [OF assms])

theorem recover_completes_witness:
  "\<exists>w r w' r'. recover r w = (Inr True, w') \<and> find_row demo_id (w_db w) \<noteq> None
     \<and> find_row demo_id (w_db w') = Some r' \<and> state (content r') = AVAILABLE"
proof -
  obtain w r where w: "world_ok w" "w_sched w = []" "find_row demo_id (w_db w) = Some r"
    "state (content r) = CREATING" "staging_key r = Some (st_handle demo_staged)"
    "sha256 (content r) = Some (sha256_hex [104, 105])" "size_bytes (content r) = Some 2"
    "staging_map (w_fs w) (st_handle demo_staged) = Some [104, 105]"
    "blob_map (w_fs w) (key_of (sha256_hex [104, 105])) = None"
    by (rule demo_interrupted)
  obtain w' r' where "recover (ContentRecord.truncate r) w = (Inr True, w')"
      "find_row demo_id (w_db w') = Some r'" "state (content r') = AVAILABLE"
    using recover_completes [OF w(1-6) _ w(8)] w(7,9) by auto
  then show ?thesis using w(3) by (intro exI conjI) auto
qed

end
