(* ===== verification/Regex.thy ===== *)
theory Regex
  imports Prelude
begin

section \<open>Regular expressions matched by derivatives\<close>

text \<open>
  The fragment of Python's \<open>re\<close> that the patterns of the code use, for \<open>re.fullmatch\<close>:
  character classes, sequence, alternative, bounded repetition and \<open>*\<close>. Matching is by
  derivatives; \<open>fullmatch_lang\<close> relates it to the language of the expression.
\<close>

datatype rx = RNone | REps | RCls "char \<Rightarrow> bool" | RSeq rx rx | RAlt rx rx | RStar rx

fun nullable :: "rx \<Rightarrow> bool" where
  "nullable RNone \<longleftrightarrow> False"
| "nullable REps \<longleftrightarrow> True"
| "nullable (RCls p) \<longleftrightarrow> False"
| "nullable (RSeq r s) \<longleftrightarrow> nullable r \<and> nullable s"
| "nullable (RAlt r s) \<longleftrightarrow> nullable r \<or> nullable s"
| "nullable (RStar r) \<longleftrightarrow> True"

fun deriv :: "char \<Rightarrow> rx \<Rightarrow> rx" where
  "deriv c RNone = RNone"
| "deriv c REps = RNone"
| "deriv c (RCls p) = (if p c then REps else RNone)"
| "deriv c (RSeq r s) = (if nullable r then RAlt (RSeq (deriv c r) s) (deriv c s) else RSeq (deriv c r) s)"
| "deriv c (RAlt r s) = RAlt (deriv c r) (deriv c s)"
| "deriv c (RStar r) = RSeq (deriv c r) (RStar r)"

fun fullmatch :: "rx \<Rightarrow> string \<Rightarrow> bool" where
  "fullmatch r [] \<longleftrightarrow> nullable r"
| "fullmatch r (c # s) \<longleftrightarrow> fullmatch (deriv c r) s"

text \<open>\<open>r{m,n}\<close>, \<open>r+\<close>, \<open>r?\<close> and a literal.\<close>

fun r_exactly :: "nat \<Rightarrow> rx \<Rightarrow> rx" where
  "r_exactly 0 r = REps"
| "r_exactly (Suc n) r = RSeq r (r_exactly n r)"

fun r_upto :: "nat \<Rightarrow> rx \<Rightarrow> rx" where
  "r_upto 0 r = REps"
| "r_upto (Suc n) r = RAlt REps (RSeq r (r_upto n r))"

definition r_rep :: "nat \<Rightarrow> nat \<Rightarrow> rx \<Rightarrow> rx" where
  "r_rep m n r = RSeq (r_exactly m r) (r_upto (n - m) r)"

definition r_plus :: "rx \<Rightarrow> rx" where
  "r_plus r = RSeq r (RStar r)"

definition r_opt :: "rx \<Rightarrow> rx" where
  "r_opt r = RAlt REps r"

definition r_char :: "char \<Rightarrow> rx" where
  "r_char c = RCls (\<lambda>x. x = c)"

subsection \<open>Character classes\<close>

definition in_range :: "char \<Rightarrow> char \<Rightarrow> char \<Rightarrow> bool" where
  "in_range a b c \<longleftrightarrow> of_char a \<le> (of_char c :: nat) \<and> (of_char c :: nat) \<le> of_char b"

definition ascii_lower :: "char \<Rightarrow> bool" where
  "ascii_lower c \<longleftrightarrow> in_range CHR ''a'' CHR ''z'' c"

definition ascii_upper :: "char \<Rightarrow> bool" where
  "ascii_upper c \<longleftrightarrow> in_range CHR ''A'' CHR ''Z'' c"

definition ascii_digit :: "char \<Rightarrow> bool" where
  "ascii_digit c \<longleftrightarrow> in_range CHR ''0'' CHR ''9'' c"

definition ascii_alnum :: "char \<Rightarrow> bool" where
  "ascii_alnum c \<longleftrightarrow> ascii_lower c \<or> ascii_upper c \<or> ascii_digit c"

subsection \<open>Languages\<close>

inductive in_lang :: "rx \<Rightarrow> string \<Rightarrow> bool" where
  eps: "in_lang REps []"
| cls: "p c \<Longrightarrow> in_lang (RCls p) [c]"
| seq: "in_lang r s \<Longrightarrow> in_lang r' s' \<Longrightarrow> in_lang (RSeq r r') (s @ s')"
| alt1: "in_lang r s \<Longrightarrow> in_lang (RAlt r r') s"
| alt2: "in_lang r' s \<Longrightarrow> in_lang (RAlt r r') s"
| star0: "in_lang (RStar r) []"
| star: "in_lang r s \<Longrightarrow> in_lang (RStar r) s' \<Longrightarrow> in_lang (RStar r) (s @ s')"

inductive_cases in_lang_SeqE: "in_lang (RSeq r r') s"

inductive_simps in_lang_simps [simp]:
  "in_lang RNone s" "in_lang REps s" "in_lang (RCls p) s" "in_lang (RAlt r r') s"

lemma in_lang_Seq: "in_lang (RSeq r r') s \<longleftrightarrow> (\<exists>a b. s = a @ b \<and> in_lang r a \<and> in_lang r' b)"
  by (blast elim: in_lang_SeqE intro: in_lang.seq)

lemma nullable_lang: "nullable r \<longleftrightarrow> in_lang r []"
  by (induction r) (auto simp: in_lang_Seq intro: in_lang.star0)

text \<open>A word of a star that is not empty starts with a non-empty word of its body.\<close>

lemma star_head:
  assumes "in_lang (RStar r) (c # s)"
  shows "\<exists>a b. s = a @ b \<and> in_lang r (c # a) \<and> in_lang (RStar r) b"
  using assms
proof (induction "RStar r" "c # s" arbitrary: r c s rule: in_lang.induct)
  case (star r a b)
  then show ?case by (cases a) auto
qed

lemma seq_Cons:
  "in_lang (RSeq r r') (c # s) \<longleftrightarrow>
     (\<exists>a b. s = a @ b \<and> in_lang r (c # a) \<and> in_lang r' b) \<or> (in_lang r [] \<and> in_lang r' (c # s))"
proof
  assume "in_lang (RSeq r r') (c # s)"
  then obtain a b where "c # s = a @ b" "in_lang r a" "in_lang r' b" by (auto simp: in_lang_Seq)
  then show "(\<exists>a b. s = a @ b \<and> in_lang r (c # a) \<and> in_lang r' b) \<or> (in_lang r [] \<and> in_lang r' (c # s))"
    by (cases a) auto
next
  assume "(\<exists>a b. s = a @ b \<and> in_lang r (c # a) \<and> in_lang r' b) \<or> (in_lang r [] \<and> in_lang r' (c # s))"
  then show "in_lang (RSeq r r') (c # s)"
    using in_lang.seq [of r "c # _" r'] in_lang.seq [of r "[]" r' "c # s"] by auto
qed

lemma deriv_lang: "in_lang (deriv c r) s \<longleftrightarrow> in_lang r (c # s)"
proof (induction r arbitrary: s)
  case (RSeq r r')
  then show ?case by (auto simp: seq_Cons in_lang_Seq [of "deriv c r"] nullable_lang)
next
  case (RStar r)
  have "in_lang (RStar r) (c # s) \<longleftrightarrow> (\<exists>a b. s = a @ b \<and> in_lang r (c # a) \<and> in_lang (RStar r) b)"
    using star_head [of r c s] in_lang.star [of r "c # _"] by auto
  then show ?case using RStar by (simp add: in_lang_Seq)
qed auto

lemma fullmatch_lang: "fullmatch r s \<longleftrightarrow> in_lang r s"
  by (induction s arbitrary: r) (simp_all add: nullable_lang deriv_lang)

subsection \<open>What bounded repetitions of a class match\<close>

lemma seq_cls:
  "in_lang (RSeq (RCls p) r) s \<longleftrightarrow> (case s of [] \<Rightarrow> False | c # t \<Rightarrow> p c \<and> in_lang r t)"
proof (cases s)
  case (Cons c t)
  then show ?thesis using seq_Cons [of "RCls p" r c t] by auto
qed (simp add: in_lang_Seq)

lemma exactly_cls: "in_lang (r_exactly n (RCls p)) s \<longleftrightarrow> length s = n \<and> list_all p s"
proof (induction n arbitrary: s)
  case (Suc n)
  then show ?case by (cases s) (auto simp: seq_cls)
qed auto

lemma upto_cls: "in_lang (r_upto n (RCls p)) s \<longleftrightarrow> length s \<le> n \<and> list_all p s"
proof (induction n arbitrary: s)
  case (Suc n)
  then show ?case by (cases s) (auto simp: seq_cls)
qed auto

lemma star_cls: "in_lang (RStar (RCls p)) s \<longleftrightarrow> list_all p s"
proof (induction s)
  case (Cons c s)
  then show ?case
    using star_head [of "RCls p" c s] in_lang.star [of "RCls p" "[c]" s] by auto
qed (auto intro: in_lang.star0)

lemma rep_cls: "m \<le> n \<Longrightarrow> in_lang (r_rep m n (RCls p)) s \<longleftrightarrow> m \<le> length s \<and> length s \<le> n \<and> list_all p s"
proof
  assume "m \<le> n" "m \<le> length s \<and> length s \<le> n \<and> list_all p s"
  then have "s = take m s @ drop m s" "in_lang (r_exactly m (RCls p)) (take m s)"
      "in_lang (r_upto (n - m) (RCls p)) (drop m s)"
    by (auto simp: exactly_cls upto_cls list_all_iff dest: in_set_takeD in_set_dropD)
  then show "in_lang (r_rep m n (RCls p)) s" unfolding r_rep_def in_lang_Seq by blast
qed (auto simp: r_rep_def in_lang_Seq exactly_cls upto_cls)

end
