(* ===== verification/Json.thy ===== *)
theory Json
  imports Utf8
begin

section \<open>JSON as Python's \<open>json\<close> module writes and reads it\<close>

text \<open>
  \<open>json.dumps(value, ensure_ascii=False, sort_keys=True, separators=(",", ":"))\<close> and
  \<open>json.loads(text)\<close> on texts as lists of code points. The reader accepts what the module's
  scanner accepts: \<open>NaN\<close>, \<open>Infinity\<close> and \<open>-Infinity\<close> besides the standard literals, surrogate
  pairs in escapes, and duplicate keys, of which the last wins. A number with more than 4300
  digits is refused with a plain \<open>ValueError\<close>, every other fault with \<open>JSONDecodeError\<close>.
  Floats are exact rationals; none of the values the code writes with the modelled calls has one,
  so the writer has no clause for them.
\<close>

datatype json =
    JNull | JBool bool | JInt int | JFloat rat | JConst string
  | JStr "codepoint list" | JArr "json list" | JObj "(codepoint list \<times> json) list"

datatype json_error = JSONDecodeError | IntDigitsError

definition cps :: "string \<Rightarrow> codepoint list" where
  "cps s = map of_char s"

subsection \<open>Writing\<close>

fun dec_digits :: "nat \<Rightarrow> codepoint list" where
  "dec_digits n = (if n < 10 then [48 + n] else dec_digits (n div 10) @ [48 + n mod 10])"

declare dec_digits.simps [simp del]

definition str_of_int :: "int \<Rightarrow> codepoint list" where
  "str_of_int i = (if i < 0 then 45 # dec_digits (nat (- i)) else dec_digits (nat i))"

definition hex_digit :: "nat \<Rightarrow> codepoint" where
  "hex_digit n = (if n < 10 then 48 + n else 87 + n)"

definition escape_cp :: "codepoint \<Rightarrow> codepoint list" where
  "escape_cp c = (if c = 34 then [92, 34] else if c = 92 then [92, 92] else if c = 10 then [92, 110]
     else if c = 13 then [92, 114] else if c = 9 then [92, 116] else if c = 12 then [92, 102]
     else if c = 8 then [92, 98]
     else if c < 32 then [92, 117, 48, 48, hex_digit (c div 16), hex_digit (c mod 16)] else [c])"

definition dump_str :: "codepoint list \<Rightarrow> codepoint list" where
  "dump_str s = 34 # concat (map escape_cp s) @ [34]"

fun join :: "'a list \<Rightarrow> 'a list list \<Rightarrow> 'a list" where
  "join sep [] = []"
| "join sep [x] = x"
| "join sep (x # y # xs) = x @ sep @ join sep (y # xs)"

fun json_dumps :: "json \<Rightarrow> codepoint list" where
  "json_dumps JNull = cps ''null''"
| "json_dumps (JBool b) = cps (if b then ''true'' else ''false'')"
| "json_dumps (JInt i) = str_of_int i"
| "json_dumps (JConst s) = cps s"
| "json_dumps (JStr s) = dump_str s"
| "json_dumps (JArr vs) = [91] @ join [44] (map json_dumps vs) @ [93]"
| "json_dumps (JObj ms) = [123] @ join [44] (map (\<lambda>(k, v). dump_str k @ [58] @ json_dumps v) ms) @ [125]"

subsection \<open>Reading\<close>

definition is_ws :: "codepoint \<Rightarrow> bool" where
  "is_ws c \<longleftrightarrow> c = 32 \<or> c = 9 \<or> c = 10 \<or> c = 13"

definition skip_ws :: "codepoint list \<Rightarrow> codepoint list" where
  "skip_ws s = dropWhile is_ws s"

definition is_digit :: "codepoint \<Rightarrow> bool" where
  "is_digit c \<longleftrightarrow> 48 \<le> c \<and> c \<le> 57"

definition hex_val :: "codepoint \<Rightarrow> nat option" where
  "hex_val c = (if is_digit c then Some (c - 48) else if 97 \<le> c \<and> c \<le> 102 then Some (c - 87)
     else if 65 \<le> c \<and> c \<le> 70 then Some (c - 55) else None)"

definition hex4 :: "codepoint \<Rightarrow> codepoint \<Rightarrow> codepoint \<Rightarrow> codepoint \<Rightarrow> nat option" where
  "hex4 a b c d = (case (hex_val a, hex_val b, hex_val c, hex_val d) of
     (Some a, Some b, Some c, Some d) \<Rightarrow> Some (((a * 16 + b) * 16 + c) * 16 + d) | _ \<Rightarrow> None)"

definition simple_escape :: "codepoint \<Rightarrow> codepoint option" where
  "simple_escape e = map_of [(34, 34), (92, 92), (47, 47), (98, 8), (102, 12), (110, 10), (114, 13), (116, 9)] e"

text \<open>An escaped low surrogate, the second half of a pair.\<close>

definition low_escape :: "codepoint list \<Rightarrow> nat option" where
  "low_escape zs = (case zs of b # e # l1 # l2 # l3 # l4 # _ \<Rightarrow>
       if b = 92 \<and> e = 117 then (case hex4 l1 l2 l3 l4 of None \<Rightarrow> None
         | Some v \<Rightarrow> if 0xDC00 \<le> v \<and> v \<le> 0xDFFF then Some v else None) else None
     | _ \<Rightarrow> None)"

text \<open>The rest of a string after its opening quote.\<close>

fun scan_string :: "codepoint list \<Rightarrow> (codepoint list \<times> codepoint list) option" where
  "scan_string [] = None"
| "scan_string (c # xs) =
     (if c = 34 then Some ([], xs)
      else if c < 32 then None
      else if c \<noteq> 92 then map_option (apfst (Cons c)) (scan_string xs)
      else case xs of [] \<Rightarrow> None | e # ys \<Rightarrow>
        (if e \<noteq> 117 then (case simple_escape e of None \<Rightarrow> None
           | Some x \<Rightarrow> map_option (apfst (Cons x)) (scan_string ys))
         else case ys of h1 # h2 # h3 # h4 # zs \<Rightarrow> (case hex4 h1 h2 h3 h4 of None \<Rightarrow> None
           | Some u \<Rightarrow> (case if 0xD800 \<le> u \<and> u \<le> 0xDBFF then low_escape zs else None of
               Some v \<Rightarrow> map_option (apfst (Cons (0x10000 + (u - 0xD800) * 1024 + (v - 0xDC00)))) (scan_string (drop 6 zs))
             | None \<Rightarrow> map_option (apfst (Cons u)) (scan_string zs)))
          | _ \<Rightarrow> None))"

definition dec_val :: "codepoint list \<Rightarrow> nat" where
  "dec_val ds = foldl (\<lambda>n d. 10 * n + (d - 48)) 0 ds"

definition scan_exp :: "codepoint list \<Rightarrow> (int \<times> codepoint list) option" where
  "scan_exp xs = (case xs of c # ys \<Rightarrow> if c = 101 \<or> c = 69
       then let (sg, zs) = (case ys of s # zs \<Rightarrow> if s = 45 then (-1, zs) else if s = 43 then (1, zs) else (1, ys)
                            | [] \<Rightarrow> (1, ys));
                ds = takeWhile is_digit zs
            in if ds = [] then None else Some (sg * int (dec_val ds), dropWhile is_digit zs)
       else None | [] \<Rightarrow> None)"

definition scan_frac :: "codepoint list \<Rightarrow> (codepoint list \<times> codepoint list) option" where
  "scan_frac xs = (case xs of c # ys \<Rightarrow> if c = 46 \<and> takeWhile is_digit ys \<noteq> []
       then Some (takeWhile is_digit ys, dropWhile is_digit ys) else None | [] \<Rightarrow> None)"

definition pow10 :: "int \<Rightarrow> rat" where
  "pow10 e = (if 0 \<le> e then 10 ^ nat e else 1 / 10 ^ nat (- e))"

definition scan_number :: "codepoint list \<Rightarrow> json_error + json \<times> codepoint list" where
  "scan_number xs =
     (let neg = (case xs of c # _ \<Rightarrow> c = 45 | [] \<Rightarrow> False);
          ys = (if neg then tl xs else xs);
          ds = (case ys of c # _ \<Rightarrow> if c = 48 then [48] else takeWhile is_digit ys | [] \<Rightarrow> []);
          zs = drop (length ds) ys;
          sg = (if neg then -1 else 1) :: int
      in if ds = [] then Inl JSONDecodeError
         else case (scan_frac zs, scan_exp (case scan_frac zs of None \<Rightarrow> zs | Some (_, r) \<Rightarrow> r)) of
           (None, None) \<Rightarrow> if 4300 < length ds then Inl IntDigitsError
              else Inr (JInt (sg * int (dec_val ds)), zs)
         | (fr, ex) \<Rightarrow>
              let fd = (case fr of None \<Rightarrow> [] | Some (f, _) \<Rightarrow> f);
                  (e, r) = (case ex of None \<Rightarrow> (0, case fr of None \<Rightarrow> zs | Some (_, r) \<Rightarrow> r) | Some (e, r) \<Rightarrow> (e, r))
              in Inr (JFloat (of_int sg * of_nat (dec_val (ds @ fd)) * pow10 (e - int (length fd))), r))"

definition literals :: "bool \<Rightarrow> (codepoint list \<times> json) list" where
  "literals cs = [(cps ''null'', JNull), (cps ''true'', JBool True), (cps ''false'', JBool False)]
     @ (if cs then [(cps ''NaN'', JConst ''NaN''), (cps ''Infinity'', JConst ''Infinity''),
     (cps ''-Infinity'', JConst ''-Infinity'')] else [])"

definition scan_literal :: "bool \<Rightarrow> codepoint list \<Rightarrow> (json \<times> codepoint list) option" where
  "scan_literal cs xs = (case find (\<lambda>(l, v). take (length l) xs = l) (literals cs) of
     None \<Rightarrow> None | Some (l, v) \<Rightarrow> Some (v, drop (length l) xs))"

text \<open>A dict built from the members in order: a repeated key keeps its place and takes the last value.\<close>

definition dict_put :: "'k \<Rightarrow> 'v \<Rightarrow> ('k \<times> 'v) list \<Rightarrow> ('k \<times> 'v) list" where
  "dict_put k v ms = (if k \<in> set (map fst ms) then map (\<lambda>(a, b). (a, if a = k then v else b)) ms
     else ms @ [(k, v)])"

definition dict_of :: "('k \<times> 'v) list \<Rightarrow> ('k \<times> 'v) list" where
  "dict_of ms = foldl (\<lambda>d (k, v). dict_put k v d) [] ms"

text \<open>The recursion of the scanner, with a flag that says whether the non-standard constants are read or,
  with a \<open>parse_constant\<close> that raises, refused, and with the number of nested or following values as fuel.\<close>

fun scan_value :: "bool \<Rightarrow> nat \<Rightarrow> codepoint list \<Rightarrow> json_error + json \<times> codepoint list"
and scan_items :: "bool \<Rightarrow> nat \<Rightarrow> codepoint list \<Rightarrow> json_error + json list \<times> codepoint list"
and scan_members :: "bool \<Rightarrow> nat \<Rightarrow> codepoint list \<Rightarrow> json_error + (codepoint list \<times> json) list \<times> codepoint list"
where
  "scan_value cs 0 xs = Inl JSONDecodeError"
| "scan_value cs (Suc n) xs = (case xs of [] \<Rightarrow> Inl JSONDecodeError
   | c # ys \<Rightarrow>
      if c = 34 then (case scan_string ys of None \<Rightarrow> Inl JSONDecodeError | Some (s, r) \<Rightarrow> Inr (JStr s, r))
      else if c = 91 then (case skip_ws ys of
          [] \<Rightarrow> Inl JSONDecodeError
        | d # zs \<Rightarrow> if d = 93 then Inr (JArr [], zs)
            else res_bind (scan_items cs n (d # zs)) (\<lambda>(vs, r). Inr (JArr vs, r)))
      else if c = 123 then (case skip_ws ys of
          [] \<Rightarrow> Inl JSONDecodeError
        | d # zs \<Rightarrow> if d = 125 then Inr (JObj [], zs)
            else res_bind (scan_members cs n (d # zs)) (\<lambda>(ms, r). Inr (JObj (dict_of ms), r)))
      else case scan_literal cs xs of Some (v, r) \<Rightarrow> Inr (v, r) | None \<Rightarrow> scan_number xs)"
| "scan_items cs 0 xs = Inl JSONDecodeError"
| "scan_items cs (Suc n) xs = res_bind (scan_value cs n xs) (\<lambda>(v, r). case skip_ws r of
      [] \<Rightarrow> Inl JSONDecodeError
    | c # zs \<Rightarrow> if c = 93 then Inr ([v], zs)
        else if c = 44 then res_bind (scan_items cs n (skip_ws zs)) (\<lambda>(vs, r). Inr (v # vs, r))
        else Inl JSONDecodeError)"
| "scan_members cs 0 xs = Inl JSONDecodeError"
| "scan_members cs (Suc n) xs = (case xs of [] \<Rightarrow> Inl JSONDecodeError
   | q # ys \<Rightarrow> if q \<noteq> 34 then Inl JSONDecodeError
     else case scan_string ys of None \<Rightarrow> Inl JSONDecodeError
     | Some (k, r) \<Rightarrow> (case skip_ws r of [] \<Rightarrow> Inl JSONDecodeError
       | c # zs \<Rightarrow> if c \<noteq> 58 then Inl JSONDecodeError
           else res_bind (scan_value cs n (skip_ws zs)) (\<lambda>(v, r). case skip_ws r of
               [] \<Rightarrow> Inl JSONDecodeError
             | c # zs \<Rightarrow> if c = 125 then Inr ([(k, v)], zs)
                 else if c = 44 then res_bind (scan_members cs n (skip_ws zs)) (\<lambda>(ms, r). Inr ((k, v) # ms, r))
                 else Inl JSONDecodeError)))"

definition json_loads_with :: "bool \<Rightarrow> codepoint list \<Rightarrow> json_error + json" where
  "json_loads_with cs xs = res_bind (scan_value cs (2 * length xs + 1) (skip_ws xs))
     (\<lambda>(v, r). if skip_ws r = [] then Inr v else Inl JSONDecodeError)"

definition json_loads :: "codepoint list \<Rightarrow> json_error + json" where
  "json_loads xs = json_loads_with True xs"

text \<open>\<open>dict.get\<close>.\<close>

fun json_get :: "codepoint list \<Rightarrow> json \<Rightarrow> json option" where
  "json_get k (JObj ms) = map_of ms k"
| "json_get k v = None"


section \<open>Reading back what was written\<close>

lemma dec_digits_digit: "c \<in> set (dec_digits n) \<Longrightarrow> is_digit c"
  by (induction n rule: dec_digits.induct)
    (subst (asm) dec_digits.simps, auto simp: is_digit_def split: if_splits)

lemma dec_digits_nonempty [simp]: "dec_digits n \<noteq> []"
  by (subst dec_digits.simps) simp

lemma dec_val_append [simp]: "dec_val (ds @ [d]) = 10 * dec_val ds + (d - 48)"
  by (simp add: dec_val_def)

lemma dec_val_digits [simp]: "dec_val (dec_digits n) = n"
proof (induction n rule: dec_digits.induct)
  case (1 n)
  show ?case
    by (subst dec_digits.simps) (use 1 in \<open>auto simp: dec_val_def [of "[_]"]\<close>)
qed

lemma dec_digits_hd: "0 < n \<Longrightarrow> hd (dec_digits n) \<noteq> 48"
proof (induction n rule: dec_digits.induct)
  case (1 n)
  show ?case
    by (subst dec_digits.simps) (use 1 in \<open>auto simp: hd_append\<close>)
qed

lemma dec_digits_length: "n < 10 ^ k \<Longrightarrow> 0 < k \<Longrightarrow> length (dec_digits n) \<le> k"
proof (induction n arbitrary: k rule: dec_digits.induct)
  case (1 n)
  show ?case
  proof (cases "n < 10")
    case False
    then obtain j where j: "k = Suc j" "0 < j"
      using 1(2) by (cases k; cases "k = 1") auto
    have "n div 10 < 10 ^ j" using 1(2) j by (auto simp: less_mult_imp_div_less mult.commute)
    then show ?thesis using 1(1) [OF False] j False by (subst dec_digits.simps) simp
  qed (use 1(3) in \<open>simp add: dec_digits.simps\<close>)
qed

lemma dec_digits_int: "\<bar>i\<bar> < 10 ^ k \<Longrightarrow> 0 < k \<Longrightarrow> length (dec_digits (nat \<bar>i\<bar>)) \<le> k"
  using dec_digits_length [of "nat \<bar>i\<bar>" k] by (simp add: nat_less_iff)

text \<open>The limit of \<open>sys.get_int_max_str_digits()\<close>.\<close>

definition int_limit :: int where
  "int_limit = 10 ^ 4300"

lemma int_limitI: "\<bar>i\<bar> < 10 ^ k \<Longrightarrow> k \<le> 4300 \<Longrightarrow> \<bar>i\<bar> < int_limit"
  unfolding int_limit_def by (rule less_le_trans, assumption, rule power_increasing) simp_all

text \<open>What may follow a value inside a document.\<close>

definition stop :: "codepoint list \<Rightarrow> bool" where
  "stop r \<longleftrightarrow> (case r of [] \<Rightarrow> True | c # _ \<Rightarrow> c \<in> {44, 93, 125})"

lemma stop_simps [simp]: "stop []" "stop (44 # r)" "stop (93 # r)" "stop (125 # r)"
  by (simp_all add: stop_def)

lemma stop_scans: "stop r \<Longrightarrow> scan_frac r = None \<and> scan_exp r = None \<and> takeWhile is_digit r = []"
  by (cases r) (auto simp: stop_def scan_frac_def scan_exp_def is_digit_def)

lemma takeWhile_digits: "stop r \<Longrightarrow> takeWhile is_digit (dec_digits n @ r) = dec_digits n"
  using dec_digits_digit stop_scans by (simp add: takeWhile_append)

lemma dec_digits_Cons: obtains d ds where "dec_digits n = d # ds" "is_digit d" "d = 48 \<longleftrightarrow> n = 0" "d = 48 \<longrightarrow> ds = []"
proof (cases "dec_digits n")
  case (Cons d ds)
  have "is_digit d" using dec_digits_digit [of d n] Cons by simp
  moreover have "d = 48 \<longleftrightarrow> n = 0"
    using dec_digits_hd [of n] Cons by (cases "n = 0") (auto simp: dec_digits.simps)
  moreover have "ds = []" if "d = 48"
    using that calculation Cons by (auto simp: dec_digits.simps)
  ultimately show thesis using that Cons by blast
qed simp

lemma scan_number_int:
  assumes "stop r" "\<bar>i\<bar> < int_limit"
  shows "scan_number (str_of_int i @ r) = Inr (JInt i, r)"
proof -
  define n where "n = nat \<bar>i\<bar>"
  obtain d ds where d: "dec_digits n = d # ds" "is_digit d" "d = 48 \<longleftrightarrow> n = 0" "d = 48 \<longrightarrow> ds = []"
    by (rule dec_digits_Cons [of n])
  have len: "length (d # ds) \<le> 4300"
    using dec_digits_int [OF assms(2) [unfolded int_limit_def]] d(1) unfolding n_def by simp
  have tw: "takeWhile is_digit (d # ds @ r) = d # ds"
    using takeWhile_digits [OF assms(1), of n] d(1) by simp
  have val: "dec_val (d # ds) = n" using d(1) dec_val_digits [of n] by simp
  have str: "str_of_int i = (if i < 0 then 45 # d # ds else d # ds)"
    using d(1) by (cases "i < 0") (simp_all add: str_of_int_def n_def)
  have d45: "d \<noteq> 45" using d(2) by (auto simp: is_digit_def)
  have i: "i = (if i < 0 then - int n else int n)" by (simp add: n_def)
  show ?thesis
    unfolding scan_number_def str
    using stop_scans [OF assms(1)] len tw val d45 d(4) i
    by (cases "d = 48"; cases "i < 0") (simp_all add: Let_def)
qed

lemma hex_val_digit: "n < 16 \<Longrightarrow> hex_val (hex_digit n) = Some n"
  by (auto simp: hex_val_def hex_digit_def is_digit_def)

lemma scan_string_escape:
  "scan_string (escape_cp c @ xs) = map_option (apfst (Cons c)) (scan_string xs)"
proof -
  have "hex4 48 48 (hex_digit (c div 16)) (hex_digit (c mod 16)) = Some c" if "c < 32"
  proof -
    have "hex_val 48 = Some 0" by (simp add: hex_val_def is_digit_def)
    moreover have "c div 16 < 16" using that by (simp add: less_mult_imp_div_less)
    ultimately show ?thesis using that by (simp add: hex4_def hex_val_digit)
  qed
  then show ?thesis
    by (auto simp: escape_cp_def simple_escape_def)
qed

lemma scan_string_dump: "scan_string (concat (map escape_cp s) @ 34 # r) = Some (s, r)"
  by (induction s) (simp_all add: scan_string_escape)

text \<open>Values whose printed form reads back: no float, no odd constant, distinct keys, and
  integers within the reader's limit.\<close>

fun json_plain :: "json \<Rightarrow> bool" where
  "json_plain (JInt i) \<longleftrightarrow> \<bar>i\<bar> < int_limit"
| "json_plain (JFloat x) \<longleftrightarrow> False"
| "json_plain (JConst s) \<longleftrightarrow> False"
| "json_plain (JArr vs) \<longleftrightarrow> (\<forall>v \<in> set vs. json_plain v)"
| "json_plain (JObj ms) \<longleftrightarrow> distinct (map fst ms) \<and> (\<forall>m \<in> set ms. json_plain (snd m))"
| "json_plain v \<longleftrightarrow> True"

lemma dict_of_distinct: "distinct (map fst ms) \<Longrightarrow> dict_of ms = ms"
proof -
  have "foldl (\<lambda>d (k, v). dict_put k v d) d ms = d @ ms"
    if "distinct (map fst (d @ ms))" for d :: "('k \<times> 'v) list" and ms
    using that
  proof (induction ms arbitrary: d)
    case (Cons m ms)
    then show ?case using Cons.IH [of "d @ [m]"] by (cases m) (auto simp: dict_put_def)
  qed simp
  from this [of "[]" ms] show "distinct (map fst ms) \<Longrightarrow> dict_of ms = ms" by (simp add: dict_of_def)
qed

text \<open>A printed value starts with a character that is neither white space nor a closing bracket.\<close>

lemma dump_head:
  assumes "json_plain v"
  obtains c ds where "json_dumps v = c # ds" "\<not> is_ws c" "c \<notin> {93, 125, 44}"
proof (cases v)
  case (JInt i)
  obtain d ds where d: "dec_digits (nat \<bar>i\<bar>) = d # ds" "is_digit d" by (rule dec_digits_Cons)
  have "json_dumps v = (if i < 0 then 45 # d # ds else d # ds)"
    using d(1) JInt by (cases "i < 0") (simp_all add: str_of_int_def)
  then show thesis using that d(2) by (auto simp: is_ws_def is_digit_def split: if_splits)
next
  case (JBool b)
  then show thesis using that by (cases b) (auto simp: cps_def is_ws_def)
qed (use assms that in \<open>auto simp: cps_def dump_str_def is_ws_def\<close>)

lemma skip_ws_head [simp]: "\<not> is_ws c \<Longrightarrow> skip_ws (c # ds) = c # ds"
  by (simp add: skip_ws_def)

lemma skip_ws_dump [simp]: "json_plain v \<Longrightarrow> skip_ws (json_dumps v @ r) = json_dumps v @ r"
  using dump_head [of v] by (metis append_Cons skip_ws_head)

lemma skip_ws_punct [simp]:
  "skip_ws (34 # r) = 34 # r" "skip_ws (44 # r) = 44 # r" "skip_ws (58 # r) = 58 # r"
  "skip_ws (93 # r) = 93 # r" "skip_ws (125 # r) = 125 # r" "skip_ws [] = []"
  by (simp_all add: skip_ws_def is_ws_def)

lemma scan_literal_none: "is_digit c \<Longrightarrow> scan_literal cs (c # xs) = None"
  by (auto simp: scan_literal_def literals_def cps_def is_digit_def)

lemma scan_literal_neg: "is_digit c \<Longrightarrow> scan_literal cs (45 # c # xs) = None"
  by (auto simp: scan_literal_def literals_def cps_def is_digit_def)

lemma scan_value_int:
  assumes "stop r" "\<bar>i\<bar> < int_limit"
  shows "scan_value cs (Suc n) (str_of_int i @ r) = Inr (JInt i, r)"
proof -
  obtain d ds where d: "dec_digits (nat \<bar>i\<bar>) = d # ds" "is_digit d" by (rule dec_digits_Cons)
  have str: "str_of_int i = (if i < 0 then 45 # d # ds else d # ds)"
    using d(1) by (cases "i < 0") (simp_all add: str_of_int_def)
  show ?thesis
    using scan_number_int [OF assms] scan_literal_none [OF d(2)] scan_literal_neg [OF d(2)] d(2)
    unfolding str by (auto simp: is_digit_def split: if_splits)
qed

fun json_fuel :: "json \<Rightarrow> nat" where
  "json_fuel (JArr vs) = Suc (sum_list (map (\<lambda>v. Suc (json_fuel v)) vs))"
| "json_fuel (JObj ms) = Suc (sum_list (map (\<lambda>m. Suc (json_fuel (snd m))) ms))"
| "json_fuel v = 1"

definition dump_member :: "codepoint list \<times> json \<Rightarrow> codepoint list" where
  "dump_member m = dump_str (fst m) @ [58] @ json_dumps (snd m)"

lemma dump_members: "map (\<lambda>(k, v). dump_str k @ 58 # json_dumps v) ms = map dump_member ms"
  by (auto simp: dump_member_def)

lemma scan_items_dump:
  assumes "\<And>v n r. v \<in> set vs \<Longrightarrow> json_fuel v \<le> n \<Longrightarrow> stop r \<Longrightarrow> scan_value cs n (json_dumps v @ r) = Inr (v, r)"
    and "\<forall>v \<in> set vs. json_plain v" "vs \<noteq> []" "sum_list (map (\<lambda>v. Suc (json_fuel v)) vs) \<le> n"
  shows "scan_items cs n (join [44] (map json_dumps vs) @ 93 # r) = Inr (vs, r)"
  using assms
proof (induction vs arbitrary: n)
  case (Cons v vs)
  then obtain m where n: "n = Suc m" "json_fuel v + sum_list (map (\<lambda>v. Suc (json_fuel v)) vs) \<le> m"
    by (cases n) auto
  show ?case
  proof (cases vs)
    case Nil
    then show ?thesis using n Cons.prems(1) [of v m "93 # r"] by simp
  next
    case (Cons v2 vs2)
    then show ?thesis
      using n Cons.prems Cons.prems(1) [of v m "44 # join [44] (map json_dumps vs) @ 93 # r"] Cons.IH [of m]
        skip_ws_dump [of v2] dump_head [of v2]
      by (cases vs2) auto
  qed
qed simp

lemma scan_members_dump:
  assumes "\<And>m n r. m \<in> set ms \<Longrightarrow> json_fuel (snd m) \<le> n \<Longrightarrow> stop r \<Longrightarrow>
      scan_value cs n (json_dumps (snd m) @ r) = Inr (snd m, r)"
    and "\<forall>m \<in> set ms. json_plain (snd m)" "ms \<noteq> []"
      "sum_list (map (\<lambda>m. Suc (json_fuel (snd m))) ms) \<le> n"
  shows "scan_members cs n (join [44] (map dump_member ms) @ 125 # r) = Inr (ms, r)"
  using assms
proof (induction ms arbitrary: n)
  case (Cons m ms)
  then obtain j where n: "n = Suc j" "json_fuel (snd m) + sum_list (map (\<lambda>m. Suc (json_fuel (snd m))) ms) \<le> j"
    by (cases n) auto
  have key: "scan_string (concat (map escape_cp (fst m)) @ 34 # xs) = Some (fst m, xs)" for xs
    by (rule scan_string_dump)
  have val: "scan_value cs j (skip_ws (json_dumps (snd m) @ xs)) = Inr (snd m, xs)" if "stop xs" for xs
    using Cons.prems(1) [of m j xs] Cons.prems(2) n(2) that by simp
  show ?case
  proof (cases ms)
    case Nil
    then show ?thesis using n key val [of "125 # r"] by (simp add: dump_member_def dump_str_def)
  next
    case (Cons m2 ms2)
    have "scan_members cs j (join [44] (map dump_member ms) @ 125 # r) = Inr (ms, r)"
      using Cons.IH [of j] Cons.prems n(2) Cons by simp
    moreover have "skip_ws (join [44] (map dump_member ms) @ 125 # r) = join [44] (map dump_member ms) @ 125 # r"
      by (cases ms2) (simp_all add: Cons dump_member_def dump_str_def)
    ultimately show ?thesis
      using n key val [of "44 # join [44] (map dump_member ms) @ 125 # r"] Cons
      by (simp add: dump_member_def [of m] dump_str_def)
  qed
qed simp


lemma scan_value_dump:
  "json_plain v \<Longrightarrow> json_fuel v \<le> n \<Longrightarrow> stop r \<Longrightarrow> scan_value cs n (json_dumps v @ r) = Inr (v, r)"
proof (induction v arbitrary: n r)
  case (JInt i)
  then show ?case using scan_value_int [of r i] by (cases n) auto
next
  case (JArr vs)
  then obtain m where n: "n = Suc m" "sum_list (map (\<lambda>v. Suc (json_fuel v)) vs) \<le> m" by (cases n) auto
  show ?case
  proof (cases vs)
    case (Cons v vs2)
    have head: "skip_ws (join [44] (map json_dumps vs) @ 93 # r) = join [44] (map json_dumps vs) @ 93 # r"
      "\<exists>c xs. join [44] (map json_dumps vs) @ 93 # r = c # xs \<and> c \<noteq> 93"
    proof -
      have "json_plain v" using JArr.prems(1) Cons by simp
      then obtain c ds where "json_dumps v = c # ds" "\<not> is_ws c" "c \<notin> {93, 125, 44}" by (rule dump_head)
      then show "skip_ws (join [44] (map json_dumps vs) @ 93 # r) = join [44] (map json_dumps vs) @ 93 # r"
        "\<exists>c xs. join [44] (map json_dumps vs) @ 93 # r = c # xs \<and> c \<noteq> 93"
        unfolding Cons by (cases vs2; simp)+
    qed
    have "scan_items cs m (join [44] (map json_dumps vs) @ 93 # r) = Inr (vs, r)"
      by (rule scan_items_dump) (use JArr n Cons in auto)
    then show ?thesis using head n(1) by auto
  qed (use n in simp)
next
  case (JObj ms)
  then obtain m where n: "n = Suc m" "sum_list (map (\<lambda>m. Suc (json_fuel (snd m))) ms) \<le> m" by (cases n) auto
  show ?case
  proof (cases ms)
    case (Cons a ms2)
    have head: "\<exists>xs. join [44] (map dump_member ms) @ 125 # r = 34 # xs"
      using Cons by (cases ms2) (auto simp: dump_member_def dump_str_def)
    have "scan_members cs m (join [44] (map dump_member ms) @ 125 # r) = Inr (ms, r)"
    proof (rule scan_members_dump)
      fix a n r assume "a \<in> set ms" "json_fuel (snd a) \<le> n" "stop r"
      then show "scan_value cs n (json_dumps (snd a) @ r) = Inr (snd a, r)"
        using JObj.prems(1) by (intro JObj.IH [of a]) (auto simp: snds.simps)
    qed (use JObj.prems(1) n Cons in auto)
    then show ?thesis using head n(1) JObj.prems(1) by (auto simp: dump_members dict_of_distinct)
  qed (use n in simp)
next
  case (JStr s)
  then show ?case by (cases n) (auto simp: dump_str_def scan_string_dump)
qed (auto simp: scan_literal_def literals_def cps_def gr0_conv_Suc Suc_le_eq)

lemma length_join:
  "length (join [c] xs) + (if xs = [] then 0 else 1) = sum_list (map (\<lambda>x. Suc (length x)) xs)"
  by (induction "[c]" xs rule: join.induct) auto

lemma json_fuel_length: "json_plain v \<Longrightarrow> json_fuel v \<le> 2 * length (json_dumps v)"
proof (induction v)
  case (JArr vs)
  have "sum_list (map (\<lambda>v. Suc (json_fuel v)) vs) \<le> sum_list (map (\<lambda>v. 2 * Suc (length (json_dumps v))) vs)"
    by (rule sum_list_mono) (use JArr in fastforce)
  also have "\<dots> = 2 * sum_list (map (\<lambda>x. Suc (length x)) (map json_dumps vs))"
    by (induction vs) auto
  finally show ?case using length_join [of 44 "map json_dumps vs"] by (auto split: if_splits)
next
  case (JObj ms)
  have "sum_list (map (\<lambda>m. Suc (json_fuel (snd m))) ms) \<le> sum_list (map (\<lambda>m. 2 * Suc (length (dump_member m))) ms)"
  proof (rule sum_list_mono)
    fix m assume m: "m \<in> set ms"
    then have "json_fuel (snd m) \<le> 2 * length (json_dumps (snd m))"
      using JObj.prems by (intro JObj.IH [of m]) (auto simp: snds.simps)
    then show "Suc (json_fuel (snd m)) \<le> 2 * Suc (length (dump_member m))" by (simp add: dump_member_def)
  qed
  also have "\<dots> = 2 * sum_list (map (\<lambda>x. Suc (length x)) (map dump_member ms))"
    by (induction ms) auto
  finally show ?case using length_join [of 44 "map dump_member ms"] by (auto simp: dump_members split: if_splits)
next
  case (JInt i)
  then show ?case by (auto simp: str_of_int_def Suc_le_eq)
qed (auto simp: cps_def dump_str_def)

lemma json_with_roundtrip:
  assumes "json_plain v"
  shows "json_loads_with cs (json_dumps v) = Inr v"
proof -
  have "scan_value cs (2 * length (json_dumps v) + 1) (json_dumps v @ []) = Inr (v, [])"
    by (rule scan_value_dump) (use assms json_fuel_length [OF assms] in auto)
  then show ?thesis using skip_ws_dump [OF assms, of "[]"] by (simp add: json_loads_with_def)
qed

lemma json_roundtrip: "json_plain v \<Longrightarrow> json_loads (json_dumps v) = Inr v"
  by (simp add: json_loads_def json_with_roundtrip)

lemma json_dumps_inj: "json_plain v \<Longrightarrow> json_plain w \<Longrightarrow> json_dumps v = json_dumps w \<longleftrightarrow> v = w"
  using json_roundtrip by (metis Inr_inject)


subsection \<open>Printed values as UTF-8\<close>

fun json_scalar :: "json \<Rightarrow> bool" where
  "json_scalar (JStr s) \<longleftrightarrow> list_all scalar_value s"
| "json_scalar (JArr vs) \<longleftrightarrow> (\<forall>v \<in> set vs. json_scalar v)"
| "json_scalar (JObj ms) \<longleftrightarrow> (\<forall>m \<in> set ms. list_all scalar_value (fst m) \<and> json_scalar (snd m))"
| "json_scalar v \<longleftrightarrow> True"

lemma scalar_small: "c < 256 \<Longrightarrow> scalar_value c"
  by (simp add: scalar_value_def)

lemma cps_scalar [simp]: "list_all scalar_value (cps s)"
  by (auto simp: cps_def list_all_iff intro!: scalar_small)

lemma cps_inj [simp]: "cps s = cps t \<longleftrightarrow> s = t"
  unfolding cps_def by (rule inj_map_eq_map) (rule inj_of_char)

lemma join_scalar: "list_all scalar_value sep \<Longrightarrow> \<forall>x \<in> set xs. list_all scalar_value x \<Longrightarrow> list_all scalar_value (join sep xs)"
  by (induction sep xs rule: join.induct) auto

lemma escape_scalar: "scalar_value c \<Longrightarrow> list_all scalar_value (escape_cp c)"
proof -
  have "scalar_value (hex_digit n)" if "n < 16" for n using that by (simp add: hex_digit_def scalar_small)
  then show "scalar_value c \<Longrightarrow> list_all scalar_value (escape_cp c)"
    by (simp add: escape_cp_def scalar_small less_mult_imp_div_less)
qed

lemma dump_str_scalar: "list_all scalar_value s \<Longrightarrow> list_all scalar_value (dump_str s)"
  by (induction s) (auto simp: dump_str_def escape_scalar scalar_small)

lemma dec_digits_scalar: "list_all scalar_value (dec_digits n)"
  using dec_digits_digit by (fastforce simp: list_all_iff is_digit_def intro!: scalar_small)

lemma json_dumps_scalar: "json_plain v \<Longrightarrow> json_scalar v \<Longrightarrow> list_all scalar_value (json_dumps v)"
proof (induction v)
  case (JInt i)
  then show ?case using dec_digits_scalar by (simp add: str_of_int_def scalar_small)
next
  case (JArr vs)
  then show ?case by (auto intro!: join_scalar simp: scalar_small)
next
  case (JObj ms)
  have "list_all scalar_value (dump_member m)" if "m \<in> set ms" for m
  proof -
    have "list_all scalar_value (json_dumps (snd m))"
      using JObj.prems that by (intro JObj.IH [of m]) (auto simp: snds.simps)
    then show ?thesis using JObj.prems(2) that by (simp add: dump_member_def dump_str_scalar scalar_small)
  qed
  then have "list_all scalar_value (join [44] (map dump_member ms))"
    by (intro join_scalar) (auto simp: scalar_small)
  then show ?case by (simp add: dump_members scalar_small)
qed (auto simp: dump_str_scalar)

lemma utf8_encode_inj:
  "list_all scalar_value cs \<Longrightarrow> list_all scalar_value ds \<Longrightarrow> utf8_encode cs = utf8_encode ds \<Longrightarrow> cs = ds"
  using utf8_decode_encode by (metis option.inject)

lemma json_bytes_inj:
  assumes "json_plain v" "json_scalar v" "json_plain w" "json_scalar w"
    and "utf8_encode (json_dumps v) = utf8_encode (json_dumps w)"
  shows "v = w"
  using assms utf8_encode_inj json_dumps_scalar json_dumps_inj by metis

text \<open>Objects whose members are given in one order of keys are equal once they are sorted only if
  they are equal member by member.\<close>

lemma sorted_members_inj:
  fixes xs ys :: "('k :: linorder \<times> 'v) list"
  assumes "sort_key fst xs = sort_key fst ys" "map fst xs = map fst ys" "distinct (map fst xs)"
  shows "xs = ys"
proof -
  have sets: "set xs = set ys" using assms(1) by (metis set_sort)
  have len: "length xs = length ys" using assms(2) by (metis length_map)
  have "xs ! i = ys ! i" if i: "i < length xs" for i
  proof -
    have "xs ! i \<in> set ys" using sets i by (metis nth_mem)
    then obtain j where j: "j < length ys" "ys ! j = xs ! i" by (auto simp: in_set_conv_nth)
    have "map fst ys ! j = map fst ys ! i" using j i len assms(2) by (metis nth_map)
    then have "j = i" using assms(2,3) j(1) i len by (metis nth_eq_iff_index_eq length_map)
    then show ?thesis using j(2) by simp
  qed
  then show ?thesis using len by (intro nth_equalityI) auto
qed

end
