(* ===== verification/Search_Domain.thy ===== *)
theory Search_Domain
  imports Common Regex Json Sha256 "HOL-Library.List_Lexorder"
begin

section \<open>Search values, provider registry and service policy\<close>

text \<open>
  \<open>domain/search/models.py\<close>, \<open>application/search/models.py\<close>, \<open>language.py\<close>, \<open>registry.py\<close>, the
  value types of \<open>ports.py\<close> and \<open>SearchServicePolicy\<close> of \<open>service.py\<close>. A value class with checks at
  construction is a record and a predicate \<open>..._ok\<close>. The BCP 47 tables of the \<open>langcodes\<close> package
  are the arguments \<open>tag_is_valid\<close> and \<open>to_tag\<close>.
\<close>

subsection \<open>Domain values (domain/search/models.py)\<close>

datatype SearchProviderId = SEARXNG | YANDEX

datatype SearchProviderSelection = SEL_DEFAULT | SEL_SEARXNG | SEL_YANDEX

datatype SearchSafeMode = SAFE_OFF | SAFE_MODERATE | SAFE_STRICT

datatype SearchTimeRange = RANGE_DAY | RANGE_MONTH | RANGE_YEAR

fun provider_value :: "SearchProviderId \<Rightarrow> string" where
  "provider_value SEARXNG = ''searxng''"
| "provider_value YANDEX = ''yandex''"

fun safe_value :: "SearchSafeMode \<Rightarrow> string" where
  "safe_value SAFE_OFF = ''off''"
| "safe_value SAFE_MODERATE = ''moderate''"
| "safe_value SAFE_STRICT = ''strict''"

fun range_value :: "SearchTimeRange \<Rightarrow> string" where
  "range_value RANGE_DAY = ''day''"
| "range_value RANGE_MONTH = ''month''"
| "range_value RANGE_YEAR = ''year''"

definition region_rx :: rx where
  "region_rx = RSeq (RCls (\<lambda>c. ascii_lower c \<or> ascii_digit c))
     (r_rep 0 63 (RCls (\<lambda>c. ascii_lower c \<or> ascii_digit c \<or> c = CHR ''-'')))"

definition language_rx :: rx where
  "language_rx = RSeq (r_rep 2 8 (RCls ascii_lower))
     (RSeq (r_opt (RSeq (r_char CHR ''-'') (RSeq (RCls ascii_upper) (r_exactly 3 (RCls ascii_lower)))))
     (RSeq (r_opt (RSeq (r_char CHR ''-'') (RAlt (r_exactly 2 (RCls ascii_upper)) (r_exactly 3 (RCls ascii_digit)))))
       (RStar (RSeq (r_char CHR ''-'') (r_rep 1 8 (RCls ascii_alnum))))))"

type_synonym SearchLanguage = string
type_synonym SearchRegionId = string

definition search_language_ok :: "string \<Rightarrow> bool" where
  "search_language_ok v \<longleftrightarrow> 1 \<le> length v \<and> length v \<le> 64 \<and> fullmatch language_rx v"

definition search_region_ok :: "string \<Rightarrow> bool" where
  "search_region_ok v \<longleftrightarrow> fullmatch region_rx v"

record SearchResultItem =
  si_rank :: int
  si_title :: "codepoint list"
  si_url :: "codepoint list"
  si_snippet :: "codepoint list option"
  si_host :: "codepoint list option"
  si_published_at :: "instant option"

definition search_result_item_ok :: "SearchResultItem \<Rightarrow> bool" where
  "search_result_item_ok i \<longleftrightarrow> 1 \<le> si_rank i \<and> length (si_title i) \<le> 4096 \<and> length (si_url i) \<le> 8192
     \<and> (case si_snippet i of None \<Rightarrow> True | Some s \<Rightarrow> length s \<le> 8192)
     \<and> (case si_host i of None \<Rightarrow> True | Some s \<Rightarrow> length s \<le> 1024)"

subsection \<open>Language tags (application/search/language.py)\<close>

definition language_input_rx :: rx where
  "language_input_rx = RSeq (r_plus (RCls ascii_alnum))
     (RStar (RSeq (r_char CHR ''-'') (r_plus (RCls ascii_alnum))))"

definition normalize_search_language ::
  "(string \<Rightarrow> bool) \<Rightarrow> (string \<Rightarrow> string) \<Rightarrow> string \<Rightarrow> SearchLanguage option" where
  "normalize_search_language tag_is_valid to_tag v = (let raw = str_strip v in
     if \<not> (1 \<le> length raw \<and> length raw \<le> 64) \<or> \<not> fullmatch language_input_rx raw \<or> \<not> tag_is_valid raw
     then None
     else if search_language_ok (to_tag raw) then Some (to_tag raw) else None)"

subsection \<open>Requests and results (application/search/models.py)\<close>

record ProviderCapabilities =
  pc_pagination :: bool
  pc_language :: bool
  pc_region :: bool
  pc_safe_search :: bool
  pc_time_range :: bool
  pc_max_results :: int
  pc_max_query_length :: int
  pc_max_query_words :: "int option"
  pc_max_result_window :: "int option"
  pc_supported_time_ranges :: "SearchTimeRange list"
  pc_billable :: bool

definition provider_capabilities_ok :: "ProviderCapabilities \<Rightarrow> bool" where
  "provider_capabilities_ok c \<longleftrightarrow> 1 \<le> pc_max_results c \<and> pc_max_results c \<le> 50
     \<and> 1 \<le> pc_max_query_length c \<and> pc_max_query_length c \<le> 4096
     \<and> (case pc_max_query_words c of None \<Rightarrow> True | Some n \<Rightarrow> 1 \<le> n \<and> n \<le> 4096)
     \<and> (case pc_max_result_window c of None \<Rightarrow> True | Some n \<Rightarrow> 1 \<le> n \<and> n \<le> 10000)
     \<and> \<not> (pc_time_range c \<and> pc_supported_time_ranges c = [])
     \<and> \<not> (\<not> pc_time_range c \<and> pc_supported_time_ranges c \<noteq> [])
     \<and> distinct (pc_supported_time_ranges c)"

record ProviderDescriptor =
  pd_provider_id :: SearchProviderId
  pd_name :: string
  pd_enabled :: bool
  pd_capabilities :: ProviderCapabilities
  pd_configuration_revision :: string

definition billable :: "ProviderDescriptor \<Rightarrow> bool" where
  "billable d \<longleftrightarrow> pc_billable (pd_capabilities d)"

definition provider_descriptor_ok :: "ProviderDescriptor \<Rightarrow> bool" where
  "provider_descriptor_ok d \<longleftrightarrow> 1 \<le> length (pd_name d) \<and> length (pd_name d) \<le> 128
     \<and> provider_capabilities_ok (pd_capabilities d)
     \<and> 8 \<le> length (pd_configuration_revision d) \<and> length (pd_configuration_revision d) \<le> 128"

record SearchRegionMapping =
  rm_provider_id :: SearchProviderId
  rm_provider_region :: string

text \<open>\<open>isdecimal\<close> is false of the empty string.\<close>

definition region_mapping_ok :: "SearchRegionMapping \<Rightarrow> bool" where
  "region_mapping_ok m \<longleftrightarrow> 1 \<le> length (rm_provider_region m) \<and> length (rm_provider_region m) \<le> 100
     \<and> (rm_provider_id m = YANDEX \<longrightarrow> list_all ascii_digit (rm_provider_region m)
          \<and> \<not> starts_with ''0'' (rm_provider_region m))"

record SearchRegionEntry =
  re_region_id :: SearchRegionId
  re_label :: string
  re_mappings :: "SearchRegionMapping list"

definition region_entry_ok :: "SearchRegionEntry \<Rightarrow> bool" where
  "region_entry_ok e \<longleftrightarrow> search_region_ok (re_region_id e) \<and> 1 \<le> length (re_label e)
     \<and> length (re_label e) \<le> 128 \<and> length (re_mappings e) \<le> 16 \<and> list_all region_mapping_ok (re_mappings e)
     \<and> distinct (map rm_provider_id (re_mappings e))"

record SearchQuery =
  sq_query :: string
  sq_provider :: SearchProviderSelection
  sq_page :: int
  sq_limit :: int
  sq_language :: "SearchLanguage option"
  sq_region :: "SearchRegionId option"
  sq_safe_search :: "SearchSafeMode option"
  sq_time_range :: "SearchTimeRange option"

definition search_query_ok :: "SearchQuery \<Rightarrow> bool" where
  "search_query_ok q \<longleftrightarrow> 1 \<le> length (sq_query q) \<and> length (sq_query q) \<le> 4096
     \<and> 1 \<le> sq_page q \<and> sq_page q \<le> 100 \<and> 1 \<le> sq_limit q \<and> sq_limit q \<le> 50
     \<and> (case sq_language q of None \<Rightarrow> True | Some l \<Rightarrow> search_language_ok l)
     \<and> (case sq_region q of None \<Rightarrow> True | Some r \<Rightarrow> search_region_ok r)"

text \<open>The validator that runs before the fields are checked, on a query whose language and region
  are still caller text.\<close>

definition normalize_query ::
  "(string \<Rightarrow> bool) \<Rightarrow> (string \<Rightarrow> string) \<Rightarrow> SearchQuery \<Rightarrow> SearchQuery option" where
  "normalize_query tag_is_valid to_tag q =
     (case (case sq_language q of None \<Rightarrow> Some None
            | Some l \<Rightarrow> map_option Some (normalize_search_language tag_is_valid to_tag l)) of
        None \<Rightarrow> None
      | Some l \<Rightarrow> (case sq_region q of
            Some r \<Rightarrow> if search_region_ok r then Some (q\<lparr>sq_query := str_strip (sq_query q), sq_language := l\<rparr>) else None
          | None \<Rightarrow> Some (q\<lparr>sq_query := str_strip (sq_query q), sq_language := l\<rparr>)))"

definition make_query ::
  "(string \<Rightarrow> bool) \<Rightarrow> (string \<Rightarrow> string) \<Rightarrow> SearchQuery \<Rightarrow> SearchQuery option" where
  "make_query tag_is_valid to_tag q = (case normalize_query tag_is_valid to_tag q of
     None \<Rightarrow> None | Some q \<Rightarrow> if search_query_ok q then Some q else None)"

definition batch_request_ok :: "SearchQuery list \<Rightarrow> bool" where
  "batch_request_ok qs \<longleftrightarrow> 1 \<le> length qs \<and> length qs \<le> 32 \<and> list_all search_query_ok qs"

record CacheMetadata =
  cm_cached :: bool
  cm_retrieved_at :: instant

record PaginationMetadata =
  pg_page :: int
  pg_next_page_available :: "bool option"

record SearchUsageMetadata =
  su_upstream_attempts :: int
  su_rate_units :: int
  su_billable_attempts :: int
  su_internal_retries :: int

definition no_usage :: SearchUsageMetadata where
  "no_usage = \<lparr>su_upstream_attempts = 0, su_rate_units = 0, su_billable_attempts = 0, su_internal_retries = 0\<rparr>"

definition usage_metadata_ok :: "SearchUsageMetadata \<Rightarrow> bool" where
  "usage_metadata_ok u \<longleftrightarrow> 0 \<le> su_upstream_attempts u \<and> su_upstream_attempts u \<le> 16
     \<and> 0 \<le> su_rate_units u \<and> su_rate_units u \<le> 16 \<and> 0 \<le> su_billable_attempts u
     \<and> su_billable_attempts u \<le> 16 \<and> 0 \<le> su_internal_retries u \<and> su_internal_retries u \<le> 15"

record SearchQueryData =
  sd_query :: string
  sd_provider_id :: SearchProviderId
  sd_page :: int
  sd_requested_limit :: int
  sd_results :: "SearchResultItem list"
  sd_cache :: CacheMetadata
  sd_pagination :: PaginationMetadata
  sd_usage :: SearchUsageMetadata

definition search_query_data_ok :: "SearchQueryData \<Rightarrow> bool" where
  "search_query_data_ok d \<longleftrightarrow> 1 \<le> length (sd_query d) \<and> length (sd_query d) \<le> 4096
     \<and> 1 \<le> sd_page d \<and> sd_page d \<le> 100 \<and> 1 \<le> sd_requested_limit d \<and> sd_requested_limit d \<le> 50
     \<and> length (sd_results d) \<le> 50 \<and> list_all search_result_item_ok (sd_results d)
     \<and> 1 \<le> pg_page (sd_pagination d) \<and> pg_page (sd_pagination d) \<le> 100 \<and> usage_metadata_ok (sd_usage d)"

record ProviderSearchRequest =
  ps_query :: string
  ps_provider_id :: SearchProviderId
  ps_page :: int
  ps_limit :: int
  ps_language :: "SearchLanguage option"
  ps_region :: "SearchRegionId option"
  ps_provider_region :: "string option"
  ps_safe_search :: "SearchSafeMode option"
  ps_time_range :: "SearchTimeRange option"

definition provider_request_ok :: "ProviderSearchRequest \<Rightarrow> bool" where
  "provider_request_ok r \<longleftrightarrow> 1 \<le> length (ps_query r) \<and> length (ps_query r) \<le> 4096
     \<and> 1 \<le> ps_page r \<and> ps_page r \<le> 100 \<and> 1 \<le> ps_limit r \<and> ps_limit r \<le> 50
     \<and> (case ps_provider_region r of None \<Rightarrow> True | Some s \<Rightarrow> 1 \<le> length s \<and> length s \<le> 100)"

record ProviderSearchResult =
  px_provider_id :: SearchProviderId
  px_results :: "SearchResultItem list"
  px_retrieved_at :: instant
  px_next_page_available :: "bool option"
  px_provider_request_id :: "codepoint list option"
  px_warnings :: "Warning list"

definition provider_result_ok :: "ProviderSearchResult \<Rightarrow> bool" where
  "provider_result_ok r \<longleftrightarrow> length (px_results r) \<le> 50 \<and> list_all search_result_item_ok (px_results r)
     \<and> (case px_provider_request_id r of None \<Rightarrow> True | Some s \<Rightarrow> length s \<le> 256)
     \<and> length (px_warnings r) \<le> 16"

subsection \<open>Port values (application/search/ports.py)\<close>

datatype CacheLookupState = CACHE_HIT | CACHE_MISS | CACHE_CORRUPT | CACHE_UNAVAILABLE

record CacheLookup =
  cl_state :: CacheLookupState
  cl_value :: "SearchQueryData option"

record SingleFlightLease =
  sf_identity :: string
  sf_holder :: bool
  sf_token :: "string option"

datatype RateAdmissionStatus = RATE_ALLOWED | RATE_LIMITED | RATE_UNAVAILABLE

record RateAdmission =
  ra_status :: RateAdmissionStatus
  ra_retry_after_seconds :: "rat option"

record ConcurrencyLease =
  le_provider_id :: SearchProviderId
  le_token :: string

datatype AttemptStage = PRE_DISPATCH | DISPATCH_POSSIBLE | RESPONSE_RECEIVED | COMPLETED

fun stage_value :: "AttemptStage \<Rightarrow> string" where
  "stage_value PRE_DISPATCH = ''pre_dispatch''"
| "stage_value DISPATCH_POSSIBLE = ''dispatch_possible''"
| "stage_value RESPONSE_RECEIVED = ''response_received''"
| "stage_value COMPLETED = ''completed''"

record ProviderAttemptError =
  ae_error :: OperationError
  ae_stage :: ExecutionStage
  ae_provider_request_id :: "codepoint list option"

subsection \<open>Registries (application/search/registry.py)\<close>

datatype registry_error = DuplicateRegion | DuplicateProvider | DefaultMissing | DefaultDisabled

text \<open>The code of a \<open>ProviderResolutionError\<close>.\<close>

type_synonym resolution_error = string

record region_registry =
  rr_entries :: "SearchRegionEntry list"
  rr_revision :: string

definition region_json :: "SearchRegionEntry \<Rightarrow> json" where
  "region_json e = JObj [(cps ''label'', JStr (cps (re_label e))),
     (cps ''mappings'', JArr (map (\<lambda>m. JObj
        [(cps ''provider_id'', JStr (cps (provider_value (rm_provider_id m)))),
         (cps ''provider_region'', JStr (cps (rm_provider_region m)))])
        (sort_key (\<lambda>m. cps (provider_value (rm_provider_id m))) (re_mappings e)))),
     (cps ''region_id'', JStr (cps (re_region_id e)))]"

definition region_revision :: "SearchRegionEntry list \<Rightarrow> string" where
  "region_revision es = sha256_hex (utf8_encode (json_dumps (JArr (map region_json
     (sort_key (\<lambda>e. cps (re_region_id e)) es)))))"

definition make_region_registry :: "SearchRegionEntry list \<Rightarrow> registry_error + region_registry" where
  "make_region_registry es = (if \<not> distinct (map re_region_id es) then Inl DuplicateRegion
     else Inr \<lparr>rr_entries = es, rr_revision = region_revision es\<rparr>)"

definition provider_region :: "region_registry \<Rightarrow> string \<Rightarrow> SearchProviderId \<Rightarrow> resolution_error + string" where
  "provider_region reg rid pid = (case find (\<lambda>e. re_region_id e = rid) (rr_entries reg) of
     None \<Rightarrow> Inl ''unknown_region''
   | Some e \<Rightarrow> (case find (\<lambda>m. rm_provider_id m = pid) (re_mappings e) of
       None \<Rightarrow> Inl ''unsupported_region'' | Some m \<Rightarrow> Inr (rm_provider_region m)))"

record provider_registry =
  pr_providers :: "ProviderDescriptor list"
  pr_default :: SearchProviderId

definition find_provider :: "ProviderDescriptor list \<Rightarrow> SearchProviderId \<Rightarrow> ProviderDescriptor option" where
  "find_provider ds pid = find (\<lambda>d. pd_provider_id d = pid) ds"

definition make_provider_registry ::
  "ProviderDescriptor list \<Rightarrow> SearchProviderId \<Rightarrow> registry_error + provider_registry" where
  "make_provider_registry ds def = (if \<not> distinct (map pd_provider_id ds) then Inl DuplicateProvider
     else case find_provider ds def of None \<Rightarrow> Inl DefaultMissing
       | Some d \<Rightarrow> if \<not> pd_enabled d then Inl DefaultDisabled else Inr \<lparr>pr_providers = ds, pr_default = def\<rparr>)"

fun selected_id :: "SearchProviderId \<Rightarrow> SearchProviderSelection \<Rightarrow> SearchProviderId" where
  "selected_id def SEL_DEFAULT = def"
| "selected_id def SEL_SEARXNG = SEARXNG"
| "selected_id def SEL_YANDEX = YANDEX"

definition resolve :: "provider_registry \<Rightarrow> SearchProviderSelection \<Rightarrow> resolution_error + ProviderDescriptor" where
  "resolve reg sel = (case find_provider (pr_providers reg) (selected_id (pr_default reg) sel) of
     None \<Rightarrow> Inl ''unknown_provider''
   | Some d \<Rightarrow> if \<not> pd_enabled d then Inl ''provider_disabled'' else Inr d)"

definition unsupported_options :: "ProviderCapabilities \<Rightarrow> SearchQuery \<Rightarrow> string list" where
  "unsupported_options c q =
     (if 1 < sq_page q \<and> \<not> pc_pagination c then [''page''] else []) @
     (if sq_language q \<noteq> None \<and> \<not> pc_language c then [''language''] else []) @
     (if sq_region q \<noteq> None \<and> \<not> pc_region c then [''region''] else []) @
     (if sq_safe_search q \<noteq> None \<and> \<not> pc_safe_search c then [''safe_search''] else []) @
     (case sq_time_range q of None \<Rightarrow> []
      | Some t \<Rightarrow> if \<not> pc_time_range c then [''time_range'']
          else if t \<notin> set (pc_supported_time_ranges c) then [''time_range''] else []) @
     (if pc_max_results c < sq_limit q then [''limit''] else []) @
     (if pc_max_query_length c < int (length (sq_query q)) then [''query''] else []) @
     (case pc_max_query_words c of None \<Rightarrow> []
      | Some n \<Rightarrow> if n < int (length (split_ws (sq_query q))) then [''query''] else []) @
     (case pc_max_result_window c of None \<Rightarrow> []
      | Some n \<Rightarrow> if n < sq_page q * sq_limit q then [''page''] else [])"

definition validate_capabilities :: "ProviderDescriptor \<Rightarrow> SearchQuery \<Rightarrow> resolution_error + unit" where
  "validate_capabilities d q =
     (if unsupported_options (pd_capabilities d) q \<noteq> [] then Inl ''unsupported_option'' else Inr ())"

subsection \<open>Service policy (application/search/service.py)\<close>

datatype cache_mode = MODE_PRINCIPAL | MODE_SHARED_PUBLIC | MODE_DISABLED

fun cache_mode_value :: "cache_mode \<Rightarrow> string" where
  "cache_mode_value MODE_PRINCIPAL = ''principal''"
| "cache_mode_value MODE_SHARED_PUBLIC = ''shared_public''"
| "cache_mode_value MODE_DISABLED = ''disabled''"

record SearchServicePolicy =
  sp_cache_mode :: cache_mode
  sp_searxng_cache_ttl_seconds :: int
  sp_yandex_cache_ttl_seconds :: int
  sp_searxng_max_attempts :: int
  sp_yandex_max_attempts :: int
  sp_batch_concurrency :: int
  sp_operation_timeout_seconds :: rat
  sp_retry_backoff_seconds :: rat
  sp_retry_jitter_ratio :: rat

definition service_policy_ok :: "SearchServicePolicy \<Rightarrow> bool" where
  "service_policy_ok p \<longleftrightarrow> 1 \<le> sp_batch_concurrency p \<and> sp_batch_concurrency p \<le> 32
     \<and> 0 < sp_operation_timeout_seconds p \<and> 0 \<le> sp_retry_backoff_seconds p
     \<and> 0 \<le> sp_retry_jitter_ratio p \<and> sp_retry_jitter_ratio p \<le> 1
     \<and> 1 \<le> sp_searxng_cache_ttl_seconds p \<and> 1 \<le> sp_yandex_cache_ttl_seconds p
     \<and> 1 \<le> sp_searxng_max_attempts p \<and> 1 \<le> sp_yandex_max_attempts p"

definition cache_ttl :: "SearchServicePolicy \<Rightarrow> SearchProviderId \<Rightarrow> int" where
  "cache_ttl p pid = (if pid = SEARXNG then sp_searxng_cache_ttl_seconds p else sp_yandex_cache_ttl_seconds p)"

definition max_attempts :: "SearchServicePolicy \<Rightarrow> SearchProviderId \<Rightarrow> int" where
  "max_attempts p pid = (if pid = SEARXNG then sp_searxng_max_attempts p else sp_yandex_max_attempts p)"

end
