(* ===== verification/Search_Usage.thy ===== *)
theory Search_Usage
  imports Search_Domain
begin

section \<open>Durable evidence of billable search attempts\<close>

text \<open>
  \<open>infrastructure/search/usage.py\<close> over the table of
  \<open>alembic/versions/0002_search_attempt_accounting.py\<close>. The table is the list of its rows; the
  statements check the constraints of the migration. Every statement and the commit may also
  fail with a database error, which \<open>usage_error\<close> shows as the exception the code raises; whether
  it fails is an argument, since that depends on the server.
\<close>

record SearchAttemptRow =
  at_operation_id :: string
  at_principal_id :: string
  at_provider_id :: SearchProviderId
  at_query_item_index :: int
  at_attempt_number :: int
  at_stage :: AttemptStage
  at_outcome_code :: "string option"
  at_retry_reason :: "string option"
  at_provider_request_id :: "codepoint list option"
  at_started_at :: instant
  at_completed_at :: "instant option"

type_synonym usage_db = "SearchAttemptRow list"

datatype usage_error = SearchUsageUnavailable

type_synonym attempt_key = "string \<times> int \<times> SearchProviderId \<times> int"

definition attempt_key :: "SearchAttemptRow \<Rightarrow> attempt_key" where
  "attempt_key r = (at_operation_id r, at_query_item_index r, at_provider_id r, at_attempt_number r)"

text \<open>The check and unique constraints of the migration; \<open>String(n)\<close> bounds included.\<close>

definition opt_len :: "nat \<Rightarrow> 'a list option \<Rightarrow> bool" where
  "opt_len n v \<longleftrightarrow> (case v of None \<Rightarrow> True | Some s \<Rightarrow> length s \<le> n)"

definition attempt_row_ok :: "SearchAttemptRow \<Rightarrow> bool" where
  "attempt_row_ok r \<longleftrightarrow> length (at_operation_id r) \<le> 128 \<and> length (at_principal_id r) \<le> 128
     \<and> 0 \<le> at_query_item_index r \<and> at_query_item_index r \<le> 31
     \<and> 1 \<le> at_attempt_number r \<and> at_attempt_number r \<le> 16
     \<and> opt_len 64 (at_outcome_code r) \<and> opt_len 64 (at_retry_reason r) \<and> opt_len 256 (at_provider_request_id r)"

definition usage_constraints :: "usage_db \<Rightarrow> bool" where
  "usage_constraints db \<longleftrightarrow> distinct (map attempt_key db) \<and> list_all attempt_row_ok db"

fun stage_rank :: "AttemptStage \<Rightarrow> nat" where
  "stage_rank PRE_DISPATCH = 0"
| "stage_rank DISPATCH_POSSIBLE = 1"
| "stage_rank RESPONSE_RECEIVED = 2"
| "stage_rank COMPLETED = 3"

definition start_attempt ::
  "instant \<Rightarrow> string \<Rightarrow> string \<Rightarrow> SearchProviderId \<Rightarrow> int \<Rightarrow> int \<Rightarrow> usage_db \<Rightarrow> (usage_error + unit) \<times> usage_db" where
  "start_attempt now oid owner pid index attempt db =
     (let row = \<lparr>at_operation_id = oid, at_principal_id = owner, at_provider_id = pid,
          at_query_item_index = index, at_attempt_number = attempt, at_stage = PRE_DISPATCH,
          at_outcome_code = None, at_retry_reason = None, at_provider_request_id = None,
          at_started_at = now, at_completed_at = None\<rparr>
      in if usage_constraints (db @ [row]) then (Inr (), db @ [row]) else (Inl SearchUsageUnavailable, db))"

definition coalesce :: "'a option \<Rightarrow> 'a option \<Rightarrow> 'a option" where
  "coalesce a b = (case a of None \<Rightarrow> b | Some x \<Rightarrow> Some x)"

definition stage_update ::
  "instant \<Rightarrow> AttemptStage \<Rightarrow> string option \<Rightarrow> string option \<Rightarrow> codepoint list option \<Rightarrow> SearchAttemptRow \<Rightarrow> SearchAttemptRow" where
  "stage_update now st outcome reason rid r = r\<lparr>at_stage := st,
     at_outcome_code := coalesce outcome (at_outcome_code r),
     at_retry_reason := coalesce reason (at_retry_reason r),
     at_provider_request_id := coalesce rid (at_provider_request_id r),
     at_completed_at := (if outcome \<noteq> None then Some now else at_completed_at r)\<rparr>"

text \<open>The update succeeds when it touches exactly one row; a row at a later stage is left alone.\<close>

definition mark_stage ::
  "instant \<Rightarrow> string \<Rightarrow> SearchProviderId \<Rightarrow> int \<Rightarrow> int \<Rightarrow> AttemptStage \<Rightarrow> string option \<Rightarrow> string option
   \<Rightarrow> codepoint list option \<Rightarrow> usage_db \<Rightarrow> (usage_error + unit) \<times> usage_db" where
  "mark_stage now oid pid index attempt st outcome reason rid db =
     (let hit = (\<lambda>r. attempt_key r = (oid, index, pid, attempt) \<and> stage_rank (at_stage r) \<le> stage_rank st);
          db' = map (\<lambda>r. if hit r then stage_update now st outcome reason rid r else r) db
      in if \<not> usage_constraints db' then (Inl SearchUsageUnavailable, db)
         else if length (filter hit db) \<noteq> 1 then (Inl SearchUsageUnavailable, db')
         else (Inr (), db'))"

section \<open>Facts\<close>

definition find_attempt :: "attempt_key \<Rightarrow> usage_db \<Rightarrow> SearchAttemptRow option" where
  "find_attempt k db = find (\<lambda>r. attempt_key r = k) db"

lemma attempt_key_update [simp]: "attempt_key (stage_update now st oc rr rid r) = attempt_key r"
  by (simp add: attempt_key_def stage_update_def)

lemma find_attempt_Some: "find_attempt k db = Some r \<Longrightarrow> r \<in> set db \<and> attempt_key r = k"
  unfolding find_attempt_def by (rule distinct_map_find)

lemma find_attempt_map:
  "(\<And>r. attempt_key (f r) = attempt_key r) \<Longrightarrow> find_attempt k (map f db) = map_option f (find_attempt k db)"
  by (induction db) (auto simp: find_attempt_def)

lemma find_attempt_snoc:
  "find_attempt k (db @ [r]) = (case find_attempt k db of None \<Rightarrow> if attempt_key r = k then Some r else None | Some x \<Rightarrow> Some x)"
  by (induction db) (auto simp: find_attempt_def)

lemma find_attempt_mem:
  assumes "distinct (map attempt_key db)" "r \<in> set db"
  shows "find_attempt (attempt_key r) db = Some r"
  using assms by (induction db) (auto simp: find_attempt_def)

lemma start_attempt_cases:
  assumes "usage_constraints db" "start_attempt now oid owner pid i a db = (x, db')"
  shows "usage_constraints db'
    \<and> (x = Inr () \<longrightarrow> find_attempt (oid, i, pid, a) db = None
        \<and> (\<exists>r. find_attempt (oid, i, pid, a) db' = Some r \<and> at_stage r = PRE_DISPATCH \<and> at_outcome_code r = None))
    \<and> (\<forall>k. k \<noteq> (oid, i, pid, a) \<longrightarrow> find_attempt k db' = find_attempt k db)"
proof (cases x)
  case (Inr u)
  then obtain r where r: "db' = db @ [r]" "usage_constraints (db @ [r])" "attempt_key r = (oid, i, pid, a)"
      "at_stage r = PRE_DISPATCH" "at_outcome_code r = None"
    using assms(2) by (auto simp: start_attempt_def Let_def attempt_key_def split: if_splits)
  have "find_attempt (oid, i, pid, a) db = None"
    using r(2,3) by (force simp: usage_constraints_def find_attempt_def find_None_iff)
  then have key: "find_attempt (oid, i, pid, a) db' = Some r" using r(1,3) by (simp add: find_attempt_snoc)
  have "find_attempt k db' = find_attempt k db" if "k \<noteq> (oid, i, pid, a)" for k
    using r(1,3) that by (cases "find_attempt k db") (simp_all add: find_attempt_snoc)
  then show ?thesis using r key \<open>find_attempt _ db = None\<close> by simp
next
  case (Inl e)
  then show ?thesis using assms by (auto simp: start_attempt_def Let_def split: if_splits)
qed

lemma mark_stage_keeps: "usage_constraints db \<Longrightarrow> usage_constraints (snd (mark_stage now oid pid i a st oc rr rid db))"
  by (simp add: mark_stage_def Let_def)

lemma mark_stage_other:
  "k \<noteq> (oid, i, pid, a) \<Longrightarrow>
     find_attempt k (snd (mark_stage now oid pid i a st oc rr rid db)) = find_attempt k db"
proof -
  assume k: "k \<noteq> (oid, i, pid, a)"
  let ?f = "\<lambda>r. if attempt_key r = (oid, i, pid, a) \<and> stage_rank (at_stage r) \<le> stage_rank st
      then stage_update now st oc rr rid r else r"
  have "find_attempt k (map ?f db) = map_option ?f (find_attempt k db)"
    by (rule find_attempt_map) simp
  then have "find_attempt k (map ?f db) = find_attempt k db"
    using k by (cases "find_attempt k db") (auto dest: find_attempt_Some)
  then show ?thesis by (simp add: mark_stage_def Let_def)
qed

lemma mark_stage_success:
  assumes "usage_constraints db" "mark_stage now oid pid i a st oc rr rid db = (Inr u, db')"
  shows "\<exists>r. find_attempt (oid, i, pid, a) db = Some r \<and> stage_rank (at_stage r) \<le> stage_rank st
    \<and> find_attempt (oid, i, pid, a) db' = Some (stage_update now st oc rr rid r)"
proof -
  let ?hit = "\<lambda>r. attempt_key r = (oid, i, pid, a) \<and> stage_rank (at_stage r) \<le> stage_rank st"
  let ?f = "\<lambda>r. if ?hit r then stage_update now st oc rr rid r else r"
  have db': "db' = map ?f db" "length (filter ?hit db) = 1"
    using assms(2) by (auto simp: mark_stage_def Let_def split: if_splits)
  then obtain r where "filter ?hit db = [r]" by (auto simp: length_Suc_conv)
  then have "r \<in> set (filter ?hit db)" by simp
  then have r: "r \<in> set db" "?hit r" by auto
  have "find_attempt (oid, i, pid, a) db = Some r"
    using find_attempt_mem [of db r] r assms(1) by (simp add: usage_constraints_def)
  moreover have "find_attempt (oid, i, pid, a) db' = map_option ?f (find_attempt (oid, i, pid, a) db)"
    unfolding db'(1) by (rule find_attempt_map) simp
  ultimately show ?thesis using r by auto
qed

text \<open>No statement takes evidence away or moves an attempt back.\<close>

lemma mark_stage_monotone:
  assumes "find_attempt k db = Some r"
  shows "\<exists>r'. find_attempt k (snd (mark_stage now oid pid i a st oc rr rid db)) = Some r'
    \<and> stage_rank (at_stage r) \<le> stage_rank (at_stage r')"
proof -
  let ?f = "\<lambda>r. if attempt_key r = (oid, i, pid, a) \<and> stage_rank (at_stage r) \<le> stage_rank st
      then stage_update now st oc rr rid r else r"
  have "find_attempt k (map ?f db) = map_option ?f (find_attempt k db)"
    by (rule find_attempt_map) simp
  then show ?thesis using assms by (auto simp: mark_stage_def Let_def stage_update_def)
qed

end
