(* ===== verification/Search_Service.thy ===== *)
theory Search_Service
  imports Search_Usage
begin

section \<open>The Search application service\<close>

text \<open>
  \<open>application/search/service.py\<close>. The Redis cache, the single flight lock, the rate and
  concurrency limiters, the sleeper and the provider answer as the environment \<open>search_ports\<close>
  says, call by call: every result about the service holds for all their behaviours. The usage
  table is the one of \<open>Search_Usage\<close>, with a committed state and the view of the open unit of work.

  Each \<open>await\<close> has a fate: it completes, or it is interrupted by cooperative cancellation, by the
  deadline or by \<open>asyncio.CancelledError\<close>, before or after the awaited call took effect. The trace
  of a run is the list of calls that reached the limiters and the provider.
\<close>

subsection \<open>Exceptions, events and the environment\<close>

datatype search_exc =
    SXResolution string
  | SXAttempt ProviderAttemptError
  | SXCooperative
  | SXDeadline
  | SXCancelled
  | SXUsage
  | SXAuth AuthenticationFailure
  | SXOther
  | SXUnreachable

text \<open>A dispatch records the committed evidence table at the moment of the call.\<close>

datatype search_event =
    EvAcquired ConcurrencyLease
  | EvReleased ConcurrencyLease
  | EvFlight SingleFlightLease
  | EvFlightReleased SingleFlightLease
  | EvDispatch SearchProviderId int int usage_db
  | EvFailed SearchProviderId int int ExecutionStage

datatype await_fate = Completes | Interrupted search_exc bool

text \<open>A database call runs, fails, or takes effect and loses its acknowledgement.\<close>

datatype usage_fate = UsageRuns | UsageFails | UsageLost

text \<open>Besides its answers a port may raise: \<open>Inl\<close> is an exception the service does not expect; of a
  provider, \<open>Inl (Some e)\<close> is a \<open>ProviderAttemptError\<close>.\<close>

record search_ports =
  po_fate :: "nat \<Rightarrow> await_fate"
  po_elapsed :: "nat \<Rightarrow> rat"
  po_cache_get :: "nat \<Rightarrow> string \<Rightarrow> unit + CacheLookup"
  po_cache_put :: "nat \<Rightarrow> string \<Rightarrow> SearchQueryData \<Rightarrow> int \<Rightarrow> unit + bool"
  po_flight :: "nat \<Rightarrow> string \<Rightarrow> rat option \<Rightarrow> unit + SingleFlightLease"
  po_admit :: "nat \<Rightarrow> string \<Rightarrow> SearchProviderId \<Rightarrow> rat option \<Rightarrow> unit + RateAdmission"
  po_acquire :: "nat \<Rightarrow> SearchProviderId \<Rightarrow> rat option \<Rightarrow> unit + ConcurrencyLease option"
  po_search :: "nat \<Rightarrow> ProviderDescriptor \<Rightarrow> ProviderSearchRequest \<Rightarrow> ProviderAttemptError option + ProviderSearchResult"
  po_usage :: "nat \<Rightarrow> usage_fate"
  po_random :: "nat \<Rightarrow> rat"

record search_world =
  sw_count :: nat
  sw_clock :: Clock
  sw_cancelled :: bool
  sw_usage :: usage_db
  sw_view :: usage_db
  sw_trace :: "search_event list"

type_synonym 'a sio = "search_world \<Rightarrow> (search_exc + 'a) \<times> search_world"

record search_service =
  ss_providers :: provider_registry
  ss_regions :: region_registry
  ss_policy :: SearchServicePolicy
  ss_usage_configured :: bool
  ss_ports :: search_ports

definition emit :: "search_event \<Rightarrow> search_world \<Rightarrow> search_world" where
  "emit e w = w\<lparr>sw_trace := sw_trace w @ [e]\<rparr>"

definition tick :: "search_ports \<Rightarrow> search_world \<Rightarrow> search_world" where
  "tick po w = w\<lparr>sw_count := Suc (sw_count w),
     sw_clock := \<lparr>ck_utc_now = ck_utc_now (sw_clock w),
        ck_monotonic = ck_monotonic (sw_clock w) + max 0 (po_elapsed po (sw_count w))\<rparr>\<rparr>"

definition sw_remaining :: "ExecutionContext \<Rightarrow> search_world \<Rightarrow> rat option" where
  "sw_remaining cx w = remaining_seconds (cx_deadline cx) (sw_clock w)"

text \<open>\<open>_bounded_await\<close>: a call that is cancelled before it starts has no effect; afterwards the task
  runs until it is done or interrupted. A deadline interrupts only a context that has one.\<close>

definition bounded_await :: "search_ports \<Rightarrow> ExecutionContext \<Rightarrow> (nat \<Rightarrow> 'a sio) \<Rightarrow> 'a sio" where
  "bounded_await po cx call w = (let n = sw_count w; w1 = tick po w in
     case sw_remaining cx w of
       Some r \<Rightarrow> if r \<le> 0 then (Inl SXDeadline, w1)
         else if cx_cancel_requested cx \<or> sw_cancelled w then (Inl SXCooperative, w1)
         else (case po_fate po n of
             Completes \<Rightarrow> call n w1
           | Interrupted e acted \<Rightarrow> (let w2 = (if acted then snd (call n w1) else w1) in
               if e = SXCooperative then (Inl SXCooperative, w2\<lparr>sw_cancelled := True\<rparr>)
               else if e = SXDeadline then (Inl SXDeadline, w2\<lparr>sw_clock := \<lparr>ck_utc_now = ck_utc_now (sw_clock w2),
                 ck_monotonic = ck_monotonic (sw_clock w) + r\<rparr>\<rparr>)
               else (Inl SXCancelled, w2)))
     | None \<Rightarrow> if cx_cancel_requested cx \<or> sw_cancelled w then (Inl SXCooperative, w1)
         else (case po_fate po n of
             Interrupted e acted \<Rightarrow> (let w2 = (if acted then snd (call n w1) else w1) in
               if e = SXCooperative then (Inl SXCooperative, w2\<lparr>sw_cancelled := True\<rparr>)
               else if e = SXDeadline then call n w1 else (Inl SXCancelled, w2))
           | Completes \<Rightarrow> call n w1))"

text \<open>An \<open>await\<close> outside \<open>_bounded_await\<close> can only be interrupted by \<open>CancelledError\<close>.\<close>

definition plain_await :: "search_ports \<Rightarrow> unit sio \<Rightarrow> unit sio" where
  "plain_await po call w = (case po_fate po (sw_count w) of
     Completes \<Rightarrow> call (tick po w)
   | Interrupted e acted \<Rightarrow> if e = SXCancelled
       then (Inl SXCancelled, if acted then snd (call (tick po w)) else tick po w)
       else call (tick po w))"

text \<open>\<open>try ... finally\<close>.\<close>

definition finally_do :: "(search_exc + 'a) \<times> search_world \<Rightarrow> unit sio \<Rightarrow> (search_exc + 'a) \<times> search_world" where
  "finally_do m cleanup = (case m of (r, w) \<Rightarrow> (case cleanup w of
     (Inl e, w) \<Rightarrow> (Inl e, w) | (Inr _, w) \<Rightarrow> (r, w)))"

definition pure_call :: "(nat \<Rightarrow> unit + 'a) \<Rightarrow> nat \<Rightarrow> 'a sio" where
  "pure_call f n w = (case f n of Inl _ \<Rightarrow> Inl SXOther | Inr x \<Rightarrow> Inr x, w)"

subsection \<open>Usage accounting\<close>

text \<open>\<open>async with factory() as uow\<close>; leaving it rolls back what was not committed.\<close>

definition usage_uow :: "'a sio \<Rightarrow> 'a sio" where
  "usage_uow body w = (case body (w\<lparr>sw_view := sw_usage w\<rparr>) of (r, w) \<Rightarrow> (r, w\<lparr>sw_view := sw_usage w\<rparr>))"

definition usage_call :: "search_ports \<Rightarrow> (usage_db \<Rightarrow> (usage_error + unit) \<times> usage_db) \<Rightarrow> nat \<Rightarrow> unit sio" where
  "usage_call po f n w = (if po_usage po n \<noteq> UsageRuns then (Inl SXUsage, w)
     else case f (sw_view w) of (Inl e, v) \<Rightarrow> (Inl SXUsage, w\<lparr>sw_view := v\<rparr>) | (Inr u, v) \<Rightarrow> (Inr u, w\<lparr>sw_view := v\<rparr>))"

definition usage_commit :: "search_ports \<Rightarrow> nat \<Rightarrow> unit sio" where
  "usage_commit po n w = (case po_usage po n of
     UsageRuns \<Rightarrow> (Inr (), w\<lparr>sw_usage := sw_view w\<rparr>)
   | UsageFails \<Rightarrow> (Inl SXUsage, w)
   | UsageLost \<Rightarrow> (Inl SXUsage, w\<lparr>sw_usage := sw_view w\<rparr>))"

definition attempt_error ::
  "ErrorCategory \<Rightarrow> string \<Rightarrow> bool \<Rightarrow> ExecutionStage \<Rightarrow> int option \<Rightarrow> codepoint list option \<Rightarrow> ProviderAttemptError" where
  "attempt_error cat code retryable stage after rid =
     \<lparr>ae_error = (op_error cat code)\<lparr>oe_retryable := retryable, oe_retry_after_seconds := after\<rparr>,
       ae_stage = stage, ae_provider_request_id = rid\<rparr>"

definition usage_unavailable :: "ExecutionStage \<Rightarrow> search_exc" where
  "usage_unavailable stage = SXAttempt (attempt_error INFRASTRUCTURE ''usage_accounting_unavailable'' False stage None None)"

text \<open>\<open>except SearchUsageUnavailable\<close> around a unit of work.\<close>

definition usage_guard :: "ExecutionStage \<Rightarrow> 'a sio \<Rightarrow> 'a sio" where
  "usage_guard stage m w = (case m w of
     (Inl SXUsage, w) \<Rightarrow> (Inl (usage_unavailable stage), w) | x \<Rightarrow> x)"

definition record_attempt_start ::
  "search_ports \<Rightarrow> ExecutionContext \<Rightarrow> SearchProviderId \<Rightarrow> int \<Rightarrow> int \<Rightarrow> unit sio" where
  "record_attempt_start po cx pid index attempt = usage_guard BEFORE_DISPATCH (usage_uow (\<lambda>w.
     try_seq (bounded_await po cx (usage_call po (start_attempt (ck_utc_now (sw_clock w)) (cx_operation_id cx)
         (pc_principal_id (cx_principal cx)) pid index attempt)) w) (\<lambda>_.
     bounded_await po cx (usage_commit po))))"

definition record_attempt_stage ::
  "search_ports \<Rightarrow> ExecutionContext \<Rightarrow> SearchProviderId \<Rightarrow> int \<Rightarrow> int \<Rightarrow> AttemptStage \<Rightarrow> string option
   \<Rightarrow> string option \<Rightarrow> codepoint list option \<Rightarrow> ExecutionStage \<Rightarrow> unit sio" where
  "record_attempt_stage po cx pid index attempt stage outcome reason rid failure_stage =
     usage_guard failure_stage (usage_uow (\<lambda>w.
     try_seq (bounded_await po cx (usage_call po (mark_stage (ck_utc_now (sw_clock w)) (cx_operation_id cx)
         pid index attempt stage outcome reason rid)) w) (\<lambda>_.
     bounded_await po cx (usage_commit po))))"

subsection \<open>Attempts\<close>

definition retry_allowed :: "bool \<Rightarrow> ProviderAttemptError \<Rightarrow> bool" where
  "retry_allowed bill e = (if \<not> oe_retryable (ae_error e) then False
     else if bill then ae_stage e = BEFORE_DISPATCH else True)"

definition retry_delay :: "SearchServicePolicy \<Rightarrow> int \<Rightarrow> rat \<Rightarrow> ProviderAttemptError \<Rightarrow> rat" where
  "retry_delay p attempt random e =
     (let configured = sp_retry_backoff_seconds p * 2 ^ nat (attempt - 1);
          jitter = configured * sp_retry_jitter_ratio p * (2 * random - 1);
          delay = max 0 (configured + jitter)
      in case oe_retry_after_seconds (ae_error e) of None \<Rightarrow> delay | Some s \<Rightarrow> max delay (of_int s))"

definition wait_before_retry ::
  "search_service \<Rightarrow> ExecutionContext \<Rightarrow> int \<Rightarrow> ProviderAttemptError \<Rightarrow> unit sio" where
  "wait_before_retry sv cx attempt e w =
     (let delay = retry_delay (ss_policy sv) attempt (po_random (ss_ports sv) (sw_count w)) e in
      if (case sw_remaining cx w of None \<Rightarrow> False | Some r \<Rightarrow> r \<le> 0 \<or> r \<le> delay) then (Inl SXDeadline, w)
      else if delay \<noteq> 0 then bounded_await (ss_ports sv) cx (pure_call (\<lambda>_. Inr ())) w
      else (Inr (), w))"

definition admission_check :: "RateAdmission \<Rightarrow> search_exc + unit" where
  "admission_check a = (case ra_status a of
     RATE_UNAVAILABLE \<Rightarrow> Inl (SXAttempt (attempt_error INFRASTRUCTURE ''search_admission_unavailable'' True BEFORE_DISPATCH None None))
   | RATE_LIMITED \<Rightarrow> Inl (SXAttempt (attempt_error RATE_LIMITED_CATEGORY ''provider_rate_limited'' True BEFORE_DISPATCH
       (case ra_retry_after_seconds a of None \<Rightarrow> None | Some s \<Rightarrow> Some (max 0 (py_round s))) None))
   | RATE_ALLOWED \<Rightarrow> Inr ())"

definition provider_request ::
  "SearchQuery \<Rightarrow> SearchProviderId \<Rightarrow> string option \<Rightarrow> ProviderSearchRequest" where
  "provider_request q pid region = \<lparr>ps_query = sq_query q, ps_provider_id = pid, ps_page = sq_page q,
     ps_limit = sq_limit q, ps_language = sq_language q, ps_region = sq_region q,
     ps_provider_region = region, ps_safe_search = sq_safe_search q, ps_time_range = sq_time_range q\<rparr>"

text \<open>\<open>provider.search\<close>: the call is a dispatch with the evidence committed so far.\<close>

definition provider_call ::
  "search_ports \<Rightarrow> ProviderDescriptor \<Rightarrow> ProviderSearchRequest \<Rightarrow> int \<Rightarrow> int \<Rightarrow> nat \<Rightarrow> ProviderSearchResult sio" where
  "provider_call po d req index attempt n w =
     (let w = emit (EvDispatch (pd_provider_id d) index attempt (sw_usage w)) w in
      case po_search po n d req of
        Inl (Some e) \<Rightarrow> (Inl (SXAttempt e), emit (EvFailed (pd_provider_id d) index attempt (ae_stage e)) w)
      | Inl None \<Rightarrow> (Inl SXOther, w)
      | Inr r \<Rightarrow> (Inr r, w))"

definition after_dispatch :: "string \<Rightarrow> search_exc" where
  "after_dispatch code = SXAttempt (attempt_error UNKNOWN_OUTCOME code False SIDE_EFFECT_POSSIBLE None None)"

text \<open>The evidence a billable attempt must leave before its dispatch.\<close>

definition record_before_dispatch ::
  "search_service \<Rightarrow> ExecutionContext \<Rightarrow> ProviderDescriptor \<Rightarrow> int \<Rightarrow> int \<Rightarrow> unit sio" where
  "record_before_dispatch sv cx d index attempt w =
     (if \<not> billable d then (Inr (), w)
      else if \<not> ss_usage_configured sv then (Inl (usage_unavailable BEFORE_DISPATCH), w)
      else try_seq (record_attempt_start (ss_ports sv) cx (pd_provider_id d) index attempt w) (\<lambda>_.
        record_attempt_stage (ss_ports sv) cx (pd_provider_id d) index attempt DISPATCH_POSSIBLE
          (Some ''unknown'') None None BEFORE_DISPATCH))"

text \<open>\<open>except ProviderAttemptError\<close> of an attempt: \<open>Inr None\<close> asks for the next attempt.\<close>

definition attempt_failed ::
  "search_service \<Rightarrow> ExecutionContext \<Rightarrow> ProviderDescriptor \<Rightarrow> int \<Rightarrow> int \<Rightarrow> ProviderAttemptError
   \<Rightarrow> ProviderSearchResult option sio" where
  "attempt_failed sv cx d index attempt e w =
     (let will_retry = attempt < max_attempts (ss_policy sv) (pd_provider_id d) \<and> retry_allowed (billable d) e;
          code = oe_code (ae_error e)
      in try_seq (if billable d \<and> ss_usage_configured sv
           then record_attempt_stage (ss_ports sv) cx (pd_provider_id d) index attempt
             (if ae_stage e = TERMINAL_KNOWN then RESPONSE_RECEIVED else DISPATCH_POSSIBLE)
             (Some code) (if will_retry then Some code else None) (ae_provider_request_id e) RESPONSE_LOST w
           else (Inr (), w)) (\<lambda>_ w.
         if will_retry then try_seq (wait_before_retry sv cx attempt e w) (\<lambda>_ w. (Inr None, w))
         else (Inl (SXAttempt e), w)))"

definition leased_attempt ::
  "search_service \<Rightarrow> ExecutionContext \<Rightarrow> ProviderDescriptor \<Rightarrow> SearchQuery \<Rightarrow> string option \<Rightarrow> int \<Rightarrow> int
   \<Rightarrow> ProviderSearchResult option sio" where
  "leased_attempt sv cx d q region index attempt w =
     try_seq (record_before_dispatch sv cx d index attempt w) (\<lambda>_ w.
     case bounded_await (ss_ports sv) cx (provider_call (ss_ports sv) d
         (provider_request q (pd_provider_id d) region) index attempt) w of
       (Inr result, w) \<Rightarrow>
         try_seq (if billable d \<and> ss_usage_configured sv
           then record_attempt_stage (ss_ports sv) cx (pd_provider_id d) index attempt COMPLETED
             (Some ''succeeded'') None (px_provider_request_id result) RESPONSE_LOST w
           else (Inr (), w)) (\<lambda>_ w. (Inr (Some result), w))
     | (Inl SXCooperative, w) \<Rightarrow> (Inl (if billable d then after_dispatch ''search_cancelled_after_dispatch'' else SXCooperative), w)
     | (Inl SXDeadline, w) \<Rightarrow> (Inl (if billable d then after_dispatch ''search_deadline_after_dispatch'' else SXDeadline), w)
     | (Inl (SXAttempt e), w) \<Rightarrow> attempt_failed sv cx d index attempt e w
     | (Inl e, w) \<Rightarrow> (Inl e, w))"

definition one_attempt ::
  "search_service \<Rightarrow> ExecutionContext \<Rightarrow> ProviderDescriptor \<Rightarrow> SearchQuery \<Rightarrow> string option \<Rightarrow> int \<Rightarrow> int
   \<Rightarrow> ProviderSearchResult option sio" where
  "one_attempt sv cx d q region index attempt w = (let po = ss_ports sv in
     try_seq (bounded_await po cx (pure_call (\<lambda>n. po_admit po n (pc_principal_id (cx_principal cx))
         (pd_provider_id d) (sw_remaining cx w))) w) (\<lambda>admission w.
     try_seq (admission_check admission, w) (\<lambda>_ w.
     try_seq (bounded_await po cx (pure_call (\<lambda>n. po_acquire po n (pd_provider_id d) (sw_remaining cx w))) w) (\<lambda>lease w.
     case lease of
       None \<Rightarrow> (Inl (SXAttempt (attempt_error CAPACITY ''provider_capacity_unavailable'' True BEFORE_DISPATCH None None)), w)
     | Some l \<Rightarrow> finally_do (leased_attempt sv cx d q region index attempt (emit (EvAcquired l) w))
         (\<lambda>w. plain_await po (\<lambda>w. (Inr (), w)) (emit (EvReleased l) w))))))"

text \<open>The loop over \<open>range(1, max_attempts + 1)\<close>, with the number of attempts left.\<close>

fun execute_from ::
  "search_service \<Rightarrow> ExecutionContext \<Rightarrow> ProviderDescriptor \<Rightarrow> SearchQuery \<Rightarrow> string option \<Rightarrow> int \<Rightarrow> nat \<Rightarrow> int
   \<Rightarrow> (ProviderSearchResult \<times> int) sio" where
  "execute_from sv cx d q region index 0 attempt w = (Inl SXUnreachable, w)"
| "execute_from sv cx d q region index (Suc left) attempt w =
     try_seq (one_attempt sv cx d q region index attempt w) (\<lambda>r w. case r of
       Some result \<Rightarrow> (Inr (result, attempt), w)
     | None \<Rightarrow> execute_from sv cx d q region index left (attempt + 1) w)"

definition execute_attempts ::
  "search_service \<Rightarrow> ExecutionContext \<Rightarrow> ProviderDescriptor \<Rightarrow> SearchQuery \<Rightarrow> string option \<Rightarrow> int
   \<Rightarrow> (ProviderSearchResult \<times> int) sio" where
  "execute_attempts sv cx d q region index =
     execute_from sv cx d q region index (nat (max_attempts (ss_policy sv) (pd_provider_id d))) 1"

subsection \<open>Cache identity\<close>

definition opt_str :: "string option \<Rightarrow> json" where
  "opt_str v = (case v of None \<Rightarrow> JNull | Some s \<Rightarrow> JStr (cps s))"

definition identity_payload ::
  "search_service \<Rightarrow> ExecutionContext \<Rightarrow> SearchQuery \<Rightarrow> SearchProviderId \<Rightarrow> string \<Rightarrow> (codepoint list \<times> json) list" where
  "identity_payload sv cx q pid rvn =
     [(cps ''schema'', JInt 1),
      (cps ''provider_id'', JStr (cps (provider_value pid))),
      (cps ''provider_revision'', JStr (cps rvn)),
      (cps ''region_revision'', JStr (cps (rr_revision (ss_regions sv)))),
      (cps ''query'', JStr (cps (sq_query q))),
      (cps ''page'', JInt (sq_page q)),
      (cps ''limit'', JInt (sq_limit q)),
      (cps ''language'', opt_str (sq_language q)),
      (cps ''region'', opt_str (sq_region q)),
      (cps ''safe_search'', opt_str (map_option safe_value (sq_safe_search q))),
      (cps ''time_range'', opt_str (map_option range_value (sq_time_range q))),
      (cps ''cache_mode'', JStr (cps (cache_mode_value (sp_cache_mode (ss_policy sv))))),
      (cps ''scope'', opt_str (if sp_cache_mode (ss_policy sv) = MODE_PRINCIPAL
         then Some (pc_principal_id (cx_principal cx)) else None))]"

definition canonical_identity ::
  "search_service \<Rightarrow> ExecutionContext \<Rightarrow> SearchQuery \<Rightarrow> SearchProviderId \<Rightarrow> string \<Rightarrow> bytes" where
  "canonical_identity sv cx q pid rvn =
     utf8_encode (json_dumps (JObj (sort_key fst (identity_payload sv cx q pid rvn))))"

definition cache_identity ::
  "search_service \<Rightarrow> ExecutionContext \<Rightarrow> SearchQuery \<Rightarrow> SearchProviderId \<Rightarrow> string \<Rightarrow> string" where
  "cache_identity sv cx q pid rvn = ''search:v1:'' @ sha256_hex (canonical_identity sv cx q pid rvn)"

subsection \<open>One query\<close>

definition search_item_result :: "int \<Rightarrow> LeafOutcome \<Rightarrow> OperationError \<Rightarrow> SearchQueryData BatchItemResult" where
  "search_item_result index outcome e = \<lparr>bi_index = index, bi_outcome = outcome, bi_data = None,
     bi_error = Some e, bi_warnings = [], bi_hints = []\<rparr>"

definition error_item :: "int \<Rightarrow> LeafOutcome \<Rightarrow> ErrorCategory \<Rightarrow> string \<Rightarrow> SearchQueryData BatchItemResult" where
  "error_item index outcome cat code = search_item_result index outcome (op_error cat code)"

definition success_item :: "int \<Rightarrow> SearchQueryData \<Rightarrow> Warning list \<Rightarrow> SearchQueryData BatchItemResult" where
  "success_item index d ws = \<lparr>bi_index = index, bi_outcome = LO_SUCCEEDED, bi_data = Some d, bi_error = None,
     bi_warnings = ws, bi_hints = []\<rparr>"

definition cache_hit :: "int \<Rightarrow> SearchQueryData \<Rightarrow> SearchQueryData BatchItemResult" where
  "cache_hit index v = success_item index (v\<lparr>sd_cache := (sd_cache v)\<lparr>cm_cached := True\<rparr>, sd_usage := no_usage\<rparr>) []"

definition best_effort_cache_put ::
  "search_service \<Rightarrow> ExecutionContext \<Rightarrow> SearchProviderId \<Rightarrow> string \<Rightarrow> SearchQueryData \<Rightarrow> bool sio" where
  "best_effort_cache_put sv cx pid identity data w = (case bounded_await (ss_ports sv) cx
       (pure_call (\<lambda>n. po_cache_put (ss_ports sv) n identity data (cache_ttl (ss_policy sv) pid))) w of
     (Inl SXCancelled, w) \<Rightarrow> (Inl SXCancelled, w)
   | (Inl e, w) \<Rightarrow> (Inr False, w)
   | (Inr stored, w) \<Rightarrow> (Inr stored, w))"

definition query_data ::
  "ProviderDescriptor \<Rightarrow> SearchQuery \<Rightarrow> ProviderSearchResult \<Rightarrow> int \<Rightarrow> SearchQueryData" where
  "query_data d q result attempts = \<lparr>sd_query = sq_query q, sd_provider_id = pd_provider_id d, sd_page = sq_page q,
     sd_requested_limit = sq_limit q, sd_results = take (nat (sq_limit q)) (px_results result),
     sd_cache = \<lparr>cm_cached = False, cm_retrieved_at = px_retrieved_at result\<rparr>,
     sd_pagination = \<lparr>pg_page = sq_page q, pg_next_page_available = px_next_page_available result\<rparr>,
     sd_usage = \<lparr>su_upstream_attempts = attempts, su_rate_units = attempts,
        su_billable_attempts = (if billable d then attempts else 0), su_internal_retries = max 0 (attempts - 1)\<rparr>\<rparr>"

text \<open>The rest of an item after the cache and the single flight lock; pydantic refuses usage numbers
  out of range and more than 16 warnings.\<close>

definition execute_and_store ::
  "search_service \<Rightarrow> ExecutionContext \<Rightarrow> ProviderDescriptor \<Rightarrow> SearchQuery \<Rightarrow> string option \<Rightarrow> string \<Rightarrow> int
   \<Rightarrow> SearchQueryData BatchItemResult sio" where
  "execute_and_store sv cx d q region identity index w =
     try_seq (execute_attempts sv cx d q region index w) (\<lambda>(result, attempts) w.
     let data = query_data d q result attempts in
     if \<not> search_query_data_ok data then (Inl SXOther, w)
     else try_seq (if sp_cache_mode (ss_policy sv) = MODE_DISABLED then (Inr True, w)
         else best_effort_cache_put sv cx (pd_provider_id d) identity data w) (\<lambda>stored w.
       let item = success_item index data (px_warnings result @ (if stored then [] else [warning ''cache_write_failed''])) in
       if \<not> batch_item_ok item then (Inl SXOther, w) else (Inr item, w)))"

definition cached_value :: "CacheLookup \<Rightarrow> SearchQueryData option" where
  "cached_value c = (if cl_state c = CACHE_HIT then cl_value c else None)"

definition cache_call :: "search_service \<Rightarrow> ExecutionContext \<Rightarrow> string \<Rightarrow> CacheLookup sio" where
  "cache_call sv cx identity = bounded_await (ss_ports sv) cx (pure_call (\<lambda>n. po_cache_get (ss_ports sv) n identity))"

text \<open>What runs with a single flight lease in hand, and the \<open>finally\<close> that gives it back.\<close>

definition flight_item ::
  "search_service \<Rightarrow> ExecutionContext \<Rightarrow> ProviderDescriptor \<Rightarrow> SearchQuery \<Rightarrow> string option \<Rightarrow> string \<Rightarrow> int
   \<Rightarrow> SingleFlightLease \<Rightarrow> SearchQueryData BatchItemResult sio" where
  "flight_item sv cx d q region identity index lease w =
     try_seq (cache_call sv cx identity w) (\<lambda>cached w. case cached_value cached of
       Some v \<Rightarrow> (Inr (cache_hit index v), w)
     | None \<Rightarrow> if \<not> sf_holder lease
         then (Inl (SXAttempt (attempt_error CAPACITY ''single_flight_wait_exhausted'' True BEFORE_DISPATCH None None)), w)
         else execute_and_store sv cx d q region identity index w)"

definition unknown_stage :: "ExecutionStage \<Rightarrow> bool" where
  "unknown_stage s \<longleftrightarrow> s = SIDE_EFFECT_POSSIBLE \<or> s = RESPONSE_LOST"

text \<open>The \<open>except\<close> clauses of \<open>_search_item\<close>.\<close>

fun item_error :: "int \<Rightarrow> search_exc \<Rightarrow> search_exc + SearchQueryData BatchItemResult" where
  "item_error index (SXResolution code) = Inr (error_item index LO_REJECTED UNSUPPORTED code)"
| "item_error index (SXAttempt e) =
     Inr (search_item_result index (if unknown_stage (ae_stage e) then LO_UNKNOWN else LO_FAILED) (ae_error e))"
| "item_error index SXCooperative = Inr (error_item index LO_CANCELLED CANCELLED_CATEGORY ''search_cancelled'')"
| "item_error index SXDeadline = Inr (error_item index LO_FAILED TIMEOUT ''search_deadline_exceeded'')"
| "item_error index e = Inl e"

definition handle_item ::
  "int \<Rightarrow> (search_exc + SearchQueryData BatchItemResult) \<times> search_world
   \<Rightarrow> (search_exc + SearchQueryData BatchItemResult) \<times> search_world" where
  "handle_item index m = (case m of (Inl e, w) \<Rightarrow> (item_error index e, w) | (Inr r, w) \<Rightarrow> (Inr r, w))"

fun lift_resolution :: "resolution_error + 'a \<Rightarrow> search_exc + 'a" where
  "lift_resolution (Inl c) = Inl (SXResolution c)"
| "lift_resolution (Inr x) = Inr x"

definition item_region :: "search_service \<Rightarrow> SearchQuery \<Rightarrow> SearchProviderId \<Rightarrow> search_exc + string option" where
  "item_region sv q pid = (case sq_region q of None \<Rightarrow> Inr None
     | Some r \<Rightarrow> res_bind (lift_resolution (provider_region (ss_regions sv) r pid)) (\<lambda>x. Inr (Some x)))"

definition item_plan ::
  "search_service \<Rightarrow> SearchQuery \<Rightarrow> search_exc + ProviderDescriptor \<times> string option" where
  "item_plan sv q = res_bind (lift_resolution (resolve (ss_providers sv) (sq_provider q))) (\<lambda>d.
     res_bind (lift_resolution (validate_capabilities d q)) (\<lambda>_.
     res_bind (item_region sv q (pd_provider_id d)) (\<lambda>region. Inr (d, region))))"

definition search_item ::
  "search_service \<Rightarrow> ExecutionContext \<Rightarrow> int \<Rightarrow> SearchQuery \<Rightarrow> SearchQueryData BatchItemResult sio" where
  "search_item sv cx index q w = (let po = ss_ports sv in case item_plan sv q of
     Inl e \<Rightarrow> handle_item index (Inl e, w)
   | Inr (d, region) \<Rightarrow>
      (let identity = cache_identity sv cx q (pd_provider_id d) (pd_configuration_revision d) in
       if sp_cache_mode (ss_policy sv) = MODE_DISABLED
       then handle_item index (execute_and_store sv cx d q region identity index w)
       else case cache_call sv cx identity w of
         (Inl e, w) \<Rightarrow> handle_item index (Inl e, w)
       | (Inr cached, w) \<Rightarrow> (case cached_value cached of
           Some v \<Rightarrow> (Inr (cache_hit index v), w)
         | None \<Rightarrow> (case bounded_await po cx (pure_call (\<lambda>n. po_flight po n identity (sw_remaining cx w))) w of
             (Inl e, w) \<Rightarrow> handle_item index (Inl e, w)
           | (Inr lease, w) \<Rightarrow>
               (let m = handle_item index (flight_item sv cx d q region identity index lease (emit (EvFlight lease) w)) in
                if sf_holder lease
                then finally_do m (\<lambda>w. plain_await po (\<lambda>w. (Inr (), w)) (emit (EvFlightReleased lease) w))
                else m)))))"

subsection \<open>The batch\<close>

text \<open>\<open>run\<close>: an item waits for a slot of the semaphore first.\<close>

definition run_item ::
  "search_service \<Rightarrow> ExecutionContext \<Rightarrow> int \<Rightarrow> SearchQuery \<Rightarrow> SearchQueryData BatchItemResult sio" where
  "run_item sv cx index q w = (case bounded_await (ss_ports sv) cx (pure_call (\<lambda>_. Inr ())) w of
     (Inl SXCooperative, w) \<Rightarrow> (Inr (error_item index LO_CANCELLED CANCELLED_CATEGORY ''search_cancelled''), w)
   | (Inl SXDeadline, w) \<Rightarrow> (Inr (error_item index LO_FAILED TIMEOUT ''search_deadline_exceeded''), w)
   | (Inl e, w) \<Rightarrow> (Inl e, w)
   | (Inr _, w) \<Rightarrow> search_item sv cx index q w)"

text \<open>The items share nothing but the ports, whose answers are arbitrary, and rows of the usage table with
  different item numbers.\<close>

definition gather_items ::
  "search_service \<Rightarrow> ExecutionContext \<Rightarrow> int \<Rightarrow> SearchQuery list \<Rightarrow> search_world
   \<Rightarrow> (search_exc + SearchQueryData BatchItemResult list) \<times> search_world" where
  "gather_items sv cx = gather_all (run_item sv cx)"

definition aggregate_error :: "OperationOutcome \<Rightarrow> SearchQueryData BatchItemResult list \<Rightarrow> OperationError" where
  "aggregate_error outcome items =
     (let candidates = filter (\<lambda>i. bi_error i \<noteq> None) items;
          candidates = (if outcome = OO_UNKNOWN then filter (\<lambda>i. bi_outcome i = LO_UNKNOWN) candidates else candidates)
      in case candidates of [] \<Rightarrow> op_error INTERNAL ''search_batch_unsuccessful''
         | i # _ \<Rightarrow> the (bi_error i))"

definition with_deadline :: "search_service \<Rightarrow> ExecutionContext \<Rightarrow> search_world \<Rightarrow> ExecutionContext" where
  "with_deadline sv cx w = (case cx_deadline cx of Some d \<Rightarrow> cx
     | None \<Rightarrow> cx\<lparr>cx_deadline := deadline_after (sw_clock w) (sp_operation_timeout_seconds (ss_policy sv))\<rparr>)"

definition search ::
  "search_service \<Rightarrow> ExecutionContext \<Rightarrow> SearchQuery list \<Rightarrow> SearchQueryData BatchItemResult list OperationResult sio" where
  "search sv cx qs w = (case require_scope (cx_principal cx) ''search:read'' of
     Inl f \<Rightarrow> (Inl (SXAuth f), w)
   | Inr _ \<Rightarrow>
      try_seq (gather_items sv (with_deadline sv cx w) 0 qs w) (\<lambda>items w.
      case aggregate_batch_outcome (map bi_outcome items) of Inl _ \<Rightarrow> (Inl SXOther, w)
      | Inr outcome \<Rightarrow> (Inr \<lparr>or_operation_id = cx_operation_id cx, or_outcome = outcome, or_data = Some items,
          or_error = (if outcome \<in> {OO_SUCCEEDED, OO_PARTIAL_SUCCESS} then None else Some (aggregate_error outcome items)),
          or_warnings = [], or_hints = []\<rparr>, w)))"


section \<open>The protocol of an item\<close>

text \<open>
  An automaton over the events of one item: a concurrency lease is held during a dispatch and
  given back before the next one is taken, likewise the single flight lease; a dispatch to a
  billable provider needs committed evidence and must be armed: it is the first one or the
  previous one failed before it left the process.
\<close>

record item_state =
  is_armed :: bool
  is_held :: "ConcurrencyLease option"
  is_flight :: "SingleFlightLease option"
  is_count :: nat

definition item_start :: item_state where
  "item_start = \<lparr>is_armed = True, is_held = None, is_flight = None, is_count = 0\<rparr>"

definition evidence :: "string \<Rightarrow> SearchProviderId \<Rightarrow> int \<Rightarrow> int \<Rightarrow> usage_db \<Rightarrow> bool" where
  "evidence oid pid index attempt db \<longleftrightarrow> (\<exists>r. find_attempt (oid, index, pid, attempt) db = Some r
     \<and> at_stage r = DISPATCH_POSSIBLE \<and> at_outcome_code r = Some ''unknown'')"

definition item_step ::
  "ProviderDescriptor \<Rightarrow> string \<Rightarrow> int \<Rightarrow> item_state \<Rightarrow> search_event \<Rightarrow> item_state option" where
  "item_step d oid index s e = (case e of
     EvAcquired l \<Rightarrow> if is_held s = None then Some (s\<lparr>is_held := Some l\<rparr>) else None
   | EvReleased l \<Rightarrow> if is_held s = Some l then Some (s\<lparr>is_held := None\<rparr>) else None
   | EvFlight l \<Rightarrow> if is_flight s = None then Some (s\<lparr>is_flight := (if sf_holder l then Some l else None)\<rparr>) else None
   | EvFlightReleased l \<Rightarrow> if is_flight s = Some l then Some (s\<lparr>is_flight := None\<rparr>) else None
   | EvDispatch pid i a db \<Rightarrow>
       if pid = pd_provider_id d \<and> i = index \<and> is_held s \<noteq> None
         \<and> (billable d \<longrightarrow> is_armed s \<and> evidence oid pid index a db)
       then Some (s\<lparr>is_armed := False, is_count := Suc (is_count s)\<rparr>) else None
   | EvFailed pid i a st \<Rightarrow> Some (s\<lparr>is_armed := (st = BEFORE_DISPATCH)\<rparr>))"

fun item_run ::
  "ProviderDescriptor \<Rightarrow> string \<Rightarrow> int \<Rightarrow> item_state \<Rightarrow> search_event list \<Rightarrow> item_state option" where
  "item_run d oid index s [] = Some s"
| "item_run d oid index s (e # es) = (case item_step d oid index s e of None \<Rightarrow> None
     | Some s' \<Rightarrow> item_run d oid index s' es)"

lemma item_run_append:
  "item_run d oid index s (es @ fs) = (case item_run d oid index s es of None \<Rightarrow> None
     | Some s' \<Rightarrow> item_run d oid index s' fs)"
  by (induction es arbitrary: s) (auto split: option.split)

subsection \<open>Triples over the automaton\<close>

text \<open>An assertion speaks of the automaton's state, the committed usage table and the open view.\<close>

type_synonym item_assn = "item_state \<Rightarrow> usage_db \<Rightarrow> usage_db \<Rightarrow> bool"

definition triple ::
  "ProviderDescriptor \<Rightarrow> string \<Rightarrow> int \<Rightarrow> item_assn \<Rightarrow> 'a sio \<Rightarrow> (search_exc + 'a \<Rightarrow> item_assn) \<Rightarrow> bool" where
  "triple d oid index P m Q \<longleftrightarrow> (\<forall>w s. P s (sw_usage w) (sw_view w) \<longrightarrow>
     (\<exists>es s'. sw_trace (snd (m w)) = sw_trace w @ es \<and> item_run d oid index s es = Some s'
        \<and> Q (fst (m w)) s' (sw_usage (snd (m w))) (sw_view (snd (m w)))))"

lemma tripleE:
  assumes "triple d oid i P m Q" "P s (sw_usage w) (sw_view w)"
  obtains es s' where "sw_trace (snd (m w)) = sw_trace w @ es" "item_run d oid i s es = Some s'"
    "Q (fst (m w)) s' (sw_usage (snd (m w))) (sw_view (snd (m w)))"
  using assms unfolding triple_def by blast

lemma triple_conseq:
  "triple d oid i P m Q \<Longrightarrow> (\<And>s u v. P' s u v \<Longrightarrow> P s u v) \<Longrightarrow> (\<And>r s u v. Q r s u v \<Longrightarrow> Q' r s u v) \<Longrightarrow>
     triple d oid i P' m Q'"
  unfolding triple_def by meson

lemma triple_pre_ex: "(\<And>x. triple d oid i (P x) m Q) \<Longrightarrow> triple d oid i (\<lambda>s u v. \<exists>x. P x s u v) m Q"
  unfolding triple_def by blast

lemma triple_return: "(\<And>s u v. P s u v \<Longrightarrow> Q r s u v) \<Longrightarrow> triple d oid i P (\<lambda>w. (r, w)) Q"
  by (simp add: triple_def)

lemma triple_seq:
  assumes m: "triple d oid i P m R"
    and f: "\<And>x. triple d oid i (R (Inr x)) (f x) Q"
    and e: "\<And>e s u v. R (Inl e) s u v \<Longrightarrow> Q (Inl e) s u v"
  shows "triple d oid i P (\<lambda>w. try_seq (m w) f) Q"
  unfolding triple_def
proof (intro allI impI)
  fix w :: search_world and s assume "P s (sw_usage w) (sw_view w)"
  then obtain es s' where es: "sw_trace (snd (m w)) = sw_trace w @ es" "item_run d oid i s es = Some s'"
      "R (fst (m w)) s' (sw_usage (snd (m w))) (sw_view (snd (m w)))"
    using m unfolding triple_def by blast
  obtain x w1 where mw: "m w = (x, w1)" by fastforce
  show "\<exists>es s'. sw_trace (snd (try_seq (m w) f)) = sw_trace w @ es \<and> item_run d oid i s es = Some s'
      \<and> Q (fst (try_seq (m w) f)) s' (sw_usage (snd (try_seq (m w) f))) (sw_view (snd (try_seq (m w) f)))"
  proof (cases x)
    case (Inl err)
    then show ?thesis using es e mw by auto
  next
    case (Inr y)
    then obtain fs s2 where fs: "sw_trace (snd (f y w1)) = sw_trace w1 @ fs" "item_run d oid i s' fs = Some s2"
        "Q (fst (f y w1)) s2 (sw_usage (snd (f y w1))) (sw_view (snd (f y w1)))"
      using tripleE [OF f [of y], of s' w1] es(3) mw by auto
    have "item_run d oid i s (es @ fs) = Some s2" using es(2) fs(2) by (simp add: item_run_append)
    then show ?thesis using es(1) fs mw Inr by auto
  qed
qed

lemma tick_simps [simp]:
  "sw_trace (tick po w) = sw_trace w" "sw_usage (tick po w) = sw_usage w" "sw_view (tick po w) = sw_view w"
  by (simp_all add: tick_def)

text \<open>An awaited call: it did not act, or it acted and the answer was lost, or the answer arrived.\<close>

definition lost :: "search_exc \<Rightarrow> bool" where
  "lost e \<longleftrightarrow> e = SXCooperative \<or> e = SXDeadline \<or> e = SXCancelled"

lemma bounded_await_cases:
  obtains e w' where "bounded_await po cx call w = (Inl e, w')" "lost e" "sw_trace w' = sw_trace w"
      "sw_usage w' = sw_usage w" "sw_view w' = sw_view w"
  | e w' where "bounded_await po cx call w = (Inl e, w')" "lost e"
      "sw_trace w' = sw_trace (snd (call (sw_count w) (tick po w)))"
      "sw_usage w' = sw_usage (snd (call (sw_count w) (tick po w)))"
      "sw_view w' = sw_view (snd (call (sw_count w) (tick po w)))"
  | "bounded_await po cx call w = call (sw_count w) (tick po w)"
proof -
  let ?m = "bounded_await po cx call w" and ?c = "call (sw_count w) (tick po w)"
  have "(\<exists>e w'. ?m = (Inl e, w') \<and> lost e \<and> sw_trace w' = sw_trace w \<and> sw_usage w' = sw_usage w \<and> sw_view w' = sw_view w)
    \<or> (\<exists>e w'. ?m = (Inl e, w') \<and> lost e \<and> sw_trace w' = sw_trace (snd ?c)
        \<and> sw_usage w' = sw_usage (snd ?c) \<and> sw_view w' = sw_view (snd ?c))
    \<or> ?m = ?c"
    by (auto simp: bounded_await_def Let_def lost_def split: option.split await_fate.split)
  then show thesis using that by blast
qed

lemma triple_await:
  assumes call: "\<And>n. triple d oid i P (call n) R"
    and keep: "\<And>e s u v. lost e \<Longrightarrow> P s u v \<Longrightarrow> Q (Inl e) s u v"
    and late: "\<And>e r s u v. lost e \<Longrightarrow> R r s u v \<Longrightarrow> Q (Inl e) s u v"
    and ret: "\<And>r s u v. R r s u v \<Longrightarrow> Q r s u v"
  shows "triple d oid i P (bounded_await po cx call) Q"
  unfolding triple_def
proof (intro allI impI)
  fix w :: search_world and s assume P: "P s (sw_usage w) (sw_view w)"
  let ?n = "sw_count w" and ?w = "tick po w"
  obtain es s' where es: "sw_trace (snd (call ?n ?w)) = sw_trace w @ es" "item_run d oid i s es = Some s'"
      "R (fst (call ?n ?w)) s' (sw_usage (snd (call ?n ?w))) (sw_view (snd (call ?n ?w)))"
    using call [of ?n] P unfolding triple_def by (metis tick_simps)
  show "\<exists>es s'. sw_trace (snd (bounded_await po cx call w)) = sw_trace w @ es \<and> item_run d oid i s es = Some s'
      \<and> Q (fst (bounded_await po cx call w)) s' (sw_usage (snd (bounded_await po cx call w)))
          (sw_view (snd (bounded_await po cx call w)))"
  proof (rule bounded_await_cases [of po cx call w])
    fix e w' assume "bounded_await po cx call w = (Inl e, w')" "lost e" "sw_trace w' = sw_trace w"
      "sw_usage w' = sw_usage w" "sw_view w' = sw_view w"
    then show ?thesis using keep P by (intro exI [of _ "[]"] exI [of _ s]) simp
  next
    fix e w' assume "bounded_await po cx call w = (Inl e, w')" "lost e"
      "sw_trace w' = sw_trace (snd (call ?n ?w))" "sw_usage w' = sw_usage (snd (call ?n ?w))"
      "sw_view w' = sw_view (snd (call ?n ?w))"
    then show ?thesis using late es by (intro exI [of _ es] exI [of _ s']) simp
  next
    assume "bounded_await po cx call w = call ?n ?w"
    then show ?thesis using ret es by (intro exI [of _ es] exI [of _ s']) simp
  qed
qed

lemma triple_pure: "triple d oid i P (pure_call f n) (\<lambda>r s u v. P s u v)"
  by (simp add: triple_def pure_call_def)

lemma triple_pure_await:
  "(\<And>r s u v. P s u v \<Longrightarrow> Q r s u v) \<Longrightarrow> triple d oid i P (bounded_await po cx (pure_call f)) Q"
  by (rule triple_await [OF triple_pure]) auto

lemma triple_plain_await: "triple d oid i P (plain_await po (\<lambda>w. (Inr (), w))) (\<lambda>r s u v. P s u v)"
  by (auto simp: triple_def plain_await_def split: await_fate.split)

lemma triple_emit:
  assumes "\<And>s u v. P s u v \<Longrightarrow> \<exists>s'. item_step d oid i s e = Some s' \<and> R s' u v"
    and "triple d oid i R m Q"
  shows "triple d oid i P (\<lambda>w. m (emit e w)) Q"
  unfolding triple_def
proof (intro allI impI)
  fix w :: search_world and s assume "P s (sw_usage w) (sw_view w)"
  then obtain s' where s': "item_step d oid i s e = Some s'" "R s' (sw_usage w) (sw_view w)"
    using assms(1) by blast
  then obtain es s2 where "sw_trace (snd (m (emit e w))) = sw_trace (emit e w) @ es" "item_run d oid i s' es = Some s2"
      "Q (fst (m (emit e w))) s2 (sw_usage (snd (m (emit e w)))) (sw_view (snd (m (emit e w))))"
    using tripleE [OF assms(2), of s' "emit e w"] by (auto simp: emit_def)
  then show "\<exists>es s'. sw_trace (snd (m (emit e w))) = sw_trace w @ es \<and> item_run d oid i s es = Some s'
      \<and> Q (fst (m (emit e w))) s' (sw_usage (snd (m (emit e w)))) (sw_view (snd (m (emit e w))))"
    using s'(1) by (intro exI [of _ "e # es"] exI [of _ s2]) (simp add: emit_def)
qed

lemma triple_finally:
  assumes m: "triple d oid i P m R"
    and c: "\<And>r. triple d oid i (R r) c (S r)"
    and ok: "\<And>r u' s u v. S r (Inr u') s u v \<Longrightarrow> Q r s u v"
    and err: "\<And>r e s u v. S r (Inl e) s u v \<Longrightarrow> Q (Inl e) s u v"
  shows "triple d oid i P (\<lambda>w. finally_do (m w) c) Q"
  unfolding triple_def
proof (intro allI impI)
  fix w :: search_world and s assume "P s (sw_usage w) (sw_view w)"
  then obtain es s' where es: "sw_trace (snd (m w)) = sw_trace w @ es" "item_run d oid i s es = Some s'"
      "R (fst (m w)) s' (sw_usage (snd (m w))) (sw_view (snd (m w)))"
    using m unfolding triple_def by blast
  obtain r w1 where mw: "m w = (r, w1)" by fastforce
  obtain x w2 where cw: "c w1 = (x, w2)" by fastforce
  from c [of r] es(3) mw cw obtain fs s2 where fs: "sw_trace w2 = sw_trace w1 @ fs"
      "item_run d oid i s' fs = Some s2" "S r x s2 (sw_usage w2) (sw_view w2)"
    unfolding triple_def by fastforce
  have run: "item_run d oid i s (es @ fs) = Some s2" using es(2) fs(2) by (simp add: item_run_append)
  have tr: "sw_trace w2 = sw_trace w @ es @ fs" using es(1) fs(1) mw by simp
  show "\<exists>es s'. sw_trace (snd (finally_do (m w) c)) = sw_trace w @ es \<and> item_run d oid i s es = Some s'
      \<and> Q (fst (finally_do (m w) c)) s' (sw_usage (snd (finally_do (m w) c))) (sw_view (snd (finally_do (m w) c)))"
    using run tr fs(3) ok err mw cw by (cases x) (auto simp: finally_do_def)
qed


lemma triple_dep: "(\<And>w0. triple d oid i P (m w0) Q) \<Longrightarrow> triple d oid i P (\<lambda>w. m w w) Q"
  unfolding triple_def by blast

lemma triple_uow:
  assumes "triple d oid i (\<lambda>s u v. P s u \<and> v = u) m R" "\<And>r s u v. R r s u v \<Longrightarrow> Q r s u u"
  shows "triple d oid i (\<lambda>s u v. P s u) (usage_uow m) Q"
  unfolding triple_def
proof (intro allI impI)
  fix w :: search_world and s assume "P s (sw_usage w)"
  then obtain es s' where "sw_trace (snd (m (w\<lparr>sw_view := sw_usage w\<rparr>))) = sw_trace w @ es"
      "item_run d oid i s es = Some s'"
      "R (fst (m (w\<lparr>sw_view := sw_usage w\<rparr>))) s' (sw_usage (snd (m (w\<lparr>sw_view := sw_usage w\<rparr>))))
         (sw_view (snd (m (w\<lparr>sw_view := sw_usage w\<rparr>))))"
    using tripleE [OF assms(1), of s "w\<lparr>sw_view := sw_usage w\<rparr>"] by auto
  then show "\<exists>es s'. sw_trace (snd (usage_uow m w)) = sw_trace w @ es \<and> item_run d oid i s es = Some s'
      \<and> Q (fst (usage_uow m w)) s' (sw_usage (snd (usage_uow m w))) (sw_view (snd (usage_uow m w)))"
    using assms(2) by (cases "m (w\<lparr>sw_view := sw_usage w\<rparr>)") (auto simp: usage_uow_def)
qed

lemma usage_guard_trace [simp]: "snd (usage_guard st m w) = snd (m w)"
  by (simp add: usage_guard_def split: prod.split sum.split search_exc.split)

lemma usage_guard_fst: "fst (usage_guard st m w) = (if fst (m w) = Inl SXUsage then Inl (usage_unavailable st) else fst (m w))"
  by (simp add: usage_guard_def split: prod.split sum.split search_exc.split)

lemma triple_guard:
  "triple d oid i P m Q \<Longrightarrow> (\<And>s u v. Q (Inl SXUsage) s u v \<Longrightarrow> Q (Inl (usage_unavailable st)) s u v) \<Longrightarrow>
     triple d oid i P (usage_guard st m) Q"
  by (auto simp: triple_def usage_guard_fst) metis

subsection \<open>Accounting\<close>

text \<open>A unit of work that runs one statement and commits it: on success the committed table has what
  the statement establishes.\<close>

lemma record_triple:
  assumes "\<And>w v v'. usage_constraints v \<Longrightarrow> F w v = (Inr (), v') \<Longrightarrow> usage_constraints v' \<and> G v'"
  shows "triple d oid i (\<lambda>s u v. s = s0 \<and> usage_constraints u)
    (usage_guard st (usage_uow (\<lambda>w. try_seq (bounded_await po cx (usage_call po (F w)) w) (\<lambda>_. bounded_await po cx (usage_commit po)))))
    (\<lambda>r s u v. s = s0 \<and> usage_constraints u \<and> (\<forall>x. r = Inr x \<longrightarrow> G u))"
proof (rule triple_guard [OF triple_uow])
  show "triple d oid i (\<lambda>s u v. (s = s0 \<and> usage_constraints u) \<and> v = u)
    (\<lambda>w. try_seq (bounded_await po cx (usage_call po (F w)) w) (\<lambda>_. bounded_await po cx (usage_commit po)))
    (\<lambda>r s u v. s = s0 \<and> usage_constraints u \<and> (\<forall>x. r = Inr x \<longrightarrow> G u))"
  proof (rule triple_seq [where R = "\<lambda>r s u v. s = s0 \<and> usage_constraints u \<and> (\<forall>x. r = Inr x \<longrightarrow> usage_constraints v \<and> G v)"])
    show "triple d oid i (\<lambda>s u v. (s = s0 \<and> usage_constraints u) \<and> v = u) (\<lambda>w. bounded_await po cx (usage_call po (F w)) w)
      (\<lambda>r s u v. s = s0 \<and> usage_constraints u \<and> (\<forall>x. r = Inr x \<longrightarrow> usage_constraints v \<and> G v))"
    proof (rule triple_dep, rule triple_await)
      fix w0 n
      show "triple d oid i (\<lambda>s u v. (s = s0 \<and> usage_constraints u) \<and> v = u) (usage_call po (F w0) n)
        (\<lambda>r s u v. s = s0 \<and> usage_constraints u \<and> (\<forall>x. r = Inr x \<longrightarrow> usage_constraints v \<and> G v))"
        unfolding triple_def
      proof (intro allI impI)
        fix w :: search_world and s assume w: "(s = s0 \<and> usage_constraints (sw_usage w)) \<and> sw_view w = sw_usage w"
        obtain x v' where x: "F w0 (sw_view w) = (x, v')" by fastforce
        show "\<exists>es s'. sw_trace (snd (usage_call po (F w0) n w)) = sw_trace w @ es \<and> item_run d oid i s es = Some s'
          \<and> s' = s0 \<and> usage_constraints (sw_usage (snd (usage_call po (F w0) n w)))
          \<and> (\<forall>x. fst (usage_call po (F w0) n w) = Inr x \<longrightarrow> usage_constraints (sw_view (snd (usage_call po (F w0) n w)))
              \<and> G (sw_view (snd (usage_call po (F w0) n w))))"
          using w x assms [of "sw_view w" w0 v'] by (cases x) (auto simp: usage_call_def)
      qed
    qed auto
  next
    fix x :: unit
    show "triple d oid i (\<lambda>s u v. s = s0 \<and> usage_constraints u \<and> (\<forall>y. Inr x = Inr y \<longrightarrow> usage_constraints v \<and> G v))
      (bounded_await po cx (usage_commit po)) (\<lambda>r s u v. s = s0 \<and> usage_constraints u \<and> (\<forall>x. r = Inr x \<longrightarrow> G u))"
    proof (rule triple_await)
      fix n
      show "triple d oid i (\<lambda>s u v. s = s0 \<and> usage_constraints u \<and> (\<forall>y. Inr x = Inr y \<longrightarrow> usage_constraints v \<and> G v))
        (usage_commit po n) (\<lambda>r s u v. s = s0 \<and> usage_constraints u \<and> (\<forall>x. r = Inr x \<longrightarrow> G u))"
        by (auto simp: triple_def usage_commit_def split: usage_fate.split)
    qed auto
  qed auto
qed auto


abbreviation settled :: "item_state \<Rightarrow> (usage_db \<Rightarrow> bool) \<Rightarrow> search_exc + 'a \<Rightarrow> item_assn" where
  "settled s0 G r s u v \<equiv> s = s0 \<and> usage_constraints u \<and> (\<forall>x. r = Inr x \<longrightarrow> G u)"

lemma record_start_triple:
  "triple d oid i (\<lambda>s u v. s = s0 \<and> usage_constraints u) (record_attempt_start po cx pid index attempt)
     (settled s0 (\<lambda>u. True))"
  unfolding record_attempt_start_def by (rule record_triple) (use start_attempt_cases in blast)

lemma record_stage_triple:
  "triple d oid i (\<lambda>s u v. s = s0 \<and> usage_constraints u)
     (record_attempt_stage po cx pid index attempt stage outcome reason rid fstage)
     (settled s0 (\<lambda>u. \<exists>r. find_attempt (cx_operation_id cx, index, pid, attempt) u = Some r \<and> at_stage r = stage
        \<and> (outcome \<noteq> None \<longrightarrow> at_outcome_code r = outcome)))"
  unfolding record_attempt_stage_def
proof (rule record_triple)
  fix w :: search_world and v v'
  assume c: "usage_constraints v"
    and m: "mark_stage (ck_utc_now (sw_clock w)) (cx_operation_id cx) pid index attempt stage outcome reason rid v = (Inr (), v')"
  have "usage_constraints v'"
    using mark_stage_keeps [OF c] m by (metis snd_conv)
  moreover obtain r where "find_attempt (cx_operation_id cx, index, pid, attempt) v' =
      Some (stage_update (ck_utc_now (sw_clock w)) stage outcome reason rid r)"
    using mark_stage_success [OF c m] by blast
  ultimately show "usage_constraints v' \<and> (\<exists>r. find_attempt (cx_operation_id cx, index, pid, attempt) v' = Some r
      \<and> at_stage r = stage \<and> (outcome \<noteq> None \<longrightarrow> at_outcome_code r = outcome))"
    by (auto simp: stage_update_def coalesce_def)
qed

lemma record_before_triple:
  "triple d oid i (\<lambda>s u v. s = s0 \<and> usage_constraints u) (record_before_dispatch sv cx d' index attempt)
     (settled s0 (\<lambda>u. billable d' \<longrightarrow> evidence (cx_operation_id cx) (pd_provider_id d') index attempt u))"
proof (cases "billable d' \<and> ss_usage_configured sv")
  case True
  have seq: "record_before_dispatch sv cx d' index attempt = (\<lambda>w.
      try_seq (record_attempt_start (ss_ports sv) cx (pd_provider_id d') index attempt w) (\<lambda>_.
        record_attempt_stage (ss_ports sv) cx (pd_provider_id d') index attempt DISPATCH_POSSIBLE
          (Some ''unknown'') None None BEFORE_DISPATCH))"
    using True by (simp add: record_before_dispatch_def fun_eq_iff)
  show ?thesis
    unfolding seq
    by (rule triple_seq [OF record_start_triple])
      (rule triple_conseq [OF record_stage_triple], auto simp: evidence_def)
next
  case False
  then have eq: "record_before_dispatch sv cx d' index attempt =
      (\<lambda>w. (if billable d' then Inl (usage_unavailable BEFORE_DISPATCH) else Inr (), w))"
    by (auto simp: record_before_dispatch_def fun_eq_iff)
  show ?thesis unfolding eq by (rule triple_return) auto
qed

subsection \<open>Attempts\<close>

text \<open>The state of an item around one attempt: what is held stays held, at most one more dispatch.\<close>

definition attempted :: "item_state \<Rightarrow> nat \<Rightarrow> item_state \<Rightarrow> usage_db \<Rightarrow> bool" where
  "attempted s0 n s u \<longleftrightarrow> usage_constraints u \<and> is_held s = is_held s0 \<and> is_flight s = is_flight s0
     \<and> is_count s \<le> is_count s0 + n"

lemma provider_call_triple:
  assumes "is_held s0 \<noteq> None" "billable d \<longrightarrow> is_armed s0"
  shows "triple d oid i (\<lambda>s u v. s = s0 \<and> usage_constraints u \<and> (billable d \<longrightarrow> evidence oid (pd_provider_id d) i a u))
    (provider_call po d req i a n)
    (\<lambda>r s u v. attempted s0 1 s u \<and> (\<forall>e. r = Inl (SXAttempt e) \<longrightarrow> is_armed s = (ae_stage e = BEFORE_DISPATCH)))"
proof -
  have step: "item_step d oid i s0 (EvDispatch (pd_provider_id d) i a u) =
      Some (s0\<lparr>is_armed := False, is_count := Suc (is_count s0)\<rparr>)"
    if "billable d \<longrightarrow> evidence oid (pd_provider_id d) i a u" for u
    using that assms by (auto simp: item_step_def)
  show ?thesis
    unfolding triple_def
  proof (intro allI impI)
    fix w :: search_world and s
    assume w: "s = s0 \<and> usage_constraints (sw_usage w) \<and> (billable d \<longrightarrow> evidence oid (pd_provider_id d) i a (sw_usage w))"
    let ?es = "EvDispatch (pd_provider_id d) i a (sw_usage w) # (case po_search po n d req of
        Inl (Some e) \<Rightarrow> [EvFailed (pd_provider_id d) i a (ae_stage e)] | _ \<Rightarrow> [])"
    let ?s = "case po_search po n d req of
        Inl (Some e) \<Rightarrow> s0\<lparr>is_armed := (ae_stage e = BEFORE_DISPATCH), is_count := Suc (is_count s0)\<rparr>
      | _ \<Rightarrow> s0\<lparr>is_armed := False, is_count := Suc (is_count s0)\<rparr>"
    show "\<exists>es s'. sw_trace (snd (provider_call po d req i a n w)) = sw_trace w @ es \<and> item_run d oid i s es = Some s'
      \<and> attempted s0 1 s' (sw_usage (snd (provider_call po d req i a n w)))
      \<and> (\<forall>e. fst (provider_call po d req i a n w) = Inl (SXAttempt e) \<longrightarrow> is_armed s' = (ae_stage e = BEFORE_DISPATCH))"
      by (intro exI [of _ ?es] exI [of _ ?s])
        (use w step [of "sw_usage w"] in \<open>auto simp: provider_call_def Let_def emit_def attempted_def item_step_def [of _ _ _ _ "EvFailed _ _ _ _"]
          split: sum.split option.split\<close>)
  qed
qed

lemma wait_triple:
  "triple d oid i (\<lambda>s u v. s = s0 \<and> usage_constraints u) (wait_before_retry sv cx attempt e)
     (settled s0 (\<lambda>u. True))"
proof -
  have "triple d oid i (\<lambda>s u v. s = s0 \<and> usage_constraints u) (\<lambda>w. (if b w then bounded_await po cx (pure_call f) w else (x w, w)))
      (settled s0 (\<lambda>u. True))" for b :: "search_world \<Rightarrow> bool" and po and f :: "nat \<Rightarrow> unit + unit" and x
    using triple_pure_await [of "\<lambda>s u v. s = s0 \<and> usage_constraints u" "settled s0 (\<lambda>u. True)" d oid i po cx f]
    unfolding triple_def by auto
  from this [of "\<lambda>w. \<not> (case sw_remaining cx w of None \<Rightarrow> False | Some r \<Rightarrow> r \<le> 0
         \<or> r \<le> retry_delay (ss_policy sv) attempt (po_random (ss_ports sv) (sw_count w)) e)
       \<and> retry_delay (ss_policy sv) attempt (po_random (ss_ports sv) (sw_count w)) e \<noteq> 0" "ss_ports sv" "\<lambda>_. Inr ()"
     "\<lambda>w. if (case sw_remaining cx w of None \<Rightarrow> False | Some r \<Rightarrow> r \<le> 0
         \<or> r \<le> retry_delay (ss_policy sv) attempt (po_random (ss_ports sv) (sw_count w)) e) then Inl SXDeadline else Inr ()"]
  show ?thesis
    by (rule back_subst [of "\<lambda>m. triple d oid i _ m _"]) (auto simp: wait_before_retry_def Let_def fun_eq_iff)
qed


lemma triple_bind:
  assumes m: "triple d oid i P m R" and k: "\<And>r. triple d oid i (R r) (k r) Q"
  shows "triple d oid i P (\<lambda>w. case m w of (r, w') \<Rightarrow> k r w') Q"
  unfolding triple_def
proof (intro allI impI)
  fix w :: search_world and s assume "P s (sw_usage w) (sw_view w)"
  then obtain es s' where es: "sw_trace (snd (m w)) = sw_trace w @ es" "item_run d oid i s es = Some s'"
      "R (fst (m w)) s' (sw_usage (snd (m w))) (sw_view (snd (m w)))"
    using tripleE [OF m] by metis
  obtain r w1 where mw: "m w = (r, w1)" by fastforce
  then obtain fs s2 where fs: "sw_trace (snd (k r w1)) = sw_trace w1 @ fs" "item_run d oid i s' fs = Some s2"
      "Q (fst (k r w1)) s2 (sw_usage (snd (k r w1))) (sw_view (snd (k r w1)))"
    using tripleE [OF k [of r], of s' w1] es(3) by auto
  have "item_run d oid i s (es @ fs) = Some s2" using es(2) fs(2) by (simp add: item_run_append)
  then show "\<exists>es s'. sw_trace (snd (case m w of (r, w') \<Rightarrow> k r w')) = sw_trace w @ es \<and> item_run d oid i s es = Some s'
      \<and> Q (fst (case m w of (r, w') \<Rightarrow> k r w')) s' (sw_usage (snd (case m w of (r, w') \<Rightarrow> k r w')))
          (sw_view (snd (case m w of (r, w') \<Rightarrow> k r w')))"
    using es(1) fs mw by (intro exI [of _ "es @ fs"] exI [of _ s2]) auto
qed

lemma triple_if_record:
  assumes "triple d oid i (\<lambda>s u v. s = s0 \<and> usage_constraints u) m (settled s0 G)"
  shows "triple d oid i (\<lambda>s u v. s = s0 \<and> usage_constraints u) (\<lambda>w. if b then m w else (Inr (), w)) (settled s0 (\<lambda>u. True))"
  using assms unfolding triple_def by (cases b) auto

lemma triple_state: "(\<And>s0. P' s0 \<Longrightarrow> triple d oid i (\<lambda>s u v. s = s0 \<and> P s u v) m Q) \<Longrightarrow>
    (\<And>s u v. P s u v \<Longrightarrow> P' s) \<Longrightarrow> triple d oid i P m Q"
  unfolding triple_def by blast

abbreviation retried :: "search_service \<Rightarrow> ProviderDescriptor \<Rightarrow> int \<Rightarrow> search_exc + ProviderSearchResult option \<Rightarrow> item_state \<Rightarrow> bool" where
  "retried sv d a r s \<equiv> r = Inr None \<longrightarrow> (billable d \<longrightarrow> is_armed s) \<and> a < max_attempts (ss_policy sv) (pd_provider_id d)"

lemma attempt_failed_triple:
  assumes "is_armed s0 = (ae_stage e = BEFORE_DISPATCH)"
  shows "triple d oid i (\<lambda>s u v. s = s0 \<and> usage_constraints u) (attempt_failed sv cx d index attempt e)
     (\<lambda>r s u v. s = s0 \<and> usage_constraints u \<and> retried sv d attempt r s)"
  unfolding attempt_failed_def Let_def
proof (rule triple_seq [OF triple_if_record [OF record_stage_triple]])
  fix x :: unit
  let ?b = "attempt < max_attempts (ss_policy sv) (pd_provider_id d) \<and> retry_allowed (billable d) e"
  have "triple d oid i (settled s0 (\<lambda>u. True) (Inr x))
    (\<lambda>w. try_seq (wait_before_retry sv cx attempt e w) (\<lambda>_ w. (Inr None, w)))
    (\<lambda>r s u v. s = s0 \<and> usage_constraints u \<and> retried sv d attempt r s)" if "?b"
    by (rule triple_seq [OF triple_conseq [OF wait_triple]])
      (use that assms in \<open>auto intro!: triple_return simp: retry_allowed_def split: if_splits\<close>)
  then show "triple d oid i (settled s0 (\<lambda>u. True) (Inr x))
    (\<lambda>w. if ?b then try_seq (wait_before_retry sv cx attempt e w) (\<lambda>_ w. (Inr None, w)) else (Inl (SXAttempt e), w))
    (\<lambda>r s u v. s = s0 \<and> usage_constraints u \<and> retried sv d attempt r s)"
    by (cases ?b) (auto intro: triple_return)
qed simp

lemma leased_attempt_triple:
  assumes s0: "is_held s0 \<noteq> None" "billable d \<longrightarrow> is_armed s0" and oid: "oid = cx_operation_id cx"
  shows "triple d oid i (\<lambda>s u v. s = s0 \<and> usage_constraints u) (leased_attempt sv cx d q region i attempt)
    (\<lambda>r s u v. attempted s0 1 s u \<and> retried sv d attempt r s)"
  unfolding leased_attempt_def
proof (rule triple_seq [OF record_before_triple], rule triple_bind)
  fix x :: unit
  let ?R = "\<lambda>r s u v. attempted s0 1 s u \<and> (\<forall>e. r = Inl (SXAttempt e) \<longrightarrow> is_armed s = (ae_stage e = BEFORE_DISPATCH))"
  let ?P = "settled s0 (\<lambda>u. billable d \<longrightarrow> evidence (cx_operation_id cx) (pd_provider_id d) i attempt u) (Inr x)"
  show "triple d oid i ?P (bounded_await (ss_ports sv) cx (provider_call (ss_ports sv) d
      (provider_request q (pd_provider_id d) region) i attempt)) ?R"
    by (rule triple_await [OF triple_conseq [OF provider_call_triple [OF s0]]])
      (auto simp: oid attempted_def lost_def)
  fix r :: "search_exc + ProviderSearchResult"
  show "triple d oid i (?R r) (\<lambda>w. case r of
      Inl SXCooperative \<Rightarrow> (Inl (if billable d then after_dispatch ''search_cancelled_after_dispatch'' else SXCooperative), w)
    | Inl SXDeadline \<Rightarrow> (Inl (if billable d then after_dispatch ''search_deadline_after_dispatch'' else SXDeadline), w)
    | Inl (SXAttempt e) \<Rightarrow> attempt_failed sv cx d i attempt e w
    | Inl e \<Rightarrow> (Inl e, w)
    | Inr result \<Rightarrow> try_seq (if billable d \<and> ss_usage_configured sv
           then record_attempt_stage (ss_ports sv) cx (pd_provider_id d) i attempt COMPLETED
             (Some ''succeeded'') None (px_provider_request_id result) RESPONSE_LOST w
           else (Inr (), w)) (\<lambda>_ w. (Inr (Some result), w)))
    (\<lambda>r s u v. attempted s0 1 s u \<and> retried sv d attempt r s)"
  proof (cases r)
    case (Inr result)
    let ?m = "\<lambda>w. try_seq (if billable d \<and> ss_usage_configured sv
           then record_attempt_stage (ss_ports sv) cx (pd_provider_id d) i attempt COMPLETED
             (Some ''succeeded'') None (px_provider_request_id result) RESPONSE_LOST w
           else (Inr (), w)) (\<lambda>_ w. (Inr (Some result), w))"
    have "triple d oid i (\<lambda>s u v. s = s1 \<and> usage_constraints u) ?m
        (\<lambda>r s u v. s = s1 \<and> usage_constraints u \<and> r \<noteq> Inr None)" for s1
      by (rule triple_seq [OF triple_if_record [OF record_stage_triple]]) (auto intro: triple_return)
    then have "triple d oid i (\<lambda>s u v. s = s1 \<and> attempted s0 1 s u) ?m
        (\<lambda>r s u v. attempted s0 1 s u \<and> retried sv d attempt r s)" if "attempted s0 1 s1 []" for s1
      by (rule triple_conseq) (use that in \<open>auto simp: attempted_def\<close>)
    then have "triple d oid i (\<lambda>s u v. attempted s0 1 s u) ?m
        (\<lambda>r s u v. attempted s0 1 s u \<and> retried sv d attempt r s)"
      by (rule triple_state [where P' = "\<lambda>s. attempted s0 1 s []"]) (auto simp: attempted_def usage_constraints_def)
    then show ?thesis using Inr by simp
  next
    case (Inl e)
    show ?thesis
    proof (cases e)
      case (SXAttempt err)
      have "triple d oid i (\<lambda>s u v. s = s1 \<and> ?R (Inl (SXAttempt err)) s u v) (attempt_failed sv cx d i attempt err)
          (\<lambda>r s u v. attempted s0 1 s u \<and> retried sv d attempt r s)"
        if "is_armed s1 = (ae_stage err = BEFORE_DISPATCH) \<and> attempted s0 1 s1 []" for s1
        by (rule triple_conseq [OF attempt_failed_triple [of s1]]) (use that in \<open>auto simp: attempted_def\<close>)
      then have "triple d oid i (?R (Inl (SXAttempt err))) (attempt_failed sv cx d i attempt err)
          (\<lambda>r s u v. attempted s0 1 s u \<and> retried sv d attempt r s)"
        by (rule triple_state [where P' = "\<lambda>s. is_armed s = (ae_stage err = BEFORE_DISPATCH) \<and> attempted s0 1 s []"])
          (auto simp: attempted_def usage_constraints_def)
      then show ?thesis using Inl SXAttempt by simp
    qed (use Inl in \<open>auto intro!: triple_return\<close>)
  qed
qed (auto simp: attempted_def)

text \<open>The lease is taken and given back around the attempt.\<close>

lemma one_attempt_triple:
  assumes s0: "is_held s0 = None" "billable d \<longrightarrow> is_armed s0" and oid: "oid = cx_operation_id cx"
  shows "triple d oid i (\<lambda>s u v. s = s0 \<and> usage_constraints u) (one_attempt sv cx d q region i attempt)
    (\<lambda>r s u v. attempted s0 1 s u \<and> retried sv d attempt r s)"
proof -
  let ?P = "\<lambda>s u v. s = s0 \<and> usage_constraints u"
  let ?Q = "\<lambda>r s u v. attempted s0 1 s u \<and> retried sv d attempt r s"
  have idle: "?P s u v \<Longrightarrow> ?Q (Inl e) s u v" for s u v e by (simp add: attempted_def)
  have leased: "triple d oid i ?P (\<lambda>w. finally_do (leased_attempt sv cx d q region i attempt (emit (EvAcquired l) w))
         (\<lambda>w. plain_await po (\<lambda>w. (Inr (), w)) (emit (EvReleased l) w))) ?Q" for po l
  proof (rule triple_finally [where S = "\<lambda>r x s u v. ?Q r s u v"])
    let ?s1 = "s0\<lparr>is_held := Some l\<rparr>"
    show "triple d oid i ?P (\<lambda>w. leased_attempt sv cx d q region i attempt (emit (EvAcquired l) w))
        (\<lambda>r s u v. attempted ?s1 1 s u \<and> retried sv d attempt r s)"
      by (rule triple_emit [where m = "leased_attempt sv cx d q region i attempt",
            OF _ leased_attempt_triple [of ?s1]]) (use s0 oid in \<open>auto simp: item_step_def\<close>)
    fix r :: "search_exc + ProviderSearchResult option"
    show "triple d oid i (\<lambda>s u v. attempted ?s1 1 s u \<and> retried sv d attempt r s)
        (\<lambda>w. plain_await po (\<lambda>w. (Inr (), w)) (emit (EvReleased l) w)) (\<lambda>x s u v. ?Q r s u v)"
      by (rule triple_emit [where m = "plain_await po (\<lambda>w. (Inr (), w))", OF _ triple_plain_await])
        (use s0 in \<open>auto simp: item_step_def attempted_def\<close>)
  qed auto
  have no_lease: "triple d oid i ?P (\<lambda>w. (Inl e, w)) ?Q" for e by (rule triple_return) (rule idle)
  have check: "triple d oid i ?P (\<lambda>w. (x, w)) (\<lambda>r. ?P)" for x :: "search_exc + unit" by (rule triple_return)
  show ?thesis
    unfolding one_attempt_def Let_def
    apply (rule triple_seq [where R = "\<lambda>r. ?P"])
      apply (rule triple_dep [where m = "\<lambda>w0. bounded_await _ cx (pure_call (\<lambda>n. po_admit _ n _ _ (sw_remaining cx w0)))"])
      apply (rule triple_pure_await, assumption)
     apply (rule triple_seq [OF check])
      apply (rule triple_seq [where R = "\<lambda>r. ?P"])
        apply (rule triple_dep [where m = "\<lambda>w0. bounded_await _ cx (pure_call (\<lambda>n. po_acquire _ n _ (sw_remaining cx w0)))"])
        apply (rule triple_pure_await, assumption)
    subgoal for admission u lease
      by (cases lease) (use leased no_lease in auto)
    by (auto simp: attempted_def)
qed


subsection \<open>The loop ends inside\<close>

definition never :: "search_exc \<Rightarrow> 'a sio \<Rightarrow> bool" where
  "never e m \<longleftrightarrow> (\<forall>w. fst (m w) \<noteq> Inl e)"

lemma never_bind:
  assumes "never e m" "\<And>r. r \<noteq> Inl e \<Longrightarrow> never e (k r)"
  shows "never e (\<lambda>w. case m w of (r, w') \<Rightarrow> k r w')"
  unfolding never_def
proof
  fix w
  obtain r w1 where "m w = (r, w1)" by fastforce
  then show "fst (case m w of (r, w') \<Rightarrow> k r w') \<noteq> Inl e"
    using assms unfolding never_def by (metis (no_types, lifting) case_prod_conv fst_conv)
qed

lemma never_seq:
  fixes m :: "'a sio"
  assumes m: "never e m" and f: "\<And>x. never e (f x)"
  shows "never e (\<lambda>w. try_seq (m w) f)"
proof -
  have "never e (\<lambda>w. case m w of (r, w') \<Rightarrow> (\<lambda>r w. try_seq (r, w) f) r w')"
  proof (rule never_bind [OF m])
    fix r :: "search_exc + 'a" assume "r \<noteq> Inl e"
    then show "never e (\<lambda>w. try_seq (r, w) f)" using f by (cases r) (auto simp: never_def)
  qed
  then show ?thesis by (simp add: never_def split_beta)
qed

lemma never_await: "(\<And>n. never e (call n)) \<Longrightarrow> \<not> lost e \<Longrightarrow> never e (bounded_await po cx call)"
  unfolding never_def
proof
  fix w assume c: "\<And>n. \<forall>w. fst (call n w) \<noteq> Inl e" "\<not> lost e"
  show "fst (bounded_await po cx call w) \<noteq> Inl e"
    by (rule bounded_await_cases [of po cx call w]) (use c in auto)
qed

lemma never_pure: "e \<noteq> SXOther \<Longrightarrow> never e (pure_call f n)"
  by (simp add: never_def pure_call_def split: sum.split)

lemma triple_never:
  "triple d oid i P m Q \<Longrightarrow> never e m \<Longrightarrow> triple d oid i P m (\<lambda>r s u v. Q r s u v \<and> r \<noteq> Inl e)"
  unfolding triple_def never_def by blast


lemma never_return [simp]: "never e (\<lambda>w. (r, w)) \<longleftrightarrow> r \<noteq> Inl e"
  by (simp add: never_def)

lemma never_usage:
  "never SXUnreachable (usage_call po f n)" "never SXUnreachable (usage_commit po n)"
  by (auto simp: never_def usage_call_def usage_commit_def split: prod.split sum.split usage_fate.split)

lemma never_uow: "never e m \<Longrightarrow> never e (usage_uow m)"
  by (auto simp: never_def usage_uow_def split: prod.split) (metis fst_conv)

lemma never_guard: "never SXUnreachable m \<Longrightarrow> never SXUnreachable (usage_guard st m)"
  by (simp add: never_def usage_guard_fst usage_unavailable_def)

lemma not_lost [simp]: "\<not> lost SXUnreachable"
  by (simp add: lost_def)

lemma never_dep: "(\<And>w0. never e (m w0)) \<Longrightarrow> never e (\<lambda>w. m w w)"
  by (simp add: never_def)

lemma never_record:
  "never SXUnreachable (record_attempt_start po cx pid index attempt)"
  "never SXUnreachable (record_attempt_stage po cx pid index attempt stage outcome reason rid fstage)"
  unfolding record_attempt_start_def record_attempt_stage_def
  by (intro never_guard never_uow never_seq never_await never_usage never_dep
      [where m = "\<lambda>w0. bounded_await po cx (usage_call po (_ w0))"] not_lost)+

lemma never_wait: "never SXUnreachable (wait_before_retry sv cx attempt e)"
  using never_await [where call = "pure_call (\<lambda>_. Inr ())" and e = SXUnreachable and po = "ss_ports sv" and cx = cx]
    never_pure [of SXUnreachable "\<lambda>_. Inr ()"]
  by (auto simp: never_def wait_before_retry_def Let_def)

lemma never_one_attempt: "never SXUnreachable (one_attempt sv cx d q region i attempt)"
proof -
  have rec: "never SXUnreachable (\<lambda>w. if b then record_attempt_stage po cx pid index a stage oc rr rid fs w else (Inr (), w))"
    for b po pid index a stage oc rr rid fs
    using never_record(2) by (cases b) auto
  have before: "never SXUnreachable (record_before_dispatch sv cx d i attempt)"
  proof -
    have "never SXUnreachable (\<lambda>w. try_seq (record_attempt_start (ss_ports sv) cx (pd_provider_id d) i attempt w)
        (\<lambda>_. record_attempt_stage (ss_ports sv) cx (pd_provider_id d) i attempt DISPATCH_POSSIBLE
          (Some ''unknown'') None None BEFORE_DISPATCH))"
      by (intro never_seq never_record)
    then show ?thesis by (auto simp: never_def record_before_dispatch_def usage_unavailable_def)
  qed
  have failed: "never SXUnreachable (attempt_failed sv cx d i attempt e)" for e
  proof -
    have "never SXUnreachable (\<lambda>w. if b then try_seq (wait_before_retry sv cx attempt e w) (\<lambda>_ w. (Inr None, w))
        else (Inl (SXAttempt e), w))" for b
      by (cases b) (simp_all add: never_seq [OF never_wait, of "\<lambda>_ w. (Inr None, w)"])
    then show ?thesis unfolding attempt_failed_def Let_def by (intro never_seq rec)
  qed
  have call: "never SXUnreachable (bounded_await (ss_ports sv) cx (provider_call (ss_ports sv) d req i attempt))" for req
    by (rule never_await) (auto simp: never_def provider_call_def Let_def split: sum.split option.split)
  have done_: "never SXUnreachable (\<lambda>w. try_seq (if billable d \<and> ss_usage_configured sv
           then record_attempt_stage (ss_ports sv) cx (pd_provider_id d) i attempt COMPLETED
             (Some ''succeeded'') None (px_provider_request_id result) RESPONSE_LOST w
           else (Inr (), w)) (\<lambda>_ w. (Inr (Some result), w)))" for result
    by (rule never_seq [OF rec]) simp
  have leased: "never SXUnreachable (leased_attempt sv cx d q region i attempt)"
    unfolding leased_attempt_def
  proof (rule never_seq [OF before])
    fix x :: unit
    let ?m = "bounded_await (ss_ports sv) cx (provider_call (ss_ports sv) d (provider_request q (pd_provider_id d) region) i attempt)"
    show "never SXUnreachable (\<lambda>w. case ?m w of
       (Inr result, w) \<Rightarrow>
         try_seq (if billable d \<and> ss_usage_configured sv
           then record_attempt_stage (ss_ports sv) cx (pd_provider_id d) i attempt COMPLETED
             (Some ''succeeded'') None (px_provider_request_id result) RESPONSE_LOST w
           else (Inr (), w)) (\<lambda>_ w. (Inr (Some result), w))
     | (Inl SXCooperative, w) \<Rightarrow> (Inl (if billable d then after_dispatch ''search_cancelled_after_dispatch'' else SXCooperative), w)
     | (Inl SXDeadline, w) \<Rightarrow> (Inl (if billable d then after_dispatch ''search_deadline_after_dispatch'' else SXDeadline), w)
     | (Inl (SXAttempt e), w) \<Rightarrow> attempt_failed sv cx d i attempt e w
     | (Inl e, w) \<Rightarrow> (Inl e, w))"
    proof (rule never_bind [OF call])
      fix r :: "search_exc + ProviderSearchResult" assume "r \<noteq> Inl SXUnreachable"
      then show "never SXUnreachable (\<lambda>w. case r of
          Inl SXCooperative \<Rightarrow> (Inl (if billable d then after_dispatch ''search_cancelled_after_dispatch'' else SXCooperative), w)
        | Inl SXDeadline \<Rightarrow> (Inl (if billable d then after_dispatch ''search_deadline_after_dispatch'' else SXDeadline), w)
        | Inl (SXAttempt e) \<Rightarrow> attempt_failed sv cx d i attempt e w
        | Inl e \<Rightarrow> (Inl e, w)
        | Inr result \<Rightarrow> try_seq (if billable d \<and> ss_usage_configured sv
             then record_attempt_stage (ss_ports sv) cx (pd_provider_id d) i attempt COMPLETED
               (Some ''succeeded'') None (px_provider_request_id result) RESPONSE_LOST w
             else (Inr (), w)) (\<lambda>_ w. (Inr (Some result), w)))"
        using failed done_ by (cases r; cases "projl r") (auto simp: after_dispatch_def)
    qed
  qed
  have fin: "never SXUnreachable (\<lambda>w. finally_do (leased_attempt sv cx d q region i attempt (emit (EvAcquired l) w))
       (\<lambda>w. plain_await (ss_ports sv) (\<lambda>w. (Inr (), w)) (emit (EvReleased l) w)))" for l
  proof -
    have "never SXUnreachable (\<lambda>w. leased_attempt sv cx d q region i attempt (emit (EvAcquired l) w))"
      using leased by (simp add: never_def)
    then show ?thesis
      unfolding finally_do_def
      by (rule never_bind) (auto simp: never_def plain_await_def split: await_fate.split sum.split prod.split)
  qed
  have check: "admission_check a \<noteq> Inl SXUnreachable" for a
    by (simp add: admission_check_def split: RateAdmissionStatus.split)
  have tail: "never SXUnreachable (\<lambda>w. case lease of
       None \<Rightarrow> (Inl (SXAttempt (attempt_error CAPACITY ''provider_capacity_unavailable'' True BEFORE_DISPATCH None None)), w)
     | Some l \<Rightarrow> finally_do (leased_attempt sv cx d q region i attempt (emit (EvAcquired l) w))
         (\<lambda>w. plain_await (ss_ports sv) (\<lambda>w. (Inr (), w)) (emit (EvReleased l) w)))" for lease
    using fin by (cases lease) auto
  show ?thesis
    unfolding one_attempt_def Let_def
    by (intro never_seq tail never_dep [where m = "\<lambda>w0. bounded_await _ cx (pure_call (\<lambda>n. po_admit _ n _ _ (sw_remaining cx w0)))"]
        never_dep [where m = "\<lambda>w0. bounded_await _ cx (pure_call (\<lambda>n. po_acquire _ n _ (sw_remaining cx w0)))"]
        never_await never_pure not_lost) (use check in auto)
qed

lemma execute_from_triple:
  assumes "is_held s0 = None" "billable d \<longrightarrow> is_armed s0" "oid = cx_operation_id cx"
  shows "triple d oid i (\<lambda>s u v. s = s0 \<and> usage_constraints u) (execute_from sv cx d q region i n attempt)
    (\<lambda>r s u v. attempted s0 n s u
       \<and> (0 < n \<longrightarrow> int n = max_attempts (ss_policy sv) (pd_provider_id d) + 1 - attempt \<longrightarrow> r \<noteq> Inl SXUnreachable))"
  using assms(1,2)
proof (induction n arbitrary: s0 attempt)
  case 0
  show ?case by (auto simp: triple_def attempted_def)
next
  case (Suc n)
  let ?max = "max_attempts (ss_policy sv) (pd_provider_id d)"
  let ?Q = "\<lambda>r s u v. attempted s0 (Suc n) s u
      \<and> (0 < Suc n \<longrightarrow> int (Suc n) = ?max + 1 - attempt \<longrightarrow> r \<noteq> Inl SXUnreachable)"
  let ?R = "\<lambda>r s u v. (attempted s0 1 s u \<and> retried sv d attempt r s) \<and> r \<noteq> Inl SXUnreachable"
  have first: "triple d oid i (\<lambda>s u v. s = s0 \<and> usage_constraints u) (one_attempt sv cx d q region i attempt) ?R"
    by (rule triple_never [OF one_attempt_triple never_one_attempt]) (use Suc.prems assms(3) in auto)
  have rest: "triple d oid i (\<lambda>s u v. s = s1 \<and> ?R (Inr None) s u v) (execute_from sv cx d q region i n (attempt + 1)) ?Q"
    if "attempted s0 1 s1 [] \<and> (billable d \<longrightarrow> is_armed s1) \<and> attempt < ?max" for s1
    by (rule triple_conseq [OF Suc.IH [of s1 "attempt + 1"]])
      (use that Suc.prems(1) in \<open>auto simp: attempted_def\<close>)
  have next_: "triple d oid i (?R (Inr None)) (execute_from sv cx d q region i n (attempt + 1)) ?Q"
    by (rule triple_state [where P' = "\<lambda>s. attempted s0 1 s [] \<and> (billable d \<longrightarrow> is_armed s) \<and> attempt < ?max", OF rest])
      (auto simp: attempted_def usage_constraints_def)
  show ?case
    unfolding execute_from.simps
  proof (rule triple_seq [OF first])
    fix x
    show "triple d oid i (?R (Inr x)) (\<lambda>w. case x of Some result \<Rightarrow> (Inr (result, attempt), w)
        | None \<Rightarrow> execute_from sv cx d q region i n (attempt + 1) w) ?Q"
      using next_ by (cases x) (auto intro!: triple_return simp: attempted_def)
  qed (auto simp: attempted_def)
qed


subsection \<open>The whole item\<close>

lemma triple_handle: "triple d oid i P m (\<lambda>r. B) \<Longrightarrow> triple d oid i P (\<lambda>w. handle_item j (m w)) (\<lambda>r. B)"
  unfolding triple_def handle_item_def by (auto split: prod.split sum.split) (metis fst_conv snd_conv)+

lemma execute_and_store_triple:
  assumes "is_held s0 = None" "is_armed s0" "oid = cx_operation_id cx"
  shows "triple d oid i (\<lambda>s u v. s = s0 \<and> usage_constraints u) (execute_and_store sv cx d q region identity i)
    (\<lambda>r s u v. attempted s0 (nat (max_attempts (ss_policy sv) (pd_provider_id d))) s u)"
proof -
  let ?n = "nat (max_attempts (ss_policy sv) (pd_provider_id d))"
  let ?B = "\<lambda>s u v. attempted s0 ?n s u"
  have put: "triple d oid i ?B (best_effort_cache_put sv cx pid idn data) (\<lambda>r. ?B)" for pid idn data
    unfolding best_effort_cache_put_def
  proof (rule triple_bind [OF triple_pure_await [where Q = "\<lambda>r. ?B"]])
    fix r :: "search_exc + bool"
    show "triple d oid i ?B (\<lambda>w. case r of Inl SXCancelled \<Rightarrow> (Inl SXCancelled, w) | Inl e \<Rightarrow> (Inr False, w)
        | Inr stored \<Rightarrow> (Inr stored, w)) (\<lambda>r. ?B)"
      by (cases r; cases "projl r") (auto intro: triple_return)
  qed
  have maybe: "triple d oid i ?B (\<lambda>w. if b then (Inr True, w) else best_effort_cache_put sv cx pid idn data w) (\<lambda>r. ?B)"
    for b pid idn data using put by (cases b) (auto intro: triple_return)
  have leaf: "triple d oid i ?B (\<lambda>w. if c then (x, w) else (y, w)) (\<lambda>r. ?B)"
    for c and x y :: "search_exc + SearchQueryData BatchItemResult"
    by (cases c) (auto intro: triple_return)
  show ?thesis
    unfolding execute_and_store_def execute_attempts_def
  proof (rule triple_seq [where R = "\<lambda>r. ?B"])
    show "triple d oid i (\<lambda>s u v. s = s0 \<and> usage_constraints u) (execute_from sv cx d q region i ?n 1) (\<lambda>r. ?B)"
      by (rule triple_conseq [OF execute_from_triple]) (use assms in auto)
  next
    fix x :: "ProviderSearchResult \<times> int"
    obtain result attempts where x: "x = (result, attempts)" by fastforce
    let ?data = "query_data d q result attempts"
    show "triple d oid i ?B (case x of (result, attempts) \<Rightarrow> \<lambda>w. let data = query_data d q result attempts in
       if \<not> search_query_data_ok data then (Inl SXOther, w)
       else try_seq (if sp_cache_mode (ss_policy sv) = MODE_DISABLED then (Inr True, w)
         else best_effort_cache_put sv cx (pd_provider_id d) identity data w) (\<lambda>stored w.
         let item = success_item i data (px_warnings result @ (if stored then [] else [warning ''cache_write_failed''])) in
         if \<not> batch_item_ok item then (Inl SXOther, w) else (Inr item, w))) (\<lambda>r. ?B)"
      unfolding x case_prod_conv Let_def
      using triple_seq [OF maybe leaf] by (cases "search_query_data_ok ?data") (auto intro: triple_return)
  qed simp
qed

lemma flight_item_triple:
  assumes "is_held s0 = None" "is_armed s0" "oid = cx_operation_id cx"
  shows "triple d oid i (\<lambda>s u v. s = s0 \<and> usage_constraints u) (flight_item sv cx d q region identity i lease)
    (\<lambda>r s u v. attempted s0 (nat (max_attempts (ss_policy sv) (pd_provider_id d))) s u)"
  unfolding flight_item_def cache_call_def
proof (rule triple_seq [where R = "\<lambda>r s u v. s = s0 \<and> usage_constraints u"], rule triple_pure_await, assumption)
  fix x
  let ?P = "\<lambda>s u v. s = s0 \<and> usage_constraints u"
  let ?Q = "\<lambda>r s u v. attempted s0 (nat (max_attempts (ss_policy sv) (pd_provider_id d))) s u"
  show "triple d oid i ?P (\<lambda>w. case cached_value x of Some v \<Rightarrow> (Inr (cache_hit i v), w)
     | None \<Rightarrow> if \<not> sf_holder lease
         then (Inl (SXAttempt (attempt_error CAPACITY ''single_flight_wait_exhausted'' True BEFORE_DISPATCH None None)), w)
         else execute_and_store sv cx d q region identity i w) ?Q"
    using execute_and_store_triple [OF assms]
    by (cases "cached_value x"; cases "sf_holder lease") (auto intro!: triple_return simp: attempted_def)
qed (simp add: attempted_def)

definition item_final :: "search_service \<Rightarrow> ProviderDescriptor \<Rightarrow> item_state \<Rightarrow> usage_db \<Rightarrow> bool" where
  "item_final sv d s u \<longleftrightarrow> usage_constraints u \<and> is_held s = None \<and> is_flight s = None
     \<and> is_count s \<le> nat (max_attempts (ss_policy sv) (pd_provider_id d))"

lemma flight_triple:
  assumes "oid = cx_operation_id cx"
  shows "triple d oid i (\<lambda>s u v. s = item_start \<and> usage_constraints u)
    (\<lambda>w. let m = handle_item i (flight_item sv cx d q region identity i lease (emit (EvFlight lease) w)) in
       if sf_holder lease
       then finally_do m (\<lambda>w. plain_await po (\<lambda>w. (Inr (), w)) (emit (EvFlightReleased lease) w)) else m)
    (\<lambda>r s u v. item_final sv d s u)"
proof -
  let ?s1 = "item_start\<lparr>is_flight := (if sf_holder lease then Some lease else None)\<rparr>"
  let ?n = "nat (max_attempts (ss_policy sv) (pd_provider_id d))"
  have body: "triple d oid i (\<lambda>s u v. s = item_start \<and> usage_constraints u)
      (\<lambda>w. handle_item i (flight_item sv cx d q region identity i lease (emit (EvFlight lease) w)))
      (\<lambda>r s u v. attempted ?s1 ?n s u)"
    by (rule triple_handle, rule triple_emit [where m = "flight_item sv cx d q region identity i lease",
          OF _ flight_item_triple [of ?s1]]) (use assms in \<open>auto simp: item_step_def item_start_def\<close>)
  have given: "triple d oid i (\<lambda>s u v. attempted ?s1 ?n s u)
      (\<lambda>w. plain_await po (\<lambda>w. (Inr (), w)) (emit (EvFlightReleased lease) w)) (\<lambda>r s u v. item_final sv d s u)"
    if "sf_holder lease"
    by (rule triple_emit [where m = "plain_await po (\<lambda>w. (Inr (), w))", OF _ triple_plain_await])
      (use that in \<open>auto simp: item_step_def attempted_def item_final_def item_start_def\<close>)
  show ?thesis
  proof (cases "sf_holder lease")
    case True
    then show ?thesis
      using triple_finally [OF body given [OF True], where Q = "\<lambda>r s u v. item_final sv d s u"]
      by (simp add: Let_def)
  next
    case False
    have "triple d oid i (\<lambda>s u v. s = item_start \<and> usage_constraints u)
      (\<lambda>w. handle_item i (flight_item sv cx d q region identity i lease (emit (EvFlight lease) w)))
      (\<lambda>r s u v. item_final sv d s u)"
      by (rule triple_conseq [OF body]) (use False in \<open>auto simp: attempted_def item_final_def item_start_def\<close>)
    then show ?thesis using False by (simp add: Let_def)
  qed
qed

lemma search_item_triple:
  assumes plan: "item_plan sv q = Inr (d, region)" and oid: "oid = cx_operation_id cx"
  shows "triple d oid i (\<lambda>s u v. s = item_start \<and> usage_constraints u) (search_item sv cx i q)
    (\<lambda>r s u v. item_final sv d s u)"
proof -
  let ?P = "\<lambda>s u v. s = item_start \<and> usage_constraints u"
  let ?Q = "\<lambda>r s u v. item_final sv d s u"
  let ?id = "cache_identity sv cx q (pd_provider_id d) (pd_configuration_revision d)"
  have final: "?P s u v \<Longrightarrow> item_final sv d s u" for s u and v :: usage_db
    by (simp add: item_final_def item_start_def)
  have ret: "triple d oid i ?P (\<lambda>w. handle_item i (x, w)) ?Q" "triple d oid i ?P (\<lambda>w. (x, w)) ?Q"
    for x :: "search_exc + SearchQueryData BatchItemResult"
    using final by (cases x; auto simp: handle_item_def intro!: triple_return)+
  have direct: "triple d oid i ?P (\<lambda>w. handle_item i (execute_and_store sv cx d q region ?id i w)) ?Q"
    by (rule triple_conseq [OF triple_handle [OF execute_and_store_triple [of item_start]]])
      (use oid in \<open>auto simp: item_start_def attempted_def item_final_def\<close>)
  have flight: "triple d oid i ?P (\<lambda>w. case bounded_await (ss_ports sv) cx
        (pure_call (\<lambda>n. po_flight (ss_ports sv) n ?id (sw_remaining cx w))) w of
      (Inl e, w) \<Rightarrow> handle_item i (Inl e, w)
    | (Inr lease, w) \<Rightarrow> (let m = handle_item i (flight_item sv cx d q region ?id i lease (emit (EvFlight lease) w)) in
         if sf_holder lease
         then finally_do m (\<lambda>w. plain_await (ss_ports sv) (\<lambda>w. (Inr (), w)) (emit (EvFlightReleased lease) w)) else m)) ?Q"
  proof (rule triple_bind [OF triple_dep [where m = "\<lambda>w0. bounded_await (ss_ports sv) cx
        (pure_call (\<lambda>n. po_flight (ss_ports sv) n ?id (sw_remaining cx w0)))", OF triple_pure_await [where Q = "\<lambda>r. ?P"]]])
    fix r :: "search_exc + SingleFlightLease"
    show "triple d oid i ?P (\<lambda>w. case r of Inl e \<Rightarrow> handle_item i (Inl e, w)
      | Inr lease \<Rightarrow> (let m = handle_item i (flight_item sv cx d q region ?id i lease (emit (EvFlight lease) w)) in
         if sf_holder lease
         then finally_do m (\<lambda>w. plain_await (ss_ports sv) (\<lambda>w. (Inr (), w)) (emit (EvFlightReleased lease) w)) else m)) ?Q"
      using ret flight_triple [OF oid] by (cases r) simp_all
  qed simp
  have cached: "triple d oid i ?P (\<lambda>w. case cache_call sv cx ?id w of
      (Inl e, w) \<Rightarrow> handle_item i (Inl e, w)
    | (Inr cached, w) \<Rightarrow> (case cached_value cached of Some v \<Rightarrow> (Inr (cache_hit i v), w)
      | None \<Rightarrow> (case bounded_await (ss_ports sv) cx (pure_call (\<lambda>n. po_flight (ss_ports sv) n ?id (sw_remaining cx w))) w of
          (Inl e, w) \<Rightarrow> handle_item i (Inl e, w)
        | (Inr lease, w) \<Rightarrow> (let m = handle_item i (flight_item sv cx d q region ?id i lease (emit (EvFlight lease) w)) in
            if sf_holder lease
            then finally_do m (\<lambda>w. plain_await (ss_ports sv) (\<lambda>w. (Inr (), w)) (emit (EvFlightReleased lease) w)) else m)))) ?Q"
    unfolding cache_call_def
  proof (rule triple_bind [OF triple_pure_await [where Q = "\<lambda>r. ?P"]])
    fix r :: "search_exc + CacheLookup"
    show "triple d oid i ?P (\<lambda>w. case r of Inl e \<Rightarrow> handle_item i (Inl e, w)
      | Inr cached \<Rightarrow> (case cached_value cached of Some v \<Rightarrow> (Inr (cache_hit i v), w)
      | None \<Rightarrow> (case bounded_await (ss_ports sv) cx (pure_call (\<lambda>n. po_flight (ss_ports sv) n ?id (sw_remaining cx w))) w of
          (Inl e, w) \<Rightarrow> handle_item i (Inl e, w)
        | (Inr lease, w) \<Rightarrow> (let m = handle_item i (flight_item sv cx d q region ?id i lease (emit (EvFlight lease) w)) in
            if sf_holder lease
            then finally_do m (\<lambda>w. plain_await (ss_ports sv) (\<lambda>w. (Inr (), w)) (emit (EvFlightReleased lease) w)) else m)))) ?Q"
      using ret flight by (cases r; cases "cached_value (projr r)") simp_all
  qed simp
  show ?thesis
    using direct cached plan unfolding search_item_def Let_def
    by (cases "sp_cache_mode (ss_policy sv) = MODE_DISABLED") simp_all
qed


subsection \<open>Reading a protocol run\<close>

lemma item_run_split:
  assumes "item_run d oid i s (es @ e # fs) = Some s'"
  obtains s1 s2 where "item_run d oid i s es = Some s1" "item_step d oid i s1 e = Some s2" "item_run d oid i s2 fs = Some s'"
  using assms by (auto simp: item_run_append split: option.splits)

text \<open>An unarmed item stays unarmed until an attempt is known to have failed before its dispatch.\<close>

lemma unarmed_run:
  assumes "item_run d oid i s es = Some s'" "\<not> is_armed s"
    and "\<forall>p j a. EvFailed p j a BEFORE_DISPATCH \<notin> set es"
  shows "\<not> is_armed s'"
  using assms
proof (induction es arbitrary: s)
  case (Cons e es)
  then obtain s1 where s1: "item_step d oid i s e = Some s1" "item_run d oid i s1 es = Some s'"
    by (auto split: option.splits)
  have "e \<noteq> EvFailed p j a BEFORE_DISPATCH" for p j a using Cons.prems(3) by auto
  then have "\<not> is_armed s1"
    using s1(1) Cons.prems(2) by (cases e) (auto simp: item_step_def split: if_splits)
  then show ?case using Cons.IH [OF s1(2)] Cons.prems(3) by auto
qed simp

lemma no_double_charge:
  assumes run: "item_run d oid i s (xs @ EvDispatch p j a db # ys @ EvDispatch p' j' a' db' # zs) = Some s'"
    and bill: "billable d"
  shows "\<exists>q k b. EvFailed q k b BEFORE_DISPATCH \<in> set ys"
proof (rule ccontr)
  assume none: "\<not> ?thesis"
  obtain s1 s2 where s2: "item_step d oid i s1 (EvDispatch p j a db) = Some s2"
      "item_run d oid i s2 (ys @ EvDispatch p' j' a' db' # zs) = Some s'"
    using item_run_split [OF run] by blast
  obtain s3 s4 where s3: "item_run d oid i s2 ys = Some s3" "item_step d oid i s3 (EvDispatch p' j' a' db') = Some s4"
    using item_run_split [OF s2(2)] by blast
  have "\<not> is_armed s2" using s2(1) by (auto simp: item_step_def split: if_splits)
  then have "\<not> is_armed s3" using unarmed_run [OF s3(1)] none by blast
  then show False using s3(2) bill by (auto simp: item_step_def split: if_splits)
qed

lemma dispatch_evidence:
  assumes "item_run d oid i s es = Some s'" "EvDispatch p j a db \<in> set es" "billable d"
  shows "p = pd_provider_id d \<and> j = i \<and> evidence oid p i a db"
proof -
  obtain xs ys where "es = xs @ EvDispatch p j a db # ys" using assms(2) by (auto simp: in_set_conv_decomp)
  then obtain s1 s2 where "item_step d oid i s1 (EvDispatch p j a db) = Some s2"
    using item_run_split assms(1) by metis
  then show ?thesis using assms(3) by (auto simp: item_step_def split: if_splits)
qed

subsection \<open>Items and batches\<close>

definition item_good :: "int \<Rightarrow> search_exc + SearchQueryData BatchItemResult \<Rightarrow> bool" where
  "item_good i r \<longleftrightarrow> (\<forall>item. r = Inr item \<longrightarrow> batch_item_ok item \<and> bi_index item = i)"

lemma item_good_simps [simp]:
  "item_good i (Inl e)" "0 \<le> i \<Longrightarrow> item_good i (Inr (error_item i LO_REJECTED c k))"
  "0 \<le> i \<Longrightarrow> item_good i (Inr (error_item i LO_CANCELLED c k))"
  "0 \<le> i \<Longrightarrow> item_good i (Inr (error_item i LO_FAILED c k))"
  "0 \<le> i \<Longrightarrow> item_good i (Inr (search_item_result i LO_UNKNOWN e'))"
  "0 \<le> i \<Longrightarrow> item_good i (Inr (search_item_result i LO_FAILED e'))"
  "0 \<le> i \<Longrightarrow> item_good i (Inr (cache_hit i v))"
  by (simp_all add: item_good_def error_item_def search_item_result_def cache_hit_def success_item_def batch_item_ok_def)

lemma item_error_good: "0 \<le> i \<Longrightarrow> item_good i (item_error i e)"
  by (cases e) simp_all

lemma handle_good: "0 \<le> i \<Longrightarrow> item_good i (fst m) \<Longrightarrow> item_good i (fst (handle_item i m))"
  by (cases m; cases "fst m") (auto simp: handle_item_def item_error_good)

lemma try_seq_good:
  "(\<And>x w. item_good i (fst (f x w))) \<Longrightarrow> item_good i (fst (try_seq m f))"
  by (cases m; cases "fst m") auto

lemma finally_good: "item_good i (fst m) \<Longrightarrow> item_good i (fst (finally_do m c))"
  by (auto simp: finally_do_def split: prod.split sum.split)

lemma store_good: "0 \<le> i \<Longrightarrow> item_good i (fst (execute_and_store sv cx d q region identity i w))"
  unfolding execute_and_store_def
proof (rule try_seq_good)
  fix x :: "ProviderSearchResult \<times> int" and w
  obtain result attempts where x: "x = (result, attempts)" by fastforce
  have checked: "item_good i (fst (if \<not> batch_item_ok item then (Inl SXOther, u) else (Inr item, u)))"
    if "bi_index item = i" for item and u :: search_world
    using that by (simp add: item_good_def)
  show "item_good i (fst ((case x of (result, attempts) \<Rightarrow> \<lambda>w. let data = query_data d q result attempts in
       if \<not> search_query_data_ok data then (Inl SXOther, w)
       else try_seq (if sp_cache_mode (ss_policy sv) = MODE_DISABLED then (Inr True, w)
         else best_effort_cache_put sv cx (pd_provider_id d) identity data w) (\<lambda>stored w.
         let item = success_item i data (px_warnings result @ (if stored then [] else [warning ''cache_write_failed''])) in
         if \<not> batch_item_ok item then (Inl SXOther, w) else (Inr item, w))) w))"
    unfolding x case_prod_conv Let_def
    by (cases "search_query_data_ok (query_data d q result attempts)")
      (simp_all only: simp_thms if_True if_False fst_conv item_good_simps, rule try_seq_good, rule checked,
       simp add: success_item_def)
qed

lemma flight_good: "0 \<le> i \<Longrightarrow> item_good i (fst (flight_item sv cx d q region identity i lease w))"
  unfolding flight_item_def by (rule try_seq_good) (auto simp: store_good split: option.split)

lemma search_item_good:
  assumes "0 \<le> i"
  shows "item_good i (fst (search_item sv cx i q w))"
  using assms
  by (auto simp: search_item_def Let_def store_good flight_good split: sum.split prod.split option.split
      intro!: handle_good finally_good)

lemma run_item_good: "0 \<le> i \<Longrightarrow> item_good i (fst (run_item sv cx i q w))"
  by (auto simp: run_item_def search_item_good split: prod.split sum.split search_exc.split)

lemma gather_items_good:
  assumes "gather_items sv cx i qs w = (Inr items, w')" "0 \<le> i"
  shows "map bi_index items = map (\<lambda>k. i + int k) [0..<length qs] \<and> list_all batch_item_ok items"
  by (rule gather_all_items [OF assms [unfolded gather_items_def]])
    (use run_item_good in \<open>fastforce simp: item_good_def\<close>)

text \<open>The broad error of a batch without success is the error of one of its items.\<close>

lemma aggregate_error_item:
  assumes "list_all batch_item_ok items" "items \<noteq> []" "list_all (\<lambda>x. bi_outcome x \<noteq> LO_SUCCEEDED) items"
    and "outcome = OO_UNKNOWN \<longrightarrow> (\<exists>x \<in> set items. bi_outcome x = LO_UNKNOWN)"
  shows "\<exists>item \<in> set items. bi_error item = Some (aggregate_error outcome items)
     \<and> (outcome = OO_UNKNOWN \<longrightarrow> bi_outcome item = LO_UNKNOWN)"
proof -
  have err: "bi_error x \<noteq> None" if "x \<in> set items" for x
    using assms(1,3) that by (auto simp: list_all_iff batch_item_ok_def)
  let ?c = "filter (\<lambda>i. bi_error i \<noteq> None) items"
  let ?d = "if outcome = OO_UNKNOWN then filter (\<lambda>i. bi_outcome i = LO_UNKNOWN) ?c else ?c"
  have "?d \<noteq> []" using assms(2,4) err by (auto simp: filter_empty_conv)
  then obtain x xs where x: "?d = x # xs" by (cases ?d) auto
  then have "x \<in> set ?d" by simp
  then have mem: "x \<in> set items" "bi_error x \<noteq> None" "outcome = OO_UNKNOWN \<longrightarrow> bi_outcome x = LO_UNKNOWN"
    by (auto split: if_splits)
  have "aggregate_error outcome items = the (bi_error x)"
    using x unfolding aggregate_error_def Let_def by simp
  then show ?thesis using mem by auto
qed


subsection \<open>Cache identities\<close>

lemma provider_value_inj [simp]: "provider_value a = provider_value b \<longleftrightarrow> a = b"
  by (cases a; cases b) simp_all

lemma safe_value_inj [simp]: "safe_value a = safe_value b \<longleftrightarrow> a = b"
  by (cases a; cases b) simp_all

lemma range_value_inj [simp]: "range_value a = range_value b \<longleftrightarrow> a = b"
  by (cases a; cases b) simp_all

lemma cache_mode_value_inj [simp]: "cache_mode_value a = cache_mode_value b \<longleftrightarrow> a = b"
  by (cases a; cases b) simp_all

lemma opt_str_inj [simp]: "opt_str a = opt_str b \<longleftrightarrow> a = b"
  by (simp add: opt_str_def split: option.split)

lemma opt_str_plain [simp]: "json_plain (opt_str a)" "json_scalar (opt_str a)"
  by (simp_all add: opt_str_def split: option.split)

lemma map_option_inj [simp]:
  "map_option safe_value a = map_option safe_value b \<longleftrightarrow> a = b"
  "map_option range_value c = map_option range_value e \<longleftrightarrow> c = e"
  by (cases a; cases b; simp) (cases c; cases e; simp)

lemma payload_keys: "map fst (identity_payload sv cx q pid rvn) = map fst (identity_payload sv' cx' q' pid' rvn')"
  by (simp add: identity_payload_def)

lemma payload_distinct: "distinct (map fst (identity_payload sv cx q pid rvn))"
  by (simp add: identity_payload_def)

lemma payload_plain:
  assumes "search_query_ok q"
  shows "json_plain (JObj (sort_key fst (identity_payload sv cx q pid rvn)))"
    "json_scalar (JObj (sort_key fst (identity_payload sv cx q pid rvn)))"
proof -
  have lim: "\<bar>n\<bar> < int_limit" if "1 \<le> n" "n \<le> 100" for n :: int
    by (rule int_limitI [of n 3]) (use that in auto)
  have "distinct (map fst (sort_key fst (identity_payload sv cx q pid rvn)))"
    using payload_distinct by (metis distinct_map distinct_sort set_sort)
  moreover have "\<forall>m \<in> set (identity_payload sv cx q pid rvn). json_plain (snd m)"
    using lim [of 1] lim [of "sq_page q"] lim [of "sq_limit q"] assms by (simp add: identity_payload_def search_query_ok_def)
  ultimately show "json_plain (JObj (sort_key fst (identity_payload sv cx q pid rvn)))" by simp
  show "json_scalar (JObj (sort_key fst (identity_payload sv cx q pid rvn)))"
    unfolding json_scalar.simps set_sort by (simp add: identity_payload_def)
qed

lemma canonical_identity_inj:
  assumes "search_query_ok q" "search_query_ok q'"
    and "canonical_identity sv cx q pid rvn = canonical_identity sv' cx' q' pid' rvn'"
  shows "identity_payload sv cx q pid rvn = identity_payload sv' cx' q' pid' rvn'"
proof (rule sorted_members_inj [OF _ payload_keys payload_distinct])
  have "JObj (sort_key fst (identity_payload sv cx q pid rvn)) = JObj (sort_key fst (identity_payload sv' cx' q' pid' rvn'))"
    by (rule json_bytes_inj) (use assms payload_plain in \<open>auto simp: canonical_identity_def\<close>)
  then show "sort_key fst (identity_payload sv cx q pid rvn) = sort_key fst (identity_payload sv' cx' q' pid' rvn')" by simp
qed

lemma payload_fields:
  "identity_payload sv cx q pid rvn = identity_payload sv' cx' q' pid' rvn' \<longleftrightarrow>
     pid = pid' \<and> rvn = rvn' \<and> rr_revision (ss_regions sv) = rr_revision (ss_regions sv')
     \<and> sq_query q = sq_query q' \<and> sq_page q = sq_page q' \<and> sq_limit q = sq_limit q' \<and> sq_language q = sq_language q'
     \<and> sq_region q = sq_region q' \<and> sq_safe_search q = sq_safe_search q' \<and> sq_time_range q = sq_time_range q'
     \<and> sp_cache_mode (ss_policy sv) = sp_cache_mode (ss_policy sv')
     \<and> (sp_cache_mode (ss_policy sv) = MODE_PRINCIPAL \<longrightarrow>
          pc_principal_id (cx_principal cx) = pc_principal_id (cx_principal cx'))"
  by (auto simp: identity_payload_def)


subsection \<open>An example service\<close>

definition demo_provider :: ProviderDescriptor where
  "demo_provider = \<lparr>pd_provider_id = YANDEX, pd_name = ''Yandex Search API'', pd_enabled = True,
     pd_capabilities = \<lparr>pc_pagination = True, pc_language = False, pc_region = True, pc_safe_search = True,
       pc_time_range = True, pc_max_results = 20, pc_max_query_length = 400, pc_max_query_words = Some 40,
       pc_max_result_window = Some 250, pc_supported_time_ranges = [RANGE_DAY, RANGE_MONTH], pc_billable = True\<rparr>,
     pd_configuration_revision = ''revision-1''\<rparr>"

definition demo_lease :: ConcurrencyLease where
  "demo_lease = \<lparr>le_provider_id = YANDEX, le_token = ''token''\<rparr>"

definition demo_result :: ProviderSearchResult where
  "demo_result = \<lparr>px_provider_id = YANDEX, px_results = [], px_retrieved_at = 5, px_next_page_available = None,
     px_provider_request_id = Some (cps ''r-1''), px_warnings = []\<rparr>"

text \<open>Ports that always let a call through; the time an answer takes and the lookups are arguments.\<close>

definition demo_ports :: "(nat \<Rightarrow> rat) \<Rightarrow> CacheLookup \<Rightarrow> search_ports" where
  "demo_ports elapsed lookup = \<lparr>po_fate = (\<lambda>_. Completes), po_elapsed = elapsed,
     po_cache_get = (\<lambda>_ _. Inr lookup), po_cache_put = (\<lambda>_ _ _ _. Inr True),
     po_flight = (\<lambda>_ k _. Inr \<lparr>sf_identity = k, sf_holder = True, sf_token = Some ''t''\<rparr>),
     po_admit = (\<lambda>_ _ _ _. Inr \<lparr>ra_status = RATE_ALLOWED, ra_retry_after_seconds = None\<rparr>),
     po_acquire = (\<lambda>_ _ _. Inr (Some demo_lease)), po_search = (\<lambda>_ _ _. Inr demo_result),
     po_usage = (\<lambda>_. UsageRuns), po_random = (\<lambda>_. 0)\<rparr>"

definition demo_policy :: "cache_mode \<Rightarrow> SearchServicePolicy" where
  "demo_policy mode = \<lparr>sp_cache_mode = mode, sp_searxng_cache_ttl_seconds = 300, sp_yandex_cache_ttl_seconds = 300,
     sp_searxng_max_attempts = 2, sp_yandex_max_attempts = 2, sp_batch_concurrency = 8,
     sp_operation_timeout_seconds = 30, sp_retry_backoff_seconds = 1, sp_retry_jitter_ratio = 0\<rparr>"

definition demo_service :: "cache_mode \<Rightarrow> (nat \<Rightarrow> rat) \<Rightarrow> CacheLookup \<Rightarrow> search_service" where
  "demo_service mode elapsed lookup = \<lparr>ss_providers = \<lparr>pr_providers = [demo_provider], pr_default = YANDEX\<rparr>,
     ss_regions = \<lparr>rr_entries = [], rr_revision = ''regions''\<rparr>, ss_policy = demo_policy mode,
     ss_usage_configured = True, ss_ports = demo_ports elapsed lookup\<rparr>"

definition demo_search_query :: SearchQuery where
  "demo_search_query = \<lparr>sq_query = ''isabelle'', sq_provider = SEL_DEFAULT, sq_page = 1, sq_limit = 10,
     sq_language = None, sq_region = None, sq_safe_search = None, sq_time_range = None\<rparr>"

definition demo_search_context :: ExecutionContext where
  "demo_search_context = \<lparr>cx_operation_id = ''op_1'', cx_principal = \<lparr>pc_principal_id = ''alice'', pc_scopes = {''*''},
     pc_registry_revision = None\<rparr>, cx_cancel_requested = False, cx_deadline = Some 30\<rparr>"

definition demo_search_world :: search_world where
  "demo_search_world = \<lparr>sw_count = 0, sw_clock = \<lparr>ck_utc_now = 0, ck_monotonic = 0\<rparr>, sw_cancelled = False,
     sw_usage = [], sw_view = [], sw_trace = []\<rparr>"

definition demo_miss :: CacheLookup where
  "demo_miss = \<lparr>cl_state = CACHE_MISS, cl_value = None\<rparr>"

lemma demo_plan: "item_plan (demo_service mode elapsed lookup) demo_search_query = Inr (demo_provider, None)"
  by code_simp

lemma demo_usage: "usage_constraints (sw_usage demo_search_world)"
  by (simp add: demo_search_world_def usage_constraints_def)

lemma demo_disabled:
  "search_item (demo_service MODE_DISABLED elapsed lookup) cx i demo_search_query w =
     handle_item i (execute_and_store (demo_service MODE_DISABLED elapsed lookup) cx demo_provider demo_search_query None
       (cache_identity (demo_service MODE_DISABLED elapsed lookup) cx demo_search_query YANDEX ''revision-1'') i w)"
  unfolding search_item_def demo_plan Let_def by (simp add: demo_service_def demo_policy_def demo_provider_def)

text \<open>The provider answers a paid query after 100 seconds; the deadline was 30.\<close>

definition slow_service :: search_service where
  "slow_service = demo_service MODE_DISABLED (\<lambda>n. if n = 6 then 100 else 0) demo_miss"

lemma slow_run:
  "execute_and_store slow_service demo_search_context demo_provider demo_search_query None identity 0 demo_search_world =
   (Inl SXDeadline, snd (execute_and_store slow_service demo_search_context demo_provider demo_search_query None identity 0
      demo_search_world))"
  "list_ex (\<lambda>e. case e of EvDispatch p i a db \<Rightarrow> p = YANDEX \<and> i = 0 \<and> a = 1 | _ \<Rightarrow> False)
     (sw_trace (snd (execute_and_store slow_service demo_search_context demo_provider demo_search_query None identity 0
        demo_search_world)))"
  by code_simp+

lemma dispatch_in:
  assumes "list_ex (\<lambda>e. case e of EvDispatch p i a db \<Rightarrow> p = YANDEX \<and> i = 0 \<and> a = 1 | _ \<Rightarrow> False) tr"
  shows "\<exists>db. EvDispatch YANDEX 0 1 db \<in> set tr"
proof -
  obtain e where e: "e \<in> set tr" "case e of EvDispatch p i a db \<Rightarrow> p = YANDEX \<and> i = 0 \<and> a = 1 | _ \<Rightarrow> False"
    using assms by (auto simp: list_ex_iff)
  show ?thesis by (rule search_event.exhaust [of e]) (use e in auto)
qed

section \<open>Properties\<close>



text \<open>C12: No query is paid for twice. In the calls of one item to a billable provider, a second
  dispatch only follows an attempt that failed before its request left the process, and every
  dispatch finds its own attempt row committed at the stage \<open>dispatch_possible\<close> with the outcome
  \<open>unknown\<close>.\<close>

theorem billable_dispatch_discipline:
  assumes "item_plan sv q = Inr (d, region)" "billable d" "usage_constraints (sw_usage w)"
    and "sw_trace (snd (search_item sv cx i q w)) = sw_trace w @ es"
  shows "(\<forall>p j a db. EvDispatch p j a db \<in> set es \<longrightarrow>
            p = pd_provider_id d \<and> j = i \<and> evidence (cx_operation_id cx) p i a db)
    \<and> (\<forall>xs ys zs p j a db p' j' a' db'. es = xs @ EvDispatch p j a db # ys @ EvDispatch p' j' a' db' # zs \<longrightarrow>
            (\<exists>q k b. EvFailed q k b BEFORE_DISPATCH \<in> set ys))"
proof -
  obtain s where run: "item_run d (cx_operation_id cx) i item_start es = Some s"
    using tripleE [OF search_item_triple [OF assms(1)], of "cx_operation_id cx" cx item_start w i] assms(3,4) by auto
  show ?thesis
    using dispatch_evidence [OF run _ assms(2)] no_double_charge [of d "cx_operation_id cx" i item_start _ _ _ _ _ _ _ _ _ _ _ s]
      run assms(2) by blast
qed

theorem billable_dispatch_discipline_witness:
  "\<exists>p a db. EvDispatch p 0 a db \<in> set (sw_trace (snd (search_item slow_service demo_search_context 0 demo_search_query demo_search_world)))
     \<and> evidence ''op_1'' YANDEX 0 1 db"
proof -
  let ?tr = "sw_trace (snd (search_item slow_service demo_search_context 0 demo_search_query demo_search_world))"
  have tr: "?tr = sw_trace demo_search_world @ ?tr" by (simp add: demo_search_world_def)
  have run: "search_item slow_service demo_search_context 0 demo_search_query demo_search_world =
      handle_item 0 (execute_and_store slow_service demo_search_context demo_provider demo_search_query None
        (cache_identity slow_service demo_search_context demo_search_query YANDEX ''revision-1'') 0 demo_search_world)"
    unfolding slow_service_def by (rule demo_disabled)
  have "snd (handle_item 0 m) = snd m" for m by (cases m; cases "fst m") (auto simp: handle_item_def)
  then have "list_ex (\<lambda>e. case e of EvDispatch p i a db \<Rightarrow> p = YANDEX \<and> i = 0 \<and> a = 1 | _ \<Rightarrow> False) ?tr"
    using slow_run(2) run by simp
  then obtain db where db: "EvDispatch YANDEX 0 1 db \<in> set ?tr"
    using dispatch_in by blast
  have bill: "billable demo_provider" by code_simp
  have "evidence (cx_operation_id demo_search_context) YANDEX 0 1 db"
    using billable_dispatch_discipline [OF demo_plan [of MODE_DISABLED "\<lambda>n. if n = 6 then 100 else 0" demo_miss, folded slow_service_def]
        bill demo_usage tr] db by blast
  moreover have "cx_operation_id demo_search_context = ''op_1''" by (simp add: demo_search_context_def)
  ultimately show ?thesis using db by metis
qed

text \<open>The attempt loop always leaves through an attempt. With a positive number of attempts the
  \<open>RuntimeError\<close> after the loop of \<open>_execute_attempts\<close> is never raised: the last attempt returns a
  result or raises, it never asks for another one.\<close>

theorem attempt_loop_complete:
  assumes "1 \<le> max_attempts (ss_policy sv) (pd_provider_id d)" "usage_constraints (sw_usage w)"
  shows "fst (execute_attempts sv cx d q region i w) \<noteq> Inl SXUnreachable"
proof -
  let ?n = "nat (max_attempts (ss_policy sv) (pd_provider_id d))"
  obtain es s where "attempted item_start ?n s (sw_usage (snd (execute_from sv cx d q region i ?n 1 w)))
      \<and> (0 < ?n \<longrightarrow> int ?n = max_attempts (ss_policy sv) (pd_provider_id d) + 1 - 1 \<longrightarrow>
          fst (execute_from sv cx d q region i ?n 1 w) \<noteq> Inl SXUnreachable)"
    by (rule tripleE [OF execute_from_triple [of item_start d "cx_operation_id cx" cx i sv q region ?n 1], of item_start w])
      (use assms(2) in \<open>auto simp: item_start_def\<close>)
  then show ?thesis using assms(1) by (simp add: execute_attempts_def)
qed

theorem attempt_loop_complete_witness:
  "fst (execute_attempts slow_service demo_search_context demo_provider demo_search_query None 0 demo_search_world)
     \<noteq> Inl SXUnreachable"
  by (rule attempt_loop_complete [OF _ demo_usage]) code_simp

text \<open>A batch answers every query in order. When a batch search returns, it has one item per
  query, numbered from 0 in request order, each a success without error or a failure with one; the
  outcome is the aggregate of the items, and a batch without success carries the error of one of
  its items, of an item with an unknown outcome where there is one.\<close>

theorem search_batch_complete:
  assumes "search sv cx qs w = (Inr res, w')"
  shows "\<exists>items. or_data res = Some items \<and> map bi_index items = map int [0..<length qs]
    \<and> list_all batch_item_ok items \<and> operation_result_ok res
    \<and> aggregate_batch_outcome (map bi_outcome items) = Inr (or_outcome res)
    \<and> (\<forall>e. or_error res = Some e \<longrightarrow> (\<exists>item \<in> set items. bi_error item = Some e
         \<and> (or_outcome res = OO_UNKNOWN \<longrightarrow> bi_outcome item = LO_UNKNOWN)))"
proof -
  obtain items w1 where items: "gather_items sv (with_deadline sv cx w) 0 qs w = (Inr items, w1)"
  proof (cases "gather_items sv (with_deadline sv cx w) 0 qs w")
    case (Pair r w1)
    then show ?thesis
      using that assms by (cases r; cases "require_scope (cx_principal cx) ''search:read''") (auto simp: search_def)
  qed
  obtain outcome where g: "gather_items sv (with_deadline sv cx w) 0 qs w = (Inr items, w1)"
      "aggregate_batch_outcome (map bi_outcome items) = Inr outcome"
      "res = \<lparr>or_operation_id = cx_operation_id cx, or_outcome = outcome, or_data = Some items,
          or_error = (if outcome \<in> {OO_SUCCEEDED, OO_PARTIAL_SUCCESS} then None else Some (aggregate_error outcome items)),
          or_warnings = [], or_hints = []\<rparr>"
    using assms items
    by (cases "require_scope (cx_principal cx) ''search:read''"; cases "aggregate_batch_outcome (map bi_outcome items)")
      (auto simp: search_def)
  have ne: "items \<noteq> []" using g(2) by (auto simp: aggregate_batch_outcome_def)
  have good: "map bi_index items = map int [0..<length qs]" "list_all batch_item_ok items"
    using gather_items_good [OF g(1)] by auto
  have out: "outcome = aggregate_of_set (set (map bi_outcome items))"
    using aggregate_eq [of "map bi_outcome items"] ne g(2) by simp
  have err: "\<exists>item \<in> set items. bi_error item = Some (aggregate_error outcome items)
      \<and> (outcome = OO_UNKNOWN \<longrightarrow> bi_outcome item = LO_UNKNOWN)"
    if "outcome \<notin> {OO_SUCCEEDED, OO_PARTIAL_SUCCESS}"
  proof (rule aggregate_error_item [OF good(2) ne])
    show "list_all (\<lambda>x. bi_outcome x \<noteq> LO_SUCCEEDED) items"
      using that aggregate_of_set_success [of "set (map bi_outcome items)"] out by (force simp: list_all_iff)
    show "outcome = OO_UNKNOWN \<longrightarrow> (\<exists>x \<in> set items. bi_outcome x = LO_UNKNOWN)"
      using aggregate_of_set_unknown [of "set (map bi_outcome items)"] out by force
  qed
  show ?thesis using good g(2,3) err by (auto simp: operation_result_ok_def)
qed

theorem search_batch_complete_witness:
  "\<exists>res w'. search (demo_service MODE_DISABLED (\<lambda>_. 0) demo_miss) demo_search_context [] demo_search_world = (Inl SXOther, demo_search_world)
    \<and> search slow_service demo_search_context [demo_search_query\<lparr>sq_limit := 50\<rparr>] demo_search_world = (Inr res, w')
    \<and> operation_result_ok res"
proof -
  let ?q = "demo_search_query\<lparr>sq_limit := 50\<rparr>"
  have plan: "item_plan slow_service ?q = Inl (SXResolution ''unsupported_option'')" by code_simp
  have "fst (bounded_await (ss_ports slow_service) demo_search_context (pure_call (\<lambda>_. Inr ())) demo_search_world) = Inr ()"
    by code_simp
  then obtain w1 where wait: "bounded_await (ss_ports slow_service) demo_search_context (pure_call (\<lambda>_. Inr ())) demo_search_world =
      (Inr (), w1)" by (metis prod.collapse)
  have dl: "with_deadline sv demo_search_context w = demo_search_context" for sv w
    by (simp add: with_deadline_def demo_search_context_def)
  have item: "\<exists>w1. run_item slow_service demo_search_context 0 ?q demo_search_world =
      (Inr (error_item 0 LO_REJECTED UNSUPPORTED ''unsupported_option''), w1)"
    by (simp add: run_item_def wait search_item_def plan handle_item_def)
  have ok: "require_scope (cx_principal demo_search_context) ''search:read'' = Inr ()" by code_simp
  obtain res w' where run: "search slow_service demo_search_context [?q] demo_search_world = (Inr res, w')"
    using item by (auto simp: search_def ok dl gather_items_def aggregate_batch_outcome_def error_item_def search_item_result_def)
  have none: "search (demo_service MODE_DISABLED (\<lambda>_. 0) demo_miss) demo_search_context [] demo_search_world = (Inl SXOther, demo_search_world)"
    by (simp add: search_def ok gather_items_def aggregate_batch_outcome_def)
  from search_batch_complete [OF run] run none show ?thesis by blast
qed

text \<open>A cache hit costs nothing. When the first lookup of an item returns a cached value in time,
  the item succeeds with that value marked as cached and with zero usage; no lease is taken, no
  provider is called and no evidence is written.\<close>

theorem cache_hit_is_free:
  assumes "item_plan sv q = Inr (d, region)" "sp_cache_mode (ss_policy sv) \<noteq> MODE_DISABLED"
    and "cache_call sv cx (cache_identity sv cx q (pd_provider_id d) (pd_configuration_revision d)) w =
       (Inr \<lparr>cl_state = CACHE_HIT, cl_value = Some v\<rparr>, w')"
  shows "\<exists>item. search_item sv cx i q w = (Inr item, w') \<and> bi_outcome item = LO_SUCCEEDED
    \<and> bi_data item = Some (v\<lparr>sd_cache := (sd_cache v)\<lparr>cm_cached := True\<rparr>, sd_usage := no_usage\<rparr>)
    \<and> sw_trace w' = sw_trace w \<and> sw_usage w' = sw_usage w"
proof -
  have "sw_trace w' = sw_trace w" "sw_usage w' = sw_usage w"
  proof -
    let ?f = "\<lambda>n. po_cache_get (ss_ports sv) n (cache_identity sv cx q (pd_provider_id d) (pd_configuration_revision d))"
    have "sw_trace (snd (bounded_await (ss_ports sv) cx (pure_call ?f) w)) = sw_trace w
        \<and> sw_usage (snd (bounded_await (ss_ports sv) cx (pure_call ?f) w)) = sw_usage w"
      by (rule bounded_await_cases [of "ss_ports sv" cx "pure_call ?f" w]) (auto simp: pure_call_def)
    then show "sw_trace w' = sw_trace w" "sw_usage w' = sw_usage w" using assms(3) by (auto simp: cache_call_def)
  qed
  then show ?thesis
    using assms by (simp add: search_item_def Let_def cached_value_def cache_hit_def success_item_def)
qed

theorem cache_hit_is_free_witness:
  "\<exists>v w' item. search_item (demo_service MODE_PRINCIPAL (\<lambda>_. 0) \<lparr>cl_state = CACHE_HIT, cl_value = Some v\<rparr>) demo_search_context 0
       demo_search_query demo_search_world = (Inr item, w') \<and> bi_outcome item = LO_SUCCEEDED \<and> sw_trace w' = []"
proof -
  let ?v = "undefined :: SearchQueryData"
  let ?sv = "demo_service MODE_PRINCIPAL (\<lambda>_. 0) \<lparr>cl_state = CACHE_HIT, cl_value = Some ?v\<rparr>"
  have "\<exists>w'. cache_call ?sv demo_search_context k demo_search_world = (Inr \<lparr>cl_state = CACHE_HIT, cl_value = Some ?v\<rparr>, w')" for k
    by (simp add: cache_call_def bounded_await_def sw_remaining_def remaining_seconds_def deadline_remaining_def
        demo_service_def demo_ports_def demo_search_context_def demo_search_world_def pure_call_def)
  then obtain w' where "cache_call ?sv demo_search_context
      (cache_identity ?sv demo_search_context demo_search_query (pd_provider_id demo_provider) (pd_configuration_revision demo_provider))
      demo_search_world = (Inr \<lparr>cl_state = CACHE_HIT, cl_value = Some ?v\<rparr>, w')" by blast
  from cache_hit_is_free [OF demo_plan _ this, of 0] show ?thesis
    by (auto simp: demo_service_def demo_policy_def demo_search_world_def)
qed



text \<open>A deadline after the answer hides a paid search. There is a run in which a billable provider
  was called and answered, but the deadline passes before its completion is recorded; the item is
  then reported as an ordinary failed timeout, neither successful nor unknown.\<close>

theorem paid_search_reported_failed:
  "\<exists>sv cx q d w item w' p a db. item_plan sv q = Inr (d, None) \<and> billable d
     \<and> search_item sv cx 0 q w = (Inr item, w') \<and> sw_trace w = [] \<and> EvDispatch p 0 a db \<in> set (sw_trace w')
     \<and> po_search (ss_ports sv) 6 d (provider_request q p None) = Inr demo_result
     \<and> bi_outcome item = LO_FAILED \<and> bi_error item = Some (op_error TIMEOUT ''search_deadline_exceeded'')"
proof -
  let ?id = "cache_identity slow_service demo_search_context demo_search_query YANDEX ''revision-1''"
  let ?m = "execute_and_store slow_service demo_search_context demo_provider demo_search_query None ?id 0 demo_search_world"
  have run: "search_item slow_service demo_search_context 0 demo_search_query demo_search_world =
      (Inr (error_item 0 LO_FAILED TIMEOUT ''search_deadline_exceeded''), snd ?m)"
    unfolding slow_service_def demo_disabled
    by (subst slow_run(1) [unfolded slow_service_def]) (simp add: handle_item_def)
  obtain db where "EvDispatch YANDEX 0 1 db \<in> set (sw_trace (snd ?m))"
    using dispatch_in [OF slow_run(2)] by blast
  moreover have "billable demo_provider" by code_simp
  moreover have "po_search (ss_ports slow_service) 6 demo_provider (provider_request demo_search_query YANDEX None) = Inr demo_result"
    by (simp add: slow_service_def demo_service_def demo_ports_def)
  ultimately show ?thesis
    using run demo_plan [of MODE_DISABLED "\<lambda>n. if n = 6 then 100 else 0" demo_miss, folded slow_service_def]
    by (intro exI conjI) (auto simp: error_item_def search_item_result_def demo_search_world_def)
qed

end
