(* ===== verification/Search_Admission.thy ===== *)
theory Search_Admission
  imports Search_Domain Utf8 "HOL-Library.AList"
begin

section \<open>Redis rate and concurrency admission of search providers\<close>

text \<open>
  \<open>infrastructure/search/admission.py\<close> with the policies of \<open>core/config.py\<close> and the wiring of
  \<open>bootstrap/lifespan.py\<close>. The Lua scripts are functions of the part of the Redis key space they
  use: a script runs atomically at the server time \<open>rs_now\<close> (milliseconds), and a key whose
  expiry has passed reads as absent. Lua numbers and Python floats are exact rationals.

  Redis may answer, refuse a call, or run the script and lose the reply (\<open>delivery\<close>). It may also
  lose or roll back its state; the generation marker that the scripts keep beside the buckets
  and the leases exists to survive that, and \<open>flow_run\<close> below has such steps.
\<close>

subsection \<open>The key space\<close>

text \<open>The hash of the generation marker, the hash of a bucket and the sorted set of the leases. A
  missing key and a missing field are both \<open>None\<close>, as \<open>HGET\<close> reads them.\<close>

record flow_marker =
  mk_generation :: "string option"
  mk_run_id :: "string option"
  mk_quarantine :: "rat option"

record token_bucket =
  bk_tokens :: "rat option"
  bk_updated :: "rat option"
  bk_expires :: "int option"

record lease_zset =
  zs_members :: "(string \<times> int) list"
  zs_expires :: "int option"

record redis_flow =
  rs_now :: int
  rs_run_id :: "string option"
  rs_marker :: "string \<Rightarrow> flow_marker"
  rs_bucket :: "string \<Rightarrow> token_bucket"
  rs_zset :: "string \<Rightarrow> lease_zset"

definition key_live :: "int \<Rightarrow> int option \<Rightarrow> bool" where
  "key_live now e = (case e of None \<Rightarrow> True | Some t \<Rightarrow> now \<le> t)"

definition or_default :: "'a option \<Rightarrow> 'a \<Rightarrow> 'a" where
  "or_default x d = (case x of None \<Rightarrow> d | Some v \<Rightarrow> v)"

datatype redis_reply = RInt int | RBulk string | RList "redis_reply list"

datatype script_result = ScriptError string | Reply redis_reply

subsection \<open>The scripts\<close>

text \<open>The common start of both admission scripts: a marker that is missing, or was written under
  another server run, is replaced by one that is in quarantine for the given time.\<close>

definition refresh_marker ::
  "string \<Rightarrow> int \<Rightarrow> string \<Rightarrow> string \<Rightarrow> redis_flow \<Rightarrow> string \<times> rat \<times> redis_flow" where
  "refresh_marker run_id quarantine_ms seed k r = (let m = rs_marker r k in
     case mk_generation m of
       None \<Rightarrow> (let q = of_int (rs_now r) + of_int quarantine_ms in
         (seed, q, r\<lparr>rs_marker := (rs_marker r)(k := \<lparr>mk_generation = Some seed, mk_run_id = Some run_id,
            mk_quarantine = Some q\<rparr>)\<rparr>))
     | Some g \<Rightarrow>
         if mk_run_id m \<noteq> Some run_id then (let q = of_int (rs_now r) + of_int quarantine_ms in
           (seed, q, r\<lparr>rs_marker := (rs_marker r)(k := \<lparr>mk_generation = Some seed, mk_run_id = Some run_id,
              mk_quarantine = Some q\<rparr>)\<rparr>))
         else (g, or_default (mk_quarantine m) 0, r))"

definition bucket_state :: "rat \<Rightarrow> rat \<Rightarrow> int \<Rightarrow> token_bucket \<Rightarrow> rat" where
  "bucket_state capacity refill now b = (let
     live = key_live now (bk_expires b);
     tokens = or_default (if live then bk_tokens b else None) capacity;
     updated = or_default (if live then bk_updated b else None) (of_int now);
     elapsed = max 0 (of_int now - updated) / 1000
   in min capacity (tokens + elapsed * refill))"

record token_args =
  ta_principal_key :: string
  ta_global_key :: string
  ta_marker_key :: string
  ta_principal_capacity :: rat
  ta_principal_refill :: rat
  ta_global_capacity :: rat
  ta_global_refill :: rat
  ta_cost :: rat
  ta_ttl_ms :: int
  ta_quarantine_ms :: int
  ta_seed :: string

definition put_bucket :: "string \<Rightarrow> rat \<Rightarrow> int \<Rightarrow> redis_flow \<Rightarrow> redis_flow" where
  "put_bucket k tokens ttl_ms r = r\<lparr>rs_bucket := (rs_bucket r)(k := \<lparr>bk_tokens = Some tokens,
     bk_updated = Some (of_int (rs_now r)), bk_expires = Some (rs_now r + ttl_ms)\<rparr>)\<rparr>"

definition token_bucket_script :: "token_args \<Rightarrow> redis_flow \<Rightarrow> script_result \<times> redis_flow" where
  "token_bucket_script a r = (case rs_run_id r of
     None \<Rightarrow> (ScriptError ''Redis server run_id is unavailable'', r)
   | Some run_id \<Rightarrow>
      (case refresh_marker run_id (ta_quarantine_ms a) (ta_seed a) (ta_marker_key a) r of
        (generation, quarantine_until, r1) \<Rightarrow>
          if quarantine_until > of_int (rs_now r) then
            (Reply (RList [RInt 2, RInt \<lfloor>quarantine_until - of_int (rs_now r)\<rfloor>, RBulk generation]), r1)
          else let
            principal_tokens = bucket_state (ta_principal_capacity a) (ta_principal_refill a) (rs_now r)
              (rs_bucket r1 (ta_principal_key a));
            global_tokens = bucket_state (ta_global_capacity a) (ta_global_refill a) (rs_now r)
              (rs_bucket r1 (ta_global_key a))
          in if principal_tokens < ta_cost a \<or> global_tokens < ta_cost a then let
              principal_wait = (if principal_tokens < ta_cost a
                then (ta_cost a - principal_tokens) / ta_principal_refill a else 0);
              global_wait = (if global_tokens < ta_cost a
                then (ta_cost a - global_tokens) / ta_global_refill a else 0)
            in (Reply (RList [RInt 0, RInt \<lceil>max principal_wait global_wait * 1000\<rceil>, RBulk generation]), r1)
          else
            (Reply (RList [RInt 1, RInt 0, RBulk generation]),
             put_bucket (ta_global_key a) (global_tokens - ta_cost a) (ta_ttl_ms a)
               (put_bucket (ta_principal_key a) (principal_tokens - ta_cost a) (ta_ttl_ms a) r1))))"

record acquire_args =
  aa_key :: string
  aa_marker_key :: string
  aa_limit :: int
  aa_lease_ms :: int
  aa_token :: string
  aa_quarantine_ms :: int
  aa_seed :: string

definition zset_members :: "int \<Rightarrow> lease_zset \<Rightarrow> (string \<times> int) list" where
  "zset_members now z = (if key_live now (zs_expires z) then zs_members z else [])"

text \<open>\<open>ZREMRANGEBYSCORE key -inf now\<close> keeps the members with a later score; Redis deletes the key,
  and its expiry, when the last member goes.\<close>

definition zset_store :: "(string \<times> int) list \<Rightarrow> int option \<Rightarrow> lease_zset" where
  "zset_store ms e = (if ms = [] then \<lparr>zs_members = [], zs_expires = None\<rparr>
     else \<lparr>zs_members = ms, zs_expires = e\<rparr>)"

definition concurrency_acquire_script :: "acquire_args \<Rightarrow> redis_flow \<Rightarrow> script_result \<times> redis_flow" where
  "concurrency_acquire_script a r = (case rs_run_id r of
     None \<Rightarrow> (ScriptError ''Redis server run_id is unavailable'', r)
   | Some run_id \<Rightarrow>
      (case refresh_marker run_id (aa_quarantine_ms a) (aa_seed a) (aa_marker_key a) r of
        (generation, quarantine_until, r1) \<Rightarrow>
          if quarantine_until > of_int (rs_now r) then (Reply (RList [RInt 2, RBulk generation]), r1)
          else let
            z = rs_zset r1 (aa_key a);
            members = filter (\<lambda>(t, score). score > rs_now r) (zset_members (rs_now r) z);
            r2 = r1\<lparr>rs_zset := (rs_zset r1)(aa_key a := zset_store members (zs_expires z))\<rparr>
          in if int (length members) \<ge> aa_limit a then (Reply (RList [RInt 0, RBulk generation]), r2)
          else
            (Reply (RList [RInt 1, RBulk generation]),
             r2\<lparr>rs_zset := (rs_zset r2)(aa_key a :=
               \<lparr>zs_members = AList.update (aa_token a) (rs_now r + aa_lease_ms a) members,
                zs_expires = Some (rs_now r + aa_lease_ms a * 2)\<rparr>)\<rparr>)))"

definition concurrency_release_script :: "string \<Rightarrow> string \<Rightarrow> redis_flow \<Rightarrow> script_result \<times> redis_flow" where
  "concurrency_release_script k token r = (let
     z = rs_zset r k;
     ms = zset_members (rs_now r) z;
     removed = (if token \<in> fst ` set ms then 1 else 0)
   in (Reply (RInt removed),
       r\<lparr>rs_zset := (rs_zset r)(k := zset_store (filter (\<lambda>(t, s). t \<noteq> token) ms) (zs_expires z))\<rparr>))"

definition flow_readiness_script :: "string \<Rightarrow> redis_flow \<Rightarrow> script_result" where
  "flow_readiness_script k r = Reply (RInt (case rs_run_id r of
     None \<Rightarrow> 0
   | Some run_id \<Rightarrow> (let m = rs_marker r k in
       if mk_generation m = None \<or> mk_run_id m \<noteq> Some run_id then 0
       else case mk_quarantine m of
         None \<Rightarrow> 0
       | Some q \<Rightarrow> if q > of_int (rs_now r) then 0 else 1)))"

subsection \<open>Policies and settings\<close>

record TokenBucketPolicy =
  tb_capacity :: int
  tb_refill_per_second :: rat

definition token_bucket_policy_ok :: "TokenBucketPolicy \<Rightarrow> bool" where
  "token_bucket_policy_ok p \<longleftrightarrow> \<not> (tb_capacity p < 1 \<or> tb_refill_per_second p \<le> 0)"

record ProviderRatePolicy =
  rp_principal :: TokenBucketPolicy
  rp_global :: TokenBucketPolicy

record ProviderConcurrencyPolicy =
  cp_local_limit :: int
  cp_global_limit :: int
  cp_lease_seconds :: rat
  cp_admission_timeout_seconds :: rat

definition concurrency_policy_ok :: "ProviderConcurrencyPolicy \<Rightarrow> bool" where
  "concurrency_policy_ok p \<longleftrightarrow> \<not> min (min (of_int (cp_local_limit p)) (of_int (cp_global_limit p)))
     (min (cp_lease_seconds p) (cp_admission_timeout_seconds p)) \<le> (0 :: rat)"

record SearchRateBucketSettings =
  sb_capacity :: int
  sb_refill_per_second :: rat

definition rate_bucket_settings_ok :: "SearchRateBucketSettings \<Rightarrow> bool" where
  "rate_bucket_settings_ok b \<longleftrightarrow> 1 \<le> sb_capacity b \<and> sb_capacity b \<le> 10000
     \<and> 0 < sb_refill_per_second b \<and> sb_refill_per_second b \<le> 10000"

record SearchProviderRateSettings =
  sr_principal :: SearchRateBucketSettings
  sr_global :: SearchRateBucketSettings

record SearchProviderConcurrencySettings =
  sc_local_limit :: int
  sc_global_limit :: int
  sc_lease_seconds :: int
  sc_admission_timeout_seconds :: rat

definition concurrency_settings_ok :: "SearchProviderConcurrencySettings \<Rightarrow> bool" where
  "concurrency_settings_ok c \<longleftrightarrow> 1 \<le> sc_local_limit c \<and> sc_local_limit c \<le> 1000
     \<and> 1 \<le> sc_global_limit c \<and> sc_global_limit c \<le> 1000
     \<and> 2 \<le> sc_lease_seconds c \<and> sc_lease_seconds c \<le> 600
     \<and> 0 < sc_admission_timeout_seconds c \<and> sc_admission_timeout_seconds c \<le> 60"

text \<open>The part of \<open>Settings\<close> the wiring reads: the Redis namespace, and the rate and concurrency
  settings of each provider.\<close>

record flow_settings =
  fs_namespace :: string
  fs_rate_searxng :: SearchProviderRateSettings
  fs_rate_yandex :: SearchProviderRateSettings
  fs_concurrency_searxng :: SearchProviderConcurrencySettings
  fs_concurrency_yandex :: SearchProviderConcurrencySettings

definition flow_settings_ok :: "flow_settings \<Rightarrow> bool" where
  "flow_settings_ok s \<longleftrightarrow>
     rate_bucket_settings_ok (sr_principal (fs_rate_searxng s)) \<and> rate_bucket_settings_ok (sr_global (fs_rate_searxng s))
     \<and> rate_bucket_settings_ok (sr_principal (fs_rate_yandex s)) \<and> rate_bucket_settings_ok (sr_global (fs_rate_yandex s))
     \<and> concurrency_settings_ok (fs_concurrency_searxng s) \<and> concurrency_settings_ok (fs_concurrency_yandex s)"

definition rate_policy :: "flow_settings \<Rightarrow> SearchProviderId \<Rightarrow> ProviderRatePolicy" where
  "rate_policy s p = (let c = (if p = SEARXNG then fs_rate_searxng s else fs_rate_yandex s) in
     \<lparr>rp_principal = \<lparr>tb_capacity = sb_capacity (sr_principal c),
                      tb_refill_per_second = sb_refill_per_second (sr_principal c)\<rparr>,
      rp_global = \<lparr>tb_capacity = sb_capacity (sr_global c),
                   tb_refill_per_second = sb_refill_per_second (sr_global c)\<rparr>\<rparr>)"

definition concurrency_policy :: "flow_settings \<Rightarrow> SearchProviderId \<Rightarrow> ProviderConcurrencyPolicy" where
  "concurrency_policy s p = (let c = (if p = SEARXNG then fs_concurrency_searxng s else fs_concurrency_yandex s) in
     \<lparr>cp_local_limit = sc_local_limit c, cp_global_limit = sc_global_limit c,
      cp_lease_seconds = of_int (sc_lease_seconds c),
      cp_admission_timeout_seconds = sc_admission_timeout_seconds c\<rparr>)"

definition bucket_horizon :: "TokenBucketPolicy \<Rightarrow> rat" where
  "bucket_horizon p = of_int (tb_capacity p) / tb_refill_per_second p"

definition flow_control_horizons :: "flow_settings \<Rightarrow> SearchProviderId \<rightharpoonup> rat" where
  "flow_control_horizons s p = (let rate = rate_policy s p; concurrency = concurrency_policy s p in
     Some (max (max (bucket_horizon (rp_principal rate)) (bucket_horizon (rp_global rate)))
       (cp_lease_seconds concurrency)))"

subsection \<open>The rate limiter\<close>

datatype admission_exc = AdmRedisError | AdmUnicodeDecodeError | AdmTypeError | AdmCancelled

text \<open>What becomes of one \<open>EVAL\<close>: it is refused, or runs and is answered, or runs and its reply is
  lost. The last and the first are the same \<open>RedisError\<close> to the caller. The task may also be
  cancelled while it waits, before or after the script ran.\<close>

datatype delivery = Refused | Answered | ReplyLost | Cancelled bool

definition redis_eval ::
  "delivery \<Rightarrow> (redis_flow \<Rightarrow> script_result \<times> redis_flow) \<Rightarrow> redis_flow \<Rightarrow> (admission_exc + redis_reply) \<times> redis_flow" where
  "redis_eval d script r = (case d of
     Refused \<Rightarrow> (Inl AdmRedisError, r)
   | ReplyLost \<Rightarrow> (Inl AdmRedisError, snd (script r))
   | Cancelled after \<Rightarrow> (Inl AdmCancelled, if after then snd (script r) else r)
   | Answered \<Rightarrow> (case script r of
       (ScriptError m, r') \<Rightarrow> (Inl AdmRedisError, r')
     | (Reply v, r') \<Rightarrow> (Inr v, r')))"

definition is_ascii :: "char \<Rightarrow> bool" where
  "is_ascii c \<longleftrightarrow> (of_char c :: nat) < 128"

fun text_result :: "redis_reply \<Rightarrow> admission_exc + string" where
  "text_result (RBulk s) = (if list_all is_ascii s then Inr s else Inl AdmUnicodeDecodeError)"
| "text_result (RInt i) = Inl AdmRedisError"
| "text_result (RList l) = Inl AdmRedisError"

fun int_result :: "redis_reply \<Rightarrow> admission_exc + int" where
  "int_result (RInt i) = Inr i"
| "int_result (RBulk s) = Inl AdmTypeError"
| "int_result (RList l) = Inl AdmTypeError"

record rate_limiter =
  rl_namespace :: string
  rl_policies :: "SearchProviderId \<rightharpoonup> ProviderRatePolicy"
  rl_state_loss_horizons :: "SearchProviderId \<rightharpoonup> rat"

definition provider_tag :: "SearchProviderId \<Rightarrow> string" where
  "provider_tag p = ''{'' @ provider_value p @ ''}''"

definition rate_keys :: "string \<Rightarrow> string \<Rightarrow> SearchProviderId \<Rightarrow> string \<times> string" where
  "rate_keys namespace principal_id p = (let
     principal_hash = sha256_hex (utf8_encode (cps principal_id));
     prefix = namespace @ '':search-rate:v3:'';
     tag = provider_tag p
   in (prefix @ tag @ '':principal:'' @ principal_hash, prefix @ tag @ '':global''))"

definition generation_key :: "string \<Rightarrow> SearchProviderId \<Rightarrow> string" where
  "generation_key namespace p = namespace @ '':search-flow-generation:v2:'' @ provider_tag p"

definition policy_horizon :: "ProviderRatePolicy \<Rightarrow> rat" where
  "policy_horizon p = max (bucket_horizon (rp_principal p)) (bucket_horizon (rp_global p))"

definition rate_ttl_ms :: "ProviderRatePolicy \<Rightarrow> int" where
  "rate_ttl_ms p = max 1000 (py_round (2000 * policy_horizon p))"

definition token_arguments ::
  "rate_limiter \<Rightarrow> ProviderRatePolicy \<Rightarrow> string \<Rightarrow> SearchProviderId \<Rightarrow> string \<Rightarrow> token_args" where
  "token_arguments l policy principal_id p seed = (let
     horizon = max (policy_horizon policy) (or_default (rl_state_loss_horizons l p) 0);
     keys = rate_keys (rl_namespace l) principal_id p
   in \<lparr>ta_principal_key = fst keys, ta_global_key = snd keys,
       ta_marker_key = generation_key (rl_namespace l) p,
       ta_principal_capacity = of_int (tb_capacity (rp_principal policy)),
       ta_principal_refill = tb_refill_per_second (rp_principal policy),
       ta_global_capacity = of_int (tb_capacity (rp_global policy)),
       ta_global_refill = tb_refill_per_second (rp_global policy),
       ta_cost = 1, ta_ttl_ms = rate_ttl_ms policy,
       ta_quarantine_ms = max 1 (py_round (horizon * 1000)), ta_seed = seed\<rparr>)"

definition rate_admission :: "RateAdmissionStatus \<Rightarrow> rat option \<Rightarrow> RateAdmission" where
  "rate_admission st retry = \<lparr>ra_status = st, ra_retry_after_seconds = retry\<rparr>"

definition admission_of_reply :: "redis_reply \<Rightarrow> admission_exc + RateAdmission" where
  "admission_of_reply v = (case v of
     RList [a, b, c] \<Rightarrow>
       res_bind (text_result c) (\<lambda>_.
       res_bind (int_result a) (\<lambda>status.
       if status = 1 then Inr (rate_admission RATE_ALLOWED None)
       else res_bind (int_result b) (\<lambda>ms.
         let retry_after = (if of_int ms / 1000 = (0 :: rat) then None else Some (of_int ms / 1000)) in
         if status = 0 then Inr (rate_admission RATE_LIMITED retry_after)
         else Inr (rate_admission RATE_UNAVAILABLE retry_after))))
   | _ \<Rightarrow> Inr (rate_admission RATE_UNAVAILABLE None))"

definition admit ::
  "rate_limiter \<Rightarrow> delivery \<Rightarrow> string \<Rightarrow> string \<Rightarrow> SearchProviderId \<Rightarrow> redis_flow
     \<Rightarrow> (admission_exc + RateAdmission) \<times> redis_flow" where
  "admit l d seed principal_id p r = (case rl_policies l p of
     None \<Rightarrow> (Inr (rate_admission RATE_UNAVAILABLE None), r)
   | Some policy \<Rightarrow>
      (case redis_eval d (token_bucket_script (token_arguments l policy principal_id p seed)) r of
        (Inl AdmRedisError, r') \<Rightarrow> (Inr (rate_admission RATE_UNAVAILABLE None), r')
      | (Inl e, r') \<Rightarrow> (Inl e, r')
      | (Inr v, r') \<Rightarrow> (admission_of_reply v, r')))"

subsection \<open>The concurrency limiter\<close>

text \<open>The limiter's own state is the free permits of each provider's semaphore and the tokens it
  owns; \<open>fw_mono\<close> is the process's monotonic clock. While a task waits other tasks and the clock
  move on: the environment \<open>acquire_env\<close> says how, at each of its waits.\<close>

record concurrency_limiter =
  cl_namespace :: string
  cl_policies :: "SearchProviderId \<rightharpoonup> ProviderConcurrencyPolicy"
  cl_poll :: rat
  cl_state_loss_horizons :: "SearchProviderId \<rightharpoonup> rat"

record flow_world =
  fw_local :: "SearchProviderId \<rightharpoonup> nat"
  fw_owned :: "string \<rightharpoonup> SearchProviderId"
  fw_redis :: redis_flow
  fw_mono :: rat

record acquire_env =
  ae_token :: string
  ae_seed :: "nat \<Rightarrow> string"
  ae_delivery :: "nat \<Rightarrow> delivery"
  ae_others :: "nat \<Rightarrow> flow_world \<Rightarrow> flow_world"
  ae_sleep :: "nat \<Rightarrow> rat \<Rightarrow> flow_world \<Rightarrow> flow_world"
  ae_sleep_cancelled :: "nat \<Rightarrow> bool"
  ae_wait_cancelled :: bool

definition make_concurrency_limiter ::
  "string \<Rightarrow> (SearchProviderId \<rightharpoonup> ProviderConcurrencyPolicy) \<Rightarrow> rat \<Rightarrow> (SearchProviderId \<rightharpoonup> rat)
     \<Rightarrow> unit + concurrency_limiter \<times> (SearchProviderId \<rightharpoonup> nat)" where
  "make_concurrency_limiter namespace policies poll horizons =
     (if poll \<le> 0 then Inl ()
      else Inr (\<lparr>cl_namespace = namespace, cl_policies = policies, cl_poll = poll,
                 cl_state_loss_horizons = horizons\<rparr>,
                (\<lambda>p. map_option (\<lambda>c. nat (cp_local_limit c)) (policies p))))"

definition concurrency_key :: "string \<Rightarrow> SearchProviderId \<Rightarrow> string" where
  "concurrency_key namespace p = namespace @ '':search-concurrency:v1:'' @ provider_tag p"

definition lease_ms :: "ProviderConcurrencyPolicy \<Rightarrow> int" where
  "lease_ms policy = max 1 (py_round (cp_lease_seconds policy * 1000))"

definition acquire_arguments ::
  "concurrency_limiter \<Rightarrow> ProviderConcurrencyPolicy \<Rightarrow> SearchProviderId \<Rightarrow> string \<Rightarrow> string \<Rightarrow> acquire_args" where
  "acquire_arguments l policy p token seed = (let
     horizon = max (cp_lease_seconds policy) (or_default (cl_state_loss_horizons l p) 0)
   in \<lparr>aa_key = concurrency_key (cl_namespace l) p, aa_marker_key = generation_key (cl_namespace l) p,
       aa_limit = cp_global_limit policy, aa_lease_ms = lease_ms policy, aa_token = token,
       aa_quarantine_ms = max 1 (py_round (horizon * 1000)), aa_seed = seed\<rparr>)"

datatype try_outcome = Granted | Denied | GiveUp | Escapes admission_exc

text \<open>One round of the loop: the script and what its reply means. A \<open>RedisError\<close> ends the loop
  with no lease, also the one \<open>_text_result\<close> raises; any other exception escapes.\<close>

definition outcome_of_exc :: "admission_exc \<Rightarrow> try_outcome" where
  "outcome_of_exc e = (if e = AdmRedisError then GiveUp else Escapes e)"

definition acquire_reply :: "redis_reply \<Rightarrow> try_outcome" where
  "acquire_reply v = (case v of
     RList [a, c] \<Rightarrow> (case text_result c of
         Inl e \<Rightarrow> outcome_of_exc e
       | Inr _ \<Rightarrow> (case int_result a of
           Inl e \<Rightarrow> outcome_of_exc e
         | Inr status \<Rightarrow> if status = 1 then Granted else Denied))
   | _ \<Rightarrow> GiveUp)"

definition acquire_try ::
  "concurrency_limiter \<Rightarrow> ProviderConcurrencyPolicy \<Rightarrow> SearchProviderId \<Rightarrow> string \<Rightarrow> string \<Rightarrow> delivery
     \<Rightarrow> redis_flow \<Rightarrow> try_outcome \<times> redis_flow" where
  "acquire_try l policy p token seed d r =
     (case redis_eval d (concurrency_acquire_script (acquire_arguments l policy p token seed)) r of
        (Inl e, r') \<Rightarrow> (outcome_of_exc e, r')
      | (Inr v, r') \<Rightarrow> (acquire_reply v, r'))"

definition release_permit :: "SearchProviderId \<Rightarrow> flow_world \<Rightarrow> flow_world" where
  "release_permit p w = w\<lparr>fw_local := (fw_local w)(p := map_option Suc (fw_local w p))\<rparr>"

text \<open>The \<open>finally\<close> clause of \<open>acquire\<close>.\<close>

definition acquire_cleanup :: "SearchProviderId \<Rightarrow> string \<Rightarrow> flow_world \<Rightarrow> flow_world" where
  "acquire_cleanup p token w = (if fw_owned w token = None then release_permit p w else w)"

type_synonym acquire_result = "(admission_exc + ConcurrencyLease option) \<times> flow_world"

fun acquire_loop ::
  "nat \<Rightarrow> concurrency_limiter \<Rightarrow> ProviderConcurrencyPolicy \<Rightarrow> acquire_env \<Rightarrow> SearchProviderId \<Rightarrow> rat \<Rightarrow> nat
     \<Rightarrow> flow_world \<Rightarrow> acquire_result option" where
  "acquire_loop 0 l policy env p deadline n w = None"
| "acquire_loop (Suc fuel) l policy env p deadline n w = (let
     token = ae_token env;
     w1 = ae_others env n w;
     (out, r) = acquire_try l policy p token (ae_seed env n) (ae_delivery env n) (fw_redis w1);
     w2 = w1\<lparr>fw_redis := r\<rparr>
   in case out of
     Granted \<Rightarrow> Some (Inr (Some \<lparr>le_provider_id = p, le_token = token\<rparr>),
                  acquire_cleanup p token (w2\<lparr>fw_owned := (fw_owned w2)(token \<mapsto> p)\<rparr>))
   | GiveUp \<Rightarrow> Some (Inr None, acquire_cleanup p token w2)
   | Escapes e \<Rightarrow> Some (Inl e, acquire_cleanup p token w2)
   | Denied \<Rightarrow> (let remaining = deadline - fw_mono w2 in
       if remaining \<le> 0 then Some (Inr None, acquire_cleanup p token w2)
       else let w3 = ae_sleep env n (min (cl_poll l) remaining) w2 in
         if ae_sleep_cancelled env n then Some (Inl AdmCancelled, acquire_cleanup p token w3)
         else acquire_loop fuel l policy env p deadline (Suc n) w3))"

text \<open>\<open>asyncio.wait_for(semaphore.acquire(), timeout)\<close>: with no time left it is a timeout even when
  a permit is free; otherwise it takes a free permit, or one that other tasks free in time.\<close>

definition take_permit :: "SearchProviderId \<Rightarrow> flow_world \<Rightarrow> flow_world option" where
  "take_permit p w = (case fw_local w p of
     Some (Suc n) \<Rightarrow> Some (w\<lparr>fw_local := (fw_local w)(p \<mapsto> n)\<rparr>)
   | _ \<Rightarrow> None)"

definition wait_permit :: "acquire_env \<Rightarrow> SearchProviderId \<Rightarrow> rat \<Rightarrow> flow_world \<Rightarrow> flow_world \<times> bool" where
  "wait_permit env p timeout w =
     (if timeout \<le> 0 then (w, False)
      else case take_permit p w of
        Some w' \<Rightarrow> (w', True)
      | None \<Rightarrow> (let w1 = ae_others env 0 w in
          case take_permit p w1 of Some w' \<Rightarrow> (w', True) | None \<Rightarrow> (w1, False)))"

definition acquire_timeout :: "ProviderConcurrencyPolicy \<Rightarrow> rat option \<Rightarrow> rat" where
  "acquire_timeout policy wait_seconds = (case wait_seconds of
     None \<Rightarrow> cp_admission_timeout_seconds policy
   | Some s \<Rightarrow> min (cp_admission_timeout_seconds policy) (max 0 s))"

definition acquire ::
  "nat \<Rightarrow> concurrency_limiter \<Rightarrow> acquire_env \<Rightarrow> SearchProviderId \<Rightarrow> rat option \<Rightarrow> flow_world
     \<Rightarrow> acquire_result option" where
  "acquire fuel l env p wait_seconds w = (case (cl_policies l p, fw_local w p) of
     (Some policy, Some free) \<Rightarrow> (let
         deadline = fw_mono w + acquire_timeout policy wait_seconds
       in if ae_wait_cancelled env then Some (Inl AdmCancelled, ae_others env 0 w)
          else case wait_permit env p (max 0 (deadline - fw_mono w)) w of
            (w1, False) \<Rightarrow> Some (Inr None, w1)
          | (w1, True) \<Rightarrow> acquire_loop fuel l policy env p deadline 1 w1)
   | _ \<Rightarrow> Some (Inr None, w))"

text \<open>\<open>release\<close>: the token is forgotten first; only when the Redis call ends, or fails with a
  \<open>RedisError\<close>, does the local permit come back.\<close>

definition release ::
  "concurrency_limiter \<Rightarrow> delivery \<Rightarrow> ConcurrencyLease \<Rightarrow> flow_world \<Rightarrow> (admission_exc + unit) \<times> flow_world" where
  "release l d lease w = (let
     owner = fw_owned w (le_token lease);
     w1 = w\<lparr>fw_owned := (fw_owned w)(le_token lease := None)\<rparr>
   in if owner = None \<or> owner \<noteq> Some (le_provider_id lease) then (Inr (), w1)
   else let p = le_provider_id lease;
     (res, r) = redis_eval d (concurrency_release_script (concurrency_key (cl_namespace l) p) (le_token lease))
       (fw_redis w1);
     w2 = w1\<lparr>fw_redis := r\<rparr>
   in case res of
     Inl AdmRedisError \<Rightarrow> (Inr (), release_permit p w2)
   | Inl e \<Rightarrow> (Inl e, w2)
   | Inr _ \<Rightarrow> (Inr (), release_permit p w2))"

subsection \<open>Readiness of flow control and the wiring\<close>

datatype Availability = AV_READY | AV_DEGRADED | AV_UNAVAILABLE

definition flow_check :: "delivery \<Rightarrow> string \<Rightarrow> SearchProviderId \<Rightarrow> redis_flow \<Rightarrow> admission_exc + Availability" where
  "flow_check d namespace p r =
     (case fst (redis_eval d (\<lambda>r. (flow_readiness_script (generation_key namespace p) r, r)) r) of
        Inl AdmRedisError \<Rightarrow> Inr AV_UNAVAILABLE
      | Inl e \<Rightarrow> Inl e
      | Inr v \<Rightarrow> Inr (if v = RInt 1 then AV_READY else AV_UNAVAILABLE))"

definition lifespan_rate_limiter :: "flow_settings \<Rightarrow> rate_limiter" where
  "lifespan_rate_limiter s = \<lparr>rl_namespace = fs_namespace s, rl_policies = (\<lambda>p. Some (rate_policy s p)),
     rl_state_loss_horizons = flow_control_horizons s\<rparr>"

definition lifespan_concurrency_limiter ::
  "flow_settings \<Rightarrow> unit + concurrency_limiter \<times> (SearchProviderId \<rightharpoonup> nat)" where
  "lifespan_concurrency_limiter s = make_concurrency_limiter (fs_namespace s)
     (\<lambda>p. Some (concurrency_policy s p)) (1 / 100) (flow_control_horizons s)"

subsection \<open>Histories of the flow control state\<close>

text \<open>
  What the service and its Redis server can do to each other. A history may start in any state of
  the server. Time passes; clients of any process are admitted, acquire and release; and the server may lose
  state (\<open>loss\<close>): afterwards the key space is arbitrary, except that no generation marker fits the
  server, because it is gone or carries the run of another server process. \<open>fh_admitted\<close> lists the admissions the service was
  told, \<open>fh_leases\<close> the leases it was granted and has not released, with their times.
\<close>

record flow_history =
  fh_redis :: redis_flow
  fh_admitted :: "(int \<times> SearchProviderId \<times> string) list"
  fh_leases :: "(string \<times> SearchProviderId \<times> int) list"
  fh_losses :: nat

definition marker_valid :: "string \<Rightarrow> redis_flow \<Rightarrow> bool" where
  "marker_valid k r \<longleftrightarrow> mk_generation (rs_marker r k) \<noteq> None \<and> rs_run_id r \<noteq> None
     \<and> mk_run_id (rs_marker r k) = rs_run_id r"

definition quarantine_of :: "string \<Rightarrow> redis_flow \<Rightarrow> rat" where
  "quarantine_of k r = or_default (mk_quarantine (rs_marker r k)) 0"

inductive flow_run :: "flow_settings \<Rightarrow> flow_history \<Rightarrow> bool" for s where
  start: "flow_run s \<lparr>fh_redis = r, fh_admitted = [], fh_leases = [], fh_losses = 0\<rparr>"
| tick: "flow_run s h \<Longrightarrow> rs_now (fh_redis h) \<le> t
    \<Longrightarrow> flow_run s (h\<lparr>fh_redis := (fh_redis h)\<lparr>rs_now := t\<rparr>\<rparr>)"
| admission: "flow_run s h \<Longrightarrow> admit (lifespan_rate_limiter s) d seed principal_id p (fh_redis h) = (res, r)
    \<Longrightarrow> flow_run s (h\<lparr>fh_redis := r, fh_admitted := (if res = Inr (rate_admission RATE_ALLOWED None)
          then [(rs_now (fh_redis h), p, principal_id)] else []) @ fh_admitted h\<rparr>)"
| acquisition: "flow_run s h \<Longrightarrow> lifespan_concurrency_limiter s = Inr (l, loc)
    \<Longrightarrow> token \<notin> fst ` set (fh_leases h)
    \<Longrightarrow> acquire_try l (concurrency_policy s p) p token seed d (fh_redis h) = (out, r)
    \<Longrightarrow> flow_run s (h\<lparr>fh_redis := r, fh_leases := (if out = Granted
          then [(token, p, rs_now (fh_redis h))] else []) @ fh_leases h\<rparr>)"
| relinquish: "flow_run s h
    \<Longrightarrow> snd (redis_eval d (concurrency_release_script (concurrency_key (fs_namespace s) p) token) (fh_redis h)) = r
    \<Longrightarrow> flow_run s (h\<lparr>fh_redis := r, fh_leases := filter (\<lambda>(t, q, g). (t, q) \<noteq> (token, p)) (fh_leases h)\<rparr>)"
| loss: "flow_run s h \<Longrightarrow> rs_now (fh_redis h) \<le> rs_now r
    \<Longrightarrow> (\<And>p. \<not> marker_valid (generation_key (fs_namespace s) p) r)
    \<Longrightarrow> flow_run s (h\<lparr>fh_redis := r, fh_losses := Suc (fh_losses h)\<rparr>)"

subsection \<open>A bucket bounds the admissions of every window\<close>

definition window_count :: "int list \<Rightarrow> int \<Rightarrow> int \<Rightarrow> nat" where
  "window_count ts a b = length (filter (\<lambda>t. a \<le> t \<and> t \<le> b) ts)"

definition window_ok :: "rat \<Rightarrow> rat \<Rightarrow> rat \<Rightarrow> int list \<Rightarrow> int \<Rightarrow> rat \<Rightarrow> bool" where
  "window_ok capacity refill slack ts b x \<longleftrightarrow> (\<forall>a \<le> b. of_nat (window_count ts a b) + x
     \<le> capacity + refill * of_int (b - a) / 1000 + slack)"

text \<open>The invariant of one bucket: \<open>ts\<close> are the times of the admissions charged to it.\<close>

record bucket_view =
  bv_capacity :: rat
  bv_refill :: rat
  bv_key :: string
  bv_marker :: string

definition bucket_inv :: "bucket_view \<Rightarrow> rat \<Rightarrow> int list \<Rightarrow> redis_flow \<Rightarrow> bool" where
  "bucket_inv v slack ts r \<longleftrightarrow>
     (\<forall>t \<in> set ts. t \<le> rs_now r)
   \<and> (\<forall>b. window_ok (bv_capacity v) (bv_refill v) slack ts b 0)
   \<and> (marker_valid (bv_marker v) r \<longrightarrow> (\<forall>b. rs_now r \<le> b \<and> quarantine_of (bv_marker v) r \<le> of_int b \<longrightarrow>
        window_ok (bv_capacity v) (bv_refill v) slack ts b
          (bucket_state (bv_capacity v) (bv_refill v) b (rs_bucket r (bv_key v)))))
   \<and> (\<not> marker_valid (bv_marker v) r \<longrightarrow> (\<forall>b. of_int (rs_now r) + 1000 * bv_capacity v / bv_refill v - 1 / 2 \<le> of_int b \<longrightarrow>
        window_ok (bv_capacity v) (bv_refill v) slack ts b (bv_capacity v)))"

lemma window_count_Cons:
  "window_count (t # ts) a b = (if a \<le> t \<and> t \<le> b then 1 else 0) + window_count ts a b"
  by (simp add: window_count_def)

lemma window_count_upto: "\<forall>t \<in> set ts. t \<le> n \<Longrightarrow> n \<le> b \<Longrightarrow> window_count ts a b = window_count ts a n"
  unfolding window_count_def by (rule arg_cong [of _ _ length], rule filter_cong) auto

lemma window_count_after: "\<forall>t \<in> set ts. t \<le> n \<Longrightarrow> n < a \<Longrightarrow> window_count ts a b = 0"
  by (auto simp: window_count_def filter_empty_conv)

lemma bucket_state_le: "bucket_state c f n b \<le> c"
  by (simp add: bucket_state_def Let_def)

text \<open>The written bucket never shows more than its tokens and the refill since, whether it is still
  there or has expired.\<close>

lemma bucket_state_put:
  assumes "0 \<le> x" "0 < f" "n \<le> b" "c \<le> f * of_int ttl / 1000"
  shows "bucket_state c f b \<lparr>bk_tokens = Some x, bk_updated = Some (of_int n), bk_expires = Some (n + ttl)\<rparr>
           \<le> x + f * of_int (b - n) / 1000"
proof (cases "b \<le> n + ttl")
  case True
  then show ?thesis
    using assms by (simp add: bucket_state_def Let_def or_default_def key_live_def max_def mult.commute)
next
  case False
  then have "f * of_int ttl \<le> f * of_int (b - n)"
    using assms by (intro mult_left_mono) (simp_all del: of_int_diff)
  then have "c \<le> x + f * of_int (b - n) / 1000" using assms by linarith
  then show ?thesis using bucket_state_le [of c f b] by (rule order_trans [rotated])
qed

lemma window_ok_mono: "window_ok c f e ts b x \<Longrightarrow> y \<le> x \<Longrightarrow> e \<le> e' \<Longrightarrow> window_ok c f e' ts b y"
  unfolding window_ok_def by (meson add_left_mono order_trans)

lemma window_ok_later:
  assumes "window_ok c f e ts n x" "\<forall>t \<in> set ts. t \<le> n" "n \<le> b" "0 \<le> f" "0 \<le> e" "y \<le> c"
    and "y \<le> x + f * of_int (b - n) / 1000"
  shows "window_ok c f e ts b y"
  unfolding window_ok_def
proof (intro allI impI)
  fix a assume "a \<le> b"
  show "of_nat (window_count ts a b) + y \<le> c + f * of_int (b - a) / 1000 + e"
  proof (cases "a \<le> n")
    case True
    have "of_nat (window_count ts a n) + x \<le> c + f * of_int (n - a) / 1000 + e"
      using assms(1) True unfolding window_ok_def by blast
    moreover have "f * of_int (b - a) = f * of_int (n - a) + f * of_int (b - n)"
      by (simp add: algebra_simps)
    ultimately show ?thesis
      unfolding window_count_upto [OF assms(2,3)] using assms(7)
      by (simp only: add_divide_distrib)
  next
    case False
    have "0 \<le> f * of_int (b - a)" using assms(4) \<open>a \<le> b\<close> by simp
    then show ?thesis using False assms(2,5,6) by (simp add: window_count_after)
  qed
qed

lemma window_ok_admit:
  assumes "window_ok c f e ts n x" "\<forall>t \<in> set ts. t \<le> n" "0 \<le> f" "0 \<le> e" "x \<le> c"
  shows "window_ok c f e (n # ts) n (x - 1)"
  unfolding window_ok_def
proof (intro allI impI)
  fix a assume "a \<le> n"
  then show "of_nat (window_count (n # ts) a n) + (x - 1) \<le> c + f * of_int (n - a) / 1000 + e"
    using assms(1) unfolding window_ok_def by (simp add: window_count_Cons)
qed

lemma window_ok_before: "b < n \<Longrightarrow> window_ok c f e (n # ts) b x = window_ok c f e ts b x"
  by (simp add: window_ok_def window_count_Cons)

lemma bucket_inv_tick:
  assumes "bucket_inv v e ts r" "rs_now r \<le> t"
  shows "bucket_inv v e ts (r\<lparr>rs_now := t\<rparr>)"
proof -
  have t: "of_int t + x \<le> (y :: rat) \<Longrightarrow> of_int (rs_now r) + x \<le> y" for x y
    using assms(2) by (simp add: order_trans [of _ "of_int t + x"])
  have t': "of_int t + x - z \<le> (y :: rat) \<Longrightarrow> of_int (rs_now r) + x - z \<le> y" for x y z
    using t [of "x - z" y] by (simp add: add_diff_eq)
  show ?thesis
    using assms unfolding bucket_inv_def marker_valid_def quarantine_of_def
    by (auto intro: order_trans dest: t')
qed

text \<open>Whatever the server holds after a loss, and however the bucket reads then, the quarantine is
  long enough for the admissions before to be paid off, up to the rounding of its length.\<close>

lemma bucket_inv_loss:
  assumes inv: "bucket_inv v e ts r" and "rs_now r \<le> rs_now r'" "\<not> marker_valid (bv_marker v) r'"
    and pos: "0 < bv_refill v" "0 \<le> bv_capacity v" "0 \<le> e"
  shows "bucket_inv v (e + bv_refill v / 2000) ts r'"
proof -
  let ?c = "bv_capacity v" and ?f = "bv_refill v"
  have old: "\<forall>t \<in> set ts. t \<le> rs_now r'" using assms unfolding bucket_inv_def by auto
  have zero: "window_ok ?c ?f e ts b 0" for b using inv unfolding bucket_inv_def by blast
  then have shifted: "window_ok ?c ?f (e + ?f / 2000) ts b (?f / 2000)" for b
    unfolding window_ok_def by fastforce
  have "window_ok ?c ?f (e + ?f / 2000) ts b ?c"
    if b: "of_int (rs_now r') + 1000 * ?c / ?f - 1 / 2 \<le> (of_int b :: rat)" for b
  proof (rule window_ok_later [OF shifted old])
    have "0 \<le> 1000 * ?c / ?f" using pos by simp
    then have "of_int (rs_now r') - 1 / 2 \<le> (of_int b :: rat)" using b by linarith
    then show "rs_now r' \<le> b" by linarith
    have "?f * (1000 * ?c / ?f - 1 / 2) \<le> ?f * of_int (b - rs_now r')"
      using b pos by (intro mult_left_mono) (simp_all add: algebra_simps)
    then show "?c \<le> ?f / 2000 + ?f * of_int (b - rs_now r') / 1000"
      using pos by (simp add: right_diff_distrib diff_divide_distrib)
  qed (use pos in auto)
  moreover have "window_ok ?c ?f (e + ?f / 2000) ts b 0" for b
    by (rule window_ok_mono [OF zero]) (use pos in auto)
  ultimately show ?thesis using old assms(3) unfolding bucket_inv_def by blast
qed

lemma bucket_inv_frame:
  assumes "bucket_inv v e ts r" "rs_now r' = rs_now r" "rs_run_id r' = rs_run_id r"
    "rs_marker r' (bv_marker v) = rs_marker r (bv_marker v)" "rs_bucket r' (bv_key v) = rs_bucket r (bv_key v)"
  shows "bucket_inv v e ts r'"
  using assms unfolding bucket_inv_def marker_valid_def quarantine_of_def by simp

lemma bucket_inv_drop:
  assumes "bucket_inv v e (t # ts) r"
  shows "bucket_inv v e ts r"
proof -
  have "window_ok c f e (t # ts) b x \<Longrightarrow> window_ok c f e ts b x" for c f b x
    unfolding window_ok_def window_count_Cons by fastforce
  then show ?thesis using assms unfolding bucket_inv_def by auto
qed

lemma bucket_inv_put:
  assumes inv: "bucket_inv v e ts r" and valid: "marker_valid (bv_marker v) r"
    and quar: "quarantine_of (bv_marker v) r \<le> of_int (rs_now r)"
    and tok: "tok = bucket_state (bv_capacity v) (bv_refill v) (rs_now r) (rs_bucket r (bv_key v))" "1 \<le> tok"
    and ttl: "bv_capacity v \<le> bv_refill v * of_int ttl / 1000"
    and pos: "0 < bv_refill v" "0 \<le> e"
    and same: "rs_now r' = rs_now r" "rs_run_id r' = rs_run_id r"
      "rs_marker r' (bv_marker v) = rs_marker r (bv_marker v)"
    and new: "rs_bucket r' (bv_key v) = \<lparr>bk_tokens = Some (tok - 1), bk_updated = Some (of_int (rs_now r)),
      bk_expires = Some (rs_now r + ttl)\<rparr>"
  shows "bucket_inv v e (rs_now r # ts) r'"
proof -
  let ?c = "bv_capacity v" and ?f = "bv_refill v" and ?n = "rs_now r"
  have old: "\<forall>t \<in> set (?n # ts). t \<le> ?n" using inv unfolding bucket_inv_def by simp
  have "window_ok ?c ?f e ts ?n tok"
    using inv valid quar unfolding bucket_inv_def tok(1) by blast
  then have now: "window_ok ?c ?f e (?n # ts) ?n (tok - 1)"
    by (rule window_ok_admit) (use old pos tok bucket_state_le in auto)
  have later: "window_ok ?c ?f e (?n # ts) b (bucket_state ?c ?f b (rs_bucket r' (bv_key v)))" if "?n \<le> b" for b
    using that pos tok(2) ttl unfolding new
    by (intro window_ok_later [OF now old] bucket_state_le bucket_state_put) auto
  have "window_ok ?c ?f e (?n # ts) b 0" for b
  proof (cases "b < ?n")
    case True
    then show ?thesis using inv by (simp add: window_ok_before bucket_inv_def)
  next
    case False
    have "0 \<le> ?f * of_int (b - ?n)" using False pos by simp
    moreover have "tok \<le> ?c" unfolding tok(1) by (rule bucket_state_le)
    ultimately show ?thesis
      using False pos tok(2) by (intro window_ok_later [OF now old]) auto
  qed
  then show ?thesis
    using old later same valid unfolding bucket_inv_def marker_valid_def by simp
qed

text \<open>What the common start of the scripts leaves: a valid marker, in a fresh quarantine unless it
  was valid before.\<close>

lemma refresh_marker_spec:
  assumes "rs_run_id r = Some run" "refresh_marker run q seed k r = (g, quar, r1)"
  shows "marker_valid k r1" "quar = quarantine_of k r1" "rs_now r1 = rs_now r" "rs_run_id r1 = rs_run_id r"
    "rs_bucket r1 = rs_bucket r" "rs_zset r1 = rs_zset r" "k' \<noteq> k \<Longrightarrow> rs_marker r1 k' = rs_marker r k'"
    "marker_valid k r \<Longrightarrow> r1 = r" "\<not> marker_valid k r \<Longrightarrow> quar = of_int (rs_now r) + of_int q"
  using assms unfolding refresh_marker_def marker_valid_def quarantine_of_def Let_def
  by (auto simp: or_default_def split: option.splits if_splits)

lemma bucket_inv_refresh:
  assumes inv: "bucket_inv v e ts r" and run: "rs_run_id r = Some run"
    and ref: "refresh_marker run q seed (bv_marker v) r = (g, quar, r1)"
    and q: "1000 * bv_capacity v / bv_refill v - 1 / 2 \<le> of_int q"
  shows "bucket_inv v e ts r1"
proof (cases "marker_valid (bv_marker v) r")
  case True
  then show ?thesis using refresh_marker_spec(8) [OF run ref] inv by simp
next
  case False
  note spec = refresh_marker_spec [OF run ref]
  have "window_ok (bv_capacity v) (bv_refill v) e ts b
      (bucket_state (bv_capacity v) (bv_refill v) b (rs_bucket r1 (bv_key v)))"
    if "quarantine_of (bv_marker v) r1 \<le> of_int b" for b
  proof -
    have "of_int (rs_now r) + 1000 * bv_capacity v / bv_refill v - 1 / 2 \<le> (of_int b :: rat)"
      using that spec(9) [OF False] spec(2) q by linarith
    then have "window_ok (bv_capacity v) (bv_refill v) e ts b (bv_capacity v)"
      using inv False unfolding bucket_inv_def by blast
    then show ?thesis by (rule window_ok_mono) (simp_all add: bucket_state_le)
  qed
  then show ?thesis using inv spec(1,3) unfolding bucket_inv_def by auto
qed

definition allowed_reply :: "script_result \<Rightarrow> bool" where
  "allowed_reply res \<longleftrightarrow> (\<exists>g. res = Reply (RList [RInt 1, RInt 0, RBulk g]))"

text \<open>The three ways the token script can end.\<close>

lemma token_bucket_script_cases:
  assumes "token_bucket_script a r = (res, r')"
  obtains (down) "r' = r" "\<not> allowed_reply res"
  | (refused) run g quar where "rs_run_id r = Some run"
      "refresh_marker run (ta_quarantine_ms a) (ta_seed a) (ta_marker_key a) r = (g, quar, r')" "\<not> allowed_reply res"
  | (allowed) run g quar r1 pt gt where "rs_run_id r = Some run"
      "refresh_marker run (ta_quarantine_ms a) (ta_seed a) (ta_marker_key a) r = (g, quar, r1)"
      "quar \<le> of_int (rs_now r)"
      "pt = bucket_state (ta_principal_capacity a) (ta_principal_refill a) (rs_now r) (rs_bucket r1 (ta_principal_key a))"
      "gt = bucket_state (ta_global_capacity a) (ta_global_refill a) (rs_now r) (rs_bucket r1 (ta_global_key a))"
      "ta_cost a \<le> pt" "ta_cost a \<le> gt"
      "r' = put_bucket (ta_global_key a) (gt - ta_cost a) (ta_ttl_ms a)
        (put_bucket (ta_principal_key a) (pt - ta_cost a) (ta_ttl_ms a) r1)"
      "allowed_reply res"
proof (cases "rs_run_id r")
  case None
  with assms show ?thesis by (intro down) (auto simp: token_bucket_script_def allowed_reply_def)
next
  case (Some run)
  obtain g quar r1 where ref:
    "refresh_marker run (ta_quarantine_ms a) (ta_seed a) (ta_marker_key a) r = (g, quar, r1)"
    by (metis prod_cases3)
  let ?pt = "bucket_state (ta_principal_capacity a) (ta_principal_refill a) (rs_now r) (rs_bucket r1 (ta_principal_key a))"
  let ?gt = "bucket_state (ta_global_capacity a) (ta_global_refill a) (rs_now r) (rs_bucket r1 (ta_global_key a))"
  note run = assms [unfolded token_bucket_script_def Some option.case ref prod.case Let_def]
  show ?thesis
  proof (cases "quar > of_int (rs_now r) \<or> ?pt < ta_cost a \<or> ?gt < ta_cost a")
    case True
    then have "r' = r1 \<and> \<not> allowed_reply res"
      using run by (simp add: allowed_reply_def split: if_split_asm) (elim conjE, drule sym, simp)+
    then show ?thesis using refused [OF Some] ref by simp
  next
    case False
    then show ?thesis
      using run by (intro allowed [OF Some ref _ refl refl]) (auto simp: allowed_reply_def)
  qed
qed

lemma put_bucket_simps [simp]:
  "rs_now (put_bucket k x ttl r) = rs_now r" "rs_run_id (put_bucket k x ttl r) = rs_run_id r"
  "rs_marker (put_bucket k x ttl r) = rs_marker r" "rs_zset (put_bucket k x ttl r) = rs_zset r"
  "k' \<noteq> k \<Longrightarrow> rs_bucket (put_bucket k x ttl r) k' = rs_bucket r k'"
  "rs_bucket (put_bucket k x ttl r) k = \<lparr>bk_tokens = Some x, bk_updated = Some (of_int (rs_now r)),
     bk_expires = Some (rs_now r + ttl)\<rparr>"
  by (simp_all add: put_bucket_def)

text \<open>A bucket the script charges: the view names one of its two buckets, with its parameters.\<close>

definition charges :: "token_args \<Rightarrow> bucket_view \<Rightarrow> bool" where
  "charges a v \<longleftrightarrow>
     bv_key v = ta_principal_key a \<and> bv_capacity v = ta_principal_capacity a \<and> bv_refill v = ta_principal_refill a
   \<or> bv_key v = ta_global_key a \<and> bv_capacity v = ta_global_capacity a \<and> bv_refill v = ta_global_refill a"

lemma bucket_inv_script:
  assumes inv: "bucket_inv v e ts r" and run: "token_bucket_script a r = (res, r')"
    and m: "ta_marker_key a = bv_marker v"
    and key: "charges a v \<or> bv_key v \<notin> {ta_principal_key a, ta_global_key a}"
    and args: "ta_principal_key a \<noteq> ta_global_key a" "ta_cost a = 1"
      "1000 * bv_capacity v / bv_refill v - 1 / 2 \<le> of_int (ta_quarantine_ms a)"
      "bv_capacity v \<le> bv_refill v * of_int (ta_ttl_ms a) / 1000" "0 < bv_refill v" "0 \<le> e"
  shows "bucket_inv v e ts r'" "allowed_reply res \<Longrightarrow> charges a v \<Longrightarrow> bucket_inv v e (rs_now r # ts) r'"
proof -
  have "bucket_inv v e ts r' \<and> (allowed_reply res \<and> charges a v \<longrightarrow> bucket_inv v e (rs_now r # ts) r')"
    using run
  proof (cases rule: token_bucket_script_cases)
    case down
    then show ?thesis using inv by simp
  next
    case (refused run g quar)
    then show ?thesis using bucket_inv_refresh [OF inv _ _ args(3)] m by metis
  next
    case (allowed run g quar r1 pt gt)
    note ref = allowed(2) [unfolded m]
    note spec = refresh_marker_spec [OF allowed(1) ref]
    have inv1: "bucket_inv v e ts r1" by (rule bucket_inv_refresh [OF inv allowed(1) ref args(3)])
    show ?thesis
    proof (cases "charges a v")
      case True
      have "bucket_inv v e (rs_now r1 # ts) r'"
        by (rule bucket_inv_put [OF inv1 spec(1) _ refl _ args(4-6)])
          (use True allowed args(1,2) spec in \<open>auto simp: charges_def\<close>)
      then show ?thesis using spec(3) bucket_inv_drop by metis
    next
      case False
      then have "bucket_inv v e ts r'"
        using key by (intro bucket_inv_frame [OF inv1]) (auto simp: allowed(8))
      then show ?thesis using False by simp
    qed
  qed
  then show "bucket_inv v e ts r'" "allowed_reply res \<Longrightarrow> charges a v \<Longrightarrow> bucket_inv v e (rs_now r # ts) r'"
    by blast+
qed

lemma provider_tag_inj: "x @ provider_tag p @ y = x @ provider_tag q @ z \<Longrightarrow> p = q"
  by (cases p; cases q) (simp_all add: provider_tag_def)

lemma generation_key_inj: "generation_key ns p = generation_key ns q \<longleftrightarrow> p = q"
  using provider_tag_inj [of "ns @ '':search-flow-generation:v2:''" p "[]" q "[]"]
  by (auto simp: generation_key_def)

lemma concurrency_key_inj: "concurrency_key ns p = concurrency_key ns q \<longleftrightarrow> p = q"
  using provider_tag_inj [of "ns @ '':search-concurrency:v1:''" p "[]" q "[]"]
  by (auto simp: concurrency_key_def)

lemma rate_keys_distinct:
  "fst (rate_keys ns u p) \<noteq> snd (rate_keys ns u' q)"
  "fst (rate_keys ns u p) = fst (rate_keys ns u' q) \<Longrightarrow> p = q"
  "snd (rate_keys ns u p) = snd (rate_keys ns u' q) \<Longrightarrow> p = q"
  "snd (rate_keys ns u p) = snd (rate_keys ns u' p)"
  by (cases p; cases q; simp add: rate_keys_def provider_tag_def Let_def)+

lemma rate_ttl_enough:
  assumes "c / f \<le> policy_horizon policy" "0 < f"
  shows "c \<le> f * of_int (rate_ttl_ms policy) / 1000"
proof -
  let ?h = "policy_horizon policy"
  have "2000 * ?h - 1 / 2 \<le> of_int (rate_ttl_ms policy)"
    using py_round_lower [of "2000 * ?h"] unfolding rate_ttl_ms_def by (simp add: max_def)
  moreover have "(1000 :: rat) \<le> of_int (rate_ttl_ms policy)" unfolding rate_ttl_ms_def by simp
  ultimately have "1000 * ?h \<le> of_int (rate_ttl_ms policy)" by linarith
  then have "1000 * (c / f) \<le> of_int (rate_ttl_ms policy)" using assms(1) by linarith
  then show ?thesis using assms(2) by (simp add: field_simps)
qed

lemma quarantine_enough:
  assumes "c / f \<le> horizon"
  shows "1000 * c / f - 1 / 2 \<le> of_int (max 1 (py_round (horizon * 1000)))"
proof -
  have "1000 * (c / f) \<le> horizon * 1000" using assms by simp
  then show ?thesis using py_round_lower [of "horizon * 1000"] by (simp add: max_def)
qed

definition principal_view :: "flow_settings \<Rightarrow> SearchProviderId \<Rightarrow> string \<Rightarrow> bucket_view" where
  "principal_view s p u = \<lparr>bv_capacity = of_int (tb_capacity (rp_principal (rate_policy s p))),
     bv_refill = tb_refill_per_second (rp_principal (rate_policy s p)),
     bv_key = fst (rate_keys (fs_namespace s) u p), bv_marker = generation_key (fs_namespace s) p\<rparr>"

definition global_view :: "flow_settings \<Rightarrow> SearchProviderId \<Rightarrow> bucket_view" where
  "global_view s p = \<lparr>bv_capacity = of_int (tb_capacity (rp_global (rate_policy s p))),
     bv_refill = tb_refill_per_second (rp_global (rate_policy s p)),
     bv_key = snd (rate_keys (fs_namespace s) [] p), bv_marker = generation_key (fs_namespace s) p\<rparr>"

definition view_of :: "flow_settings \<Rightarrow> SearchProviderId \<Rightarrow> string option \<Rightarrow> bucket_view" where
  "view_of s p u = (case u of None \<Rightarrow> global_view s p | Some x \<Rightarrow> principal_view s p x)"

lemmas view_defs = view_of_def principal_view_def global_view_def

lemma view_ok:
  assumes "flow_settings_ok s"
  shows "0 < bv_refill (view_of s p u)" "1 \<le> bv_capacity (view_of s p u)"
    "bv_capacity (view_of s p u) / bv_refill (view_of s p u) \<le> policy_horizon (rate_policy s p)"
  using assms
  by (auto simp: view_defs flow_settings_ok_def rate_bucket_settings_ok_def rate_policy_def Let_def
      policy_horizon_def bucket_horizon_def split: option.splits)

lemma horizon_le: "policy_horizon (rate_policy s p) \<le> or_default (flow_control_horizons s p) 0"
  "cp_lease_seconds (concurrency_policy s p) \<le> or_default (flow_control_horizons s p) 0"
  by (simp_all add: flow_control_horizons_def or_default_def policy_horizon_def Let_def)

text \<open>The arguments \<open>admit\<close> passes: a bucket of the same provider is charged or untouched, one of another
  provider has other keys.\<close>

abbreviation service_args :: "flow_settings \<Rightarrow> string \<Rightarrow> SearchProviderId \<Rightarrow> string \<Rightarrow> token_args" where
  "service_args s u p seed \<equiv> token_arguments (lifespan_rate_limiter s) (rate_policy s p) u p seed"

lemma service_args_same:
  fixes s u p seed v w
  defines "a \<equiv> service_args s u p seed" and "w \<equiv> view_of s p v"
  assumes ok: "flow_settings_ok s"
  shows "ta_marker_key a = bv_marker w"
    "charges a w \<or> bv_key w \<notin> {ta_principal_key a, ta_global_key a}"
    "v = None \<or> v = Some u \<Longrightarrow> charges a w"
    "ta_principal_key a \<noteq> ta_global_key a" "ta_cost a = 1"
    "1000 * bv_capacity w / bv_refill w - 1 / 2 \<le> of_int (ta_quarantine_ms a)"
    "bv_capacity w \<le> bv_refill w * of_int (ta_ttl_ms a) / 1000"
proof -
  note defs = a_def w_def token_arguments_def lifespan_rate_limiter_def Let_def
  show "ta_marker_key a = bv_marker w" "ta_cost a = 1" by (simp_all add: defs view_defs split: option.split)
  show "ta_principal_key a \<noteq> ta_global_key a" by (simp add: defs rate_keys_distinct)
  show "charges a w \<or> bv_key w \<notin> {ta_principal_key a, ta_global_key a}"
    using rate_keys_distinct
    by (auto simp: defs charges_def view_defs rate_keys_distinct(4) [of _ "[]" _ u] split: option.split)
  show "v = None \<or> v = Some u \<Longrightarrow> charges a w"
    by (auto simp: defs charges_def view_defs rate_keys_distinct(4) [of _ "[]" _ u])
  note view = view_ok [OF ok, of p v, folded w_def]
  show "bv_capacity w \<le> bv_refill w * of_int (ta_ttl_ms a) / 1000"
    using rate_ttl_enough [OF view(3,1)] by (simp add: defs)
  have "bv_capacity w / bv_refill w \<le> max (policy_horizon (rate_policy s p)) (or_default (flow_control_horizons s p) 0)"
    using view(3) by (simp add: le_max_iff_disj)
  then show "1000 * bv_capacity w / bv_refill w - 1 / 2 \<le> of_int (ta_quarantine_ms a)"
    using quarantine_enough by (simp add: a_def token_arguments_def lifespan_rate_limiter_def Let_def)
qed

lemma service_args_other:
  assumes "q \<noteq> p"
  shows "ta_marker_key (service_args s u p seed) \<noteq> bv_marker (view_of s q v)"
    "bv_key (view_of s q v) \<notin> {ta_principal_key (service_args s u p seed), ta_global_key (service_args s u p seed)}"
  using assms rate_keys_distinct
  by (auto simp: token_arguments_def lifespan_rate_limiter_def Let_def view_defs generation_key_inj split: option.split)
    (metis rate_keys_distinct)+

subsection \<open>Leases survive in the sorted set\<close>

lemma py_round_mono: "x \<le> y \<Longrightarrow> py_round x \<le> py_round y"
proof (rule ccontr)
  assume "x \<le> y" "\<not> py_round x \<le> py_round y"
  then have "of_int (py_round y) + 1 \<le> (of_int (py_round x) :: rat)" by linarith
  with \<open>x \<le> y\<close> py_round_upper [of x] py_round_lower [of y] have "x = y" by linarith
  with \<open>\<not> py_round x \<le> py_round y\<close> show False by simp
qed

definition live_leases :: "int \<Rightarrow> int \<Rightarrow> (string \<times> int) list \<Rightarrow> (string \<times> int) list" where
  "live_leases lease now ls = filter (\<lambda>(t, g). now < g + lease) ls"

definition lease_inv :: "int \<Rightarrow> int \<Rightarrow> string \<Rightarrow> string \<Rightarrow> (string \<times> int) list \<Rightarrow> redis_flow \<Rightarrow> bool" where
  "lease_inv lease limit zk mk ls r \<longleftrightarrow>
     (\<forall>(t, g) \<in> set ls. g \<le> rs_now r) \<and> distinct (map fst ls)
   \<and> int (length (live_leases lease (rs_now r) ls)) \<le> limit
   \<and> (marker_valid mk r \<longrightarrow> (\<forall>b t g. rs_now r \<le> b \<longrightarrow> quarantine_of mk r \<le> of_int b \<longrightarrow> (t, g) \<in> set ls \<longrightarrow> b < g + lease
        \<longrightarrow> (\<exists>score > b. (t, score) \<in> set (zset_members b (rs_zset r zk)))))"

lemma live_leases_later:
  "a \<le> b \<Longrightarrow> length (live_leases lease b ls) \<le> length (live_leases lease a ls)"
  unfolding live_leases_def by (induction ls) auto

lemma lease_inv_time:
  assumes "lease_inv lease limit zk mk ls r" "rs_now r \<le> rs_now r'"
    "marker_valid mk r' \<Longrightarrow> marker_valid mk r \<and> rs_zset r' zk = rs_zset r zk \<and> quarantine_of mk r' = quarantine_of mk r"
  shows "lease_inv lease limit zk mk ls r'"
  using assms live_leases_later [OF assms(2), of lease ls] unfolding lease_inv_def
  by (auto 4 4 intro: order_trans)

lemma lease_inv_refresh:
  assumes inv: "lease_inv lease limit zk mk ls r" and run: "rs_run_id r = Some run"
    and ref: "refresh_marker run q seed mk r = (g, quar, r1)" and q: "lease \<le> q"
  shows "lease_inv lease limit zk mk ls r1"
proof (cases "marker_valid mk r")
  case True
  then show ?thesis using refresh_marker_spec(8) [OF run ref] inv by simp
next
  case False
  note spec = refresh_marker_spec [OF run ref]
  have "\<not> b < g' + lease" if "quarantine_of mk r1 \<le> of_int b" "(t, g') \<in> set ls" for b t g'
  proof -
    have "of_int (rs_now r + q) \<le> (of_int b :: rat)" using that(1) spec(2,9) False by simp
    then have "rs_now r + q \<le> b" by (simp only: of_int_le_iff)
    moreover have "g' \<le> rs_now r" using inv that(2) by (auto simp: lease_inv_def)
    ultimately show ?thesis using q by linarith
  qed
  then show ?thesis using inv spec(3) unfolding lease_inv_def by auto
qed

lemma zset_members_earlier: "x \<in> set (zset_members b z) \<Longrightarrow> a \<le> b \<Longrightarrow> x \<in> set (zset_members a z)"
  by (auto simp: zset_members_def key_live_def split: if_splits option.splits)

lemma zset_members_store:
  "set (zset_members b (zset_store (filter P (zset_members a z)) (zs_expires z)))
     \<supseteq> {x \<in> set (zset_members b z). P x}" if "a \<le> b"
  using that zset_members_earlier [of _ b z a]
  by (auto simp: zset_store_def zset_members_def split: if_splits)
    (metis (no_types, lifting) filter_empty_conv that zset_members_def zset_members_earlier empty_iff list.set(1))+

text \<open>Dropping members that are out of date, or that a release names, keeps the others.\<close>

lemma lease_inv_filter:
  assumes inv: "lease_inv lease limit zk mk ls r" and sub: "set ls' \<subseteq> set ls" "distinct (map fst ls')"
    and len: "length (live_leases lease (rs_now r) ls') \<le> length (live_leases lease (rs_now r) ls)"
    and keep: "\<And>t g score. (t, g) \<in> set ls' \<Longrightarrow> rs_now r < score \<Longrightarrow> P (t, score)"
    and r': "rs_now r' = rs_now r" "rs_run_id r' = rs_run_id r" "rs_marker r' mk = rs_marker r mk"
      "rs_zset r' zk = zset_store (filter P (zset_members (rs_now r) (rs_zset r zk))) (zs_expires (rs_zset r zk))"
  shows "lease_inv lease limit zk mk ls' r'"
proof -
  have same: "marker_valid mk r' = marker_valid mk r" "quarantine_of mk r' = quarantine_of mk r"
    using r' by (simp_all add: marker_valid_def quarantine_of_def)
  have "\<exists>score > b. (t, score) \<in> set (zset_members b (rs_zset r' zk))"
    if "marker_valid mk r" "rs_now r \<le> b" "quarantine_of mk r \<le> of_int b" "(t, g) \<in> set ls'" "b < g + lease" for b t g
  proof -
    have "(t, g) \<in> set ls" using that(4) sub(1) by blast
    then have "\<exists>score > b. (t, score) \<in> set (zset_members b (rs_zset r zk))"
      using inv that unfolding lease_inv_def by blast
    then obtain score where "b < score" "(t, score) \<in> set (zset_members b (rs_zset r zk))"
      by blast
    then show ?thesis
      using keep [OF that(4), of score] zset_members_store [OF that(2), of "rs_zset r zk" P] that(2)
      unfolding r'(4) by (intro exI [of _ score]) auto
  qed
  moreover have "int (length (live_leases lease (rs_now r) ls')) \<le> limit"
    using inv len unfolding lease_inv_def by linarith
  ultimately show ?thesis
    using inv sub r'(1) same unfolding lease_inv_def by auto
qed

lemma live_leases_count:
  assumes "distinct (map fst ls)" "fst ` set (live_leases lease n ls) \<subseteq> fst ` set ms"
  shows "length (live_leases lease n ls) \<le> length ms"
proof -
  have "distinct (map fst (live_leases lease n ls))"
    using assms(1) by (simp add: live_leases_def distinct_map_filter)
  then have "length (live_leases lease n ls) = card (fst ` set (live_leases lease n ls))"
    by (metis distinct_card length_map set_map)
  also have "\<dots> \<le> card (fst ` set ms)" using assms(2) by (simp add: card_mono)
  also have "\<dots> \<le> length ms" by (metis card_length length_map set_map)
  finally show ?thesis .
qed

text \<open>A grant adds the lease when the live members are fewer than the limit.\<close>

lemma lease_inv_grant:
  assumes inv: "lease_inv lease limit zk mk ls r" and valid: "marker_valid mk r"
    and quar: "quarantine_of mk r \<le> of_int (rs_now r)" and pos: "0 < lease" and fresh: "token \<notin> fst ` set ls"
    and ms: "ms = filter (\<lambda>(t, score). score > rs_now r) (zset_members (rs_now r) (rs_zset r zk))"
    and room: "int (length ms) < limit"
    and r': "rs_now r' = rs_now r" "rs_run_id r' = rs_run_id r" "rs_marker r' mk = rs_marker r mk"
      "rs_zset r' zk = \<lparr>zs_members = AList.update token (rs_now r + lease) ms, zs_expires = Some (rs_now r + lease * 2)\<rparr>"
  shows "lease_inv lease limit zk mk ((token, rs_now r) # ls) r'"
proof -
  have same: "marker_valid mk r' = marker_valid mk r" "quarantine_of mk r' = quarantine_of mk r"
    using r' by (simp_all add: marker_valid_def quarantine_of_def)
  have old: "\<exists>score > b. (t, score) \<in> set ms" 
    if b: "rs_now r \<le> b" and t: "(t, g) \<in> set ls" and g: "b < g + lease" for b t g
  proof -
    have "quarantine_of mk r \<le> of_int b" using b quar by (simp add: order_trans)
    then have "\<exists>score > b. (t, score) \<in> set (zset_members b (rs_zset r zk))"
      using inv valid b t g unfolding lease_inv_def by blast
    then show ?thesis using zset_members_earlier [OF _ b] b unfolding ms by auto
  qed
  have "t \<in> fst ` set ms" if "(t, g) \<in> set (live_leases lease (rs_now r) ls)" for t g
    using old [OF order_refl, of t g] that by (force simp: live_leases_def)
  then have "fst ` set (live_leases lease (rs_now r) ls) \<subseteq> fst ` set ms" by auto
  then have "length (live_leases lease (rs_now r) ls) \<le> length ms"
    using inv by (intro live_leases_count) (auto simp: lease_inv_def)
  then have count: "int (length (live_leases lease (rs_now r) ((token, rs_now r) # ls))) \<le> limit"
    using room by (simp add: live_leases_def)
  have "\<exists>score > b. (t, score) \<in> set (zset_members b (rs_zset r' zk))"
    if b: "rs_now r \<le> b" and t: "(t, g) \<in> set ((token, rs_now r) # ls)" and g: "b < g + lease" for b t g
  proof -
    have "g \<le> rs_now r" using t inv by (auto simp: lease_inv_def)
    then have live: "zset_members b (rs_zset r' zk) = AList.update token (rs_now r + lease) ms"
      using g pos by (simp add: r' zset_members_def key_live_def)
    have upd: "set (AList.update token x ms) \<supseteq> insert (token, x) {y \<in> set ms. fst y \<noteq> token}" for x
      by (induction ms) auto
    show ?thesis
    proof (cases "t = token")
      case True
      then have "g = rs_now r" using t fresh by force
      then show ?thesis using True g upd [of "rs_now r + lease"] unfolding live by auto
    next
      case False
      then have "(t, g) \<in> set ls" using t by simp
      from old [OF b this g] show ?thesis using False upd [of "rs_now r + lease"] unfolding live by fastforce
    qed
  qed
  then show ?thesis
    using inv fresh count r'(1) same unfolding lease_inv_def by auto
qed

lemma concurrency_acquire_cases:
  assumes "concurrency_acquire_script a r = (res, r')"
  obtains (down) "r' = r" "\<And>g. res \<noteq> Reply (RList [RInt 1, g])"
  | (quarantined) run g quar where "rs_run_id r = Some run"
      "refresh_marker run (aa_quarantine_ms a) (aa_seed a) (aa_marker_key a) r = (g, quar, r')"
      "\<And>g. res \<noteq> Reply (RList [RInt 1, g])"
  | (full) run g quar r1 where "rs_run_id r = Some run"
      "refresh_marker run (aa_quarantine_ms a) (aa_seed a) (aa_marker_key a) r = (g, quar, r1)"
      "r' = r1\<lparr>rs_zset := (rs_zset r1)(aa_key a := zset_store (filter (\<lambda>(t, score). score > rs_now r)
        (zset_members (rs_now r) (rs_zset r1 (aa_key a)))) (zs_expires (rs_zset r1 (aa_key a))))\<rparr>"
      "\<And>g. res \<noteq> Reply (RList [RInt 1, g])"
  | (granted) run g quar r1 ms where "rs_run_id r = Some run"
      "refresh_marker run (aa_quarantine_ms a) (aa_seed a) (aa_marker_key a) r = (g, quar, r1)"
      "quar \<le> of_int (rs_now r)"
      "ms = filter (\<lambda>(t, score). score > rs_now r) (zset_members (rs_now r) (rs_zset r1 (aa_key a)))"
      "int (length ms) < aa_limit a"
      "r' = r1\<lparr>rs_zset := (rs_zset r1)(aa_key a :=
          \<lparr>zs_members = AList.update (aa_token a) (rs_now r + aa_lease_ms a) ms,
           zs_expires = Some (rs_now r + aa_lease_ms a * 2)\<rparr>)\<rparr>"
proof (cases "rs_run_id r")
  case None
  with assms show ?thesis by (intro down) (auto simp: concurrency_acquire_script_def)
next
  case (Some run)
  obtain g quar r1 where ref:
    "refresh_marker run (aa_quarantine_ms a) (aa_seed a) (aa_marker_key a) r = (g, quar, r1)"
    by (metis prod_cases3)
  let ?ms = "filter (\<lambda>(t, score). score > rs_now r) (zset_members (rs_now r) (rs_zset r1 (aa_key a)))"
  note run = assms [unfolded concurrency_acquire_script_def Some option.case ref prod.case Let_def]
  consider "quar > of_int (rs_now r)" | "\<not> quar > of_int (rs_now r)" "int (length ?ms) \<ge> aa_limit a"
    | "\<not> quar > of_int (rs_now r)" "\<not> int (length ?ms) \<ge> aa_limit a" by blast
  then show ?thesis
  proof cases
    case 1
    then show ?thesis using run ref by (intro quarantined [OF Some]) auto
  next
    case 2
    then show ?thesis using run by (intro full [OF Some ref]) auto
  next
    case 3
    then show ?thesis using run by (intro granted [OF Some ref _ refl]) auto
  qed
qed

subsection \<open>The invariant of a history\<close>

definition bucket_times :: "SearchProviderId \<Rightarrow> string option \<Rightarrow> (int \<times> SearchProviderId \<times> string) list \<Rightarrow> int list" where
  "bucket_times p u adm = map fst (filter (\<lambda>(t, q, x). q = p \<and> (u = None \<or> u = Some x)) adm)"

definition leases_of :: "SearchProviderId \<Rightarrow> (string \<times> SearchProviderId \<times> int) list \<Rightarrow> (string \<times> int) list" where
  "leases_of p ls = map (\<lambda>(t, q, g). (t, g)) (filter (\<lambda>(t, q, g). q = p) ls)"

abbreviation service_lease_inv :: "flow_settings \<Rightarrow> SearchProviderId \<Rightarrow> (string \<times> int) list \<Rightarrow> redis_flow \<Rightarrow> bool" where
  "service_lease_inv s p ls r \<equiv> lease_inv (lease_ms (concurrency_policy s p)) (cp_global_limit (concurrency_policy s p))
     (concurrency_key (fs_namespace s) p) (generation_key (fs_namespace s) p) ls r"

abbreviation service_bucket_inv ::
  "flow_settings \<Rightarrow> SearchProviderId \<Rightarrow> string option \<Rightarrow> nat \<Rightarrow> int list \<Rightarrow> redis_flow \<Rightarrow> bool" where
  "service_bucket_inv s p u n ts r \<equiv> bucket_inv (view_of s p u) (of_nat n * (bv_refill (view_of s p u) / 2000)) ts r"

definition flow_inv :: "flow_settings \<Rightarrow> flow_history \<Rightarrow> bool" where
  "flow_inv s h \<longleftrightarrow>
     (\<forall>p u. service_bucket_inv s p u (fh_losses h) (bucket_times p u (fh_admitted h)) (fh_redis h))
   \<and> (\<forall>p. service_lease_inv s p (leases_of p (fh_leases h)) (fh_redis h))
   \<and> distinct (map fst (fh_leases h))"

lemma window_ok_empty: "x \<le> c \<Longrightarrow> 0 \<le> f \<Longrightarrow> window_ok c f 0 [] b x"
  by (auto simp: window_ok_def window_count_def intro!: add_increasing2)

lemma flow_inv_start:
  assumes "flow_settings_ok s"
  shows "flow_inv s \<lparr>fh_redis = r, fh_admitted = [], fh_leases = [], fh_losses = 0\<rparr>"
proof -
  have "service_bucket_inv s p u 0 [] r" for p u
    using view_ok [OF assms, of p u] unfolding bucket_inv_def
    by (auto intro!: window_ok_empty bucket_state_le)
  moreover have "service_lease_inv s p [] r" for p
    using assms unfolding lease_inv_def
    by (auto simp: live_leases_def flow_settings_ok_def concurrency_settings_ok_def concurrency_policy_def Let_def)
  ultimately show ?thesis by (simp add: flow_inv_def bucket_times_def leases_of_def)
qed

text \<open>What the scripts leave alone.\<close>

lemma token_script_frame:
  assumes "token_bucket_script a r = (res, r')"
  shows "rs_now r' = rs_now r" "rs_run_id r' = rs_run_id r" "rs_zset r' = rs_zset r"
    "k \<noteq> ta_marker_key a \<Longrightarrow> rs_marker r' k = rs_marker r k"
    "k \<notin> {ta_principal_key a, ta_global_key a} \<Longrightarrow> rs_bucket r' k = rs_bucket r k"
proof -
  have "rs_now r' = rs_now r \<and> rs_run_id r' = rs_run_id r \<and> rs_zset r' = rs_zset r
    \<and> (k \<noteq> ta_marker_key a \<longrightarrow> rs_marker r' k = rs_marker r k)
    \<and> (k \<notin> {ta_principal_key a, ta_global_key a} \<longrightarrow> rs_bucket r' k = rs_bucket r k)"
    using assms
  proof (cases rule: token_bucket_script_cases)
    case (refused run g quar)
    then show ?thesis using refresh_marker_spec(3-7) [OF refused(1,2)] by simp
  next
    case (allowed run g quar r1 pt gt)
    show ?thesis unfolding allowed(8) using refresh_marker_spec(3-7) [OF allowed(1,2)] by simp
  qed simp
  then show "rs_now r' = rs_now r" "rs_run_id r' = rs_run_id r" "rs_zset r' = rs_zset r"
    "k \<noteq> ta_marker_key a \<Longrightarrow> rs_marker r' k = rs_marker r k"
    "k \<notin> {ta_principal_key a, ta_global_key a} \<Longrightarrow> rs_bucket r' k = rs_bucket r k"
    by blast+
qed

lemma acquire_script_frame:
  assumes "concurrency_acquire_script a r = (res, r')"
  shows "rs_now r' = rs_now r" "rs_run_id r' = rs_run_id r" "rs_bucket r' = rs_bucket r"
    "k \<noteq> aa_marker_key a \<Longrightarrow> rs_marker r' k = rs_marker r k"
    "k \<noteq> aa_key a \<Longrightarrow> rs_zset r' k = rs_zset r k"
proof -
  have "rs_now r' = rs_now r \<and> rs_run_id r' = rs_run_id r \<and> rs_bucket r' = rs_bucket r
    \<and> (k \<noteq> aa_marker_key a \<longrightarrow> rs_marker r' k = rs_marker r k) \<and> (k \<noteq> aa_key a \<longrightarrow> rs_zset r' k = rs_zset r k)"
    using assms
  proof (cases rule: concurrency_acquire_cases)
    case (quarantined run g quar)
    then show ?thesis using refresh_marker_spec(3-7) [OF quarantined(1,2)] by simp
  next
    case (full run g quar r1)
    show ?thesis unfolding full(3) using refresh_marker_spec(3-7) [OF full(1,2)] by simp
  next
    case (granted run g quar r1 ms)
    show ?thesis unfolding granted(6) using refresh_marker_spec(3-7) [OF granted(1,2)] by simp
  qed simp
  then show "rs_now r' = rs_now r" "rs_run_id r' = rs_run_id r" "rs_bucket r' = rs_bucket r"
    "k \<noteq> aa_marker_key a \<Longrightarrow> rs_marker r' k = rs_marker r k"
    "k \<noteq> aa_key a \<Longrightarrow> rs_zset r' k = rs_zset r k"
    by blast+
qed

lemma redis_eval_cases:
  assumes "redis_eval d script r = (res, r')"
  obtains (idle) e where "r' = r" "res = Inl e" | (ran) out where "script r = (out, r')" "\<And>v. res = Inr v \<Longrightarrow> out = Reply v"
  using assms that
  by (cases "script r") (fastforce simp: redis_eval_def split: delivery.splits script_result.splits if_splits prod.splits)

lemma token_script_shape:
  assumes "token_bucket_script a r = (Reply v, r')" "admission_of_reply v = Inr (rate_admission RATE_ALLOWED None)"
  shows "allowed_reply (Reply v)"
proof -
  have "\<exists>x y g. v = RList [RInt x, RInt y, RBulk g] \<and> (x = 1 \<longrightarrow> y = 0)"
    using assms(1) unfolding token_bucket_script_def
    by (auto simp: Let_def split: option.splits prod.splits if_split_asm)
  then show ?thesis using assms(2)
    by (auto simp: admission_of_reply_def allowed_reply_def rate_admission_def res_simps Let_def split: if_split_asm)
qed

lemma admit_cases:
  assumes "admit (lifespan_rate_limiter s) d seed u p r = (res, r')"
  obtains (idle) "r' = r" "res \<noteq> Inr (rate_admission RATE_ALLOWED None)"
  | (ran) out where "token_bucket_script (service_args s u p seed) r = (out, r')"
      "res = Inr (rate_admission RATE_ALLOWED None) \<Longrightarrow> allowed_reply out"
proof -
  obtain x r1 where ev: "redis_eval d (token_bucket_script (service_args s u p seed)) r = (x, r1)"
    by (metis prod.exhaust)
  have res: "r' = r1" "res = Inr (rate_admission RATE_ALLOWED None) \<Longrightarrow>
      \<exists>v. x = Inr v \<and> admission_of_reply v = Inr (rate_admission RATE_ALLOWED None)"
    using assms ev
    by (auto simp: admit_def lifespan_rate_limiter_def rate_admission_def split: sum.splits admission_exc.splits)
  from ev show ?thesis
  proof (cases rule: redis_eval_cases)
    case (idle e)
    then show ?thesis using that(1) res by auto
  next
    case (ran out)
    then show ?thesis using that(2) res token_script_shape by (metis prod.inject)
  qed
qed

lemma bucket_times_Cons:
  "bucket_times p u ((t, q, x) # adm) = (if q = p \<and> (u = None \<or> u = Some x) then t # bucket_times p u adm else bucket_times p u adm)"
  by (simp add: bucket_times_def)

lemma lease_quarantine: "cp_lease_seconds policy \<le> horizon \<Longrightarrow> lease_ms policy \<le> max 1 (py_round (horizon * 1000))"
  unfolding lease_ms_def using py_round_mono [of "cp_lease_seconds policy * 1000" "horizon * 1000"] by (simp add: max_def)

lemma service_args_lease: "lease_ms (concurrency_policy s p) \<le> ta_quarantine_ms (service_args s u p seed)"
  unfolding token_arguments_def lifespan_rate_limiter_def Let_def
  using lease_quarantine [of "concurrency_policy s p"] horizon_le(2) [of s p] by (simp add: le_max_iff_disj)

text \<open>An admission keeps every bucket bounded, the charged ones with the new admission counted.\<close>

lemma admission_bucket_inv:
  assumes ok: "flow_settings_ok s" and adm: "admit (lifespan_rate_limiter s) d seed u p r = (res, r')"
    and inv: "service_bucket_inv s q v n (bucket_times q v adm0) r"
    and adm': "adm1 = (if res = Inr (rate_admission RATE_ALLOWED None) then [(rs_now r, p, u)] else []) @ adm0"
  shows "service_bucket_inv s q v n (bucket_times q v adm1) r'"
  using adm
proof (cases rule: admit_cases)
  case idle
  then show ?thesis using inv adm' by simp
next
  case (ran out)
  note same = service_args_same [OF ok, where u = u and p = p and seed = seed]
  have slack: "0 \<le> of_nat n * (bv_refill (view_of s q v) / 2000)"
    using view_ok(1) [OF ok, of q v] by simp
  show ?thesis
  proof (cases "q = p")
    case True
    note inv' = inv [unfolded True]
    note step = bucket_inv_script [OF inv' ran(1) same(1,2,4-7) view_ok(1) [OF ok] slack [unfolded True]]
    show ?thesis
      using step ran(2) same(3) adm' True by (auto simp: bucket_times_Cons)
  next
    case False
    then have "service_bucket_inv s q v n (bucket_times q v adm0) r'"
      using service_args_other [OF False, where u = u and seed = seed and v = v and s = s] token_script_frame [OF ran(1)]
      by (intro bucket_inv_frame [OF inv]) auto
    then show ?thesis using False adm' by (auto simp: bucket_times_Cons)
  qed
qed

lemma lease_inv_frame:
  assumes "lease_inv lease limit zk mk ls r" "rs_now r' = rs_now r" "rs_run_id r' = rs_run_id r"
    "rs_marker r' mk = rs_marker r mk" "rs_zset r' zk = rs_zset r zk"
  shows "lease_inv lease limit zk mk ls r'"
  using assms by (intro lease_inv_time [OF assms(1)]) (simp_all add: marker_valid_def quarantine_of_def)

lemma admission_lease_inv:
  assumes adm: "admit (lifespan_rate_limiter s) d seed u p r = (res, r')"
    and inv: "service_lease_inv s q ls r"
  shows "service_lease_inv s q ls r'"
  using adm
proof (cases rule: admit_cases)
  case idle
  then show ?thesis using inv by simp
next
  case (ran out)
  have key: "ta_marker_key (service_args s u p seed) = generation_key (fs_namespace s) p"
    by (simp add: token_arguments_def lifespan_rate_limiter_def Let_def)
  show ?thesis
  proof (cases "q = p")
    case False
    then show ?thesis
      using token_script_frame [OF ran(1)] key by (intro lease_inv_frame [OF inv]) (auto simp: generation_key_inj)
  next
    case True
    note ref = lease_inv_refresh [OF inv [unfolded True] _ _ service_args_lease [of s p u seed]]
    from ran(1) show ?thesis
    proof (cases rule: token_bucket_script_cases)
      case (refused run g quar)
      then show ?thesis using ref True key by metis
    next
      case (allowed run g quar r1 pt gt)
      then have "service_lease_inv s p ls r1" using ref key by metis
      then show ?thesis unfolding True allowed(8) by (rule lease_inv_frame) simp_all
    qed (use inv in simp)
  qed
qed

text \<open>The concurrency limiter of the service.\<close>

lemma lifespan_limiter:
  assumes "lifespan_concurrency_limiter s = Inr (l, loc)"
  shows "l = \<lparr>cl_namespace = fs_namespace s, cl_policies = (\<lambda>p. Some (concurrency_policy s p)), cl_poll = 1 / 100,
      cl_state_loss_horizons = flow_control_horizons s\<rparr>"
  using assms by (simp add: lifespan_concurrency_limiter_def make_concurrency_limiter_def)

lemma acquire_args_service:
  fixes s l loc p token seed u
  assumes "lifespan_concurrency_limiter s = Inr (l, loc)"
  defines "a \<equiv> acquire_arguments l (concurrency_policy s p) p token seed"
  shows "aa_key a = concurrency_key (fs_namespace s) p" "aa_marker_key a = generation_key (fs_namespace s) p"
    "aa_limit a = cp_global_limit (concurrency_policy s p)" "aa_lease_ms a = lease_ms (concurrency_policy s p)"
    "aa_token a = token" "lease_ms (concurrency_policy s p) \<le> aa_quarantine_ms a"
    "flow_settings_ok s \<Longrightarrow> 1000 * bv_capacity (view_of s p u) / bv_refill (view_of s p u) - 1 / 2 \<le> of_int (aa_quarantine_ms a)"
proof -
  note defs = a_def acquire_arguments_def lifespan_limiter [OF assms(1)] Let_def
  show "aa_key a = concurrency_key (fs_namespace s) p" "aa_marker_key a = generation_key (fs_namespace s) p"
    "aa_limit a = cp_global_limit (concurrency_policy s p)" "aa_lease_ms a = lease_ms (concurrency_policy s p)"
    "aa_token a = token"
    by (simp_all add: defs)
  show "lease_ms (concurrency_policy s p) \<le> aa_quarantine_ms a"
    using lease_quarantine [of "concurrency_policy s p"] by (simp add: defs)
  assume "flow_settings_ok s"
  then have "bv_capacity (view_of s p u) / bv_refill (view_of s p u)
      \<le> max (cp_lease_seconds (concurrency_policy s p)) (or_default (flow_control_horizons s p) 0)"
    using view_ok(3) [of s p u] horizon_le(1) [of s p] by linarith
  then show "1000 * bv_capacity (view_of s p u) / bv_refill (view_of s p u) - 1 / 2 \<le> of_int (aa_quarantine_ms a)"
    using quarantine_enough by (simp add: defs)
qed

lemma acquire_try_cases:
  assumes "acquire_try l policy p token seed d r = (out, r')"
  obtains (idle) "r' = r" "out \<noteq> Granted"
  | (ran) res where "concurrency_acquire_script (acquire_arguments l policy p token seed) r = (res, r')"
      "out = Granted \<Longrightarrow> \<exists>g. res = Reply (RList [RInt 1, g])"
proof -
  have int1: "int_result v = Inr 1 \<Longrightarrow> v = RInt 1" for v by (cases v) auto
  have gr: "acquire_reply v = Granted \<Longrightarrow> \<exists>g. v = RList [RInt 1, g]" for v
    unfolding acquire_reply_def
    by (auto simp: outcome_of_exc_def dest!: int1 split: redis_reply.splits list.splits sum.splits if_splits)
  obtain x r1 where ev: "redis_eval d (concurrency_acquire_script (acquire_arguments l policy p token seed)) r = (x, r1)"
    by (metis prod.exhaust)
  have res: "r' = r1" "out = Granted \<Longrightarrow> \<exists>v g. x = Inr v \<and> v = RList [RInt 1, g]"
    using assms ev gr by (auto simp: acquire_try_def outcome_of_exc_def split: sum.splits if_splits)
  from ev show ?thesis
  proof (cases rule: redis_eval_cases)
    case (idle e)
    then show ?thesis using that(1) res by auto
  next
    case (ran res)
    then show ?thesis using that(2) \<open>r' = r1\<close> \<open>out = Granted \<Longrightarrow> _\<close> by metis
  qed
qed

lemma acquisition_bucket_inv:
  assumes ok: "flow_settings_ok s" and lim: "lifespan_concurrency_limiter s = Inr (l, loc)"
    and acq: "acquire_try l (concurrency_policy s p) p token seed d r = (out, r')"
    and inv: "service_bucket_inv s q v n ts r"
  shows "service_bucket_inv s q v n ts r'"
  using acq
proof (cases rule: acquire_try_cases)
  case idle
  then show ?thesis using inv by simp
next
  case (ran res)
  note args = acquire_args_service [OF lim, where p = p and token = token and seed = seed]
  have vm: "bv_marker (view_of s q v) = generation_key (fs_namespace s) q" for q
    by (simp add: view_defs split: option.split)
  note frame = acquire_script_frame [OF ran(1), unfolded args(2)]
  show ?thesis
  proof (cases "q = p")
    case False
    then show ?thesis
      using frame by (intro bucket_inv_frame [OF inv]) (auto simp: vm generation_key_inj)
  next
    case True
    note inv' = inv [unfolded True]
    have ref: "service_bucket_inv s p v n ts r1" if "rs_run_id r = Some run"
      "refresh_marker run (aa_quarantine_ms (acquire_arguments l (concurrency_policy s p) p token seed))
        (aa_seed (acquire_arguments l (concurrency_policy s p) p token seed)) (generation_key (fs_namespace s) p) r = (g, quar, r1)" for run g quar r1
      using bucket_inv_refresh [OF inv' that(1) _ args(7) [OF ok]] that(2) by (simp add: vm)
    from ran(1) show ?thesis
    proof (cases rule: concurrency_acquire_cases)
      case (quarantined run g quar)
      then show ?thesis using ref True args(2) by metis
    next
      case (full run g quar r1)
      then have "service_bucket_inv s p v n ts r1" using ref args(2) by metis
      then show ?thesis unfolding True full(3) by (rule bucket_inv_frame) simp_all
    next
      case (granted run g quar r1 ms)
      then have "service_bucket_inv s p v n ts r1" using ref args(2) by metis
      then show ?thesis unfolding True granted(6) by (rule bucket_inv_frame) simp_all
    qed (use inv in simp)
  qed
qed

lemma leases_of_Cons:
  "leases_of p ((t, q, g) # ls) = (if q = p then (t, g) # leases_of p ls else leases_of p ls)"
  by (simp add: leases_of_def)

lemma leases_of_fst: "fst ` set (leases_of p ls) \<subseteq> fst ` set ls"
  by (force simp: leases_of_def)

lemma acquisition_lease_inv:
  assumes ok: "flow_settings_ok s" and lim: "lifespan_concurrency_limiter s = Inr (l, loc)"
    and acq: "acquire_try l (concurrency_policy s p) p token seed d r = (out, r')"
    and inv: "service_lease_inv s q (leases_of q ls) r" and fresh: "token \<notin> fst ` set ls"
    and ls': "ls' = (if out = Granted then [(token, p, rs_now r)] else []) @ ls"
  shows "service_lease_inv s q (leases_of q ls') r'"
  using acq
proof (cases rule: acquire_try_cases)
  case idle
  then show ?thesis using inv ls' by simp
next
  case (ran res)
  note args = acquire_args_service [OF lim, where p = p and token = token and seed = seed]
  note frame = acquire_script_frame [OF ran(1), unfolded args(1,2)]
  show ?thesis
  proof (cases "q = p")
    case False
    then have "service_lease_inv s q (leases_of q ls) r'"
      using frame by (intro lease_inv_frame [OF inv]) (auto simp: generation_key_inj concurrency_key_inj)
    then show ?thesis using False ls' by (simp add: leases_of_Cons)
  next
    case True
    note ref = lease_inv_refresh [OF inv [unfolded True] _ _ args(6)]
    from ran(1) show ?thesis
    proof (cases rule: concurrency_acquire_cases)
      case down
      then show ?thesis using inv ls' ran(2) by auto
    next
      case (quarantined run g quar)
      then have "out \<noteq> Granted" using ran(2) by blast
      then show ?thesis using ref quarantined(1,2) ls' True unfolding args(2) by auto
    next
      case (full run g quar r1)
      then have "out \<noteq> Granted" using ran(2) by blast
      moreover have inv1: "service_lease_inv s p (leases_of p ls) r1"
        using ref full(1,2) unfolding args(2) by blast
      have "service_lease_inv s p (leases_of p ls) r'"
        unfolding full(3) args(1)
        by (rule lease_inv_filter [OF inv1, where P = "\<lambda>(t, score). score > rs_now r"])
          (use refresh_marker_spec(3) [OF full(1,2)] inv1 in \<open>auto simp: lease_inv_def\<close>)
      ultimately show ?thesis using ls' True by simp
    next
      case (granted run g quar r1 ms)
      note spec = refresh_marker_spec [OF granted(1,2), unfolded args(2)]
      have inv1: "service_lease_inv s p (leases_of p ls) r1"
        using ref granted(1,2) unfolding args(2) by blast
      have "service_lease_inv s p ((token, rs_now r1) # leases_of p ls) r'"
      proof (rule lease_inv_grant [OF inv1 spec(1)])
        show "0 < lease_ms (concurrency_policy s p)" by (simp add: lease_ms_def)
        show "token \<notin> fst ` set (leases_of p ls)" using fresh leases_of_fst by blast
      qed (use granted spec args in auto)
      then have both: "service_lease_inv s p ((token, rs_now r) # leases_of p ls) r'"
        using spec(3) by simp
      then have "service_lease_inv s p (leases_of p ls) r'"
        unfolding lease_inv_def by (auto simp: live_leases_def split: if_splits)
      with both show ?thesis using ls' True by (simp add: leases_of_Cons)
    qed
  qed
qed

lemma relinquish_lease_inv:
  assumes inv: "service_lease_inv s q (leases_of q ls) r"
    and rel: "r' = snd (redis_eval d (concurrency_release_script (concurrency_key (fs_namespace s) p) token) r)"
  shows "service_lease_inv s q (leases_of q (filter (\<lambda>(t, x, g). (t, x) \<noteq> (token, p)) ls)) r'"
proof -
  let ?ls = "leases_of q (filter (\<lambda>(t, x, g). (t, x) \<noteq> (token, p)) ls)"
  have eq: "?ls = (if q = p then filter (\<lambda>(t, g). t \<noteq> token) (leases_of q ls) else leases_of q ls)"
    by (induction ls) (auto simp: leases_of_def)
  have dist: "distinct (map fst (filter P (leases_of q ls)))" for P
    using inv by (simp add: lease_inv_def distinct_map_filter)
  have len: "length (live_leases m n (filter P xs)) \<le> length (live_leases m n xs)" for m n P xs
    unfolding live_leases_def by (induction xs) auto
  have sub: "service_lease_inv s q ?ls r"
  proof (cases "q = p")
    case True
    show ?thesis
      using inv dist [of "\<lambda>(t, g). t \<noteq> token"] len [of _ _ "\<lambda>(t, g). t \<noteq> token" "leases_of q ls"]
      unfolding lease_inv_def eq
      by (auto simp: True intro: order_trans [rotated])
  qed (use inv eq in simp)
  obtain x r1 where ev: "redis_eval d (concurrency_release_script (concurrency_key (fs_namespace s) p) token) r = (x, r1)"
    by (metis prod.exhaust)
  then have r1: "r' = r1" using rel by simp
  from ev show ?thesis
  proof (cases rule: redis_eval_cases)
    case (idle e)
    then show ?thesis using sub r1 by simp
  next
    case (ran out)
    then have r': "r' = r\<lparr>rs_zset := (rs_zset r)(concurrency_key (fs_namespace s) p := zset_store (filter (\<lambda>(t, s). t \<noteq> token)
        (zset_members (rs_now r) (rs_zset r (concurrency_key (fs_namespace s) p))))
        (zs_expires (rs_zset r (concurrency_key (fs_namespace s) p))))\<rparr>"
      using r1 by (simp add: concurrency_release_script_def Let_def)
    show ?thesis
    proof (cases "q = p")
      case True
      show ?thesis
        by (rule lease_inv_filter [OF sub, where P = "\<lambda>(t, s). t \<noteq> token"])
          (use dist eq in \<open>auto simp: r' True\<close>)
    next
      case False
      then show ?thesis using sub r' concurrency_key_inj by (intro lease_inv_frame [OF sub]) auto
    qed
  qed
qed

lemma relinquish_bucket_inv:
  assumes inv: "bucket_inv v e ts r" and rel: "snd (redis_eval d (concurrency_release_script k token) r) = r'"
  shows "bucket_inv v e ts r'"
proof -
  obtain x where ev: "redis_eval d (concurrency_release_script k token) r = (x, r')"
    using rel by (metis prod.collapse)
  then show ?thesis
  proof (cases rule: redis_eval_cases)
    case (ran out)
    then show ?thesis
      by (intro bucket_inv_frame [OF inv]) (auto simp: concurrency_release_script_def Let_def)
  qed (use inv in simp)
qed

lemma flow_invI:
  assumes "\<And>p u. service_bucket_inv s p u n (bucket_times p u adm) r"
    "\<And>p. service_lease_inv s p (leases_of p ls) r" "distinct (map fst ls)"
    "fh_redis h = r" "fh_admitted h = adm" "fh_leases h = ls" "fh_losses h = n"
  shows "flow_inv s h"
  using assms by (simp add: flow_inv_def)

lemma flow_invD:
  assumes "flow_inv s h"
  shows "service_bucket_inv s p u (fh_losses h) (bucket_times p u (fh_admitted h)) (fh_redis h)"
    "service_lease_inv s p (leases_of p (fh_leases h)) (fh_redis h)" "distinct (map fst (fh_leases h))"
  using assms by (simp_all add: flow_inv_def)

lemma flow_run_inv:
  assumes ok: "flow_settings_ok s" and run: "flow_run s h"
  shows "flow_inv s h"
  using run
proof (induction rule: flow_run.induct)
  case (start r)
  then show ?case by (rule flow_inv_start [OF ok])
next
  case (tick h t)
  have "service_lease_inv s p (leases_of p (fh_leases h)) (fh_redis h\<lparr>rs_now := t\<rparr>)" for p
    using tick(2)
    by (intro lease_inv_time [OF flow_invD(2) [OF tick(3)]]) (simp_all add: marker_valid_def quarantine_of_def)
  then show ?case
    using bucket_inv_tick [OF flow_invD(1) [OF tick(3)] tick(2)] flow_invD(3) [OF tick(3)]
    by (intro flow_invI) simp_all
next
  case (admission h d seed u p res r)
  note inv = flow_invD [OF admission(3)]
  show ?case
    by (rule flow_invI [OF admission_bucket_inv [OF ok admission(2) inv(1) refl]
          admission_lease_inv [OF admission(2) inv(2)] inv(3)]) simp_all
next
  case (acquisition h l loc token p seed d out r)
  note inv = flow_invD [OF acquisition(5)]
  have "distinct (map fst ((if out = Granted then [(token, p, rs_now (fh_redis h))] else []) @ fh_leases h))"
    using inv(3) acquisition(3) by auto
  then show ?case
    by (rule flow_invI [OF acquisition_bucket_inv [OF ok acquisition(2,4) inv(1)]
          acquisition_lease_inv [OF ok acquisition(2,4) inv(2) acquisition(3) refl]]) simp_all
next
  case (relinquish h d p token r)
  note inv = flow_invD [OF relinquish(3)]
  have "distinct (map fst (filter (\<lambda>(t, q, g). (t, q) \<noteq> (token, p)) (fh_leases h)))"
    using inv(3) by (simp add: distinct_map_filter)
  then show ?case
    by (rule flow_invI [OF relinquish_bucket_inv [OF inv(1) relinquish(2)]
          relinquish_lease_inv [OF inv(2) relinquish(2) [symmetric]]]) simp_all
next
  case (loss h r)
  have "service_bucket_inv s p u (Suc (fh_losses h)) (bucket_times p u (fh_admitted h)) r" for p u
  proof -
    have "bucket_inv (view_of s p u) (of_nat (fh_losses h) * (bv_refill (view_of s p u) / 2000) + bv_refill (view_of s p u) / 2000)
        (bucket_times p u (fh_admitted h)) r"
      using loss(2,3) view_ok [OF ok, of p u]
      by (intro bucket_inv_loss [OF flow_invD(1) [OF loss(4)]]) (auto simp: view_defs split: option.split)
    then show ?thesis by (simp add: algebra_simps add_divide_distrib)
  qed
  moreover have "service_lease_inv s p (leases_of p (fh_leases h)) r" for p
    using loss(2,3) by (intro lease_inv_time [OF flow_invD(2) [OF loss(4)]]) auto
  ultimately show ?case using flow_invD(3) [OF loss(4)] by (intro flow_invI) auto
qed

subsection \<open>The permits of the limiter\<close>

text \<open>Every permit of a provider's semaphore is free, stands for an owned token, or is held by one
  of \<open>k\<close> tasks inside \<open>acquire\<close>.\<close>

definition permits_ok :: "concurrency_limiter \<Rightarrow> nat \<Rightarrow> SearchProviderId \<Rightarrow> flow_world \<Rightarrow> bool" where
  "permits_ok l k p w \<longleftrightarrow> finite (dom (fw_owned w)) \<and> (\<exists>free policy. fw_local w p = Some free \<and> cl_policies l p = Some policy
     \<and> int (free + card {t. fw_owned w t = Some p} + k) = cp_local_limit policy)"

text \<open>The other tasks keep the account of the permits, do not use this task's token, and time does
  not run backwards.\<close>

definition fair_env :: "concurrency_limiter \<Rightarrow> SearchProviderId \<Rightarrow> acquire_env \<Rightarrow> bool" where
  "fair_env l p env \<longleftrightarrow>
     (\<forall>n w k. permits_ok l k p w \<and> fw_owned w (ae_token env) = None \<longrightarrow>
        permits_ok l k p (ae_others env n w) \<and> fw_owned (ae_others env n w) (ae_token env) = None)
   \<and> (\<forall>n d w k. permits_ok l k p w \<and> fw_owned w (ae_token env) = None \<longrightarrow>
        permits_ok l k p (ae_sleep env n d w) \<and> fw_owned (ae_sleep env n d w) (ae_token env) = None)
   \<and> (\<forall>n w. fw_mono w \<le> fw_mono (ae_others env n w))
   \<and> (\<forall>n d w. fw_mono w + d \<le> fw_mono (ae_sleep env n d w))"

definition acquire_settled :: "concurrency_limiter \<Rightarrow> SearchProviderId \<Rightarrow> string \<Rightarrow> acquire_result \<Rightarrow> bool" where
  "acquire_settled l p token res \<longleftrightarrow> permits_ok l 0 p (snd res)
     \<and> (case fst res of
          Inr (Some lease) \<Rightarrow> lease = \<lparr>le_provider_id = p, le_token = token\<rparr> \<and> fw_owned (snd res) token = Some p
        | _ \<Rightarrow> fw_owned (snd res) token = None)"

lemma permits_ok_redis [simp]:
  "permits_ok l k p (w\<lparr>fw_redis := r\<rparr>) = permits_ok l k p w"
  by (simp add: permits_ok_def)

lemma permits_ok_own:
  assumes "permits_ok l (Suc k) p w" "fw_owned w t = None"
  shows "permits_ok l k p (w\<lparr>fw_owned := (fw_owned w)(t \<mapsto> p)\<rparr>)"
proof -
  have "{x. ((fw_owned w)(t \<mapsto> p)) x = Some p} = insert t {x. fw_owned w x = Some p}" using assms(2) by auto
  moreover have "finite {x. fw_owned w x = Some p}"
    by (rule finite_subset [of _ "dom (fw_owned w)"]) (use assms in \<open>auto simp: permits_ok_def\<close>)
  moreover have "t \<notin> {x. fw_owned w x = Some p}" using assms(2) by simp
  ultimately show ?thesis using assms(1) unfolding permits_ok_def by (auto simp: card_insert_if)
qed

lemma permits_ok_release: "permits_ok l (Suc k) p w \<Longrightarrow> permits_ok l k p (release_permit p w)"
  by (auto simp: permits_ok_def release_permit_def)

lemma permits_ok_take: "permits_ok l k p w \<Longrightarrow> take_permit p w = Some w' \<Longrightarrow> permits_ok l (Suc k) p w'"
  by (auto simp: permits_ok_def take_permit_def split: option.splits nat.splits)

lemma take_permit_same: "take_permit p w = Some w' \<Longrightarrow> fw_owned w' = fw_owned w \<and> fw_mono w' = fw_mono w"
  by (auto simp: take_permit_def split: option.splits nat.splits)

lemma acquire_settled_cleanup:
  assumes "permits_ok l 1 p w" "fw_owned w token = None" "\<And>lease. res \<noteq> Inr (Some lease)"
  shows "acquire_settled l p token (res, acquire_cleanup p token w)"
proof -
  have "permits_ok l 0 p (release_permit p w)" using assms(1) permits_ok_release [of l 0 p w] by simp
  then show ?thesis
    using assms(2,3) by (auto simp: acquire_settled_def acquire_cleanup_def release_permit_def split: sum.split option.split)
qed

lemma acquire_settled_grant:
  assumes "permits_ok l 1 p w" "fw_owned w token = None"
  shows "acquire_settled l p token (Inr (Some \<lparr>le_provider_id = p, le_token = token\<rparr>),
    acquire_cleanup p token (w\<lparr>fw_owned := (fw_owned w)(token \<mapsto> p)\<rparr>))"
  using permits_ok_own [of l 0 p w token] assms by (simp add: acquire_settled_def acquire_cleanup_def)

text \<open>A round settles the call, or leaves less than the remaining time by the polling interval.\<close>

lemma acquire_round:
  assumes env: "fair_env l p env" and w: "permits_ok l 1 p w" "fw_owned w (ae_token env) = None"
  obtains (settled) res where "acquire_loop (Suc fuel) l policy env p deadline n w = Some res"
      "acquire_settled l p (ae_token env) res"
  | (again) w' where "acquire_loop (Suc fuel) l policy env p deadline n w = acquire_loop fuel l policy env p deadline (Suc n) w'"
      "permits_ok l 1 p w'" "fw_owned w' (ae_token env) = None" "0 < deadline - fw_mono w"
      "deadline - fw_mono w' \<le> max 0 (deadline - fw_mono w - cl_poll l)"
proof -
  let ?w1 = "ae_others env n w"
  obtain out r where tr: "acquire_try l policy p (ae_token env) (ae_seed env n) (ae_delivery env n) (fw_redis ?w1) = (out, r)"
    by (metis prod.exhaust)
  define w2 where "w2 = ?w1\<lparr>fw_redis := r\<rparr>"
  have ok2: "permits_ok l 1 p w2" "fw_owned w2 (ae_token env) = None" "fw_mono w \<le> fw_mono w2"
    using env w unfolding fair_env_def w2_def by simp_all
  let ?loop = "acquire_loop (Suc fuel) l policy env p deadline n w"
  note unf = acquire_loop.simps(2) Let_def tr prod.case try_outcome.case
  show ?thesis
  proof (cases out)
    case Granted
    show ?thesis
      by (rule settled [OF _ acquire_settled_grant [OF ok2(1,2)]]) (simp only: unf Granted w2_def)
  next
    case GiveUp
    show ?thesis
      by (rule settled [OF _ acquire_settled_cleanup [OF ok2(1,2), of "Inr None"]]) (simp_all only: unf GiveUp w2_def, simp)
  next
    case (Escapes e)
    show ?thesis
      by (rule settled [OF _ acquire_settled_cleanup [OF ok2(1,2), of "Inl e"]]) (simp_all only: unf Escapes w2_def, simp)
  next
    case Denied
    define rest where "rest = deadline - fw_mono w2"
    define w3 where "w3 = ae_sleep env n (min (cl_poll l) rest) w2"
    have loop: "?loop = (if rest \<le> 0 then Some (Inr None, acquire_cleanup p (ae_token env) w2)
        else if ae_sleep_cancelled env n then Some (Inl AdmCancelled, acquire_cleanup p (ae_token env) w3)
        else acquire_loop fuel l policy env p deadline (Suc n) w3)"
      by (simp only: unf Denied w3_def rest_def w2_def)
    have ok3: "permits_ok l 1 p w3" "fw_owned w3 (ae_token env) = None" "fw_mono w2 + min (cl_poll l) rest \<le> fw_mono w3"
      using env ok2 unfolding fair_env_def w3_def by simp_all
    consider "rest \<le> 0" | "0 < rest" "ae_sleep_cancelled env n" | "0 < rest" "\<not> ae_sleep_cancelled env n"
      by linarith
    then show ?thesis
    proof cases
      case 1
      then show ?thesis
        by (intro settled [OF _ acquire_settled_cleanup [OF ok2(1,2), of "Inr None"]]) (simp_all add: loop del: acquire_loop.simps)
    next
      case 2
      then show ?thesis
        by (intro settled [OF _ acquire_settled_cleanup [OF ok3(1,2), of "Inl AdmCancelled"]]) (simp_all add: loop del: acquire_loop.simps)
    next
      case 3
      show ?thesis
      proof (rule again [OF _ ok3(1,2)])
        show "?loop = acquire_loop fuel l policy env p deadline (Suc n) w3"
          using 3 by (simp add: loop del: acquire_loop.simps)
        show "0 < deadline - fw_mono w" "deadline - fw_mono w3 \<le> max 0 (deadline - fw_mono w - cl_poll l)"
          using 3 ok2(3) ok3(3) unfolding rest_def by linarith+
      qed
    qed
  qed
qed

lemma acquire_loop_settles:
  assumes env: "fair_env l p env"
  shows "deadline - fw_mono w \<le> of_nat fuel * cl_poll l \<Longrightarrow> permits_ok l 1 p w \<Longrightarrow> fw_owned w (ae_token env) = None
    \<Longrightarrow> \<exists>res. acquire_loop (Suc fuel) l policy env p deadline n w = Some res \<and> acquire_settled l p (ae_token env) res"
proof (induction fuel arbitrary: n w)
  case 0
  from env 0(2,3) show ?case
    by (cases rule: acquire_round [where deadline = deadline and fuel = 0 and policy = policy and n = n])
      (use 0 in auto)
next
  case (Suc fuel)
  show ?case
    using env Suc.prems(2,3)
  proof (cases rule: acquire_round [where deadline = deadline and fuel = "Suc fuel" and policy = policy and n = n])
    case (settled res)
    then show ?thesis by blast
  next
    case (again w')
    have "0 \<le> of_nat fuel * cl_poll l \<or> cl_poll l < 0" by (cases "cl_poll l < 0") auto
    moreover have "deadline - fw_mono w \<le> of_nat fuel * cl_poll l + cl_poll l"
      using Suc.prems(1) by (simp add: algebra_simps)
    moreover have "\<not> cl_poll l < 0"
      using again(4) Suc.prems(1) by (meson less_le_trans linorder_not_less mult_nonneg_nonpos of_nat_0_le_iff order_less_imp_le)
    ultimately have "deadline - fw_mono w' \<le> of_nat fuel * cl_poll l"
      using again(5) by linarith
    then show ?thesis using Suc.IH [OF _ again(2,3)] again(1) by simp
  qed
qed

lemma wait_permit_settles:
  assumes env: "fair_env l p env" and w: "permits_ok l 0 p w" "fw_owned w (ae_token env) = None"
    and wait: "wait_permit env p timeout w = (w', got)"
  shows "fw_owned w' (ae_token env) = None" "fw_mono w \<le> fw_mono w'"
    "permits_ok l (if got then 1 else 0) p w'"
proof -
  have o: "permits_ok l 0 p (ae_others env 0 w)" "fw_owned (ae_others env 0 w) (ae_token env) = None"
    "fw_mono w \<le> fw_mono (ae_others env 0 w)"
    using env w unfolding fair_env_def by simp_all
  have "fw_owned w' (ae_token env) = None \<and> fw_mono w \<le> fw_mono w' \<and> permits_ok l (if got then 1 else 0) p w'"
    using wait w o permits_ok_take [of l 0 p] take_permit_same [of p]
    unfolding wait_permit_def Let_def
    by (auto split: if_split_asm option.split_asm dest!: take_permit_same)
  then show "fw_owned w' (ae_token env) = None" "fw_mono w \<le> fw_mono w'"
    "permits_ok l (if got then 1 else 0) p w'"
    by blast+
qed

subsection \<open>An ideal token bucket\<close>

text \<open>The reference: a limiter whose buckets never expire. It keeps, for each bucket, the tokens and
  the time of its last charge.\<close>

type_synonym ideal_buckets = "string \<Rightarrow> rat \<times> int"

definition ideal_level :: "rat \<Rightarrow> rat \<Rightarrow> int \<Rightarrow> rat \<times> int \<Rightarrow> rat" where
  "ideal_level capacity refill now i = min capacity (fst i + refill * of_int (now - snd i) / 1000)"

definition ideal_admit ::
  "ProviderRatePolicy \<Rightarrow> string \<Rightarrow> string \<Rightarrow> int \<Rightarrow> ideal_buckets \<Rightarrow> bool \<times> ideal_buckets" where
  "ideal_admit policy pk gk now i = (let
     pt = ideal_level (of_int (tb_capacity (rp_principal policy))) (tb_refill_per_second (rp_principal policy)) now (i pk);
     gt = ideal_level (of_int (tb_capacity (rp_global policy))) (tb_refill_per_second (rp_global policy)) now (i gk)
   in if 1 \<le> pt \<and> 1 \<le> gt then (True, i(pk := (pt - 1, now), gk := (gt - 1, now))) else (False, i))"

fun ideal_run :: "flow_settings \<Rightarrow> SearchProviderId \<Rightarrow> (int \<times> string) list \<Rightarrow> ideal_buckets \<Rightarrow> bool list" where
  "ideal_run s p [] i = []"
| "ideal_run s p ((t, u) # reqs) i = (case ideal_admit (rate_policy s p) (fst (rate_keys (fs_namespace s) u p))
       (snd (rate_keys (fs_namespace s) u p)) t i of (ok, i') \<Rightarrow> ok # ideal_run s p reqs i')"

text \<open>The service's limiter on the same requests: each is a principal and the server time at which
  its script runs.\<close>

fun admit_run :: "flow_settings \<Rightarrow> SearchProviderId \<Rightarrow> (int \<times> string) list \<Rightarrow> redis_flow \<Rightarrow> bool list" where
  "admit_run s p [] r = []"
| "admit_run s p ((t, u) # reqs) r = (case admit (lifespan_rate_limiter s) Answered [] u p (r\<lparr>rs_now := t\<rparr>) of
       (res, r') \<Rightarrow> (res = Inr (rate_admission RATE_ALLOWED None)) # admit_run s p reqs r')"

definition open_marker :: "string \<Rightarrow> redis_flow \<Rightarrow> bool" where
  "open_marker k r \<longleftrightarrow> marker_valid k r \<and> quarantine_of k r \<le> of_int (rs_now r)
     \<and> (\<forall>g. mk_generation (rs_marker r k) = Some g \<longrightarrow> list_all is_ascii g)"

definition bucket_sim :: "flow_settings \<Rightarrow> SearchProviderId \<Rightarrow> redis_flow \<Rightarrow> ideal_buckets \<Rightarrow> bool" where
  "bucket_sim s p r i \<longleftrightarrow> (\<forall>u t. rs_now r \<le> t \<longrightarrow>
     bucket_state (bv_capacity (view_of s p u)) (bv_refill (view_of s p u)) t (rs_bucket r (bv_key (view_of s p u)))
     = ideal_level (bv_capacity (view_of s p u)) (bv_refill (view_of s p u)) t (i (bv_key (view_of s p u))))"

lemma ideal_level_put:
  assumes "0 \<le> x" "0 < f" "n \<le> b" "c \<le> f * of_int ttl / 1000"
  shows "bucket_state c f b \<lparr>bk_tokens = Some x, bk_updated = Some (of_int n), bk_expires = Some (n + ttl)\<rparr>
    = ideal_level c f b (x, n)"
proof (cases "b \<le> n + ttl")
  case True
  then show ?thesis
    using assms by (simp add: bucket_state_def ideal_level_def Let_def or_default_def key_live_def max_def mult.commute)
next
  case False
  then have "f * of_int ttl \<le> f * of_int (b - n)"
    using assms by (intro mult_left_mono) (simp_all del: of_int_diff)
  then have "c \<le> x + f * of_int (b - n) / 1000" using assms by linarith
  then show ?thesis using False
    by (simp add: bucket_state_def ideal_level_def Let_def or_default_def key_live_def min_absorb1)
qed

lemma admit_answered:
  fixes s p r u seed
  assumes "open_marker (generation_key (fs_namespace s) p) r"
  defines "a \<equiv> service_args s u p seed"
  defines "pt \<equiv> bucket_state (ta_principal_capacity a) (ta_principal_refill a) (rs_now r) (rs_bucket r (ta_principal_key a))"
  defines "gt \<equiv> bucket_state (ta_global_capacity a) (ta_global_refill a) (rs_now r) (rs_bucket r (ta_global_key a))"
  shows "1 \<le> pt \<and> 1 \<le> gt \<Longrightarrow> admit (lifespan_rate_limiter s) Answered seed u p r = (Inr (rate_admission RATE_ALLOWED None),
      put_bucket (ta_global_key a) (gt - 1) (ta_ttl_ms a) (put_bucket (ta_principal_key a) (pt - 1) (ta_ttl_ms a) r))"
    and "\<not> (1 \<le> pt \<and> 1 \<le> gt) \<Longrightarrow> \<exists>retry. admit (lifespan_rate_limiter s) Answered seed u p r = (Inr (rate_admission RATE_LIMITED retry), r)"
proof -
  obtain g run where m: "mk_generation (rs_marker r (generation_key (fs_namespace s) p)) = Some g" "list_all is_ascii g"
    "rs_run_id r = Some run" "mk_run_id (rs_marker r (generation_key (fs_namespace s) p)) = Some run"
    using assms(1) by (auto simp: open_marker_def marker_valid_def)
  have key: "ta_marker_key a = generation_key (fs_namespace s) p" "ta_cost a = 1"
    by (simp_all add: a_def token_arguments_def lifespan_rate_limiter_def Let_def)
  have ref: "refresh_marker run (ta_quarantine_ms a) (ta_seed a) (ta_marker_key a) r
      = (g, quarantine_of (generation_key (fs_namespace s) p) r, r)"
    using m by (simp add: refresh_marker_def key quarantine_of_def Let_def)
  have opened: "\<not> of_int (rs_now r) < quarantine_of (generation_key (fs_namespace s) p) r"
    using assms(1) by (simp add: open_marker_def)
  have script: "token_bucket_script a r = (if pt < 1 \<or> gt < 1
      then (Reply (RList [RInt 0, RInt \<lceil>max (if pt < 1 then (1 - pt) / ta_principal_refill a else 0)
        (if gt < 1 then (1 - gt) / ta_global_refill a else 0) * 1000\<rceil>, RBulk g]), r)
      else (Reply (RList [RInt 1, RInt 0, RBulk g]),
        put_bucket (ta_global_key a) (gt - 1) (ta_ttl_ms a) (put_bucket (ta_principal_key a) (pt - 1) (ta_ttl_ms a) r)))"
    unfolding token_bucket_script_def m option.case ref prod.case Let_def key(2) pt_def [symmetric] gt_def [symmetric] if_not_P [OF opened] ..
  have admit: "admit (lifespan_rate_limiter s) Answered seed u p r = (case redis_eval Answered (token_bucket_script a) r of
        (Inl AdmRedisError, r') \<Rightarrow> (Inr (rate_admission RATE_UNAVAILABLE None), r')
      | (Inl e, r') \<Rightarrow> (Inl e, r') | (Inr v, r') \<Rightarrow> (admission_of_reply v, r'))"
    by (simp add: admit_def lifespan_rate_limiter_def a_def)
  show "1 \<le> pt \<and> 1 \<le> gt \<Longrightarrow> admit (lifespan_rate_limiter s) Answered seed u p r = (Inr (rate_admission RATE_ALLOWED None),
      put_bucket (ta_global_key a) (gt - 1) (ta_ttl_ms a) (put_bucket (ta_principal_key a) (pt - 1) (ta_ttl_ms a) r))"
    unfolding admit by (simp add: redis_eval_def script admission_of_reply_def m(2))
  show "\<not> (1 \<le> pt \<and> 1 \<le> gt) \<Longrightarrow> \<exists>retry. admit (lifespan_rate_limiter s) Answered seed u p r = (Inr (rate_admission RATE_LIMITED retry), r)"
    unfolding admit by (simp add: redis_eval_def script admission_of_reply_def m(2) Let_def not_le disj_commute) blast
qed

lemma open_marker_same:
  assumes "open_marker k r" "rs_now r \<le> rs_now r'" "rs_run_id r' = rs_run_id r" "rs_marker r' = rs_marker r"
  shows "open_marker k r'"
proof -
  have "(of_int (rs_now r) :: rat) \<le> of_int (rs_now r')" using assms(2) by simp
  then show ?thesis using assms unfolding open_marker_def marker_valid_def quarantine_of_def by auto
qed

lemma bucket_sim_put:
  fixes s p r i u seed
  assumes ok: "flow_settings_ok s" and sim: "bucket_sim s p r i"
  defines "a \<equiv> service_args s u p seed"
  defines "pt \<equiv> bucket_state (ta_principal_capacity a) (ta_principal_refill a) (rs_now r) (rs_bucket r (ta_principal_key a))"
  defines "gt \<equiv> bucket_state (ta_global_capacity a) (ta_global_refill a) (rs_now r) (rs_bucket r (ta_global_key a))"
  assumes room: "1 \<le> pt" "1 \<le> gt"
  shows "bucket_sim s p (put_bucket (ta_global_key a) (gt - 1) (ta_ttl_ms a) (put_bucket (ta_principal_key a) (pt - 1) (ta_ttl_ms a) r))
    (i(ta_principal_key a := (pt - 1, rs_now r), ta_global_key a := (gt - 1, rs_now r)))"
  unfolding bucket_sim_def
proof (intro allI impI)
  fix v t
  let ?w = "view_of s p v"
  let ?r = "put_bucket (ta_global_key a) (gt - 1) (ta_ttl_ms a) (put_bucket (ta_principal_key a) (pt - 1) (ta_ttl_ms a) r)"
  assume "rs_now ?r \<le> t"
  then have t: "rs_now r \<le> t" by simp
  note same = service_args_same(7) [OF ok, where u = u and p = p and v = v and seed = seed, folded a_def]
  note put = ideal_level_put [OF _ view_ok(1) [OF ok, of p v] t same]
  consider "bv_key ?w = ta_global_key a" | "bv_key ?w = ta_principal_key a" "bv_key ?w \<noteq> ta_global_key a"
    | "bv_key ?w \<noteq> ta_global_key a" "bv_key ?w \<noteq> ta_principal_key a" by blast
  then show "bucket_state (bv_capacity ?w) (bv_refill ?w) t (rs_bucket ?r (bv_key ?w))
    = ideal_level (bv_capacity ?w) (bv_refill ?w) t ((i(ta_principal_key a := (pt - 1, rs_now r), ta_global_key a := (gt - 1, rs_now r))) (bv_key ?w))"
  proof cases
    case 1
    then show ?thesis using put [of "gt - 1"] room by simp
  next
    case 2
    then show ?thesis using put [of "pt - 1"] room by simp
  next
    case 3
    then show ?thesis using sim t by (simp add: bucket_sim_def)
  qed
qed

lemma admit_run_ideal:
  assumes ok: "flow_settings_ok s"
  shows "open_marker (generation_key (fs_namespace s) p) r \<Longrightarrow> bucket_sim s p r i \<Longrightarrow> sorted (rs_now r # map fst reqs)
    \<Longrightarrow> admit_run s p reqs r = ideal_run s p reqs i"
proof (induction reqs arbitrary: r i)
  case Nil
  then show ?case by simp
next
  case (Cons req reqs)
  obtain t u where req: "req = (t, u)" by force
  define r0 where "r0 = r\<lparr>rs_now := t\<rparr>"
  define a where "a = service_args s u p []"
  define pt where "pt = bucket_state (ta_principal_capacity a) (ta_principal_refill a) t (rs_bucket r0 (ta_principal_key a))"
  define gt where "gt = bucket_state (ta_global_capacity a) (ta_global_refill a) t (rs_bucket r0 (ta_global_key a))"
  have t: "rs_now r \<le> t" "rs_now r0 = t" "rs_bucket r0 = rs_bucket r" using Cons.prems(3) by (simp_all add: req r0_def)
  have open0: "open_marker (generation_key (fs_namespace s) p) r0"
    by (rule open_marker_same [OF Cons.prems(1)]) (use t in \<open>simp_all add: r0_def\<close>)
  have sim0: "bucket_sim s p r0 i" using Cons.prems(2) t by (simp add: bucket_sim_def)
  have keys: "ta_principal_key a = fst (rate_keys (fs_namespace s) u p)" "ta_global_key a = snd (rate_keys (fs_namespace s) u p)"
    by (simp_all add: a_def token_arguments_def lifespan_rate_limiter_def Let_def)
  have args: "bv_key (view_of s p (Some u)) = ta_principal_key a" "bv_capacity (view_of s p (Some u)) = ta_principal_capacity a"
    "bv_refill (view_of s p (Some u)) = ta_principal_refill a" "bv_key (view_of s p None) = ta_global_key a"
    "bv_capacity (view_of s p None) = ta_global_capacity a" "bv_refill (view_of s p None) = ta_global_refill a"
    by (simp_all add: a_def token_arguments_def lifespan_rate_limiter_def Let_def view_defs rate_keys_distinct(4) [of _ "[]" _ u])
  have lev: "pt = ideal_level (ta_principal_capacity a) (ta_principal_refill a) t (i (ta_principal_key a))"
    "gt = ideal_level (ta_global_capacity a) (ta_global_refill a) t (i (ta_global_key a))"
    using sim0 t(2) unfolding bucket_sim_def pt_def gt_def args(1-6) [symmetric] by blast+
  have caps: "ta_principal_capacity a = of_int (tb_capacity (rp_principal (rate_policy s p)))"
    "ta_principal_refill a = tb_refill_per_second (rp_principal (rate_policy s p))"
    "ta_global_capacity a = of_int (tb_capacity (rp_global (rate_policy s p)))"
    "ta_global_refill a = tb_refill_per_second (rp_global (rate_policy s p))"
    by (simp_all add: a_def token_arguments_def Let_def)
  have ideal: "ideal_admit (rate_policy s p) (fst (rate_keys (fs_namespace s) u p)) (snd (rate_keys (fs_namespace s) u p)) t i
    = (if 1 \<le> pt \<and> 1 \<le> gt then (True, i(ta_principal_key a := (pt - 1, t), ta_global_key a := (gt - 1, t))) else (False, i))"
    unfolding ideal_admit_def Let_def lev keys caps ..
  note ans = admit_answered [OF open0, where u = u and seed = "[]", folded a_def, unfolded t(2), folded pt_def gt_def]
  show ?case
  proof (cases "1 \<le> pt \<and> 1 \<le> gt")
    case True
    let ?r' = "put_bucket (ta_global_key a) (gt - 1) (ta_ttl_ms a) (put_bucket (ta_principal_key a) (pt - 1) (ta_ttl_ms a) r0)"
    let ?i' = "i(ta_principal_key a := (pt - 1, t), ta_global_key a := (gt - 1, t))"
    have "bucket_sim s p ?r' ?i'"
      using bucket_sim_put [OF ok sim0, where u = u and seed = "[]", folded a_def, unfolded t(2), folded pt_def gt_def] True by blast
    moreover have "open_marker (generation_key (fs_namespace s) p) ?r'"
      by (rule open_marker_same [OF open0]) simp_all
    moreover have "sorted (rs_now ?r' # map fst reqs)" using Cons.prems(3) t by (simp add: req)
    ultimately have "admit_run s p reqs ?r' = ideal_run s p reqs ?i'" by (intro Cons.IH)
    then show ?thesis using ans(1) True by (simp add: req ideal r0_def [symmetric])
  next
    case False
    then obtain retry where ad: "admit (lifespan_rate_limiter s) Answered [] u p r0 = (Inr (rate_admission RATE_LIMITED retry), r0)"
      using ans(2) by blast
    have "admit_run s p reqs r0 = ideal_run s p reqs i"
      using Cons.prems(3) t by (intro Cons.IH [OF open0 sim0]) (simp add: req)
    moreover have "rate_admission RATE_LIMITED retry \<noteq> rate_admission RATE_ALLOWED None"
      by (simp add: rate_admission_def)
    ultimately show ?thesis using ad False by (simp add: req ideal r0_def [symmetric])
  qed
qed

subsection \<open>Demonstration values\<close>

definition demo_flow_settings :: flow_settings where
  "demo_flow_settings = (let
     rate = \<lparr>sr_principal = \<lparr>sb_capacity = 20, sb_refill_per_second = 5\<rparr>,
             sr_global = \<lparr>sb_capacity = 100, sb_refill_per_second = 20\<rparr>\<rparr>;
     conc = \<lparr>sc_local_limit = 10, sc_global_limit = 20, sc_lease_seconds = 65, sc_admission_timeout_seconds = 2\<rparr>
   in \<lparr>fs_namespace = ''wa'', fs_rate_searxng = rate, fs_rate_yandex = rate, fs_concurrency_searxng = conc,
       fs_concurrency_yandex = conc\<lparr>sc_local_limit := 5, sc_global_limit := 10\<rparr>\<rparr>)"

definition demo_flow_redis :: redis_flow where
  "demo_flow_redis = \<lparr>rs_now = 1000, rs_run_id = Some ''run'',
     rs_marker = (\<lambda>_. \<lparr>mk_generation = Some ''g'', mk_run_id = Some ''run'', mk_quarantine = Some 0\<rparr>),
     rs_bucket = (\<lambda>_. \<lparr>bk_tokens = None, bk_updated = None, bk_expires = None\<rparr>),
     rs_zset = (\<lambda>_. \<lparr>zs_members = [], zs_expires = None\<rparr>)\<rparr>"

definition demo_flow_start :: flow_history where
  "demo_flow_start = \<lparr>fh_redis = demo_flow_redis, fh_admitted = [], fh_leases = [], fh_losses = 0\<rparr>"

lemma demo_flow_ok: "flow_settings_ok demo_flow_settings"
  by (simp add: demo_flow_settings_def flow_settings_ok_def rate_bucket_settings_ok_def concurrency_settings_ok_def Let_def)

lemma demo_open: "open_marker k demo_flow_redis"
  by (simp add: open_marker_def marker_valid_def quarantine_of_def demo_flow_redis_def or_default_def is_ascii_def)

text \<open>One admission of Yandex for the principal \<open>alice\<close> and one lease.\<close>

lemma demo_admitted:
  "\<exists>r. flow_run demo_flow_settings \<lparr>fh_redis = r, fh_admitted = [(1000, YANDEX, ''alice'')], fh_leases = [], fh_losses = 0\<rparr>"
proof -
  have level: "bucket_state c f n (rs_bucket demo_flow_redis k) = c" for c f n k
    by (simp add: bucket_state_def demo_flow_redis_def key_live_def or_default_def)
  have caps: "1 \<le> ta_principal_capacity (service_args demo_flow_settings u p seed)"
    "1 \<le> ta_global_capacity (service_args demo_flow_settings u p seed)" for u p seed
    by (simp_all add: token_arguments_def rate_policy_def demo_flow_settings_def Let_def)
  obtain r where "admit (lifespan_rate_limiter demo_flow_settings) Answered [] ''alice'' YANDEX demo_flow_redis
      = (Inr (rate_admission RATE_ALLOWED None), r)"
    using admit_answered(1) [OF demo_open, where u = "''alice''" and seed = "[]" and s = demo_flow_settings and p = YANDEX]
      level caps by auto
  moreover have "flow_run demo_flow_settings demo_flow_start"
    unfolding demo_flow_start_def by (rule flow_run.start)
  ultimately have "flow_run demo_flow_settings (demo_flow_start\<lparr>fh_redis := r, fh_admitted := [(1000, YANDEX, ''alice'')]\<rparr>)"
    using flow_run.admission [of demo_flow_settings demo_flow_start Answered "[]" "''alice''" YANDEX]
    by (simp add: demo_flow_start_def demo_flow_redis_def)
  then show ?thesis by (auto simp: demo_flow_start_def)
qed

lemma demo_leased:
  "\<exists>r. rs_now r = 1000 \<and> flow_run demo_flow_settings \<lparr>fh_redis = r, fh_admitted = [], fh_leases = [(''t'', YANDEX, 1000)], fh_losses = 0\<rparr>"
proof -
  obtain l loc where lim: "lifespan_concurrency_limiter demo_flow_settings = Inr (l, loc)"
    by (simp add: lifespan_concurrency_limiter_def make_concurrency_limiter_def)
  note l = lifespan_limiter [OF lim]
  have "\<exists>r. rs_now r = 1000 \<and> acquire_try l (concurrency_policy demo_flow_settings YANDEX) YANDEX ''t'' [] Answered demo_flow_redis = (Granted, r)"
    by (simp add: l acquire_try_def redis_eval_def concurrency_acquire_script_def refresh_marker_def demo_flow_redis_def
        or_default_def Let_def zset_members_def key_live_def acquire_arguments_def concurrency_policy_def demo_flow_settings_def
        acquire_reply_def is_ascii_def)
  then obtain r where acq: "rs_now r = 1000"
    "acquire_try l (concurrency_policy demo_flow_settings YANDEX) YANDEX ''t'' [] Answered demo_flow_redis = (Granted, r)" by blast
  moreover have "flow_run demo_flow_settings demo_flow_start"
    unfolding demo_flow_start_def by (rule flow_run.start)
  ultimately have "flow_run demo_flow_settings (demo_flow_start\<lparr>fh_redis := r, fh_leases := [(''t'', YANDEX, 1000)]\<rparr>)"
    using flow_run.acquisition [OF _ lim, of demo_flow_start "''t''" YANDEX "[]" Answered Granted r]
    by (simp add: demo_flow_start_def demo_flow_redis_def)
  then show ?thesis using acq(1) by (auto simp: demo_flow_start_def)
qed

definition demo_limiter :: concurrency_limiter where
  "demo_limiter = \<lparr>cl_namespace = ''wa'', cl_policies = (\<lambda>p. Some (concurrency_policy demo_flow_settings p)), cl_poll = 1 / 100,
     cl_state_loss_horizons = flow_control_horizons demo_flow_settings\<rparr>"

definition demo_world :: flow_world where
  "demo_world = \<lparr>fw_local = (\<lambda>p. Some 4), fw_owned = [''a'' \<mapsto> YANDEX], fw_redis = demo_flow_redis, fw_mono = 0\<rparr>"

definition demo_acquire_env :: acquire_env where
  "demo_acquire_env = \<lparr>ae_token = ''t'', ae_seed = (\<lambda>_. []), ae_delivery = (\<lambda>_. Answered), ae_others = (\<lambda>n w. w),
     ae_sleep = (\<lambda>n d w. w\<lparr>fw_mono := fw_mono w + d\<rparr>), ae_sleep_cancelled = (\<lambda>_. False), ae_wait_cancelled = False\<rparr>"

lemma demo_permits: "permits_ok demo_limiter 0 YANDEX demo_world"
proof -
  have "{t. [''a'' \<mapsto> YANDEX] t = Some YANDEX} = {''a''}" by auto
  then show ?thesis
    by (simp add: permits_ok_def demo_limiter_def demo_world_def concurrency_policy_def demo_flow_settings_def Let_def)
qed

lemma demo_fair: "fair_env demo_limiter YANDEX demo_acquire_env"
  by (simp add: fair_env_def demo_acquire_env_def permits_ok_def)

subsection \<open>Properties\<close>

text \<open>C14: In every history of the service and its Redis server, with any number of state losses
  (flushes, restarts, restored snapshots), the admissions of one principal and of all principals to a provider in any
  window of server time are at most the bucket's capacity plus the refill during the window. The
  only excess is the rounding of the quarantine to whole milliseconds, half a millisecond of refill
  per state loss.\<close>
theorem rate_admissions_bounded:
  assumes "flow_settings_ok s" "flow_run s h" "a \<le> b"
  shows "of_nat (window_count (bucket_times p (Some u) (fh_admitted h)) a b)
      \<le> of_int (tb_capacity (rp_principal (rate_policy s p)))
        + tb_refill_per_second (rp_principal (rate_policy s p)) * of_int (b - a) / 1000
        + of_nat (fh_losses h) * (tb_refill_per_second (rp_principal (rate_policy s p)) / 2000)
    \<and> of_nat (window_count (bucket_times p None (fh_admitted h)) a b)
      \<le> of_int (tb_capacity (rp_global (rate_policy s p)))
        + tb_refill_per_second (rp_global (rate_policy s p)) * of_int (b - a) / 1000
        + of_nat (fh_losses h) * (tb_refill_per_second (rp_global (rate_policy s p)) / 2000)"
proof -
  note inv = flow_invD(1) [OF flow_run_inv [OF assms(1,2)], of p, unfolded bucket_inv_def window_ok_def]
  show ?thesis
    using inv [of "Some u"] inv [of None] assms(3) by (simp add: view_defs)
qed

theorem rate_admissions_bounded_witness:
  "\<exists>h. fh_admitted h = [(1000, YANDEX, ''alice'')] \<and> flow_run demo_flow_settings h
     \<and> (of_nat (window_count (bucket_times YANDEX (Some ''alice'') (fh_admitted h)) 0 1000) :: rat) \<le> 25"
proof -
  obtain r where run: "flow_run demo_flow_settings \<lparr>fh_redis = r, fh_admitted = [(1000, YANDEX, ''alice'')], fh_leases = [], fh_losses = 0\<rparr>"
    using demo_admitted by blast
  have pol: "of_int (tb_capacity (rp_principal (rate_policy demo_flow_settings YANDEX))) = (20 :: rat)"
    "tb_refill_per_second (rp_principal (rate_policy demo_flow_settings YANDEX)) = 5"
    by (simp_all add: rate_policy_def demo_flow_settings_def Let_def)
  show ?thesis
    using rate_admissions_bounded [OF demo_flow_ok run, of 0 1000 YANDEX "''alice''"] run
    by (intro exI [of _ "\<lparr>fh_redis = r, fh_admitted = [(1000, YANDEX, ''alice'')], fh_leases = [], fh_losses = 0\<rparr>"])
      (simp add: pol)
qed

text \<open>C15: In every such history, the leases of a provider that were granted, not released and are
  within their lease time never exceed the provider's global limit, over all processes and across
  state losses.\<close>
theorem concurrency_leases_bounded:
  assumes "flow_settings_ok s" "flow_run s h"
  shows "int (length (live_leases (lease_ms (concurrency_policy s p)) (rs_now (fh_redis h)) (leases_of p (fh_leases h))))
      \<le> cp_global_limit (concurrency_policy s p)"
  using flow_invD(2) [OF flow_run_inv [OF assms], of p] by (simp add: lease_inv_def)

theorem concurrency_leases_bounded_witness:
  "\<exists>h. fh_leases h = [(''t'', YANDEX, 1000)] \<and> flow_run demo_flow_settings h
     \<and> int (length (live_leases (lease_ms (concurrency_policy demo_flow_settings YANDEX)) (rs_now (fh_redis h))
         (leases_of YANDEX (fh_leases h)))) \<le> cp_global_limit (concurrency_policy demo_flow_settings YANDEX)"
proof -
  obtain r where run: "flow_run demo_flow_settings \<lparr>fh_redis = r, fh_admitted = [], fh_leases = [(''t'', YANDEX, 1000)], fh_losses = 0\<rparr>"
    using demo_leased by blast
  show ?thesis
    using concurrency_leases_bounded [OF demo_flow_ok run, of YANDEX] run
    by (intro exI [of _ "\<lparr>fh_redis = r, fh_admitted = [], fh_leases = [(''t'', YANDEX, 1000)], fh_losses = 0\<rparr>"]) simp
qed

text \<open>C16: On a server outside quarantine, the buckets that expire decide every sequence of requests
  exactly as the ideal buckets that never expire.\<close>
theorem rate_limiter_equals_ideal:
  assumes "flow_settings_ok s" "open_marker (generation_key (fs_namespace s) p) r" "sorted (rs_now r # map fst reqs)"
    and "\<And>k. rs_bucket r k = \<lparr>bk_tokens = None, bk_updated = None, bk_expires = None\<rparr>"
  shows "admit_run s p reqs r = ideal_run s p reqs (\<lambda>k. if k = bv_key (global_view s p)
      then (of_int (tb_capacity (rp_global (rate_policy s p))), rs_now r)
      else (of_int (tb_capacity (rp_principal (rate_policy s p))), rs_now r))"
proof (rule admit_run_ideal [OF assms(1,2) _ assms(3)])
  have keys: "bv_key (principal_view s p x) \<noteq> bv_key (global_view s p)" for x
    by (simp add: principal_view_def global_view_def rate_keys_distinct)
  have level: "min c (c + f * of_int (t - rs_now r) / 1000) = c" if "0 < f" "rs_now r \<le> t" for c f :: rat and t
    using that by simp
  show "bucket_sim s p r (\<lambda>k. if k = bv_key (global_view s p)
      then (of_int (tb_capacity (rp_global (rate_policy s p))), rs_now r)
      else (of_int (tb_capacity (rp_principal (rate_policy s p))), rs_now r))"
    unfolding bucket_sim_def ideal_level_def
  proof (intro allI impI)
    fix u t assume "rs_now r \<le> t"
    with level [OF view_ok(1) [OF assms(1), of p u]] keys
    show "bucket_state (bv_capacity (view_of s p u)) (bv_refill (view_of s p u)) t (rs_bucket r (bv_key (view_of s p u)))
      = min (bv_capacity (view_of s p u)) (fst (if bv_key (view_of s p u) = bv_key (global_view s p)
          then (of_int (tb_capacity (rp_global (rate_policy s p))), rs_now r)
          else (of_int (tb_capacity (rp_principal (rate_policy s p))), rs_now r))
        + bv_refill (view_of s p u) * of_int (t - snd (if bv_key (view_of s p u) = bv_key (global_view s p)
          then (of_int (tb_capacity (rp_global (rate_policy s p))), rs_now r)
          else (of_int (tb_capacity (rp_principal (rate_policy s p))), rs_now r))) / 1000)"
      by (cases u) (simp_all add: assms(4) bucket_state_def key_live_def or_default_def view_of_def
          principal_view_def global_view_def rate_keys_distinct)
  qed
qed

theorem rate_limiter_equals_ideal_witness:
  "admit_run demo_flow_settings YANDEX [(1000, ''alice''), (1000, ''bob''), (9000, ''alice'')] demo_flow_redis
     = ideal_run demo_flow_settings YANDEX [(1000, ''alice''), (1000, ''bob''), (9000, ''alice'')]
        (\<lambda>k. if k = bv_key (global_view demo_flow_settings YANDEX)
          then (of_int (tb_capacity (rp_global (rate_policy demo_flow_settings YANDEX))), 1000)
          else (of_int (tb_capacity (rp_principal (rate_policy demo_flow_settings YANDEX))), 1000))"
proof -
  have r: "rs_now demo_flow_redis = 1000" "rs_bucket demo_flow_redis k = \<lparr>bk_tokens = None, bk_updated = None, bk_expires = None\<rparr>" for k
    by (simp_all add: demo_flow_redis_def)
  have "sorted (rs_now demo_flow_redis # map fst [(1000, ''alice''), (1000, ''bob''), (9000, ''alice'')])" by (simp add: r)
  from rate_limiter_equals_ideal [OF demo_flow_ok demo_open this r(2)] show ?thesis unfolding r(1) .
qed



text \<open>\<open>release\<close> of an owned lease gives the local permit back when the Redis call ends in any
  way but cancellation. A cancellation during the call has already forgotten the token, and the
  permit is lost to the process: one permit then stands for no task and no token.\<close>
theorem concurrency_release_permits:
  assumes "permits_ok l 0 p w" "fw_owned w token = Some p"
    and "release l d \<lparr>le_provider_id = p, le_token = token\<rparr> w = (res, w')"
  shows "fw_owned w' token = None
    \<and> (case d of Cancelled after \<Rightarrow> res = Inl AdmCancelled \<and> permits_ok l 1 p w'
        | _ \<Rightarrow> res = Inr () \<and> permits_ok l 0 p w')"
proof -
  let ?w1 = "w\<lparr>fw_owned := (fw_owned w)(token := None)\<rparr>"
  have "{t. ((fw_owned w)(token := None)) t = Some p} = {t. fw_owned w t = Some p} - {token}" by auto
  moreover have "finite {t. fw_owned w t = Some p}"
    by (rule finite_subset [of _ "dom (fw_owned w)"]) (use assms in \<open>auto simp: permits_ok_def\<close>)
  moreover have "token \<in> {t. fw_owned w t = Some p}" using assms(2) by simp
  ultimately have w1: "permits_ok l 1 p ?w1"
    using assms(1) card_Suc_Diff1 [of "{t. fw_owned w t = Some p}" token] unfolding permits_ok_def by auto
  then have rel: "permits_ok l 0 p (release_permit p (?w1\<lparr>fw_redis := r\<rparr>))" for r
    using permits_ok_release [of l 0 p "?w1\<lparr>fw_redis := r\<rparr>"] by simp
  have rel0: "permits_ok l 0 p (release_permit p ?w1)"
    using w1 permits_ok_release [of l 0 p ?w1] by simp
  have own: "fw_owned (release_permit p x) = fw_owned x" for x by (simp add: release_permit_def)
  show ?thesis
    using assms(2,3) w1 rel rel0 own unfolding release_def redis_eval_def concurrency_release_script_def Let_def
    by (cases d) auto
qed

theorem concurrency_release_permits_witness:
  "permits_ok demo_limiter 1 YANDEX
     (snd (release demo_limiter (Cancelled False) \<lparr>le_provider_id = YANDEX, le_token = ''a''\<rparr> demo_world))"
  using concurrency_release_permits [OF demo_permits, of "''a''" "Cancelled False"
    "fst (release demo_limiter (Cancelled False) \<lparr>le_provider_id = YANDEX, le_token = ''a''\<rparr> demo_world)"]
  by (simp add: demo_world_def)

end
