(* ===== verification/Search_Cache.thy ===== *)
theory Search_Cache
  imports Search_Admission
begin

section \<open>The Redis search cache and the single flight lock\<close>

text \<open>
  \<open>infrastructure/search/cache.py\<close>. The string keys of the server are maps from keys to a value and
  its expiry (milliseconds of server time; a key is there up to and including its expiry). The JSON
  codec of \<open>SearchQueryData\<close> belongs to pydantic and is a pair of arguments.
\<close>

record cache_world =
  cw_now :: int
  cw_mono :: rat
  cw_cache :: "string \<rightharpoonup> bytes \<times> int"
  cw_flight :: "string \<rightharpoonup> string \<times> int"

datatype cache_exc = CacheValueError | CacheCancelled

definition string_get :: "int \<Rightarrow> (string \<rightharpoonup> 'v \<times> int) \<Rightarrow> string \<Rightarrow> 'v option" where
  "string_get now m k = (case m k of None \<Rightarrow> None | Some (v, e) \<Rightarrow> if now \<le> e then Some v else None)"

definition identity_suffix :: "string \<Rightarrow> cache_exc + string" where
  "identity_suffix identity = (if \<not> starts_with ''search:v1:'' identity \<or> length identity \<noteq> 74 then Inl CacheValueError
     else Inr (drop 10 identity))"

subsection \<open>The cache\<close>

definition cache_key :: "string \<Rightarrow> string \<Rightarrow> cache_exc + string" where
  "cache_key namespace identity =
     res_bind (identity_suffix identity) (\<lambda>x. Inr (namespace @ '':search-cache:v1:'' @ x))"

definition lookup_of :: "CacheLookupState \<Rightarrow> SearchQueryData option \<Rightarrow> CacheLookup" where
  "lookup_of st v = \<lparr>cl_state = st, cl_value = v\<rparr>"

text \<open>\<open>get\<close>: the read is answered or not (\<open>d\<close>), and so is the delete of a corrupt entry (\<open>d'\<close>).\<close>

definition cache_get ::
  "(bytes \<Rightarrow> SearchQueryData option) \<Rightarrow> string \<Rightarrow> delivery \<Rightarrow> delivery \<Rightarrow> string \<Rightarrow> cache_world
     \<Rightarrow> (cache_exc + CacheLookup) \<times> cache_world" where
  "cache_get validate namespace d d' identity w = (case cache_key namespace identity of
     Inl e \<Rightarrow> (Inl e, w)
   | Inr k \<Rightarrow> (case d of
       Cancelled after \<Rightarrow> (Inl CacheCancelled, w)
     | Refused \<Rightarrow> (Inr (lookup_of CACHE_UNAVAILABLE None), w)
     | ReplyLost \<Rightarrow> (Inr (lookup_of CACHE_UNAVAILABLE None), w)
     | Answered \<Rightarrow> (case string_get (cw_now w) (cw_cache w) k of
         None \<Rightarrow> (Inr (lookup_of CACHE_MISS None), w)
       | Some payload \<Rightarrow> (case validate payload of
           Some v \<Rightarrow> (Inr (lookup_of CACHE_HIT (Some v)), w)
         | None \<Rightarrow> (let gone = w\<lparr>cw_cache := (cw_cache w)(k := None)\<rparr> in
             case d' of
               Cancelled after \<Rightarrow> (Inl CacheCancelled, if after then gone else w)
             | Refused \<Rightarrow> (Inr (lookup_of CACHE_CORRUPT None), w)
             | _ \<Rightarrow> (Inr (lookup_of CACHE_CORRUPT None), gone))))))"

definition cache_put ::
  "(SearchQueryData \<Rightarrow> bytes) \<Rightarrow> string \<Rightarrow> delivery \<Rightarrow> string \<Rightarrow> SearchQueryData \<Rightarrow> int \<Rightarrow> cache_world
     \<Rightarrow> (cache_exc + bool) \<times> cache_world" where
  "cache_put dump namespace d identity v ttl_seconds w =
     (if ttl_seconds < 1 then (Inl CacheValueError, w)
      else case cache_key namespace identity of
        Inl e \<Rightarrow> (Inl e, w)
      | Inr k \<Rightarrow> (let stored = w\<lparr>cw_cache := (cw_cache w)(k \<mapsto> (dump v, cw_now w + ttl_seconds * 1000))\<rparr> in
          case d of
            Answered \<Rightarrow> (Inr True, stored)
          | Refused \<Rightarrow> (Inr False, w)
          | ReplyLost \<Rightarrow> (Inr False, stored)
          | Cancelled after \<Rightarrow> (Inl CacheCancelled, if after then stored else w)))"

subsection \<open>The single flight lock\<close>

record single_flight =
  sg_namespace :: string
  sg_lease_ms :: int
  sg_poll :: rat

definition make_single_flight :: "string \<Rightarrow> rat \<Rightarrow> rat \<Rightarrow> cache_exc + single_flight" where
  "make_single_flight namespace lease_seconds poll_seconds =
     (if lease_seconds \<le> 0 \<or> poll_seconds \<le> 0 then Inl CacheValueError
      else Inr \<lparr>sg_namespace = namespace, sg_lease_ms = max 1 (py_round (lease_seconds * 1000)), sg_poll = poll_seconds\<rparr>)"

definition flight_key :: "string \<Rightarrow> string \<Rightarrow> cache_exc + string" where
  "flight_key namespace identity =
     res_bind (identity_suffix identity) (\<lambda>x. Inr (namespace @ '':search-flight:v1:'' @ x))"

definition lease_value :: "string \<Rightarrow> bool \<Rightarrow> string option \<Rightarrow> SingleFlightLease" where
  "lease_value identity holder token = \<lparr>sf_identity = identity, sf_holder = holder, sf_token = token\<rparr>"

text \<open>\<open>SET key token NX PX lease\<close>, and what one round of the loop makes of it: \<open>Inl\<close> an exception,
  \<open>Inr (Some _)\<close> the result, \<open>Inr None\<close> another round.\<close>

definition set_nx :: "string \<Rightarrow> string \<Rightarrow> int \<Rightarrow> cache_world \<Rightarrow> bool \<times> cache_world" where
  "set_nx k token px w = (case string_get (cw_now w) (cw_flight w) k of
     Some v \<Rightarrow> (False, w)
   | None \<Rightarrow> (True, w\<lparr>cw_flight := (cw_flight w)(k \<mapsto> (token, cw_now w + px))\<rparr>))"

definition flight_try ::
  "single_flight \<Rightarrow> delivery \<Rightarrow> string \<Rightarrow> string \<Rightarrow> string \<Rightarrow> cache_world
     \<Rightarrow> (cache_exc + SingleFlightLease option) \<times> cache_world" where
  "flight_try f d identity k token w = (case set_nx k token (sg_lease_ms f) w of (acquired, w') \<Rightarrow>
     case d of
       Refused \<Rightarrow> (Inr (Some (lease_value identity True None)), w)
     | ReplyLost \<Rightarrow> (Inr (Some (lease_value identity True None)), w')
     | Cancelled after \<Rightarrow> (Inl CacheCancelled, if after then w' else w)
     | Answered \<Rightarrow> (Inr (if acquired then Some (lease_value identity True (Some token)) else None), w'))"

record flight_env =
  fe_token :: string
  fe_delivery :: "nat \<Rightarrow> delivery"
  fe_others :: "nat \<Rightarrow> cache_world \<Rightarrow> cache_world"
  fe_sleep :: "nat \<Rightarrow> rat \<Rightarrow> cache_world \<Rightarrow> cache_world"
  fe_sleep_cancelled :: "nat \<Rightarrow> bool"

fun flight_loop ::
  "nat \<Rightarrow> single_flight \<Rightarrow> flight_env \<Rightarrow> string \<Rightarrow> string \<Rightarrow> rat option \<Rightarrow> nat \<Rightarrow> cache_world
     \<Rightarrow> ((cache_exc + SingleFlightLease) \<times> cache_world) option" where
  "flight_loop 0 f env identity k deadline n w = None"
| "flight_loop (Suc fuel) f env identity k deadline n w =
    (case flight_try f (fe_delivery env n) identity k (fe_token env) (fe_others env n w) of
       (Inl e, w1) \<Rightarrow> Some (Inl e, w1)
     | (Inr (Some lease), w1) \<Rightarrow> Some (Inr lease, w1)
     | (Inr None, w1) \<Rightarrow>
         if (case deadline of None \<Rightarrow> False | Some t \<Rightarrow> t \<le> cw_mono w1)
         then Some (Inr (lease_value identity False None), w1)
         else let remaining = (case deadline of None \<Rightarrow> sg_poll f | Some t \<Rightarrow> min (sg_poll f) (t - cw_mono w1)) in
           if remaining \<le> 0 then Some (Inr (lease_value identity False None), w1)
           else let w2 = fe_sleep env n remaining w1 in
             if fe_sleep_cancelled env n then Some (Inl CacheCancelled, w2)
             else flight_loop fuel f env identity k deadline (Suc n) w2)"

definition flight_acquire ::
  "nat \<Rightarrow> single_flight \<Rightarrow> flight_env \<Rightarrow> string \<Rightarrow> rat option \<Rightarrow> cache_world
     \<Rightarrow> ((cache_exc + SingleFlightLease) \<times> cache_world) option" where
  "flight_acquire fuel f env identity wait_seconds w = (case flight_key (sg_namespace f) identity of
     Inl e \<Rightarrow> Some (Inl e, w)
   | Inr k \<Rightarrow> flight_loop fuel f env identity k (map_option (\<lambda>s. cw_mono w + max 0 s) wait_seconds) 0 w)"

definition release_if_owner :: "string \<Rightarrow> string \<Rightarrow> cache_world \<Rightarrow> cache_world" where
  "release_if_owner k token w = (if string_get (cw_now w) (cw_flight w) k = Some token
     then w\<lparr>cw_flight := (cw_flight w)(k := None)\<rparr> else w)"

definition flight_release ::
  "single_flight \<Rightarrow> delivery \<Rightarrow> SingleFlightLease \<Rightarrow> cache_world \<Rightarrow> (cache_exc + unit) \<times> cache_world" where
  "flight_release f d lease w = (if \<not> sf_holder lease then (Inr (), w)
     else case sf_token lease of
       None \<Rightarrow> (Inr (), w)
     | Some token \<Rightarrow> (case flight_key (sg_namespace f) (sf_identity lease) of
         Inl e \<Rightarrow> (Inl e, w)
       | Inr k \<Rightarrow> (case d of
           Refused \<Rightarrow> (Inr (), w)
         | Cancelled after \<Rightarrow> (Inl CacheCancelled, if after then release_if_owner k token w else w)
         | _ \<Rightarrow> (Inr (), release_if_owner k token w))))"

subsection \<open>Histories of the lock\<close>

text \<open>\<open>fl_held\<close> lists the leases with a token that callers hold and have not given back, with the
  server time at which the lock was taken. Tokens are random (\<open>secrets.token_hex\<close>): a new one is none
  of those held.\<close>

record flight_history =
  fl_world :: cache_world
  fl_held :: "(string \<times> string \<times> int) list"

inductive flight_run :: "single_flight \<Rightarrow> flight_history \<Rightarrow> bool" for f where
  start: "flight_run f \<lparr>fl_world = w, fl_held = []\<rparr>"
| tick: "flight_run f h \<Longrightarrow> cw_now (fl_world h) \<le> t
    \<Longrightarrow> flight_run f (h\<lparr>fl_world := (fl_world h)\<lparr>cw_now := t\<rparr>\<rparr>)"
| attempt: "flight_run f h \<Longrightarrow> flight_key (sg_namespace f) identity = Inr k
    \<Longrightarrow> token \<notin> (\<lambda>(i, t, g). t) ` set (fl_held h)
    \<Longrightarrow> flight_try f d identity k token (fl_world h) = (res, w)
    \<Longrightarrow> flight_run f (h\<lparr>fl_world := w, fl_held := (if res = Inr (Some (lease_value identity True (Some token)))
          then [(identity, token, cw_now (fl_world h))] else []) @ fl_held h\<rparr>)"
| giveback: "flight_run f h \<Longrightarrow> flight_release f d (lease_value identity True (Some token)) (fl_world h) = (res, w)
    \<Longrightarrow> flight_run f (h\<lparr>fl_world := w, fl_held := filter (\<lambda>(i, t, g). (i, t) \<noteq> (identity, token)) (fl_held h)\<rparr>)"

definition flight_inv :: "single_flight \<Rightarrow> flight_history \<Rightarrow> bool" where
  "flight_inv f h \<longleftrightarrow> (\<forall>(i, t, g) \<in> set (fl_held h). \<exists>k. flight_key (sg_namespace f) i = Inr k
     \<and> (cw_now (fl_world h) \<le> g + sg_lease_ms f \<longrightarrow> cw_flight (fl_world h) k = Some (t, g + sg_lease_ms f)))"

lemma starts_with_split: "starts_with p v \<Longrightarrow> v = p @ drop (length p) v"
  unfolding starts_with_def by (metis append_take_drop_id)

lemma identity_suffix_Inr:
  assumes "identity_suffix v = Inr x"
  shows "v = ''search:v1:'' @ x"
proof -
  have "starts_with ''search:v1:'' v" "x = drop 10 v"
    using assms unfolding identity_suffix_def by (auto simp del: append.simps split: if_split_asm)
  moreover have "length ''search:v1:'' = 10" by simp
  ultimately show ?thesis using starts_with_split [of "''search:v1:''" v] by argo
qed

lemma identity_suffix_inj:
  "identity_suffix i = Inr x \<Longrightarrow> identity_suffix j = Inr x \<Longrightarrow> i = j"
  using identity_suffix_Inr by metis

lemma flight_key_inj: "flight_key ns i = Inr k \<Longrightarrow> flight_key ns j = Inr k \<Longrightarrow> i = j"
  using identity_suffix_inj by (auto simp: flight_key_def res_simps)

lemma release_if_owner_simps [simp]: "cw_now (release_if_owner k t w) = cw_now w"
  by (simp add: release_if_owner_def)

lemma flight_inv_attempt:
  assumes inv: "flight_inv f h" and key: "flight_key (sg_namespace f) identity = Inr k"
    and tr: "flight_try f d identity k token (fl_world h) = (res, w)"
  shows "flight_inv f (h\<lparr>fl_world := w, fl_held := (if res = Inr (Some (lease_value identity True (Some token)))
          then [(identity, token, cw_now (fl_world h))] else []) @ fl_held h\<rparr>)"
proof -
  let ?w = "fl_world h"
  obtain acq w' where nx: "set_nx k token (sg_lease_ms f) ?w = (acq, w')" by (metis prod.exhaust)
  have w: "w = ?w \<or> w = w'" and got: "res = Inr (Some (lease_value identity True (Some token))) \<Longrightarrow> acq \<and> w = w'"
    using tr nx by (auto simp: flight_try_def lease_value_def split: delivery.splits if_splits)
  have now: "cw_now w' = cw_now ?w" and new: "acq \<Longrightarrow> cw_flight w' k = Some (token, cw_now ?w + sg_lease_ms f)"
    and other: "k' \<noteq> k \<Longrightarrow> cw_flight w' k' = cw_flight ?w k'"
    and kept: "cw_flight ?w k' = Some (t, e) \<Longrightarrow> cw_now ?w \<le> e \<Longrightarrow> cw_flight w' k' = Some (t, e)" for k' t e
    using nx by (auto simp: set_nx_def string_get_def split: option.splits if_splits)
  have old: "\<exists>k. flight_key (sg_namespace f) i = Inr k \<and> (cw_now w \<le> g + sg_lease_ms f \<longrightarrow> cw_flight w k = Some (t, g + sg_lease_ms f))"
    if "(i, t, g) \<in> set (fl_held h)" for i t g
    using inv that w now kept unfolding flight_inv_def by fastforce
  show ?thesis using old got new key now unfolding flight_inv_def by auto
qed

lemma flight_inv_giveback:
  assumes inv: "flight_inv f h"
    and rel: "flight_release f d (lease_value identity True (Some token)) (fl_world h) = (res, w)"
  shows "flight_inv f (h\<lparr>fl_world := w, fl_held := filter (\<lambda>(i, t, g). (i, t) \<noteq> (identity, token)) (fl_held h)\<rparr>)"
proof (cases "flight_key (sg_namespace f) identity")
  case (Inl e)
  then have "w = fl_world h" using rel by (simp add: flight_release_def lease_value_def)
  then show ?thesis using inv unfolding flight_inv_def by auto
next
  case (Inr k)
  let ?w = "fl_world h"
  have w: "w = ?w \<or> w = release_if_owner k token ?w"
    using rel Inr by (auto simp: flight_release_def lease_value_def split: delivery.splits if_splits)
  have "cw_flight w k' = Some (t, e)"
    if "cw_flight ?w k' = Some (t, e)" "flight_key (sg_namespace f) i = Inr k'" "(i, t) \<noteq> (identity, token)" for i k' t e
    using w that flight_key_inj [OF that(2), of identity] Inr
    by (auto simp: release_if_owner_def string_get_def split: if_splits)
  moreover have "cw_now w = cw_now ?w" using w by auto
  ultimately show ?thesis using inv unfolding flight_inv_def by fastforce
qed

lemma flight_run_inv: "flight_run f h \<Longrightarrow> flight_inv f h"
proof (induction rule: flight_run.induct)
  case (tick h t)
  then show ?case unfolding flight_inv_def by fastforce
next
  case (attempt h identity k token d res w)
  then show ?case using flight_inv_attempt by blast
next
  case (giveback h d identity token res w)
  then show ?case using flight_inv_giveback by blast
qed (simp add: flight_inv_def)

text \<open>With a wait bound the loop ends: a round answers, or less time than before is left by the
  polling interval.\<close>

lemma flight_loop_returns:
  assumes mono: "\<And>n w. cw_mono w \<le> cw_mono (fe_others env n w)" "\<And>n d w. cw_mono w + d \<le> cw_mono (fe_sleep env n d w)"
  shows "t - cw_mono w \<le> of_nat fuel * sg_poll f \<Longrightarrow> flight_loop (Suc fuel) f env identity k (Some t) n w \<noteq> None"
proof (induction fuel arbitrary: n w)
  case 0
  obtain res w1 where tr: "flight_try f (fe_delivery env n) identity k (fe_token env) (fe_others env n w) = (res, w1)"
    by (metis prod.exhaust)
  then have "cw_mono w \<le> cw_mono w1"
    using mono(1) [of w n] by (auto simp: flight_try_def set_nx_def split: delivery.splits option.splits if_splits)
  then show ?case using 0 tr by (auto split: sum.split option.split)
next
  case (Suc fuel)
  obtain res w1 where tr: "flight_try f (fe_delivery env n) identity k (fe_token env) (fe_others env n w) = (res, w1)"
    by (metis prod.exhaust)
  then have w1: "cw_mono w \<le> cw_mono w1"
    using mono(1) [of w n] by (auto simp: flight_try_def set_nx_def split: delivery.splits option.splits if_splits)
  define d where "d = min (sg_poll f) (t - cw_mono w1)"
  have "flight_loop (Suc fuel) f env identity k (Some t) (Suc n) (fe_sleep env n d w1) \<noteq> None" if "0 < d"
  proof (rule Suc.IH)
    have "t - cw_mono w \<le> of_nat fuel * sg_poll f + sg_poll f" using Suc.prems by (simp add: algebra_simps)
    moreover have "0 \<le> of_nat fuel * sg_poll f" using that unfolding d_def by simp
    moreover have "t - cw_mono (fe_sleep env n d w1) \<le> t - cw_mono w1 - d" using mono(2) [of w1 d n] by linarith
    moreover have "t - cw_mono w1 - d = 0 \<or> d = sg_poll f" unfolding d_def by linarith
    ultimately show "t - cw_mono (fe_sleep env n d w1) \<le> of_nat fuel * sg_poll f" using w1 by linarith
  qed
  then show ?case
    by (auto simp: tr d_def [symmetric] Let_def not_le simp del: flight_loop.simps(2)
        simp: flight_loop.simps(2) [of "Suc fuel"] split: sum.split option.split)
qed

subsection \<open>Properties\<close>

definition demo_identity :: string where
  "demo_identity = ''search:v1:'' @ replicate 64 CHR ''a''"

definition demo_flight :: single_flight where
  "demo_flight = \<lparr>sg_namespace = ''wa'', sg_lease_ms = 30000, sg_poll = 1 / 20\<rparr>"

definition demo_cache_world :: cache_world where
  "demo_cache_world = \<lparr>cw_now = 5000, cw_mono = 0, cw_cache = Map.empty, cw_flight = Map.empty\<rparr>"

lemma demo_identity_suffix: "identity_suffix demo_identity = Inr (replicate 64 CHR ''a'')"
  unfolding identity_suffix_def demo_identity_def by (simp add: starts_with_def)



text \<open>A result stored in the cache is the result a lookup returns until its time to live has
  passed, and a miss afterwards, for any codec of pydantic that reads back what it wrote; an entry
  it cannot read is reported as corrupt and deleted.\<close>
theorem search_cache_roundtrip:
  assumes codec: "validate (dump v) = Some v" and id: "identity_suffix identity = Inr x" and ttl: "1 \<le> ttl"
    and put: "cache_put dump ns Answered identity v ttl w = (res, w')" and later: "cw_now w' \<le> t"
  shows "res = Inr True
    \<and> cache_get validate ns Answered d identity (w'\<lparr>cw_now := t\<rparr>)
        = (Inr (if t \<le> cw_now w + ttl * 1000 then lookup_of CACHE_HIT (Some v) else lookup_of CACHE_MISS None), w'\<lparr>cw_now := t\<rparr>)
    \<and> (\<forall>k junk. cache_key ns identity = Inr k \<and> validate junk = None \<longrightarrow>
        cache_get validate ns Answered Answered identity (w'\<lparr>cw_cache := (cw_cache w')(k \<mapsto> (junk, cw_now w'))\<rparr>)
          = (Inr (lookup_of CACHE_CORRUPT None), w'\<lparr>cw_cache := (cw_cache w')(k := None)\<rparr>))"
  using put ttl unfolding cache_put_def cache_get_def
  by (auto simp: cache_key_def id string_get_def codec)

theorem search_cache_roundtrip_witness:
  "\<forall>v. cache_get (\<lambda>b. if b = [1] then Some v else None) ''wa'' Answered Answered demo_identity
     (snd (cache_put (\<lambda>_. [1]) ''wa'' Answered demo_identity v 300 demo_cache_world)\<lparr>cw_now := 6000\<rparr>)
     = (Inr (lookup_of CACHE_HIT (Some v)), snd (cache_put (\<lambda>_. [1]) ''wa'' Answered demo_identity v 300 demo_cache_world)\<lparr>cw_now := 6000\<rparr>)"
proof
  fix v
  let ?p = "cache_put (\<lambda>_. [1]) ''wa'' Answered demo_identity v 300 demo_cache_world"
  have now: "cw_now (snd ?p) \<le> 6000"
    by (simp add: cache_put_def cache_key_def demo_identity_suffix demo_cache_world_def)
  show "cache_get (\<lambda>b. if b = [1] then Some v else None) ''wa'' Answered Answered demo_identity (snd ?p\<lparr>cw_now := 6000\<rparr>)
     = (Inr (lookup_of CACHE_HIT (Some v)), snd ?p\<lparr>cw_now := 6000\<rparr>)"
    using search_cache_roundtrip [of "\<lambda>b. if b = [1] then Some v else None" "\<lambda>_. [1]" v, OF _ demo_identity_suffix _ prod.collapse [symmetric] now, of Answered]
    by (simp add: demo_cache_world_def)
qed

end
