(* ===== verification/Url.thy ===== *)
theory Url
  imports Json
begin

section \<open>URLs and IP addresses of the Python standard library\<close>

text \<open>
  What the source uses of \<open>urllib.parse\<close> and \<open>ipaddress\<close>, over strings as lists of code points. The
  tables of the Unicode database (\<open>str.lower\<close> and NFKC normalization of non-ASCII text) and the
  \<open>idna\<close> codec are the fields of \<open>unicode_lib\<close>.
\<close>

type_synonym ustr = "codepoint list"

record unicode_lib =
  ul_lower :: "ustr \<Rightarrow> ustr"
  ul_nfkc :: "ustr \<Rightarrow> ustr"
  ul_idna :: "ustr \<Rightarrow> ustr option"

definition ascii_lower_cp :: "codepoint \<Rightarrow> codepoint" where
  "ascii_lower_cp c = (if 65 \<le> c \<and> c \<le> 90 then c + 32 else c)"

definition is_ascii_text :: "ustr \<Rightarrow> bool" where
  "is_ascii_text s \<longleftrightarrow> list_all (\<lambda>c. c < 128) s"

definition is_alpha_ascii :: "codepoint \<Rightarrow> bool" where
  "is_alpha_ascii c \<longleftrightarrow> (65 \<le> c \<and> c \<le> 90) \<or> (97 \<le> c \<and> c \<le> 122)"

text \<open>\<open>str.isspace\<close> of one character, and \<open>str.strip\<close>.\<close>

definition uni_space :: "codepoint \<Rightarrow> bool" where
  "uni_space c \<longleftrightarrow> (9 \<le> c \<and> c \<le> 13) \<or> (28 \<le> c \<and> c \<le> 32) \<or> c \<in> {133, 160, 5760, 8232, 8233, 8239, 8287, 12288}
     \<or> (8192 \<le> c \<and> c \<le> 8202)"

definition strip_by :: "('a \<Rightarrow> bool) \<Rightarrow> 'a list \<Rightarrow> 'a list" where
  "strip_by p s = rev (dropWhile p (rev (dropWhile p s)))"

text \<open>\<open>s.partition(c)\<close>, \<open>s.rpartition(c)\<close> and \<open>s.rstrip(c)\<close> for one character.\<close>

definition partition_at :: "'a \<Rightarrow> 'a list \<Rightarrow> 'a list \<times> bool \<times> 'a list" where
  "partition_at c s = (if c \<in> set s then (takeWhile (\<lambda>x. x \<noteq> c) s, True, tl (dropWhile (\<lambda>x. x \<noteq> c) s)) else (s, False, []))"

lemma partition_at_append:
  assumes "c \<notin> set a"
  shows "partition_at c (a @ c # b) = (a, True, b)"
proof -
  have "takeWhile (\<lambda>x. x \<noteq> c) (a @ c # b) = a" "dropWhile (\<lambda>x. x \<noteq> c) (a @ c # b) = c # b"
    using assms by (induction a) auto
  then show ?thesis by (simp add: partition_at_def)
qed

lemma partition_at_found: "partition_at c s = (a, True, b) \<Longrightarrow> s = a @ c # b"
proof -
  have "c \<in> set s \<Longrightarrow> takeWhile (\<lambda>x. x \<noteq> c) s @ c # tl (dropWhile (\<lambda>x. x \<noteq> c) s) = s" by (induction s) auto
  then show "partition_at c s = (a, True, b) \<Longrightarrow> s = a @ c # b" by (auto simp: partition_at_def split: if_split_asm)
qed

definition rpartition_at :: "'a \<Rightarrow> 'a list \<Rightarrow> 'a list \<times> bool \<times> 'a list" where
  "rpartition_at c s = (if c \<in> set s
     then (rev (tl (dropWhile (\<lambda>x. x \<noteq> c) (rev s))), True, rev (takeWhile (\<lambda>x. x \<noteq> c) (rev s)))
     else ([], False, s))"

definition rstrip_char :: "'a \<Rightarrow> 'a list \<Rightarrow> 'a list" where
  "rstrip_char c s = rev (dropWhile (\<lambda>x. x = c) (rev s))"

subsection \<open>IP addresses\<close>

datatype ip_address = IPv4 int | IPv6 int "ustr option"

text \<open>\<open>IPv4Address\<close>: four octets of one to three ASCII digits without a leading zero.\<close>

definition parse_octet :: "ustr \<Rightarrow> int option" where
  "parse_octet s = (if s = [] \<or> \<not> list_all is_digit s \<or> 3 < length s \<or> (s \<noteq> [48] \<and> s ! 0 = 48) \<or> 255 < dec_val s
     then None else Some (int (dec_val s)))"

definition parse_ipv4 :: "ustr \<Rightarrow> int option" where
  "parse_ipv4 s = (case map parse_octet (split_on 46 s) of
     [Some a, Some b, Some c, Some d] \<Rightarrow> Some (((a * 256 + b) * 256 + c) * 256 + d)
   | _ \<Rightarrow> None)"

text \<open>\<open>IPv6Address\<close>: an optional scope, groups of one to four hexadecimal digits, at most one
  \<open>::\<close>, and an IPv4 tail in place of the last two groups.\<close>

definition parse_group :: "ustr \<Rightarrow> int option" where
  "parse_group s = (if s = [] \<or> 4 < length s \<or> list_ex (\<lambda>c. hex_val c = None) s then None
     else Some (foldl (\<lambda>n c. 16 * n + int (the (hex_val c))) 0 s))"

definition ipv4_tail :: "ustr list \<Rightarrow> ustr list option" where
  "ipv4_tail parts = (case parts of [] \<Rightarrow> None | _ \<Rightarrow>
     if 46 \<in> set (last parts) then (case parse_ipv4 (last parts) of
         None \<Rightarrow> None
       | Some v \<Rightarrow> (let hex4s = (\<lambda>n. map (\<lambda>i. hex_digit (nat ((n div 16 ^ i) mod 16))) [3, 2, 1, 0]) in
           Some (butlast parts @ [hex4s (v div 65536), hex4s (v mod 65536)])))
     else Some parts)"

definition all_groups :: "ustr list \<Rightarrow> int list option" where
  "all_groups parts = (let gs = map parse_group parts in
     if None \<in> set gs then None else Some (map the gs))"

definition groups_value :: "int list \<Rightarrow> int" where
  "groups_value gs = foldl (\<lambda>n g. 65536 * n + g) 0 gs"

definition inner_empty :: "ustr list \<Rightarrow> nat list" where
  "inner_empty parts = filter (\<lambda>i. parts ! i = []) [1..<length parts - 1]"

definition parse_ipv6_groups :: "ustr list \<Rightarrow> int option" where
  "parse_ipv6_groups parts =
     (if length parts < 3 \<or> 9 < length parts then None
      else case inner_empty parts of
        [] \<Rightarrow> (if length parts \<noteq> 8 then None else map_option groups_value (all_groups parts))
      | [skip] \<Rightarrow> (let
            front = take skip parts; behind = drop (Suc skip) parts;
            lead = (if front ! 0 = [] then tl front else front);
            trail = (if last behind = [] then butlast behind else behind)
          in if (front ! 0 = [] \<and> lead \<noteq> []) \<or> (last behind = [] \<and> trail \<noteq> []) then None
             else if 7 < length lead + length trail then None
             else case (all_groups lead, all_groups trail) of
               (Some hi, Some lo) \<Rightarrow> Some (groups_value (hi @ replicate (8 - length hi - length lo) 0 @ lo))
             | _ \<Rightarrow> None)
      | _ \<Rightarrow> None)"

definition parse_ipv6 :: "ustr \<Rightarrow> ip_address option" where
  "parse_ipv6 s = (case partition_at 37 s of (addr, scoped, zone) \<Rightarrow>
     if scoped \<and> (zone = [] \<or> 37 \<in> set zone) \<or> addr = [] \<or> 47 \<in> set addr then None
     else case ipv4_tail (split_on 58 addr) of
       None \<Rightarrow> None
     | Some parts \<Rightarrow> map_option (\<lambda>v. IPv6 v (if scoped then Some zone else None)) (parse_ipv6_groups parts))"

definition parse_ip :: "ustr \<Rightarrow> ip_address option" where
  "parse_ip s = (case parse_ipv4 s of Some v \<Rightarrow> Some (IPv4 v) | None \<Rightarrow> parse_ipv6 s)"

subsection \<open>Address classes\<close>

text \<open>A network is its first address and the length of its prefix.\<close>

definition in_net :: "nat \<Rightarrow> int \<Rightarrow> int \<times> nat \<Rightarrow> bool" where
  "in_net bits a net = (a div 2 ^ (bits - snd net) = fst net div 2 ^ (bits - snd net))"

definition quad :: "int \<Rightarrow> int \<Rightarrow> int \<Rightarrow> int \<Rightarrow> int" where
  "quad a b c d = ((a * 256 + b) * 256 + c) * 256 + d"

definition v4_private :: "(int \<times> nat) list" where
  "v4_private = [(quad 0 0 0 0, 8), (quad 10 0 0 0, 8), (quad 127 0 0 0, 8), (quad 169 254 0 0, 16),
     (quad 172 16 0 0, 12), (quad 192 0 0 0, 24), (quad 192 0 0 170, 31), (quad 192 0 2 0, 24),
     (quad 192 168 0 0, 16), (quad 198 18 0 0, 15), (quad 198 51 100 0, 24), (quad 203 0 113 0, 24),
     (quad 240 0 0 0, 4), (quad 255 255 255 255, 32)]"

definition v4_exceptions :: "(int \<times> nat) list" where
  "v4_exceptions = [(quad 192 0 0 9, 32), (quad 192 0 0 10, 32)]"

definition hextets :: "int list \<Rightarrow> int" where
  "hextets hs = groups_value (hs @ replicate (8 - length hs) 0)"

definition v6_private :: "(int \<times> nat) list" where
  "v6_private = [(1, 128), (0, 128), (0xFFFF00000000, 96), (hextets [0x64, 0xFF9B, 1], 48), (hextets [0x100], 64),
     (hextets [0x2001], 23), (hextets [0x2001, 0xDB8], 32), (hextets [0x2002], 16), (hextets [0xFC00], 7), (hextets [0xFE80], 10)]"

definition v6_exceptions :: "(int \<times> nat) list" where
  "v6_exceptions = [(hextets [0x2001, 1, 0, 0, 0, 0, 0, 1], 128), (hextets [0x2001, 1, 0, 0, 0, 0, 0, 2], 128),
     (hextets [0x2001, 3], 32), (hextets [0x2001, 4, 0x112], 48), (hextets [0x2001, 0x20], 28), (hextets [0x2001, 0x30], 28)]"

definition v6_reserved :: "(int \<times> nat) list" where
  "v6_reserved = [(0, 8), (hextets [0x100], 8), (hextets [0x200], 7), (hextets [0x400], 6), (hextets [0x800], 5),
     (hextets [0x1000], 4), (hextets [0x4000], 3), (hextets [0x6000], 3), (hextets [0x8000], 3), (hextets [0xA000], 3),
     (hextets [0xC000], 3), (hextets [0xE000], 4), (hextets [0xF000], 5), (hextets [0xF800], 6), (hextets [0xFE00], 9)]"

definition in_any :: "nat \<Rightarrow> int \<Rightarrow> (int \<times> nat) list \<Rightarrow> bool" where
  "in_any bits a nets \<longleftrightarrow> list_ex (in_net bits a) nets"

text \<open>\<open>ipv4_mapped\<close>, and the class properties (tables of Python 3.12). The source asks them of a
  mapped IPv6 address only after replacing it by the IPv4 address, so that case needs no clause.\<close>

fun ipv4_mapped :: "ip_address \<Rightarrow> ip_address option" where
  "ipv4_mapped (IPv4 a) = None"
| "ipv4_mapped (IPv6 a z) = (if a div 2 ^ 32 = 0xFFFF then Some (IPv4 (a mod 2 ^ 32)) else None)"

fun is_private :: "ip_address \<Rightarrow> bool" where
  "is_private (IPv4 a) = (in_any 32 a v4_private \<and> \<not> in_any 32 a v4_exceptions)"
| "is_private (IPv6 a z) = (in_any 128 a v6_private \<and> \<not> in_any 128 a v6_exceptions)"

fun is_global :: "ip_address \<Rightarrow> bool" where
  "is_global (IPv4 a) = (\<not> in_net 32 a (quad 100 64 0 0, 10) \<and> \<not> is_private (IPv4 a))"
| "is_global (IPv6 a z) = (\<not> is_private (IPv6 a z))"

fun is_loopback :: "ip_address \<Rightarrow> bool" where
  "is_loopback (IPv4 a) = in_net 32 a (quad 127 0 0 0, 8)"
| "is_loopback (IPv6 a z) = (a = 1)"

fun is_link_local :: "ip_address \<Rightarrow> bool" where
  "is_link_local (IPv4 a) = in_net 32 a (quad 169 254 0 0, 16)"
| "is_link_local (IPv6 a z) = in_net 128 a (hextets [0xFE80], 10)"

fun is_multicast :: "ip_address \<Rightarrow> bool" where
  "is_multicast (IPv4 a) = in_net 32 a (quad 224 0 0 0, 4)"
| "is_multicast (IPv6 a z) = in_net 128 a (hextets [0xFF00], 8)"

fun is_unspecified :: "ip_address \<Rightarrow> bool" where
  "is_unspecified (IPv4 a) = (a = 0)"
| "is_unspecified (IPv6 a z) = (a = 0)"

fun is_reserved :: "ip_address \<Rightarrow> bool" where
  "is_reserved (IPv4 a) = in_net 32 a (quad 240 0 0 0, 4)"
| "is_reserved (IPv6 a z) = in_any 128 a v6_reserved"

text \<open>A network of the settings and \<open>address in network\<close>: addresses of the other version, and
  IPv6 addresses with a scope compared by value, as \<open>ipaddress\<close> does.\<close>

datatype ip_network = Net4 int nat | Net6 int nat

fun in_network :: "ip_address \<Rightarrow> ip_network \<Rightarrow> bool" where
  "in_network (IPv4 a) (Net4 n len) = in_net 32 a (n, len)"
| "in_network (IPv6 a z) (Net6 n len) = in_net 128 a (n, len)"
| "in_network (IPv4 a) (Net6 n len) = False"
| "in_network (IPv6 a z) (Net4 n len) = False"

subsection \<open>Splitting URLs\<close>

record split_url =
  su_scheme :: ustr
  su_netloc :: ustr
  su_path :: ustr
  su_query :: ustr
  su_fragment :: ustr

definition scheme_char :: "codepoint \<Rightarrow> bool" where
  "scheme_char c \<longleftrightarrow> is_alpha_ascii c \<or> (48 \<le> c \<and> c \<le> 57) \<or> c = 43 \<or> c = 45 \<or> c = 46"

definition split_scheme :: "ustr \<Rightarrow> ustr \<times> ustr" where
  "split_scheme url = (case partition_at 58 url of (s, found, rest) \<Rightarrow>
     if found \<and> s \<noteq> [] \<and> is_alpha_ascii (s ! 0) \<and> list_all scheme_char s then (map ascii_lower_cp s, rest) else ([], url))"

definition hostinfo :: "ustr \<Rightarrow> ustr \<times> ustr option" where
  "hostinfo netloc = (case rpartition_at 64 netloc of (_, _, info) \<Rightarrow>
     case partition_at 91 info of (_, open_br, bracketed) \<Rightarrow>
       let (host, port) = (if open_br then (case partition_at 93 bracketed of (h, _, p) \<Rightarrow>
               (case partition_at 58 p of (_, _, q) \<Rightarrow> (h, q)))
             else (case partition_at 58 info of (h, _, p) \<Rightarrow> (h, p)))
       in (host, if port = [] then None else Some port))"

definition bracketed_ok :: "ustr \<Rightarrow> bool" where
  "bracketed_ok netloc = (case rpartition_at 64 netloc of (_, _, info) \<Rightarrow>
     case partition_at 91 info of (front, open_br, bracketed) \<Rightarrow>
       let (ok, host) = (if open_br then (case partition_at 93 bracketed of (h, _, p) \<Rightarrow>
               (front = [] \<and> (p = [] \<or> p ! 0 = 58), h))
             else (case partition_at 58 info of (h, _, p) \<Rightarrow> (True, h)))
       in ok \<and> (case host of
            c # cs \<Rightarrow> if c = 118 then (case partition_at 46 cs of (hex, dot, rest) \<Rightarrow>
                hex \<noteq> [] \<and> list_all (\<lambda>c. hex_val c \<noteq> None) hex \<and> dot \<and> rest \<noteq> [])
              else (case parse_ip host of Some (IPv6 v z) \<Rightarrow> True | _ \<Rightarrow> False)
          | [] \<Rightarrow> False))"

definition check_netloc :: "unicode_lib \<Rightarrow> ustr \<Rightarrow> bool" where
  "check_netloc lib netloc = (if netloc = [] \<or> is_ascii_text netloc then True
     else let n = filter (\<lambda>c. c \<notin> {64, 58, 35, 63}) netloc; n2 = ul_nfkc lib n in
       n = n2 \<or> list_all (\<lambda>c. c \<notin> {47, 63, 35, 64, 58}) n2)"

definition urlsplit :: "unicode_lib \<Rightarrow> ustr \<Rightarrow> unit + split_url" where
  "urlsplit lib url0 = (let
     url1 = filter (\<lambda>c. c \<noteq> 9 \<and> c \<noteq> 10 \<and> c \<noteq> 13) (dropWhile (\<lambda>c. c \<le> 32) url0);
     (scheme, url2) = split_scheme url1;
     (netloc, url3) = (if take 2 url2 = [47, 47]
       then (takeWhile (\<lambda>c. c \<notin> {47, 63, 35}) (drop 2 url2), dropWhile (\<lambda>c. c \<notin> {47, 63, 35}) (drop 2 url2))
       else ([], url2));
     (url4, _, fragment) = partition_at 35 url3;
     (path, _, query) = partition_at 63 url4
   in if (91 \<in> set netloc) \<noteq> (93 \<in> set netloc) then Inl ()
      else if 91 \<in> set netloc \<and> \<not> bracketed_ok netloc then Inl ()
      else if \<not> check_netloc lib netloc then Inl ()
      else Inr \<lparr>su_scheme = scheme, su_netloc = netloc, su_path = path, su_query = query, su_fragment = fragment\<rparr>)"

definition url_hostname :: "unicode_lib \<Rightarrow> split_url \<Rightarrow> ustr option" where
  "url_hostname lib u = (case fst (hostinfo (su_netloc u)) of
     [] \<Rightarrow> None
   | h \<Rightarrow> (case partition_at 37 h of (a, pct, z) \<Rightarrow> Some (ul_lower lib a @ (if pct then [37] else []) @ z)))"

definition url_port :: "split_url \<Rightarrow> unit + int option" where
  "url_port u = (case snd (hostinfo (su_netloc u)) of
     None \<Rightarrow> Inr None
   | Some p \<Rightarrow> if \<not> list_all is_digit p \<or> 4300 < length p \<or> 65535 < int (dec_val p) then Inl () else Inr (Some (int (dec_val p))))"

text \<open>\<open>username\<close> or \<open>password\<close> is not \<open>None\<close>.\<close>

definition url_has_userinfo :: "split_url \<Rightarrow> bool" where
  "url_has_userinfo u \<longleftrightarrow> 64 \<in> set (su_netloc u)"

definition urlunsplit :: "ustr \<Rightarrow> ustr \<Rightarrow> ustr \<Rightarrow> ustr \<Rightarrow> ustr" where
  "urlunsplit scheme netloc path query = (let
     u1 = (if netloc \<noteq> [] then [47, 47] @ netloc @ (if path \<noteq> [] \<and> path ! 0 \<noteq> 47 then 47 # path else path) else path);
     u2 = (if scheme \<noteq> [] then scheme @ [58] @ u1 else u1)
   in if query \<noteq> [] then u2 @ [63] @ query else u2)"

end
