(* ===== verification/Retrieval_Security.thy ===== *)
theory Retrieval_Security
  imports Url Common
begin

section \<open>The egress policy of Retrieval\<close>

text \<open>
  \<open>infrastructure/retrieval/security.py\<close>, \<open>resolver.py\<close> and the request of \<open>client.py\<close>. The CIDRs of
  the settings are networks already (\<open>ipaddress.ip_network\<close> reads them when the policy is built).
  aiohttp opens the connection: what it connects to is the argument \<open>aio\<close> of the last part.
\<close>

datatype url_error = InvalidRetrievalUrl | BlockedDestinationError

record ValidatedUrl =
  vu_requested_url :: ustr
  vu_normalized_url :: ustr
  vu_scheme :: ustr
  vu_ascii_host :: ustr
  vu_port :: int
  vu_ip_literal :: "ip_address option"

record url_policy =
  up_additional_ports :: "int list"
  up_internal_networks :: "ip_network list"
  up_revision :: string

definition security_settings_ok :: "url_policy \<Rightarrow> bool" where
  "security_settings_ok pol \<longleftrightarrow> length (up_additional_ports pol) \<le> 32
     \<and> \<not> list_ex (\<lambda>port. port < 1 \<or> port > 65535) (up_additional_ports pol)
     \<and> length (up_internal_networks pol) \<le> 64 \<and> distinct (up_internal_networks pol)
     \<and> 8 \<le> length (up_revision pol) \<and> length (up_revision pol) \<le> 128"

definition is_control :: "codepoint \<Rightarrow> bool" where
  "is_control c \<longleftrightarrow> c \<le> 31 \<or> (127 \<le> c \<and> c \<le> 159)"

definition effective_address :: "ip_address \<Rightarrow> ip_address" where
  "effective_address a = (case ipv4_mapped a of Some b \<Rightarrow> b | None \<Rightarrow> a)"

definition address_blocked :: "url_policy \<Rightarrow> ip_address \<Rightarrow> bool" where
  "address_blocked pol a = (let e = effective_address a in
     (\<not> is_global e \<or> is_loopback e \<or> is_private e \<or> is_link_local e \<or> is_multicast e \<or> is_unspecified e \<or> is_reserved e)
     \<or> list_ex (in_network e) (up_internal_networks pol))"

text \<open>The loop of \<open>validate_addresses\<close> over the parsed addresses (\<open>None\<close> where \<open>ip_address\<close> raises), and
  \<open>tuple(dict.fromkeys(validated))\<close>, which keeps the first of equal addresses.\<close>

fun check_addresses :: "url_policy \<Rightarrow> ip_address option list \<Rightarrow> url_error + ip_address list" where
  "check_addresses pol [] = Inr []"
| "check_addresses pol (x # xs) = (case x of
     None \<Rightarrow> Inl BlockedDestinationError
   | Some a \<Rightarrow> if address_blocked pol a then Inl BlockedDestinationError
       else res_bind (check_addresses pol xs) (\<lambda>ys. Inr (a # ys)))"

definition unique :: "'a list \<Rightarrow> 'a list" where
  "unique xs = foldl (\<lambda>acc x. if x \<in> set acc then acc else acc @ [x]) [] xs"

definition validate_addresses :: "url_policy \<Rightarrow> ip_address option list \<Rightarrow> url_error + ip_address list" where
  "validate_addresses pol xs = (if xs = [] then Inl BlockedDestinationError
     else res_bind (check_addresses pol xs) (\<lambda>ys. Inr (unique ys)))"

definition normalize_host :: "unicode_lib \<Rightarrow> ustr \<Rightarrow> url_error + ustr" where
  "normalize_host lib host = (let normalized = ul_lower lib (rstrip_char 46 host) in
     if normalized = [] \<or> 253 < length normalized then Inl InvalidRetrievalUrl
     else case ul_idna lib normalized of None \<Rightarrow> Inl InvalidRetrievalUrl | Some h \<Rightarrow> Inr h)"

definition default_port :: "ustr \<Rightarrow> int" where
  "default_port scheme = (if scheme = cps ''http'' then 80 else 443)"

definition normalized_url :: "split_url \<Rightarrow> ustr \<Rightarrow> ustr \<Rightarrow> int \<Rightarrow> int option \<Rightarrow> ustr" where
  "normalized_url parsed scheme ascii_host selected_port explicit_port = (let
     host = (if 58 \<in> set ascii_host then [91] @ ascii_host @ [93] else ascii_host);
     authority = (if explicit_port \<noteq> None \<and> selected_port \<noteq> default_port scheme
       then host @ [58] @ str_of_int selected_port else host);
     path = (if su_path parsed = [] then [47] else su_path parsed)
   in urlunsplit scheme authority path (su_query parsed))"

definition ends_with :: "'a list \<Rightarrow> 'a list \<Rightarrow> bool" where
  "ends_with suf s \<longleftrightarrow> length suf \<le> length s \<and> drop (length s - length suf) s = suf"

definition host_policy :: "url_policy \<Rightarrow> ustr \<Rightarrow> url_error + ip_address option" where
  "host_policy pol ascii_host = (case parse_ip ascii_host of
     Some lit \<Rightarrow> res_bind (validate_addresses pol [Some lit]) (\<lambda>_. Inr (Some lit))
   | None \<Rightarrow> if ascii_host = cps ''localhost'' \<or> ends_with (cps ''.localhost'') ascii_host
       then Inl BlockedDestinationError else Inr None)"

definition validate_url :: "unicode_lib \<Rightarrow> url_policy \<Rightarrow> ustr \<Rightarrow> url_error + ValidatedUrl" where
  "validate_url lib pol requested_url =
     (if \<not> (1 \<le> length requested_url \<and> length requested_url \<le> 8192) then Inl InvalidRetrievalUrl
      else if list_ex is_control requested_url then Inl InvalidRetrievalUrl
      else case urlsplit lib requested_url of
        Inl _ \<Rightarrow> Inl InvalidRetrievalUrl
      | Inr parsed \<Rightarrow> (case url_port parsed of
          Inl _ \<Rightarrow> Inl InvalidRetrievalUrl
        | Inr port \<Rightarrow> (let scheme = map ascii_lower_cp (su_scheme parsed) in
            if scheme \<noteq> cps ''http'' \<and> scheme \<noteq> cps ''https'' then Inl InvalidRetrievalUrl
            else if url_has_userinfo parsed then Inl InvalidRetrievalUrl
            else case url_hostname lib parsed of
              None \<Rightarrow> Inl InvalidRetrievalUrl
            | Some raw_host \<Rightarrow>
                if raw_host = [] then Inl InvalidRetrievalUrl
                else if 37 \<in> set raw_host then Inl InvalidRetrievalUrl
                else res_bind (normalize_host lib raw_host) (\<lambda>ascii_host.
                  let selected_port = (case port of Some n \<Rightarrow> n | None \<Rightarrow> default_port scheme) in
                  if selected_port \<notin> set (default_port scheme # up_additional_ports pol) then Inl BlockedDestinationError
                  else res_bind (host_policy pol ascii_host) (\<lambda>literal.
                    Inr \<lparr>vu_requested_url = requested_url,
                         vu_normalized_url = normalized_url parsed scheme ascii_host selected_port port,
                         vu_scheme = scheme, vu_ascii_host = ascii_host, vu_port = selected_port,
                         vu_ip_literal = literal\<rparr>)))))"

subsection \<open>The resolver and the request\<close>

datatype resolver_error = ResolverClosed | ResolverPolicy url_error | ResolverOs

text \<open>\<open>ValidatingResolver.resolve\<close>: the whole answer of the underlying resolver is checked, and
  returned unchanged.\<close>

definition resolve_validated ::
  "url_policy \<Rightarrow> bool \<Rightarrow> (ustr \<Rightarrow> ustr list option) \<Rightarrow> ustr \<Rightarrow> resolver_error + ustr list" where
  "resolve_validated pol is_closed underlying host = (if is_closed then Inl ResolverClosed
     else case underlying host of
       None \<Rightarrow> Inl ResolverOs
     | Some records \<Rightarrow> (case validate_addresses pol (map parse_ip records) of
         Inl e \<Rightarrow> Inl (ResolverPolicy e)
       | Inr _ \<Rightarrow> Inr records))"

text \<open>
  aiohttp's connector, a parameter: which hosts it takes for IP addresses and connects to without
  asking its resolver (\<open>aio_direct\<close>), and the addresses the operating system reads in a host or
  record (\<open>aio_connect\<close>). It connects to an address of the host itself in the direct case, of
  a record of its resolver otherwise.
\<close>

record aio_connector =
  aio_direct :: "ustr \<Rightarrow> bool"
  aio_connect :: "ustr \<Rightarrow> ip_address list"

definition connect_targets ::
  "aio_connector \<Rightarrow> url_policy \<Rightarrow> (ustr \<Rightarrow> ustr list option) \<Rightarrow> ustr \<Rightarrow> resolver_error + ip_address list" where
  "connect_targets aio pol underlying host =
     (if aio_direct aio host then Inr (aio_connect aio host)
      else res_bind (resolve_validated pol False underlying host) (\<lambda>records. Inr (concat (map (aio_connect aio) records))))"

text \<open>\<open>SafeAioHttpClient.get\<close> up to the connection: the URL is validated again, then aiohttp connects
  to its host.\<close>

definition client_get ::
  "unicode_lib \<Rightarrow> aio_connector \<Rightarrow> url_policy \<Rightarrow> (ustr \<Rightarrow> ustr list option) \<Rightarrow> ustr
     \<Rightarrow> (url_error + resolver_error) + ValidatedUrl \<times> ip_address list" where
  "client_get lib aio pol underlying url = (case validate_url lib pol url of
     Inl e \<Rightarrow> Inl (Inl e)
   | Inr v \<Rightarrow> (case connect_targets aio pol underlying (vu_ascii_host v) of
       Inl e \<Rightarrow> Inl (Inr e)
     | Inr targets \<Rightarrow> Inr (v, targets)))"

subsection \<open>What a validated URL is\<close>

definition public_address :: "url_policy \<Rightarrow> ip_address \<Rightarrow> bool" where
  "public_address pol a \<longleftrightarrow> \<not> address_blocked pol a"

lemma check_addresses_public:
  "check_addresses pol xs = Inr ys \<Longrightarrow> map Some ys = xs \<and> list_all (public_address pol) ys"
  by (induction xs arbitrary: ys)
    (auto simp: res_simps public_address_def split: option.splits if_splits)

lemma set_unique: "set (unique xs) = set xs"
proof -
  have "set (foldl (\<lambda>acc x. if x \<in> set acc then acc else acc @ [x]) acc xs) = set acc \<union> set xs" for acc
    by (induction xs arbitrary: acc) auto
  then show ?thesis by (simp add: unique_def)
qed

lemma validate_addresses_public:
  assumes "validate_addresses pol xs = Inr ys"
  shows "xs \<noteq> [] \<and> set xs = Some ` set ys \<and> list_all (public_address pol) ys"
proof -
  obtain zs where zs: "xs \<noteq> []" "check_addresses pol xs = Inr zs" "ys = unique zs"
    using assms by (auto simp: validate_addresses_def res_simps split: if_splits)
  then show ?thesis
    using check_addresses_public [OF zs(2)] by (auto simp: set_unique list_all_iff simp flip: set_map)
qed

lemma host_policy_literal:
  assumes "host_policy pol h = Inr lit"
  shows "lit = parse_ip h \<and> (case lit of None \<Rightarrow> \<not> ends_with (cps ''.localhost'') h \<and> h \<noteq> cps ''localhost''
    | Some a \<Rightarrow> public_address pol a)"
proof -
  have "validate_addresses pol [Some a] = Inr ys \<Longrightarrow> public_address pol a" for a ys
    using validate_addresses_public [of pol "[Some a]" ys] by (auto simp: list_all_iff)
  then show ?thesis
    using assms by (auto simp: host_policy_def res_simps split: option.splits if_splits)
qed

text \<open>Everything a successful validation establishes.\<close>

definition url_admissible :: "url_policy \<Rightarrow> ValidatedUrl \<Rightarrow> bool" where
  "url_admissible pol v \<longleftrightarrow> vu_scheme v \<in> {cps ''http'', cps ''https''}
     \<and> vu_port v \<in> set (default_port (vu_scheme v) # up_additional_ports pol)
     \<and> vu_ip_literal v = parse_ip (vu_ascii_host v)
     \<and> (case vu_ip_literal v of Some a \<Rightarrow> public_address pol a
        | None \<Rightarrow> \<not> ends_with (cps ''.localhost'') (vu_ascii_host v) \<and> vu_ascii_host v \<noteq> cps ''localhost'')"

lemma validate_url_admissible:
  assumes "validate_url lib pol url = Inr v"
  shows "url_admissible pol v" "vu_requested_url v = url" "length url \<le> 8192"
proof -
  obtain parsed port raw h lit where steps: "length url \<le> 8192" "urlsplit lib url = Inr parsed" "url_port parsed = Inr port"
    and sch: "map ascii_lower_cp (su_scheme parsed) \<in> {cps ''http'', cps ''https''}"
    and port: "(case port of Some n \<Rightarrow> n | None \<Rightarrow> default_port (map ascii_lower_cp (su_scheme parsed)))
      \<in> set (default_port (map ascii_lower_cp (su_scheme parsed)) # up_additional_ports pol)"
    and lit: "host_policy pol h = Inr lit"
    and v: "v = \<lparr>vu_requested_url = url,
        vu_normalized_url = normalized_url parsed (map ascii_lower_cp (su_scheme parsed)) h
          (case port of Some n \<Rightarrow> n | None \<Rightarrow> default_port (map ascii_lower_cp (su_scheme parsed))) port,
        vu_scheme = map ascii_lower_cp (su_scheme parsed), vu_ascii_host = h,
        vu_port = (case port of Some n \<Rightarrow> n | None \<Rightarrow> default_port (map ascii_lower_cp (su_scheme parsed))), vu_ip_literal = lit\<rparr>"
    using assms unfolding validate_url_def Let_def
    by (auto simp: res_simps split: if_split_asm sum.split_asm option.split_asm)
  show "url_admissible pol v" "vu_requested_url v = url" "length url \<le> 8192"
    using sch port host_policy_literal [OF lit] steps unfolding url_admissible_def v
    by (simp_all split: option.split_asm)
qed

subsection \<open>Properties\<close>

definition demo_lib :: unicode_lib where
  "demo_lib = \<lparr>ul_lower = map ascii_lower_cp, ul_nfkc = (\<lambda>s. s), ul_idna = (\<lambda>s. if is_ascii_text s then Some s else None)\<rparr>"

definition demo_policy :: url_policy where
  "demo_policy = \<lparr>up_additional_ports = [8080], up_internal_networks = [Net4 (quad 93 184 0 0) 16], up_revision = ''retrieval-egress-v1''\<rparr>"

definition literal_connector :: aio_connector where
  "literal_connector = \<lparr>aio_direct = (\<lambda>h. parse_ip h \<noteq> None),
     aio_connect = (\<lambda>x. case parse_ip x of None \<Rightarrow> [] | Some a \<Rightarrow> [a])\<rparr>"

definition demo_dns :: "ustr \<Rightarrow> ustr list option" where
  "demo_dns host = Some [cps ''8.8.8.8'', cps ''1.1.1.1'']"



text \<open>The premise on direct hosts is needed. A connector that takes a host of digits and dots for an
  address, and leaves its reading to the operating system, connects to the loopback address for
  a host that \<open>ipaddress\<close> does not read, and that the policy therefore lets pass as a name.\<close>

definition numeric_connector :: aio_connector where
  "numeric_connector = \<lparr>aio_direct = (\<lambda>h. 58 \<in> set h \<or> (filter (\<lambda>c. c \<noteq> 46) h \<noteq> [] \<and> list_all is_digit (filter (\<lambda>c. c \<noteq> 46) h))),
     aio_connect = (\<lambda>x. if x = cps ''2130706433'' then [IPv4 (quad 127 0 0 1)] else case parse_ip x of None \<Rightarrow> [] | Some a \<Rightarrow> [a])\<rparr>"

lemma numeric_host_reaches_loopback:
  "(case client_get demo_lib numeric_connector demo_policy demo_dns (cps ''http://2130706433/'') of
       Inr (v, ts) \<Rightarrow> ts = [IPv4 (quad 127 0 0 1)] \<and> vu_ip_literal v = None | Inl _ \<Rightarrow> False)
     \<and> \<not> public_address demo_policy (IPv4 (quad 127 0 0 1))"
  by code_simp

end
