(* ===== verification/Retrieval_Fetcher.thy ===== *)
theory Retrieval_Fetcher
  imports Retrieval_Security
begin

section \<open>The bounded HTTP fetcher\<close>

text \<open>
  \<open>infrastructure/retrieval/fetcher.py\<close> with the value types of \<open>domain/retrieval/models.py\<close> and
  \<open>application/retrieval/ports.py\<close>. aiohttp answers each request as the environment says; the response
  is its status, headers and the sequence of what reading its body gives. \<open>urljoin\<close>, the
  header parser of the \<open>email\<close> package and zlib are arguments; the results hold for all of them.
\<close>

record RetrievalSettings =
  rt_operation_timeout_seconds :: rat
  rt_batch_concurrency :: int
  rt_max_connections :: int
  rt_max_connections_per_host :: int
  rt_max_redirects :: int
  rt_stream_chunk_size :: int
  rt_max_wire_bytes :: int
  rt_max_entity_bytes :: int
  rt_max_decompression_ratio :: rat
  rt_read_inactivity_seconds :: rat
  rt_security :: url_policy

definition retrieval_settings_ok :: "RetrievalSettings \<Rightarrow> bool" where
  "retrieval_settings_ok s \<longleftrightarrow> 0 < rt_operation_timeout_seconds s \<and> rt_operation_timeout_seconds s \<le> 300
     \<and> 1 \<le> rt_batch_concurrency s \<and> rt_batch_concurrency s \<le> 32
     \<and> 1 \<le> rt_max_connections s \<and> rt_max_connections s \<le> 256
     \<and> 1 \<le> rt_max_connections_per_host s \<and> rt_max_connections_per_host s \<le> 32
     \<and> 0 \<le> rt_max_redirects s \<and> rt_max_redirects s \<le> 10
     \<and> 4096 \<le> rt_stream_chunk_size s \<and> rt_stream_chunk_size s \<le> 1024 * 1024
     \<and> 1024 \<le> rt_max_wire_bytes s \<and> rt_max_wire_bytes s \<le> 256 * 1024 * 1024
     \<and> 1024 \<le> rt_max_entity_bytes s \<and> rt_max_entity_bytes s \<le> 512 * 1024 * 1024
     \<and> 1 \<le> rt_max_decompression_ratio s \<and> rt_max_decompression_ratio s \<le> 1000
     \<and> 0 < rt_read_inactivity_seconds s \<and> rt_read_inactivity_seconds s \<le> 60
     \<and> security_settings_ok (rt_security s) \<and> \<not> rt_max_entity_bytes s < rt_max_wire_bytes s"

datatype fetch_exc =
    RetrievalPolicyError | RedirectBlocked | RetrievalConnectionError | ResponseTooLarge
  | DecompressionLimitExceeded | UnsupportedContentEncoding | TooManyRedirects
  | FetchTimeout | FetchValueError | FetchOther

record RedirectHop =
  rh_status :: int
  rh_from_url :: ustr
  rh_to_url :: ustr

definition redirect_hop_ok :: "RedirectHop \<Rightarrow> bool" where
  "redirect_hop_ok h \<longleftrightarrow> 300 \<le> rh_status h \<and> rh_status h \<le> 399
     \<and> \<not> (8192 < length (rh_from_url h) \<or> 8192 < length (rh_to_url h))"

record FetchCounters =
  fc_wire_bytes :: int
  fc_entity_bytes :: int

subsection \<open>Responses\<close>

datatype read_event = ReadChunk bytes | ReadTimeout | ReadFault | ReadOther

record client_response =
  cr_status :: int
  cr_headers :: "string \<Rightarrow> ustr option"
  cr_content_length :: "int option"
  cr_url :: ustr
  cr_reads :: "read_event list"

text \<open>What \<open>session.get\<close> may raise; the flag says whether a \<open>BlockedDestinationError\<close> is in the chain
  of causes that \<open>_has_cause\<close> follows.\<close>

datatype client_exc = ClientTimeout | ClientFault bool | ClientOther

record fetch_env =
  fv_lib :: unicode_lib
  fv_join :: "ustr \<Rightarrow> ustr \<Rightarrow> ustr option"
  fv_filename :: "ustr \<Rightarrow> ustr option"
  fv_remaining :: "nat \<Rightarrow> rat option"
  fv_get :: "nat \<Rightarrow> ustr \<Rightarrow> rat \<Rightarrow> client_exc + client_response"

record SafeFetchResponse =
  sr_requested_url :: ustr
  sr_final_url :: ustr
  sr_http_status :: int
  sr_redirect_chain :: "RedirectHop list"
  sr_content_encoding :: "string option"
  sr_declared_media_type :: "ustr option"
  sr_source_filename :: "ustr option"
  sr_body :: "read_event list"

definition content_encoding :: "unicode_lib \<Rightarrow> client_response \<Rightarrow> fetch_exc + string option" where
  "content_encoding lib resp = (case cr_headers resp ''Content-Encoding'' of
     None \<Rightarrow> Inr None
   | Some v \<Rightarrow> (let normalized = ul_lower lib (strip_by uni_space v) in
       if normalized \<in> {[], cps ''identity''} then Inr None
       else if normalized \<in> {cps ''gzip'', cps ''x-gzip''} then Inr (Some ''gzip'')
       else if normalized = cps ''deflate'' then Inr (Some ''deflate'')
       else Inl UnsupportedContentEncoding))"

definition media_char :: "codepoint \<Rightarrow> bool" where
  "media_char c \<longleftrightarrow> (97 \<le> c \<and> c \<le> 122) \<or> (48 \<le> c \<and> c \<le> 57) \<or> c \<in> {33, 35, 36, 38, 94, 95, 46, 43, 45}"

definition declared_media_type :: "unicode_lib \<Rightarrow> ustr option \<Rightarrow> ustr option" where
  "declared_media_type lib value = (case value of None \<Rightarrow> None
   | Some v \<Rightarrow> (let media = ul_lower lib (strip_by uni_space (fst (partition_at 59 v))) in
       if length media \<le> 255 \<and> (case split_on 47 media of [a, b] \<Rightarrow> a \<noteq> [] \<and> b \<noteq> [] \<and> list_all media_char (a @ b) | _ \<Rightarrow> False)
       then Some media else None))"

definition safe_filename :: "ustr \<Rightarrow> ustr option" where
  "safe_filename filename = (let
     safe = take 255 (strip_by (\<lambda>c. c = 32 \<or> c = 46)
       (map (\<lambda>c. if c = 47 \<or> c = 92 \<or> c < 32 then 95 else c) filename))
   in if safe = [] then None else Some safe)"

definition disposition_filename :: "(ustr \<Rightarrow> ustr option) \<Rightarrow> ustr option \<Rightarrow> ustr option" where
  "disposition_filename get_filename value = (case value of None \<Rightarrow> None
   | Some v \<Rightarrow> if 4096 < length v then None
       else case get_filename v of None \<Rightarrow> None | Some f \<Rightarrow> safe_filename f)"

definition source_filename_from_url :: "unicode_lib \<Rightarrow> ustr \<Rightarrow> fetch_exc + ustr option" where
  "source_filename_from_url lib value = (case urlsplit lib value of
     Inl _ \<Rightarrow> Inl FetchValueError
   | Inr u \<Rightarrow> Inr (if su_path u = [] then None else safe_filename (snd (snd (rpartition_at 47 (su_path u))))))"

definition safe_response ::
  "fetch_env \<Rightarrow> RetrievalSettings \<Rightarrow> ustr \<Rightarrow> ustr \<Rightarrow> RedirectHop list \<Rightarrow> client_response \<Rightarrow> fetch_exc + SafeFetchResponse" where
  "safe_response env st requested_url current_url redirects resp =
     (if (case cr_content_length resp of Some n \<Rightarrow> n > rt_max_wire_bytes st | None \<Rightarrow> False) then Inl ResponseTooLarge
      else res_bind (content_encoding (fv_lib env) resp) (\<lambda>encoding.
        res_bind (case disposition_filename (fv_filename env) (cr_headers resp ''Content-Disposition'') of
            Some f \<Rightarrow> Inr (Some f)
          | None \<Rightarrow> source_filename_from_url (fv_lib env) (cr_url resp)) (\<lambda>filename.
        Inr \<lparr>sr_requested_url = requested_url,
             sr_final_url = (if cr_url resp = [] then current_url else cr_url resp),
             sr_http_status = cr_status resp, sr_redirect_chain = redirects, sr_content_encoding = encoding,
             sr_declared_media_type = declared_media_type (fv_lib env) (cr_headers resp ''Content-Type''),
             sr_source_filename = filename, sr_body = cr_reads resp\<rparr>)))"

subsection \<open>Following redirects\<close>

definition redirect_statuses :: "int list" where
  "redirect_statuses = [301, 302, 303, 307, 308]"

definition remaining_timeout :: "RetrievalSettings \<Rightarrow> rat option \<Rightarrow> fetch_exc + rat" where
  "remaining_timeout st remaining = (case remaining of
     None \<Rightarrow> Inr (rt_operation_timeout_seconds st)
   | Some r \<Rightarrow> if r \<le> 0 then Inl FetchTimeout else Inr r)"

text \<open>One request: the policy check of \<open>fetch\<close>, the timeout, and \<open>SafeAioHttpClient.get\<close>, which checks
  the URL again and sends the request to its normalized form. The second result is the request
  that was sent, if any.\<close>

definition request_hop ::
  "fetch_env \<Rightarrow> url_policy \<Rightarrow> RetrievalSettings \<Rightarrow> nat \<Rightarrow> ustr \<Rightarrow> (fetch_exc + client_response) \<times> ValidatedUrl option" where
  "request_hop env pol st n current_url = (case validate_url (fv_lib env) pol current_url of
     Inl _ \<Rightarrow> (Inl RetrievalPolicyError, None)
   | Inr v \<Rightarrow> (case remaining_timeout st (fv_remaining env n) of
       Inl e \<Rightarrow> (Inl e, None)
     | Inr timeout \<Rightarrow> (case fv_get env n (vu_normalized_url v) timeout of
         Inr resp \<Rightarrow> (Inr resp, Some v)
       | Inl ClientTimeout \<Rightarrow> (Inl FetchTimeout, Some v)
       | Inl (ClientFault blocked) \<Rightarrow> (Inl (if 0 < n \<and> blocked then RedirectBlocked else RetrievalConnectionError), Some v)
       | Inl ClientOther \<Rightarrow> (Inl FetchOther, Some v))))"

text \<open>What the loop does with a response: return it, fail, or follow the redirect.\<close>

datatype hop_step = HopDone "fetch_exc + SafeFetchResponse" | HopNext RedirectHop

definition next_hop ::
  "fetch_env \<Rightarrow> url_policy \<Rightarrow> RetrievalSettings \<Rightarrow> ustr \<Rightarrow> ustr \<Rightarrow> RedirectHop list \<Rightarrow> client_response \<Rightarrow> hop_step" where
  "next_hop env pol st requested_url current_url redirects resp =
     (if cr_status resp \<notin> set redirect_statuses then HopDone (safe_response env st requested_url current_url redirects resp)
      else case cr_headers resp ''Location'' of
        None \<Rightarrow> HopDone (safe_response env st requested_url current_url redirects resp)
      | Some location \<Rightarrow>
          if location = [] then HopDone (safe_response env st requested_url current_url redirects resp)
          else if int (length redirects) \<ge> rt_max_redirects st then HopDone (Inl TooManyRedirects)
          else if 8192 < length location then HopDone (Inl RedirectBlocked)
          else case fv_join env current_url location of
            None \<Rightarrow> HopDone (Inl FetchValueError)
          | Some target \<Rightarrow> (case validate_url (fv_lib env) pol target of
              Inl _ \<Rightarrow> HopDone (Inl RedirectBlocked)
            | Inr v \<Rightarrow> (let hop = \<lparr>rh_status = cr_status resp, rh_from_url = current_url, rh_to_url = vu_normalized_url v\<rparr> in
                if redirect_hop_ok hop then HopNext hop else HopDone (Inl FetchValueError))))"

lemma next_hop_bound: "next_hop env pol st u c redirects resp = HopNext hop \<Longrightarrow> length redirects < nat (rt_max_redirects st)"
  unfolding next_hop_def Let_def by (auto split: if_splits option.splits sum.splits)

function fetch_loop ::
  "fetch_env \<Rightarrow> url_policy \<Rightarrow> RetrievalSettings \<Rightarrow> ustr \<Rightarrow> ustr \<Rightarrow> RedirectHop list
     \<Rightarrow> (fetch_exc + SafeFetchResponse) \<times> ValidatedUrl list" where
  "fetch_loop env pol st requested_url current_url redirects =
     (case request_hop env pol st (length redirects) current_url of
       (Inl e, sent) \<Rightarrow> (Inl e, case sent of None \<Rightarrow> [] | Some v \<Rightarrow> [v])
     | (Inr resp, sent) \<Rightarrow> (let this = (case sent of None \<Rightarrow> [] | Some v \<Rightarrow> [v]) in
         case next_hop env pol st requested_url current_url redirects resp of
           HopDone res \<Rightarrow> (res, this)
         | HopNext hop \<Rightarrow> (case fetch_loop env pol st requested_url (rh_to_url hop) (redirects @ [hop]) of
             (res, later) \<Rightarrow> (res, this @ later))))"
  by pat_completeness auto
termination
  by (relation "measure (\<lambda>(env, pol, st, u, c, redirects). nat (rt_max_redirects st) - length redirects)")
    (auto dest: next_hop_bound)

declare fetch_loop.simps [simp del]

definition fetch_url ::
  "fetch_env \<Rightarrow> url_policy \<Rightarrow> RetrievalSettings \<Rightarrow> ustr \<Rightarrow> (fetch_exc + SafeFetchResponse) \<times> ValidatedUrl list" where
  "fetch_url env pol st url = fetch_loop env pol st url url []"

subsection \<open>Reading the body\<close>

text \<open>A zlib decompressor: \<open>decompress\<close> with a bound for the output, \<open>flush\<close>, and whether the end of the
  compressed stream was reached. \<open>Inl\<close> is \<open>zlib.error\<close>.\<close>

record 'z zlib =
  zl_decompress :: "'z \<Rightarrow> bytes \<Rightarrow> int \<Rightarrow> unit + bytes \<times> 'z"
  zl_flush :: "'z \<Rightarrow> int \<Rightarrow> unit + bytes \<times> 'z"
  zl_eof :: "'z \<Rightarrow> bool"

definition account_entity :: "RetrievalSettings \<Rightarrow> bytes \<Rightarrow> FetchCounters \<Rightarrow> (fetch_exc + unit) \<times> FetchCounters" where
  "account_entity st entity c = (let c' = c\<lparr>fc_entity_bytes := fc_entity_bytes c + int (length entity)\<rparr> in
     (if fc_entity_bytes c' > rt_max_entity_bytes st then Inl DecompressionLimitExceeded else Inr (), c'))"

definition ratio_exceeded :: "RetrievalSettings \<Rightarrow> FetchCounters \<Rightarrow> bool" where
  "ratio_exceeded st c \<longleftrightarrow> fc_wire_bytes c \<noteq> 0
     \<and> of_int (fc_entity_bytes c) / of_int (fc_wire_bytes c) > rt_max_decompression_ratio st"

definition decode_chunk ::
  "'z zlib \<Rightarrow> RetrievalSettings \<Rightarrow> 'z option \<Rightarrow> bytes \<Rightarrow> FetchCounters \<Rightarrow> (fetch_exc + bytes \<times> 'z option) \<times> FetchCounters" where
  "decode_chunk zl st dec wire c =
     (case (case dec of None \<Rightarrow> Inr (wire, None)
        | Some z \<Rightarrow> (case zl_decompress zl z wire (max 1 (rt_max_entity_bytes st - fc_entity_bytes c + 1)) of
            Inl _ \<Rightarrow> Inl RetrievalConnectionError
          | Inr (entity, z') \<Rightarrow> Inr (entity, Some z'))) of
        Inl e \<Rightarrow> (Inl e, c)
      | Inr (entity, dec') \<Rightarrow> try_seq (account_entity st entity c) (\<lambda>_ c1.
          if ratio_exceeded st c1 then (Inl DecompressionLimitExceeded, c1) else (Inr (entity, dec'), c1)))"

text \<open>The end of the generator, and the generator: the chunks it yields, how it ends, and the counters.\<close>

definition body_end ::
  "'z zlib \<Rightarrow> RetrievalSettings \<Rightarrow> 'z option \<Rightarrow> FetchCounters \<Rightarrow> bytes list \<times> (fetch_exc + unit) \<times> FetchCounters" where
  "body_end zl st dec c = (case dec of
     None \<Rightarrow> ([], if ratio_exceeded st c then Inl DecompressionLimitExceeded else Inr (), c)
   | Some z \<Rightarrow> (case zl_flush zl z (max 1 (rt_max_entity_bytes st - fc_entity_bytes c + 1)) of
       Inl _ \<Rightarrow> ([], Inl RetrievalConnectionError, c)
     | Inr (tail, z') \<Rightarrow> (case account_entity st tail c of
         (Inl e, c1) \<Rightarrow> ([], Inl e, c1)
       | (Inr _, c1) \<Rightarrow> if \<not> zl_eof zl z' then ([], Inl RetrievalConnectionError, c1)
           else (if tail = [] then [] else [tail],
                 if ratio_exceeded st c1 then Inl DecompressionLimitExceeded else Inr (), c1))))"

fun body_loop ::
  "'z zlib \<Rightarrow> RetrievalSettings \<Rightarrow> 'z option \<Rightarrow> FetchCounters \<Rightarrow> read_event list
     \<Rightarrow> bytes list \<times> (fetch_exc + unit) \<times> FetchCounters" where
  "body_loop zl st dec c [] = body_end zl st dec c"
| "body_loop zl st dec c (ReadTimeout # es) = ([], Inl FetchTimeout, c)"
| "body_loop zl st dec c (ReadFault # es) = ([], Inl RetrievalConnectionError, c)"
| "body_loop zl st dec c (ReadOther # es) = ([], Inl FetchOther, c)"
| "body_loop zl st dec c (ReadChunk wire # es) =
     (if wire = [] then body_end zl st dec c
      else let c1 = c\<lparr>fc_wire_bytes := fc_wire_bytes c + int (length wire)\<rparr> in
        if fc_wire_bytes c1 > rt_max_wire_bytes st then ([], Inl ResponseTooLarge, c1)
        else case decode_chunk zl st dec wire c1 of
          (Inl e, c2) \<Rightarrow> ([], Inl e, c2)
        | (Inr (entity, dec'), c2) \<Rightarrow> (case body_loop zl st dec' c2 es of
            (ys, res) \<Rightarrow> (if entity = [] then ys else entity # ys, res)))"

text \<open>\<open>_decoder\<close> chooses the start state of zlib for the encoding.\<close>

definition fetch_body ::
  "'z zlib \<Rightarrow> (string \<Rightarrow> 'z) \<Rightarrow> RetrievalSettings \<Rightarrow> SafeFetchResponse \<Rightarrow> bytes list \<times> (fetch_exc + unit) \<times> FetchCounters" where
  "fetch_body zl new_decoder st resp =
     body_loop zl st (map_option new_decoder (sr_content_encoding resp)) \<lparr>fc_wire_bytes = 0, fc_entity_bytes = 0\<rparr> (sr_body resp)"

subsection \<open>The requests of a fetch\<close>

fun chain_from :: "ustr \<Rightarrow> RedirectHop list \<Rightarrow> bool" where
  "chain_from url [] = True"
| "chain_from url (h # hs) = (rh_from_url h = url \<and> redirect_hop_ok h \<and> chain_from (rh_to_url h) hs)"

lemma request_hop_sent:
  assumes "request_hop env pol st n url = (res, sent)"
  shows "sent = Some v \<Longrightarrow> validate_url (fv_lib env) pol url = Inr v" "res = Inr resp \<Longrightarrow> \<exists>v. sent = Some v"
  using assms unfolding request_hop_def
  by (auto split: sum.split_asm client_exc.split_asm)

lemma next_hop_cases:
  "next_hop env pol st u c redirects resp = HopNext hop \<Longrightarrow> rh_from_url hop = c \<and> redirect_hop_ok hop"
  "next_hop env pol st u c redirects resp = HopDone (Inr r) \<Longrightarrow> sr_redirect_chain r = redirects \<and> sr_requested_url r = u"
  unfolding next_hop_def Let_def
  by (auto simp: safe_response_def res_simps split: if_split_asm option.split_asm sum.split_asm)

lemma fetch_loop_requests:
  "fetch_loop env pol st u c redirects = (res, sent) \<Longrightarrow> length redirects \<le> nat (rt_max_redirects st) \<Longrightarrow>
     (\<forall>v \<in> set sent. validate_url (fv_lib env) pol (vu_requested_url v) = Inr v)
   \<and> length redirects + length sent \<le> nat (rt_max_redirects st) + 1
   \<and> (\<forall>r. res = Inr r \<longrightarrow> (\<exists>hops. sr_redirect_chain r = redirects @ hops \<and> chain_from c hops
        \<and> map vu_requested_url sent = c # map rh_to_url hops \<and> sr_requested_url r = u))"
proof (induction env pol st u c redirects arbitrary: res sent rule: fetch_loop.induct)
  case (1 env pol st u c redirects)
  obtain hres hsent where hop: "request_hop env pol st (length redirects) c = (hres, hsent)" by (metis prod.exhaust)
  have valid: "validate_url (fv_lib env) pol (vu_requested_url v) = Inr v \<and> vu_requested_url v = c" if "hsent = Some v" for v
    using request_hop_sent(1) [OF hop that] validate_url_admissible(2) [of "fv_lib env" pol c v] by simp
  show ?case
  proof (cases hres)
    case (Inl e)
    then show ?thesis
      using "1.prems" hop valid by (subst (asm) fetch_loop.simps) (auto split: option.split_asm)
  next
    case (Inr resp)
    then obtain v where v: "hsent = Some v" using request_hop_sent(2) [OF hop] by blast
    show ?thesis
    proof (cases "next_hop env pol st u c redirects resp")
      case (HopDone r)
      then have "res = r" "sent = [v]"
        using "1.prems" hop Inr v by (subst (asm) fetch_loop.simps, simp add: Let_def)+
      then show ?thesis using valid v "1.prems" next_hop_cases(2) [of env pol st u c redirects resp] HopDone by auto
    next
      case (HopNext h)
      obtain lres later where rec: "fetch_loop env pol st u (rh_to_url h) (redirects @ [h]) = (lres, later)" by (metis prod.exhaust)
      have eq: "res = lres" "sent = v # later"
        using "1.prems"(1) [unfolded fetch_loop.simps [of env pol st u c redirects]] by (simp_all add: hop Inr v HopNext rec)
      have len: "length (redirects @ [h]) \<le> nat (rt_max_redirects st)" using next_hop_bound [OF HopNext] by simp
      note IH = "1.IH" [OF hop [symmetric] Inr refl HopNext rec len]
      have head: "validate_url (fv_lib env) pol (vu_requested_url v) = Inr v" "vu_requested_url v = c" using valid [OF v] by blast+
      have "\<exists>hops. sr_redirect_chain r = redirects @ hops \<and> chain_from c hops
          \<and> map vu_requested_url sent = c # map rh_to_url hops \<and> sr_requested_url r = u" if res: "res = Inr r" for r
      proof -
        obtain hops where "sr_redirect_chain r = (redirects @ [h]) @ hops" "chain_from (rh_to_url h) hops"
          "map vu_requested_url later = rh_to_url h # map rh_to_url hops" "sr_requested_url r = u"
          using IH [THEN conjunct2, THEN conjunct2, rule_format, OF res [unfolded eq(1)]] by (elim exE conjE)
        then show ?thesis
          using head(2) next_hop_cases(1) [OF HopNext] eq(2) by (intro exI [of _ "h # hops"]) simp
      qed
      then show ?thesis using IH head(1) eq(2) by simp
    qed
  qed
qed

subsection \<open>The size of a body\<close>

definition body_size :: "bytes list \<Rightarrow> int" where
  "body_size ys = int (length (concat ys))"

lemma body_size_simps [simp]: "body_size [] = 0" "body_size (y # ys) = int (length y) + body_size ys" "0 \<le> body_size ys"
  by (simp_all add: body_size_def)

definition body_bounded :: "RetrievalSettings \<Rightarrow> FetchCounters \<Rightarrow> bytes list \<times> (fetch_exc + unit) \<times> FetchCounters \<Rightarrow> bool" where
  "body_bounded st c out = (case out of (ys, res, c') \<Rightarrow>
     fc_entity_bytes c + body_size ys \<le> rt_max_entity_bytes st
   \<and> (res = Inr () \<longrightarrow> fc_entity_bytes c' = fc_entity_bytes c + body_size ys \<and> fc_wire_bytes c' \<le> rt_max_wire_bytes st
        \<and> \<not> ratio_exceeded st c'))"

lemma body_end_bounded:
  assumes "fc_entity_bytes c \<le> rt_max_entity_bytes st" "fc_wire_bytes c \<le> rt_max_wire_bytes st"
  shows "body_bounded st c (body_end zl st dec c)"
  using assms
  by (auto simp: body_bounded_def body_end_def account_entity_def Let_def
      split: option.split sum.split prod.split if_split)

lemma decode_chunk_accounts:
  assumes "decode_chunk zl st dec wire c = (Inr (entity, dec'), c')"
  shows "c' = c\<lparr>fc_entity_bytes := fc_entity_bytes c + int (length entity)\<rparr>" "fc_entity_bytes c' \<le> rt_max_entity_bytes st"
    "dec = None \<Longrightarrow> entity = wire \<and> dec' = None"
  using assms
  by (auto simp: decode_chunk_def account_entity_def Let_def split: option.split_asm sum.split_asm if_split_asm)

lemma body_loop_bounded:
  "fc_entity_bytes c \<le> rt_max_entity_bytes st \<Longrightarrow> fc_wire_bytes c \<le> rt_max_wire_bytes st
   \<Longrightarrow> body_bounded st c (body_loop zl st dec c es)"
proof (induction zl st dec c es rule: body_loop.induct)
  case (1 zl st dec c)
  then show ?case by (simp add: body_end_bounded)
next
  case (5 zl st dec c wire es)
  show ?case
  proof (cases "wire = []")
    case True
    then show ?thesis using 5 by (simp add: body_end_bounded)
  next
    case False
    define c1 where "c1 = c\<lparr>fc_wire_bytes := fc_wire_bytes c + int (length wire)\<rparr>"
    obtain dres c2 where dec: "decode_chunk zl st dec wire c1 = (dres, c2)" by (metis prod.exhaust)
    show ?thesis
    proof (cases "fc_wire_bytes c1 > rt_max_wire_bytes st \<or> (\<exists>e. dres = Inl e)")
      case True
      then show ?thesis
        using "5.prems" False dec by (auto simp: c1_def [symmetric] Let_def body_bounded_def)
    next
      case ok: False
      then obtain entity dec' where dres: "dres = Inr (entity, dec')" by (cases dres) auto
      note acc = decode_chunk_accounts [OF dec [unfolded dres]]
      obtain ys r c3 where rec: "body_loop zl st dec' c2 es = (ys, r, c3)" by (metis prod_cases3)
      have "fc_wire_bytes c2 \<le> rt_max_wire_bytes st" using ok acc(1) by simp
      then have "body_bounded st c2 (body_loop zl st dec' c2 es)"
        using "5.IH" [OF False c1_def _ dec [unfolded dres, symmetric] refl refl acc(2)] ok by simp
      moreover have "body_loop zl st dec c (ReadChunk wire # es) = (if entity = [] then ys else entity # ys, r, c3)"
        using False ok dec dres rec by (simp add: c1_def [symmetric] Let_def)
      moreover have "fc_entity_bytes c2 = fc_entity_bytes c + int (length entity)" using acc(1) by (simp add: c1_def)
      ultimately show ?thesis by (auto simp: rec body_bounded_def)
    qed
  qed
qed (auto simp: body_bounded_def body_end_bounded)

text \<open>Without an encoding the body is the chunks as they were read.\<close>

fun read_bytes :: "read_event list \<Rightarrow> bytes" where
  "read_bytes (ReadChunk wire # es) = (if wire = [] then [] else wire @ read_bytes es)"
| "read_bytes es = []"

lemma body_loop_identity:
  "body_loop zl st None c es = (ys, Inr (), c') \<Longrightarrow> concat ys = read_bytes es"
proof (induction es arbitrary: c ys)
  case Nil
  then show ?case by (auto simp: body_end_def split: if_split_asm)
next
  case (Cons e es)
  show ?case
  proof (cases e)
    case (ReadChunk wire)
    then show ?thesis
      using Cons
      by (auto simp: body_end_def Let_def split: if_split_asm sum.split_asm prod.split_asm
          dest!: decode_chunk_accounts(3))
  qed (use Cons in auto)
qed

subsection \<open>Properties\<close>

definition demo_retrieval_settings :: RetrievalSettings where
  "demo_retrieval_settings = \<lparr>rt_operation_timeout_seconds = 30, rt_batch_concurrency = 8, rt_max_connections = 32,
     rt_max_connections_per_host = 4, rt_max_redirects = 5, rt_stream_chunk_size = 4096,
     rt_max_wire_bytes = 2048, rt_max_entity_bytes = 4096, rt_max_decompression_ratio = 100, rt_read_inactivity_seconds = 5,
     rt_security = demo_policy\<rparr>"

text \<open>A server that redirects \<open>/\<close> to \<open>/y\<close>.\<close>

definition demo_fetch_env :: fetch_env where
  "demo_fetch_env = \<lparr>fv_lib = demo_lib, fv_join = (\<lambda>u l. Some (cps ''http://a.bc'' @ l)), fv_filename = (\<lambda>_. None),
     fv_remaining = (\<lambda>_. Some 3),
     fv_get = (\<lambda>n u t. Inr (if n = 0
       then \<lparr>cr_status = 302, cr_headers = (\<lambda>h. if h = ''Location'' then Some (cps ''/y'') else None), cr_content_length = None,
             cr_url = u, cr_reads = []\<rparr>
       else \<lparr>cr_status = 200, cr_headers = (\<lambda>h. None), cr_content_length = None, cr_url = u, cr_reads = [ReadChunk [7, 8]]\<rparr>))\<rparr>"

text \<open>C20: Whatever the servers answer, a fetch sends at most one request more than the allowed redirects, and
  every request, the redirected ones included, goes to a URL the egress policy admits. The
  redirect chain of the response links the requested URL to the last one requested, hop by hop.\<close>
theorem fetch_requests_validated:
  assumes "fetch_url env pol st url = (res, sent)"
  shows "length sent \<le> nat (rt_max_redirects st) + 1
    \<and> (\<forall>v \<in> set sent. url_admissible pol v \<and> validate_url (fv_lib env) pol (vu_requested_url v) = Inr v)
    \<and> (\<forall>r. res = Inr r \<longrightarrow> sr_requested_url r = url \<and> chain_from url (sr_redirect_chain r)
        \<and> map vu_requested_url sent = url # map rh_to_url (sr_redirect_chain r))"
proof -
  note req = fetch_loop_requests [OF assms [unfolded fetch_url_def], simplified]
  have "url_admissible pol v" if "v \<in> set sent" for v
    using validate_url_admissible(1) [of "fv_lib env" pol "vu_requested_url v" v] req that by simp
  then show ?thesis using req by simp
qed

theorem fetch_requests_validated_witness:
  "\<exists>r v w. fetch_url demo_fetch_env demo_policy demo_retrieval_settings (cps ''http://a.bc/'') = (Inr r, [v, w])
     \<and> url_admissible demo_policy w \<and> map rh_to_url (sr_redirect_chain r) = [cps ''http://a.bc/y'']"
proof -
  have "case fetch_url demo_fetch_env demo_policy demo_retrieval_settings (cps ''http://a.bc/'') of
      (Inr r, [v, w]) \<Rightarrow> map rh_to_url (sr_redirect_chain r) = [cps ''http://a.bc/y''] | _ \<Rightarrow> False"
    by code_simp
  then obtain r v w where f: "fetch_url demo_fetch_env demo_policy demo_retrieval_settings (cps ''http://a.bc/'') = (Inr r, [v, w])"
    "map rh_to_url (sr_redirect_chain r) = [cps ''http://a.bc/y'']"
    by (auto split: prod.split_asm sum.split_asm list.split_asm)
  then show ?thesis using fetch_requests_validated [OF f(1)] by auto
qed

text \<open>C21: The body that reaches the caller never exceeds the entity limit, whatever the server sends and
  whatever the decompressor makes of it. When the stream ends without an error the counters are
  exact, the wire limit and the decompression ratio hold, and a body without encoding is
  the bytes that were read.\<close>
theorem fetch_body_within_limits:
  assumes "retrieval_settings_ok st" "fetch_body zl new_decoder st resp = (ys, out, c)"
  shows "body_size ys \<le> rt_max_entity_bytes st
    \<and> (out = Inr () \<longrightarrow> fc_entity_bytes c = body_size ys \<and> fc_wire_bytes c \<le> rt_max_wire_bytes st
        \<and> (fc_wire_bytes c = 0 \<or> of_int (fc_entity_bytes c) / of_int (fc_wire_bytes c) \<le> rt_max_decompression_ratio st)
        \<and> (sr_content_encoding resp = None \<longrightarrow> concat ys = read_bytes (sr_body resp)))"
proof -
  have "body_bounded st \<lparr>fc_wire_bytes = 0, fc_entity_bytes = 0\<rparr> (ys, out, c)"
    using assms(1) unfolding assms(2) [symmetric] fetch_body_def
    by (intro body_loop_bounded) (simp_all add: retrieval_settings_ok_def)
  moreover have "concat ys = read_bytes (sr_body resp)" if "out = Inr ()" "sr_content_encoding resp = None"
    using assms(2) that body_loop_identity by (fastforce simp: fetch_body_def)
  ultimately show ?thesis by (auto simp: body_bounded_def ratio_exceeded_def)
qed

definition demo_zlib :: "unit zlib" where
  "demo_zlib = \<lparr>zl_decompress = (\<lambda>z b n. Inr (b @ b, ())), zl_flush = (\<lambda>z n. Inr ([], ())), zl_eof = (\<lambda>z. True)\<rparr>"

definition demo_response :: SafeFetchResponse where
  "demo_response = \<lparr>sr_requested_url = [], sr_final_url = [], sr_http_status = 200, sr_redirect_chain = [],
     sr_content_encoding = Some ''gzip'', sr_declared_media_type = None, sr_source_filename = None,
     sr_body = [ReadChunk [1, 2], ReadChunk [3]]\<rparr>"

theorem fetch_body_within_limits_witness:
  "fetch_body demo_zlib (\<lambda>_. ()) demo_retrieval_settings demo_response
       = ([[1, 2, 1, 2], [3, 3]], Inr (), \<lparr>fc_wire_bytes = 3, fc_entity_bytes = 6\<rparr>)
   \<and> body_size [[1, 2, 1, 2], [3, 3]] \<le> rt_max_entity_bytes demo_retrieval_settings"
proof -
  have run: "fetch_body demo_zlib (\<lambda>_. ()) demo_retrieval_settings demo_response
      = ([[1, 2, 1, 2], [3, 3]], Inr (), \<lparr>fc_wire_bytes = 3, fc_entity_bytes = 6\<rparr>)"
    by code_simp
  have "retrieval_settings_ok demo_retrieval_settings" by code_simp
  from fetch_body_within_limits [OF this run] run show ?thesis by blast
qed

end
