(* ===== verification/Retrieval_Service.thy ===== *)
theory Retrieval_Service
  imports Retrieval_Fetcher Content_Service
begin

section \<open>The Retrieval application service\<close>

text \<open>
  \<open>application/retrieval/service.py\<close>, \<open>retry.py\<close> and \<open>models.py\<close> with the values of
  \<open>domain/retrieval/models.py\<close>: one item fetches a URL through the bounded fetcher, streams the body
  into a new Content of the Content service and inspects or parses it; a batch runs its items and
  aggregates their outcomes. The Content service acts on its world, faults of its calls included.
\<close>

subsection \<open>Requests (domain/retrieval/models.py)\<close>

datatype RetrievalProcessingLevel = STORE_ONLY | INSPECT | NATIVE

datatype RetrievalExecutionPhase =
    PH_VALIDATED | PH_DNS_RESOLVING | PH_CONNECTING | PH_DISPATCH_POSSIBLE | PH_RESPONSE_HEADERS
  | PH_BODY_STREAMING | PH_CONTENT_CREATING | PH_CONTENT_STAGING | PH_CONTENT_FINALIZED
  | PH_PROCESSING | PH_TERMINAL

fun phase_name :: "RetrievalExecutionPhase \<Rightarrow> string" where
  "phase_name PH_VALIDATED = ''validated''"
| "phase_name PH_DNS_RESOLVING = ''dns_resolving''"
| "phase_name PH_CONNECTING = ''connecting''"
| "phase_name PH_DISPATCH_POSSIBLE = ''dispatch_possible''"
| "phase_name PH_RESPONSE_HEADERS = ''response_headers''"
| "phase_name PH_BODY_STREAMING = ''body_streaming''"
| "phase_name PH_CONTENT_CREATING = ''content_creating''"
| "phase_name PH_CONTENT_STAGING = ''content_staging''"
| "phase_name PH_CONTENT_FINALIZED = ''content_finalized''"
| "phase_name PH_PROCESSING = ''processing''"
| "phase_name PH_TERMINAL = ''terminal''"

text \<open>\<open>RetrievalRequestItem(url=...)\<close> and the size of a batch.\<close>

definition request_item_ok :: "unicode_lib \<Rightarrow> ustr \<Rightarrow> bool" where
  "request_item_ok lib url \<longleftrightarrow> 1 \<le> length url \<and> length url \<le> 8192
     \<and> (case urlsplit lib url of Inl _ \<Rightarrow> False
        | Inr u \<Rightarrow> ul_lower lib (su_scheme u) \<in> {cps ''http'', cps ''https''}
            \<and> (case url_hostname lib u of None \<Rightarrow> False | Some h \<Rightarrow> h \<noteq> []))"

definition retrieval_request_ok :: "unicode_lib \<Rightarrow> ustr list \<Rightarrow> bool" where
  "retrieval_request_ok lib urls \<longleftrightarrow> list_all (request_item_ok lib) urls \<and> 1 \<le> length urls \<and> length urls \<le> 32"

record RetrievedResource =
  rr_requested_url :: ustr
  rr_final_url :: ustr
  rr_http_status :: int
  rr_redirect_chain :: "RedirectHop list"
  rr_wire_bytes :: int
  rr_entity_bytes :: int
  rr_content_encoding :: "string option"
  rr_declared_media_type :: "ustr option"
  rr_source_filename :: "ustr option"

definition retrieved_resource_ok :: "RetrievedResource \<Rightarrow> bool" where
  "retrieved_resource_ok r \<longleftrightarrow> 100 \<le> rr_http_status r \<and> rr_http_status r \<le> 599
     \<and> \<not> (rr_wire_bytes r < 0 \<or> rr_entity_bytes r < 0) \<and> \<not> 10 < length (rr_redirect_chain r)"

text \<open>\<open>SafeFetchResponse.metadata\<close>; \<open>None\<close> is the \<open>ValueError\<close> of the constructor.\<close>

definition response_metadata :: "SafeFetchResponse \<Rightarrow> FetchCounters \<Rightarrow> RetrievedResource option" where
  "response_metadata resp c = (let r = \<lparr>rr_requested_url = sr_requested_url resp, rr_final_url = sr_final_url resp,
       rr_http_status = sr_http_status resp, rr_redirect_chain = sr_redirect_chain resp,
       rr_wire_bytes = fc_wire_bytes c, rr_entity_bytes = fc_entity_bytes c,
       rr_content_encoding = sr_content_encoding resp, rr_declared_media_type = sr_declared_media_type resp,
       rr_source_filename = sr_source_filename resp\<rparr>
     in if retrieved_resource_ok r then Some r else None)"

subsection \<open>Results (application/retrieval/models.py)\<close>

record RetrievalItemResult =
  ri_requested_url :: ustr
  ri_final_url :: ustr
  ri_http_status :: int
  ri_redirect_chain :: "RedirectHop list"
  ri_wire_bytes :: int
  ri_entity_bytes :: int
  ri_content_encoding :: "string option"
  ri_raw_content :: ContentRef
  ri_inspection :: "ContentInspection option"
  ri_native_content :: "ContentRef option"
  ri_available_representations :: "ContentRef list"
  ri_preview :: "ustr option"

definition retrieval_item_ok :: "RetrievalItemResult \<Rightarrow> bool" where
  "retrieval_item_ok d \<longleftrightarrow> 1 \<le> length (ri_requested_url d) \<and> length (ri_requested_url d) \<le> 8192
     \<and> 1 \<le> length (ri_final_url d) \<and> length (ri_final_url d) \<le> 8192
     \<and> 100 \<le> ri_http_status d \<and> ri_http_status d \<le> 599 \<and> length (ri_redirect_chain d) \<le> 10
     \<and> 0 \<le> ri_wire_bytes d \<and> 0 \<le> ri_entity_bytes d
     \<and> (case ri_content_encoding d of None \<Rightarrow> True | Some x \<Rightarrow> length x \<le> 64)
     \<and> length (ri_available_representations d) \<le> 32
     \<and> (case ri_preview d of None \<Rightarrow> True | Some x \<Rightarrow> length x \<le> 12000)"

subsection \<open>Phases (application/retrieval/retry.py)\<close>

fun phase_order :: "RetrievalExecutionPhase \<Rightarrow> nat" where
  "phase_order PH_VALIDATED = 0"
| "phase_order PH_DNS_RESOLVING = 1"
| "phase_order PH_CONNECTING = 2"
| "phase_order PH_DISPATCH_POSSIBLE = 3"
| "phase_order PH_RESPONSE_HEADERS = 4"
| "phase_order PH_BODY_STREAMING = 5"
| "phase_order PH_CONTENT_CREATING = 6"
| "phase_order PH_CONTENT_STAGING = 7"
| "phase_order PH_CONTENT_FINALIZED = 8"
| "phase_order PH_PROCESSING = 9"
| "phase_order PH_TERMINAL = 10"

record RetrievalPhaseTracker =
  tr_phase :: "RetrievalExecutionPhase option"
  tr_dispatch_possible :: bool
  tr_resource_creation_possible :: bool

definition new_tracker :: RetrievalPhaseTracker where
  "new_tracker = \<lparr>tr_phase = None, tr_dispatch_possible = False, tr_resource_creation_possible = False\<rparr>"

definition advance :: "RetrievalExecutionPhase \<Rightarrow> RetrievalPhaseTracker \<Rightarrow> RetrievalPhaseTracker option" where
  "advance ph tr = (if tr_phase tr = Some PH_TERMINAL then None
     else if (case tr_phase tr of None \<Rightarrow> False | Some p \<Rightarrow> phase_order ph < phase_order p) then None
     else Some \<lparr>tr_phase = Some ph,
       tr_dispatch_possible = (phase_order PH_DISPATCH_POSSIBLE \<le> phase_order ph \<or> tr_dispatch_possible tr),
       tr_resource_creation_possible =
         (phase_order PH_CONTENT_CREATING \<le> phase_order ph \<or> tr_resource_creation_possible tr)\<rparr>)"

definition execution_stage :: "RetrievalPhaseTracker \<Rightarrow> ExecutionStage" where
  "execution_stage tr = (if tr_phase tr = Some PH_TERMINAL then TERMINAL_KNOWN
     else if tr_resource_creation_possible tr then SIDE_EFFECT_POSSIBLE
     else if tr_dispatch_possible tr then DISPATCHED
     else BEFORE_DISPATCH)"

definition tracker_effects :: "RetrievalPhaseTracker \<Rightarrow> OperationEffects" where
  "tracker_effects tr = no_effects\<lparr>ef_resource_creation_possible := tr_resource_creation_possible tr\<rparr>"

definition phase_value :: "RetrievalPhaseTracker \<Rightarrow> string" where
  "phase_value tr = phase_name (case tr_phase tr of None \<Rightarrow> PH_VALIDATED | Some p \<Rightarrow> p)"

definition internal_fetch_retry_allowed :: "RetrievalPhaseTracker \<Rightarrow> bool \<Rightarrow> bool" where
  "internal_fetch_retry_allowed tr error_retryable =
     automatic_retry_allowed PHASE_EVIDENCE_REQUIRED (execution_stage tr) (tracker_effects tr) error_retryable False"

subsection \<open>One item (application/retrieval/service.py)\<close>

text \<open>The service with what it talks to. Per item index: the fetcher's environment and the readings of
  the clock at its requests.\<close>

record 'z retrieval_service =
  rs_settings :: RetrievalSettings
  rs_policy :: url_policy
  rs_env :: "int \<Rightarrow> fetch_env"
  rs_clock :: "int \<Rightarrow> nat \<Rightarrow> Clock"
  rs_zlib :: "'z zlib"
  rs_decoder :: "string \<Rightarrow> 'z"
  rs_content :: content_service

definition item_env :: "'z retrieval_service \<Rightarrow> ExecutionContext \<Rightarrow> int \<Rightarrow> fetch_env" where
  "item_env sv cx i = (rs_env sv i)\<lparr>fv_remaining := (\<lambda>n. remaining_seconds (cx_deadline cx) (rs_clock sv i n))\<rparr>"

text \<open>The exceptions of an item: those of the fetcher, those of the Content service, and the
  \<open>ValueError\<close>s of value constructors.\<close>

datatype retrieval_exc = RxFetch fetch_exc | RxContent content_exc | RxValue

text \<open>The body is consumed while the Content service stages it; what its generator raises comes out of
  \<open>ingest\<close>. The names identify the classes a body can raise.\<close>

fun body_exc_name :: "fetch_exc \<Rightarrow> string" where
  "body_exc_name ResponseTooLarge = ''ResponseTooLarge''"
| "body_exc_name DecompressionLimitExceeded = ''DecompressionLimitExceeded''"
| "body_exc_name RetrievalConnectionError = ''RetrievalConnectionError''"
| "body_exc_name FetchTimeout = ''TimeoutError''"
| "body_exc_name e = ''Exception''"

definition body_exc_of :: "string \<Rightarrow> fetch_exc" where
  "body_exc_of x = (if x = ''ResponseTooLarge'' then ResponseTooLarge
     else if x = ''DecompressionLimitExceeded'' then DecompressionLimitExceeded
     else if x = ''RetrievalConnectionError'' then RetrievalConnectionError
     else if x = ''TimeoutError'' then FetchTimeout else FetchOther)"

fun ingest_exc :: "content_exc \<Rightarrow> retrieval_exc" where
  "ingest_exc (ExcStore (StreamRaised x)) = RxFetch (body_exc_of x)"
| "ingest_exc e = RxContent e"

definition body_stream :: "bytes list \<times> (fetch_exc + unit) \<times> FetchCounters \<Rightarrow> stream_event list" where
  "body_stream out = (case out of (ys, res, c) \<Rightarrow>
     map Chunk ys @ (case res of Inl e \<Rightarrow> [Raises (body_exc_name e)] | Inr _ \<Rightarrow> []))"

type_synonym item_world = "RetrievalPhaseTracker \<times> world"
type_synonym 'a rio = "item_world \<Rightarrow> (retrieval_exc + 'a) \<times> item_world"

definition to_phase :: "RetrievalExecutionPhase \<Rightarrow> unit rio" where
  "to_phase ph s = (case advance ph (fst s) of None \<Rightarrow> (Inl RxValue, s) | Some tr \<Rightarrow> (Inr (), (tr, snd s)))"

fun to_phases :: "RetrievalExecutionPhase list \<Rightarrow> unit rio" where
  "to_phases [] s = (Inr (), s)"
| "to_phases (ph # phs) s = try_seq (to_phase ph s) (\<lambda>_. to_phases phs)"

definition content_call :: "(content_exc \<Rightarrow> retrieval_exc) \<Rightarrow> 'a io \<Rightarrow> 'a rio" where
  "content_call f m s = (case m (snd s) of
     (Inl e, w) \<Rightarrow> (Inl (f e), (fst s, w)) | (Inr x, w) \<Rightarrow> (Inr x, (fst s, w)))"

definition value_check :: "bool \<Rightarrow> 'a \<Rightarrow> 'a rio" where
  "value_check ok x s = ((if ok then Inr x else Inl RxValue), s)"

definition acquire_response :: "'z retrieval_service \<Rightarrow> ExecutionContext \<Rightarrow> int \<Rightarrow> ustr \<Rightarrow> SafeFetchResponse rio" where
  "acquire_response sv cx i url s =
     try_seq (to_phases [PH_VALIDATED, PH_DNS_RESOLVING, PH_CONNECTING, PH_DISPATCH_POSSIBLE] s) (\<lambda>_ s.
       (case fst (fetch_url (item_env sv cx i) (rs_policy sv) (rs_settings sv) url) of
          Inl e \<Rightarrow> Inl (RxFetch e) | Inr resp \<Rightarrow> Inr resp, s))"

definition response_body ::
  "'z retrieval_service \<Rightarrow> SafeFetchResponse \<Rightarrow> bytes list \<times> (fetch_exc + unit) \<times> FetchCounters" where
  "response_body sv resp = fetch_body (rs_zlib sv) (rs_decoder sv) (rs_settings sv) resp"

definition ingest_response :: "'z retrieval_service \<Rightarrow> ExecutionContext \<Rightarrow> SafeFetchResponse \<Rightarrow> ContentRef rio" where
  "ingest_response sv cx resp s =
     try_seq (to_phases [PH_RESPONSE_HEADERS, PH_BODY_STREAMING, PH_CONTENT_CREATING, PH_CONTENT_STAGING] s) (\<lambda>_ s.
     try_seq (content_call ingest_exc (ingest cx (body_stream (response_body sv resp)) RAW
         (map_option (map char_of) (sr_declared_media_type resp)) (sr_source_filename resp)) s) (\<lambda>raw s.
     try_seq (to_phase PH_CONTENT_FINALIZED s) (\<lambda>_ s. (Inr raw, s))))"

text \<open>The inner \<open>try\<close>: what was obtained before an exception, and the exception with the processing code
  of that moment. A cancellation is no \<open>Exception\<close> and passes.\<close>

record processed =
  pr_inspection :: "ContentInspection option"
  pr_native :: "ContentRef option"
  pr_representations :: "ContentRef list"
  pr_pwarnings :: "Warning list"
  pr_phints :: "StructuredHint list"
  pr_failure :: "(string \<times> retrieval_exc) option"

definition unprocessed :: processed where
  "unprocessed = \<lparr>pr_inspection = None, pr_native = None, pr_representations = [], pr_pwarnings = [],
     pr_phints = [], pr_failure = None\<rparr>"

definition caught :: "processed \<Rightarrow> string \<Rightarrow> retrieval_exc \<Rightarrow> item_world \<Rightarrow> (retrieval_exc + processed) \<times> item_world" where
  "caught p code e s = (if e = RxContent ExcCancelled then (Inl e, s) else (Inr (p\<lparr>pr_failure := Some (code, e)\<rparr>), s))"

definition native_step :: "'z retrieval_service \<Rightarrow> ExecutionContext \<Rightarrow> ContentRef \<Rightarrow> processed \<Rightarrow> processed rio" where
  "native_step sv cx raw p s =
     (case content_call RxContent (native_parse (rs_content sv) cx (cr_content_id raw)) s of
        (Inl e, s) \<Rightarrow> caught p ''native_processing_failed'' e s
      | (Inr parsed, s) \<Rightarrow> (Inr (p\<lparr>pr_representations := np_representations parsed,
          pr_native := (case np_representations parsed of [] \<Rightarrow> None | r # _ \<Rightarrow> Some r),
          pr_pwarnings := np_warnings parsed, pr_phints := np_hints parsed\<rparr>), s))"

definition process_content ::
  "'z retrieval_service \<Rightarrow> ExecutionContext \<Rightarrow> RetrievalProcessingLevel \<Rightarrow> ContentRef \<Rightarrow> processed rio" where
  "process_content sv cx level raw s =
     (if level = STORE_ONLY then (Inr unprocessed, s)
      else case try_seq (to_phase PH_PROCESSING s) (\<lambda>_.
             content_call RxContent (inspect (rs_content sv) cx (cr_content_id raw))) of
        (Inl e, s) \<Rightarrow> caught unprocessed ''content_inspection_failed'' e s
      | (Inr insp, s) \<Rightarrow> (let p = unprocessed\<lparr>pr_inspection := Some insp\<rparr> in
          if level = NATIVE then native_step sv cx raw p s else (Inr p, s)))"

definition retrieval_data :: "RetrievedResource \<Rightarrow> ContentRef \<Rightarrow> processed \<Rightarrow> RetrievalItemResult" where
  "retrieval_data m raw p = \<lparr>ri_requested_url = rr_requested_url m, ri_final_url = rr_final_url m,
     ri_http_status = rr_http_status m, ri_redirect_chain = rr_redirect_chain m, ri_wire_bytes = rr_wire_bytes m,
     ri_entity_bytes = rr_entity_bytes m, ri_content_encoding = rr_content_encoding m, ri_raw_content = raw,
     ri_inspection = pr_inspection p, ri_native_content = pr_native p,
     ri_available_representations = pr_representations p, ri_preview = None\<rparr>"

fun processing_error :: "string \<Rightarrow> retrieval_exc \<Rightarrow> OperationError" where
  "processing_error code (RxContent ExcParserTimeout) = op_error TIMEOUT ''parser_timeout''"
| "processing_error code (RxContent (ExcProcessing None)) = op_error INTERNAL ''native_processing_failed''"
| "processing_error code (RxContent (ExcProcessing (Some c))) = op_error INTERNAL c"
| "processing_error code e = op_error INTERNAL code"

definition checked_item :: "RetrievalItemResult BatchItemResult \<Rightarrow> RetrievalItemResult BatchItemResult rio" where
  "checked_item item = value_check (batch_item_ok item
     \<and> (case bi_error item of None \<Rightarrow> True | Some e \<Rightarrow> operation_error_ok e)) item"

text \<open>The item when processing failed, and when it did not.\<close>

definition failed_processing ::
  "int \<Rightarrow> SafeFetchResponse \<Rightarrow> FetchCounters \<Rightarrow> ContentRef \<Rightarrow> processed \<Rightarrow> string \<Rightarrow> retrieval_exc
     \<Rightarrow> RetrievalItemResult BatchItemResult rio" where
  "failed_processing i resp c raw p code e s = (case response_metadata resp c of None \<Rightarrow> (Inl RxValue, s)
   | Some m \<Rightarrow> try_seq (to_phase PH_TERMINAL s) (\<lambda>_ s.
       try_seq (value_check (retrieval_item_ok (retrieval_data m raw p)) (retrieval_data m raw p) s) (\<lambda>d.
       checked_item \<lparr>bi_index = i, bi_outcome = LO_FAILED, bi_data = Some d, bi_error = Some (processing_error code e),
         bi_warnings = [warning (oe_code (processing_error code e))], bi_hints = []\<rparr>)))"

definition http_status_error :: "int \<Rightarrow> OperationError" where
  "http_status_error status = (op_error UPSTREAM ''upstream_http_status'')\<lparr>oe_retryable := 500 \<le> status,
     oe_details := Some [(''http_status'', DetailInt status)]\<rparr>"

definition completed_item ::
  "int \<Rightarrow> SafeFetchResponse \<Rightarrow> FetchCounters \<Rightarrow> ContentRef \<Rightarrow> processed \<Rightarrow> RetrievalItemResult BatchItemResult rio" where
  "completed_item i resp c raw p s = (case response_metadata resp c of None \<Rightarrow> (Inl RxValue, s)
   | Some m \<Rightarrow>
       try_seq (value_check (retrieval_item_ok (retrieval_data m raw p)) (retrieval_data m raw p) s) (\<lambda>d s.
       try_seq (to_phase PH_TERMINAL s) (\<lambda>_.
         if 200 \<le> rr_http_status m \<and> rr_http_status m < 300
         then checked_item \<lparr>bi_index = i, bi_outcome = LO_SUCCEEDED, bi_data = Some d, bi_error = None,
                bi_warnings = pr_pwarnings p, bi_hints = pr_phints p\<rparr>
         else checked_item \<lparr>bi_index = i, bi_outcome = LO_FAILED, bi_data = Some d,
                bi_error = Some (http_status_error (rr_http_status m)),
                bi_warnings = pr_pwarnings p, bi_hints = pr_phints p\<rparr>)))"

definition fetch_item_try ::
  "'z retrieval_service \<Rightarrow> ExecutionContext \<Rightarrow> int \<Rightarrow> ustr \<Rightarrow> RetrievalProcessingLevel
     \<Rightarrow> RetrievalItemResult BatchItemResult rio" where
  "fetch_item_try sv cx i url level s =
     try_seq (acquire_response sv cx i url s) (\<lambda>resp s.
     try_seq (ingest_response sv cx resp s) (\<lambda>raw s.
     try_seq (process_content sv cx level raw s) (\<lambda>p.
       let c = snd (snd (response_body sv resp)) in
       case pr_failure p of
         Some (code, e) \<Rightarrow> failed_processing i resp c raw p code e
       | None \<Rightarrow> completed_item i resp c raw p)))"

definition retrieval_error_item ::
  "int \<Rightarrow> LeafOutcome \<Rightarrow> ErrorCategory \<Rightarrow> string \<Rightarrow> (string \<times> DetailValue) list option \<Rightarrow> RetrievalItemResult BatchItemResult" where
  "retrieval_error_item i oc cat code details = \<lparr>bi_index = i, bi_outcome = oc, bi_data = None,
     bi_error = Some ((op_error cat code)\<lparr>oe_details := details\<rparr>), bi_warnings = [], bi_hints = []\<rparr>"

text \<open>The handlers, in the order of the source; \<open>RedirectBlocked\<close> is a \<open>RetrievalPolicyError\<close> with a code of
  its own.\<close>

fun handler_of :: "RetrievalPhaseTracker \<Rightarrow> retrieval_exc \<Rightarrow> LeafOutcome \<times> ErrorCategory \<times> string" where
  "handler_of tr (RxFetch RetrievalPolicyError) = (LO_REJECTED, POLICY, ''retrieval_url_blocked'')"
| "handler_of tr (RxFetch RedirectBlocked) = (LO_REJECTED, POLICY, ''redirect_blocked'')"
| "handler_of tr (RxFetch TooManyRedirects) = (LO_FAILED, UPSTREAM, ''too_many_redirects'')"
| "handler_of tr (RxFetch ResponseTooLarge) = (LO_FAILED, CAPACITY, ''response_too_large'')"
| "handler_of tr (RxFetch DecompressionLimitExceeded) = (LO_FAILED, CAPACITY, ''decompression_limit'')"
| "handler_of tr (RxFetch UnsupportedContentEncoding) = (LO_FAILED, UNSUPPORTED, ''unsupported_content_encoding'')"
| "handler_of tr (RxFetch FetchTimeout) = (LO_FAILED, TIMEOUT, ''retrieval_timeout'')"
| "handler_of tr (RxFetch RetrievalConnectionError) = (LO_FAILED, UPSTREAM, ''retrieval_transport_error'')"
| "handler_of tr e = (if tr_resource_creation_possible tr
     then (LO_UNKNOWN, UNKNOWN_OUTCOME, ''retrieval_resource_outcome_unknown'')
     else (LO_FAILED, INTERNAL, ''retrieval_internal_error''))"

definition handled_item :: "int \<Rightarrow> RetrievalPhaseTracker \<Rightarrow> retrieval_exc \<Rightarrow> RetrievalItemResult BatchItemResult" where
  "handled_item i tr e = (case handler_of tr e of (oc, cat, code) \<Rightarrow>
     retrieval_error_item i oc cat code (Some [(''retrieval_phase'', DetailStr (phase_value tr))]))"

definition fetch_item ::
  "'z retrieval_service \<Rightarrow> ExecutionContext \<Rightarrow> int \<Rightarrow> ustr \<Rightarrow> RetrievalProcessingLevel
     \<Rightarrow> RetrievalItemResult BatchItemResult io" where
  "fetch_item sv cx i url level w = (case fetch_item_try sv cx i url level (new_tracker, w) of
     (Inr item, s) \<Rightarrow> (Inr item, snd s)
   | (Inl e, s) \<Rightarrow> if e = RxContent ExcCancelled then (Inl ExcCancelled, snd s)
       else (Inr (handled_item i (fst s) e), snd s))"

subsection \<open>A batch\<close>

definition run_retrieval ::
  "'z retrieval_service \<Rightarrow> ExecutionContext \<Rightarrow> RetrievalProcessingLevel \<Rightarrow> int \<Rightarrow> ustr
     \<Rightarrow> RetrievalItemResult BatchItemResult io" where
  "run_retrieval sv cx level i url w = (if cx_cancel_requested cx
     then (Inr (retrieval_error_item i LO_CANCELLED CANCELLED_CATEGORY ''retrieval_cancelled'' None), w)
     else fetch_item sv cx i url level w)"

text \<open>A Content is only touched by the item that created it.\<close>

definition gather_retrievals ::
  "'z retrieval_service \<Rightarrow> ExecutionContext \<Rightarrow> RetrievalProcessingLevel \<Rightarrow> ustr list
     \<Rightarrow> RetrievalItemResult BatchItemResult list io" where
  "gather_retrievals sv cx level = gather_all (run_retrieval sv cx level) 0"

definition retrieval_aggregate_error ::
  "OperationOutcome \<Rightarrow> RetrievalItemResult BatchItemResult list \<Rightarrow> OperationError option" where
  "retrieval_aggregate_error outcome items =
     (let candidates = (if outcome = OO_UNKNOWN then filter (\<lambda>x. bi_outcome x = LO_UNKNOWN) items
        else if outcome = OO_REJECTED then filter (\<lambda>x. bi_outcome x = LO_REJECTED) items
        else if outcome = OO_CANCELLED then filter (\<lambda>x. bi_outcome x = LO_CANCELLED) items
        else items)
      in case filter (\<lambda>x. bi_error x \<noteq> None) candidates of [] \<Rightarrow> None | x # _ \<Rightarrow> bi_error x)"

definition retrieval_context :: "'z retrieval_service \<Rightarrow> ExecutionContext \<Rightarrow> world \<Rightarrow> ExecutionContext" where
  "retrieval_context sv cx w = (let
     p = cx_principal cx;
     cx1 = cx\<lparr>cx_principal := \<lparr>pc_principal_id = pc_principal_id p,
       pc_scopes = pc_scopes p \<union> {''content:read'', ''content:write''}, pc_registry_revision = None\<rparr>\<rparr>
   in case cx_deadline cx of Some d \<Rightarrow> cx1
      | None \<Rightarrow> cx1\<lparr>cx_deadline := deadline_after (w_clock w) (rt_operation_timeout_seconds (rs_settings sv))\<rparr>)"

definition retrieval_fetch ::
  "'z retrieval_service \<Rightarrow> ExecutionContext \<Rightarrow> ustr list \<Rightarrow> RetrievalProcessingLevel
     \<Rightarrow> RetrievalItemResult BatchItemResult list OperationResult io" where
  "retrieval_fetch sv cx urls level w =
     try_seq (auth_check (require_scope (cx_principal cx) ''retrieval:read''), w) (\<lambda>_ w.
     try_seq (gather_retrievals sv (retrieval_context sv cx w) level urls w) (\<lambda>items w.
     case aggregate_batch_outcome (map bi_outcome items) of Inl _ \<Rightarrow> (Inl ExcValue, w)
     | Inr outcome \<Rightarrow>
         if outcome \<in> {OO_SUCCEEDED, OO_PARTIAL_SUCCESS}
         then (Inr \<lparr>or_operation_id = cx_operation_id cx, or_outcome = outcome, or_data = Some items,
                 or_error = None, or_warnings = [], or_hints = []\<rparr>, w)
         else case retrieval_aggregate_error outcome items of None \<Rightarrow> (Inl ExcLifecycle, w)
              | Some e \<Rightarrow> (Inr \<lparr>or_operation_id = cx_operation_id cx, or_outcome = outcome, or_data = Some items,
                  or_error = Some e, or_warnings = [], or_hints = []\<rparr>, w)))"

section \<open>What an item reports\<close>

subsection \<open>Phases\<close>

text \<open>The tracker of an item where each call happens.\<close>

abbreviation at_phase :: "RetrievalExecutionPhase \<Rightarrow> bool \<Rightarrow> RetrievalPhaseTracker" where
  "at_phase ph created \<equiv> \<lparr>tr_phase = Some ph, tr_dispatch_possible = True, tr_resource_creation_possible = created\<rparr>"

lemma to_phase_eq [simp]:
  "p \<noteq> PH_TERMINAL \<Longrightarrow> phase_order p \<le> phase_order ph \<Longrightarrow>
     to_phase ph (at_phase p created, w)
     = (Inr (), (at_phase ph (phase_order PH_CONTENT_CREATING \<le> phase_order ph \<or> created), w))"
  by (simp add: to_phase_def advance_def)

lemma acquire_response_eq:
  "acquire_response sv cx i url (new_tracker, w) =
     (case fst (fetch_url (item_env sv cx i) (rs_policy sv) (rs_settings sv) url) of
        Inl e \<Rightarrow> Inl (RxFetch e) | Inr resp \<Rightarrow> Inr resp, (at_phase PH_DISPATCH_POSSIBLE False, w))"
  by (simp add: acquire_response_def to_phase_def advance_def new_tracker_def)

lemma ingest_response_eq:
  "ingest_response sv cx resp (at_phase PH_DISPATCH_POSSIBLE False, w) =
     (case ingest cx (body_stream (response_body sv resp)) RAW
         (map_option (map char_of) (sr_declared_media_type resp)) (sr_source_filename resp) w of
        (Inl e, w') \<Rightarrow> (Inl (ingest_exc e), (at_phase PH_CONTENT_STAGING True, w'))
      | (Inr raw, w') \<Rightarrow> (Inr raw, (at_phase PH_CONTENT_FINALIZED True, w')))"
  by (simp add: ingest_response_def content_call_def split: prod.split sum.split)

lemma content_call_keeps: "keeps m \<Longrightarrow> world_ok w \<Longrightarrow> world_ok (snd (snd (content_call f m (tr, w))))"
  using keepsD [of m w] by (auto simp: content_call_def split: prod.split sum.split)

lemma content_call_tracker [simp]: "fst (snd (content_call f m s)) = fst s"
  by (simp add: content_call_def split: prod.split sum.split)

lemma process_content_tracker:
  assumes "process_content sv cx level raw (at_phase PH_CONTENT_FINALIZED True, w) = (r, (tr, w'))"
  shows "tr \<in> {at_phase PH_CONTENT_FINALIZED True, at_phase PH_PROCESSING True}"
    and "world_ok w \<Longrightarrow> world_ok w'"
proof -
  let ?s = "(at_phase PH_PROCESSING True, w)"
  obtain ri wi where insp: "content_call RxContent (inspect (rs_content sv) cx (cr_content_id raw)) ?s
      = (ri, (at_phase PH_PROCESSING True, wi))"
    using content_call_tracker by (metis fst_conv prod.collapse)
  have keep: "world_ok wi" if "world_ok w"
    using content_call_keeps [OF inspect_keeps that] insp by (metis snd_conv)
  obtain rn wn where native: "content_call RxContent (native_parse (rs_content sv) cx (cr_content_id raw))
      (at_phase PH_PROCESSING True, wi) = (rn, (at_phase PH_PROCESSING True, wn))"
    using content_call_tracker by (metis fst_conv prod.collapse)
  have keepn: "world_ok wn" if "world_ok wi"
    using content_call_keeps [OF native_parse_keeps that] native by (metis snd_conv)
  have "level = STORE_ONLY \<Longrightarrow> (tr, w') = (at_phase PH_CONTENT_FINALIZED True, w)"
    "level \<noteq> STORE_ONLY \<Longrightarrow> (tr, w') = (at_phase PH_PROCESSING True, wi) \<or> (tr, w') = (at_phase PH_PROCESSING True, wn)"
    using assms insp native
    by (auto simp: process_content_def native_step_def caught_def Let_def split: sum.split_asm if_split_asm)
  then show "tr \<in> {at_phase PH_CONTENT_FINALIZED True, at_phase PH_PROCESSING True}" "world_ok w \<Longrightarrow> world_ok w'"
    using keep keepn by (cases "level = STORE_ONLY"; auto)+
qed

lemma body_exc_cases: "body_exc_of x \<notin> {RetrievalPolicyError, RedirectBlocked}"
  by (simp add: body_exc_of_def)

lemma ingest_exc_handler: "fst (handler_of tr (ingest_exc e)) \<noteq> LO_REJECTED"
  by (cases e rule: ingest_exc.cases) (simp_all add: body_exc_of_def)

subsection \<open>Items\<close>

text \<open>An item built from a stored response: it carries data that fit the response, and its outcome
  follows the status and the processing.\<close>

definition item_of_response ::
  "int \<Rightarrow> SafeFetchResponse \<Rightarrow> FetchCounters \<Rightarrow> ContentRef \<Rightarrow> RetrievalItemResult BatchItemResult \<Rightarrow> bool" where
  "item_of_response i resp c raw item \<longleftrightarrow> batch_item_ok item \<and> bi_index item = i
     \<and> (\<forall>e. bi_error item = Some e \<longrightarrow> operation_error_ok e)
     \<and> (\<exists>d. bi_data item = Some d \<and> retrieval_item_ok d \<and> ri_raw_content d = raw
          \<and> ri_http_status d = sr_http_status resp \<and> ri_wire_bytes d = fc_wire_bytes c
          \<and> ri_entity_bytes d = fc_entity_bytes c \<and> ri_redirect_chain d = sr_redirect_chain resp
          \<and> ri_requested_url d = sr_requested_url resp)
     \<and> (bi_outcome item = LO_FAILED
        \<or> bi_outcome item = LO_SUCCEEDED \<and> 200 \<le> sr_http_status resp \<and> sr_http_status resp < 300)"

lemma response_metadata_fields:
  "response_metadata resp c = Some m \<Longrightarrow> rr_http_status m = sr_http_status resp \<and> rr_wire_bytes m = fc_wire_bytes c
     \<and> rr_entity_bytes m = fc_entity_bytes c \<and> rr_redirect_chain m = sr_redirect_chain resp
     \<and> rr_requested_url m = sr_requested_url resp"
  by (auto simp: response_metadata_def Let_def split: if_split_asm)

lemma checked_item_Inr:
  "checked_item item s = (Inr x, s') \<longleftrightarrow> x = item \<and> s' = s \<and> batch_item_ok item
     \<and> (\<forall>e. bi_error item = Some e \<longrightarrow> operation_error_ok e)"
  by (auto simp: checked_item_def value_check_def split: option.split)

lemma value_check_Inr: "value_check ok x s = (Inr y, s') \<longleftrightarrow> ok \<and> y = x \<and> s' = s"
  by (auto simp: value_check_def)

lemma built_item:
  assumes "failed_processing i resp c raw p code e s = (Inr item, s') \<or> completed_item i resp c raw p s = (Inr item, s')"
  shows "item_of_response i resp c raw item"
proof -
  from assms obtain m where m: "response_metadata resp c = Some m"
    by (auto simp: failed_processing_def completed_item_def split: option.split_asm)
  from assms m response_metadata_fields [OF m] show ?thesis
    by (auto simp: failed_processing_def completed_item_def item_of_response_def res_simps value_check_Inr
        checked_item_Inr retrieval_data_def split: if_split_asm)
qed

text \<open>The end of an item acts on the tracker only.\<close>

lemma to_phase_world: "snd (snd (to_phase ph s)) = snd s"
  by (simp add: to_phase_def split: option.split)

lemma to_phase_created: "tr_resource_creation_possible (fst s) \<Longrightarrow> tr_resource_creation_possible (fst (snd (to_phase ph s)))"
  by (simp add: to_phase_def advance_def split: option.split)

lemma built_item_state:
  assumes "failed_processing i resp c raw p code e s = (r, s') \<or> completed_item i resp c raw p s = (r, s')"
    and "tr_resource_creation_possible (fst s)"
  shows "snd s' = snd s" "tr_resource_creation_possible (fst s')" "\<forall>x. r = Inl x \<longrightarrow> x = RxValue"
proof -
  obtain rt st where ph: "to_phase PH_TERMINAL s = (rt, st)" by (metis prod.exhaust)
  have st: "snd st = snd s" "tr_resource_creation_possible (fst st)" "\<forall>x. rt = Inl x \<longrightarrow> x = RxValue"
    using to_phase_world [of PH_TERMINAL s] to_phase_created [OF assms(2), of PH_TERMINAL] ph
    by (auto simp: to_phase_def split: option.split_asm)
  from assms(1) have "(s' = s \<or> s' = st) \<and> (\<forall>x. r = Inl x \<longrightarrow> x = RxValue)"
    using ph st(3)
    by (cases rt) (auto simp: failed_processing_def completed_item_def value_check_def checked_item_def
        split: option.split_asm if_split_asm)
  then show "snd s' = snd s" "tr_resource_creation_possible (fst s')" "\<forall>x. r = Inl x \<longrightarrow> x = RxValue"
    using st assms(2) by auto
qed

lemma process_content_Inl:
  "process_content sv cx level raw s = (Inl e, s') \<Longrightarrow> e = RxContent ExcCancelled"
  by (auto simp: process_content_def native_step_def caught_def Let_def split: prod.split_asm sum.split_asm if_split_asm)

abbreviation fetched :: "'z retrieval_service \<Rightarrow> ExecutionContext \<Rightarrow> int \<Rightarrow> ustr \<Rightarrow> fetch_exc + SafeFetchResponse" where
  "fetched sv cx i url \<equiv> fst (fetch_url (item_env sv cx i) (rs_policy sv) (rs_settings sv) url)"

abbreviation stored_response :: "'z retrieval_service \<Rightarrow> ExecutionContext \<Rightarrow> SafeFetchResponse \<Rightarrow> ContentRef io" where
  "stored_response sv cx resp \<equiv> ingest cx (body_stream (response_body sv resp)) RAW
     (map_option (map char_of) (sr_declared_media_type resp)) (sr_source_filename resp)"

lemma fetch_item_not_fetched:
  assumes "fetched sv cx i url = Inl e"
  shows "fetch_item sv cx i url level w = (Inr (handled_item i (at_phase PH_DISPATCH_POSSIBLE False) (RxFetch e)), w)"
  using assms by (simp add: fetch_item_def fetch_item_try_def acquire_response_eq)

lemma fetch_item_not_stored:
  assumes "fetched sv cx i url = Inr resp" "stored_response sv cx resp w = (Inl e, w')"
  shows "fetch_item sv cx i url level w =
    (if ingest_exc e = RxContent ExcCancelled then Inl ExcCancelled
     else Inr (handled_item i (at_phase PH_CONTENT_STAGING True) (ingest_exc e)), w')"
  using assms by (simp add: fetch_item_def fetch_item_try_def acquire_response_eq ingest_response_eq)

lemma fetch_item_stored:
  assumes "fetched sv cx i url = Inr resp" "stored_response sv cx resp w = (Inr raw, w1)"
    and "fetch_item sv cx i url level w = (r, w')"
  shows "(world_ok w1 \<longrightarrow> world_ok w')
    \<and> (r = Inl ExcCancelled
       \<or> (\<exists>item. r = Inr item \<and> item_of_response i resp (snd (snd (response_body sv resp))) raw item)
       \<or> (\<exists>tr. r = Inr (handled_item i tr RxValue) \<and> tr_resource_creation_possible tr))"
proof -
  let ?c = "snd (snd (response_body sv resp))"
  obtain rp trp wp where pr: "process_content sv cx level raw (at_phase PH_CONTENT_FINALIZED True, w1) = (rp, (trp, wp))"
    by (metis prod.exhaust)
  note tr = process_content_tracker [OF pr]
  have run: "fetch_item_try sv cx i url level (new_tracker, w) = try_seq (rp, (trp, wp)) (\<lambda>p.
       case pr_failure p of Some (code, e) \<Rightarrow> failed_processing i resp ?c raw p code e
       | None \<Rightarrow> completed_item i resp ?c raw p)"
    using assms(1,2) pr by (simp add: fetch_item_try_def acquire_response_eq ingest_response_eq Let_def)
  show ?thesis
  proof (cases rp)
    case (Inl e)
    then have "r = Inl ExcCancelled" "w' = wp"
      using assms(3) run process_content_Inl [OF pr [unfolded Inl]] by (auto simp: fetch_item_def)
    then show ?thesis using tr(2) by simp
  next
    case (Inr p)
    obtain re s' where last: "fetch_item_try sv cx i url level (new_tracker, w) = (re, s')" by (metis prod.exhaust)
    then have built: "\<exists>code e. failed_processing i resp ?c raw p code e (trp, wp) = (re, s')
        \<or> completed_item i resp ?c raw p (trp, wp) = (re, s')"
      using run Inr by (auto split: option.split_asm prod.split_asm)
    have "tr_resource_creation_possible (fst (trp, wp))" using tr(1) by auto
    with built built_item_state have st: "snd s' = wp" "tr_resource_creation_possible (fst s')" "\<forall>x. re = Inl x \<longrightarrow> x = RxValue"
      by (metis snd_conv)+
    have "w' = wp" using assms(3) last st(1) by (auto simp: fetch_item_def split: sum.split_asm if_split_asm)
    moreover have "item_of_response i resp ?c raw item" if "re = Inr item" for item
      using built built_item that by metis
    moreover have "r = (case re of Inr item \<Rightarrow> Inr item | Inl e \<Rightarrow> Inr (handled_item i (fst s') e))"
      using assms(3) last st(3) by (auto simp: fetch_item_def split: sum.split_asm if_split_asm)
    ultimately show ?thesis using tr(2) st(2,3) by (cases re) auto
  qed
qed

text \<open>What the handlers produce is well formed.\<close>

lemma machine_codes:
  "machine_code ''retrieval_url_blocked''" "machine_code ''redirect_blocked''" "machine_code ''too_many_redirects''"
  "machine_code ''response_too_large''" "machine_code ''decompression_limit''"
  "machine_code ''unsupported_content_encoding''" "machine_code ''retrieval_timeout''"
  "machine_code ''retrieval_transport_error''" "machine_code ''retrieval_resource_outcome_unknown''"
  "machine_code ''retrieval_internal_error''" "machine_code ''retrieval_cancelled''"
  by (simp_all add: machine_code_def machine_char_def)

lemma handler_of_code:
  "machine_code (snd (snd (handler_of tr e))) \<and> fst (handler_of tr e) \<notin> {LO_SUCCEEDED, LO_CANCELLED}
   \<and> (fst (handler_of tr e) = LO_UNKNOWN \<longrightarrow> tr_resource_creation_possible tr)
   \<and> (fst (handler_of tr e) = LO_REJECTED \<longrightarrow> e \<in> {RxFetch RetrievalPolicyError, RxFetch RedirectBlocked})"
  by (cases "(tr, e)" rule: handler_of.cases) (simp_all add: machine_codes)

lemma handled_item_fields:
  "bi_index (handled_item i tr e) = i" "bi_outcome (handled_item i tr e) = fst (handler_of tr e)"
  "bi_data (handled_item i tr e) = None" "0 \<le> i \<Longrightarrow> batch_item_ok (handled_item i tr e)"
  "bi_error (handled_item i tr e) = Some x \<Longrightarrow> operation_error_ok x"
  using handler_of_code [of tr e]
  by (cases "handler_of tr e"; auto simp: handled_item_def retrieval_error_item_def batch_item_ok_def
      operation_error_ok_def op_error_def)+

subsection \<open>The stored body\<close>

lemma consume_stream_chunks: "consume_stream (map Chunk ys) acc = Inr (acc @ concat ys)"
  by (induction ys arbitrary: acc) simp_all

lemma consume_stream_raises: "consume_stream (map Chunk ys @ Raises x # es) acc = Inl (StreamRaised x)"
  by (induction ys arbitrary: acc) simp_all

lemma publish_failed_Inl: "publish_failed cid rvn sb fb e w \<noteq> (Inr ref, w')"
  by (simp add: publish_failed_def res_simps)

lemma publish_reserved_staged:
  assumes "publish_reserved stream created w = (Inr ref, w')"
  shows "\<exists>sb w1. do_stage_write (content_id created) stream w = (Inr sb, w1)"
proof (cases "do_stage_write (content_id created) stream w")
  case (Pair r w1)
  then show ?thesis using assms publish_failed_Inl by (cases r) (auto simp: publish_reserved_def Let_def)
qed

lemma after_cleanup_Inl: "after_cleanup e q u \<noteq> (Inr x, u')"
  by (auto simp: after_cleanup_def Let_def split: sum.split if_split)

lemma do_stage_write_consumed:
  assumes "do_stage_write ident stream w = (Inr sb, w')"
  shows "\<exists>bs. consume_stream stream [] = Inr bs"
proof -
  obtain r t where st: "stage_write (w_tokens w (w_count w)) (w_now w) ident stream (w_fs w) = (r, t)"
      "lift_err ExcStore r = Inr sb"
    using await_Inr [OF assms [unfolded do_stage_write_def]]
    by (cases "stage_write (w_tokens w (w_count w)) (w_now w) ident stream (w_fs w)") auto
  then obtain sb' where "r = Inr sb'" by (cases r) auto
  with st(1) show ?thesis
    by (cases "consume_stream stream []") (auto simp: stage_write_def Let_def after_cleanup_Inl split: sum.split_asm if_split_asm)
qed

lemma ingest_consumed:
  assumes "ingest cx stream kind media filename w = (Inr ref, w')"
  shows "\<exists>bs. consume_stream stream [] = Inr bs"
proof -
  have "\<exists>created w1 w2. publish_reserved stream created w1 = (Inr ref, w2)"
    using assms by (auto simp: ingest_def publish_created_def Let_def res_simps split: prod.split_asm if_split_asm)
  then show ?thesis using publish_reserved_staged do_stage_write_consumed by blast
qed

lemma stored_body_complete:
  assumes "stored_response sv cx resp w = (Inr raw, w1)"
  shows "fst (snd (response_body sv resp)) = Inr ()"
proof -
  obtain ys res c where out: "response_body sv resp = (ys, res, c)" by (metis prod_cases3)
  show ?thesis
    using ingest_consumed [OF assms] out by (cases res) (auto simp: body_stream_def consume_stream_raises)
qed

subsection \<open>Metadata of a fetched response\<close>

lemma fetch_loop_response:
  "fetch_loop env pol st u c redirects = (Inr r, sent) \<Longrightarrow> \<exists>c' redirects' resp. safe_response env st u c' redirects' resp = Inr r"
proof (induction env pol st u c redirects arbitrary: sent rule: fetch_loop.induct)
  case (1 env pol st u c redirects)
  obtain resp hs where hop: "request_hop env pol st (length redirects) c = (Inr resp, hs)"
    using "1.prems" by (subst (asm) fetch_loop.simps) (auto split: prod.split_asm sum.split_asm)
  show ?case
  proof (cases "next_hop env pol st u c redirects resp")
    case (HopDone res)
    then have "res = Inr r" using "1.prems" hop by (subst (asm) fetch_loop.simps) (simp add: Let_def)
    then show ?thesis
      using HopDone unfolding next_hop_def Let_def by (auto split: if_split_asm option.split_asm sum.split_asm)
  next
    case (HopNext h)
    obtain res later where rec: "fetch_loop env pol st u (rh_to_url h) (redirects @ [h]) = (res, later)" by (metis prod.exhaust)
    have "res = Inr r" using "1.prems" [unfolded fetch_loop.simps [of env pol st u c redirects]] by (simp add: hop HopNext rec)
    then show ?thesis using "1.IH" [OF hop [symmetric] refl refl HopNext] rec by simp
  qed
qed

lemma body_loop_wire: "0 \<le> fc_wire_bytes c \<Longrightarrow> 0 \<le> fc_wire_bytes (snd (snd (body_loop zl st dec c es)))"
proof (induction zl st dec c es rule: body_loop.induct)
  case (5 zl st dec c wire es)
  define c1 where "c1 = c\<lparr>fc_wire_bytes := fc_wire_bytes c + int (length wire)\<rparr>"
  obtain dres c2 where dec: "decode_chunk zl st dec wire c1 = (dres, c2)" by (metis prod.exhaust)
  have wire: "fc_wire_bytes c2 = fc_wire_bytes c + int (length wire)"
    using dec by (auto simp: decode_chunk_def account_entity_def Let_def c1_def
        split: option.split_asm sum.split_asm if_split_asm)
  show ?case
  proof (cases "wire = [] \<or> fc_wire_bytes c1 > rt_max_wire_bytes st \<or> (\<exists>e. dres = Inl e)")
    case True
    then show ?thesis
      using "5.prems" wire dec
      by (auto simp: c1_def [symmetric] Let_def body_end_def account_entity_def
          split: option.split sum.split prod.split) (auto simp: c1_def)
  next
    case False
    then obtain entity dec' where dres: "dres = Inr (entity, dec')" by (cases dres) auto
    have "0 \<le> fc_wire_bytes (snd (snd (body_loop zl st dec' c2 es)))"
      using "5.IH" [OF _ c1_def _ dec [unfolded dres, symmetric] refl refl] False wire "5.prems" by simp
    then show ?thesis using False dec dres by (auto simp: c1_def [symmetric] Let_def split: prod.split)
  qed
qed (auto simp: body_end_def account_entity_def Let_def split: option.split sum.split prod.split)

lemma response_body_counters:
  assumes "retrieval_settings_ok (rs_settings sv)" "response_body sv resp = (ys, Inr (), c)"
  shows "fc_entity_bytes c = body_size ys" "0 \<le> fc_wire_bytes c"
proof -
  let ?c0 = "\<lparr>fc_wire_bytes = 0, fc_entity_bytes = 0\<rparr>"
  have "body_bounded (rs_settings sv) ?c0 (ys, Inr (), c)"
    using assms(1) unfolding assms(2) [symmetric] response_body_def fetch_body_def
    by (intro body_loop_bounded) (simp_all add: retrieval_settings_ok_def)
  then show "fc_entity_bytes c = body_size ys" by (simp add: body_bounded_def)
  show "0 \<le> fc_wire_bytes c"
    using body_loop_wire [of ?c0 "rs_zlib sv" "rs_settings sv" "map_option (rs_decoder sv) (sr_content_encoding resp)" "sr_body resp"]
      assms(2) by (simp add: response_body_def fetch_body_def)
qed

lemma fetched_metadata:
  assumes "retrieval_settings_ok (rs_settings sv)" "request_item_ok lib url"
    and "fetched sv cx i url = Inr resp" "response_body sv resp = (ys, Inr (), c)"
    and "100 \<le> sr_http_status resp" "sr_http_status resp \<le> 599"
    and "1 \<le> length (sr_final_url resp)" "length (sr_final_url resp) \<le> 8192"
  obtains m where "response_metadata resp c = Some m" "retrieval_item_ok (retrieval_data m raw unprocessed)"
proof -
  let ?st = "rs_settings sv"
  obtain sent where f: "fetch_loop (item_env sv cx i) (rs_policy sv) ?st url url [] = (Inr resp, sent)"
    using assms(3) by (metis fetch_url_def prod.collapse)
  note req = fetch_loop_requests [OF f, simplified]
  have "length sent = Suc (length (sr_redirect_chain resp))" using req by (metis length_map length_Cons)
  then have chain: "length (sr_redirect_chain resp) \<le> 10" "sr_requested_url resp = url"
    using req assms(1) by (auto simp: retrieval_settings_ok_def)
  have enc: "\<forall>x. sr_content_encoding resp = Some x \<longrightarrow> length x \<le> 64"
    using fetch_loop_response [OF f]
    by (auto simp: safe_response_def content_encoding_def res_simps Let_def split: if_split_asm option.split_asm)
  have cnt: "0 \<le> fc_wire_bytes c" "0 \<le> fc_entity_bytes c"
    using response_body_counters [OF assms(1,4)] by simp_all
  have "\<exists>m. response_metadata resp c = Some m \<and> retrieval_item_ok (retrieval_data m raw unprocessed)"
    using chain enc cnt assms(2,5-8)
    by (simp add: response_metadata_def Let_def retrieved_resource_ok_def retrieval_item_ok_def retrieval_data_def
        unprocessed_def request_item_ok_def split: option.split)
  then show thesis using that by blast
qed

lemma store_only_item:
  assumes "fetched sv cx i url = Inr resp" "response_body sv resp = (ys, Inr (), c)" "0 \<le> i"
    and "stored_response sv cx resp w = (Inr raw, w')"
    and "response_metadata resp c = Some m" "retrieval_item_ok (retrieval_data m raw unprocessed)"
  shows "fetch_item sv cx i url STORE_ONLY w =
    (Inr \<lparr>bi_index = i,
       bi_outcome = (if 200 \<le> sr_http_status resp \<and> sr_http_status resp < 300 then LO_SUCCEEDED else LO_FAILED),
       bi_data = Some (retrieval_data m raw unprocessed),
       bi_error = (if 200 \<le> sr_http_status resp \<and> sr_http_status resp < 300 then None
                   else Some (http_status_error (sr_http_status resp))),
       bi_warnings = [], bi_hints = []\<rparr>, w')"
proof -
  have code: "operation_error_ok (http_status_error n)" for n
    by (simp add: operation_error_ok_def http_status_error_def op_error_def machine_code_def machine_char_def)
  have status: "rr_http_status m = sr_http_status resp" using response_metadata_fields [OF assms(5)] by blast
  have "fetch_item_try sv cx i url STORE_ONLY (new_tracker, w) =
      completed_item i resp c raw unprocessed (at_phase PH_CONTENT_FINALIZED True, w')"
    using assms(1,2,4)
    by (simp add: fetch_item_try_def acquire_response_eq ingest_response_eq process_content_def unprocessed_def)
  then show ?thesis
    using assms(3,5,6) code status
    by (simp add: fetch_item_def completed_item_def value_check_def checked_item_def batch_item_ok_def unprocessed_def)
qed

subsection \<open>Properties\<close>

text \<open>A service over the demonstration server, whose second answer is the page.\<close>

definition demo_retrieval :: "unit retrieval_service" where
  "demo_retrieval = \<lparr>rs_settings = demo_retrieval_settings, rs_policy = demo_policy, rs_env = (\<lambda>_. demo_fetch_env),
     rs_clock = (\<lambda>i n. \<lparr>ck_utc_now = 0, ck_monotonic = 0\<rparr>), rs_zlib = demo_zlib, rs_decoder = (\<lambda>_. ()),
     rs_content = \<lparr>sv_identifier = None, sv_registry = None, sv_executor = None, sv_codec = None, sv_json_size = (\<lambda>_. 0),
       sv_chunk_size = 16, sv_inspection_sample_bytes = 65536, sv_max_inspection_json_bytes = 65536,
       sv_parser_input_bytes = 65536, sv_representation_wait_seconds = 10, sv_representation_poll_seconds = 1\<rparr>\<rparr>"

definition page_response :: SafeFetchResponse where
  "page_response = \<lparr>sr_requested_url = cps ''http://a.bc/'', sr_final_url = cps ''http://a.bc/y'', sr_http_status = 200,
     sr_redirect_chain = [\<lparr>rh_status = 302, rh_from_url = cps ''http://a.bc/'', rh_to_url = cps ''http://a.bc/y''\<rparr>],
     sr_content_encoding = None, sr_declared_media_type = None, sr_source_filename = Some (cps ''y''),
     sr_body = [ReadChunk [7, 8]]\<rparr>"

definition page_object :: ContentObject where
  "page_object = new_object demo_id demo_principal 100 RAW None (Some (cps ''y''))"

lemma page_fetched: "fetched demo_retrieval demo_context 0 (cps ''http://a.bc/'') = Inr page_response"
  by code_simp

lemma page_body: "response_body demo_retrieval page_response = ([[7, 8]], Inr (), \<lparr>fc_wire_bytes = 2, fc_entity_bytes = 2\<rparr>)"
  by code_simp

lemma page_checks:
  "content_object_ok page_object" "request_item_ok demo_lib (cps ''http://a.bc/'')"
  "retrieval_settings_ok (rs_settings demo_retrieval)"
  by code_simp+

lemma page_world:
  "page_object = new_object (w_ids (demo_world []) (w_count (demo_world []))) (cx_principal demo_context) (w_now (demo_world [])) RAW
     (map_option (map char_of) (sr_declared_media_type page_response)) (sr_source_filename page_response)"
  "content_id_ok (content_id page_object)" "content_id page_object \<notin> set (map row_id (db_rows (w_db (demo_world []))))"
  "staging_map (w_fs (demo_world [])) k = None" "blob_map (w_fs (demo_world [])) k = None" "w_sched (demo_world []) = []"
  using demo_names(1)
  by (simp_all add: page_object_def page_response_def demo_world_def demo_context_def new_object_def empty_db_def empty_store_maps)

text \<open>C22: Every item a retrieval returns is well formed and truthful. It is a valid batch item with the index
  of its request and a valid error; whatever faults the database, the store or the parser have, the
  item keeps database and store consistent. A REJECTED item comes from the egress policy and left
  the world untouched; an UNKNOWN one is only reported after a response was fetched; data are only
  returned for a body that was received completely and stored as the Content they name, with the
  exact byte counts of that response; SUCCEEDED means such data and a 2xx status.\<close>
theorem retrieval_item_truthful:
  assumes "fetch_item sv cx i url level w = (Inr item, w')" "0 \<le> i"
  shows "batch_item_ok item \<and> bi_index item = i \<and> bi_outcome item \<noteq> LO_CANCELLED
    \<and> (\<forall>e. bi_error item = Some e \<longrightarrow> operation_error_ok e)
    \<and> (world_ok w \<longrightarrow> world_ok w')
    \<and> (bi_outcome item = LO_REJECTED \<longrightarrow> w' = w \<and> bi_data item = None
         \<and> fetched sv cx i url \<in> {Inl RetrievalPolicyError, Inl RedirectBlocked})
    \<and> (bi_outcome item = LO_UNKNOWN \<longrightarrow> is_ok (fetched sv cx i url))
    \<and> (bi_outcome item = LO_SUCCEEDED \<longrightarrow> (\<exists>d. bi_data item = Some d \<and> 200 \<le> ri_http_status d \<and> ri_http_status d < 300))
    \<and> (\<forall>d. bi_data item = Some d \<longrightarrow> retrieval_item_ok d
         \<and> (\<exists>resp ys c w1. fetched sv cx i url = Inr resp \<and> response_body sv resp = (ys, Inr (), c)
              \<and> stored_response sv cx resp w = (Inr (ri_raw_content d), w1)
              \<and> ri_http_status d = sr_http_status resp
              \<and> ri_wire_bytes d = fc_wire_bytes c \<and> ri_entity_bytes d = fc_entity_bytes c))"
proof (cases "fetched sv cx i url")
  case (Inl e)
  then show ?thesis
    using assms handler_of_code [of "at_phase PH_DISPATCH_POSSIBLE False" "RxFetch e"]
    by (auto simp: fetch_item_not_fetched [OF Inl] handled_item_fields(1-4) dest: handled_item_fields(5))
next
  case fetched: (Inr resp)
  obtain st w1 where st: "stored_response sv cx resp w = (st, w1)" by (metis prod.exhaust)
  have keep: "world_ok w \<Longrightarrow> world_ok w1" using keepsD [OF ingest_keeps] st by (metis snd_conv)
  show ?thesis
  proof (cases st)
    case (Inl e)
    note it = fetch_item_not_stored [OF fetched st [unfolded Inl], of level, unfolded assms(1)]
    then have "item = handled_item i (at_phase PH_CONTENT_STAGING True) (ingest_exc e)" "w' = w1"
      by (auto split: if_split_asm)
    then show ?thesis
      using assms(2) fetched keep ingest_exc_handler [of "at_phase PH_CONTENT_STAGING True" e]
        handler_of_code [of "at_phase PH_CONTENT_STAGING True" "ingest_exc e"]
      by (auto simp: handled_item_fields(1-4) dest: handled_item_fields(5))
  next
    case (Inr raw)
    note stored = st [unfolded Inr]
    obtain ys c where body: "response_body sv resp = (ys, Inr (), c)"
      using stored_body_complete [OF stored] by (metis prod_cases3 fst_conv snd_conv)
    note it = fetch_item_stored [OF fetched stored assms(1)]
    then consider (built) "item_of_response i resp c raw item"
      | (late) tr where "item = handled_item i tr RxValue" "tr_resource_creation_possible tr"
      using body by auto
    then show ?thesis
    proof cases
      case built
      then show ?thesis using fetched stored body it keep by (auto simp: item_of_response_def)
    next
      case late
      then show ?thesis
        using fetched it keep assms(2)
        by (auto simp: handled_item_fields(1-4) dest: handled_item_fields(5))
    qed
  qed
qed


theorem retrieval_item_truthful_witness:
  "\<exists>item. fetch_item demo_retrieval demo_context 0 (cps ''http://127.0.0.1/'') STORE_ONLY (demo_world []) = (Inr item, demo_world [])
     \<and> bi_outcome item = LO_REJECTED \<and> batch_item_ok item
     \<and> fetched demo_retrieval demo_context 0 (cps ''http://127.0.0.1/'') \<in> {Inl RetrievalPolicyError, Inl RedirectBlocked}"
proof -
  have "fetched demo_retrieval demo_context 0 (cps ''http://127.0.0.1/'') = Inl RetrievalPolicyError" by code_simp
  note item = fetch_item_not_fetched [OF this, of STORE_ONLY "demo_world []"]
  from retrieval_item_truthful [OF item order_refl] item show ?thesis by (auto simp: handled_item_fields(2))
qed
text \<open>A retrieval stores what it fetched. Without faults, and for a response whose body came to its end, a
  store-only item creates one AVAILABLE Content of the caller whose bytes are the received body;
  the item succeeds exactly for a 2xx status, and otherwise fails with the data of the response.\<close>
theorem retrieval_stores_body:
  assumes "world_ok w" "w_sched w = []" "retrieval_settings_ok (rs_settings sv)" "request_item_ok lib url" "0 \<le> i"
    and "fetched sv cx i url = Inr resp" "response_body sv resp = (ys, Inr (), c)"
    and "100 \<le> sr_http_status resp" "sr_http_status resp \<le> 599"
    and "1 \<le> length (sr_final_url resp)" "length (sr_final_url resp) \<le> 8192"
    and "obj = new_object (w_ids w (w_count w)) (cx_principal cx) (w_now w) RAW
           (map_option (map char_of) (sr_declared_media_type resp)) (sr_source_filename resp)"
    and "content_id_ok (content_id obj)" "content_object_ok obj"
    and "content_id obj \<notin> set (map row_id (db_rows (w_db w)))"
    and "staging_map (w_fs w) (staging_handle (content_id obj) (w_tokens w (Suc (w_count w)))) = None"
    and "\<forall>b. blob_map (w_fs w) (key_of (sha256_hex (concat ys))) = Some b \<longrightarrow> length b = length (concat ys)"
  shows "\<exists>w' item d r b. fetch_item sv cx i url STORE_ONLY w = (Inr item, w') \<and> bi_data item = Some d
    \<and> bi_outcome item = (if 200 \<le> sr_http_status resp \<and> sr_http_status resp < 300 then LO_SUCCEEDED else LO_FAILED)
    \<and> ri_raw_content d = ref_of_bytes obj (concat ys) \<and> ri_entity_bytes d = int (length (concat ys))
    \<and> find_row (content_id obj) (w_db w') = Some r \<and> content r = published_object obj (concat ys)
    \<and> blob_map (w_fs w') (key_of (sha256_hex (concat ys))) = Some b \<and> length b = length (concat ys)
    \<and> (blob_map (w_fs w) (key_of (sha256_hex (concat ys))) = None \<longrightarrow> b = concat ys)"
proof -
  have stream: "body_stream (response_body sv resp) = map Chunk ys" "consume_stream (map Chunk ys) [] = Inr (concat ys)"
    by (simp_all add: assms(7) body_stream_def consume_stream_chunks)
  obtain w' r b where run: "stored_response sv cx resp w = (Inr (ref_of_bytes obj (concat ys)), w')"
    and "find_row (content_id obj) (w_db w') = Some r" "content r = published_object obj (concat ys)"
    and "blob_map (w_fs w') (key_of (sha256_hex (concat ys))) = Some b" "length b = length (concat ys)"
    and "blob_map (w_fs w) (key_of (sha256_hex (concat ys))) = None \<longrightarrow> b = concat ys"
    using ingest_success [OF assms(1,2,12-16) stream(2) assms(17)] unfolding stream(1) by (elim exE conjE)
  moreover obtain m where m: "response_metadata resp c = Some m"
      "retrieval_item_ok (retrieval_data m (ref_of_bytes obj (concat ys)) unprocessed)"
    using fetched_metadata [OF assms(3,4,6-11)] by metis
  moreover have "rr_entity_bytes m = int (length (concat ys))"
    using response_metadata_fields [OF m(1)] response_body_counters(1) [OF assms(3,7)] by (simp add: body_size_def)
  ultimately show ?thesis
    using store_only_item [OF assms(6,7,5) run m] by (simp add: retrieval_data_def)
qed

theorem retrieval_stores_body_witness:
  "\<exists>w' item d. fetch_item demo_retrieval demo_context 0 (cps ''http://a.bc/'') STORE_ONLY (demo_world []) = (Inr item, w')
     \<and> bi_outcome item = LO_SUCCEEDED \<and> bi_data item = Some d \<and> ri_raw_content d = ref_of_bytes page_object [7, 8]"
proof -
  have status: "sr_http_status page_response = 200" "100 \<le> sr_http_status page_response" "sr_http_status page_response \<le> 599"
    by (simp_all add: page_response_def)
  have final: "1 \<le> length (sr_final_url page_response)" "length (sr_final_url page_response) \<le> 8192"
    by (simp_all add: page_response_def cps_def)
  have blob: "\<forall>b. blob_map (w_fs (demo_world [])) (key_of (sha256_hex (concat [[7, 8]]))) = Some b \<longrightarrow> length b = length (concat [[7, 8 :: byte]])"
    by (simp only: page_world(5)) simp
  have bytes: "concat [[7, 8 :: byte]] = [7, 8]" by simp
  obtain w' item d where run:
    "fetch_item demo_retrieval demo_context 0 (cps ''http://a.bc/'') STORE_ONLY (demo_world []) = (Inr item, w')"
    "bi_data item = Some d" "ri_raw_content d = ref_of_bytes page_object [7, 8]"
    "bi_outcome item = (if 200 \<le> sr_http_status page_response \<and> sr_http_status page_response < 300 then LO_SUCCEEDED else LO_FAILED)"
    using retrieval_stores_body [OF demo_world_ok page_world(6) page_checks(3,2) order_refl page_fetched page_body status(2,3) final
        page_world(1,2) page_checks(1) page_world(3,4) blob] unfolding bytes by (elim exE conjE)
  then show ?thesis by (auto simp: status(1))
qed

text \<open>The trackers an item can have.\<close>

inductive tracked :: "RetrievalExecutionPhase list \<Rightarrow> RetrievalPhaseTracker \<Rightarrow> bool" where
  tracked_new: "tracked [] new_tracker"
| tracked_advance: "tracked phs tr \<Longrightarrow> advance ph tr = Some tr' \<Longrightarrow> tracked (phs @ [ph]) tr'"

lemma tracked_facts:
  "tracked phs tr \<Longrightarrow> tr_phase tr = (if phs = [] then None else Some (last phs))
     \<and> (tr_dispatch_possible tr \<longleftrightarrow> (\<exists>p \<in> set phs. phase_order PH_DISPATCH_POSSIBLE \<le> phase_order p))
     \<and> (tr_resource_creation_possible tr \<longleftrightarrow> (\<exists>p \<in> set phs. phase_order PH_CONTENT_CREATING \<le> phase_order p))
     \<and> sorted (map phase_order phs) \<and> PH_TERMINAL \<notin> set (butlast phs)"
proof (induction rule: tracked.induct)
  case (tracked_advance phs tr ph tr')
  have last: "\<forall>p \<in> set phs. phase_order p \<le> phase_order ph" "phs \<noteq> [] \<Longrightarrow> last phs \<noteq> PH_TERMINAL"
  proof -
    show "phs \<noteq> [] \<Longrightarrow> last phs \<noteq> PH_TERMINAL"
      using tracked_advance by (auto simp: advance_def)
    show "\<forall>p \<in> set phs. phase_order p \<le> phase_order ph"
    proof (cases phs rule: rev_cases)
      case (snoc qs q)
      then have "phase_order q \<le> phase_order ph" using tracked_advance by (auto simp: advance_def split: if_split_asm)
      moreover have "\<forall>p \<in> set qs. phase_order p \<le> phase_order q"
        using tracked_advance.IH snoc by (auto simp: sorted_append)
      ultimately show ?thesis using snoc by fastforce
    qed simp
  qed
  have "PH_TERMINAL \<notin> set phs"
    using tracked_advance.IH last(2) by (cases phs rule: rev_cases) auto
  with last tracked_advance show ?case
    by (auto simp: advance_def sorted_append split: if_split_asm option.split_asm)
qed (simp add: new_tracker_def)

text \<open>Retries follow the evidence of the phases. A tracker moves forward only and never leaves the terminal
  phase; an internal retry of an acquisition is allowed exactly for a retryable error while no
  phase from the possible dispatch on was entered, so never once a request may have left or
  a Content may exist.\<close>
theorem retry_only_before_dispatch:
  assumes "tracked phs tr"
  shows "sorted (map phase_order phs) \<and> PH_TERMINAL \<notin> set (butlast phs)
    \<and> (internal_fetch_retry_allowed tr retryable \<longleftrightarrow>
         retryable \<and> (\<forall>p \<in> set phs. phase_order p < phase_order PH_DISPATCH_POSSIBLE))"
proof -
  note facts = tracked_facts [OF assms]
  have "execution_stage tr = BEFORE_DISPATCH \<longleftrightarrow> (\<forall>p \<in> set phs. phase_order p < phase_order PH_DISPATCH_POSSIBLE)"
  proof (cases phs rule: rev_cases)
    case Nil
    then show ?thesis using facts by (simp add: execution_stage_def)
  next
    case (snoc ps q)
    have "phase_order q < 3 \<Longrightarrow> q \<noteq> PH_TERMINAL" by auto
    then have "execution_stage tr = BEFORE_DISPATCH \<longleftrightarrow> \<not> tr_dispatch_possible tr"
      using facts snoc by (auto simp: execution_stage_def not_le dest: less_le_trans)
    then show ?thesis using facts by (auto simp: not_le)
  qed
  then show ?thesis using facts by (auto simp: internal_fetch_retry_allowed_def automatic_retry_allowed_def)
qed

theorem retry_only_before_dispatch_witness:
  "\<exists>tr tr'. tracked [PH_VALIDATED] tr \<and> internal_fetch_retry_allowed tr True
     \<and> tracked [PH_VALIDATED, PH_DISPATCH_POSSIBLE] tr' \<and> \<not> internal_fetch_retry_allowed tr' True"
proof -
  have "tracked ([] @ [PH_VALIDATED]) (the (advance PH_VALIDATED new_tracker))"
    by (rule tracked_advance [OF tracked_new]) code_simp
  then have one: "tracked [PH_VALIDATED] (the (advance PH_VALIDATED new_tracker))" by simp
  have "tracked ([PH_VALIDATED] @ [PH_DISPATCH_POSSIBLE]) (the (advance PH_DISPATCH_POSSIBLE (the (advance PH_VALIDATED new_tracker))))"
    by (rule tracked_advance [OF one]) code_simp
  then have two: "tracked [PH_VALIDATED, PH_DISPATCH_POSSIBLE] (the (advance PH_DISPATCH_POSSIBLE (the (advance PH_VALIDATED new_tracker))))"
    by simp
  show ?thesis
    using retry_only_before_dispatch [OF one, of True] retry_only_before_dispatch [OF two, of True] one two by auto
qed

subsection \<open>Batches\<close>

lemma run_retrieval_item:
  assumes "0 \<le> i" "fst (run_retrieval sv cx level i url w) = Inr item"
  shows "batch_item_ok item \<and> bi_index item = i"
proof (cases "fetched sv cx i url")
  case (Inl e)
  then show ?thesis
    using assms handled_item_fields(1,4) [of i "at_phase PH_DISPATCH_POSSIBLE False" "RxFetch e"]
    by (auto simp: run_retrieval_def fetch_item_not_fetched [OF Inl] retrieval_error_item_def batch_item_ok_def
        op_error_def split: if_split_asm)
next
  case fetched: (Inr resp)
  obtain st w1 where st: "stored_response sv cx resp w = (st, w1)" by (metis prod.exhaust)
  obtain r w' where it: "fetch_item sv cx i url level w = (r, w')" by (metis prod.exhaust)
  have "batch_item_ok item \<and> bi_index item = i" if "r = Inr item"
  proof (cases st)
    case (Inl e)
    then show ?thesis
      using fetch_item_not_stored [OF fetched st [unfolded Inl], of level] it that assms(1)
      by (auto simp: handled_item_fields split: if_split_asm)
  next
    case (Inr raw)
    then show ?thesis
      using fetch_item_stored [OF fetched st [unfolded Inr] it] that assms(1)
      by (auto simp: handled_item_fields item_of_response_def)
  qed
  then show ?thesis
    using assms it by (auto simp: run_retrieval_def retrieval_error_item_def batch_item_ok_def split: if_split_asm)
qed

lemma retrieval_aggregate_error_item:
  assumes "list_all batch_item_ok items" "aggregate_batch_outcome (map bi_outcome items) = Inr oc"
    and "oc \<notin> {OO_SUCCEEDED, OO_PARTIAL_SUCCESS}"
  shows "\<exists>item \<in> set items. \<exists>e. bi_error item = Some e \<and> retrieval_aggregate_error oc items = Some e
     \<and> (oc = OO_UNKNOWN \<longrightarrow> bi_outcome item = LO_UNKNOWN)"
proof -
  have ne: "items \<noteq> []" using assms(2) by (auto simp: aggregate_batch_outcome_def)
  have oc: "oc = aggregate_of_set (bi_outcome ` set items)"
    using aggregate_eq [of "map bi_outcome items"] ne assms(2) by simp
  have err: "bi_error x \<noteq> None" if "x \<in> set items" for x
    using assms(1,3) that oc aggregate_of_set_success [of "bi_outcome ` set items"]
    by (force simp: list_all_iff batch_item_ok_def)
  have unknown: "\<exists>x \<in> set items. bi_outcome x = LO_UNKNOWN" if "oc = OO_UNKNOWN"
    using that oc aggregate_of_set_unknown [of "bi_outcome ` set items"] by force
  have single: "\<forall>x \<in> set items. bi_outcome x = LO_REJECTED" if "oc = OO_REJECTED"
    using that oc aggregate_of_set_single(2) [of "bi_outcome ` set items"] by force
  have cancelled: "\<forall>x \<in> set items. bi_outcome x = LO_CANCELLED" if "oc = OO_CANCELLED"
    using that oc aggregate_of_set_single(3) [of "bi_outcome ` set items"] by force
  let ?cand = "if oc = OO_UNKNOWN then filter (\<lambda>x. bi_outcome x = LO_UNKNOWN) items
        else if oc = OO_REJECTED then filter (\<lambda>x. bi_outcome x = LO_REJECTED) items
        else if oc = OO_CANCELLED then filter (\<lambda>x. bi_outcome x = LO_CANCELLED) items else items"
  have "filter (\<lambda>x. bi_error x \<noteq> None) ?cand \<noteq> []"
    using ne err unknown single cancelled by (auto simp: filter_empty_conv)
  then obtain x xs where x: "filter (\<lambda>x. bi_error x \<noteq> None) ?cand = x # xs" by (meson list.exhaust)
  then have "x \<in> set (filter (\<lambda>x. bi_error x \<noteq> None) ?cand)" by simp
  then have mem: "x \<in> set items" "bi_error x \<noteq> None" "oc = OO_UNKNOWN \<longrightarrow> bi_outcome x = LO_UNKNOWN"
    by (auto split: if_split_asm)
  have "retrieval_aggregate_error oc items = bi_error x"
    unfolding retrieval_aggregate_error_def Let_def x by simp
  then show ?thesis using mem by auto
qed

lemma run_retrieval_error:
  assumes "fst (run_retrieval sv cx level i url w) = Inl e"
  shows "e = ExcCancelled"
  using assms by (auto simp: run_retrieval_def fetch_item_def split: if_split_asm prod.split_asm sum.split_asm)

text \<open>A retrieval batch answers every URL in order. It needs the retrieval:read scope; when it returns, it
  has one valid item per URL, numbered from 0 in request order, its outcome aggregates the items and
  a batch without success carries the error of one of them, of an UNKNOWN one where there is one. For
  a batch with URLs nothing but a missing scope or a cancellation is raised.\<close>
theorem retrieval_batch_complete:
  assumes "urls \<noteq> []" "retrieval_fetch sv cx urls level w = (r, w')"
  shows "(case r of
      Inl e \<Rightarrow> e = ExcCancelled \<or> e = ExcAuth INSUFFICIENT_SCOPE \<and> w' = w
    | Inr res \<Rightarrow> is_ok (require_scope (cx_principal cx) ''retrieval:read'') \<and> operation_result_ok res
        \<and> (\<exists>items. or_data res = Some items \<and> map bi_index items = map int [0..<length urls]
            \<and> list_all batch_item_ok items \<and> aggregate_batch_outcome (map bi_outcome items) = Inr (or_outcome res)
            \<and> (\<forall>e. or_error res = Some e \<longrightarrow> (\<exists>item \<in> set items. bi_error item = Some e
                 \<and> (or_outcome res = OO_UNKNOWN \<longrightarrow> bi_outcome item = LO_UNKNOWN)))))"
proof (cases "require_scope (cx_principal cx) ''retrieval:read''")
  case (Inl f)
  then show ?thesis using assms(2) by (auto simp: retrieval_fetch_def require_scope_def split: if_split_asm)
next
  case scope: (Inr u)
  obtain g w1 where g: "gather_all (run_retrieval sv (retrieval_context sv cx w) level) 0 urls w = (g, w1)" by (metis prod.exhaust)
  show ?thesis
  proof (cases g)
    case (Inl e)
    have "e = ExcCancelled" by (rule gather_all_error [OF g [unfolded Inl]]) (rule run_retrieval_error)
    then show ?thesis using assms(2) scope g Inl by (auto simp: retrieval_fetch_def gather_retrievals_def)
  next
    case (Inr items)
    have "map bi_index items = map (\<lambda>k. 0 + int k) [0..<length urls] \<and> list_all batch_item_ok items"
      by (rule gather_all_items [OF g [unfolded Inr] order_refl run_retrieval_item])
    then have items: "map bi_index items = map int [0..<length urls]" "list_all batch_item_ok items" by simp_all
    then have "items \<noteq> []" using assms(1) by auto
    then obtain oc where oc: "aggregate_batch_outcome (map bi_outcome items) = Inr oc" by (metis aggregate_total map_is_Nil_conv)
    show ?thesis
    proof (cases "oc \<in> {OO_SUCCEEDED, OO_PARTIAL_SUCCESS}")
      case True
      then show ?thesis
        using assms(2) scope g Inr oc items by (auto simp: retrieval_fetch_def gather_retrievals_def operation_result_ok_def)
    next
      case False
      obtain item e where err: "item \<in> set items" "bi_error item = Some e" "retrieval_aggregate_error oc items = Some e"
          "oc = OO_UNKNOWN \<longrightarrow> bi_outcome item = LO_UNKNOWN"
        using retrieval_aggregate_error_item [OF items(2) oc False] by blast
      then have "r = Inr \<lparr>or_operation_id = cx_operation_id cx, or_outcome = oc, or_data = Some items,
          or_error = Some e, or_warnings = [], or_hints = []\<rparr>"
        using assms(2) scope g Inr oc False by (simp add: retrieval_fetch_def gather_retrievals_def)
      then show ?thesis using scope oc items err False by (auto simp: operation_result_ok_def intro!: bexI [of _ item])
    qed
  qed
qed

theorem retrieval_batch_complete_witness:
  "\<exists>res items w'. retrieval_fetch demo_retrieval (demo_context\<lparr>cx_principal := demo_principal\<lparr>pc_scopes := {''retrieval:read''}\<rparr>\<rparr>)
       [cps ''http://127.0.0.1/'', cps ''http://localhost/''] STORE_ONLY (demo_world []) = (Inr res, w')
     \<and> or_outcome res = OO_REJECTED \<and> or_data res = Some items \<and> list_all batch_item_ok items \<and> map bi_index items = [0, 1]"
proof -
  let ?cx = "demo_context\<lparr>cx_principal := demo_principal\<lparr>pc_scopes := {''retrieval:read''}\<rparr>\<rparr>"
  let ?urls = "[cps ''http://127.0.0.1/'', cps ''http://localhost/'']"
  have "case retrieval_fetch demo_retrieval ?cx ?urls STORE_ONLY (demo_world []) of
      (Inr res, w') \<Rightarrow> or_outcome res = OO_REJECTED | _ \<Rightarrow> False" by code_simp
  then obtain res w' where run: "retrieval_fetch demo_retrieval ?cx ?urls STORE_ONLY (demo_world []) = (Inr res, w')"
      "or_outcome res = OO_REJECTED"
    by (auto split: prod.split_asm sum.split_asm)
  have ix: "map int [0..<length ?urls] = [0, 1]" by (simp add: upt_rec)
  show ?thesis
    using retrieval_batch_complete [OF list.distinct(2) run(1)] run unfolding ix by auto
qed

end
