(* ===== verification/Codecs.thy ===== *)
theory Codecs
  imports Url
begin

section \<open>Bytes and texts: JSON documents and base64\<close>

text \<open>
  \<open>json.loads\<close> of bytes, \<open>json.dumps\<close> with \<open>ensure_ascii\<close> and the \<open>base64\<close> module, as the search adapters and the
  cursor codec call them. The codecs of \<open>bytes.decode\<close> are an argument.
\<close>

subsection \<open>Documents\<close>

text \<open>\<open>json.loads\<close> of bytes finds the encoding from the first bytes.\<close>

definition detect_encoding :: "bytes \<Rightarrow> string" where
  "detect_encoding b =
     (if take 4 b = [0, 0, 254, 255] \<or> take 4 b = [255, 254, 0, 0] then ''utf-32''
      else if take 2 b = [254, 255] \<or> take 2 b = [255, 254] then ''utf-16''
      else if take 3 b = [239, 187, 191] then ''utf-8-sig''
      else if 4 \<le> length b \<and> b ! 0 = 0 then (if b ! 1 \<noteq> 0 then ''utf-16-be'' else ''utf-32-be'')
      else if 4 \<le> length b \<and> b ! 1 = 0 then (if b ! 2 \<noteq> 0 \<or> b ! 3 \<noteq> 0 then ''utf-16-le'' else ''utf-32-le'')
      else if length b = 2 \<and> b ! 0 = 0 then ''utf-16-be''
      else if length b = 2 \<and> b ! 1 = 0 then ''utf-16-le''
      else ''utf-8'')"

datatype loads_error = DecodeError | LoadsError json_error

definition json_loads_bytes :: "(string \<Rightarrow> bytes \<Rightarrow> codepoint list option) \<Rightarrow> bytes \<Rightarrow> loads_error + json" where
  "json_loads_bytes codec b = (case codec (detect_encoding b) b of
     None \<Rightarrow> Inl DecodeError
   | Some s \<Rightarrow> (case json_loads s of Inl e \<Rightarrow> Inl (LoadsError e) | Inr v \<Rightarrow> Inr v))"

text \<open>\<open>json.dumps(..., ensure_ascii=True)\<close>: characters outside the printable ASCII range are escaped, those
  beyond the first plane as a surrogate pair.\<close>

definition hex4_escape :: "nat \<Rightarrow> codepoint list" where
  "hex4_escape n = [92, 117, Json.hex_digit (n div 4096), Json.hex_digit (n div 256 mod 16),
     Json.hex_digit (n div 16 mod 16), Json.hex_digit (n mod 16)]"

definition escape_ascii :: "codepoint \<Rightarrow> codepoint list" where
  "escape_ascii c = (if c < 32 \<or> c = 34 \<or> c = 92 then escape_cp c
     else if c \<le> 126 then [c]
     else if c < 65536 then hex4_escape c
     else hex4_escape (55296 + (c - 65536) div 1024) @ hex4_escape (56320 + (c - 65536) mod 1024))"

definition dump_str_ascii :: "codepoint list \<Rightarrow> codepoint list" where
  "dump_str_ascii s = 34 # concat (map escape_ascii s) @ [34]"

fun json_dumps_ascii :: "json \<Rightarrow> codepoint list" where
  "json_dumps_ascii (JStr s) = dump_str_ascii s"
| "json_dumps_ascii (JArr vs) = [91] @ join [44] (map json_dumps_ascii vs) @ [93]"
| "json_dumps_ascii (JObj ms) = [123] @ join [44] (map (\<lambda>(k, v). dump_str_ascii k @ [58] @ json_dumps_ascii v) ms) @ [125]"
| "json_dumps_ascii v = json_dumps v"

definition printable :: "codepoint list \<Rightarrow> bool" where
  "printable s \<longleftrightarrow> list_all (\<lambda>c. 32 \<le> c \<and> c \<le> 126) s"

lemma dump_str_ascii_eq: "printable s \<Longrightarrow> dump_str_ascii s = dump_str s"
  by (auto simp: dump_str_ascii_def dump_str_def printable_def list_all_iff escape_ascii_def escape_cp_def intro!: arg_cong [of _ _ concat])

subsection \<open>Base64\<close>

text \<open>\<open>base64.b64decode(text, validate=True)\<close>: whole groups of the standard alphabet, padded at the end.\<close>

definition b64_value :: "codepoint \<Rightarrow> nat option" where
  "b64_value c = (if 65 \<le> c \<and> c \<le> 90 then Some (c - 65) else if 97 \<le> c \<and> c \<le> 122 then Some (c - 71)
     else if 48 \<le> c \<and> c \<le> 57 then Some (c + 4) else if c = 43 then Some 62 else if c = 47 then Some 63 else None)"

fun b64decode :: "ustr \<Rightarrow> bytes option" where
  "b64decode [] = Some []"
| "b64decode [a, b, c, d] = (case (b64_value a, b64_value b) of
     (Some x, Some y) \<Rightarrow> if c = 61 \<and> d = 61 then Some [x * 4 + y div 16]
       else (case b64_value c of None \<Rightarrow> None
         | Some z \<Rightarrow> if d = 61 then Some [x * 4 + y div 16, y mod 16 * 16 + z div 4]
             else (case b64_value d of None \<Rightarrow> None
               | Some u \<Rightarrow> Some [x * 4 + y div 16, y mod 16 * 16 + z div 4, z mod 4 * 64 + u]))
   | _ \<Rightarrow> None)"
| "b64decode (a # b # c # d # rest) = (case (b64_value a, b64_value b, b64_value c, b64_value d) of
     (Some x, Some y, Some z, Some u) \<Rightarrow> map_option (\<lambda>bs.
        [x * 4 + y div 16, y mod 16 * 16 + z div 4, z mod 4 * 64 + u] @ bs) (b64decode rest)
   | _ \<Rightarrow> None)"
| "b64decode _ = None"

text \<open>\<open>base64.b64encode\<close>, and the value of a digit back to its character.\<close>

definition b64_char :: "nat \<Rightarrow> codepoint" where
  "b64_char n = (if n < 26 then n + 65 else if n < 52 then n + 71 else if n < 62 then n - 4 else if n = 62 then 43 else 47)"

fun b64encode :: "bytes \<Rightarrow> ustr" where
  "b64encode [] = []"
| "b64encode [x] = [b64_char (x div 4), b64_char (x mod 4 * 16), 61, 61]"
| "b64encode [x, y] = [b64_char (x div 4), b64_char (x mod 4 * 16 + y div 16), b64_char (y mod 16 * 4), 61]"
| "b64encode (x # y # z # rest) =
     [b64_char (x div 4), b64_char (x mod 4 * 16 + y div 16), b64_char (y mod 16 * 4 + z div 64), b64_char (z mod 64)]
     @ b64encode rest"

lemma b64_value_char [simp]: "n < 64 \<Longrightarrow> b64_value (b64_char n) = Some n"
  by (auto simp: b64_value_def b64_char_def)

lemma b64_char_not_pad [simp]: "b64_char n \<noteq> 61" "61 \<noteq> b64_char n"
  by (auto simp: b64_char_def)

lemma b64_sextets:
  assumes "(x :: nat) < 256" "y < 256" "z < 256"
  shows "x div 4 * 4 + (x mod 4 * 16 + y div 16) div 16 = x" "(x mod 4 * 16 + y div 16) mod 16 * 16 + (y mod 16 * 4 + z div 64) div 4 = y"
    "(y mod 16 * 4 + z div 64) mod 4 * 64 + z mod 64 = z" "x div 4 < 64" "x mod 4 * 16 + y div 16 < 64" "y mod 16 * 4 + z div 64 < 64"
    "x mod 4 * 16 < 64" "y mod 16 * 4 < 64" "x div 4 * 4 + x mod 4 * 16 div 16 = x"
    "(x mod 4 * 16 + y div 16) mod 16 * 16 + y mod 16 * 4 div 4 = y"
proof -
  have x: "x div 4 * 4 + x mod 4 = x" and y: "y div 16 * 16 + y mod 16 = y" and z: "z div 64 * 64 + z mod 64 = z"
    by simp_all
  have b: "x mod 4 < 4" "y div 16 < 16" "y mod 16 < 16" "z div 64 < 4" "x div 4 < 64" using assms by auto
  have "(x mod 4 * 16 + y div 16) div 16 = x mod 4" "(x mod 4 * 16 + y div 16) mod 16 = y div 16"
    "(y mod 16 * 4 + z div 64) div 4 = y mod 16" "(y mod 16 * 4 + z div 64) mod 4 = z div 64"
    using b by (simp_all add: div_mult_self3)
  then show "x div 4 * 4 + (x mod 4 * 16 + y div 16) div 16 = x" "(x mod 4 * 16 + y div 16) mod 16 * 16 + (y mod 16 * 4 + z div 64) div 4 = y"
    "(y mod 16 * 4 + z div 64) mod 4 * 64 + z mod 64 = z" "x div 4 < 64" "x mod 4 * 16 + y div 16 < 64" "y mod 16 * 4 + z div 64 < 64"
    "x mod 4 * 16 < 64" "y mod 16 * 4 < 64" "x div 4 * 4 + x mod 4 * 16 div 16 = x"
    "(x mod 4 * 16 + y div 16) mod 16 * 16 + y mod 16 * 4 div 4 = y"
    using x y z b by simp_all
qed

lemma b64decode_group:
  assumes "b64_value a = Some x" "b64_value b = Some y" "b64_value c = Some z" "b64_value d = Some u"
  shows "b64decode (a # b # c # d # rest) = map_option (\<lambda>bs.
     [x * 4 + y div 16, y mod 16 * 16 + z div 4, z mod 4 * 64 + u] @ bs) (b64decode rest)"
proof (cases rest)
  case Nil
  have "c \<noteq> 61" "d \<noteq> 61" using assms by (auto simp: b64_value_def)
  then show ?thesis using assms Nil by simp
next
  case (Cons e es)
  have "(@) [p, q, r] = (\<lambda>bs. p # q # r # bs)" for p q r :: nat by (rule ext) simp
  then show ?thesis using assms Cons by simp
qed

lemma b64_roundtrip: "list_all (\<lambda>b. b < 256) bs \<Longrightarrow> b64decode (b64encode bs) = Some bs"
proof (induction bs rule: b64encode.induct)
  case (2 x)
  then show ?case using b64_sextets [of x 0 0] by simp
next
  case (3 x y)
  then show ?case using b64_sextets [of x y 0] by simp
next
  case (4 x y z rest)
  then have b: "x < 256" "y < 256" "z < 256" "list_all (\<lambda>b. b < 256) rest" by simp_all
  note s = b64_sextets [OF b(1-3)]
  have u: "z mod 64 < 64" by simp
  note step = b64decode_group [OF b64_value_char [OF s(4)] b64_value_char [OF s(5)] b64_value_char [OF s(6)] b64_value_char [OF u],
      of "b64encode rest"]
  show ?case
    unfolding b64encode.simps append_Cons append_Nil step s(1-3) "4.IH" [OF b(4)] by simp
qed simp

lemma b64encode_length: "length (b64encode bs) = 4 * ((length bs + 2) div 3)"
proof (induction bs rule: b64encode.induct)
  case (4 x y z rest)
  have "(length (x # y # z # rest) + 2) div 3 = Suc ((length rest + 2) div 3)" by simp
  then show ?case using 4 by simp
qed simp_all

lemma b64encode_chars:
  "c \<in> set (b64encode bs) \<Longrightarrow> c = 61 \<or> (\<exists>n. c = b64_char n)"
  by (induction bs rule: b64encode.induct) auto

end
