(* ===== verification/Search_Providers.thy ===== *)
theory Search_Providers
  imports Search_Service Codecs
begin

section \<open>The SearXNG and Yandex search adapters\<close>

text \<open>
  \<open>infrastructure/search/searxng.py\<close> and \<open>infrastructure/search/yandex.py\<close>. A provider sends one HTTP request,
  bounds and decodes the answer and builds result items. The HTTP client answers as an argument
  says; the text codecs of \<open>json.loads\<close>, the date readers of \<open>datetime\<close>, Unicode's decimal digits and
  the XML parser (defusedxml) are fields of \<open>provider_lib\<close>, and the results hold for all of them.
\<close>

subsection \<open>The HTTP client and the libraries\<close>

text \<open>How \<open>client.stream\<close> ends: the errors of the handlers, an error no handler names (such as
  \<open>httpx.DecodingError\<close>), or a response with its chunks and how reading them ends. A connection error
  comes before a response.\<close>

datatype read_fault = ReadTimedOut | ReadBroken | ReadUnnamed

datatype http_fault = HttpConnect | HttpRead read_fault

abbreviation HttpTimeout :: http_fault where "HttpTimeout \<equiv> HttpRead ReadTimedOut"
abbreviation HttpTransport :: http_fault where "HttpTransport \<equiv> HttpRead ReadBroken"
abbreviation HttpOther :: http_fault where "HttpOther \<equiv> HttpRead ReadUnnamed"

record http_response =
  hr_status :: int
  hr_header :: "string \<Rightarrow> ustr option"
  hr_chunks :: "bytes list"
  hr_end :: "read_fault option"

type_synonym http_answer = "http_fault + http_response"

text \<open>An XML element: tag, attributes, text, and children with the text after each.\<close>

datatype xml_element = Element ustr "(ustr \<times> ustr) list" "ustr option" "(xml_element \<times> ustr option) list"

fun xml_tag :: "xml_element \<Rightarrow> ustr" where
  "xml_tag (Element t a x cs) = t"

fun xml_attrib :: "xml_element \<Rightarrow> (ustr \<times> ustr) list" where
  "xml_attrib (Element t a x cs) = a"

fun xml_children :: "xml_element \<Rightarrow> xml_element list" where
  "xml_children (Element t a x cs) = map fst cs"

text \<open>\<open>Element.iter\<close> and \<open>Element.itertext\<close>.\<close>

fun xml_iter :: "xml_element \<Rightarrow> xml_element list" where
  "xml_iter (Element t a x cs) = Element t a x cs # concat (map (\<lambda>(c, tail). xml_iter c) cs)"

definition opt_text :: "ustr option \<Rightarrow> ustr" where
  "opt_text x = (case x of None \<Rightarrow> [] | Some s \<Rightarrow> s)"

fun xml_itertext :: "xml_element \<Rightarrow> ustr" where
  "xml_itertext (Element t a x cs) = opt_text x @ concat (map (\<lambda>(c, tail). xml_itertext c @ opt_text tail) cs)"

text \<open>What \<open>datetime.fromisoformat(...)\<close> and the conversion to UTC give; an aware value near the ends of
  the calendar overflows.\<close>

datatype iso_result = IsoInvalid | IsoNaive | IsoAware instant | IsoOverflow

record provider_lib =
  pl_unicode :: unicode_lib
  pl_codec :: "string \<Rightarrow> bytes \<Rightarrow> codepoint list option"
  pl_digit :: "codepoint \<Rightarrow> nat option"
  pl_fromisoformat :: "ustr \<Rightarrow> iso_result"
  pl_strptime :: "ustr \<Rightarrow> instant option"
  pl_xml :: "bytes \<Rightarrow> xml_element option"

text \<open>The exceptions of a provider: the attempt error of the port, \<open>ValueError\<close>, and others that escape.\<close>

datatype provider_exc = PxAttempt ProviderAttemptError | PxValue | PxOther

subsection \<open>Shared steps\<close>

text \<open>Both adapters define \<open>_attempt_error\<close>, \<open>_retry_after\<close>, \<open>_request_id\<close>, \<open>_timeout\<close> and \<open>_bounded_body\<close>
  alike, but for their error codes.\<close>

definition request_id :: "http_response \<Rightarrow> ustr option" where
  "request_id r = (case hr_header r ''x-request-id'' of
     Some v \<Rightarrow> if v \<noteq> [] then Some (take 256 v) else (case hr_header r ''x-correlation-id'' of
       Some u \<Rightarrow> if u \<noteq> [] then Some (take 256 u) else None | None \<Rightarrow> None)
   | None \<Rightarrow> (case hr_header r ''x-correlation-id'' of
       Some u \<Rightarrow> if u \<noteq> [] then Some (take 256 u) else None | None \<Rightarrow> None))"

definition decimal_value :: "(codepoint \<Rightarrow> nat option) \<Rightarrow> ustr \<Rightarrow> int" where
  "decimal_value digit s = foldl (\<lambda>n c. 10 * n + int (the (digit c))) 0 s"

definition retry_after :: "provider_lib \<Rightarrow> http_response \<Rightarrow> provider_exc + int option" where
  "retry_after lib r = (case hr_header r ''retry-after'' of
     None \<Rightarrow> Inr None
   | Some v \<Rightarrow> if v = [] \<or> \<not> list_all (\<lambda>c. pl_digit lib c \<noteq> None) v then Inr None
       else if 4300 < length v then Inl PxValue
       else Inr (Some (min (decimal_value (pl_digit lib) v) 86400)))"

definition provider_timeout :: "rat \<Rightarrow> rat option \<Rightarrow> provider_exc + rat" where
  "provider_timeout request_timeout remaining = (case remaining of
     None \<Rightarrow> Inr request_timeout
   | Some r \<Rightarrow> if r \<le> 0 then Inl (PxAttempt (attempt_error TIMEOUT ''search_deadline_exceeded'' False BEFORE_DISPATCH None None))
       else Inr (min r request_timeout))"

fun bounded_body_from :: "string \<Rightarrow> int \<Rightarrow> ustr option \<Rightarrow> bytes \<Rightarrow> bytes list \<Rightarrow> provider_exc + bytes" where
  "bounded_body_from code maximum rid body [] = Inr body"
| "bounded_body_from code maximum rid body (c # cs) =
     (if int (length body) + int (length c) > maximum
      then Inl (PxAttempt (attempt_error UPSTREAM code False TERMINAL_KNOWN None rid))
      else bounded_body_from code maximum rid (body @ c) cs)"

text \<open>The \<open>try\<close> around the request: the answer of the client becomes the body, or an error. \<open>on_fault\<close> are
  the three handlers.\<close>

definition stream_body ::
  "(http_fault \<Rightarrow> provider_exc) \<Rightarrow> (http_response \<Rightarrow> provider_exc) \<Rightarrow> string \<Rightarrow> int \<Rightarrow> http_answer
     \<Rightarrow> provider_exc + http_response \<times> bytes" where
  "stream_body on_fault status_error code maximum answer = (case answer of
     Inl f \<Rightarrow> Inl (on_fault f)
   | Inr r \<Rightarrow>
       if hr_status r \<ge> 400 then Inl (status_error r)
       else case bounded_body_from code maximum (request_id r) [] (hr_chunks r) of
         Inl e \<Rightarrow> Inl e
       | Inr body \<Rightarrow> (case hr_end r of Some f \<Rightarrow> Inl (on_fault (HttpRead f)) | None \<Rightarrow> Inr (r, body)))"

text \<open>The host of a result URL; \<open>None\<close> where the item is skipped.\<close>

definition result_host :: "provider_lib \<Rightarrow> ustr \<Rightarrow> ustr option" where
  "result_host lib url = (case urlsplit (pl_unicode lib) url of
     Inl _ \<Rightarrow> None
   | Inr u \<Rightarrow> if su_scheme u \<in> {cps ''http'', cps ''https''} then url_hostname (pl_unicode lib) u else None)"

definition count_warning :: "string \<Rightarrow> string \<Rightarrow> nat \<Rightarrow> Warning" where
  "count_warning code field n = \<lparr>wn_code = code, wn_details = Some [(field, DetailInt (min (int n) 1000))]\<rparr>"

subsection \<open>SearXNG\<close>

record SearxngSettings =
  sx_enabled :: bool
  sx_endpoint :: string
  sx_profile_revision :: string
  sx_request_timeout_seconds :: rat
  sx_max_response_bytes :: int
  sx_max_results :: int
  sx_fields_set :: "string list"

definition searxng_settings_ok :: "SearxngSettings \<Rightarrow> bool" where
  "searxng_settings_ok s \<longleftrightarrow> 8 \<le> length (sx_profile_revision s) \<and> length (sx_profile_revision s) \<le> 128
     \<and> 0 < sx_request_timeout_seconds s \<and> sx_request_timeout_seconds s \<le> 60
     \<and> 1024 \<le> sx_max_response_bytes s \<and> sx_max_response_bytes s \<le> 8 * 1024 * 1024
     \<and> 1 \<le> sx_max_results s \<and> sx_max_results s \<le> 50"

text \<open>The descriptor; the configuration revision is the SHA-256 of the settings as JSON, whose text is an
  argument.\<close>

definition searxng_descriptor :: "SearxngSettings \<Rightarrow> codepoint list \<Rightarrow> ProviderDescriptor" where
  "searxng_descriptor s canonical = \<lparr>pd_provider_id = SEARXNG, pd_name = ''SearXNG'', pd_enabled = sx_enabled s,
     pd_capabilities = \<lparr>pc_pagination = True, pc_language = True, pc_region = False, pc_safe_search = True,
       pc_time_range = True, pc_max_results = sx_max_results s, pc_max_query_length = 4096, pc_max_query_words = None,
       pc_max_result_window = None, pc_supported_time_ranges = [RANGE_DAY, RANGE_MONTH, RANGE_YEAR], pc_billable = False\<rparr>,
     pd_configuration_revision = sha256_hex (utf8_encode canonical)\<rparr>"

fun searxng_safe :: "SearchSafeMode \<Rightarrow> string" where
  "searxng_safe SAFE_OFF = ''0''"
| "searxng_safe SAFE_MODERATE = ''1''"
| "searxng_safe SAFE_STRICT = ''2''"

definition searxng_params :: "ProviderSearchRequest \<Rightarrow> (string \<times> codepoint list) list" where
  "searxng_params rq = [(''q'', cps (ps_query rq)), (''format'', cps ''json''), (''categories'', cps ''general''),
       (''pageno'', str_of_int (ps_page rq))]
     @ (case ps_language rq of None \<Rightarrow> [] | Some l \<Rightarrow> [(''language'', cps l)])
     @ (case ps_safe_search rq of None \<Rightarrow> [] | Some m \<Rightarrow> [(''safesearch'', cps (searxng_safe m))])
     @ (case ps_time_range rq of None \<Rightarrow> [] | Some t \<Rightarrow> [(''time_range'', cps (range_value t))])"

fun searxng_fault :: "http_fault \<Rightarrow> provider_exc" where
  "searxng_fault HttpConnect = PxAttempt (attempt_error UPSTREAM ''searxng_unavailable'' True BEFORE_DISPATCH None None)"
| "searxng_fault HttpTimeout = PxAttempt (attempt_error TIMEOUT ''searxng_timeout'' True RESPONSE_LOST None None)"
| "searxng_fault HttpTransport = PxAttempt (attempt_error UPSTREAM ''searxng_transport_error'' True RESPONSE_LOST None None)"
| "searxng_fault HttpOther = PxOther"

definition searxng_status_error :: "provider_lib \<Rightarrow> http_response \<Rightarrow> provider_exc" where
  "searxng_status_error lib r =
     (if hr_status r = 429 then (case retry_after lib r of Inl e \<Rightarrow> e
        | Inr after \<Rightarrow> PxAttempt (attempt_error RATE_LIMITED_CATEGORY ''searxng_rate_limited'' True TERMINAL_KNOWN after (request_id r)))
      else if hr_status r \<ge> 500
        then PxAttempt (attempt_error UPSTREAM ''searxng_upstream_error'' True TERMINAL_KNOWN None (request_id r))
      else PxAttempt (attempt_error UPSTREAM ''searxng_request_rejected'' False TERMINAL_KNOWN None (request_id r)))"

definition searxng_malformed :: "ustr option \<Rightarrow> provider_exc" where
  "searxng_malformed rid = PxAttempt (attempt_error UPSTREAM ''searxng_malformed_response'' False TERMINAL_KNOWN None rid)"

definition decode_payload :: "provider_lib \<Rightarrow> ustr option \<Rightarrow> bytes \<Rightarrow> provider_exc + json \<times> json list" where
  "decode_payload lib rid body = (case json_loads_bytes (pl_codec lib) body of
     Inl DecodeError \<Rightarrow> Inl (searxng_malformed rid)
   | Inl (LoadsError JSONDecodeError) \<Rightarrow> Inl (searxng_malformed rid)
   | Inl (LoadsError IntDigitsError) \<Rightarrow> Inl PxValue
   | Inr v \<Rightarrow> (case json_get (cps ''results'') v of
       Some (JArr rs) \<Rightarrow> Inr (v, rs)
     | _ \<Rightarrow> Inl (searxng_malformed rid)))"

text \<open>\<open>value.replace("Z", "+00:00")\<close>.\<close>

definition replace_z :: "ustr \<Rightarrow> ustr" where
  "replace_z v = concat (map (\<lambda>c. if c = 90 then cps ''+00:00'' else [c]) v)"

definition published_at :: "provider_lib \<Rightarrow> json option \<Rightarrow> provider_exc + instant option" where
  "published_at lib value = (case value of
     Some (JStr v) \<Rightarrow> if 128 < length v then Inr None else (case pl_fromisoformat lib (replace_z v) of
         IsoInvalid \<Rightarrow> Inr None | IsoNaive \<Rightarrow> Inr None | IsoAware t \<Rightarrow> Inr (Some t) | IsoOverflow \<Rightarrow> Inl PxOther)
   | _ \<Rightarrow> Inr None)"

text \<open>The checks of one raw result; \<open>None\<close> where it is skipped.\<close>

definition searxng_fields :: "provider_lib \<Rightarrow> json \<Rightarrow> (ustr \<times> ustr \<times> ustr option \<times> ustr) option" where
  "searxng_fields lib raw = (case raw of
     JObj ms \<Rightarrow> (case (json_get (cps ''title'') raw, json_get (cps ''url'') raw) of
       (Some (JStr title), Some (JStr url)) \<Rightarrow>
         if title = [] \<or> 4096 < length title \<or> url = [] \<or> 8192 < length url then None
         else (case (case json_get (cps ''content'') raw of
                 None \<Rightarrow> Some None | Some JNull \<Rightarrow> Some None
               | Some (JStr s) \<Rightarrow> if 8192 < length s then None else Some (Some s)
               | _ \<Rightarrow> None) of
             None \<Rightarrow> None
           | Some snippet \<Rightarrow> (case result_host lib url of None \<Rightarrow> None | Some h \<Rightarrow> Some (title, url, snippet, h)))
     | _ \<Rightarrow> None)
   | _ \<Rightarrow> None)"

fun parse_results_from ::
  "provider_lib \<Rightarrow> json list \<Rightarrow> SearchResultItem list \<Rightarrow> nat \<Rightarrow> provider_exc + SearchResultItem list \<times> nat" where
  "parse_results_from lib [] parsed skipped = Inr (parsed, skipped)"
| "parse_results_from lib (raw # rs) parsed skipped = (case searxng_fields lib raw of
     None \<Rightarrow> parse_results_from lib rs parsed (Suc skipped)
   | Some (title, url, snippet, host) \<Rightarrow> res_bind (published_at lib (json_get (cps ''publishedDate'') raw)) (\<lambda>published.
       parse_results_from lib rs (parsed @ [\<lparr>si_rank = int (length parsed) + 1, si_title = title, si_url = url,
         si_snippet = snippet, si_host = Some (take 1024 host), si_published_at = published\<rparr>]) skipped))"

definition parse_results :: "provider_lib \<Rightarrow> json list \<Rightarrow> int \<Rightarrow> provider_exc + SearchResultItem list \<times> nat" where
  "parse_results lib results limit = parse_results_from lib (take (nat limit) results) [] 0"

definition parse_warnings :: "json \<Rightarrow> Warning list" where
  "parse_warnings payload = (case json_get (cps ''unresponsive_engines'') payload of
     Some (JArr es) \<Rightarrow> if es = [] then [] else [count_warning ''partial_provider_failure'' ''engine_failure_count'' (length es)]
   | _ \<Rightarrow> [])"

definition checked_result :: "ProviderSearchResult \<Rightarrow> provider_exc + ProviderSearchResult" where
  "checked_result r = (if provider_result_ok r then Inr r else Inl PxValue)"

text \<open>\<open>search\<close>, with the client as a function of the parameters and the timeout. The second result is
  whether the client was called.\<close>

definition searxng_search ::
  "provider_lib \<Rightarrow> SearxngSettings \<Rightarrow> rat option \<Rightarrow> instant \<Rightarrow> ((string \<times> codepoint list) list \<Rightarrow> rat \<Rightarrow> http_answer)
     \<Rightarrow> ProviderSearchRequest \<Rightarrow> (provider_exc + ProviderSearchResult) \<times> bool" where
  "searxng_search lib s remaining now client rq =
     (if ps_provider_id rq \<noteq> SEARXNG then (Inl PxValue, False)
      else case provider_timeout (sx_request_timeout_seconds s) remaining of
        Inl e \<Rightarrow> (Inl e, False)
      | Inr timeout \<Rightarrow> (res_bind (stream_body searxng_fault (searxng_status_error lib) ''searxng_response_too_large''
            (sx_max_response_bytes s) (client (searxng_params rq) timeout)) (\<lambda>(r, body).
          res_bind (decode_payload lib (request_id r) body) (\<lambda>(payload, results).
          res_bind (parse_results lib results (ps_limit rq)) (\<lambda>(parsed, skipped).
            checked_result \<lparr>px_provider_id = SEARXNG, px_results = parsed, px_retrieved_at = now,
              px_next_page_available = None, px_provider_request_id = request_id r,
              px_warnings = parse_warnings payload
                @ (if skipped = 0 then [] else [count_warning ''malformed_provider_item'' ''omitted_count'' skipped])\<rparr>))), True))"

subsection \<open>Yandex\<close>

record YandexSearchSettings =
  yx_enabled :: bool
  yx_endpoint :: string
  yx_folder_id :: "string option"
  yx_api_key :: "string option"
  yx_search_type :: string
  yx_profile_revision :: string
  yx_request_timeout_seconds :: rat
  yx_max_response_bytes :: int
  yx_max_results :: int

definition yandex_settings_ok :: "YandexSearchSettings \<Rightarrow> bool" where
  "yandex_settings_ok s \<longleftrightarrow> (case yx_folder_id s of None \<Rightarrow> True | Some f \<Rightarrow> 1 \<le> length f \<and> length f \<le> 50)
     \<and> yx_search_type s \<in> {''SEARCH_TYPE_RU'', ''SEARCH_TYPE_TR'', ''SEARCH_TYPE_COM'', ''SEARCH_TYPE_KK'', ''SEARCH_TYPE_BE'', ''SEARCH_TYPE_UZ''}
     \<and> 8 \<le> length (yx_profile_revision s) \<and> length (yx_profile_revision s) \<le> 128
     \<and> 0 < yx_request_timeout_seconds s \<and> yx_request_timeout_seconds s \<le> 60
     \<and> 1024 \<le> yx_max_response_bytes s \<and> yx_max_response_bytes s \<le> 8 * 1024 * 1024
     \<and> 1 \<le> yx_max_results s \<and> yx_max_results s \<le> 50
     \<and> \<not> (yx_enabled s \<and> (yx_folder_id s = None \<or> yx_api_key s = None))"

definition region_search_types :: "string list" where
  "region_search_types = [''SEARCH_TYPE_RU'', ''SEARCH_TYPE_TR'']"

definition yandex_descriptor :: "YandexSearchSettings \<Rightarrow> codepoint list \<Rightarrow> ProviderDescriptor" where
  "yandex_descriptor s canonical = \<lparr>pd_provider_id = YANDEX, pd_name = ''Yandex Search API'', pd_enabled = yx_enabled s,
     pd_capabilities = \<lparr>pc_pagination = True, pc_language = False, pc_region = (yx_search_type s \<in> set region_search_types),
       pc_safe_search = True, pc_time_range = True, pc_max_results = yx_max_results s, pc_max_query_length = 400,
       pc_max_query_words = Some 40, pc_max_result_window = Some 250,
       pc_supported_time_ranges = [RANGE_DAY, RANGE_MONTH], pc_billable = True\<rparr>,
     pd_configuration_revision = sha256_hex (utf8_encode canonical)\<rparr>"

definition yandex_unsupported :: provider_exc where
  "yandex_unsupported = PxAttempt (attempt_error UNSUPPORTED ''yandex_unsupported_option'' False BEFORE_DISPATCH None None)"

definition yandex_region_rx :: rx where
  "yandex_region_rx = RSeq (RCls (\<lambda>c. ascii_digit c \<and> c \<noteq> CHR ''0'')) (r_rep 0 99 (RCls ascii_digit))"

definition yandex_validate :: "YandexSearchSettings \<Rightarrow> ProviderSearchRequest \<Rightarrow> provider_exc + unit" where
  "yandex_validate s rq =
     (if ps_provider_id rq \<noteq> YANDEX then Inl PxValue
      else if 400 < length (ps_query rq) then Inl yandex_unsupported
      else if 40 < length (split_ws (ps_query rq)) then Inl yandex_unsupported
      else if ps_page rq * ps_limit rq > 250 then Inl yandex_unsupported
      else if ps_language rq \<noteq> None then Inl yandex_unsupported
      else if ps_time_range rq = Some RANGE_YEAR then Inl yandex_unsupported
      else case ps_provider_region rq of
        None \<Rightarrow> Inr ()
      | Some r \<Rightarrow> if yx_search_type s \<notin> set region_search_types then Inl yandex_unsupported
          else if \<not> fullmatch yandex_region_rx r then Inl yandex_unsupported
          else Inr ())"

fun yandex_safe :: "SearchSafeMode \<Rightarrow> string" where
  "yandex_safe SAFE_OFF = ''FAMILY_MODE_NONE''"
| "yandex_safe SAFE_MODERATE = ''FAMILY_MODE_MODERATE''"
| "yandex_safe SAFE_STRICT = ''FAMILY_MODE_STRICT''"

text \<open>\<open>_PERIOD[...]\<close> has no entry for a year.\<close>

fun yandex_period :: "SearchTimeRange \<Rightarrow> string option" where
  "yandex_period RANGE_DAY = Some ''PERIOD_DAY''"
| "yandex_period RANGE_MONTH = Some ''PERIOD_MONTH''"
| "yandex_period RANGE_YEAR = None"

definition yandex_payload :: "YandexSearchSettings \<Rightarrow> string \<Rightarrow> ProviderSearchRequest \<Rightarrow> provider_exc + json" where
  "yandex_payload s folder_id rq = (let
     str = (\<lambda>x. JStr (cps x));
     query = JObj ([(cps ''searchType'', str (yx_search_type s)), (cps ''queryText'', str (ps_query rq)),
         (cps ''page'', JStr (str_of_int (ps_page rq - 1)))]
       @ (case ps_safe_search rq of None \<Rightarrow> [] | Some m \<Rightarrow> [(cps ''familyMode'', str (yandex_safe m))]));
     base = [(cps ''query'', query),
       (cps ''groupSpec'', JObj [(cps ''groupMode'', str ''GROUP_MODE_FLAT''),
          (cps ''groupsOnPage'', JStr (str_of_int (ps_limit rq))), (cps ''docsInGroup'', str ''1'')]),
       (cps ''maxPassages'', str ''3''), (cps ''folderId'', str folder_id), (cps ''responseFormat'', str ''FORMAT_XML'')]
       @ (case ps_provider_region rq of None \<Rightarrow> [] | Some r \<Rightarrow> [(cps ''region'', str r)])
   in case ps_time_range rq of
        None \<Rightarrow> Inr (JObj base)
      | Some t \<Rightarrow> (case yandex_period t of None \<Rightarrow> Inl PxOther | Some p \<Rightarrow> Inr (JObj (base @ [(cps ''period'', str p)]))))"

fun yandex_fault :: "http_fault \<Rightarrow> provider_exc" where
  "yandex_fault HttpConnect = PxAttempt (attempt_error UPSTREAM ''yandex_connect_failed'' True BEFORE_DISPATCH None None)"
| "yandex_fault HttpTimeout = PxAttempt (attempt_error TIMEOUT ''yandex_response_lost'' True RESPONSE_LOST None None)"
| "yandex_fault HttpTransport = PxAttempt (attempt_error UNKNOWN_OUTCOME ''yandex_response_lost'' True RESPONSE_LOST None None)"
| "yandex_fault HttpOther = PxOther"

definition yandex_status_error :: "provider_lib \<Rightarrow> http_response \<Rightarrow> provider_exc" where
  "yandex_status_error lib r =
     (if hr_status r = 401 \<or> hr_status r = 403
        then PxAttempt (attempt_error UPSTREAM ''provider_auth_rejected'' False TERMINAL_KNOWN None (request_id r))
      else if hr_status r = 429 then (case retry_after lib r of Inl e \<Rightarrow> e
        | Inr after \<Rightarrow> PxAttempt (attempt_error RATE_LIMITED_CATEGORY ''yandex_rate_limited'' True TERMINAL_KNOWN after (request_id r)))
      else if hr_status r \<ge> 500
        then PxAttempt (attempt_error UPSTREAM ''yandex_upstream_error'' True TERMINAL_KNOWN None (request_id r))
      else PxAttempt (attempt_error UPSTREAM ''provider_request_rejected'' False TERMINAL_KNOWN None (request_id r)))"

definition yandex_malformed :: "ustr option \<Rightarrow> provider_exc" where
  "yandex_malformed rid = PxAttempt (attempt_error UPSTREAM ''yandex_malformed_response'' False TERMINAL_KNOWN None rid)"

definition decode_response :: "provider_lib \<Rightarrow> int \<Rightarrow> ustr option \<Rightarrow> bytes \<Rightarrow> provider_exc + bytes" where
  "decode_response lib maximum rid body =
     (case (case json_loads_bytes (pl_codec lib) body of
              Inl _ \<Rightarrow> None
            | Inr v \<Rightarrow> (case json_get (cps ''rawData'') v of Some (JStr encoded) \<Rightarrow> b64decode encoded | _ \<Rightarrow> None)) of
        None \<Rightarrow> Inl (yandex_malformed rid)
      | Some xml \<Rightarrow>
          if int (length xml) > maximum
          then Inl (PxAttempt (attempt_error UPSTREAM ''yandex_response_too_large'' False TERMINAL_KNOWN None rid))
          else Inr xml)"

definition local_name :: "ustr \<Rightarrow> ustr" where
  "local_name tag = snd (snd (rpartition_at 125 tag))"

fun collapse_ws :: "ustr \<Rightarrow> ustr" where
  "collapse_ws [] = []"
| "collapse_ws (c # s) = (if uni_space c
     then (case s of [] \<Rightarrow> [32] | d # _ \<Rightarrow> if uni_space d then collapse_ws s else 32 # collapse_ws s)
     else c # collapse_ws s)"

definition clean_text :: "ustr \<Rightarrow> ustr" where
  "clean_text v = strip_by uni_space (collapse_ws v)"

definition element_text :: "xml_element option \<Rightarrow> ustr" where
  "element_text e = (case e of None \<Rightarrow> [] | Some x \<Rightarrow> clean_text (xml_itertext x))"

text \<open>The last child with a name, which is what the dict of the children holds, and the first one.\<close>

definition last_child :: "string \<Rightarrow> xml_element \<Rightarrow> xml_element option" where
  "last_child name doc = find (\<lambda>c. local_name (xml_tag c) = cps name) (rev (xml_children doc))"

definition first_child :: "string \<Rightarrow> xml_element \<Rightarrow> xml_element option" where
  "first_child name doc = find (\<lambda>c. local_name (xml_tag c) = cps name) (xml_children doc)"

definition yandex_snippet :: "xml_element \<Rightarrow> ustr option" where
  "yandex_snippet doc = (let
     parts = (case first_child ''passages'' doc of None \<Rightarrow> []
       | Some ps \<Rightarrow> map (\<lambda>c. element_text (Some c)) (filter (\<lambda>c. local_name (xml_tag c) = cps ''passage'') (xml_children ps)));
     snippet = clean_text (join [32] (filter (\<lambda>x. x \<noteq> []) parts))
   in if snippet = [] then None else Some (take 8192 snippet))"

definition yandex_fields :: "provider_lib \<Rightarrow> xml_element \<Rightarrow> (ustr \<times> ustr \<times> ustr) option" where
  "yandex_fields lib doc = (let url = element_text (last_child ''url'' doc); title = element_text (last_child ''title'' doc) in
     if url = [] \<or> title = [] \<or> 8192 < length url \<or> 4096 < length title then None
     else map_option (\<lambda>h. (title, url, h)) (result_host lib url))"

fun parse_docs :: "provider_lib \<Rightarrow> int \<Rightarrow> xml_element list \<Rightarrow> SearchResultItem list \<Rightarrow> nat \<Rightarrow> SearchResultItem list \<times> nat" where
  "parse_docs lib limit [] parsed skipped = (parsed, skipped)"
| "parse_docs lib limit (doc # docs) parsed skipped =
     (if int (length parsed) \<ge> limit then (parsed, skipped)
      else case yandex_fields lib doc of
        None \<Rightarrow> parse_docs lib limit docs parsed (Suc skipped)
      | Some (title, url, host) \<Rightarrow> parse_docs lib limit docs (parsed @ [\<lparr>si_rank = int (length parsed) + 1,
          si_title = title, si_url = url, si_snippet = yandex_snippet doc, si_host = Some (take 1024 host),
          si_published_at = pl_strptime lib (element_text (last_child ''modtime'' doc))\<rparr>]) skipped)"

definition parse_xml ::
  "provider_lib \<Rightarrow> bytes \<Rightarrow> int \<Rightarrow> ustr option \<Rightarrow> provider_exc + SearchResultItem list \<times> Warning list" where
  "parse_xml lib xml limit rid = (case pl_xml lib xml of
     None \<Rightarrow> Inl (yandex_malformed rid)
   | Some tree \<Rightarrow> (case find (\<lambda>e. local_name (xml_tag e) = cps ''error'') (xml_iter tree) of
       Some e \<Rightarrow> if map_of (xml_attrib e) (cps ''code'') = Some (cps ''15'') then Inr ([], [])
         else Inl (PxAttempt (attempt_error UPSTREAM ''yandex_search_error'' False TERMINAL_KNOWN None rid))
     | None \<Rightarrow> (case parse_docs lib limit (filter (\<lambda>e. local_name (xml_tag e) = cps ''doc'') (xml_iter tree)) [] 0 of
         (parsed, skipped) \<Rightarrow> Inr (parsed,
           if skipped = 0 then [] else [count_warning ''malformed_provider_item'' ''omitted_count'' skipped]))))"

definition yandex_search ::
  "provider_lib \<Rightarrow> YandexSearchSettings \<Rightarrow> rat option \<Rightarrow> instant \<Rightarrow> (json \<Rightarrow> rat \<Rightarrow> http_answer)
     \<Rightarrow> ProviderSearchRequest \<Rightarrow> (provider_exc + ProviderSearchResult) \<times> bool" where
  "yandex_search lib s remaining now client rq =
     (case yandex_validate s rq of Inl e \<Rightarrow> (Inl e, False)
      | Inr _ \<Rightarrow> (case provider_timeout (yx_request_timeout_seconds s) remaining of Inl e \<Rightarrow> (Inl e, False)
      | Inr timeout \<Rightarrow> (case (yx_folder_id s, yx_api_key s) of
          (Some folder_id, Some api_key) \<Rightarrow> (case yandex_payload s folder_id rq of Inl e \<Rightarrow> (Inl e, False)
            | Inr payload \<Rightarrow> (res_bind (stream_body yandex_fault (yandex_status_error lib) ''yandex_response_too_large''
                  (yx_max_response_bytes s) (client payload timeout)) (\<lambda>(r, body).
                res_bind (decode_response lib (yx_max_response_bytes s) (request_id r) body) (\<lambda>xml.
                res_bind (parse_xml lib xml (ps_limit rq) (request_id r)) (\<lambda>(results, warnings).
                  checked_result \<lparr>px_provider_id = YANDEX, px_results = results, px_retrieved_at = now,
                    px_next_page_available = None, px_provider_request_id = request_id r, px_warnings = warnings\<rparr>))), True))
        | _ \<Rightarrow> (Inl (PxAttempt (attempt_error INFRASTRUCTURE ''yandex_not_configured'' False BEFORE_DISPATCH None None)), False))))"

section \<open>What the adapters promise the search service\<close>

text \<open>A result fits its request and is well formed; an attempt error is a valid error that says
  \<open>BEFORE_DISPATCH\<close> exactly when no request can have reached the provider.\<close>

definition results_fit :: "provider_lib \<Rightarrow> int \<Rightarrow> SearchResultItem list \<Rightarrow> bool" where
  "results_fit lib limit items \<longleftrightarrow> int (length items) \<le> limit \<and> map si_rank items = map int [1..<Suc (length items)]
     \<and> list_all search_result_item_ok items
     \<and> (\<forall>x \<in> set items. si_title x \<noteq> [] \<and> si_url x \<noteq> [] \<and> result_host lib (si_url x) \<noteq> None)"

definition attempt_outcome_ok ::
  "provider_lib \<Rightarrow> SearchProviderId \<Rightarrow> http_answer \<Rightarrow> ProviderSearchRequest \<Rightarrow> (provider_exc + ProviderSearchResult) \<times> bool \<Rightarrow> bool" where
  "attempt_outcome_ok lib pid answer rq out = (case out of
     (Inr res, sent) \<Rightarrow> sent \<and> provider_result_ok res \<and> px_provider_id res = pid \<and> results_fit lib (ps_limit rq) (px_results res)
   | (Inl (PxAttempt e), sent) \<Rightarrow> operation_error_ok (ae_error e)
       \<and> (case ae_provider_request_id e of None \<Rightarrow> True | Some r \<Rightarrow> length r \<le> 256)
       \<and> (ae_stage e = BEFORE_DISPATCH \<longleftrightarrow> \<not> sent \<or> answer = Inl HttpConnect)
   | (Inl _, sent) \<Rightarrow> True)"

locale search_provider =
  fixes lib :: provider_lib and pid :: SearchProviderId
    and run :: "http_answer \<Rightarrow> ProviderSearchRequest \<Rightarrow> (provider_exc + ProviderSearchResult) \<times> bool"
  assumes outcome: "provider_request_ok rq \<Longrightarrow> attempt_outcome_ok lib pid answer rq (run answer rq)"
begin

text \<open>An attempt that a billable provider may repeat did not reach it.\<close>

lemma billable_retry_unsent:
  assumes "provider_request_ok rq" "run answer rq = (Inl (PxAttempt e), sent)" "retry_allowed True e"
  shows "\<not> sent \<or> answer = Inl HttpConnect"
  using outcome [OF assms(1), of answer] assms(2,3)
  by (auto simp: attempt_outcome_ok_def retry_allowed_def split: if_split_asm)

lemma result_fits:
  assumes "provider_request_ok rq" "run answer rq = (Inr res, sent)"
  shows "provider_result_ok res" "px_provider_id res = pid" "results_fit lib (ps_limit rq) (px_results res)" sent
  using outcome [OF assms(1), of answer] assms(2) by (simp_all add: attempt_outcome_ok_def)

end

subsection \<open>Building results\<close>

lemma results_fit_snoc:
  assumes "results_fit lib limit items" "int (length items) < limit"
    and "si_rank x = int (length items) + 1" "search_result_item_ok x" "si_title x \<noteq> []" "si_url x \<noteq> []"
    and "result_host lib (si_url x) \<noteq> None"
  shows "results_fit lib limit (items @ [x])"
  using assms by (auto simp: results_fit_def)

lemma results_fit_Nil: "0 \<le> limit \<Longrightarrow> results_fit lib limit []"
  by (simp add: results_fit_def)

lemma searxng_fields_ok:
  assumes "searxng_fields lib raw = Some (title, url, snippet, host)"
  shows "title \<noteq> []" "length title \<le> 4096" "url \<noteq> []" "length url \<le> 8192" "result_host lib url = Some host"
    "\<forall>x. snippet = Some x \<longrightarrow> length x \<le> 8192"
  using assms by (auto simp: searxng_fields_def split: json.split_asm option.split_asm if_split_asm)

lemma parse_results_from_fit:
  assumes "parse_results_from lib rs parsed skipped = Inr (items, n)"
    and "results_fit lib limit parsed" "int (length parsed) + int (length rs) \<le> limit"
  shows "results_fit lib limit items"
  using assms
proof (induction rs arbitrary: parsed skipped)
  case (Cons raw rs)
  show ?case
  proof (cases "searxng_fields lib raw")
    case None
    then show ?thesis using Cons by simp
  next
    case (Some f)
    obtain title url snippet host where f: "f = (title, url, snippet, host)" by (metis prod_cases4)
    note ok = searxng_fields_ok [OF Some [unfolded f]]
    obtain pub where rec: "parse_results_from lib rs (parsed @ [\<lparr>si_rank = int (length parsed) + 1, si_title = title, si_url = url,
         si_snippet = snippet, si_host = Some (take 1024 host), si_published_at = pub\<rparr>]) skipped = Inr (items, n)"
      using Cons.prems(1) Some f by (auto simp: res_simps)
    show ?thesis
      by (rule Cons.IH [OF rec])
        (use Cons.prems ok in \<open>auto intro!: results_fit_snoc simp: search_result_item_ok_def split: option.split\<close>)
  qed
qed simp

lemma yandex_fields_ok:
  assumes "yandex_fields lib doc = Some (title, url, host)"
  shows "title \<noteq> []" "length title \<le> 4096" "url \<noteq> []" "length url \<le> 8192" "result_host lib url = Some host"
  using assms by (auto simp: yandex_fields_def Let_def split: if_split_asm)

lemma yandex_snippet_bound: "yandex_snippet doc = Some x \<Longrightarrow> length x \<le> 8192"
  by (auto simp: yandex_snippet_def Let_def split: if_split_asm)

lemma parse_docs_fit:
  "parse_docs lib limit docs parsed skipped = (items, n) \<Longrightarrow> results_fit lib limit parsed \<Longrightarrow> results_fit lib limit items"
proof (induction docs arbitrary: parsed skipped)
  case (Cons doc docs)
  show ?case
  proof (cases "int (length parsed) \<ge> limit \<or> yandex_fields lib doc = None")
    case True
    then show ?thesis using Cons by (auto split: if_split_asm)
  next
    case False
    then obtain title url host where f: "yandex_fields lib doc = Some (title, url, host)" by (metis option.exhaust prod_cases3)
    note ok = yandex_fields_ok [OF f]
    have rec: "parse_docs lib limit docs (parsed @ [\<lparr>si_rank = int (length parsed) + 1,
          si_title = title, si_url = url, si_snippet = yandex_snippet doc, si_host = Some (take 1024 host),
          si_published_at = pl_strptime lib (element_text (last_child ''modtime'' doc))\<rparr>]) skipped = (items, n)"
      using Cons.prems(1) f False by simp
    show ?thesis
      by (rule Cons.IH [OF rec])
        (use Cons.prems False ok yandex_snippet_bound in \<open>auto intro!: results_fit_snoc simp: search_result_item_ok_def split: option.split\<close>)
  qed
qed simp

subsection \<open>Errors\<close>

lemma request_id_bound: "request_id r = Some x \<Longrightarrow> length x \<le> 256"
  by (auto simp: request_id_def split: option.split_asm if_split_asm)

text \<open>An error that may be raised after the request was sent, and one before.\<close>

definition sent_error :: "provider_exc \<Rightarrow> bool" where
  "sent_error x = (case x of PxAttempt e \<Rightarrow> operation_error_ok (ae_error e)
       \<and> (case ae_provider_request_id e of None \<Rightarrow> True | Some r \<Rightarrow> length r \<le> 256) \<and> ae_stage e \<noteq> BEFORE_DISPATCH | _ \<Rightarrow> True)"

definition unsent_error :: "provider_exc \<Rightarrow> bool" where
  "unsent_error x = (case x of PxAttempt e \<Rightarrow> operation_error_ok (ae_error e) \<and> ae_provider_request_id e = None
       \<and> ae_stage e = BEFORE_DISPATCH | _ \<Rightarrow> True)"

lemma sent_error_attempt [simp]:
  "sent_error (PxAttempt (attempt_error cat code retryable stage after rid)) \<longleftrightarrow> machine_code code \<and> stage \<noteq> BEFORE_DISPATCH
     \<and> (\<forall>n. after = Some n \<longrightarrow> 0 \<le> n) \<and> (\<forall>r. rid = Some r \<longrightarrow> length r \<le> 256)"
  "unsent_error (PxAttempt (attempt_error cat code retryable stage after rid)) \<longleftrightarrow> machine_code code \<and> stage = BEFORE_DISPATCH
     \<and> (\<forall>n. after = Some n \<longrightarrow> 0 \<le> n) \<and> rid = None"
  "sent_error PxValue" "sent_error PxOther" "unsent_error PxValue" "unsent_error PxOther"
  by (auto simp: sent_error_def unsent_error_def attempt_error_def operation_error_ok_def op_error_def split: option.split)

lemma decimal_value_nonneg: "0 \<le> decimal_value digit s"
proof -
  have "0 \<le> n \<Longrightarrow> 0 \<le> foldl (\<lambda>n c. 10 * n + int (the (digit c))) n s" for n
    by (induction s arbitrary: n) simp_all
  then show ?thesis by (simp add: decimal_value_def)
qed

lemma retry_after_ok: "retry_after lib r = Inr (Some n) \<Longrightarrow> 0 \<le> n" "retry_after lib r = Inl e \<Longrightarrow> e = PxValue"
  using decimal_value_nonneg by (auto simp: retry_after_def split: option.split_asm if_split_asm)

lemma provider_codes:
  "machine_code ''search_deadline_exceeded''" "machine_code ''searxng_response_too_large''" "machine_code ''searxng_unavailable''"
  "machine_code ''searxng_timeout''" "machine_code ''searxng_transport_error''" "machine_code ''searxng_rate_limited''"
  "machine_code ''searxng_upstream_error''" "machine_code ''searxng_request_rejected''" "machine_code ''searxng_malformed_response''"
  "machine_code ''yandex_unsupported_option''" "machine_code ''yandex_connect_failed''" "machine_code ''yandex_response_lost''"
  "machine_code ''yandex_rate_limited''" "machine_code ''yandex_upstream_error''" "machine_code ''provider_auth_rejected''"
  "machine_code ''provider_request_rejected''" "machine_code ''yandex_malformed_response''" "machine_code ''yandex_response_too_large''"
  "machine_code ''yandex_search_error''" "machine_code ''yandex_not_configured''"
  by (simp_all add: machine_code_def machine_char_def)

lemma bounded_body_error:
  "machine_code code \<Longrightarrow> (\<forall>x. rid = Some x \<longrightarrow> length x \<le> 256) \<Longrightarrow> bounded_body_from code m rid body cs = Inl e \<Longrightarrow> sent_error e"
  by (induction cs arbitrary: body) (auto split: if_split_asm)

lemma bounded_body_size:
  "bounded_body_from code m rid body cs = Inr res \<Longrightarrow> int (length body) \<le> m \<Longrightarrow> int (length res) \<le> m \<and> res = body @ concat cs"
  by (induction cs arbitrary: body) (fastforce split: if_split_asm)+

lemma stream_body_error:
  assumes "stream_body on_fault status_error code m answer = Inl e" "machine_code code"
    and "\<And>f. sent_error (on_fault (HttpRead f))" "\<And>r. sent_error (status_error r)"
  shows "answer = Inl HttpConnect \<and> e = on_fault HttpConnect \<or> answer \<noteq> Inl HttpConnect \<and> sent_error e"
proof (cases answer)
  case (Inl f)
  then show ?thesis using assms(1,3) by (cases f) (auto simp: stream_body_def)
next
  case (Inr r)
  then show ?thesis
    using assms bounded_body_error [OF assms(2), of "request_id r"] request_id_bound
    by (auto simp: stream_body_def split: if_split_asm sum.split_asm option.split_asm)
qed

lemma fault_errors:
  "sent_error (searxng_fault (HttpRead f))" "sent_error (yandex_fault (HttpRead f))"
  "unsent_error (searxng_fault HttpConnect)" "unsent_error (yandex_fault HttpConnect)"
  by (cases f; simp add: provider_codes)+

lemma status_errors: "sent_error (searxng_status_error lib r)" "sent_error (yandex_status_error lib r)"
  using request_id_bound [of r] retry_after_ok [of lib r]
  by (auto simp: searxng_status_error_def yandex_status_error_def provider_codes split: sum.split)

lemma decode_errors:
  "(\<forall>x. rid = Some x \<longrightarrow> length x \<le> 256) \<Longrightarrow> decode_payload lib rid body = Inl e \<Longrightarrow> sent_error e"
  "(\<forall>x. rid = Some x \<longrightarrow> length x \<le> 256) \<Longrightarrow> decode_response lib m rid body = Inl e \<Longrightarrow> sent_error e"
  "(\<forall>x. rid = Some x \<longrightarrow> length x \<le> 256) \<Longrightarrow> parse_xml lib xml limit rid = Inl e \<Longrightarrow> sent_error e"
  by (auto simp: decode_payload_def searxng_malformed_def decode_response_def yandex_malformed_def parse_xml_def provider_codes
      split: sum.split_asm loads_error.split_asm json_error.split_asm option.split_asm json.split_asm if_split_asm prod.split_asm)

lemma parse_results_error: "parse_results_from lib rs parsed skipped = Inl e \<Longrightarrow> sent_error e"
proof (induction rs arbitrary: parsed skipped)
  case (Cons raw rs)
  then show ?case
    by (auto simp: res_simps published_at_def split: option.split_asm prod.split_asm json.split_asm if_split_asm iso_result.split_asm)
qed simp

lemma parse_results_failed: "parse_results lib results limit = Inl e \<Longrightarrow> sent_error e"
  by (simp add: parse_results_def parse_results_error)

lemma outcome_sent:
  assumes "answer \<noteq> Inl HttpConnect" "sent_error e"
  shows "attempt_outcome_ok lib pid answer rq (Inl e, True)"
  using assms by (cases e) (auto simp: attempt_outcome_ok_def sent_error_def)

lemma outcome_unsent:
  assumes "unsent_error e" "\<not> sent \<or> answer = Inl HttpConnect"
  shows "attempt_outcome_ok lib pid answer rq (Inl e, sent)"
  using assms by (cases e) (auto simp: attempt_outcome_ok_def unsent_error_def)

lemma provider_timeout_error: "provider_timeout t r = Inl e \<Longrightarrow> unsent_error e"
  by (auto simp: provider_timeout_def provider_codes split: option.split_asm if_split_asm)

lemma outcome_result:
  assumes "provider_request_ok rq" "results_fit lib (ps_limit rq) items" "length warnings \<le> 16"
  shows "attempt_outcome_ok lib pid answer rq (checked_result \<lparr>px_provider_id = pid, px_results = items, px_retrieved_at = now,
    px_next_page_available = nx, px_provider_request_id = request_id r, px_warnings = warnings\<rparr>, True)"
  using assms request_id_bound [of r]
  by (auto simp: checked_result_def attempt_outcome_ok_def provider_result_ok_def results_fit_def provider_request_ok_def
      split: option.split)

lemma outcome_bind:
  assumes "answer \<noteq> Inl HttpConnect" "\<And>e. m = Inl e \<Longrightarrow> sent_error e"
    and "\<And>x. m = Inr x \<Longrightarrow> attempt_outcome_ok lib pid answer rq (f x, True)"
  shows "attempt_outcome_ok lib pid answer rq (res_bind m f, True)"
  using assms outcome_sent by (cases m) auto

lemma outcome_stream:
  assumes "machine_code code" "\<And>g. sent_error (on_fault (HttpRead g))" "\<And>r. sent_error (status_error r)"
    and "unsent_error (on_fault HttpConnect)"
    and "\<And>r body. answer \<noteq> Inl HttpConnect \<Longrightarrow> attempt_outcome_ok lib pid answer rq (f (r, body), True)"
  shows "attempt_outcome_ok lib pid answer rq (res_bind (stream_body on_fault status_error code m answer) f, True)"
proof (cases "stream_body on_fault status_error code m answer")
  case (Inl e)
  from stream_body_error [OF Inl assms(1-3)] show ?thesis
    using outcome_sent outcome_unsent assms(4) Inl by (metis res_bind.simps(1))
next
  case (Inr rb)
  then have "answer \<noteq> Inl HttpConnect" by (auto simp: stream_body_def)
  then show ?thesis using assms(5) Inr by (cases rb) auto
qed

lemma searxng_outcome:
  assumes "provider_request_ok rq"
  shows "attempt_outcome_ok lib SEARXNG answer rq (searxng_search lib s remaining now (\<lambda>_ _. answer) rq)"
proof (cases "ps_provider_id rq \<noteq> SEARXNG \<or> (\<exists>e. provider_timeout (sx_request_timeout_seconds s) remaining = Inl e)")
  case True
  then show ?thesis
    using outcome_unsent [OF provider_timeout_error] by (auto simp: searxng_search_def attempt_outcome_ok_def)
next
  case False
  then obtain t where t: "ps_provider_id rq = SEARXNG" "provider_timeout (sx_request_timeout_seconds s) remaining = Inr t"
    by (metis sum.exhaust)
  have lim: "0 \<le> ps_limit rq" using assms by (simp add: provider_request_ok_def)
  have fit: "results_fit lib (ps_limit rq) items" if "parse_results lib results (ps_limit rq) = Inr (items, n)" for results items n
    using parse_results_from_fit [OF that [unfolded parse_results_def] results_fit_Nil [OF lim]] lim by simp
  have warn: "length (parse_warnings payload @ (if n = 0 then [] else [x])) \<le> 16" for payload n x
    by (auto simp: parse_warnings_def split: option.split json.split)
  show ?thesis
    unfolding searxng_search_def t sum.case if_False simp_thms
  proof (rule outcome_stream [OF provider_codes(2) fault_errors(1) status_errors(1) fault_errors(3)])
    fix r body
    assume sent: "answer \<noteq> Inl HttpConnect"
    have rid: "\<forall>x. request_id r = Some x \<longrightarrow> length x \<le> 256" using request_id_bound by blast
    show "attempt_outcome_ok lib SEARXNG answer rq (case (r, body) of (r, body) \<Rightarrow>
       res_bind (decode_payload lib (request_id r) body) (\<lambda>(payload, results).
       res_bind (parse_results lib results (ps_limit rq)) (\<lambda>(parsed, skipped).
         checked_result \<lparr>px_provider_id = SEARXNG, px_results = parsed, px_retrieved_at = now,
           px_next_page_available = None, px_provider_request_id = request_id r, px_warnings = parse_warnings payload
             @ (if skipped = 0 then [] else [count_warning ''malformed_provider_item'' ''omitted_count'' skipped])\<rparr>)), True)"
      unfolding prod.case
    proof (rule outcome_bind [OF sent decode_errors(1) [OF rid]], assumption, split prod.split, intro allI impI)
      fix x payload results
      show "attempt_outcome_ok lib SEARXNG answer rq (res_bind (parse_results lib results (ps_limit rq)) (\<lambda>(parsed, skipped).
         checked_result \<lparr>px_provider_id = SEARXNG, px_results = parsed, px_retrieved_at = now,
           px_next_page_available = None, px_provider_request_id = request_id r, px_warnings = parse_warnings payload
             @ (if skipped = 0 then [] else [count_warning ''malformed_provider_item'' ''omitted_count'' skipped])\<rparr>), True)"
        by (rule outcome_bind [OF sent parse_results_failed], assumption)
          (auto intro!: outcome_result [OF assms fit warn])
    qed
  qed
qed

lemma yandex_validate_error: "yandex_validate s rq = Inl e \<Longrightarrow> unsent_error e"
  by (auto simp: yandex_validate_def yandex_unsupported_def provider_codes split: if_split_asm option.split_asm)

lemma yandex_payload_ok: "yandex_validate s rq = Inr () \<Longrightarrow> \<exists>p. yandex_payload s folder_id rq = Inr p"
  by (cases "ps_time_range rq"; cases "the (ps_time_range rq)")
    (auto simp: yandex_validate_def yandex_payload_def Let_def split: if_split_asm)

lemma parse_xml_fit:
  "0 \<le> limit \<Longrightarrow> parse_xml lib xml limit rid = Inr (items, warnings) \<Longrightarrow> results_fit lib limit items \<and> length warnings \<le> 16"
  by (auto simp: parse_xml_def results_fit_Nil split: option.split_asm if_split_asm prod.split_asm
      dest!: parse_docs_fit [OF _ results_fit_Nil])

lemma yandex_outcome:
  assumes "provider_request_ok rq"
  shows "attempt_outcome_ok lib YANDEX answer rq (yandex_search lib s remaining now (\<lambda>_ _. answer) rq)"
proof (cases "(\<exists>e. yandex_validate s rq = Inl e) \<or> (\<exists>e. provider_timeout (yx_request_timeout_seconds s) remaining = Inl e)
    \<or> yx_folder_id s = None \<or> yx_api_key s = None")
  case True
  then show ?thesis
    using outcome_unsent [OF provider_timeout_error] outcome_unsent [OF yandex_validate_error]
      outcome_unsent [of "PxAttempt (attempt_error INFRASTRUCTURE ''yandex_not_configured'' False BEFORE_DISPATCH None None)"]
    by (auto simp: yandex_search_def provider_codes split: sum.split option.split)
next
  case False
  then obtain t folder key where t: "yandex_validate s rq = Inr ()" "provider_timeout (yx_request_timeout_seconds s) remaining = Inr t"
      "yx_folder_id s = Some folder" "yx_api_key s = Some key"
    by (metis (full_types) sum.exhaust option.exhaust unit.exhaust)
  obtain payload where p: "yandex_payload s folder rq = Inr payload" using yandex_payload_ok [OF t(1)] by blast
  have lim: "0 \<le> ps_limit rq" using assms by (simp add: provider_request_ok_def)
  show ?thesis
    unfolding yandex_search_def t p sum.case option.case prod.case
  proof (rule outcome_stream [OF provider_codes(18) fault_errors(2) status_errors(2) fault_errors(4)])
    fix r body
    assume sent: "answer \<noteq> Inl HttpConnect"
    have rid: "\<forall>x. request_id r = Some x \<longrightarrow> length x \<le> 256" using request_id_bound by blast
    show "attempt_outcome_ok lib YANDEX answer rq (case (r, body) of (r, body) \<Rightarrow>
       res_bind (decode_response lib (yx_max_response_bytes s) (request_id r) body) (\<lambda>xml.
       res_bind (parse_xml lib xml (ps_limit rq) (request_id r)) (\<lambda>(results, warnings).
         checked_result \<lparr>px_provider_id = YANDEX, px_results = results, px_retrieved_at = now,
           px_next_page_available = None, px_provider_request_id = request_id r, px_warnings = warnings\<rparr>)), True)"
      unfolding prod.case
      by (rule outcome_bind [OF sent decode_errors(2) [OF rid]], assumption,
          rule outcome_bind [OF sent decode_errors(3) [OF rid]], assumption)
        (auto intro!: outcome_result [OF assms] dest: parse_xml_fit [OF lim])
  qed
qed

interpretation searxng: search_provider lib SEARXNG "\<lambda>answer. searxng_search lib s remaining now (\<lambda>_ _. answer)"
  for lib s remaining now by unfold_locales (rule searxng_outcome)

interpretation yandex: search_provider lib YANDEX "\<lambda>answer. yandex_search lib s remaining now (\<lambda>_ _. answer)"
  for lib s remaining now by unfold_locales (rule yandex_outcome)

subsection \<open>Planned requests\<close>

lemma region_mapping_accepted:
  assumes "region_mapping_ok m" "rm_provider_id m = YANDEX"
  shows "fullmatch yandex_region_rx (rm_provider_region m)"
proof (cases "rm_provider_region m")
  case Nil
  then show ?thesis using assms by (simp add: region_mapping_ok_def)
next
  case (Cons c t)
  then have "ascii_digit c" "list_all ascii_digit t" "length t \<le> 99" "c \<noteq> CHR ''0''"
    using assms by (auto simp: region_mapping_ok_def starts_with_def)
  then show ?thesis by (simp add: Cons fullmatch_lang yandex_region_rx_def seq_cls rep_cls)
qed

lemma provider_region_mapping:
  assumes "provider_region reg rid pid = Inr x" "list_all region_entry_ok (rr_entries reg)"
  shows "\<exists>m. region_mapping_ok m \<and> rm_provider_id m = pid \<and> rm_provider_region m = x"
  using assms
  by (auto simp: provider_region_def region_entry_ok_def list_all_iff split: option.split_asm dest!: distinct_map_find)

section \<open>Properties\<close>


text \<open>A server with one good result, one without URL and an engine that did not respond.\<close>

definition demo_provider_lib :: provider_lib where
  "demo_provider_lib = \<lparr>pl_unicode = \<lparr>ul_lower = map ascii_lower_cp, ul_nfkc = (\<lambda>s. s), ul_idna = Some\<rparr>,
     pl_codec = (\<lambda>enc b. Some b), pl_digit = (\<lambda>c. None), pl_fromisoformat = (\<lambda>v. IsoInvalid), pl_strptime = (\<lambda>v. None),
     pl_xml = (\<lambda>b. None)\<rparr>"

definition demo_searxng :: SearxngSettings where
  "demo_searxng = \<lparr>sx_enabled = True, sx_endpoint = ''http://searxng:8080/'', sx_profile_revision = ''searxng-1'', sx_request_timeout_seconds = 10,
     sx_max_response_bytes = 2048, sx_max_results = 10, sx_fields_set = [''endpoint'']\<rparr>"

definition demo_answer :: http_answer where
  "demo_answer = Inr \<lparr>hr_status = 200, hr_header = (\<lambda>h. None), hr_chunks =
     [[123, 34], cps ''results'', [34, 58, 91, 123, 34], cps ''title'', [34, 58, 34], cps ''T'', [34, 44, 34], cps ''url'', [34, 58, 34],
      cps ''http://a.bc/'', [34, 125, 44, 123, 125, 93, 125]], hr_end = None\<rparr>"

definition demo_provider_request :: ProviderSearchRequest where
  "demo_provider_request = provider_request demo_search_query SEARXNG None"


text \<open>A query the service plans for Yandex is one the Yandex adapter accepts. When the registry resolves a
  query to the descriptor of the adapter and its capabilities and region mapping admit the query,
  the checks of the adapter before dispatch all pass, so a planned request never fails there.\<close>
theorem planned_request_accepted:
  assumes "item_plan sv q = Inr (d, region)" "d = yandex_descriptor s canonical"
    and "list_all region_entry_ok (rr_entries (ss_regions sv))"
  shows "yandex_validate s (provider_request q (pd_provider_id d) region) = Inr ()"
proof -
  have cap: "unsupported_options (pd_capabilities d) q = []" and reg: "item_region sv q YANDEX = Inr region"
    using assms(1,2) by (auto simp: item_plan_def res_simps validate_capabilities_def yandex_descriptor_def split: if_split_asm)
  have "yx_search_type s \<in> set region_search_types \<and> fullmatch yandex_region_rx x" if "region = Some x" for x
  proof
    from reg that obtain r where r: "sq_region q = Some r" "provider_region (ss_regions sv) r YANDEX = Inr x"
      by (auto simp: item_region_def res_simps split: option.split_asm elim: lift_resolution.elims)
    show "fullmatch yandex_region_rx x"
      using provider_region_mapping [OF r(2) assms(3)] region_mapping_accepted by blast
    show "yx_search_type s \<in> set region_search_types"
      using cap r(1) assms(2) by (auto simp: unsupported_options_def yandex_descriptor_def split: if_split_asm)
  qed
  then show ?thesis
    using cap assms(2)
    by (auto simp: yandex_validate_def provider_request_def unsupported_options_def yandex_descriptor_def
        split: if_split_asm option.split option.split_asm)
qed

definition demo_yandex :: YandexSearchSettings where
  "demo_yandex = \<lparr>yx_enabled = True, yx_endpoint = ''https://yandex/search'', yx_folder_id = Some ''f'', yx_api_key = Some ''k'', yx_search_type = ''SEARCH_TYPE_RU'',
     yx_profile_revision = ''yandex-1'', yx_request_timeout_seconds = 10, yx_max_response_bytes = 2048, yx_max_results = 50\<rparr>"

definition demo_regions :: region_registry where
  "demo_regions = \<lparr>rr_entries = [\<lparr>re_region_id = ''moscow'', re_label = ''Moscow'', re_mappings = [\<lparr>rm_provider_id = YANDEX, rm_provider_region = ''213''\<rparr>]\<rparr>],
     rr_revision = ''r''\<rparr>"

theorem planned_request_accepted_witness:
  "\<exists>sv. item_plan sv (demo_search_query\<lparr>sq_region := Some ''moscow''\<rparr>) = Inr (yandex_descriptor demo_yandex [], Some ''213'')
     \<and> yandex_validate demo_yandex (provider_request (demo_search_query\<lparr>sq_region := Some ''moscow''\<rparr>) YANDEX (Some ''213'')) = Inr ()"
proof -
  let ?sv = "(demo_service MODE_DISABLED (\<lambda>_. 0) demo_miss)\<lparr>ss_providers := \<lparr>pr_providers = [yandex_descriptor demo_yandex []],
      pr_default = YANDEX\<rparr>, ss_regions := demo_regions\<rparr>"
  let ?q = "demo_search_query\<lparr>sq_region := Some ''moscow''\<rparr>"
  have plan: "item_plan ?sv ?q = Inr (yandex_descriptor demo_yandex [], Some ''213'')"
    by (simp add: item_plan_def resolve_def demo_search_query_def find_provider_def validate_capabilities_def
        unsupported_options_def item_region_def provider_region_def demo_regions_def yandex_descriptor_def demo_yandex_def
        region_search_types_def split_ws_def is_space_def)
  have "list_all region_entry_ok (rr_entries (ss_regions ?sv))"
    by (simp add: demo_regions_def region_entry_ok_def region_mapping_ok_def search_region_ok_def region_rx_def fullmatch_lang
        seq_cls rep_cls ascii_lower_def ascii_digit_def in_range_def starts_with_def)
  from planned_request_accepted [OF plan refl this] plan show ?thesis by (auto simp: yandex_descriptor_def)
qed

end
