(* ===== verification/Access.thy ===== *)
theory Access
  imports Common Json Regex Url "HOL-Library.Char_ord" "HOL-Library.List_Lexorder"
begin

section \<open>Principals and bearer authentication\<close>

text \<open>
  The principals of the configuration (\<open>PrincipalSettings\<close> and \<open>AuthSettings\<close> of \<open>core/config.py\<close>), the static
  bearer provider (\<open>infrastructure/auth/static_bearer.py\<close>), and the two transports that authenticate
  with it (\<open>transport/rest/auth.py\<close>, \<open>transport/mcp/auth.py\<close>).
\<close>

subsection \<open>Configuration\<close>

text \<open>\<open>NonEmptyText\<close>.\<close>

definition name_char :: "char \<Rightarrow> bool" where
  "name_char c \<longleftrightarrow> ascii_alnum c \<or> c \<in> set ''_.:@*-''"

definition non_empty_text :: "string \<Rightarrow> bool" where
  "non_empty_text s \<longleftrightarrow> 1 \<le> length s \<and> length s \<le> 128 \<and> list_all name_char s"

text \<open>The scopes are a \<open>frozenset\<close>, listed here by its elements.\<close>

record PrincipalSettings =
  ps_principal_id :: string
  ps_tokens :: "ustr list"
  ps_scopes :: "string list"

definition validate_tokens :: "ustr list \<Rightarrow> bool" where
  "validate_tokens raw \<longleftrightarrow> (\<forall>t \<in> set raw. strip_by uni_space t \<noteq> []) \<and> (\<forall>t \<in> set raw. 16 \<le> length t) \<and> distinct raw"

definition principal_ok :: "PrincipalSettings \<Rightarrow> bool" where
  "principal_ok p \<longleftrightarrow> non_empty_text (ps_principal_id p) \<and> ps_tokens p \<noteq> [] \<and> validate_tokens (ps_tokens p)
     \<and> ps_scopes p \<noteq> [] \<and> list_all non_empty_text (ps_scopes p)"

text \<open>\<open>PrincipalSettings.model_validate\<close> of an entry of the principals file.\<close>

fun json_strs :: "json list \<Rightarrow> ustr list option" where
  "json_strs [] = Some []"
| "json_strs (JStr s # vs) = map_option (\<lambda>r. s # r) (json_strs vs)"
| "json_strs (_ # _) = None"

definition latin :: "ustr \<Rightarrow> string option" where
  "latin s = (if list_all (\<lambda>c. c < 256) s then Some (map char_of s) else None)"

definition latin_all :: "ustr list \<Rightarrow> string list option" where
  "latin_all ss = (if list_all (\<lambda>s. latin s \<noteq> None) ss then Some (map (\<lambda>s. map char_of s) ss) else None)"

definition principal_of_json :: "json \<Rightarrow> PrincipalSettings option" where
  "principal_of_json v = (case v of JObj ms \<Rightarrow>
     if \<not> set (map fst ms) \<subseteq> set [cps ''principal_id'', cps ''tokens'', cps ''scopes''] then None
     else (case (map_of ms (cps ''principal_id''), map_of ms (cps ''tokens''), map_of ms (cps ''scopes'')) of
       (Some (JStr pid), Some (JArr ts), Some (JArr ss)) \<Rightarrow>
         (case (latin pid, json_strs ts, Option.bind (json_strs ss) latin_all) of
           (Some i, Some tokens, Some scopes) \<Rightarrow>
             let p = \<lparr>ps_principal_id = i, ps_tokens = tokens, ps_scopes = scopes\<rparr> in
             if principal_ok p then Some p else None
         | _ \<Rightarrow> None)
     | _ \<Rightarrow> None)
   | _ \<Rightarrow> None)"

fun principals_of_json :: "json list \<Rightarrow> PrincipalSettings list option" where
  "principals_of_json [] = Some []"
| "principals_of_json (v # vs) = (case principal_of_json v of None \<Rightarrow> None
     | Some p \<Rightarrow> map_option (\<lambda>r. p # r) (principals_of_json vs))"

text \<open>\<open>read_text\<close> of the principals file is an argument: \<open>None\<close> where it raises. An object has no valid
  entries among its keys, so only an empty one passes, as an empty array does.\<close>

definition load_principals :: "(string \<Rightarrow> ustr option) \<Rightarrow> string \<Rightarrow> PrincipalSettings list option" where
  "load_principals read_text path = (case read_text path of None \<Rightarrow> None
     | Some t \<Rightarrow> (case json_loads t of
         Inr (JArr vs) \<Rightarrow> principals_of_json vs
       | Inr (JObj []) \<Rightarrow> Some []
       | Inr (JStr []) \<Rightarrow> Some []
       | _ \<Rightarrow> None))"

record AuthSettings =
  as_principals :: "PrincipalSettings list"
  as_principals_file :: "string option"
  as_diagnostic_scope :: string

definition registry_ok :: "PrincipalSettings list \<Rightarrow> bool" where
  "registry_ok ps \<longleftrightarrow> distinct (map ps_principal_id ps) \<and> distinct (concat (map ps_tokens ps))"

definition load_and_validate_registry :: "(string \<Rightarrow> ustr option) \<Rightarrow> AuthSettings \<Rightarrow> AuthSettings option" where
  "load_and_validate_registry read_text s =
     (if \<not> list_all principal_ok (as_principals s) \<or> \<not> non_empty_text (as_diagnostic_scope s) then None
      else if as_principals s \<noteq> [] \<and> as_principals_file s \<noteq> None then None
      else case (case as_principals_file s of None \<Rightarrow> Some (as_principals s) | Some path \<Rightarrow> load_principals read_text path) of
        None \<Rightarrow> None
      | Some ps \<Rightarrow> if registry_ok ps then Some (s\<lparr>as_principals := ps\<rparr>) else None)"

subsection \<open>The static bearer provider\<close>

record Credential =
  cr_principal :: PrincipalContext
  cr_secret :: ustr

definition principal_context :: "PrincipalSettings \<Rightarrow> PrincipalContext" where
  "principal_context p = \<lparr>pc_principal_id = ps_principal_id p, pc_scopes = set (ps_scopes p), pc_registry_revision = Some ''static-v1''\<rparr>"

definition static_bearer :: "PrincipalSettings list \<Rightarrow> Credential list option" where
  "static_bearer principals = (if principals = [] then None
     else Some (concat (map (\<lambda>p. map (\<lambda>t. \<lparr>cr_principal = principal_context p, cr_secret = t\<rparr>) (ps_tokens p)) principals)))"

text \<open>\<open>secrets.compare_digest\<close> of two texts raises \<open>TypeError\<close> unless both are ASCII.\<close>

datatype auth_exc = NonAsciiText | RestAuthenticationError AuthenticationFailure

definition is_ascii :: "ustr \<Rightarrow> bool" where
  "is_ascii s \<longleftrightarrow> list_all (\<lambda>c. c < 128) s"

definition compare_digest :: "ustr \<Rightarrow> ustr \<Rightarrow> auth_exc + bool" where
  "compare_digest a b = (if is_ascii a \<and> is_ascii b then Inr (a = b) else Inl NonAsciiText)"

fun match_credentials :: "ustr \<Rightarrow> Credential list \<Rightarrow> PrincipalContext option \<Rightarrow> auth_exc + PrincipalContext option" where
  "match_credentials credential [] matched = Inr matched"
| "match_credentials credential (c # cs) matched = res_bind (compare_digest credential (cr_secret c)) (\<lambda>equal.
     match_credentials credential cs (if equal then Some (cr_principal c) else matched))"

definition authenticate :: "Credential list \<Rightarrow> ustr \<Rightarrow> auth_exc + PrincipalContext option" where
  "authenticate cs credential = match_credentials credential cs None"

subsection \<open>REST and MCP\<close>

definition authenticate_header ::
  "(ustr \<Rightarrow> auth_exc + PrincipalContext option) \<Rightarrow> string option \<Rightarrow> auth_exc + PrincipalContext" where
  "authenticate_header provider authorization = (case authorization of
     None \<Rightarrow> Inl (RestAuthenticationError MISSING_CREDENTIALS)
   | Some header \<Rightarrow> (case partition_at CHR '' '' header of (scheme, separator, credential) \<Rightarrow>
       if \<not> separator \<or> str_lower scheme \<noteq> ''bearer'' \<or> str_strip credential = []
       then Inl (RestAuthenticationError INVALID_CREDENTIALS)
       else res_bind (provider (cps (str_strip credential))) (\<lambda>found. case found of
         None \<Rightarrow> Inl (RestAuthenticationError INVALID_CREDENTIALS)
       | Some p \<Rightarrow> Inr p)))"

record AccessToken =
  at_token :: ustr
  at_client_id :: string
  at_scopes :: "string list"
  at_claims :: "(string \<times> string option) list"

definition verify_token ::
  "(ustr \<Rightarrow> auth_exc + PrincipalContext option) \<Rightarrow> ustr \<Rightarrow> auth_exc + AccessToken option" where
  "verify_token provider token = res_bind (provider token) (\<lambda>found. case found of
     None \<Rightarrow> Inr None
   | Some p \<Rightarrow> Inr (Some \<lparr>at_token = token, at_client_id = pc_principal_id p,
       at_scopes = sorted_list_of_set (pc_scopes p),
       at_claims = [(''principal_type'', Some ''service''), (''registry_revision'', pc_registry_revision p)]\<rparr>))"

definition principal_from_access_token :: "AccessToken \<Rightarrow> PrincipalContext" where
  "principal_from_access_token t = \<lparr>pc_principal_id = at_client_id t, pc_scopes = set (at_scopes t),
     pc_registry_revision = (case map_of (at_claims t) ''registry_revision'' of Some (Some r) \<Rightarrow> Some r | _ \<Rightarrow> None)\<rparr>"

subsection \<open>The port\<close>

text \<open>What the transports rely on: an \<open>AuthProvider\<close> answers for every ASCII credential with the one principal the
  configuration grants it to, and raises for other texts.\<close>

locale auth_provider =
  fixes valid :: "'cfg \<Rightarrow> bool"
    and lookup :: "'cfg \<Rightarrow> ustr \<Rightarrow> auth_exc + PrincipalContext option"
    and grants :: "'cfg \<Rightarrow> ustr \<Rightarrow> PrincipalContext \<Rightarrow> bool"
  assumes lookup_grants: "valid c \<Longrightarrow> is_ascii t \<Longrightarrow> lookup c t = Inr (Some p) \<longleftrightarrow> grants c t p"
    and lookup_total: "valid c \<Longrightarrow> is_ascii t \<Longrightarrow> \<exists>r. lookup c t = Inr r"
    and lookup_non_ascii: "valid c \<Longrightarrow> \<not> is_ascii t \<Longrightarrow> lookup c t = Inl NonAsciiText"
    and grants_ok: "valid c \<Longrightarrow> grants c t p \<Longrightarrow> t \<noteq> [] \<and> is_ascii t \<and> finite (pc_scopes p)"
begin

lemma lookup_iff: "valid c \<Longrightarrow> lookup c t = Inr (Some p) \<longleftrightarrow> grants c t p"
  using lookup_grants lookup_non_ascii grants_ok by (metis Inl_Inr_False)

lemma grants_unique: "valid c \<Longrightarrow> grants c t p \<Longrightarrow> grants c t q \<Longrightarrow> p = q"
  using lookup_iff by (metis option.inject sum.inject(2))

text \<open>A header is accepted exactly when it is a bearer scheme with a granted credential.\<close>

lemma header_iff:
  assumes "valid c"
  shows "authenticate_header (lookup c) (Some h) = Inr p \<longleftrightarrow>
    (\<exists>scheme rest. h = scheme @ CHR '' '' # rest \<and> CHR '' '' \<notin> set scheme \<and> str_lower scheme = ''bearer''
       \<and> grants c (cps (str_strip rest)) p)"
proof (cases "CHR '' '' \<in> set h")
  case True
  then obtain scheme rest where h: "h = scheme @ CHR '' '' # rest" "CHR '' '' \<notin> set scheme"
    by (meson split_list_first)
  have accept: "authenticate_header (lookup c) (Some h) = Inr p \<longleftrightarrow>
      str_lower scheme = ''bearer'' \<and> str_strip rest \<noteq> [] \<and> lookup c (cps (str_strip rest)) = Inr (Some p)"
    using h by (cases "lookup c (cps (str_strip rest))")
      (auto simp: authenticate_header_def partition_at_def takeWhile_append dropWhile_append split: option.splits)
  have "cps (str_strip rest) \<noteq> []" if "grants c (cps (str_strip rest)) p"
    using grants_ok [OF assms that] by blast
  then have accept': "authenticate_header (lookup c) (Some h) = Inr p \<longleftrightarrow>
      str_lower scheme = ''bearer'' \<and> grants c (cps (str_strip rest)) p"
    unfolding accept lookup_iff [OF assms] by (auto simp: cps_def)
  have "scheme' = scheme \<and> rest' = rest" if "h = scheme' @ CHR '' '' # rest'" "CHR '' '' \<notin> set scheme'" for scheme' rest'
    using partition_at_append [OF h(2), of rest] partition_at_append [OF that(2), of rest'] unfolding h(1) [symmetric] that(1) [symmetric] by simp
  then show ?thesis unfolding accept' using h by blast
next
  case False
  then show ?thesis by (auto simp: authenticate_header_def partition_at_def)
qed

text \<open>The token the MCP transport makes gives back the principal.\<close>

lemma token_iff:
  assumes "valid c"
  shows "(\<exists>t. verify_token (lookup c) credential = Inr (Some t) \<and> principal_from_access_token t = p) \<longleftrightarrow> grants c credential p"
proof -
  have "principal_from_access_token \<lparr>at_token = credential, at_client_id = pc_principal_id q, at_scopes = sorted_list_of_set (pc_scopes q),
       at_claims = [(''principal_type'', Some ''service''), (''registry_revision'', pc_registry_revision q)]\<rparr> = q"
    if "grants c credential q" for q
    using grants_ok [OF assms that]
    by (simp add: principal_from_access_token_def split: option.split)
  moreover have "(\<exists>t. verify_token (lookup c) credential = Inr (Some t) \<and> principal_from_access_token t = p) \<longleftrightarrow>
     (\<exists>q. lookup c credential = Inr (Some q) \<and>
        principal_from_access_token \<lparr>at_token = credential, at_client_id = pc_principal_id q, at_scopes = sorted_list_of_set (pc_scopes q),
          at_claims = [(''principal_type'', Some ''service''), (''registry_revision'', pc_registry_revision q)]\<rparr> = p)"
    by (cases "lookup c credential") (auto simp: verify_token_def split: option.splits)
  ultimately show ?thesis unfolding lookup_iff [OF assms] by metis
qed

end

subsection \<open>The static provider implements it\<close>

definition bearer_grants :: "PrincipalSettings list \<Rightarrow> ustr \<Rightarrow> PrincipalContext \<Rightarrow> bool" where
  "bearer_grants ps t p \<longleftrightarrow> (\<exists>s \<in> set ps. t \<in> set (ps_tokens s) \<and> p = principal_context s)"

definition bearer_valid :: "PrincipalSettings list \<Rightarrow> bool" where
  "bearer_valid ps \<longleftrightarrow> ps \<noteq> [] \<and> list_all principal_ok ps \<and> registry_ok ps \<and> (\<forall>s \<in> set ps. \<forall>t \<in> set (ps_tokens s). is_ascii t)"

definition bearer_lookup :: "PrincipalSettings list \<Rightarrow> ustr \<Rightarrow> auth_exc + PrincipalContext option" where
  "bearer_lookup ps t = (case static_bearer ps of None \<Rightarrow> Inr None | Some cs \<Rightarrow> authenticate cs t)"

lemma match_credentials_ascii:
  assumes "is_ascii t" "\<forall>c \<in> set cs. is_ascii (cr_secret c)"
  shows "\<exists>r. match_credentials t cs m = Inr r
    \<and> (r = m \<and> (\<forall>c \<in> set cs. cr_secret c \<noteq> t) \<or> (\<exists>c \<in> set cs. cr_secret c = t \<and> r = Some (cr_principal c)))"
  using assms(2)
proof (induction cs arbitrary: m)
  case (Cons c cs)
  have rest: "\<forall>c \<in> set cs. is_ascii (cr_secret c)" and secret: "is_ascii (cr_secret c)" using Cons.prems by auto
  show ?case
  proof (cases "cr_secret c = t")
    case True
    then show ?thesis using Cons.IH [OF rest, of "Some (cr_principal c)"] assms(1) by (auto simp: compare_digest_def)
  next
    case False
    then show ?thesis using Cons.IH [OF rest, of m] assms(1) secret by (auto simp: compare_digest_def)
  qed
qed simp

lemma match_credentials_non_ascii:
  "cs \<noteq> [] \<Longrightarrow> \<not> is_ascii t \<Longrightarrow> match_credentials t cs m = Inl NonAsciiText"
  by (cases cs) (simp_all add: compare_digest_def)

text \<open>One configured credential that is not ASCII makes every authentication raise.\<close>

lemma match_credentials_bad_secret:
  "\<exists>c \<in> set cs. \<not> is_ascii (cr_secret c) \<Longrightarrow> match_credentials t cs m = Inl NonAsciiText"
  by (induction cs arbitrary: m) (auto simp: compare_digest_def)

lemma static_bearer_secrets:
  assumes "static_bearer ps = Some cs"
  shows "(\<exists>c \<in> set cs. cr_secret c = t \<and> p = cr_principal c) \<longleftrightarrow> bearer_grants ps t p"
    and "(\<forall>c \<in> set cs. P (cr_secret c)) \<longleftrightarrow> (\<forall>s \<in> set ps. \<forall>t \<in> set (ps_tokens s). P t)"
  using assms by (auto simp: static_bearer_def bearer_grants_def split: if_split_asm) force+

lemma distinct_concat_owner:
  assumes "distinct (concat (map f xs))" "x \<in> set xs" "y \<in> set xs" "t \<in> set (f x)" "t \<in> set (f y)"
  shows "x = y"
  using assms by (induction xs) auto

lemma bearer_grants_owner:
  assumes "registry_ok ps" "bearer_grants ps t p" "bearer_grants ps t q"
  shows "p = q"
proof -
  obtain s s' where s: "s \<in> set ps" "s' \<in> set ps" "t \<in> set (ps_tokens s)" "t \<in> set (ps_tokens s')"
      "p = principal_context s" "q = principal_context s'"
    using assms(2,3) by (auto simp: bearer_grants_def)
  moreover have "s = s'"
    using distinct_concat_owner [of ps_tokens ps s s' t] assms(1) s by (simp add: registry_ok_def)
  ultimately show ?thesis by simp
qed

lemma bearer_lookup_ascii:
  assumes "bearer_valid ps" "is_ascii t"
  obtains r where "bearer_lookup ps t = Inr r" "\<And>p. r = Some p \<longleftrightarrow> bearer_grants ps t p"
proof -
  obtain cs where cs: "static_bearer ps = Some cs" using assms(1) by (auto simp: bearer_valid_def static_bearer_def)
  have "\<forall>c \<in> set cs. is_ascii (cr_secret c)"
    using static_bearer_secrets(2) [OF cs, of is_ascii] assms(1) by (auto simp: bearer_valid_def)
  from match_credentials_ascii [OF assms(2) this, of None] obtain r where r: "bearer_lookup ps t = Inr r"
      "r = None \<and> (\<forall>c \<in> set cs. cr_secret c \<noteq> t) \<or> (\<exists>c \<in> set cs. cr_secret c = t \<and> r = Some (cr_principal c))"
    by (auto simp: bearer_lookup_def cs authenticate_def)
  have "r = Some p \<longleftrightarrow> bearer_grants ps t p" for p
    using r(2) static_bearer_secrets(1) [OF cs, of t] bearer_grants_owner [of ps t p] assms(1)
    unfolding bearer_valid_def by (metis option.distinct(1) option.inject)
  then show thesis using that r(1) by blast
qed

interpretation bearer: auth_provider bearer_valid bearer_lookup bearer_grants
proof
  fix ps t p
  assume valid: "bearer_valid ps"
  { assume "is_ascii t"
    then obtain r where "bearer_lookup ps t = Inr r" "\<And>p. r = Some p \<longleftrightarrow> bearer_grants ps t p"
      using bearer_lookup_ascii [OF valid] by blast
    then show "bearer_lookup ps t = Inr (Some p) \<longleftrightarrow> bearer_grants ps t p" "\<exists>r. bearer_lookup ps t = Inr r" by auto }
  { assume non: "\<not> is_ascii t"
    obtain cs where cs: "static_bearer ps = Some cs" "cs \<noteq> []"
      using valid by (cases ps) (auto simp: bearer_valid_def static_bearer_def principal_ok_def)
    show "bearer_lookup ps t = Inl NonAsciiText"
      using match_credentials_non_ascii [OF cs(2) non] by (simp add: bearer_lookup_def cs(1) authenticate_def) }
  { assume "bearer_grants ps t p"
    then obtain s where "s \<in> set ps" "t \<in> set (ps_tokens s)" "p = principal_context s" by (auto simp: bearer_grants_def)
    then show "t \<noteq> [] \<and> is_ascii t \<and> finite (pc_scopes p)"
      using valid by (fastforce simp: bearer_valid_def principal_ok_def validate_tokens_def list_all_iff principal_context_def strip_by_def) }
qed

text \<open>The registry a valid configuration yields.\<close>

lemma principals_of_json_ok: "principals_of_json vs = Some ps \<Longrightarrow> list_all principal_ok ps"
proof (induction vs arbitrary: ps)
  case (Cons v vs)
  have "principal_ok p" if "principal_of_json v = Some p" for p
    using that by (auto simp: principal_of_json_def Let_def split: json.split_asm if_split_asm option.split_asm)
  then show ?case using Cons by (auto split: option.split_asm)
qed simp

lemma loaded_registry:
  assumes "load_and_validate_registry read_text s = Some s'"
  shows "list_all principal_ok (as_principals s') \<and> registry_ok (as_principals s')"
  using assms principals_of_json_ok
  by (auto simp: load_and_validate_registry_def load_principals_def
      split: if_split_asm option.split_asm sum.split_asm json.split_asm list.split_asm)

section \<open>Properties\<close>


definition demo_registry :: "PrincipalSettings list" where
  "demo_registry = [\<lparr>ps_principal_id = ''agent'', ps_tokens = [cps ''agent-token-0000001'', cps ''agent-token-0000002''], ps_scopes = [''search:read'']\<rparr>,
     \<lparr>ps_principal_id = ''admin'', ps_tokens = [cps ''admin-token-0000001''], ps_scopes = [''*'']\<rparr>]"

definition demo_auth :: AuthSettings where
  "demo_auth = \<lparr>as_principals = demo_registry, as_principals_file = None, as_diagnostic_scope = ''admin:read''\<rparr>"


end
