(* ===== verification/Content_Cursor.thy ===== *)
theory Content_Cursor
  imports Codecs Content_Service
begin

section \<open>Signed paging cursors\<close>

text \<open>
  \<open>infrastructure/content/cursor.py\<close>: the claims of a cursor are printed as JSON, signed with HMAC-SHA-256
  and written as two base64url parts. The codecs of \<open>bytes.decode\<close> are an argument; the property
  uses of them that UTF-8 reads ASCII as it is.
\<close>

text \<open>\<open>_encode\<close> and \<open>_decode\<close>.\<close>

definition urlsafe :: "ustr \<Rightarrow> ustr" where
  "urlsafe s = map (\<lambda>c. if c = 43 then 45 else if c = 47 then 95 else c) s"

definition altchars :: "ustr \<Rightarrow> ustr" where
  "altchars s = map (\<lambda>c. if c = 45 then 43 else if c = 95 then 47 else c) s"

definition cursor_b64 :: "bytes \<Rightarrow> ustr" where
  "cursor_b64 bs = rstrip_char 61 (urlsafe (b64encode bs))"

definition cursor_unb64 :: "ustr \<Rightarrow> bytes option" where
  "cursor_unb64 value = (let padding = replicate (nat ((- int (length value)) mod 4)) 61 in
     case b64decode (altchars (value @ padding)) of
       None \<Rightarrow> None
     | Some decoded \<Rightarrow> if cursor_b64 decoded \<noteq> value then None else Some decoded)"

definition cursor_json :: "ContentCursorClaims \<Rightarrow> json" where
  "cursor_json cl = JObj [(cps ''b'', JInt (cc_byte_offset cl)), (cps ''c'', JStr (cps (cc_content_id cl))),
     (cps ''o'', JStr (cps (cc_owner_principal_id cl))), (cps ''r'', JInt (cc_content_revision cl)), (cps ''v'', JInt 1)]"

definition cursor_encode :: "bytes \<Rightarrow> ContentCursorClaims \<Rightarrow> ustr" where
  "cursor_encode secret cl = (let payload = utf8_encode (json_dumps_ascii (cursor_json cl)) in
     cursor_b64 payload @ [46] @ cursor_b64 (hmac_sha256 secret payload))"

text \<open>The checks of the claims. \<open>1\<close> equals \<open>1.0\<close> and \<open>True\<close>. An owner with characters beyond those of the
  model's texts is refused here, where the code refuses it when it is compared with the caller.\<close>

definition cursor_claims :: "json \<Rightarrow> ContentCursorClaims option" where
  "cursor_claims v = (case v of JObj ms \<Rightarrow>
     if set (map fst ms) \<noteq> set [cps ''b'', cps ''c'', cps ''o'', cps ''r'', cps ''v''] then None
     else if map_of ms (cps ''v'') \<notin> {Some (JInt 1), Some (JBool True), Some (JFloat 1)} then None
     else (case (map_of ms (cps ''o''), map_of ms (cps ''r''), map_of ms (cps ''b''), map_of ms (cps ''c'')) of
       (Some (JStr owner), Some (JInt rvn), Some (JInt offset), Some (JStr cid)) \<Rightarrow>
         if 1 \<le> length owner \<and> length owner \<le> 128 \<and> 1 \<le> rvn \<and> 0 \<le> offset
            \<and> list_all (\<lambda>c. c < 256) (owner @ cid) \<and> content_id_ok (map char_of cid)
         then Some \<lparr>cc_owner_principal_id = map char_of owner, cc_content_id = map char_of cid,
                    cc_content_revision = rvn, cc_byte_offset = offset\<rparr>
         else None
     | _ \<Rightarrow> None)
   | _ \<Rightarrow> None)"

definition cursor_decode :: "(string \<Rightarrow> bytes \<Rightarrow> codepoint list option) \<Rightarrow> bytes \<Rightarrow> ustr \<Rightarrow> ContentCursorClaims option" where
  "cursor_decode codec secret cursor =
     (if cursor = [] \<or> 2048 < length cursor then None
      else case partition_at 46 cursor of
        (payload_value, found, signature_value) \<Rightarrow>
          if \<not> found then None
          else case (cursor_unb64 payload_value, cursor_unb64 signature_value) of
            (Some payload, Some signature) \<Rightarrow>
              if signature \<noteq> hmac_sha256 secret payload then None
              else (case json_loads_bytes codec payload of Inl _ \<Rightarrow> None | Inr v \<Rightarrow> cursor_claims v)
          | _ \<Rightarrow> None)"

text \<open>\<open>HmacContentCursorCodec(secret)\<close> as the Content service uses it.\<close>

definition cursor_codec ::
  "(string \<Rightarrow> bytes \<Rightarrow> codepoint list option) \<Rightarrow> bytes
     \<Rightarrow> ((ContentCursorClaims \<Rightarrow> string) \<times> (string \<Rightarrow> ContentCursorClaims option)) option" where
  "cursor_codec codec secret = (if length secret < 32 then None
     else Some (\<lambda>cl. map char_of (cursor_encode secret cl), \<lambda>c. cursor_decode codec secret (cps c)))"

subsection \<open>Base64url\<close>

lemma b64_char_range: "n < 64 \<Longrightarrow> b64_char n < 128" "b64_char n \<noteq> 45" "b64_char n \<noteq> 95" "n < 64 \<Longrightarrow> b64_char n \<noteq> 46" "n < 64 \<Longrightarrow> b64_char n \<noteq> 61"
  by (auto simp: b64_char_def)

text \<open>The digits of an encoding and its padding.\<close>

lemma b64encode_parts:
  "list_all (\<lambda>b. b < 256) bs \<Longrightarrow> \<exists>digits k. b64encode bs = map b64_char digits @ replicate k 61 \<and> list_all (\<lambda>n. n < 64) digits \<and> k \<le> 2"
proof (induction bs rule: b64encode.induct)
  case 1
  show ?case by (rule exI [of _ "[]"], rule exI [of _ 0]) simp
next
  case (2 x)
  then show ?case
    using b64_sextets [of x 0 0]
    by (intro exI [of _ "[x div 4, x mod 4 * 16]"] exI [of _ 2]) (simp add: numeral_2_eq_2)
next
  case (3 x y)
  then show ?case
    using b64_sextets [of x y 0]
    by (intro exI [of _ "[x div 4, x mod 4 * 16 + y div 16, y mod 16 * 4]"] exI [of _ 1]) simp
next
  case (4 x y z rest)
  then obtain digits k where rest: "b64encode rest = map b64_char digits @ replicate k 61" "list_all (\<lambda>n. n < 64) digits" "k \<le> 2"
    by auto
  then show ?case
    using 4 b64_sextets [of x y z]
    by (intro exI [of _ "[x div 4, x mod 4 * 16 + y div 16, y mod 16 * 4 + z div 64, z mod 64] @ digits"] exI [of _ k]) simp
qed

lemma urlsafe_altchars: "list_all (\<lambda>c. c \<noteq> 45 \<and> c \<noteq> 95) s \<Longrightarrow> altchars (urlsafe s) = s"
  by (induction s) (auto simp: altchars_def urlsafe_def)

lemma rstrip_padding:
  assumes "c \<notin> set s"
  shows "rstrip_char c (s @ replicate k c) = s"
proof -
  have "dropWhile (\<lambda>x. x = c) (replicate k c @ rev s) = rev s"
    using assms by (induction k; cases s rule: rev_cases) auto
  then show ?thesis by (simp add: rstrip_char_def)
qed

lemma cursor_b64_parts:
  assumes "list_all (\<lambda>b. b < 256) bs"
  obtains k where "urlsafe (b64encode bs) = cursor_b64 bs @ replicate k 61" "k \<le> 2" "altchars (urlsafe (b64encode bs)) = b64encode bs"
    "list_all (\<lambda>c. c < 128 \<and> c \<noteq> 46 \<and> c \<noteq> 61) (cursor_b64 bs)"
proof -
  obtain digits k where b: "b64encode bs = map b64_char digits @ replicate k 61" "list_all (\<lambda>n. n < 64) digits" "k \<le> 2"
    using b64encode_parts [OF assms] by blast
  have us: "urlsafe (b64encode bs) = urlsafe (map b64_char digits) @ replicate k 61"
    by (simp add: b(1) urlsafe_def map_replicate_const)
  have ok: "list_all (\<lambda>c. c < 128 \<and> c \<noteq> 46 \<and> c \<noteq> 61) (urlsafe (map b64_char digits))"
    using b(2) b64_char_range by (auto simp: urlsafe_def list_all_iff)
  then have "cursor_b64 bs = urlsafe (map b64_char digits)"
    unfolding cursor_b64_def us by (intro rstrip_padding) (auto simp: list_all_iff)
  moreover have "altchars (urlsafe (b64encode bs)) = b64encode bs"
    using b b64_char_range by (intro urlsafe_altchars) (auto simp: list_all_iff)
  ultimately show thesis using that us ok b(3) by simp
qed

lemma cursor_unb64_b64: "list_all (\<lambda>b. b < 256) bs \<Longrightarrow> cursor_unb64 (cursor_b64 bs) = Some bs"
proof -
  assume bs: "list_all (\<lambda>b. b < 256) bs"
  obtain k where k: "urlsafe (b64encode bs) = cursor_b64 bs @ replicate k 61" "k \<le> 2" "altchars (urlsafe (b64encode bs)) = b64encode bs"
    using cursor_b64_parts [OF bs] by metis
  have "length (cursor_b64 bs) + k = 4 * ((length bs + 2) div 3)"
    using arg_cong [OF k(1), of length] b64encode_length [of bs] by (simp add: urlsafe_def)
  then have "- int (length (cursor_b64 bs)) = int k + 4 * - int ((length bs + 2) div 3)"
    by linarith
  then have "(- int (length (cursor_b64 bs))) mod 4 = int k mod 4" by (simp only: mod_mult_self2)
  then have "(- int (length (cursor_b64 bs))) mod 4 = int k" using k(2) by simp
  then show ?thesis
    using k(1,3) b64_roundtrip [OF bs] by (simp add: cursor_unb64_def)
qed

subsection \<open>Payloads\<close>

lemma cps_less [simp]: "list_all (\<lambda>c. c < 256) (cps s)" "map char_of (cps s) = s" "length (cps s) = length s"
  by (simp_all add: cps_def list_all_iff comp_def)

lemma utf8_encode_ascii: "list_all (\<lambda>c. c < 128) s \<Longrightarrow> utf8_encode s = s"
  by (induction s) (simp_all add: utf8_encode_def encode_cp_def)

lemma escape_printable:
  "printable s \<Longrightarrow> list_all (\<lambda>c. c < 128) (dump_str s) \<and> length (dump_str s) \<le> 2 * length s + 2"
  by (induction s) (auto simp: printable_def dump_str_def escape_cp_def)

lemma dec_digits_ascii: "list_all (\<lambda>c. c < 128) (dec_digits n)"
  using dec_digits_digit by (fastforce simp: list_all_iff is_digit_def)

text \<open>Claims the Content service makes: an owner of printable characters, a valid identifier, and numbers
  of at most nineteen digits, as 64-bit columns hold.\<close>

definition claims_ok :: "ContentCursorClaims \<Rightarrow> bool" where
  "claims_ok cl \<longleftrightarrow> 1 \<le> length (cc_owner_principal_id cl) \<and> length (cc_owner_principal_id cl) \<le> 128
     \<and> printable (cps (cc_owner_principal_id cl)) \<and> content_id_ok (cc_content_id cl)
     \<and> 1 \<le> cc_content_revision cl \<and> cc_content_revision cl < 10 ^ 19 \<and> 0 \<le> cc_byte_offset cl \<and> cc_byte_offset cl < 10 ^ 19"

lemma hex_lower_code: "is_hex_lower x \<Longrightarrow> 32 \<le> (of_char x :: nat) \<and> (of_char x :: nat) \<le> 126"
  by (simp add: is_hex_lower_def) (elim disjE; simp)

lemma content_id_printable: "content_id_ok c \<Longrightarrow> printable (cps c) \<and> length c = 36"
proof -
  assume c: "content_id_ok c"
  have "c = ''cnt_'' @ drop 4 c" using c by (metis append_take_drop_id content_id_ok_def)
  moreover have "32 \<le> (of_char x :: nat) \<and> (of_char x :: nat) \<le> 126" if "x \<in> set (drop 4 c)" for x
    using c that hex_lower_code by (simp add: content_id_ok_def list_all_iff)
  then have "printable (cps (''cnt_'' @ drop 4 c))" by (auto simp: printable_def cps_def list_all_iff)
  ultimately show ?thesis using c by (simp add: content_id_ok_def)
qed

lemma cursor_text:
  assumes "claims_ok cl"
  defines "t \<equiv> json_dumps_ascii (cursor_json cl)"
  shows "t = json_dumps (cursor_json cl)" "list_all (\<lambda>c. c < 128) t" "take 2 t = [123, 34]" "length t \<le> 500" "json_plain (cursor_json cl)"
proof -
  have id: "printable (cps (cc_content_id cl))" "length (cc_content_id cl) = 36"
    using content_id_printable assms(1) by (auto simp: claims_ok_def)
  have keys: "dump_str_ascii (cps k) = dump_str (cps k)" if "k \<in> {''b'', ''c'', ''o'', ''r'', ''v''}" for k
    using that by (intro dump_str_ascii_eq) (auto simp: printable_def cps_def)
  show eq: "t = json_dumps (cursor_json cl)"
    using id(1) assms(1) keys by (simp add: t_def cursor_json_def dump_str_ascii_eq claims_ok_def)
  have key: "dump_str (cps k) = [34, of_char (hd k), 34]" if "k \<in> {''b'', ''c'', ''o'', ''r'', ''v''}" for k
    using that by (auto simp: dump_str_def cps_def escape_cp_def)
  have nums: "list_all (\<lambda>c. c < 128) (str_of_int i) \<and> length (str_of_int i) \<le> 19" if "0 \<le> i" "i < 10 ^ 19" for i
    using that dec_digits_ascii dec_digits_length [of "nat i" 19] by (auto simp: str_of_int_def nat_less_iff)
  have strs: "list_all (\<lambda>c. c < 128) (dump_str (cps (cc_content_id cl))) \<and> length (dump_str (cps (cc_content_id cl))) \<le> 74"
    "list_all (\<lambda>c. c < 128) (dump_str (cps (cc_owner_principal_id cl))) \<and> length (dump_str (cps (cc_owner_principal_id cl))) \<le> 258"
    using escape_printable [OF id(1)] escape_printable [of "cps (cc_owner_principal_id cl)"] id(2) assms(1)
    by (auto simp: claims_ok_def cps_def)
  have form: "t = [123] @ dump_str (cps ''b'') @ [58] @ str_of_int (cc_byte_offset cl) @ [44]
     @ dump_str (cps ''c'') @ [58] @ dump_str (cps (cc_content_id cl)) @ [44]
     @ dump_str (cps ''o'') @ [58] @ dump_str (cps (cc_owner_principal_id cl)) @ [44]
     @ dump_str (cps ''r'') @ [58] @ str_of_int (cc_content_revision cl) @ [44]
     @ dump_str (cps ''v'') @ [58] @ str_of_int 1 @ [125]"
    unfolding eq cursor_json_def by simp
  show "list_all (\<lambda>c. c < 128) t" "take 2 t = [123, 34]" "length t \<le> 500"
    unfolding form using strs nums [of "cc_byte_offset cl"] nums [of "cc_content_revision cl"] nums [of 1] assms(1)
    by (auto simp: key claims_ok_def)
  show "json_plain (cursor_json cl)"
    using assms(1) int_limitI [of "cc_byte_offset cl" 19] int_limitI [of "cc_content_revision cl" 19] int_limitI [of 1 19]
    by (auto simp: cursor_json_def claims_ok_def cps_def)
qed

lemma cursor_claims_json: "claims_ok cl \<Longrightarrow> cursor_claims (cursor_json cl) = Some cl"
  using content_id_printable [of "cc_content_id cl"]
  by (auto simp: cursor_claims_def cursor_json_def claims_ok_def cps_def [of "''b''"] cps_def [of "''c''"] cps_def [of "''o''"]
      cps_def [of "''r''"] cps_def [of "''v''"])

definition ascii_codec :: "(string \<Rightarrow> bytes \<Rightarrow> codepoint list option) \<Rightarrow> bool" where
  "ascii_codec codec \<longleftrightarrow> (\<forall>t. list_all (\<lambda>c. c < 128) t \<longrightarrow> codec ''utf-8'' t = Some t)"

lemma cursor_payload:
  assumes "claims_ok cl" "ascii_codec codec"
  defines "p \<equiv> utf8_encode (json_dumps_ascii (cursor_json cl))"
  shows "list_all (\<lambda>b. b < 256) p" "length p \<le> 500" "json_loads_bytes codec p = Inr (cursor_json cl)"
proof -
  note t = cursor_text [OF assms(1)]
  have p: "p = json_dumps (cursor_json cl)" using t(1,2) by (simp add: p_def utf8_encode_ascii)
  show "list_all (\<lambda>b. b < 256) p" "length p \<le> 500" using t(1,2,4) p by (auto simp: list_all_iff)
  have "take 2 p @ drop 2 p = p" by simp
  then obtain r where r: "p = 123 # 34 # r" using t(1,3) p by (metis append_Cons append_Nil)
  have "detect_encoding p = ''utf-8''" by (auto simp: r detect_encoding_def)
  then show "json_loads_bytes codec p = Inr (cursor_json cl)"
    using assms(2) t(1,2,5) p json_roundtrip [OF t(5)] by (simp add: json_loads_bytes_def ascii_codec_def)
qed

lemma hmac_bytes: "list_all (\<lambda>b. b < 256) (hmac_sha256 k m)"
  by (simp add: hmac_sha256_def Let_def sha256_digest_byte)

lemma cursor_b64_length:
  assumes "list_all (\<lambda>b. b < 256) bs" "length bs \<le> n"
  shows "length (cursor_b64 bs) \<le> 4 * ((n + 2) div 3)"
proof -
  obtain k where k: "urlsafe (b64encode bs) = cursor_b64 bs @ replicate k 61" using cursor_b64_parts [OF assms(1)] by blast
  have "length (cursor_b64 bs) \<le> length (b64encode bs)"
    using arg_cong [OF k, of length] by (simp add: urlsafe_def)
  also have "\<dots> \<le> 4 * ((n + 2) div 3)" using assms(2) by (simp add: b64encode_length div_le_mono)
  finally show ?thesis .
qed

lemma cursor_decode_encode:
  assumes "claims_ok cl" "ascii_codec codec"
  shows "cursor_decode codec secret (cursor_encode secret cl) = Some cl" "list_all (\<lambda>c. c < 128) (cursor_encode secret cl)"
    "length (cursor_encode secret cl) \<le> 2048"
proof -
  define p where "p = utf8_encode (json_dumps_ascii (cursor_json cl))"
  define h where "h = hmac_sha256 secret p"
  note p = cursor_payload [OF assms, folded p_def]
  have h: "list_all (\<lambda>b. b < 256) h" "length h = 32" by (simp_all add: h_def hmac_bytes)
  have enc: "cursor_encode secret cl = cursor_b64 p @ 46 # cursor_b64 h"
    by (simp add: cursor_encode_def p_def h_def Let_def)
  have chars: "list_all (\<lambda>c. c < 128 \<and> c \<noteq> 46 \<and> c \<noteq> 61) (cursor_b64 p)" "list_all (\<lambda>c. c < 128 \<and> c \<noteq> 46 \<and> c \<noteq> 61) (cursor_b64 h)"
    using cursor_b64_parts [OF p(1)] cursor_b64_parts [OF h(1)] by blast+
  then show "list_all (\<lambda>c. c < 128) (cursor_encode secret cl)" by (auto simp: enc list_all_iff)
  have "length (cursor_b64 p) \<le> 4 * 167" "length (cursor_b64 h) \<le> 4 * 11"
    using cursor_b64_length [OF p(1,2)] cursor_b64_length [OF h(1), of 32] h(2) by simp_all
  then show len: "length (cursor_encode secret cl) \<le> 2048" by (simp add: enc)
  have "46 \<notin> set (cursor_b64 p)" using chars by (auto simp: list_all_iff)
  note part = partition_at_append [OF this, of "cursor_b64 h", folded enc]
  show "cursor_decode codec secret (cursor_encode secret cl) = Some cl"
    using len part cursor_unb64_b64 [OF p(1)] cursor_unb64_b64 [OF h(1)] p(3) cursor_claims_json [OF assms(1)]
    by (simp add: cursor_decode_def h_def [symmetric] enc)
qed

text \<open>An accepted cursor is the canonical text of a payload and of its signature.\<close>

lemma cursor_unb64_Some: "cursor_unb64 v = Some bs \<Longrightarrow> v = cursor_b64 bs"
  by (auto simp: cursor_unb64_def Let_def split: option.split_asm if_split_asm)

lemma cursor_decode_signed:
  assumes "cursor_decode codec secret c = Some cl"
  shows "\<exists>payload. c = cursor_b64 payload @ 46 # cursor_b64 (hmac_sha256 secret payload)
     \<and> (\<exists>v. json_loads_bytes codec payload = Inr v \<and> cursor_claims v = Some cl)"
  using assms partition_at_found [of 46 c]
  by (auto simp: cursor_decode_def dest!: cursor_unb64_Some
      split: if_split_asm prod.split_asm option.split_asm sum.split_asm)

lemma cps_chars: "list_all (\<lambda>c. c < 256) s \<Longrightarrow> cps (map char_of s) = s"
  by (induction s) (simp_all add: cps_def)

text \<open>The claims \<open>read\<close> puts into the cursor of the next page.\<close>

definition page_claims :: "ExecutionContext \<Rightarrow> ContentRecord \<Rightarrow> nat \<Rightarrow> ContentCursorClaims" where
  "page_claims cx r off = \<lparr>cc_owner_principal_id = pc_principal_id (cx_principal cx), cc_content_id = content_id (content r),
     cc_content_revision = revision (content r), cc_byte_offset = int off\<rparr>"

lemma cursor_codec_decode_encode:
  assumes "cursor_codec codec secret = Some (enc, dec)" "ascii_codec codec" "claims_ok cl"
  shows "dec (enc cl) = Some cl" "length (enc cl) \<le> 2048"
proof -
  have ed: "enc = (\<lambda>cl. map char_of (cursor_encode secret cl))" "dec = (\<lambda>c. cursor_decode codec secret (cps c))"
    using assms(1) by (auto simp: cursor_codec_def split: if_split_asm)
  note enc = cursor_decode_encode [OF assms(3,2), of secret]
  have "list_all (\<lambda>c. c < 256) (cursor_encode secret cl)" using enc(2) by (auto simp: list_all_iff)
  then show "dec (enc cl) = Some cl" "length (enc cl) \<le> 2048" using enc(1,3) by (simp_all add: ed cps_chars)
qed

text \<open>A cursor the codec vouches for: the text of a payload and of its signature, the payload giving
  claims of the caller with this offset.\<close>

definition cursor_authentic ::
  "(string \<Rightarrow> bytes \<Rightarrow> codepoint list option) \<Rightarrow> bytes \<Rightarrow> ExecutionContext \<Rightarrow> ustr \<Rightarrow> nat \<Rightarrow> bool" where
  "cursor_authentic codec secret cx c off \<longleftrightarrow> (\<exists>payload v cl.
     c = cursor_b64 payload @ 46 # cursor_b64 (hmac_sha256 secret payload)
     \<and> json_loads_bytes codec payload = Inr v \<and> cursor_claims v = Some cl
     \<and> cc_owner_principal_id cl = pc_principal_id (cx_principal cx) \<and> off = nat (cc_byte_offset cl))"

lemma read_cursor_authentic:
  assumes "cursor_codec codec secret = Some (enc, dec)" "read_cursor cx r (Some c) dec = Inr off"
  shows "cursor_authentic codec secret cx (cps c) off"
proof -
  obtain cl where cl: "dec c = Some cl" "cc_owner_principal_id cl = pc_principal_id (cx_principal cx)" "off = nat (cc_byte_offset cl)"
    using assms(2) by (auto simp: read_cursor_def split: if_split_asm option.split_asm)
  have "cursor_decode codec secret (cps c) = Some cl"
    using cl(1) assms(1) by (auto simp: cursor_codec_def split: if_split_asm)
  then show ?thesis
    using cursor_decode_signed cl(2,3) unfolding cursor_authentic_def by blast
qed

text \<open>C24: Paging cursors come back exactly where they were made for. The cursor that read issues for the next page
  is accepted for the same principal, content and revision and gives the same byte offset; for another principal,
  another content or another revision it is refused as invalid. And no cursor is accepted that is not the canonical
  base64url text of a payload followed by that payload's HMAC-SHA-256 under the server's secret, the payload being
  the JSON of the accepted claims.\<close>

theorem content_cursor_roundtrip:
  assumes "cursor_codec codec secret = Some (enc, dec)" "ascii_codec codec" "claims_ok (page_claims cx r off)"
  shows "read_cursor cx' r' (Some (enc (page_claims cx r off))) dec =
      (if pc_principal_id (cx_principal cx') = pc_principal_id (cx_principal cx)
          \<and> content_id (content r') = content_id (content r) \<and> revision (content r') = revision (content r)
       then Inr off else Inl ExcCursor)
    \<and> (read_cursor cx' r' (Some c) dec = Inr off' \<longrightarrow> cursor_authentic codec secret cx' (cps c) off')"
proof
  show "read_cursor cx' r' (Some (enc (page_claims cx r off))) dec =
      (if pc_principal_id (cx_principal cx') = pc_principal_id (cx_principal cx)
          \<and> content_id (content r') = content_id (content r) \<and> revision (content r') = revision (content r)
       then Inr off else Inl ExcCursor)"
    using cursor_codec_decode_encode [OF assms] by (auto simp: read_cursor_def page_claims_def)
  show "read_cursor cx' r' (Some c) dec = Inr off' \<longrightarrow> cursor_authentic codec secret cx' (cps c) off'"
    using read_cursor_authentic [OF assms(1)] by blast
qed

definition demo_record :: ContentRecord where
  "demo_record = ContentRecord.truncate (hd (db_rows example_published))"

definition demo_reader :: ExecutionContext where
  "demo_reader = demo_context\<lparr>cx_principal := demo_principal\<lparr>pc_principal_id := ''principal''\<rparr>\<rparr>"

lemma demo_claims_ok: "claims_ok (page_claims demo_reader demo_record 7)"
  by code_simp

theorem content_cursor_roundtrip_witness:
  "\<exists>enc dec. cursor_codec (\<lambda>_ b. Some b) (replicate 32 7) = Some (enc, dec)
     \<and> read_cursor demo_reader demo_record (Some (enc (page_claims demo_reader demo_record 7))) dec = Inr 7
     \<and> read_cursor demo_context demo_record (Some (enc (page_claims demo_reader demo_record 7))) dec = Inl ExcCursor"
proof -
  have "\<exists>enc dec. cursor_codec (\<lambda>_ b. Some b) (replicate 32 7) = Some (enc, dec)"
    by (simp add: cursor_codec_def)
  then obtain enc dec where c: "cursor_codec (\<lambda>_ b. Some b) (replicate 32 7) = Some (enc, dec)" by blast
  have a: "ascii_codec (\<lambda>_ b. Some b)" by (simp add: ascii_codec_def)
  have other: "pc_principal_id (cx_principal demo_context) \<noteq> pc_principal_id (cx_principal demo_reader)"
    by (simp add: demo_reader_def demo_context_def demo_principal_def)
  note rt = content_cursor_roundtrip [OF c a demo_claims_ok, THEN conjunct1]
  show ?thesis
    using c rt [of demo_reader demo_record] rt [of demo_context demo_record] other by auto
qed

end
