(* ===== verification/Content_Parsers.thy ===== *)
theory Content_Parsers
  imports Codecs Content_Service "HOL-Library.List_Lexorder" "HOL-Library.Product_Lexorder"
begin

section \<open>Native parsers\<close>

text \<open>
  The registered parsers of \<open>infrastructure/content/parsers\<close>: their settings (\<open>ParserSettings\<close> of
  \<open>core/config.py\<close>), descriptors and registry, the shared bounds of \<open>common.py\<close>, the JSON, text and XML
  parsers and the routing executor. Decoding by the name of an encoding, the printing of floats,
  \<open>charset_normalizer\<close> and \<open>defusedxml\<close> are arguments.
\<close>

subsection \<open>Settings\<close>

record ParserSettings =
  pa_inline_max_input_bytes :: int
  pa_inline_max_output_bytes :: int
  pa_structured_max_depth :: int
  pa_structured_max_nodes :: int
  pa_csv_sample_chars :: int
  pa_csv_max_rows :: int
  pa_csv_max_columns :: int
  pa_csv_max_cell_chars :: int
  pa_html_max_text_chars :: int
  pa_html_max_links :: int
  pa_html_max_headings :: int
  pa_html_max_metadata_chars :: int
  pa_html_max_jsonld_items :: int
  pa_child_timeout_seconds :: rat
  pa_child_output_bytes :: int
  pa_child_concurrency :: int
  pa_child_memory_bytes :: int
  pa_child_cpu_seconds :: int
  pa_child_open_files :: int
  pa_child_processes :: int
  pa_child_temp_root :: string
  pa_child_temp_cleanup_age_seconds :: int
  pa_pdf_max_bytes :: int
  pa_pdf_max_pages :: int
  pa_pdf_max_page_chars :: int
  pa_pdf_max_output_chars :: int
  pa_pdf_max_metadata_chars :: int
  pa_pdf_max_content_stream_bytes :: int
  pa_pdf_max_resource_entries :: int
  pa_representation_wait_seconds :: rat
  pa_representation_poll_seconds :: rat

definition parser_settings_ok :: "ParserSettings \<Rightarrow> bool" where
  "parser_settings_ok s \<longleftrightarrow> 1024 \<le> pa_inline_max_input_bytes s \<and> pa_inline_max_input_bytes s \<le> 64 * 1024 * 1024
     \<and> 1024 \<le> pa_inline_max_output_bytes s \<and> pa_inline_max_output_bytes s \<le> 64 * 1024 * 1024
     \<and> 2 \<le> pa_structured_max_depth s \<and> pa_structured_max_depth s \<le> 256
     \<and> 1 \<le> pa_structured_max_nodes s \<and> pa_structured_max_nodes s \<le> 1000000
     \<and> 1024 \<le> pa_csv_sample_chars s \<and> pa_csv_sample_chars s \<le> 1024 * 1024
     \<and> 1 \<le> pa_csv_max_rows s \<and> pa_csv_max_rows s \<le> 100000
     \<and> 1 \<le> pa_csv_max_columns s \<and> pa_csv_max_columns s \<le> 4096
     \<and> 1 \<le> pa_csv_max_cell_chars s \<and> pa_csv_max_cell_chars s \<le> 1024 * 1024
     \<and> 1024 \<le> pa_html_max_text_chars s \<and> pa_html_max_text_chars s \<le> 8000000
     \<and> 0 \<le> pa_html_max_links s \<and> pa_html_max_links s \<le> 10000
     \<and> 0 \<le> pa_html_max_headings s \<and> pa_html_max_headings s \<le> 5000
     \<and> 128 \<le> pa_html_max_metadata_chars s \<and> pa_html_max_metadata_chars s \<le> 64 * 1024
     \<and> 0 \<le> pa_html_max_jsonld_items s \<and> pa_html_max_jsonld_items s \<le> 256
     \<and> 0 < pa_child_timeout_seconds s \<and> pa_child_timeout_seconds s \<le> 120
     \<and> 4096 \<le> pa_child_output_bytes s \<and> pa_child_output_bytes s \<le> 128 * 1024 * 1024
     \<and> 1 \<le> pa_child_concurrency s \<and> pa_child_concurrency s \<le> 16
     \<and> 64 * 1024 * 1024 \<le> pa_child_memory_bytes s
     \<and> 1 \<le> pa_child_cpu_seconds s \<and> pa_child_cpu_seconds s \<le> 120
     \<and> 8 \<le> pa_child_open_files s \<and> pa_child_open_files s \<le> 256
     \<and> 1 \<le> pa_child_processes s \<and> pa_child_processes s \<le> 8
     \<and> 60 \<le> pa_child_temp_cleanup_age_seconds s \<and> pa_child_temp_cleanup_age_seconds s \<le> 7 * 24 * 3600
     \<and> 1024 \<le> pa_pdf_max_bytes s \<and> pa_pdf_max_bytes s \<le> 128 * 1024 * 1024
     \<and> 1 \<le> pa_pdf_max_pages s \<and> pa_pdf_max_pages s \<le> 2000
     \<and> 1 \<le> pa_pdf_max_page_chars s \<and> pa_pdf_max_page_chars s \<le> 2000000
     \<and> 1 \<le> pa_pdf_max_output_chars s \<and> pa_pdf_max_output_chars s \<le> 16000000
     \<and> 128 \<le> pa_pdf_max_metadata_chars s \<and> pa_pdf_max_metadata_chars s \<le> 64 * 1024
     \<and> 1024 \<le> pa_pdf_max_content_stream_bytes s \<and> pa_pdf_max_content_stream_bytes s \<le> 128 * 1024 * 1024
     \<and> 1 \<le> pa_pdf_max_resource_entries s \<and> pa_pdf_max_resource_entries s \<le> 100000
     \<and> 0 < pa_representation_wait_seconds s \<and> pa_representation_wait_seconds s \<le> 120
     \<and> 0 < pa_representation_poll_seconds s \<and> pa_representation_poll_seconds s \<le> 1"

text \<open>The defaults.\<close>

definition parser_defaults :: ParserSettings where
  "parser_defaults = \<lparr>
     pa_inline_max_input_bytes = 8388608, pa_inline_max_output_bytes = 8388608, pa_structured_max_depth = 64,
     pa_structured_max_nodes = 100000, pa_csv_sample_chars = 65536, pa_csv_max_rows = 10000, pa_csv_max_columns = 256,
     pa_csv_max_cell_chars = 65536, pa_html_max_text_chars = 1000000, pa_html_max_links = 500,
     pa_html_max_headings = 200, pa_html_max_metadata_chars = 4096, pa_html_max_jsonld_items = 32,
     pa_child_timeout_seconds = 10, pa_child_output_bytes = 16777216, pa_child_concurrency = 2,
     pa_child_memory_bytes = 536870912, pa_child_cpu_seconds = 10, pa_child_open_files = 32, pa_child_processes = 1,
     pa_child_temp_root = ''/tmp/web-access-parser'', pa_child_temp_cleanup_age_seconds = 3600,
     pa_pdf_max_bytes = 16777216, pa_pdf_max_pages = 200, pa_pdf_max_page_chars = 200000,
     pa_pdf_max_output_chars = 2000000, pa_pdf_max_metadata_chars = 4096, pa_pdf_max_content_stream_bytes = 8388608,
     pa_pdf_max_resource_entries = 2048, pa_representation_wait_seconds = 10, pa_representation_poll_seconds = 1 / 50\<rparr>"

subsection \<open>Failures and bounds (common.py)\<close>

text \<open>\<open>NativeParserError\<close> and its subclasses carry a code, a plain \<open>ValueError\<close> none.\<close>

definition native_parse_failed :: content_exc where
  "native_parse_failed = ExcParser (Some ''native_parse_failed'') False"

definition parser_input_limit :: content_exc where
  "parser_input_limit = ExcParser (Some ''parser_input_limit'') False"

definition parser_output_limit :: content_exc where
  "parser_output_limit = ExcParser (Some ''parser_output_limit'') False"

definition parser_depth_limit :: content_exc where
  "parser_depth_limit = ExcParser (Some ''parser_depth_limit'') False"

definition parser_value_error :: content_exc where
  "parser_value_error = ExcParser None False"

definition require_input_bound :: "bytes \<Rightarrow> int \<Rightarrow> content_exc + unit" where
  "require_input_bound data limit = (if int (length data) > limit then Inl parser_input_limit else Inr ())"

text \<open>\<open>json.dumps(value, sort_keys=True, allow_nan=False)\<close> with the text of a float as an argument, \<open>None\<close> where the
  nearest float is infinite.\<close>

fun json_sorted :: "json \<Rightarrow> json" where
  "json_sorted (JArr vs) = JArr (map json_sorted vs)"
| "json_sorted (JObj ms) = JObj (sort_key fst (map (\<lambda>(k, v). (k, json_sorted v)) ms))"
| "json_sorted v = v"

fun json_text :: "(rat \<Rightarrow> ustr option) \<Rightarrow> json \<Rightarrow> ustr option" where
  "json_text flt (JFloat x) = flt x"
| "json_text flt (JConst s) = None"
| "json_text flt (JArr vs) = map_option (\<lambda>ts. [91] @ join [44] ts @ [93]) (those (map (json_text flt) vs))"
| "json_text flt (JObj ms) = map_option (\<lambda>ts. [123] @ join [44] ts @ [125])
     (those (map (\<lambda>(k, v). map_option (\<lambda>t. dump_str k @ [58] @ t) (json_text flt v)) ms))"
| "json_text flt v = Some (json_dumps v)"

text \<open>\<open>str.encode()\<close> raises on a surrogate.\<close>

definition encode_text :: "ustr \<Rightarrow> content_exc + bytes" where
  "encode_text t = (if list_all scalar_value t then Inr (utf8_encode t) else Inl parser_value_error)"

definition bounded_json_bytes :: "(rat \<Rightarrow> ustr option) \<Rightarrow> json \<Rightarrow> int \<Rightarrow> content_exc + bytes" where
  "bounded_json_bytes flt v limit = (case json_text flt (json_sorted v) of
     None \<Rightarrow> Inl parser_value_error
   | Some t \<Rightarrow> res_bind (encode_text t) (\<lambda>encoded.
       if int (length encoded) > limit then Inl parser_output_limit else Inr encoded))"

text \<open>\<open>max\<close> of the depths of the children, or of none.\<close>

definition deepest :: "int \<Rightarrow> int option list \<Rightarrow> int option" where
  "deepest depth ds = map_option (foldl max depth) (those ds)"

fun json_depth :: "int \<Rightarrow> int \<Rightarrow> json \<Rightarrow> int option" where
  "json_depth limit depth (JArr vs) =
     (if depth > limit then None else deepest depth (map (json_depth limit (depth + 1)) vs))"
| "json_depth limit depth (JObj ms) =
     (if depth > limit then None else deepest depth (map (\<lambda>m. json_depth limit (depth + 1) (snd m)) ms))"
| "json_depth limit depth v = (if depth > limit then None else Some depth)"

subsection \<open>What the parsers rest on\<close>

text \<open>\<open>bytes.decode(name)\<close> raises \<open>LookupError\<close> for an unknown encoding, \<open>UnicodeDecodeError\<close> for bytes it cannot read,
  and a few codecs raise other errors.\<close>

datatype codec_error = CodecLookup | CodecDecode | CodecOther

datatype xml_element = Element (xe_tag: ustr) (xe_attrib: "(ustr \<times> ustr) list") (xe_text: "ustr option")
  (xe_tail: "ustr option") (xe_children: "xml_element list")

record parser_lib =
  nl_codec :: "string \<Rightarrow> bytes \<Rightarrow> codec_error + ustr"
  nl_guess :: "bytes \<Rightarrow> ustr option"
  nl_float :: "rat \<Rightarrow> ustr option"
  nl_xml :: "bytes \<Rightarrow> xml_element option"

definition or_default :: "string option \<Rightarrow> string \<Rightarrow> string" where
  "or_default e d = (case e of None \<Rightarrow> d | Some x \<Rightarrow> if x = [] then d else x)"

definition structured :: "string \<Rightarrow> bytes \<Rightarrow> ParsedRepresentation" where
  "structured schema data = \<lparr>pp_representation = STRUCTURED, pp_media_type = ''application/vnd.web-access.content+json'',
     pp_schema_revision = schema, pp_data = data\<rparr>"

text \<open>A warning that is given once.\<close>

definition warn_once :: "string \<Rightarrow> Warning list \<Rightarrow> Warning list" where
  "warn_once code ws = (if list_ex (\<lambda>w. wn_code w = code) ws then ws else ws @ [warning code])"

subsection \<open>JSON (json\_parser.py)\<close>

definition json_document :: "json \<Rightarrow> json" where
  "json_document v = JObj [(cps ''schema_revision'', JStr (cps ''content-json-v1'')), (cps ''value'', v)]"

definition parse_json :: "parser_lib \<Rightarrow> ParserSettings \<Rightarrow> ContentInspection \<Rightarrow> bytes \<Rightarrow> content_exc + NativeParserOutput" where
  "parse_json lib s insp data = res_bind (require_input_bound data (pa_inline_max_input_bytes s)) (\<lambda>_.
     case nl_codec lib (or_default (in_encoding insp) ''utf-8-sig'') data of
       Inl _ \<Rightarrow> Inl native_parse_failed
     | Inr t \<Rightarrow> (case json_loads_with False t of
         Inl _ \<Rightarrow> Inl native_parse_failed
       | Inr v \<Rightarrow> (case json_depth (pa_structured_max_depth s) 1 v of
           None \<Rightarrow> Inl parser_depth_limit
         | Some _ \<Rightarrow> res_bind (bounded_json_bytes (nl_float lib) (json_document v) (pa_inline_max_output_bytes s)) (\<lambda>encoded.
             Inr \<lparr>po_representations = [structured ''content-json-v1'' encoded], po_warnings = [], po_hints = []\<rparr>))))"

subsection \<open>Text (text\_parser.py)\<close>

text \<open>\<open>dict.fromkeys\<close> keeps the first of equal keys.\<close>

definition from_keys :: "'a list \<Rightarrow> 'a list" where
  "from_keys xs = rev (remdups (rev xs))"

definition decode_candidates :: "bytes \<Rightarrow> string option \<Rightarrow> string list" where
  "decode_candidates data observed = from_keys (
     (case observed of None \<Rightarrow> [] | Some e \<Rightarrow> if e = [] then [] else [e])
     @ (if take 3 data = [0xEF, 0xBB, 0xBF] then [''utf-8-sig'']
        else if take 2 data = [0xFF, 0xFE] then [''utf-16-le'']
        else if take 2 data = [0xFE, 0xFF] then [''utf-16-be''] else [])
     @ [''utf-8''])"

fun decode_first :: "(string \<Rightarrow> bytes \<Rightarrow> codec_error + ustr) \<Rightarrow> bytes \<Rightarrow> string list \<Rightarrow> content_exc + ustr option" where
  "decode_first codec data [] = Inr None"
| "decode_first codec data (e # es) = (case codec e data of
     Inr t \<Rightarrow> Inr (Some t)
   | Inl CodecOther \<Rightarrow> Inl parser_value_error
   | Inl _ \<Rightarrow> decode_first codec data es)"

definition decode_text :: "parser_lib \<Rightarrow> bytes \<Rightarrow> string option \<Rightarrow> content_exc + ustr \<times> bool" where
  "decode_text lib data observed = res_bind (decode_first (nl_codec lib) data (decode_candidates data observed)) (\<lambda>found.
     case found of Some t \<Rightarrow> Inr (t, False)
     | None \<Rightarrow> (case nl_guess lib data of None \<Rightarrow> Inl native_parse_failed | Some t \<Rightarrow> Inr (t, True)))"

definition parse_text :: "parser_lib \<Rightarrow> ParserSettings \<Rightarrow> ContentInspection \<Rightarrow> bytes \<Rightarrow> content_exc + NativeParserOutput" where
  "parse_text lib s insp data = res_bind (require_input_bound data (pa_inline_max_input_bytes s)) (\<lambda>_.
     res_bind (decode_text lib data (in_encoding insp)) (\<lambda>(t, inferred).
     res_bind (encode_text t) (\<lambda>encoded.
       if int (length encoded) > pa_inline_max_output_bytes s then Inl parser_output_limit
       else Inr \<lparr>po_representations = [\<lparr>pp_representation = TEXT, pp_media_type = ''text/plain; charset=utf-8'',
                   pp_schema_revision = ''content-text-v1'', pp_data = encoded\<rparr>],
                 po_warnings = (if inferred then [warning ''encoding_inferred''] else []), po_hints = []\<rparr>)))"

subsection \<open>XML (xml\_parser.py)\<close>

fun contains :: "'a list \<Rightarrow> 'a list \<Rightarrow> bool" where
  "contains p [] \<longleftrightarrow> p = []"
| "contains p (x # xs) \<longleftrightarrow> take (length p) (x # xs) = p \<or> contains p xs"

definition lower_byte :: "byte \<Rightarrow> byte" where
  "lower_byte b = (if 65 \<le> b \<and> b \<le> 90 then b + 32 else b)"

text \<open>\<open>_element\<close> with the counter of \<open>nodes\<close> threaded through.\<close>

fun element_json :: "int \<Rightarrow> int \<Rightarrow> int \<Rightarrow> xml_element \<Rightarrow> int \<Rightarrow> content_exc + json \<times> int"
and elements_json :: "int \<Rightarrow> int \<Rightarrow> int \<Rightarrow> xml_element list \<Rightarrow> int \<Rightarrow> content_exc + json list \<times> int"
where
  "element_json max_depth max_nodes depth (Element tag attrib txt tail children) nodes =
     (if depth > max_depth then Inl parser_depth_limit
      else if nodes + 1 > max_nodes then Inl parser_depth_limit
      else res_bind (elements_json max_depth max_nodes (depth + 1) children (nodes + 1)) (\<lambda>(cs, nodes).
        Inr (JObj [(cps ''tag'', JStr tag),
          (cps ''attributes'', JObj (dict_of (map (\<lambda>(k, v). (k, JStr v)) (sort attrib)))),
          (cps ''text'', JStr (case txt of None \<Rightarrow> [] | Some t \<Rightarrow> t)),
          (cps ''tail'', JStr (case tail of None \<Rightarrow> [] | Some t \<Rightarrow> t)),
          (cps ''children'', JArr cs)], nodes)))"
| "elements_json max_depth max_nodes depth [] nodes = Inr ([], nodes)"
| "elements_json max_depth max_nodes depth (e # es) nodes =
     res_bind (element_json max_depth max_nodes depth e nodes) (\<lambda>(c, nodes).
     res_bind (elements_json max_depth max_nodes depth es nodes) (\<lambda>(cs, nodes). Inr (c # cs, nodes)))"

definition parse_xml_document :: "parser_lib \<Rightarrow> ParserSettings \<Rightarrow> bytes \<Rightarrow> content_exc + NativeParserOutput" where
  "parse_xml_document lib s data = res_bind (require_input_bound data (pa_inline_max_input_bytes s)) (\<lambda>_.
     if contains (cps ''<!doctype'') (map lower_byte data) then Inl native_parse_failed
     else case nl_xml lib data of
       None \<Rightarrow> Inl native_parse_failed
     | Some element \<Rightarrow> res_bind (element_json (pa_structured_max_depth s) (pa_structured_max_nodes s) 1 element 0) (\<lambda>(tree, _).
         res_bind (bounded_json_bytes (nl_float lib)
             (JObj [(cps ''schema_revision'', JStr (cps ''content-xml-v1'')), (cps ''root'', tree)]) (pa_inline_max_output_bytes s)) (\<lambda>encoded.
           Inr \<lparr>po_representations = [structured ''content-xml-v1'' encoded], po_warnings = [], po_hints = []\<rparr>)))"

subsection \<open>Descriptors, registry and routing\<close>

definition text_descriptor :: ParserDescriptor where
  "text_descriptor = \<lparr>pd_capability = ''text'', pd_revision = ''text-parser-v1'', pd_profile_revision = ''text-default-v1'',
     pd_supported_formats = [FMT_TEXT], pd_primary_representation = TEXT, pd_representation_schema_revision = ''content-text-v1'',
     pd_execution_mode = INLINE\<rparr>"

definition html_descriptor :: ParserDescriptor where
  "html_descriptor = \<lparr>pd_capability = ''html'', pd_revision = ''html-trafilatura-lxml-v1'', pd_profile_revision = ''html-default-v1'',
     pd_supported_formats = [FMT_HTML], pd_primary_representation = MARKDOWN, pd_representation_schema_revision = ''content-html-main-v1'',
     pd_execution_mode = INLINE\<rparr>"

definition json_descriptor :: ParserDescriptor where
  "json_descriptor = \<lparr>pd_capability = ''json'', pd_revision = ''json-stdlib-v1'', pd_profile_revision = ''json-default-v1'',
     pd_supported_formats = [FMT_JSON], pd_primary_representation = STRUCTURED, pd_representation_schema_revision = ''content-json-v1'',
     pd_execution_mode = INLINE\<rparr>"

definition xml_descriptor :: ParserDescriptor where
  "xml_descriptor = \<lparr>pd_capability = ''xml'', pd_revision = ''xml-defused-v1'', pd_profile_revision = ''xml-default-v1'',
     pd_supported_formats = [FMT_XML], pd_primary_representation = STRUCTURED, pd_representation_schema_revision = ''content-xml-v1'',
     pd_execution_mode = INLINE\<rparr>"

definition csv_descriptor :: ParserDescriptor where
  "csv_descriptor = \<lparr>pd_capability = ''csv'', pd_revision = ''csv-stdlib-v1'', pd_profile_revision = ''csv-default-v1'',
     pd_supported_formats = [FMT_CSV], pd_primary_representation = STRUCTURED, pd_representation_schema_revision = ''content-csv-v1'',
     pd_execution_mode = INLINE\<rparr>"

definition pdf_descriptor :: ParserDescriptor where
  "pdf_descriptor = \<lparr>pd_capability = ''pdf'', pd_revision = ''pdf-pypdf-isolated-v1'', pd_profile_revision = ''pdf-native-text-v1'',
     pd_supported_formats = [FMT_PDF], pd_primary_representation = TEXT, pd_representation_schema_revision = ''content-pdf-text-v1'',
     pd_execution_mode = ISOLATED\<rparr>"

definition make_parser_registry :: "ParserDescriptor list \<Rightarrow> ParserDescriptor list option" where
  "make_parser_registry ds = (if distinct (map pd_capability ds) \<and> distinct (concat (map pd_supported_formats ds)) then Some ds else None)"

definition available_formats :: "ParserDescriptor list \<Rightarrow> ContentFormat list" where
  "available_formats ds = concat (map pd_supported_formats ds)"

definition select_parser :: "ParserDescriptor list \<Rightarrow> ContentInspection \<Rightarrow> ParserDescriptor option" where
  "select_parser ds insp = find (\<lambda>d. in_detected_format insp \<in> set (pd_supported_formats d)) ds"

subsection \<open>Warnings\<close>

lemma warn_once_length: "length (warn_once c ws) \<le> Suc (length ws)"
  by (simp add: warn_once_def)

lemma warn_once_codes: "wn_code ` set (warn_once c ws) = insert c (wn_code ` set ws)"
  by (force simp: warn_once_def warning_def list_ex_iff)

lemma warn_once_distinct: "distinct (map wn_code ws) \<Longrightarrow> distinct (map wn_code (warn_once c ws))"
  by (auto simp: warn_once_def warning_def list_ex_iff)

lemma distinct_image_length: "distinct (map f xs) \<Longrightarrow> f ` set xs \<subseteq> set ys \<Longrightarrow> length xs \<le> length ys"
  using card_mono [of "set ys" "set (map f xs)"] card_length [of ys] distinct_card [of "map f xs"] by simp

subsection \<open>Sorted values\<close>

lemma distinct_keys_sort: "distinct (map fst (sort_key fst xs)) \<longleftrightarrow> distinct (map fst xs)"
  by (rule mset_eq_imp_distinct_iff) simp

lemma json_sorted_plain: "json_plain v \<Longrightarrow> json_plain (json_sorted v)"
proof (induction v)
  case (JObj ms)
  have "json_plain (json_sorted (snd m))" if "m \<in> set ms" for m
    using JObj.prems that by (intro JObj.IH [of m]) (auto simp: snds.simps)
  moreover have "map fst (map (\<lambda>(k, v). (k, json_sorted v)) ms) = map fst ms" by auto
  ultimately show ?case using JObj.prems by (simp del: map_map add: distinct_keys_sort) fastforce
qed auto

lemma json_sorted_scalar: "json_scalar v \<Longrightarrow> json_scalar (json_sorted v)"
proof (induction v)
  case (JObj ms)
  have "json_scalar (json_sorted (snd m))" if "m \<in> set ms" for m
    using JObj.prems that by (intro JObj.IH [of m]) (auto simp: snds.simps)
  then show ?case using JObj.prems by auto
qed auto

lemma those_Some: "(\<And>x. x \<in> set xs \<Longrightarrow> f x = Some (g x)) \<Longrightarrow> those (map f xs) = Some (map g xs)"
  by (induction xs) auto

lemma json_text_plain: "json_plain v \<Longrightarrow> json_text flt v = Some (json_dumps v)"
proof (induction v)
  case (JArr vs)
  then have "those (map (json_text flt) vs) = Some (map json_dumps vs)" by (intro those_Some) auto
  then show ?case by simp
next
  case (JObj ms)
  have "json_text flt (snd m) = Some (json_dumps (snd m))" if "m \<in> set ms" for m
    using JObj.prems that by (intro JObj.IH [of m]) (auto simp: snds.simps)
  then have "those (map (\<lambda>(k, v). map_option (\<lambda>t. dump_str k @ [58] @ t) (json_text flt v)) ms)
      = Some (map (\<lambda>(k, v). dump_str k @ [58] @ json_dumps v) ms)"
    by (intro those_Some) (auto split: prod.split)
  then show ?case by simp
qed auto

lemma bounded_json_plain:
  assumes "json_plain v" "json_scalar v"
  shows "bounded_json_bytes flt v limit = (let b = utf8_encode (json_dumps (json_sorted v)) in
     if int (length b) > limit then Inl parser_output_limit else Inr b)"
  using assms json_dumps_scalar [OF json_sorted_plain json_sorted_scalar, of v]
  by (simp add: bounded_json_bytes_def json_text_plain json_sorted_plain encode_text_def Let_def)

subsection \<open>Depth\<close>

text \<open>The nesting of a value, defined without a limit.\<close>

fun nesting :: "json \<Rightarrow> int" where
  "nesting (JArr vs) = 1 + foldl max 0 (map nesting vs)"
| "nesting (JObj ms) = 1 + foldl max 0 (map (\<lambda>m. nesting (snd m)) ms)"
| "nesting v = 1"

lemma foldl_max_ge: "(a :: int) \<le> foldl max a xs"
  by (induction xs arbitrary: a) (auto intro: order_trans [OF max.cobounded1])

lemma foldl_max_le: "foldl max (a :: int) xs \<le> b \<longleftrightarrow> a \<le> b \<and> (\<forall>x \<in> set xs. x \<le> b)"
  by (induction xs arbitrary: a) auto

lemma nesting_pos: "1 \<le> nesting v"
  by (cases v) (simp_all add: foldl_max_ge)

lemma deepest_exact:
  fixes depth limit :: int
  assumes "\<And>x. x \<in> set xs \<Longrightarrow> f x = (if depth + g x \<le> limit then Some (depth + g x) else None)" "depth + a \<le> limit"
  shows "map_option (foldl max (depth + a)) (those (map f xs))
    = (if depth + foldl max a (map g xs) \<le> limit then Some (depth + foldl max a (map g xs)) else None)"
  using assms
proof (induction xs arbitrary: a)
  case (Cons x xs)
  show ?case
  proof (cases "depth + g x \<le> limit")
    case True
    have "max (depth + a) (depth + g x) = depth + max a (g x)" by (simp add: max_def)
    then show ?thesis using Cons.IH [of "max a (g x)"] Cons.prems True by (simp add: option.map_comp comp_def)
  next
    case False
    moreover have "g x \<le> foldl max (max a (g x)) (map g xs)" by (rule order_trans [OF max.cobounded2 foldl_max_ge])
    ultimately show ?thesis using Cons.prems(1) [of x] by simp
  qed
qed simp

lemma json_depth_exact:
  "json_depth limit depth v = (if depth + nesting v - 1 \<le> limit then Some (depth + nesting v - 1) else None)"
proof (induction v arbitrary: depth)
  case (JArr vs)
  show ?case
  proof (cases "depth \<le> limit")
    case True
    then show ?thesis
      using deepest_exact [of vs "json_depth limit (depth + 1)" depth nesting limit 0] JArr
      by (simp add: deepest_def)
  qed (use foldl_max_ge [of 0 "map nesting vs"] in simp)
next
  case (JObj ms)
  have member: "json_depth limit d (snd m) = (if d + nesting (snd m) - 1 \<le> limit then Some (d + nesting (snd m) - 1) else None)"
    if "m \<in> set ms" for m d
    using that by (intro JObj.IH [of m]) (auto simp: snds.simps)
  show ?case
  proof (cases "depth \<le> limit")
    case True
    then show ?thesis
      using deepest_exact [of ms "\<lambda>m. json_depth limit (depth + 1) (snd m)" depth "\<lambda>m. nesting (snd m)" limit 0] member
      by (simp add: deepest_def)
  qed (use foldl_max_ge [of 0 "map (\<lambda>m. nesting (snd m)) ms"] in simp)
qed simp_all

subsection \<open>XML trees\<close>

fun xml_depth :: "xml_element \<Rightarrow> int" where
  "xml_depth (Element t a x y cs) = 1 + foldl max 0 (map xml_depth cs)"

fun xml_nodes :: "xml_element \<Rightarrow> int" where
  "xml_nodes (Element t a x y cs) = 1 + sum_list (map xml_nodes cs)"

fun tree_json :: "xml_element \<Rightarrow> json" where
  "tree_json (Element tag attrib txt tail children) = JObj [(cps ''tag'', JStr tag),
     (cps ''attributes'', JObj (dict_of (map (\<lambda>(k, v). (k, JStr v)) (sort attrib)))),
     (cps ''text'', JStr (case txt of None \<Rightarrow> [] | Some t \<Rightarrow> t)),
     (cps ''tail'', JStr (case tail of None \<Rightarrow> [] | Some t \<Rightarrow> t)),
     (cps ''children'', JArr (map tree_json children))]"

lemma xml_nodes_pos: "1 \<le> xml_nodes e"
proof (induction e)
  case (Element t a x y cs)
  have "0 \<le> sum_list (map xml_nodes cs)" by (rule sum_list_nonneg) (use Element in fastforce)
  then show ?case by simp
qed

lemma xml_nodes_sum: "0 \<le> sum_list (map xml_nodes es)"
  by (induction es) (use xml_nodes_pos in \<open>auto intro: order_trans [OF zero_le_one] add_nonneg_nonneg\<close>)

text \<open>\<open>_element\<close> accepts a tree exactly when its depth and its number of nodes are within the limits.\<close>

lemma element_json_exact:
  "element_json D N d e n = (if d + xml_depth e - 1 \<le> D \<and> n + xml_nodes e \<le> N
     then Inr (tree_json e, n + xml_nodes e) else Inl parser_depth_limit)"
  "elements_json D N d es n = (if (\<forall>e \<in> set es. d + xml_depth e - 1 \<le> D) \<and> (es = [] \<or> n + sum_list (map xml_nodes es) \<le> N)
     then Inr (map tree_json es, n + sum_list (map xml_nodes es)) else Inl parser_depth_limit)"
proof (induction D N d e n and D N d es n rule: element_json_elements_json.induct)
  case (1 D N d tag attrib tx tail children n)
  have nonneg: "0 \<le> sum_list (map xml_nodes children)" by (rule xml_nodes_sum)
  have deep: "d + xml_depth (Element tag attrib tx tail children) - 1 \<le> D \<longleftrightarrow> d \<le> D \<and> (\<forall>e \<in> set children. d + 1 + xml_depth e - 1 \<le> D)"
    using foldl_max_le [of 0 "map xml_depth children" "D - d"] by auto
  show ?case
  proof (cases "d \<le> D \<and> n + 1 \<le> N")
    case True
    then have "\<not> d > D" "\<not> n + 1 > N" by auto
    from 1 [OF this] show ?thesis using True nonneg unfolding deep by (auto simp: add.assoc)
  next
    case False
    then show ?thesis using nonneg unfolding deep by auto
  qed
next
  case (3 D N d e es n)
  have nonneg: "0 \<le> sum_list (map xml_nodes es)" by (rule xml_nodes_sum)
  show ?case
    using 3 nonneg by (auto simp: add.assoc)
qed simp

subsection \<open>Bounds\<close>

text \<open>What every representation of a parser satisfies: it is UTF-8 and within the output limit.\<close>

definition representation_bounded :: "int \<Rightarrow> ParsedRepresentation \<Rightarrow> bool" where
  "representation_bounded limit r \<longleftrightarrow> int (length (pp_data r)) \<le> limit
     \<and> (\<exists>t. list_all scalar_value t \<and> pp_data r = utf8_encode t)"

lemma encode_text_Inr: "encode_text t = Inr b \<Longrightarrow> list_all scalar_value t \<and> b = utf8_encode t"
  by (auto simp: encode_text_def split: if_split_asm)

lemma bounded_json_bytes_Inr:
  "bounded_json_bytes flt v limit = Inr b \<Longrightarrow> int (length b) \<le> limit \<and> (\<exists>t. list_all scalar_value t \<and> b = utf8_encode t)"
  by (auto simp: bounded_json_bytes_def res_bind_Inr split: option.split_asm if_split_asm dest!: encode_text_Inr)

lemma require_input_bound_Inr: "require_input_bound data limit = Inr u \<longleftrightarrow> int (length data) \<le> limit"
  by (simp add: require_input_bound_def)

lemma parse_json_bounded:
  assumes "parse_json lib s insp data = Inr out"
  shows "int (length data) \<le> pa_inline_max_input_bytes s \<and> native_parser_output_ok out
    \<and> list_all (representation_bounded (pa_inline_max_output_bytes s)) (po_representations out)"
  using assms
  by (auto simp: parse_json_def res_bind_Inr require_input_bound_Inr native_parser_output_ok_def structured_def representation_bounded_def
      split: sum.split_asm option.split_asm dest!: bounded_json_bytes_Inr)

lemma parse_xml_document_bounded:
  assumes "parse_xml_document lib s data = Inr out"
  shows "int (length data) \<le> pa_inline_max_input_bytes s \<and> native_parser_output_ok out
    \<and> list_all (representation_bounded (pa_inline_max_output_bytes s)) (po_representations out)"
  using assms
  by (auto simp: parse_xml_document_def res_bind_Inr require_input_bound_Inr native_parser_output_ok_def structured_def representation_bounded_def
      split: if_split_asm option.split_asm dest!: bounded_json_bytes_Inr)

lemma parse_text_bounded:
  assumes "parse_text lib s insp data = Inr out"
  shows "int (length data) \<le> pa_inline_max_input_bytes s \<and> native_parser_output_ok out
    \<and> list_all (representation_bounded (pa_inline_max_output_bytes s)) (po_representations out)"
  using assms
  by (auto simp: parse_text_def res_bind_Inr require_input_bound_Inr native_parser_output_ok_def representation_bounded_def
      split: if_split_asm dest!: encode_text_Inr)

subsection \<open>Documents read back\<close>

lemma json_document_ok: "json_plain v \<Longrightarrow> json_plain (json_document v)" "json_scalar v \<Longrightarrow> json_scalar (json_document v)"
  by (simp_all add: json_document_def)

lemma json_document_sorted: "json_sorted (json_document v) = json_document (json_sorted v)"
proof -
  have "cps ''schema_revision'' \<le> cps ''value''" by (simp add: cps_def)
  then show ?thesis by (simp add: json_document_def)
qed

lemma parse_json_plain:
  assumes "int (length data) \<le> pa_inline_max_input_bytes s"
    and "nl_codec lib (or_default (in_encoding insp) ''utf-8-sig'') data = Inr (json_dumps v)" "json_plain v" "json_scalar v"
  shows "parse_json lib s insp data = (let b = utf8_encode (json_dumps (json_document (json_sorted v))) in
     if nesting v > pa_structured_max_depth s then Inl parser_depth_limit
     else if int (length b) > pa_inline_max_output_bytes s then Inl parser_output_limit
     else Inr \<lparr>po_representations = [structured ''content-json-v1'' b], po_warnings = [], po_hints = []\<rparr>)"
  using assms bounded_json_plain [OF json_document_ok, of v]
  by (simp add: parse_json_def require_input_bound_def json_with_roundtrip json_depth_exact json_document_sorted Let_def)

lemma parser_defaults_ok: "parser_settings_ok parser_defaults"
  by (simp add: parser_settings_ok_def parser_defaults_def)

section \<open>Properties\<close>


definition demo_parser_lib :: parser_lib where
  "demo_parser_lib = \<lparr>nl_codec = (\<lambda>_ b. case utf8_decode b of None \<Rightarrow> Inl CodecDecode | Some t \<Rightarrow> Inr t), nl_guess = (\<lambda>_. None),
     nl_float = (\<lambda>_. None), nl_xml = (\<lambda>_. Some (Element (cps ''a'') [] None None [Element (cps ''b'') [] None None []]))\<rparr>"

definition demo_inspection :: ContentInspection where
  "demo_inspection = \<lparr>in_size_bytes = 4, in_sha256 = replicate 64 CHR ''a'', in_declared_media_type = None, in_detected_media_type = None,
     in_detected_format = FMT_JSON, in_source_filename = None, in_encoding = None, in_parser_availability = PA_AVAILABLE, in_warnings = []\<rparr>"


end
