(* ===== verification/Content_Html.thy ===== *)
theory Content_Html
  imports Content_Parsers
begin

section \<open>HTML pages\<close>

text \<open>
  The HTML parser (\<open>parsers/html_parser.py\<close>). What lxml's queries return for a page and what trafilatura extracts are
  arguments; the bounds, the warnings and the documents made of them are the code's.
\<close>

subsection \<open>The parser\<close>

record html_page =
  hp_titles :: "ustr list"
  hp_canonical :: "ustr option list"
  hp_description :: "ustr option list"
  hp_headings :: "(int \<times> ustr) list"
  hp_links :: "(ustr option \<times> ustr) list"
  hp_meta :: "(ustr option \<times> ustr option) list"
  hp_json_ld :: "ustr option list"
  hp_body_text :: "ustr option"
  hp_scripts :: nat
  hp_ids :: "ustr option list"

record html_lib =
  hl_decode :: "string \<Rightarrow> bytes \<Rightarrow> ustr option"
  hl_fromstring :: "string \<Rightarrow> bytes \<Rightarrow> html_page option"
  hl_extract :: "ustr \<Rightarrow> ustr option"
  hl_float :: "rat \<Rightarrow> ustr option"

text \<open>\<open>re.sub(r"\s+", " ", value)\<close>.\<close>

fun collapse_space :: "bool \<Rightarrow> ustr \<Rightarrow> ustr" where
  "collapse_space inside [] = []"
| "collapse_space inside (c # s) = (if uni_space c then (if inside then [] else [32]) @ collapse_space True s
     else c # collapse_space False s)"

definition bounded_text :: "ustr \<Rightarrow> int \<Rightarrow> ustr" where
  "bounded_text v limit = take (nat limit) (strip_by uni_space (collapse_space False v))"

definition first_text :: "ustr list \<Rightarrow> int \<Rightarrow> json" where
  "first_text vs limit = (case vs of [] \<Rightarrow> JNull | v # _ \<Rightarrow> JStr (bounded_text v limit))"

definition first_attribute :: "ustr option list \<Rightarrow> int \<Rightarrow> json" where
  "first_attribute es limit = (case es of Some (c # s) # _ \<Rightarrow> JStr (take (nat limit) (c # s)) | _ \<Rightarrow> JNull)"

definition or_empty :: "ustr option \<Rightarrow> ustr" where
  "or_empty v = (case v of None \<Rightarrow> [] | Some s \<Rightarrow> s)"

definition og_keys :: "ustr list" where
  "og_keys = map cps [''og:title'', ''og:description'', ''og:image'', ''og:url'', ''og:type'', ''og:site_name'']"

definition shell_ids :: "ustr list" where
  "shell_ids = map cps [''app'', ''root'', ''__next'', ''___gatsby'']"

text \<open>The keys are ASCII, and no other letter has one of their letters as its lower case.\<close>

fun open_graph :: "int \<Rightarrow> (ustr option \<times> ustr option) list \<Rightarrow> (ustr \<times> json) list \<Rightarrow> (ustr \<times> json) list" where
  "open_graph limit [] acc = acc"
| "open_graph limit ((p, c) # es) acc = (let key = map lower_byte (or_empty p) in
     open_graph limit es (if key \<in> set og_keys \<and> key \<notin> fst ` set acc then acc @ [(key, JStr (take (nat limit) (or_empty c)))] else acc))"

fun json_ld_items :: "ParserSettings \<Rightarrow> ustr option list \<Rightarrow> json list \<Rightarrow> Warning list \<Rightarrow> json list \<times> Warning list" where
  "json_ld_items s [] items ws = (items, ws)"
| "json_ld_items s (e # es) items ws = (let raw = or_empty e in
     if int (length raw) > pa_html_max_metadata_chars s * 4 then json_ld_items s es items (warn_once ''html_jsonld_oversized'' ws)
     else case json_loads raw of
       Inl _ \<Rightarrow> json_ld_items s es items (warn_once ''html_jsonld_invalid'' ws)
     | Inr v \<Rightarrow> if json_depth (pa_structured_max_depth s) 1 v = None
         then json_ld_items s es items (warn_once ''html_jsonld_invalid'' ws)
         else json_ld_items s es (items @ [v]) ws)"

definition extract_structure :: "html_page \<Rightarrow> ParserSettings \<Rightarrow> Warning list \<Rightarrow> (ustr \<times> json) list \<times> Warning list" where
  "extract_structure page s ws = (let limit = pa_html_max_metadata_chars s;
       (json_ld, ws) = json_ld_items s (take (nat (pa_html_max_jsonld_items s)) (hp_json_ld page)) [] ws
     in ([(cps ''title'', first_text (hp_titles page) limit),
          (cps ''canonical_url'', first_attribute (hp_canonical page) limit),
          (cps ''description'', first_attribute (hp_description page) limit),
          (cps ''headings'', JArr (map (\<lambda>(level, t). JObj [(cps ''level'', JInt level), (cps ''text'', JStr (bounded_text t limit))])
             (take (nat (pa_html_max_headings s)) (hp_headings page)))),
          (cps ''links'', JArr (map (\<lambda>(href, t). JObj [(cps ''href'', JStr (take (nat limit) (or_empty href))), (cps ''text'', JStr (bounded_text t limit))])
             (take (nat (pa_html_max_links s)) (hp_links page)))),
          (cps ''open_graph'', JObj (open_graph limit (hp_meta page) [])),
          (cps ''json_ld'', JArr json_ld)], ws))"

definition is_script_shell :: "html_page \<Rightarrow> bool" where
  "is_script_shell page = (case hp_body_text page of None \<Rightarrow> False
     | Some t \<Rightarrow> strip_by uni_space (collapse_space False t) = [] \<and> hp_scripts page \<noteq> 0
         \<and> list_ex (\<lambda>i. map lower_byte (or_empty i) \<in> set shell_ids) (hp_ids page))"

text \<open>\<open>decode("utf-8", errors="ignore")\<close> on the beginning of encoded text: what is complete is kept.\<close>

definition decode_ignore :: "bytes \<Rightarrow> ustr" where
  "decode_ignore b = (case u8_feed b of Some (t, _) \<Rightarrow> t | None \<Rightarrow> [])"

definition main_representation :: "ParserSettings \<Rightarrow> ustr \<Rightarrow> content_exc + ParsedRepresentation \<times> Warning list" where
  "main_representation s main = (let
       ws = (if int (length main) > pa_html_max_text_chars s then [warning ''html_main_content_truncated''] else []);
       limit = pa_inline_max_output_bytes s
     in res_bind (encode_text (take (nat (pa_html_max_text_chars s)) main)) (\<lambda>encoded.
       let over = int (length encoded) > limit in
       Inr (\<lparr>pp_representation = MARKDOWN, pp_media_type = ''text/markdown; charset=utf-8'', pp_schema_revision = ''content-html-main-v1'',
              pp_data = (if over then utf8_encode (decode_ignore (take (nat limit) encoded)) else encoded)\<rparr>,
            if over then warn_once ''html_main_content_truncated'' ws else ws)))"

definition parse_html :: "html_lib \<Rightarrow> ParserSettings \<Rightarrow> ContentInspection \<Rightarrow> bytes \<Rightarrow> content_exc + NativeParserOutput" where
  "parse_html lib s insp data = res_bind (require_input_bound data (pa_inline_max_input_bytes s)) (\<lambda>_.
     let encoding = or_default (in_encoding insp) ''utf-8'' in
     case (hl_decode lib encoding data, hl_fromstring lib encoding data) of
       (Some document, Some page) \<Rightarrow>
         (let shell = is_script_shell page; main = (if shell then None else hl_extract lib document) in
          res_bind (case main of Some (c # m) \<Rightarrow> map_sum id (\<lambda>(r, ws). ([r], ws)) (main_representation s (c # m))
              | _ \<Rightarrow> Inr ([], [warning ''html_main_content_unavailable''])) (\<lambda>(reps, ws).
          case extract_structure page s ws of (structure, ws) \<Rightarrow>
            res_bind (bounded_json_bytes (hl_float lib)
                (JObj ((cps ''schema_revision'', JStr (cps ''content-html-structure-v1'')) # structure)) (pa_inline_max_output_bytes s)) (\<lambda>encoded.
              Inr \<lparr>po_representations = reps @ [structured ''content-html-structure-v1'' encoded], po_warnings = ws,
                po_hints = (if shell then [browser_may_be_required] else [])\<rparr>)))
     | _ \<Rightarrow> Inl native_parse_failed)"

subsection \<open>Cutting encoded text\<close>

text \<open>A character the decoder delivers is no longer than the bytes it took.\<close>

lemma u8_head_length: "u8_head bs = U8_Char c n \<Longrightarrow> length (encode_cp c) \<le> n"
  by (cases bs) (auto simp: encode_cp_def seq_len_def second_ok_def cont_def split: if_split_asm list.split_asm)

lemma u8_feed_length: "u8_feed bs = Some (cs, rest) \<Longrightarrow> length (utf8_encode cs) \<le> length bs"
proof (induction bs arbitrary: cs rule: u8_feed.induct)
  case (1 bs)
  show ?case
  proof (cases "bs = []")
    case True
    then show ?thesis using "1.prems" by simp
  next
    case False
    then show ?thesis using "1.prems" "1.IH" [OF False] u8_head_length [of bs] u8_head_bound [of bs]
      by (fastforce simp: u8_feed.simps [of bs] utf8_encode_def split: u8_step.split_asm option.split_asm)
  qed
qed

lemma decode_ignore_prefix:
  assumes "list_all scalar_value t"
  shows "list_all scalar_value (decode_ignore (take n (utf8_encode t)))"
    "length (utf8_encode (decode_ignore (take n (utf8_encode t)))) \<le> n"
    "\<exists>rest. t = decode_ignore (take n (utf8_encode t)) @ rest"
proof -
  let ?b = "utf8_encode t"
  have "u8_feed (take n ?b @ drop n ?b) = Some (t, [])" using u8_feed_encode [OF assms, of "[]"] by simp
  then obtain cs rest es where f: "u8_feed (take n ?b) = Some (cs, rest)" "t = cs @ es"
    by (subst (asm) u8_feed_append) (auto split: option.split_asm prod.split_asm)
  have "decode_ignore (take n ?b) = cs" by (simp add: decode_ignore_def f(1))
  then show "list_all scalar_value (decode_ignore (take n ?b))" "\<exists>rest. t = decode_ignore (take n ?b) @ rest"
    "length (utf8_encode (decode_ignore (take n ?b))) \<le> n"
    using assms f(2) u8_feed_length [OF f(1)] by auto
qed

subsection \<open>Bounds\<close>

lemma main_representation_bounded:
  assumes "main_representation s main = Inr (r, ws)" "0 \<le> pa_inline_max_output_bytes s"
  shows "representation_bounded (pa_inline_max_output_bytes s) r \<and> pp_representation r = MARKDOWN \<and> length ws \<le> 1
    \<and> (\<exists>rest. utf8_encode main = pp_data r @ rest)"
proof -
  let ?n = "nat (pa_inline_max_output_bytes s)"
  obtain b where b: "encode_text (take (nat (pa_html_max_text_chars s)) main) = Inr b"
    using assms(1) by (auto simp: main_representation_def Let_def res_bind_Inr)
  define t where "t = take (nat (pa_html_max_text_chars s)) main"
  have t: "list_all scalar_value t" "b = utf8_encode t" using encode_text_Inr [OF b] by (simp_all add: t_def)
  note cut = decode_ignore_prefix [OF t(1), of ?n]
  define t' where "t' = (if int (length b) > pa_inline_max_output_bytes s then decode_ignore (take ?n b) else t)"
  have main: "utf8_encode main = utf8_encode t @ utf8_encode (drop (nat (pa_html_max_text_chars s)) main)"
    unfolding t_def by (metis append_take_drop_id utf8_encode_append)
  have r: "pp_data r = utf8_encode t'" "pp_representation r = MARKDOWN" "length ws \<le> 1"
    using assms(1) b by (auto simp: main_representation_def Let_def t'_def t(2) warn_once_def warning_def split: if_split_asm)
  have "\<exists>rest. t = t' @ rest" using cut(3) by (simp add: t'_def t(2))
  then obtain rest where "t = t' @ rest" by blast
  then have "utf8_encode main = utf8_encode t' @ utf8_encode rest @ utf8_encode (drop (nat (pa_html_max_text_chars s)) main)"
    unfolding main by simp
  moreover have "list_all scalar_value t'" "int (length (utf8_encode t')) \<le> pa_inline_max_output_bytes s"
    using cut(1,2) t assms(2) by (auto simp: t'_def)
  ultimately show ?thesis using r unfolding representation_bounded_def by metis
qed

text \<open>The codes of the warnings are distinct and among four.\<close>

lemma json_ld_warnings:
  assumes "json_ld_items s es items ws = (items', ws')"
  shows "wn_code ` set ws' \<subseteq> insert ''html_jsonld_oversized'' (insert ''html_jsonld_invalid'' (wn_code ` set ws))
    \<and> (distinct (map wn_code ws) \<longrightarrow> distinct (map wn_code ws'))"
  using assms
proof (induction s es items ws rule: json_ld_items.induct)
  case (2 s e es items ws)
  show ?case
  proof (cases "int (length (or_empty e)) > pa_html_max_metadata_chars s * 4")
    case True
    then show ?thesis
      using "2.IH"(1) [OF refl True] "2.prems" warn_once_distinct [of ws] by (auto simp: warn_once_codes)
  next
    case False
    then show ?thesis
      using "2.IH"(2-4) [OF refl False] "2.prems" warn_once_distinct [of ws]
      by (auto simp: warn_once_codes split: sum.split_asm if_split_asm)
  qed
qed auto

lemma parse_html_bounded:
  assumes "parse_html lib s insp data = Inr out" "0 \<le> pa_inline_max_output_bytes s"
  shows "int (length data) \<le> pa_inline_max_input_bytes s \<and> native_parser_output_ok out
    \<and> list_all (representation_bounded (pa_inline_max_output_bytes s)) (po_representations out)"
proof -
  let ?c = "or_default (in_encoding insp) ''utf-8''"
  obtain document page where lib: "hl_decode lib ?c data = Some document" "hl_fromstring lib ?c data = Some page" "int (length data) \<le> pa_inline_max_input_bytes s"
    using assms(1) by (auto simp: parse_html_def res_bind_Inr require_input_bound_Inr Let_def split: option.split_asm)
  define main where "main = (if is_script_shell page then None else hl_extract lib document)"
  have "res_bind (case main of Some (c # m) \<Rightarrow> map_sum id (\<lambda>(r, ws). ([r], ws)) (main_representation s (c # m))
        | _ \<Rightarrow> Inr ([], [warning ''html_main_content_unavailable''])) (\<lambda>(reps, ws).
      case extract_structure page s ws of (strc, ws) \<Rightarrow>
        res_bind (bounded_json_bytes (hl_float lib) (JObj ((cps ''schema_revision'', JStr (cps ''content-html-structure-v1'')) # strc)) (pa_inline_max_output_bytes s)) (\<lambda>encoded.
          Inr \<lparr>po_representations = reps @ [structured ''content-html-structure-v1'' encoded], po_warnings = ws,
            po_hints = (if is_script_shell page then [browser_may_be_required] else [])\<rparr>)) = Inr out"
    using assms(1) lib by (simp add: parse_html_def require_input_bound_def main_def Let_def)
  then obtain reps ws where r: "(case main of Some (c # m) \<Rightarrow> map_sum id (\<lambda>(r, ws). ([r], ws)) (main_representation s (c # m))
        | _ \<Rightarrow> Inr ([], [warning ''html_main_content_unavailable''])) = Inr (reps, ws)"
    and rest: "(case extract_structure page s ws of (strc, ws) \<Rightarrow>
        res_bind (bounded_json_bytes (hl_float lib) (JObj ((cps ''schema_revision'', JStr (cps ''content-html-structure-v1'')) # strc)) (pa_inline_max_output_bytes s)) (\<lambda>encoded.
          Inr \<lparr>po_representations = reps @ [structured ''content-html-structure-v1'' encoded], po_warnings = ws,
            po_hints = (if is_script_shell page then [browser_may_be_required] else [])\<rparr>)) = Inr out"
    unfolding res_bind_Inr by (metis (mono_tags, lifting) case_prod_conv surj_pair)
  obtain strc ws' where ex: "extract_structure page s ws = (strc, ws')" by fastforce
  obtain b where b: "bounded_json_bytes (hl_float lib) (JObj ((cps ''schema_revision'', JStr (cps ''content-html-structure-v1'')) # strc)) (pa_inline_max_output_bytes s) = Inr b"
      "out = \<lparr>po_representations = reps @ [structured ''content-html-structure-v1'' b], po_warnings = ws',
         po_hints = (if is_script_shell page then [browser_may_be_required] else [])\<rparr>"
    using rest unfolding ex prod.case res_bind_Inr by blast
  note out = r ex b
  have reps: "list_all (representation_bounded (pa_inline_max_output_bytes s)) reps \<and> map pp_representation reps \<in> {[], [MARKDOWN]} \<and> length ws \<le> 1"
    using out(1) main_representation_bounded [OF _ assms(2)]
    by (cases "case main of Some (c # m) \<Rightarrow> main_representation s (c # m) | _ \<Rightarrow> Inl ExcValue")
      (auto split: option.split_asm list.split_asm)
  have "distinct (map wn_code ws)" using reps by (cases ws) auto
  moreover obtain items where ld: "json_ld_items s (take (nat (pa_html_max_jsonld_items s)) (hp_json_ld page)) [] ws = (items, ws')"
    using out(2) by (auto simp: extract_structure_def Let_def split: prod.split_asm)
  ultimately have "length ws' \<le> length (''html_jsonld_oversized'' # ''html_jsonld_invalid'' # map wn_code ws)"
    using json_ld_warnings [OF ld] by (intro distinct_image_length [of wn_code]) (simp_all only: list.set set_map simp_thms)
  then have "length ws' \<le> 3" using reps by (simp only: list.size length_map) linarith
  moreover have "length (map pp_representation reps) \<le> 1" "STRUCTURED \<notin> set (map pp_representation reps)" "distinct (map pp_representation reps)"
    using reps by auto
  moreover have "distinct (map (\<lambda>r. (pp_representation r, pp_schema_revision r)) reps)"
    using reps by (cases reps) auto
  moreover have "representation_bounded (pa_inline_max_output_bytes s) (structured ''content-html-structure-v1'' b)"
    using bounded_json_bytes_Inr [OF out(3)] by (simp add: representation_bounded_def structured_def)
  ultimately show ?thesis
    using lib(3) reps by (auto simp: native_parser_output_ok_def out(4) structured_def)
qed

text \<open>A JSON-LD block with a non-standard constant is read by \<open>json.loads\<close> and then refused by the writer of the
  structure: the whole page is lost with a plain \<open>ValueError\<close>.\<close>

lemma those_None: "None \<in> set xs \<Longrightarrow> those xs = None"
  by (induction xs) (auto split: option.split)

lemma nan_json_ld_raises:
  assumes "JConst c \<in> set items"
  shows "bounded_json_bytes flt (JObj (ms @ [(k, JArr items)])) limit = Inl parser_value_error"
proof -
  have "None \<in> set (map (json_text flt) (map json_sorted items))" using assms by force
  then have "json_text flt (json_sorted (JArr items)) = None" by (simp add: those_None)
  moreover have "(k, json_sorted (JArr items)) \<in> set (sort_key fst (map (\<lambda>(k, v). (k, json_sorted v)) (ms @ [(k, JArr items)])))" by simp
  ultimately have "None \<in> set (map (\<lambda>(k, v). map_option (\<lambda>t. dump_str k @ [58] @ t) (json_text flt v))
      (sort_key fst (map (\<lambda>(k, v). (k, json_sorted v)) (ms @ [(k, JArr items)]))))"
    unfolding set_map image_iff by (intro bexI [of _ "(k, json_sorted (JArr items))"]) auto
  then have "json_text flt (json_sorted (JObj (ms @ [(k, JArr items)]))) = None"
    by (simp only: json_sorted.simps json_text.simps those_None option.map)
  then show ?thesis by (simp add: bounded_json_bytes_def)
qed

subsection \<open>Example libraries\<close>

definition demo_page :: html_page where
  "demo_page = \<lparr>hp_titles = [cps '' A  title ''], hp_canonical = [], hp_description = [], hp_headings = [(1, cps ''H'')], hp_links = [],
     hp_meta = [], hp_json_ld = [], hp_body_text = Some (cps ''body''), hp_scripts = 0, hp_ids = []\<rparr>"

definition demo_html_lib :: html_lib where
  "demo_html_lib = \<lparr>hl_decode = (\<lambda>_ b. Some b), hl_fromstring = (\<lambda>_ _. Some demo_page), hl_extract = (\<lambda>t. Some t), hl_float = (\<lambda>_. None)\<rparr>"

end
