(* ===== verification/Content_Identifier.thy ===== *)
theory Content_Identifier
  imports Content_Parsers
begin

section \<open>Content identification\<close>

text \<open>
  The L0 inspection of \<open>infrastructure/content/identifier.py\<close>: evidence for each format in a bounded sample, scored with
  the declared media type and the file name. The two regular expressions on bytes are written out as matchers. Codecs
  other than UTF-8, \<open>charset_normalizer\<close>, the CSV dialect detection and Unicode's table of printable characters are arguments.
\<close>

record identifier_lib =
  il_codec :: "string \<Rightarrow> bytes \<Rightarrow> codec_error + ustr"
  il_guess :: "bytes \<Rightarrow> (ustr \<times> rat) option"
  il_csv_widths :: "ustr \<Rightarrow> nat list option"
  il_printable :: "codepoint \<Rightarrow> bool"

subsection \<open>Names and media types\<close>

definition normalize_media_type :: "string option \<Rightarrow> string option" where
  "normalize_media_type v = (case v of None \<Rightarrow> None
     | Some s \<Rightarrow> let n = str_lower (str_strip (takeWhile (\<lambda>c. c \<noteq> CHR '';'') s)) in if n = [] then None else Some n)"

text \<open>\<open>PurePath(name).suffix.lower()\<close>; the suffixes it is compared with are ASCII, and no other letter has one of their
  letters as its lower case.\<close>

definition path_name :: "ustr \<Rightarrow> ustr" where
  "path_name p = (case rev (filter (\<lambda>c. c \<noteq> [] \<and> c \<noteq> [46]) (split_on 47 p)) of [] \<Rightarrow> [] | c # _ \<Rightarrow> c)"

definition path_suffix :: "ustr \<Rightarrow> ustr" where
  "path_suffix p = (let n = path_name p in case rpartition_at 46 n of (base, found, ext) \<Rightarrow>
     if found \<and> base \<noteq> [] \<and> ext \<noteq> [] then 46 # ext else [])"

definition file_suffix :: "ustr option \<Rightarrow> ustr" where
  "file_suffix f = (case f of None \<Rightarrow> [] | Some p \<Rightarrow> if p = [] then [] else map lower_byte (path_suffix p))"

definition display_filename :: "ustr option \<Rightarrow> ustr option" where
  "display_filename v = (case v of None \<Rightarrow> None | Some s \<Rightarrow>
     let safe = strip_by (\<lambda>c. c = 32 \<or> c = 46) (map (\<lambda>c. if c = 47 \<or> c = 92 \<or> c < 32 then 95 else c) s);
         cut = take 255 safe in if cut = [] then None else Some cut)"

subsection \<open>Encodings\<close>

definition observed_encoding :: "bytes \<Rightarrow> string option" where
  "observed_encoding data = (if take 3 data = [0xEF, 0xBB, 0xBF] then Some ''utf-8-sig''
     else if take 2 data = [0xFF, 0xFE] then Some ''utf-16-le''
     else if take 2 data = [0xFE, 0xFF] then Some ''utf-16-be''
     else if utf8_decode data = None then None else Some ''utf-8'')"

definition decode_sample :: "identifier_lib \<Rightarrow> bytes \<Rightarrow> ustr option" where
  "decode_sample lib data = (case observed_encoding data of None \<Rightarrow> None
     | Some e \<Rightarrow> if e = ''utf-8'' then utf8_decode data
         else (case il_codec lib e data of Inl _ \<Rightarrow> None | Inr t \<Rightarrow> Some t))"

text \<open>The expression \<open>(?:^|;)\s*charset\s*=\s*["']?([^;"']+)\<close> with \<open>re.I\<close> at one place: after the equals sign the group takes what
  follows the blanks and a quote, or, when nothing is left, gives back one blank.\<close>

definition charset_value :: "string \<Rightarrow> string option" where
  "charset_value r = (let blanks = takeWhile is_space r; r1 = dropWhile is_space r;
       r2 = (case r1 of c # cs \<Rightarrow> if c = CHR 0x22 \<or> c = CHR 0x27 then cs else r1 | [] \<Rightarrow> r1);
       g = takeWhile (\<lambda>c. c \<noteq> CHR '';'' \<and> c \<noteq> CHR 0x22 \<and> c \<noteq> CHR 0x27) r2
     in if g \<noteq> [] then Some g else if blanks \<noteq> [] then Some [last blanks] else None)"

definition charset_here :: "string \<Rightarrow> string option" where
  "charset_here s = (let r = dropWhile is_space s; r' = dropWhile is_space (drop 7 r) in
     if str_lower (take 7 r) = ''charset'' \<and> take 1 r' = ''='' then charset_value (drop 1 r') else None)"

fun charset_later :: "string \<Rightarrow> string option" where
  "charset_later [] = None"
| "charset_later (c # s) = (case if c = CHR '';'' then charset_here s else None of Some g \<Rightarrow> Some g | None \<Rightarrow> charset_later s)"

definition charset_search :: "string \<Rightarrow> string option" where
  "charset_search s = (case charset_here s of Some g \<Rightarrow> Some g | None \<Rightarrow> charset_later s)"

definition declared_encoding :: "identifier_lib \<Rightarrow> string option \<Rightarrow> bytes \<Rightarrow> content_exc + string option" where
  "declared_encoding lib v data = (case Option.bind v charset_search of None \<Rightarrow> Inr None
     | Some g \<Rightarrow> let e = str_lower (str_strip g) in
         (case il_codec lib e data of Inr _ \<Rightarrow> Inr (Some e) | Inl CodecOther \<Rightarrow> Inl ExcValue | Inl _ \<Rightarrow> Inr None))"

subsection \<open>Evidence\<close>

definition byte_space :: "byte \<Rightarrow> bool" where
  "byte_space b \<longleftrightarrow> b = 32 \<or> (9 \<le> b \<and> b \<le> 13)"

definition word_byte :: "byte \<Rightarrow> bool" where
  "word_byte b \<longleftrightarrow> (48 \<le> b \<and> b \<le> 57) \<or> (65 \<le> b \<and> b \<le> 90) \<or> (97 \<le> b \<and> b \<le> 122) \<or> b = 95"

definition word_ends :: "bytes \<Rightarrow> bool" where
  "word_ends r \<longleftrightarrow> (case r of [] \<Rightarrow> True | b # _ \<Rightarrow> \<not> word_byte b)"

definition word_at :: "string \<Rightarrow> bytes \<Rightarrow> bytes option" where
  "word_at w bs = (if map lower_byte (take (length w) bs) = cps w then Some (drop (length w) bs) else None)"

text \<open>\<open>_HTML\<close> after its opening bracket.\<close>

definition html_word :: "string \<Rightarrow> bytes \<Rightarrow> bool" where
  "html_word w bs \<longleftrightarrow> (case word_at w bs of None \<Rightarrow> False | Some r \<Rightarrow> word_ends r)"

definition html_doctype :: "bytes \<Rightarrow> bool" where
  "html_doctype bs \<longleftrightarrow> (case word_at ''!doctype'' bs of None \<Rightarrow> False
     | Some r \<Rightarrow> r \<noteq> [] \<and> byte_space (hd r) \<and> html_word ''html'' (dropWhile byte_space r))"

fun html_evidence :: "bytes \<Rightarrow> bool" where
  "html_evidence [] = False"
| "html_evidence (b # bs) \<longleftrightarrow> (b = 60 \<and> (let r = dropWhile byte_space bs in
      html_doctype r \<or> list_ex (\<lambda>w. html_word w r) [''html'', ''head'', ''body'', ''title'', ''meta'', ''article'']))
     \<or> html_evidence bs"

text \<open>\<open>_XML\<close>: an optional declaration and the longest name that ends at a word boundary.\<close>

definition name_byte :: "byte \<Rightarrow> bool" where
  "name_byte b \<longleftrightarrow> word_byte b \<or> b = 58 \<or> b = 46 \<or> b = 45"

definition boundary :: "bytes \<Rightarrow> nat \<Rightarrow> bool" where
  "boundary bs n \<longleftrightarrow> (0 < n \<and> word_byte (bs ! (n - 1))) \<noteq> (n < length bs \<and> word_byte (bs ! n))"

definition xml_name :: "bytes \<Rightarrow> bytes option" where
  "xml_name bs = (case bs of b # _ \<Rightarrow> if word_byte b \<and> \<not> (48 \<le> b \<and> b \<le> 57)
       then map_option (\<lambda>n. take n bs) (find (boundary bs) (rev [1..<Suc (length (takeWhile name_byte bs))]))
       else None
     | [] \<Rightarrow> None)"

definition skip_declaration :: "bytes \<Rightarrow> bytes" where
  "skip_declaration bs = (if take 5 bs = cps ''<?xml'' \<and> word_ends (drop 5 bs)
     then (let body = takeWhile (\<lambda>b. b \<noteq> 62) (drop 5 bs); rest = dropWhile (\<lambda>b. b \<noteq> 62) (drop 5 bs) in
       if rest \<noteq> [] \<and> body \<noteq> [] \<and> last body = 63 then dropWhile byte_space (tl rest) else bs)
     else bs)"

definition xml_root_name :: "bytes \<Rightarrow> bytes option" where
  "xml_root_name bs = (case skip_declaration (dropWhile byte_space bs) of
     b # r \<Rightarrow> if b = 60 then xml_name r else None | [] \<Rightarrow> None)"

definition is_xml :: "bytes \<Rightarrow> bool" where
  "is_xml data = (case xml_root_name (take 65536 data) of None \<Rightarrow> False | Some n \<Rightarrow> map lower_byte n \<noteq> cps ''html'')"

definition is_pdf :: "bytes \<Rightarrow> bool" where
  "is_pdf data \<longleftrightarrow> contains (cps ''%PDF-'') (take 1024 data)"

definition is_html :: "bytes \<Rightarrow> bool" where
  "is_html data \<longleftrightarrow> html_evidence (take 16384 data)"

text \<open>\<open>_is_json\<close> catches \<open>JSONDecodeError\<close>, not the \<open>ValueError\<close> of an integer with too many digits.\<close>

definition is_json :: "identifier_lib \<Rightarrow> bytes \<Rightarrow> content_exc + bool" where
  "is_json lib data = (case decode_sample lib data of None \<Rightarrow> Inr False
     | Some t \<Rightarrow> (case dropWhile uni_space t of
         c # _ \<Rightarrow> if c = 123 \<or> c = 91
           then (case json_loads t of Inr _ \<Rightarrow> Inr True | Inl JSONDecodeError \<Rightarrow> Inr False | Inl IntDigitsError \<Rightarrow> Inl ExcValue)
           else Inr False
       | [] \<Rightarrow> Inr False))"

definition line_break :: "codepoint \<Rightarrow> bool" where
  "line_break c \<longleftrightarrow> (10 \<le> c \<and> c \<le> 13) \<or> (28 \<le> c \<and> c \<le> 30) \<or> c = 133 \<or> c = 8232 \<or> c = 8233"

fun splitlines_from :: "ustr \<Rightarrow> ustr \<Rightarrow> ustr list" where
  "splitlines_from [] acc = (if acc = [] then [] else [acc])"
| "splitlines_from (c # s) acc = (if line_break c then acc # (case s of
       d # s' \<Rightarrow> if c = 13 \<and> d = 10 then splitlines_from s' [] else splitlines_from s []
     | [] \<Rightarrow> []) else splitlines_from s (acc @ [c]))"

definition is_csv :: "identifier_lib \<Rightarrow> bytes \<Rightarrow> bool" where
  "is_csv lib data = (case decode_sample lib (take 65536 data) of None \<Rightarrow> False
     | Some t \<Rightarrow> let ls = filter (\<lambda>l. strip_by uni_space l \<noteq> []) (take 20 (splitlines_from t [])) in
         if length ls < 2 then False
         else (case il_csv_widths lib (join [10] ls) of None \<Rightarrow> False
           | Some widths \<Rightarrow> (case remdups widths of [w] \<Rightarrow> 2 \<le> w | _ \<Rightarrow> False)))"

definition is_text :: "identifier_lib \<Rightarrow> bytes \<Rightarrow> bool" where
  "is_text lib data = (if data = [] \<or> 0 \<in> set data then False
     else (let sample = take 65536 data;
               found = (case decode_sample lib sample of Some t \<Rightarrow> Some t
                 | None \<Rightarrow> (case il_guess lib sample of Some (t, chaos) \<Rightarrow> if chaos \<le> 20 then Some t else None | None \<Rightarrow> None))
           in case found of None \<Rightarrow> False
             | Some t \<Rightarrow> (17 / 20 :: rat) \<le> of_nat (length (filter (\<lambda>c. il_printable lib c \<or> c \<in> {13, 10, 9}) t)) / of_nat (max 1 (length t))))"

subsection \<open>Descriptors and the best match\<close>

record IdentificationDescriptor =
  ds_format :: ContentFormat
  ds_media_type :: string
  ds_suffixes :: "string list"
  ds_declared_media_types :: "string list"
  ds_evidence :: "identifier_lib \<Rightarrow> bytes \<Rightarrow> content_exc + bool"
  ds_priority :: int

definition default_descriptors :: "IdentificationDescriptor list" where
  "default_descriptors = [
     \<lparr>ds_format = FMT_PDF, ds_media_type = ''application/pdf'', ds_suffixes = [''.pdf''], ds_declared_media_types = [''application/pdf''],
      ds_evidence = (\<lambda>lib data. Inr (is_pdf data)), ds_priority = 100\<rparr>,
     \<lparr>ds_format = FMT_HTML, ds_media_type = ''text/html'', ds_suffixes = [''.html'', ''.htm'', ''.xhtml''],
      ds_declared_media_types = [''text/html'', ''application/xhtml+xml''], ds_evidence = (\<lambda>lib data. Inr (is_html data)), ds_priority = 90\<rparr>,
     \<lparr>ds_format = FMT_JSON, ds_media_type = ''application/json'', ds_suffixes = [''.json''],
      ds_declared_media_types = [''application/json'', ''text/json''], ds_evidence = is_json, ds_priority = 80\<rparr>,
     \<lparr>ds_format = FMT_XML, ds_media_type = ''application/xml'', ds_suffixes = [''.xml''],
      ds_declared_media_types = [''application/xml'', ''text/xml''], ds_evidence = (\<lambda>lib data. Inr (is_xml data)), ds_priority = 70\<rparr>,
     \<lparr>ds_format = FMT_CSV, ds_media_type = ''text/csv'', ds_suffixes = [''.csv'', ''.tsv''],
      ds_declared_media_types = [''text/csv'', ''application/csv''], ds_evidence = (\<lambda>lib data. Inr (is_csv lib data)), ds_priority = 60\<rparr>,
     \<lparr>ds_format = FMT_TEXT, ds_media_type = ''text/plain'', ds_suffixes = [''.txt'', ''.md'', ''.log''],
      ds_declared_media_types = [''text/plain''], ds_evidence = (\<lambda>lib data. Inr (is_text lib data)), ds_priority = 10\<rparr>]"

definition score :: "string option \<Rightarrow> ustr \<Rightarrow> IdentificationDescriptor \<Rightarrow> int" where
  "score declared ext d = ds_priority d
     + (if (case declared of None \<Rightarrow> False | Some m \<Rightarrow> m \<in> set (ds_declared_media_types d)) then 20 else 0)
     + (if ext \<in> set (map cps (ds_suffixes d)) then 10 else 0)"

fun candidates :: "identifier_lib \<Rightarrow> bytes \<Rightarrow> IdentificationDescriptor list \<Rightarrow> content_exc + IdentificationDescriptor list" where
  "candidates lib data [] = Inr []"
| "candidates lib data (d # ds) = res_bind (ds_evidence d lib data) (\<lambda>found.
     res_bind (candidates lib data ds) (\<lambda>rest. Inr (if found then d # rest else rest)))"

text \<open>\<open>max(candidates, key=...)\<close> returns the first of the best.\<close>

fun best_of :: "('a \<Rightarrow> int) \<Rightarrow> 'a \<Rightarrow> 'a list \<Rightarrow> 'a" where
  "best_of f d [] = d"
| "best_of f d (e # es) = best_of f (if f e > f d then e else d) es"

definition identify :: "identifier_lib \<Rightarrow> IdentificationDescriptor list \<Rightarrow> bytes \<Rightarrow> string option \<Rightarrow> ustr option
    \<Rightarrow> content_exc + ContentFormat \<times> string \<times> string option" where
  "identify lib ds data declared filename = res_bind (candidates lib data ds) (\<lambda>cs. case cs of
     [] \<Rightarrow> Inr (FMT_UNKNOWN, ''application/octet-stream'', None)
   | c # rest \<Rightarrow> let d = best_of (score (normalize_media_type declared) (file_suffix filename)) c rest in
       Inr (ds_format d, ds_media_type d, if ds_format d \<noteq> FMT_PDF then observed_encoding data else None))"

definition mime_format :: "string \<Rightarrow> ContentFormat option" where
  "mime_format m = map_of [(''text/html'', FMT_HTML), (''application/xhtml+xml'', FMT_HTML), (''text/plain'', FMT_TEXT),
     (''application/json'', FMT_JSON), (''text/json'', FMT_JSON), (''application/xml'', FMT_XML), (''text/xml'', FMT_XML),
     (''text/csv'', FMT_CSV), (''application/csv'', FMT_CSV), (''application/pdf'', FMT_PDF)] m"

fun format_value :: "ContentFormat \<Rightarrow> string" where
  "format_value FMT_HTML = ''html''"
| "format_value FMT_TEXT = ''text''"
| "format_value FMT_JSON = ''json''"
| "format_value FMT_XML = ''xml''"
| "format_value FMT_CSV = ''csv''"
| "format_value FMT_PDF = ''pdf''"
| "format_value FMT_UNKNOWN = ''unknown''"

text \<open>The checks of the \<open>ContentInspection\<close> model.\<close>

definition content_inspection_ok :: "ContentInspection \<Rightarrow> bool" where
  "content_inspection_ok i \<longleftrightarrow> 0 \<le> in_size_bytes i \<and> sha256_ok (in_sha256 i)
     \<and> (case in_declared_media_type i of None \<Rightarrow> True | Some m \<Rightarrow> length m \<le> 255)
     \<and> (case in_detected_media_type i of None \<Rightarrow> True | Some m \<Rightarrow> length m \<le> 255)
     \<and> (case in_source_filename i of None \<Rightarrow> True | Some m \<Rightarrow> length m \<le> 255)
     \<and> (case in_encoding i of None \<Rightarrow> True | Some m \<Rightarrow> length m \<le> 64) \<and> length (in_warnings i) \<le> 16"

definition identifier_inspect :: "identifier_lib \<Rightarrow> ContentFormat list \<Rightarrow> bytes \<Rightarrow> int \<Rightarrow> string \<Rightarrow> string option \<Rightarrow> ustr option
    \<Rightarrow> content_exc + ContentInspection" where
  "identifier_inspect lib available data sz digest declared filename =
     res_bind (identify lib default_descriptors data declared filename) (\<lambda>(fmt, media, enc).
     res_bind (declared_encoding lib declared data) (\<lambda>denc.
       let mt = normalize_media_type declared;
           ws = (case Option.bind mt mime_format of None \<Rightarrow> []
             | Some f \<Rightarrow> if f \<noteq> fmt then [\<lparr>wn_code = ''declared_content_type_mismatch'',
                 wn_details = Some [(''declared_format'', DetailStr (format_value f)), (''detected_format'', DetailStr (format_value fmt))]\<rparr>] else []);
           i = \<lparr>in_size_bytes = sz, in_sha256 = digest, in_declared_media_type = mt, in_detected_media_type = Some media,
                in_detected_format = fmt, in_source_filename = display_filename filename,
                in_encoding = (case denc of Some e \<Rightarrow> Some e | None \<Rightarrow> enc),
                in_parser_availability = (if fmt \<in> set available then PA_AVAILABLE else PA_UNSUPPORTED), in_warnings = ws\<rparr>
       in if content_inspection_ok i then Inr i else Inl ExcValue))"

subsection \<open>The best match\<close>

lemma best_of_max: "best_of f d es \<in> set (d # es) \<and> (\<forall>e \<in> set (d # es). f e \<le> f (best_of f d es))"
proof (induction es arbitrary: d)
  case (Cons e es)
  show ?case using Cons.IH [of "if f e > f d then e else d"] by (auto split: if_split_asm)
qed simp

lemma candidates_Inr:
  assumes "candidates lib data ds = Inr cs"
  shows "set cs = {d \<in> set ds. ds_evidence d lib data = Inr True}" "\<forall>d \<in> set ds. \<exists>b. ds_evidence d lib data = Inr b"
proof -
  have "set cs = {d \<in> set ds. ds_evidence d lib data = Inr True} \<and> (\<forall>d \<in> set ds. \<exists>b. ds_evidence d lib data = Inr b)"
    using assms by (induction ds arbitrary: cs) (auto simp: res_bind_Inr split: if_split_asm)
  then show "set cs = {d \<in> set ds. ds_evidence d lib data = Inr True}" "\<forall>d \<in> set ds. \<exists>b. ds_evidence d lib data = Inr b"
    by blast+
qed

text \<open>What an identification says: nothing was found, or the format is the one with the best score of those with evidence.\<close>

definition match_ok :: "identifier_lib \<Rightarrow> IdentificationDescriptor list \<Rightarrow> bytes \<Rightarrow> string option \<Rightarrow> ustr option \<Rightarrow> ContentFormat \<Rightarrow> bool" where
  "match_ok lib ds data declared filename fmt \<longleftrightarrow>
     (let found = (\<lambda>d. ds_evidence d lib data = Inr True); sc = score (normalize_media_type declared) (file_suffix filename) in
      if \<exists>d \<in> set ds. found d then \<exists>d \<in> set ds. found d \<and> fmt = ds_format d \<and> (\<forall>e \<in> set ds. found e \<longrightarrow> sc e \<le> sc d)
      else fmt = FMT_UNKNOWN)"

lemma identify_match:
  assumes "identify lib ds data declared filename = Inr (fmt, media, enc)"
  shows "match_ok lib ds data declared filename fmt"
proof -
  obtain cs where cs: "candidates lib data ds = Inr cs"
    using assms by (auto simp: identify_def res_bind_Inr)
  show ?thesis
  proof (cases cs)
    case Nil
    then show ?thesis using candidates_Inr(1) [OF cs] assms by (auto simp: match_ok_def Let_def identify_def cs)
  next
    case (Cons c rest)
    let ?d = "best_of (score (normalize_media_type declared) (file_suffix filename)) c rest"
    have fmt: "fmt = ds_format ?d" using assms Cons by (auto simp: identify_def cs Let_def)
    have found: "d \<in> set (c # rest) \<longleftrightarrow> d \<in> set ds \<and> ds_evidence d lib data = Inr True" for d
      using candidates_Inr(1) [OF cs] Cons by simp
    have "?d \<in> set ds \<and> ds_evidence ?d lib data = Inr True
        \<and> (\<forall>e \<in> set ds. ds_evidence e lib data = Inr True \<longrightarrow>
             score (normalize_media_type declared) (file_suffix filename) e \<le> score (normalize_media_type declared) (file_suffix filename) ?d)"
      using best_of_max [of "score (normalize_media_type declared) (file_suffix filename)" c rest] found by blast
    then show ?thesis unfolding match_ok_def Let_def fmt by (auto intro!: bexI [of _ ?d])
  qed
qed

lemma strip_by_set: "set (strip_by p s) \<subseteq> set s"
  unfolding strip_by_def set_rev by (metis set_dropWhileD set_rev subsetI)

lemma display_filename_chars:
  assumes "display_filename v = Some s"
  shows "s \<noteq> [] \<and> length s \<le> 255 \<and> (\<forall>c \<in> set s. c \<noteq> 47 \<and> c \<noteq> 92 \<and> 32 \<le> c)"
proof -
  obtain r where "v = Some r" and s: "s = take 255 (strip_by (\<lambda>c. c = 32 \<or> c = 46) (map (\<lambda>c. if c = 47 \<or> c = 92 \<or> c < 32 then 95 else c) r))" "s \<noteq> []"
    using assms by (auto simp: display_filename_def Let_def split: option.split_asm if_split_asm)
  have "set s \<subseteq> (\<lambda>c. if c = 47 \<or> c = 92 \<or> c < 32 then 95 else c) ` set r"
    using s(1) set_take_subset strip_by_set by (metis (no_types, lifting) set_map subset_trans)
  then show ?thesis using s by (auto split: if_split_asm)
qed

subsection \<open>Inputs the detection does not survive\<close>

lemma u8_feed_lead: "0xC2 \<le> b \<Longrightarrow> b < 0xF5 \<Longrightarrow> u8_feed [b] = Some ([], [b])"
  by (simp add: u8_feed.simps [of "[b]"] seq_len_def)

text \<open>A sample that ends inside a character has no observed encoding.\<close>

lemma cut_sample_unreadable:
  assumes "list_all scalar_value cs" "0xC2 \<le> b" "b < 0xF5" "observed_encoding (utf8_encode cs @ [b]) \<noteq> None"
  shows "take 3 (utf8_encode cs @ [b]) = [0xEF, 0xBB, 0xBF] \<or> take 2 (utf8_encode cs @ [b]) \<in> {[0xFF, 0xFE], [0xFE, 0xFF]}"
proof -
  have "utf8_decode (utf8_encode cs @ [b]) = None"
    using u8_feed_encode [OF assms(1), of "[b]"] u8_feed_lead [OF assms(2,3)] by (simp add: utf8_decode_def)
  then show ?thesis using assms(4) by (auto simp: observed_encoding_def split: if_split_asm)
qed

text \<open>An integer of more than 4300 digits in a JSON document makes the whole inspection raise.\<close>

lemma scan_big_integer:
  assumes "list_all is_digit ds" "4300 < length ds" "hd ds \<noteq> 48"
  shows "scan_number (ds @ [93]) = Inl IntDigitsError"
proof -
  obtain d r where ds: "ds = d # r" using assms(2) by (cases ds) auto
  have d: "is_digit d" "d \<noteq> 48" "d \<noteq> 45" using assms(1,3) by (auto simp: ds is_digit_def)
  have "takeWhile is_digit (ds @ [93]) = ds"
    using assms(1) by (simp add: list_all_iff is_digit_def takeWhile_append2)
  then show ?thesis using d assms(2) by (simp add: scan_number_def ds scan_frac_def scan_exp_def)
qed

lemma big_integer_loads:
  assumes "list_all is_digit ds" "4300 < length ds" "hd ds \<noteq> 48"
  shows "json_loads ([91] @ ds @ [93]) = Inl IntDigitsError"
proof -
  obtain d r where ds: "ds = d # r" using assms(2) by (cases ds) auto
  have d: "is_digit d" using assms(1) by (simp add: ds)
  then have ws: "\<not> is_ws d" "d \<noteq> 93" "d \<noteq> 34" "d \<noteq> 91" "d \<noteq> 123" by (auto simp: is_digit_def is_ws_def)
  have item: "scan_value True (Suc n) (ds @ [93]) = Inl IntDigitsError" for n
    using scan_big_integer [OF assms] scan_literal_none [OF d, of True "r @ [93]"] ws by (simp add: ds)
  have len: "2 * length ([91] @ ds @ [93]) + 1 = Suc (Suc (Suc (2 * length ds + 2)))" by simp
  have "scan_value True (Suc (Suc (Suc (2 * length ds + 2)))) (91 # ds @ [93]) = Inl IntDigitsError"
    using item [of "2 * length ds + 2"] ws by (simp add: ds skip_ws_def)
  then show ?thesis unfolding json_loads_def json_loads_with_def len by (simp add: skip_ws_def is_ws_def)
qed

section \<open>Properties\<close>


definition demo_identifier_lib :: identifier_lib where
  "demo_identifier_lib = \<lparr>il_codec = (\<lambda>_ b. Inr b), il_guess = (\<lambda>_. None), il_csv_widths = (\<lambda>_. None), il_printable = (\<lambda>c. 32 \<le> c)\<rparr>"


end
