(* ===== verification/Pdf_Worker.thy ===== *)
theory Pdf_Worker
  imports Content_Parsers
begin

section \<open>The isolated PDF worker\<close>

text \<open>
  The protocol values of \<open>application/content/isolation.py\<close> and the PDF handler of \<open>workers/pdf_parser.py\<close>. What pypdf makes of the
  bytes is an argument: whether the file is encrypted, its pages with their objects and extracted text, its metadata.
\<close>

subsection \<open>Protocol values (isolation.py)\<close>

record IsolatedParserRequest =
  ir_parser_id :: string
  ir_max_input_bytes :: int
  ir_max_output_bytes :: int
  ir_cpu_seconds :: int
  ir_memory_bytes :: int
  ir_open_files :: int
  ir_processes :: int
  ir_parameters :: "(string \<times> int) list"

definition parser_id_char :: "char \<Rightarrow> bool" where
  "parser_id_char c \<longleftrightarrow> is_hex_lower c \<or> c \<in> set ''ghijklmnopqrstuvwxyz''"

definition parser_id_ok :: "string \<Rightarrow> bool" where
  "parser_id_ok s \<longleftrightarrow> (case s of c # r \<Rightarrow> parser_id_char c \<and> length r \<le> 63 \<and> list_all (\<lambda>c. parser_id_char c \<or> c \<in> set ''_.-'') r | [] \<Rightarrow> False)"

definition isolated_request_ok :: "IsolatedParserRequest \<Rightarrow> bool" where
  "isolated_request_ok r \<longleftrightarrow> parser_id_ok (ir_parser_id r)
     \<and> 0 \<le> ir_max_input_bytes r \<and> ir_max_input_bytes r \<le> 64 * 1024 * 1024
     \<and> 1 \<le> ir_max_output_bytes r \<and> ir_max_output_bytes r \<le> 128 * 1024 * 1024
     \<and> 1 \<le> ir_cpu_seconds r \<and> ir_cpu_seconds r \<le> 120
     \<and> 64 * 1024 * 1024 \<le> ir_memory_bytes r \<and> ir_memory_bytes r \<le> 8 * 1024 * 1024 * 1024
     \<and> 8 \<le> ir_open_files r \<and> ir_open_files r \<le> 256 \<and> 1 \<le> ir_processes r \<and> ir_processes r \<le> 8"

record IsolatedRepresentation =
  ie_representation :: ContentRepresentationKind
  ie_media_type :: string
  ie_schema_revision :: string
  ie_data_base64 :: ustr

record IsolatedParserResult =
  is_ok_flag :: bool
  is_representations :: "IsolatedRepresentation list"
  is_warnings :: "Warning list"
  is_hints :: "StructuredHint list"
  is_error_code :: "string option"

definition isolated_representation_ok :: "IsolatedRepresentation \<Rightarrow> bool" where
  "isolated_representation_ok r \<longleftrightarrow> 1 \<le> length (ie_media_type r) \<and> length (ie_media_type r) \<le> 255
     \<and> 1 \<le> length (ie_schema_revision r) \<and> length (ie_schema_revision r) \<le> 128 \<and> int (length (ie_data_base64 r)) \<le> 128 * 1024 * 1024"

definition isolated_result_ok :: "IsolatedParserResult \<Rightarrow> bool" where
  "isolated_result_ok r \<longleftrightarrow> list_all isolated_representation_ok (is_representations r) \<and> length (is_representations r) \<le> 8
     \<and> length (is_warnings r) \<le> 16 \<and> length (is_hints r) \<le> 16
     \<and> (case is_error_code r of None \<Rightarrow> True | Some c \<Rightarrow> machine_code c \<and> length c \<le> 64)
     \<and> (if is_ok_flag r then is_representations r \<noteq> [] \<and> is_error_code r = None
        else is_error_code r \<noteq> None \<and> is_representations r = [])"

definition worker_failure :: "string \<Rightarrow> IsolatedParserResult" where
  "worker_failure code = \<lparr>is_ok_flag = False, is_representations = [], is_warnings = [], is_hints = [], is_error_code = Some code\<rparr>"

subsection \<open>PDF objects\<close>

datatype pdf_object = PdfIndirect int int | PdfArray "pdf_object list" | PdfStream nat | PdfDict "pdf_object list" | PdfAtom

record pdf_page =
  pg_contents :: pdf_object
  pg_resources :: pdf_object
  pg_text :: "bool + ustr option"

record pdf_document =
  pf_encrypted :: bool
  pf_pages :: "pdf_page list"
  pf_metadata :: "(ustr \<times> ustr) list option"
  pf_object :: "int \<Rightarrow> int \<Rightarrow> pdf_object"

text \<open>An exception of pypdf is one the handler catches (\<open>True\<close>) or another one.\<close>

type_synonym pdf_reader = "bytes \<Rightarrow> bool + pdf_document"

definition pdf_resolve :: "pdf_document \<Rightarrow> pdf_object \<Rightarrow> pdf_object" where
  "pdf_resolve d x = (case x of PdfIndirect n g \<Rightarrow> pf_object d n g | _ \<Rightarrow> x)"

text \<open>\<open>_raw_content_bytes\<close>: a stack of objects, popped from its end; the argument \<open>left\<close> is how many may still be visited
  of the 10000.\<close>

fun raw_bytes :: "pdf_document \<Rightarrow> int \<Rightarrow> nat \<Rightarrow> (int \<times> int) list \<Rightarrow> pdf_object list \<Rightarrow> int \<Rightarrow> int" where
  "raw_bytes d limit left visited [] sofar = sofar"
| "raw_bytes d limit 0 visited (x # pending) sofar = limit + 1"
| "raw_bytes d limit (Suc left) visited (x # pending) sofar =
     (if (case x of PdfIndirect n g \<Rightarrow> (n, g) \<in> set visited | _ \<Rightarrow> False) then raw_bytes d limit left visited pending sofar
      else let visited = (case x of PdfIndirect n g \<Rightarrow> (n, g) # visited | _ \<Rightarrow> visited) in
        case pdf_resolve d x of
          PdfArray xs \<Rightarrow> raw_bytes d limit left visited (rev xs @ pending) sofar
        | PdfStream n \<Rightarrow> if sofar + int n > limit then sofar + int n else raw_bytes d limit left visited pending (sofar + int n)
        | _ \<Rightarrow> raw_bytes d limit left visited pending sofar)"

definition raw_content_bytes :: "pdf_document \<Rightarrow> pdf_object \<Rightarrow> int \<Rightarrow> int" where
  "raw_content_bytes d x limit = raw_bytes d limit 10000 [] [x] 0"

definition resource_entries :: "pdf_document \<Rightarrow> pdf_object \<Rightarrow> int" where
  "resource_entries d x = (case pdf_resolve d x of
     PdfDict vs \<Rightarrow> int (length vs) + sum_list (map (\<lambda>v. case pdf_resolve d v of PdfDict ws \<Rightarrow> int (length ws) | _ \<Rightarrow> 0) vs)
   | _ \<Rightarrow> 0)"

subsection \<open>The handler\<close>

record pdf_limits =
  lm_max_pages :: int
  lm_max_page_chars :: int
  lm_max_output_chars :: int
  lm_max_metadata_chars :: int
  lm_max_content_stream_bytes :: int
  lm_max_resource_entries :: int

definition limit_of :: "(string \<times> int) list \<Rightarrow> string \<Rightarrow> int option" where
  "limit_of ps name = (case map_of ps name of None \<Rightarrow> None | Some v \<Rightarrow> if v < 1 then None else Some v)"

definition pdf_limits_of :: "(string \<times> int) list \<Rightarrow> pdf_limits option" where
  "pdf_limits_of ps = (case (limit_of ps ''max_pages'', limit_of ps ''max_page_chars'', limit_of ps ''max_output_chars'',
       limit_of ps ''max_metadata_chars'', limit_of ps ''max_content_stream_bytes'', limit_of ps ''max_resource_entries'') of
     (Some a, Some b, Some c, Some d, Some e, Some f) \<Rightarrow> Some \<lparr>lm_max_pages = a, lm_max_page_chars = b, lm_max_output_chars = c,
       lm_max_metadata_chars = d, lm_max_content_stream_bytes = e, lm_max_resource_entries = f\<rparr>
   | _ \<Rightarrow> None)"

text \<open>One page: its text within the page limit and the rest of the total, with the warnings.\<close>

definition page_text :: "pdf_limits \<Rightarrow> int \<Rightarrow> Warning list \<Rightarrow> ustr \<Rightarrow> ustr \<times> Warning list" where
  "page_text lm sofar ws raw = (let
       t = filter (\<lambda>c. c \<noteq> 0) raw;
       over = int (length t) > lm_max_page_chars lm;
       t = (if over then take (nat (lm_max_page_chars lm)) t else t);
       ws = (if over then warn_once ''pdf_page_text_truncated'' ws else ws);
       remaining = lm_max_output_chars lm - sofar
     in if remaining \<le> 0 then ([], warn_once ''pdf_text_truncated'' ws)
        else if int (length t) > remaining then (take (nat remaining) t, warn_once ''pdf_text_truncated'' ws)
        else (t, ws))"

datatype page_stop = StopFailure string | StopCaught | StopOther

fun pdf_pages :: "pdf_document \<Rightarrow> pdf_limits \<Rightarrow> pdf_page list \<Rightarrow> int \<Rightarrow> Warning list \<Rightarrow> page_stop + ustr list \<times> Warning list" where
  "pdf_pages d lm [] sofar ws = Inr ([], ws)"
| "pdf_pages d lm (p # ps) sofar ws =
     (if raw_content_bytes d (pg_contents p) (lm_max_content_stream_bytes lm) > lm_max_content_stream_bytes lm
      then Inl (StopFailure ''pdf_content_stream_limit'')
      else if resource_entries d (pg_resources p) > lm_max_resource_entries lm then Inl (StopFailure ''pdf_resource_limit'')
      else case pg_text p of
        Inl caught \<Rightarrow> Inl (if caught then StopCaught else StopOther)
      | Inr raw \<Rightarrow> (case page_text lm sofar ws (case raw of None \<Rightarrow> [] | Some t \<Rightarrow> t) of (t, ws) \<Rightarrow>
          res_bind (pdf_pages d lm ps (sofar + int (length t)) ws) (\<lambda>(ts, ws). Inr (t # ts, ws))))"

definition pdf_metadata :: "(ustr \<times> ustr) list option \<Rightarrow> int \<Rightarrow> json" where
  "pdf_metadata m limit = (case m of None \<Rightarrow> JObj []
     | Some kvs \<Rightarrow> JObj (dict_of (map (\<lambda>(k, v). (take 128 k, JStr (take (nat limit) v))) (take 32 kvs))))"

definition isolated_representation :: "ContentRepresentationKind \<Rightarrow> string \<Rightarrow> string \<Rightarrow> bytes \<Rightarrow> IsolatedRepresentation" where
  "isolated_representation kind media schema data = \<lparr>ie_representation = kind, ie_media_type = media, ie_schema_revision = schema,
     ie_data_base64 = b64encode data\<rparr>"

definition numbered :: "ustr list \<Rightarrow> json list" where
  "numbered ts = map (\<lambda>(i, t). JObj [(cps ''page'', JInt (int i)), (cps ''text_chars'', JInt (int (length t)))]) (zip [1..<Suc (length ts)] ts)"

definition pdf_structure :: "pdf_document \<Rightarrow> pdf_limits \<Rightarrow> ustr list \<Rightarrow> ustr" where
  "pdf_structure d lm ts = json_dumps (json_sorted (JObj [(cps ''schema_revision'', JStr (cps ''content-pdf-structure-v1'')),
     (cps ''page_count'', JInt (int (length (pf_pages d)))), (cps ''metadata'', pdf_metadata (pf_metadata d) (lm_max_metadata_chars lm)),
     (cps ''pages'', JArr (numbered ts))]))"

definition pdf_combined :: "ustr list \<Rightarrow> ustr" where
  "pdf_combined ts = strip_by uni_space (join [10, 10, 12, 10, 10] ts)"

text \<open>A result that fails the checks of its model raises a \<open>ValueError\<close>, which the handler catches.\<close>

definition checked_worker_result :: "IsolatedParserResult \<Rightarrow> IsolatedParserResult option" where
  "checked_worker_result r = Some (if isolated_result_ok r then r else worker_failure ''malformed_pdf'')"

text \<open>\<open>parse_pdf\<close>; \<open>None\<close> is an exception it does not catch.\<close>

definition parse_pdf :: "pdf_reader \<Rightarrow> bytes \<Rightarrow> (string \<times> int) list \<Rightarrow> IsolatedParserResult option" where
  "parse_pdf reader data ps = (case pdf_limits_of ps of
     None \<Rightarrow> Some (worker_failure ''malformed_pdf'')
   | Some lm \<Rightarrow> (case reader data of
       Inl caught \<Rightarrow> if caught then Some (worker_failure ''malformed_pdf'') else None
     | Inr d \<Rightarrow>
         if pf_encrypted d then Some (worker_failure ''encrypted_content'')
         else if int (length (pf_pages d)) > lm_max_pages lm then Some (worker_failure ''pdf_page_limit'')
         else (case pdf_pages d lm (pf_pages d) 0 [] of
           Inl (StopFailure code) \<Rightarrow> Some (worker_failure code)
         | Inl StopCaught \<Rightarrow> Some (worker_failure ''malformed_pdf'')
         | Inl StopOther \<Rightarrow> None
         | Inr (ts, ws) \<Rightarrow>
             let strc = pdf_structure d lm ts; combined = pdf_combined ts in
             if \<not> list_all scalar_value (strc @ combined) then Some (worker_failure ''malformed_pdf'')
             else let s = isolated_representation STRUCTURED ''application/vnd.web-access.content+json'' ''content-pdf-structure-v1'' (utf8_encode strc) in
               checked_worker_result (if combined \<noteq> []
                 then \<lparr>is_ok_flag = True, is_representations =
                        [isolated_representation TEXT ''text/plain; charset=utf-8'' ''content-pdf-text-v1'' (utf8_encode combined), s],
                       is_warnings = ws, is_hints = [], is_error_code = None\<rparr>
                 else \<lparr>is_ok_flag = True, is_representations = [s], is_warnings = ws @ [warning ''pdf_native_text_unavailable''],
                       is_hints = [advanced_processing_may_be_required], is_error_code = None\<rparr>))))"

subsection \<open>Bounds\<close>

definition pdf_warnings_ok :: "Warning list \<Rightarrow> bool" where
  "pdf_warnings_ok ws \<longleftrightarrow> distinct (map wn_code ws) \<and> wn_code ` set ws \<subseteq> {''pdf_page_text_truncated'', ''pdf_text_truncated''}"

lemma pdf_warnings_add: "pdf_warnings_ok ws \<Longrightarrow> pdf_warnings_ok (warn_once ''pdf_page_text_truncated'' ws)"
    "pdf_warnings_ok ws \<Longrightarrow> pdf_warnings_ok (warn_once ''pdf_text_truncated'' ws)"
  by (simp_all add: pdf_warnings_ok_def warn_once_codes warn_once_distinct)

lemma pdf_warnings_length:
  assumes "pdf_warnings_ok ws"
  shows "length ws \<le> 2"
proof -
  have "length ws \<le> length [''pdf_page_text_truncated'', ''pdf_text_truncated'']"
    using assms by (intro distinct_image_length [of wn_code]) (simp_all only: pdf_warnings_ok_def list.set simp_thms)
  then show ?thesis by simp
qed

lemma page_text_bounds:
  assumes "page_text lm sofar ws raw = (t, ws')" "0 \<le> lm_max_page_chars lm" "sofar \<le> lm_max_output_chars lm" "pdf_warnings_ok ws"
  shows "int (length t) \<le> lm_max_page_chars lm" "sofar + int (length t) \<le> lm_max_output_chars lm"
    "\<exists>n. t = take n (filter (\<lambda>c. c \<noteq> 0) raw)" "pdf_warnings_ok ws'"
proof -
  have "\<exists>n. t = take n (filter (\<lambda>c. c \<noteq> 0) raw)"
    using assms(1) by (auto simp: page_text_def Let_def split: if_split_asm intro: exI [of _ 0] exI [of _ "length (filter (\<lambda>c. c \<noteq> 0) raw)"])
  then show "\<exists>n. t = take n (filter (\<lambda>c. c \<noteq> 0) raw)" .
  show "int (length t) \<le> lm_max_page_chars lm" "sofar + int (length t) \<le> lm_max_output_chars lm" "pdf_warnings_ok ws'"
    using assms by (auto simp: page_text_def Let_def pdf_warnings_add split: if_split_asm)
qed

definition shows_page :: "pdf_limits \<Rightarrow> pdf_page \<Rightarrow> ustr \<Rightarrow> bool" where
  "shows_page lm p t \<longleftrightarrow> int (length t) \<le> lm_max_page_chars lm
     \<and> (\<exists>raw n. pg_text p = Inr raw \<and> t = take n (filter (\<lambda>c. c \<noteq> 0) (case raw of None \<Rightarrow> [] | Some x \<Rightarrow> x)))"

lemma pdf_pages_Inr:
  assumes "pdf_pages d lm ps sofar ws = Inr (ts, ws')" "0 \<le> lm_max_page_chars lm" "sofar \<le> lm_max_output_chars lm" "pdf_warnings_ok ws"
  shows "list_all2 (shows_page lm) ps ts \<and> sofar + int (sum_list (map length ts)) \<le> lm_max_output_chars lm \<and> pdf_warnings_ok ws'"
  using assms
proof (induction ps arbitrary: sofar ws ts)
  case (Cons p ps)
  obtain raw where raw: "pg_text p = Inr raw" using Cons.prems(1) by (auto split: if_split_asm sum.split_asm)
  obtain t ws1 where t: "page_text lm sofar ws (case raw of None \<Rightarrow> [] | Some x \<Rightarrow> x) = (t, ws1)" by fastforce
  obtain ts' where rest: "pdf_pages d lm ps (sofar + int (length t)) ws1 = Inr (ts', ws')" "ts = t # ts'"
    using Cons.prems(1) raw t by (auto simp: res_bind_Inr split: if_split_asm)
  note page = page_text_bounds [OF t Cons.prems(2-4)]
  have "shows_page lm p t" using page(1,3) raw by (auto simp: shows_page_def)
  then show ?case using Cons.IH [OF rest(1) Cons.prems(2) page(2,4)] rest(2) by simp
qed simp

lemma worker_failure_ok: "machine_code c \<Longrightarrow> length c \<le> 64 \<Longrightarrow> isolated_result_ok (worker_failure c)"
  by (simp add: isolated_result_ok_def worker_failure_def)

lemma pdf_pages_failure: "pdf_pages d lm ps sofar ws = Inl (StopFailure c) \<Longrightarrow> c \<in> {''pdf_content_stream_limit'', ''pdf_resource_limit''}"
  by (induction ps arbitrary: sofar ws) (auto simp: res_bind_Inl split: if_split_asm sum.split_asm prod.split_asm)

lemma pdf_failures_ok:
  "isolated_result_ok (worker_failure ''malformed_pdf'')" "isolated_result_ok (worker_failure ''encrypted_content'')"
  "isolated_result_ok (worker_failure ''pdf_page_limit'')" "isolated_result_ok (worker_failure ''pdf_content_stream_limit'')"
  "isolated_result_ok (worker_failure ''pdf_resource_limit'')"
  by (rule worker_failure_ok; code_simp)+

lemma parse_pdf_valid:
  assumes "parse_pdf reader data ps = Some r"
  shows "isolated_result_ok r"
  using assms pdf_failures_ok pdf_pages_failure
  unfolding parse_pdf_def checked_worker_result_def Let_def
  by (fastforce split: option.split_asm sum.split_asm if_split_asm page_stop.split_asm prod.split_asm)

text \<open>What a successful parse shows: the pages with their texts cut to the limits, and the two documents made of them.\<close>

definition pdf_shown :: "pdf_document \<Rightarrow> pdf_limits \<Rightarrow> ustr list \<Rightarrow> IsolatedParserResult \<Rightarrow> bool" where
  "pdf_shown d lm ts r \<longleftrightarrow> \<not> pf_encrypted d \<and> int (length (pf_pages d)) \<le> lm_max_pages lm \<and> list_all2 (shows_page lm) (pf_pages d) ts
     \<and> int (sum_list (map length ts)) \<le> lm_max_output_chars lm
     \<and> map ie_data_base64 (is_representations r) = (if pdf_combined ts = [] then [] else [b64encode (utf8_encode (pdf_combined ts))])
         @ [b64encode (utf8_encode (pdf_structure d lm ts))]"

lemma parse_pdf_success:
  assumes "parse_pdf reader data ps = Some r" "is_ok_flag r"
  obtains lm d ts where "pdf_limits_of ps = Some lm" "reader data = Inr d" "pdf_shown d lm ts r"
proof -
  have fail: "\<not> is_ok_flag (worker_failure c)" for c by (simp add: worker_failure_def)
  obtain lm where lm: "pdf_limits_of ps = Some lm" using assms fail by (auto simp: parse_pdf_def split: option.split_asm)
  obtain d where d: "reader data = Inr d" using assms fail by (auto simp: parse_pdf_def lm split: sum.split_asm if_split_asm)
  have plain: "\<not> pf_encrypted d" "int (length (pf_pages d)) \<le> lm_max_pages lm"
    using assms fail by (auto simp: parse_pdf_def lm d split: if_split_asm)
  obtain ts ws where pages: "pdf_pages d lm (pf_pages d) 0 [] = Inr (ts, ws)"
    using assms fail plain by (auto simp: parse_pdf_def lm d split: sum.split_asm page_stop.split_asm)
  have pos: "0 \<le> lm_max_page_chars lm" "0 \<le> lm_max_output_chars lm"
    using lm by (auto simp: pdf_limits_of_def limit_of_def split: option.split_asm if_split_asm)
  have "pdf_warnings_ok []" by (simp add: pdf_warnings_ok_def)
  note texts = pdf_pages_Inr [OF pages pos this]
  have "map ie_data_base64 (is_representations r) = (if pdf_combined ts = [] then [] else [b64encode (utf8_encode (pdf_combined ts))])
         @ [b64encode (utf8_encode (pdf_structure d lm ts))]"
    using assms fail plain pages
    by (auto simp: parse_pdf_def lm d checked_worker_result_def Let_def isolated_representation_def split: if_split_asm)
  then show thesis using that lm d plain texts by (auto simp: pdf_shown_def)
qed

lemma length_utf8_encode_le: "length (utf8_encode t) \<le> 4 * length t"
proof (induction t)
  case (Cons c t)
  have "length (utf8_encode (c # t)) = length (encode_cp c) + length (utf8_encode t)" by (simp add: utf8_encode_def)
  then show ?case using Cons encode_cp_length(2) [of c] by (simp del: encode_cp_length)
qed simp

section \<open>Properties\<close>

text \<open>C29: The PDF worker keeps its limits and tells the truth about the pages. Whatever pypdf returns, every result is valid for the protocol
  (a success has representations and no error code, a failure a code and nothing else). A success comes from a document that is
  not encrypted and has at most the permitted pages; the text of each page is a beginning of what was extracted there without
  NUL characters, within the page limit, all pages together within the total; and the representations are the stripped join of these texts, left
  out when it is empty, and the structure that counts them.\<close>

theorem pdf_worker_bounded:
  assumes "parse_pdf reader data ps = Some r"
  shows "isolated_result_ok r \<and> (is_ok_flag r \<longrightarrow> (\<exists>lm d ts. pdf_limits_of ps = Some lm \<and> reader data = Inr d \<and> pdf_shown d lm ts r))"
  using parse_pdf_valid [OF assms] parse_pdf_success [OF assms] by blast

definition demo_pdf :: pdf_document where
  "demo_pdf = \<lparr>pf_encrypted = False, pf_pages = [\<lparr>pg_contents = PdfIndirect 1 0, pg_resources = PdfDict [], pg_text = Inr (Some (cps ''hello''))\<rparr>],
     pf_metadata = None, pf_object = (\<lambda>_ _. PdfArray [PdfStream 10, PdfIndirect 1 0])\<rparr>"

definition demo_pdf_parameters :: "(string \<times> int) list" where
  "demo_pdf_parameters = [(''max_pages'', 2), (''max_page_chars'', 4), (''max_output_chars'', 100), (''max_metadata_chars'', 128),
     (''max_content_stream_bytes'', 1024), (''max_resource_entries'', 10)]"

theorem pdf_worker_bounded_witness:
  "\<exists>r. parse_pdf (\<lambda>_. Inr demo_pdf) [37] demo_pdf_parameters = Some r \<and> is_ok_flag r \<and> isolated_result_ok r"
proof -
  have lm: "pdf_limits_of demo_pdf_parameters = Some \<lparr>lm_max_pages = 2, lm_max_page_chars = 4, lm_max_output_chars = 100,
      lm_max_metadata_chars = 128, lm_max_content_stream_bytes = 1024, lm_max_resource_entries = 10\<rparr>" (is "_ = Some ?lm")
    by (simp add: pdf_limits_of_def limit_of_def demo_pdf_parameters_def)
  have raw: "raw_content_bytes demo_pdf (PdfIndirect 1 0) 1024 = 10"
    by (simp add: raw_content_bytes_def demo_pdf_def pdf_resolve_def numeral_eq_Suc)
  have pages: "pdf_pages demo_pdf ?lm (pf_pages demo_pdf) 0 [] = Inr ([cps ''hell''], [warning ''pdf_page_text_truncated''])"
    using raw by (simp add: demo_pdf_def resource_entries_def pdf_resolve_def page_text_def warn_once_def cps_def)
  have combined: "pdf_combined [cps ''hell''] = cps ''hell''" by (simp add: pdf_combined_def strip_by_def uni_space_def cps_def)
  let ?s = "pdf_structure demo_pdf ?lm [cps ''hell'']"
  have strc: "list_all scalar_value ?s \<and> length ?s \<le> 200"
    by (simp add: pdf_structure_def pdf_metadata_def demo_pdf_def numbered_def cps_def dump_str_def escape_cp_def str_of_int_def
        dec_digits.simps scalar_value_def)
  have bytes: "length (utf8_encode ?s) \<le> 800" using strc length_utf8_encode_le [of ?s] by linarith
  have "length (b64encode (utf8_encode ?s)) \<le> 1100 \<and> length (b64encode (utf8_encode (cps ''hell''))) \<le> 1100"
    using bytes by (simp add: b64encode_length cps_def utf8_encode_def encode_cp_def)
  then have "\<exists>r. parse_pdf (\<lambda>_. Inr demo_pdf) [37] demo_pdf_parameters = Some r \<and> is_ok_flag r"
    using strc pages by (simp add: parse_pdf_def lm combined checked_worker_result_def Let_def isolated_result_ok_def isolated_representation_def
        isolated_representation_ok_def demo_pdf_def) (simp add: cps_def)
  then show ?thesis using pdf_worker_bounded by blast
qed

end
