(* ===== verification/Parser_Isolation.thy ===== *)
theory Parser_Isolation
  imports Pdf_Worker
begin

section \<open>Parsers in a child process\<close>

text \<open>
  The executor that runs a parser in a fresh process (\<open>infrastructure/content/parser_isolation.py\<close>) and the worker that serves one
  request (\<open>workers/parser_once.py\<close>). Processes, the private directory and the outcome of every awaited call are explicit: a step
  may raise, before or after it acted. The JSON codec of the protocol models is pydantic's and an argument.
\<close>

record protocol_codec =
  ic_write_request :: "IsolatedParserRequest \<Rightarrow> bytes"
  ic_read_request :: "bytes \<Rightarrow> IsolatedParserRequest option"
  ic_write_result :: "IsolatedParserResult \<Rightarrow> bytes"
  ic_read_result :: "bytes \<Rightarrow> IsolatedParserResult option"

subsection \<open>The worker (parser\_once.py)\<close>

datatype worker_exit = WorkerExit int "bytes option"

record worker_env =
  wk_reader :: pdf_reader
  wk_environment :: "(string \<times> string) list"
  wk_limits_applied :: bool
  wk_input_regular :: bool

datatype handler_outcome = Returned IsolatedParserResult | RaisedRequest string | RaisedOther | Exits int

type_synonym worker_handler = "bytes \<Rightarrow> (string \<times> int) list \<Rightarrow> handler_outcome"

definition echo_handler :: worker_handler where
  "echo_handler data ps = Returned \<lparr>is_ok_flag = True, is_representations = [isolated_representation BINARY ''application/octet-stream'' ''test-echo-v1'' data],
     is_warnings = [], is_hints = [], is_error_code = None\<rparr>"

text \<open>The parameters are integers, as the router passes them; the network probe then never has a host.\<close>

definition sleep_handler :: worker_handler where
  "sleep_handler data ps = (let seconds = (case map_of ps ''seconds'' of Some n \<Rightarrow> n | None \<Rightarrow> 1) in
     if seconds < 0 \<or> seconds > 60 then RaisedRequest ''invalid_test_parameter'' else echo_handler (cps ''slept'') [])"

definition crash_handler :: worker_handler where
  "crash_handler data ps = Exits 23"

definition network_probe_handler :: worker_handler where
  "network_probe_handler data ps = RaisedRequest ''invalid_test_parameter''"

definition sensitive_keys :: "string list" where
  "sensitive_keys = [''WEB_ACCESS_AUTH__PRINCIPALS'', ''WEB_ACCESS_CONTENT_STORE__ROOT'', ''WEB_ACCESS_DATABASE__URL'',
     ''WEB_ACCESS_REDIS__URL'', ''WEB_ACCESS_SEARCH__YANDEX__API_KEY'']"

definition environment_handler :: "(string \<times> string) list \<Rightarrow> worker_handler" where
  "environment_handler environ data ps = echo_handler ([123] @ join (cps '', '')
     (map (\<lambda>k. [34] @ cps k @ [34] @ cps '': '' @ cps (if k \<in> fst ` set environ then ''true'' else ''false'')) sensitive_keys) @ [125]) []"

definition test_mode_on :: "worker_env \<Rightarrow> bool" where
  "test_mode_on env \<longleftrightarrow> map_of (wk_environment env) ''WEB_ACCESS_PARSER_TEST_MODE'' = Some ''1''"

text \<open>\<open>_handler\<close>: the PDF parser, and the test handlers when the environment asks for them.\<close>

definition worker_handler :: "worker_env \<Rightarrow> string \<Rightarrow> worker_handler option" where
  "worker_handler env pid = (if pid = ''pdf'' then Some (\<lambda>data ps. case parse_pdf (wk_reader env) data ps of None \<Rightarrow> RaisedOther | Some r \<Rightarrow> Returned r)
     else if \<not> test_mode_on env then None
     else map_of [(''test_crash'', crash_handler), (''test_echo'', echo_handler), (''test_environment'', environment_handler (wk_environment env)),
       (''test_network_probe'', network_probe_handler), (''test_sleep'', sleep_handler)] pid)"

definition handler_request :: "worker_env \<Rightarrow> IsolatedParserRequest \<Rightarrow> bytes \<Rightarrow> handler_outcome" where
  "handler_request env rq data =
     (if \<not> wk_limits_applied env then RaisedOther
      else if \<not> wk_input_regular env then RaisedRequest ''invalid_parser_input''
      else if int (length data) > ir_max_input_bytes rq then RaisedRequest ''parser_input_limit''
      else case worker_handler env (ir_parser_id rq) of
        None \<Rightarrow> RaisedRequest ''parser_not_allowed''
      | Some h \<Rightarrow> h data (ir_parameters rq))"

definition worker_write :: "protocol_codec \<Rightarrow> int \<Rightarrow> IsolatedParserResult \<Rightarrow> worker_exit" where
  "worker_write codec limit r = (let payload = ic_write_result codec r in
     if int (length payload) > limit then WorkerExit 74 None else WorkerExit 0 (Some payload))"

fun worker_outcome :: "protocol_codec \<Rightarrow> int \<Rightarrow> handler_outcome \<Rightarrow> worker_exit" where
  "worker_outcome codec limit (Returned r) = worker_write codec limit r"
| "worker_outcome codec limit (RaisedRequest c) = worker_write codec limit (worker_failure c)"
| "worker_outcome codec limit RaisedOther = worker_write codec limit (worker_failure ''parser_child_internal'')"
| "worker_outcome codec limit (Exits n) = WorkerExit n None"

text \<open>\<open>main\<close>, with the two paths the executor passes.\<close>

definition worker_main :: "protocol_codec \<Rightarrow> worker_env \<Rightarrow> bytes \<Rightarrow> bytes \<Rightarrow> worker_exit" where
  "worker_main codec env raw data =
     (if int (length raw) > 64 * 1024 then worker_outcome codec (64 * 1024) (RaisedRequest ''invalid_parser_request'')
      else case ic_read_request codec raw of
        None \<Rightarrow> worker_outcome codec (64 * 1024) RaisedOther
      | Some rq \<Rightarrow> worker_outcome codec (ir_max_output_bytes rq) (handler_request env rq data))"

subsection \<open>The private directory\<close>

record dir_entry =
  de_name :: string
  de_mtime :: "rat option"
  de_symlink :: bool
  de_inside :: bool

record parser_world =
  pw_entries :: "dir_entry list"
  pw_running :: nat
  pw_started :: bool

definition isolation_error :: content_exc where
  "isolation_error = ExcParser (Some ''parser_isolation_error'') False"

definition isolation_unavailable :: content_exc where
  "isolation_unavailable = ExcParser (Some ''parser_isolation_unavailable'') False"

definition child_timeout :: content_exc where
  "child_timeout = ExcParser (Some ''parser_child_timeout'') False"

definition child_crash :: content_exc where
  "child_crash = ExcParser (Some ''parser_child_crash'') False"

definition child_output_invalid :: content_exc where
  "child_output_invalid = ExcParser (Some ''parser_child_output_invalid'') False"

definition drop_entry :: "string \<Rightarrow> parser_world \<Rightarrow> parser_world" where
  "drop_entry n w = w\<lparr>pw_entries := filter (\<lambda>e. de_name e \<noteq> n) (pw_entries w)\<rparr>"

text \<open>\<open>_remove_private_workdir\<close>: a link is removed itself; a directory only if it is a managed one of the root.\<close>

definition remove_private_workdir :: "string \<Rightarrow> parser_world \<Rightarrow> (content_exc + unit) \<times> parser_world" where
  "remove_private_workdir n w = (case find (\<lambda>e. de_name e = n) (pw_entries w) of
     None \<Rightarrow> if starts_with ''parser-'' n then (Inr (), w) else (Inl isolation_error, w)
   | Some e \<Rightarrow> if de_symlink e then (Inr (), drop_entry n w)
       else if \<not> de_inside e \<or> \<not> starts_with ''parser-'' n then (Inl isolation_error, w)
       else (Inr (), drop_entry n w))"

fun cleanup_entries :: "rat \<Rightarrow> dir_entry list \<Rightarrow> parser_world \<Rightarrow> (content_exc + unit) \<times> parser_world" where
  "cleanup_entries cutoff [] w = (Inr (), w)"
| "cleanup_entries cutoff (e # es) w =
     (if \<not> starts_with ''parser-'' (de_name e) then cleanup_entries cutoff es w
      else case de_mtime e of None \<Rightarrow> cleanup_entries cutoff es w
      | Some t \<Rightarrow> if t > cutoff then cleanup_entries cutoff es w
          else try_seq (remove_private_workdir (de_name e) w) (\<lambda>_. cleanup_entries cutoff es))"

definition cleanup_stale :: "ParserSettings \<Rightarrow> rat \<Rightarrow> parser_world \<Rightarrow> (content_exc + unit) \<times> parser_world" where
  "cleanup_stale s now w = cleanup_entries (now - of_int (pa_child_temp_cleanup_age_seconds s)) (pw_entries w) w"

subsection \<open>Starting\<close>

datatype wait_event = WaitExit int | WaitTimeout | WaitCancelled

record platform =
  pt_root :: "content_exc + unit"
  pt_linux :: bool
  pt_preflight_spawns :: bool
  pt_preflight :: wait_event
  pt_now :: rat

definition sandbox_preflight :: "platform \<Rightarrow> content_exc + unit" where
  "sandbox_preflight pt = (if \<not> pt_preflight_spawns pt then Inl isolation_unavailable
     else case pt_preflight pt of
       WaitTimeout \<Rightarrow> Inl isolation_unavailable
     | WaitCancelled \<Rightarrow> Inl ExcCancelled
     | WaitExit n \<Rightarrow> if n \<noteq> 0 then Inl isolation_unavailable else Inr ())"

definition executor_start :: "ParserSettings \<Rightarrow> bool \<Rightarrow> platform \<Rightarrow> parser_world \<Rightarrow> (content_exc + unit) \<times> parser_world" where
  "executor_start s allow_reduced pt w = (if pw_started w then (Inr (), w)
     else try_seq (pt_root pt, w) (\<lambda>_ w.
       try_seq (cleanup_stale s (pt_now pt) w) (\<lambda>_ w.
       try_seq (if pt_linux pt then sandbox_preflight pt
           else if \<not> allow_reduced then Inl isolation_unavailable else Inr (), w) (\<lambda>_ w.
         (Inr (), w\<lparr>pw_started := True\<rparr>)))))"

subsection \<open>One execution\<close>

text \<open>\<open>_minimal_environment\<close> on POSIX: nothing of the parent's environment is passed on.\<close>

definition minimal_environment :: "bool \<Rightarrow> string \<Rightarrow> (string \<times> string) list" where
  "minimal_environment test_mode work = [(''HOME'', work), (''LANG'', ''C.UTF-8''), (''PATH'', ''/usr/bin:/bin''), (''TMPDIR'', work),
     (''PYTHONIOENCODING'', ''utf-8'')] @ (if test_mode then [(''WEB_ACCESS_PARSER_TEST_MODE'', ''1'')] else [])"

datatype exec_step = MkDtemp | ChmodWork | WriteInput | ChmodInput | WriteRequest | ChmodRequest | Spawn | Reap | ReadResult | FinalReap | Cleanup

datatype child = NoChild | Running | Exited

record exec_script =
  es_fault :: "exec_step \<Rightarrow> (content_exc \<times> bool) option"
  es_name :: string
  es_wait :: wait_event
  es_result :: "bytes option"

text \<open>An awaited step that acts on the world, or raises before or after it did.\<close>

definition io_step :: "exec_script \<Rightarrow> exec_step \<Rightarrow> ('s \<Rightarrow> 's) \<Rightarrow> 's \<Rightarrow> (content_exc + unit) \<times> 's" where
  "io_step es st act w = (case es_fault es st of None \<Rightarrow> (Inr (), act w) | Some (e, acted) \<Rightarrow> (Inl e, if acted then act w else w))"

type_synonym exec_state = "parser_world \<times> child"

fun child_gone :: "exec_state \<Rightarrow> exec_state" where
  "child_gone (w, c) = (if c = Running then (w\<lparr>pw_running := pw_running w - 1\<rparr>, Exited) else (w, c))"

fun spawn_child :: "exec_state \<Rightarrow> exec_state" where
  "spawn_child (w, c) = (w\<lparr>pw_running := Suc (pw_running w)\<rparr>, Running)"

definition input_limit :: "ParserSettings \<Rightarrow> string \<Rightarrow> int" where
  "input_limit s pid = (if pid = ''pdf'' then pa_pdf_max_bytes s else pa_inline_max_input_bytes s)"

definition isolated_request :: "ParserSettings \<Rightarrow> string \<Rightarrow> (string \<times> int) list \<Rightarrow> IsolatedParserRequest" where
  "isolated_request s pid ps = \<lparr>ir_parser_id = pid, ir_max_input_bytes = input_limit s pid, ir_max_output_bytes = pa_child_output_bytes s,
     ir_cpu_seconds = pa_child_cpu_seconds s, ir_memory_bytes = pa_child_memory_bytes s, ir_open_files = pa_child_open_files s,
     ir_processes = pa_child_processes s, ir_parameters = ps\<rparr>"

fun decode_representations :: "int \<Rightarrow> int \<Rightarrow> IsolatedRepresentation list \<Rightarrow> content_exc + ParsedRepresentation list" where
  "decode_representations limit sofar [] = Inr []"
| "decode_representations limit sofar (r # rs) = (case b64decode (ie_data_base64 r) of
     None \<Rightarrow> Inl child_output_invalid
   | Some b \<Rightarrow> if sofar + int (length b) > limit then Inl child_output_invalid
       else res_bind (decode_representations limit (sofar + int (length b)) rs) (\<lambda>ps.
         Inr (\<lparr>pp_representation = ie_representation r, pp_media_type = ie_media_type r, pp_schema_revision = ie_schema_revision r, pp_data = b\<rparr> # ps)))"

definition result_output :: "ParserSettings \<Rightarrow> IsolatedParserResult \<Rightarrow> content_exc + NativeParserOutput" where
  "result_output s r = (if \<not> is_ok_flag r then Inl (ExcParser (Some (case is_error_code r of Some (c # cs) \<Rightarrow> c # cs | _ \<Rightarrow> ''isolated_parser_failed'')) False)
     else res_bind (decode_representations (pa_child_output_bytes s) 0 (is_representations r)) (\<lambda>ps.
       let out = \<lparr>po_representations = ps, po_warnings = is_warnings r, po_hints = is_hints r\<rparr> in
       if native_parser_output_ok out then Inr out else Inl parser_value_error))"

definition read_result :: "protocol_codec \<Rightarrow> ParserSettings \<Rightarrow> exec_script \<Rightarrow> content_exc + NativeParserOutput" where
  "read_result codec s es = (case es_fault es ReadResult of
     Some (ExcCancelled, _) \<Rightarrow> Inl ExcCancelled
   | Some _ \<Rightarrow> Inl child_output_invalid
   | None \<Rightarrow> (case es_result es of
       None \<Rightarrow> Inl child_output_invalid
     | Some payload \<Rightarrow> if int (length payload) > pa_child_output_bytes s then Inl child_output_invalid
         else (case ic_read_result codec payload of None \<Rightarrow> Inl child_output_invalid | Some r \<Rightarrow> result_output s r)))"

text \<open>\<open>_terminate_and_reap\<close>: the child is asked to stop, killed if it does not, and awaited.\<close>

definition terminate_and_reap :: "exec_script \<Rightarrow> exec_step \<Rightarrow> exec_state \<Rightarrow> (content_exc + unit) \<times> exec_state" where
  "terminate_and_reap es st x = io_step es st child_gone x"

definition await_child :: "protocol_codec \<Rightarrow> ParserSettings \<Rightarrow> exec_script \<Rightarrow> exec_state \<Rightarrow> (content_exc + NativeParserOutput) \<times> exec_state" where
  "await_child codec s es x = (case es_wait es of
     WaitTimeout \<Rightarrow> try_seq (terminate_and_reap es Reap x) (\<lambda>_ x. (Inl child_timeout, x))
   | WaitCancelled \<Rightarrow> try_seq (terminate_and_reap es Reap x) (\<lambda>_ x. (Inl ExcCancelled, x))
   | WaitExit n \<Rightarrow> (if n \<noteq> 0 then Inl child_crash else read_result codec s es, child_gone x))"

definition execute_body :: "protocol_codec \<Rightarrow> ParserSettings \<Rightarrow> exec_script \<Rightarrow> string \<Rightarrow> (string \<times> int) list
    \<Rightarrow> exec_state \<Rightarrow> (content_exc + NativeParserOutput) \<times> exec_state" where
  "execute_body codec s es pid ps x =
     try_seq (io_step es WriteInput id x) (\<lambda>_ x.
     try_seq (io_step es ChmodInput id x) (\<lambda>_ x.
     let rq = isolated_request s pid ps in
     if \<not> isolated_request_ok rq then (Inl parser_value_error, x)
     else if int (length (ic_write_request codec rq)) > 64 * 1024 then (Inl isolation_error, x)
     else try_seq (io_step es WriteRequest id x) (\<lambda>_ x.
       try_seq (io_step es ChmodRequest id x) (\<lambda>_ x.
       try_seq (case es_fault es Spawn of None \<Rightarrow> (Inr (), spawn_child x) | Some (e, _) \<Rightarrow> (Inl e, x)) (\<lambda>_ x.
         await_child codec s es x)))))"

definition finally_clean :: "exec_script \<Rightarrow> (content_exc + 'a) \<times> exec_state \<Rightarrow> (content_exc + 'a) \<times> parser_world" where
  "finally_clean es = (\<lambda>(res, w, c).
     case (if c = Running then terminate_and_reap es FinalReap (w, c) else (Inr (), (w, c))) of
       (Inl e, (w, c)) \<Rightarrow> (Inl e, w)
     | (Inr _, (w, c)) \<Rightarrow>
         (case es_fault es Cleanup of
           Some (e, acted) \<Rightarrow> (Inl e, if acted then snd (remove_private_workdir (es_name es) w) else w)
         | None \<Rightarrow> (case remove_private_workdir (es_name es) w of (Inl e, w) \<Rightarrow> (Inl e, w) | (Inr _, w) \<Rightarrow> (res, w))))"

definition new_workdir :: "exec_script \<Rightarrow> parser_world \<Rightarrow> parser_world" where
  "new_workdir es w = w\<lparr>pw_entries := \<lparr>de_name = es_name es, de_mtime = None, de_symlink = False, de_inside = True\<rparr> # pw_entries w\<rparr>"

definition execute_one :: "protocol_codec \<Rightarrow> ParserSettings \<Rightarrow> exec_script \<Rightarrow> string \<Rightarrow> (string \<times> int) list
    \<Rightarrow> parser_world \<Rightarrow> (content_exc + NativeParserOutput) \<times> parser_world" where
  "execute_one codec s es pid ps w =
     try_seq (io_step es MkDtemp (new_workdir es) w) (\<lambda>_ w.
     try_seq (io_step es ChmodWork id w) (\<lambda>_ w.
       finally_clean es (execute_body codec s es pid ps (w, NoChild))))"

definition isolated_execute :: "protocol_codec \<Rightarrow> ParserSettings \<Rightarrow> bool \<Rightarrow> platform \<Rightarrow> exec_script \<Rightarrow> string list \<Rightarrow> string \<Rightarrow> bytes
    \<Rightarrow> (string \<times> int) list \<Rightarrow> parser_world \<Rightarrow> (content_exc + NativeParserOutput) \<times> parser_world" where
  "isolated_execute codec s allow_reduced pt es allowed pid data ps w =
     (if pid \<notin> set allowed then (Inl isolation_error, w)
      else if int (length data) > input_limit s pid then (Inl isolation_error, w)
      else try_seq (executor_start s allow_reduced pt w) (\<lambda>_. execute_one codec s es pid ps))"

text \<open>\<open>RoutingNativeParserExecutor\<close>.\<close>

definition pdf_parameters :: "ParserSettings \<Rightarrow> (string \<times> int) list" where
  "pdf_parameters s = [(''max_pages'', pa_pdf_max_pages s), (''max_page_chars'', pa_pdf_max_page_chars s),
     (''max_output_chars'', pa_pdf_max_output_chars s), (''max_metadata_chars'', pa_pdf_max_metadata_chars s),
     (''max_content_stream_bytes'', pa_pdf_max_content_stream_bytes s), (''max_resource_entries'', pa_pdf_max_resource_entries s)]"

definition routing_execute :: "ParserSettings \<Rightarrow> (string \<Rightarrow> ContentInspection \<Rightarrow> bytes \<Rightarrow> content_exc + NativeParserOutput)
    \<Rightarrow> (string \<Rightarrow> bytes \<Rightarrow> (string \<times> int) list \<Rightarrow> content_exc + NativeParserOutput)
    \<Rightarrow> ParserDescriptor \<Rightarrow> ContentInspection \<Rightarrow> bytes \<Rightarrow> content_exc + NativeParserOutput" where
  "routing_execute s inline isolated d insp data = (if pd_execution_mode d = INLINE then inline (pd_capability d) insp data
     else isolated (pd_capability d) data (pdf_parameters s))"

subsection \<open>Nothing is left behind\<close>

text \<open>The states of one execution: the directory as it was, and one more process exactly while the child runs.\<close>

definition tracks :: "parser_world \<Rightarrow> exec_state \<Rightarrow> bool" where
  "tracks w x \<longleftrightarrow> (case x of (w', c) \<Rightarrow> pw_entries w' = pw_entries w \<and> pw_started w' = pw_started w
     \<and> pw_running w' = pw_running w + (if c = Running then 1 else 0))"

lemma io_step_id [simp]: "snd (io_step es st id x) = x"
  by (auto simp: io_step_def split: option.split)

lemma try_seq_tracks:
  assumes "tracks w (snd m)" "\<And>a x. tracks w x \<Longrightarrow> tracks w (snd (f a x))"
  shows "tracks w (snd (try_seq m f))"
  using assms by (cases m; cases "fst m") auto

lemma child_gone_tracks: "tracks w x \<Longrightarrow> tracks w (child_gone x)"
  by (cases x) (auto simp: tracks_def)

lemma reap_tracks: "tracks w x \<Longrightarrow> tracks w (snd (terminate_and_reap es st x))"
  by (auto simp: terminate_and_reap_def io_step_def child_gone_tracks split: option.split)

lemma await_child_tracks: "tracks w x \<Longrightarrow> tracks w (snd (await_child codec s es x))"
  by (auto simp: await_child_def child_gone_tracks reap_tracks intro!: try_seq_tracks split: wait_event.split)

lemma execute_body_tracks: "tracks w (snd (execute_body codec s es pid ps (w, NoChild)))"
proof -
  have start: "tracks w (w, NoChild)" by (simp add: tracks_def)
  have run: "tracks w (snd (await_child codec s es (w\<lparr>pw_running := Suc (pw_running w)\<rparr>, Running)))"
    by (rule await_child_tracks) (simp add: tracks_def)
  show ?thesis
    by (auto simp: execute_body_def Let_def start run io_step_def split: option.split)
qed

lemma finally_clean_restores:
  assumes "tracks (new_workdir es w) x" "es_fault es FinalReap = None" "es_fault es Cleanup = None"
    and "es_name es \<notin> de_name ` set (pw_entries w)" "starts_with ''parser-'' (es_name es)"
  shows "finally_clean es (res, x) = (res, w)"
proof -
  obtain w' c where x: "x = (w', c)" by fastforce
  define w1 where "w1 = (if c = Running then w'\<lparr>pw_running := pw_running w' - 1\<rparr> else w')"
  have w1: "pw_entries w1 = pw_entries (new_workdir es w)" "pw_started w1 = pw_started w" "pw_running w1 = pw_running w"
    using assms(1) by (auto simp: tracks_def x w1_def new_workdir_def)
  have "filter (\<lambda>e. de_name e \<noteq> es_name es) (pw_entries w) = pw_entries w"
    using assms(4) by (intro filter_True) (metis image_eqI)
  then have "remove_private_workdir (es_name es) w1 = (Inr (), w)"
    using w1 assms(5) by (auto simp: remove_private_workdir_def drop_entry_def new_workdir_def intro: parser_world.equality)
  moreover have "(if c = Running then terminate_and_reap es FinalReap (w', c) else (Inr (), (w', c))) = (Inr (), (w1, if c = Running then Exited else c))"
    using assms(2) by (simp add: terminate_and_reap_def io_step_def w1_def)
  ultimately show ?thesis using assms(3) by (simp add: finally_clean_def x)
qed

lemma decode_representations_total:
  "decode_representations limit sofar rs = Inr ps \<Longrightarrow> ps \<noteq> [] \<longrightarrow> sofar + int (sum_list (map (length \<circ> pp_data) ps)) \<le> limit"
proof (induction rs arbitrary: sofar ps)
  case (Cons r rs)
  obtain b qs p where b: "sofar + int (length b) \<le> limit" and qs: "decode_representations limit (sofar + int (length b)) rs = Inr qs"
    and ps: "ps = p # qs" "pp_data p = b"
    using Cons.prems by (auto simp: res_bind_Inr not_less split: option.split_asm if_split_asm)
  show ?case using Cons.IH [OF qs] b ps by (cases "qs = []") auto
qed simp

lemma result_output_Inr:
  assumes "result_output s r = Inr out"
  shows "is_ok_flag r \<and> native_parser_output_ok out \<and> int (sum_list (map (length \<circ> pp_data) (po_representations out))) \<le> pa_child_output_bytes s"
  using assms decode_representations_total [of "pa_child_output_bytes s" 0 "is_representations r"]
  by (auto simp: result_output_def res_bind_Inr Let_def native_parser_output_ok_def split: if_split_asm)

lemma await_child_Inr:
  assumes "fst (await_child codec s es x) = Inr out"
  shows "es_wait es = WaitExit 0 \<and> (\<exists>payload r. es_result es = Some payload \<and> int (length payload) \<le> pa_child_output_bytes s
    \<and> ic_read_result codec payload = Some r \<and> result_output s r = Inr out)"
  using assms by (auto simp: await_child_def read_result_def not_less terminate_and_reap_def io_step_def
      split: wait_event.split_asm if_split_asm option.split_asm content_exc.split_asm)

lemma execute_body_Inr:
  assumes "fst (execute_body codec s es pid ps x) = Inr out"
  obtains x' where "isolated_request_ok (isolated_request s pid ps)" "fst (await_child codec s es x') = Inr out"
  using assms by (auto simp: execute_body_def Let_def io_step_def split: option.split_asm if_split_asm)

lemma execute_one_restores:
  assumes "\<forall>st \<in> {MkDtemp, ChmodWork, FinalReap, Cleanup}. es_fault es st = None"
    and "es_name es \<notin> de_name ` set (pw_entries w)" "starts_with ''parser-'' (es_name es)"
  shows "execute_one codec s es pid ps w = (fst (execute_body codec s es pid ps (new_workdir es w, NoChild)), w)"
proof -
  let ?b = "execute_body codec s es pid ps (new_workdir es w, NoChild)"
  have "finally_clean es (fst ?b, snd ?b) = (fst ?b, w)"
    using execute_body_tracks finally_clean_restores assms by (metis insertCI)
  then show ?thesis using assms(1) by (simp add: execute_one_def io_step_def)
qed

subsection \<open>The executor with its worker\<close>

text \<open>The run in which the child is the worker and no step fails.\<close>

definition worker_script :: "protocol_codec \<Rightarrow> ParserSettings \<Rightarrow> worker_env \<Rightarrow> string \<Rightarrow> string \<Rightarrow> bytes \<Rightarrow> (string \<times> int) list \<Rightarrow> exec_script" where
  "worker_script codec s env name pid data ps = (case worker_main codec env (ic_write_request codec (isolated_request s pid ps)) data of
     WorkerExit n payload \<Rightarrow> \<lparr>es_fault = (\<lambda>_. None), es_name = name, es_wait = WaitExit n, es_result = payload\<rparr>)"

definition delivered :: "IsolatedRepresentation \<Rightarrow> ParsedRepresentation \<Rightarrow> bool" where
  "delivered e p \<longleftrightarrow> pp_representation p = ie_representation e \<and> pp_media_type p = ie_media_type e
     \<and> pp_schema_revision p = ie_schema_revision e \<and> ie_data_base64 e = b64encode (pp_data p)"

definition carries_bytes :: "IsolatedRepresentation \<Rightarrow> bool" where
  "carries_bytes e \<longleftrightarrow> (\<exists>b. list_all (\<lambda>x. x < 256) b \<and> ie_data_base64 e = b64encode b)"

lemma b64encode_longer: "length b \<le> length (b64encode b)"
  by (simp add: b64encode_length)

lemma decode_delivers:
  assumes "list_all carries_bytes rs" "sofar + int (sum_list (map (length \<circ> ie_data_base64) rs)) \<le> limit"
  shows "\<exists>ps. decode_representations limit sofar rs = Inr ps \<and> list_all2 delivered rs ps"
  using assms
proof (induction rs arbitrary: sofar)
  case (Cons r rs)
  obtain b where raw: "list_all (\<lambda>x. x < 256) b" "ie_data_base64 r = b64encode b"
    using Cons.prems(1) by (auto simp: carries_bytes_def)
  then have b: "b64decode (ie_data_base64 r) = Some b" "ie_data_base64 r = b64encode b"
    using b64_roundtrip by auto
  have le: "int (length b) \<le> int (length (ie_data_base64 r))" using b64encode_longer [of b] b(2) by simp
  moreover have "0 \<le> int (sum_list (map (length \<circ> ie_data_base64) rs))" by simp
  ultimately have "sofar + int (length b) \<le> limit" using Cons.prems(2) by simp
  moreover obtain ps where "decode_representations limit (sofar + int (length b)) rs = Inr ps" "list_all2 delivered rs ps"
    using Cons.IH [of "sofar + int (length b)"] Cons.prems le by auto
  ultimately show ?case using b by (simp add: delivered_def [of r])
qed simp

lemma parse_pdf_representations:
  assumes "parse_pdf reader data ps = Some r" "is_ok_flag r"
  shows "list_all carries_bytes (is_representations r) \<and> distinct (map (\<lambda>e. (ie_representation e, ie_schema_revision e)) (is_representations r))"
proof -
  have enc: "scalar_value c \<Longrightarrow> list_all (\<lambda>x. x < 256) (encode_cp c)" for c
    by (auto simp: encode_cp_def scalar_value_def)
  have bytes: "list_all scalar_value t \<Longrightarrow> list_all (\<lambda>x. x < 256) (utf8_encode t)" for t
    using enc by (induction t) (auto simp: utf8_encode_def)
  have carried: "list_all scalar_value t \<Longrightarrow> carries_bytes (isolated_representation k m c (utf8_encode t))" for t k m c
    using bytes by (auto simp: carries_bytes_def isolated_representation_def)
  have kind: "ie_representation (isolated_representation k m c d) = k" for k m c d by (simp add: isolated_representation_def)
  have fail: "\<not> is_ok_flag (worker_failure c)" for c by (simp add: worker_failure_def)
  show ?thesis using assms fail
    by (auto simp: parse_pdf_def carried kind checked_worker_result_def Let_def
        split: option.split_asm sum.split_asm if_split_asm page_stop.split_asm)
qed

lemma execute_one_undisturbed:
  assumes "es_fault es = (\<lambda>_. None)" "es_name es \<notin> de_name ` set (pw_entries w)" "starts_with ''parser-'' (es_name es)"
    and "isolated_request_ok (isolated_request s pid ps)" "int (length (ic_write_request codec (isolated_request s pid ps))) \<le> 64 * 1024"
  shows "execute_one codec s es pid ps w = (fst (await_child codec s es (spawn_child (new_workdir es w, NoChild))), w)"
  using assms execute_one_restores [of es w codec s pid ps] by (simp add: execute_body_def Let_def io_step_def)

lemma delivered_output_ok:
  assumes "isolated_result_ok r" "is_ok_flag r" "list_all2 delivered (is_representations r) reps"
    and "distinct (map (\<lambda>e. (ie_representation e, ie_schema_revision e)) (is_representations r))"
  shows "native_parser_output_ok \<lparr>po_representations = reps, po_warnings = is_warnings r, po_hints = is_hints r\<rparr>"
proof -
  have "map (\<lambda>e. (ie_representation e, ie_schema_revision e)) (is_representations r) = map (\<lambda>p. (pp_representation p, pp_schema_revision p)) reps"
    using assms(3) by (induction rule: list_all2_induct) (auto simp: delivered_def)
  moreover have "length reps = length (is_representations r)" using assms(3) by (simp add: list_all2_lengthD)
  ultimately show ?thesis using assms(1,2,4) by (auto simp: native_parser_output_ok_def isolated_result_ok_def Suc_le_eq)
qed

lemma result_output_delivers:
  assumes "isolated_result_ok r" "is_ok_flag r" "list_all carries_bytes (is_representations r)"
    and "distinct (map (\<lambda>e. (ie_representation e, ie_schema_revision e)) (is_representations r))"
    and "int (sum_list (map (length \<circ> ie_data_base64) (is_representations r))) \<le> pa_child_output_bytes s"
  shows "\<exists>out. result_output s r = Inr out \<and> list_all2 delivered (is_representations r) (po_representations out)
    \<and> po_warnings out = is_warnings r \<and> po_hints out = is_hints r"
proof -
  obtain reps where reps: "decode_representations (pa_child_output_bytes s) 0 (is_representations r) = Inr reps"
    "list_all2 delivered (is_representations r) reps"
    using decode_delivers [OF assms(3), of 0] assms(5) by auto
  then show ?thesis using delivered_output_ok [OF assms(1,2) reps(2) assms(4)] assms(2) by (simp add: result_output_def Let_def)
qed

lemma result_output_failure:
  assumes "isolated_result_ok r" "\<not> is_ok_flag r"
  shows "result_output s r = Inl (ExcParser (is_error_code r) False)"
proof -
  obtain c cs where "is_error_code r = Some (c # cs)"
    using assms by (auto simp: isolated_result_ok_def machine_code_def Suc_le_length_iff split: option.split_asm)
  then show ?thesis using assms(2) by (simp add: result_output_def)
qed

text \<open>Settings accepted by the configuration whose PDF limits the protocol model refuses: every execution fails.\<close>

lemma oversized_pdf_settings_fail:
  assumes "64 * 1024 * 1024 < pa_pdf_max_bytes s \<or> 8 * 1024 * 1024 * 1024 < pa_child_memory_bytes s" "es_fault es = (\<lambda>_. None)"
    and "es_name es \<notin> de_name ` set (pw_entries w)" "starts_with ''parser-'' (es_name es)"
  shows "execute_one codec s es ''pdf'' ps w = (Inl parser_value_error, w)"
proof -
  have "\<not> isolated_request_ok (isolated_request s ''pdf'' ps)"
    using assms(1) by (auto simp: isolated_request_ok_def isolated_request_def input_limit_def)
  then show ?thesis using assms execute_one_restores [of es w codec s "''pdf''" ps] by (simp add: execute_body_def io_step_def)
qed

lemma oversized_settings_valid: "parser_settings_ok (parser_defaults\<lparr>pa_pdf_max_bytes := 128 * 1024 * 1024\<rparr>)"
  by (simp add: parser_settings_ok_def parser_defaults_def)

text \<open>What the worker writes for one handler outcome, and what the executor makes of it.\<close>

definition pdf_answer :: "pdf_reader \<Rightarrow> bytes \<Rightarrow> (string \<times> int) list \<Rightarrow> IsolatedParserResult" where
  "pdf_answer reader data ps = (case parse_pdf reader data ps of None \<Rightarrow> worker_failure ''parser_child_internal'' | Some r \<Rightarrow> r)"

lemma pdf_answer_ok:
  "isolated_result_ok (pdf_answer reader data ps)"
  "is_ok_flag (pdf_answer reader data ps) \<Longrightarrow> list_all carries_bytes (is_representations (pdf_answer reader data ps))
     \<and> distinct (map (\<lambda>e. (ie_representation e, ie_schema_revision e)) (is_representations (pdf_answer reader data ps)))"
proof -
  have internal: "isolated_result_ok (worker_failure ''parser_child_internal'')"
    by (rule worker_failure_ok) (simp_all add: machine_code_def machine_char_def)
  show "isolated_result_ok (pdf_answer reader data ps)"
    using internal parse_pdf_valid by (auto simp: pdf_answer_def split: option.split)
  show "is_ok_flag (pdf_answer reader data ps) \<Longrightarrow> list_all carries_bytes (is_representations (pdf_answer reader data ps))
     \<and> distinct (map (\<lambda>e. (ie_representation e, ie_schema_revision e)) (is_representations (pdf_answer reader data ps)))"
    using parse_pdf_representations by (fastforce simp: pdf_answer_def worker_failure_def split: option.split_asm)
qed

lemma worker_script_pdf:
  assumes "ic_read_request codec (ic_write_request codec (isolated_request s ''pdf'' ps)) = Some (isolated_request s ''pdf'' ps)"
    and "int (length (ic_write_request codec (isolated_request s ''pdf'' ps))) \<le> 64 * 1024"
    and "wk_limits_applied env" "wk_input_regular env" "int (length data) \<le> pa_pdf_max_bytes s"
  shows "worker_script codec s env name ''pdf'' data ps =
    (case worker_write codec (pa_child_output_bytes s) (pdf_answer (wk_reader env) data ps) of
       WorkerExit n payload \<Rightarrow> \<lparr>es_fault = (\<lambda>_. None), es_name = name, es_wait = WaitExit n, es_result = payload\<rparr>)"
proof -
  let ?rq = "isolated_request s ''pdf'' ps"
  have fields: "ir_parser_id ?rq = ''pdf''" "ir_max_input_bytes ?rq = pa_pdf_max_bytes s" "ir_max_output_bytes ?rq = pa_child_output_bytes s"
    "ir_parameters ?rq = ps" by (simp_all add: isolated_request_def input_limit_def)
  have "worker_outcome codec (pa_child_output_bytes s) (handler_request env ?rq data) = worker_write codec (pa_child_output_bytes s) (pdf_answer (wk_reader env) data ps)"
    using assms(3-5) by (simp add: handler_request_def fields worker_handler_def pdf_answer_def split: option.split)
  then show ?thesis using assms(1,2) by (simp add: worker_script_def worker_main_def fields)
qed

section \<open>Properties\<close>


definition faulty_script :: exec_script where
  "faulty_script = \<lparr>es_fault = (\<lambda>st. if st = Reap then Some (ExcCancelled, False) else None), es_name = ''parser-a1'', es_wait = WaitTimeout, es_result = None\<rparr>"


text \<open>C31: The PDF handler's answer reaches the service unchanged. When the executor runs the worker and nothing fails around it, the
  protocol messages survive their codec and a message is at least as long as the data it carries, the execution ends in exactly one of
  three ways: the answer does not fit the output limit, the worker exits with status 74 and the execution reports a
  crash; the handler reports a failure, and its code is raised; or it succeeds, and the output has its warnings, its hints
  and its representations, kind by kind and byte by byte. An exception of the handler counts as the failure \<open>parser_child_internal\<close>.\<close>

theorem isolated_pdf_delivered:
  assumes r_def: "r = pdf_answer (wk_reader env) data ps"
    and "ic_read_request codec (ic_write_request codec (isolated_request s ''pdf'' ps)) = Some (isolated_request s ''pdf'' ps)"
    and "int (length (ic_write_request codec (isolated_request s ''pdf'' ps))) \<le> 64 * 1024"
    and "ic_read_result codec (ic_write_result codec r) = Some r"
    and "sum_list (map (length \<circ> ie_data_base64) (is_representations r)) \<le> length (ic_write_result codec r)"
    and "isolated_request_ok (isolated_request s ''pdf'' ps)"
    and "wk_limits_applied env" "wk_input_regular env" "int (length data) \<le> pa_pdf_max_bytes s"
    and "name \<notin> de_name ` set (pw_entries w)" "starts_with ''parser-'' name"
  shows "case execute_one codec s (worker_script codec s env name ''pdf'' data ps) ''pdf'' ps w of (res, w') \<Rightarrow> w' = w
    \<and> (if int (length (ic_write_result codec r)) > pa_child_output_bytes s then res = Inl child_crash
       else if \<not> is_ok_flag r then res = Inl (ExcParser (is_error_code r) False)
       else \<exists>out. res = Inr out \<and> list_all2 delivered (is_representations r) (po_representations out)
         \<and> po_warnings out = is_warnings r \<and> po_hints out = is_hints r)"
proof -
  let ?es = "worker_script codec s env name ''pdf'' data ps"
  note script = worker_script_pdf [OF assms(2,3,7,8,9), of name, folded r_def]
  have es: "es_fault ?es = (\<lambda>_. None)" "es_name ?es = name" by (simp_all add: script worker_write_def Let_def)
  have one: "execute_one codec s ?es ''pdf'' ps w = (fst (await_child codec s ?es (spawn_child (new_workdir ?es w, NoChild))), w)"
    using execute_one_undisturbed assms(3,6,10,11) es by simp
  have await: "fst (await_child codec s ?es x) = (if int (length (ic_write_result codec r)) > pa_child_output_bytes s then Inl child_crash else result_output s r)" for x
    using assms(4) by (simp add: script worker_write_def Let_def await_child_def read_result_def)
  have "int (length (ic_write_result codec r)) \<le> pa_child_output_bytes s \<Longrightarrow> is_ok_flag r \<Longrightarrow>
      \<exists>out. result_output s r = Inr out \<and> list_all2 delivered (is_representations r) (po_representations out)
        \<and> po_warnings out = is_warnings r \<and> po_hints out = is_hints r"
    using result_output_delivers [of r s] pdf_answer_ok assms(5) by (simp add: r_def)
  then show ?thesis
    using result_output_failure [OF pdf_answer_ok(1), of "wk_reader env" data ps s] by (simp add: one await r_def [symmetric])
qed

lemma split_conjunct1: "(case x of (a, b) \<Rightarrow> P a b \<and> Q a b) \<Longrightarrow> (case x of (a, b) \<Rightarrow> P a b)"
  by auto

definition demo_codec :: protocol_codec where
  "demo_codec = \<lparr>ic_write_request = (\<lambda>_. []), ic_read_request = (\<lambda>_. Some (isolated_request parser_defaults ''pdf'' demo_pdf_parameters)),
     ic_write_result = (\<lambda>r. concat (map ie_data_base64 (is_representations r))),
     ic_read_result = (\<lambda>_. Some (pdf_answer (\<lambda>_. Inr demo_pdf) [37] demo_pdf_parameters))\<rparr>"

definition demo_worker :: worker_env where
  "demo_worker = \<lparr>wk_reader = (\<lambda>_. Inr demo_pdf), wk_environment = minimal_environment False ''/tmp/web-access-parser/parser-a1'',
     wk_limits_applied = True, wk_input_regular = True\<rparr>"

theorem isolated_pdf_delivered_witness:
  "snd (execute_one demo_codec parser_defaults (worker_script demo_codec parser_defaults demo_worker ''parser-a1'' ''pdf'' [37] demo_pdf_parameters)
     ''pdf'' demo_pdf_parameters \<lparr>pw_entries = [], pw_running = 0, pw_started = True\<rparr>) = \<lparr>pw_entries = [], pw_running = 0, pw_started = True\<rparr>"
proof -
  let ?w = "\<lparr>pw_entries = [], pw_running = 0, pw_started = True\<rparr>"
  let ?x = "execute_one demo_codec parser_defaults (worker_script demo_codec parser_defaults demo_worker ''parser-a1'' ''pdf'' [37] demo_pdf_parameters)
     ''pdf'' demo_pdf_parameters ?w"
  have ok: "isolated_request_ok (isolated_request parser_defaults ''pdf'' demo_pdf_parameters)"
    by (simp add: isolated_request_ok_def isolated_request_def input_limit_def parser_defaults_def parser_id_ok_def parser_id_char_def is_hex_lower_def)
  note facts = demo_codec_def demo_worker_def length_concat starts_with_def parser_defaults_def comp_def
  note delivered = isolated_pdf_delivered [OF refl, where s = parser_defaults and env = demo_worker and codec = demo_codec
      and ps = demo_pdf_parameters and data = "[37]" and name = "''parser-a1''" and w = ?w]
  have "case ?x of (res, w') \<Rightarrow> w' = ?w"
    by (rule delivered [THEN split_conjunct1]) (use ok in \<open>simp_all add: facts\<close>)
  then show ?thesis by (simp add: split_beta)
qed

end
