(* ===== verification/Configuration.thy ===== *)
theory Configuration
  imports Access Search_Admission Search_Providers Retrieval_Fetcher Content_Parsers
begin

section \<open>Configuration\<close>

text \<open>
  The settings graph of \<open>core/config.py\<close> with the checks its models run. A settings value is one the
  environment was parsed to; the fields that were set explicitly are recorded where a check asks for them.
  The settings of principals, parsers, retrieval, providers and rate limits are with the components they configure.
\<close>

datatype Environment = DEVELOPMENT | TEST_ENVIRONMENT | PRODUCTION

record AppSettings =
  ap_environment :: Environment
  ap_service_name :: string
  ap_debug :: bool
  ap_host :: string
  ap_port :: int
  ap_mandatory_dependencies :: "string list"

definition app_settings_ok :: "AppSettings \<Rightarrow> bool" where
  "app_settings_ok s \<longleftrightarrow> non_empty_text (ap_service_name s) \<and> 1 \<le> ap_port s \<and> ap_port s \<le> 65535
     \<and> set (ap_mandatory_dependencies s) \<subseteq> {''postgres'', ''redis'', ''content_store''}"

record DatabaseSettings =
  db_url :: string
  db_pool_size :: int
  db_pool_timeout_seconds :: rat
  db_fields_set :: "string list"

definition database_settings_ok :: "DatabaseSettings \<Rightarrow> bool" where
  "database_settings_ok s \<longleftrightarrow> 1 \<le> db_pool_size s \<and> db_pool_size s \<le> 100
     \<and> 0 < db_pool_timeout_seconds s \<and> db_pool_timeout_seconds s \<le> 120"

record RedisSettings =
  rds_url :: string
  rds_namespace :: string
  rds_socket_timeout_seconds :: rat
  rds_fields_set :: "string list"

definition redis_settings_ok :: "RedisSettings \<Rightarrow> bool" where
  "redis_settings_ok s \<longleftrightarrow> non_empty_text (rds_namespace s)
     \<and> 0 < rds_socket_timeout_seconds s \<and> rds_socket_timeout_seconds s \<le> 30"

record ContentStoreSettings =
  cts_root :: string
  cts_chunk_size :: int
  cts_inspection_sample_bytes :: int
  cts_max_inspection_json_bytes :: int

definition validate_root :: "string \<Rightarrow> bool" where
  "validate_root root_path \<longleftrightarrow> \<not> (str_strip root_path = [] \<or> CHR 0x00 \<in> set root_path)"

definition content_store_settings_ok :: "ContentStoreSettings \<Rightarrow> bool" where
  "content_store_settings_ok s \<longleftrightarrow> validate_root (cts_root s)
     \<and> 4096 \<le> cts_chunk_size s \<and> cts_chunk_size s \<le> 4 * 1024 * 1024
     \<and> 4096 \<le> cts_inspection_sample_bytes s \<and> cts_inspection_sample_bytes s \<le> 4 * 1024 * 1024
     \<and> 4096 \<le> cts_max_inspection_json_bytes s \<and> cts_max_inspection_json_bytes s \<le> 1024 * 1024"

datatype log_format = LOG_JSON | LOG_CONSOLE

datatype log_level = LOG_DEBUG | LOG_INFO | LOG_WARNING | LOG_ERROR

record ObservabilitySettings =
  ob_log_format :: log_format
  ob_log_level :: log_level
  ob_tracing_enabled :: bool
  ob_otlp_endpoint :: "string option"

record SecuritySettings =
  se_request_id_max_length :: int
  se_shutdown_timeout_seconds :: rat
  se_content_cursor_hmac_secret :: "ustr option"

text \<open>A secret that cannot be encoded raises a \<open>ValueError\<close> too.\<close>

definition cursor_secret_ok :: "ustr option \<Rightarrow> bool" where
  "cursor_secret_ok secret \<longleftrightarrow> (case secret of None \<Rightarrow> True
     | Some t \<Rightarrow> list_all scalar_value t \<and> \<not> length (utf8_encode t) < 32)"

definition service_security_ok :: "SecuritySettings \<Rightarrow> bool" where
  "service_security_ok s \<longleftrightarrow> 16 \<le> se_request_id_max_length s \<and> se_request_id_max_length s \<le> 512
     \<and> 0 < se_shutdown_timeout_seconds s \<and> se_shutdown_timeout_seconds s \<le> 120
     \<and> cursor_secret_ok (se_content_cursor_hmac_secret s)"

subsection \<open>Search\<close>

record SearchRegionProviderSettings =
  sp_region_provider_id :: SearchProviderId
  sp_provider_region :: string

definition region_provider_settings_ok :: "SearchRegionProviderSettings \<Rightarrow> bool" where
  "region_provider_settings_ok s \<longleftrightarrow> 1 \<le> length (sp_provider_region s) \<and> length (sp_provider_region s) \<le> 100
     \<and> (sp_region_provider_id s = YANDEX \<longrightarrow>
          \<not> (\<not> (sp_provider_region s \<noteq> [] \<and> list_all ascii_digit (sp_provider_region s)) \<or> starts_with ''0'' (sp_provider_region s)))"

record SearchRegionSettings =
  sr_region_id :: string
  sr_label :: string
  sr_mappings :: "SearchRegionProviderSettings list"

definition region_settings_ok :: "SearchRegionSettings \<Rightarrow> bool" where
  "region_settings_ok s \<longleftrightarrow> fullmatch region_rx (sr_region_id s) \<and> 1 \<le> length (sr_label s) \<and> length (sr_label s) \<le> 128
     \<and> length (sr_mappings s) \<le> 16 \<and> list_all region_provider_settings_ok (sr_mappings s)
     \<and> distinct (map sp_region_provider_id (sr_mappings s))"

record SearchCacheSettings =
  sch_mode :: cache_mode
  sch_searxng_ttl_seconds :: int
  sch_yandex_ttl_seconds :: int
  sch_single_flight_ttl_seconds :: int
  sch_waiter_poll_seconds :: rat

definition cache_settings_ok :: "SearchCacheSettings \<Rightarrow> bool" where
  "cache_settings_ok s \<longleftrightarrow> 1 \<le> sch_searxng_ttl_seconds s \<and> sch_searxng_ttl_seconds s \<le> 86400
     \<and> 1 \<le> sch_yandex_ttl_seconds s \<and> sch_yandex_ttl_seconds s \<le> 86400
     \<and> 2 \<le> sch_single_flight_ttl_seconds s \<and> sch_single_flight_ttl_seconds s \<le> 300
     \<and> 0 < sch_waiter_poll_seconds s \<and> sch_waiter_poll_seconds s \<le> 1"

record SearchRateLimitSettings =
  srl_mandatory :: bool
  srl_searxng :: SearchProviderRateSettings
  srl_yandex :: SearchProviderRateSettings

definition provider_rate_settings_ok :: "SearchProviderRateSettings \<Rightarrow> bool" where
  "provider_rate_settings_ok s \<longleftrightarrow> rate_bucket_settings_ok (sr_principal s) \<and> rate_bucket_settings_ok (sr_global s)"

record SearchConcurrencySettings =
  scc_searxng :: SearchProviderConcurrencySettings
  scc_yandex :: SearchProviderConcurrencySettings

record SearchRetrySettings =
  srt_searxng_max_attempts :: int
  srt_yandex_max_attempts :: int
  srt_backoff_seconds :: rat
  srt_jitter_ratio :: rat

definition retry_settings_ok :: "SearchRetrySettings \<Rightarrow> bool" where
  "retry_settings_ok s \<longleftrightarrow> 1 \<le> srt_searxng_max_attempts s \<and> srt_searxng_max_attempts s \<le> 3
     \<and> 1 \<le> srt_yandex_max_attempts s \<and> srt_yandex_max_attempts s \<le> 2
     \<and> 0 \<le> srt_backoff_seconds s \<and> srt_backoff_seconds s \<le> 5 \<and> 0 \<le> srt_jitter_ratio s \<and> srt_jitter_ratio s \<le> 1"

record SearchSettings =
  ses_default_provider :: SearchProviderId
  ses_provider_order :: "SearchProviderId list"
  ses_max_batch_size :: int
  ses_max_query_length :: int
  ses_max_results :: int
  ses_max_page :: int
  ses_batch_concurrency :: int
  ses_operation_timeout_seconds :: rat
  ses_searxng :: SearxngSettings
  ses_yandex :: YandexSearchSettings
  ses_cache :: SearchCacheSettings
  ses_rate_limit :: SearchRateLimitSettings
  ses_concurrency :: SearchConcurrencySettings
  ses_retry :: SearchRetrySettings
  ses_regions :: "SearchRegionSettings list"

definition validate_search_graph :: "SearchSettings \<Rightarrow> bool" where
  "validate_search_graph s \<longleftrightarrow> distinct (ses_provider_order s) \<and> ses_default_provider s \<in> set (ses_provider_order s)
     \<and> (if ses_default_provider s = SEARXNG then sx_enabled (ses_searxng s) else yx_enabled (ses_yandex s))
     \<and> distinct (map sr_region_id (ses_regions s))
     \<and> \<not> of_int (sc_lease_seconds (scc_searxng (ses_concurrency s))) \<le> sx_request_timeout_seconds (ses_searxng s) + 1
     \<and> \<not> of_int (sc_lease_seconds (scc_yandex (ses_concurrency s))) \<le> yx_request_timeout_seconds (ses_yandex s) + 1"

definition search_settings_ok :: "SearchSettings \<Rightarrow> bool" where
  "search_settings_ok s \<longleftrightarrow> 1 \<le> ses_max_batch_size s \<and> ses_max_batch_size s \<le> 32
     \<and> 1 \<le> ses_max_query_length s \<and> ses_max_query_length s \<le> 4096
     \<and> 1 \<le> ses_max_results s \<and> ses_max_results s \<le> 50 \<and> 1 \<le> ses_max_page s \<and> ses_max_page s \<le> 100
     \<and> 1 \<le> ses_batch_concurrency s \<and> ses_batch_concurrency s \<le> 32
     \<and> 0 < ses_operation_timeout_seconds s \<and> ses_operation_timeout_seconds s \<le> 300
     \<and> searxng_settings_ok (ses_searxng s) \<and> yandex_settings_ok (ses_yandex s) \<and> cache_settings_ok (ses_cache s)
     \<and> provider_rate_settings_ok (srl_searxng (ses_rate_limit s)) \<and> provider_rate_settings_ok (srl_yandex (ses_rate_limit s))
     \<and> concurrency_settings_ok (scc_searxng (ses_concurrency s)) \<and> concurrency_settings_ok (scc_yandex (ses_concurrency s))
     \<and> retry_settings_ok (ses_retry s) \<and> list_all region_settings_ok (ses_regions s) \<and> validate_search_graph s"

text \<open>\<open>provider_revision\<close>: the SHA-256 of the provider's settings as JSON, without the API key; the text of a float and
  the normalized text of the endpoint are pydantic's.\<close>

definition searxng_dump :: "SearxngSettings \<Rightarrow> json" where
  "searxng_dump s = JObj [(cps ''enabled'', JBool (sx_enabled s)), (cps ''endpoint'', JStr (cps (sx_endpoint s))),
     (cps ''max_response_bytes'', JInt (sx_max_response_bytes s)), (cps ''max_results'', JInt (sx_max_results s)),
     (cps ''profile_revision'', JStr (cps (sx_profile_revision s))),
     (cps ''request_timeout_seconds'', JFloat (sx_request_timeout_seconds s))]"

definition yandex_dump :: "YandexSearchSettings \<Rightarrow> json" where
  "yandex_dump s = JObj [(cps ''enabled'', JBool (yx_enabled s)), (cps ''endpoint'', JStr (cps (yx_endpoint s))),
     (cps ''folder_id'', case yx_folder_id s of None \<Rightarrow> JNull | Some f \<Rightarrow> JStr (cps f)),
     (cps ''max_response_bytes'', JInt (yx_max_response_bytes s)), (cps ''max_results'', JInt (yx_max_results s)),
     (cps ''profile_revision'', JStr (cps (yx_profile_revision s))),
     (cps ''request_timeout_seconds'', JFloat (yx_request_timeout_seconds s)),
     (cps ''search_type'', JStr (cps (yx_search_type s)))]"

definition provider_revision :: "(rat \<Rightarrow> ustr option) \<Rightarrow> SearchSettings \<Rightarrow> SearchProviderId \<Rightarrow> string option" where
  "provider_revision flt s pid = map_option (\<lambda>canonical. sha256_hex (utf8_encode canonical))
     (json_text flt (if pid = SEARXNG then searxng_dump (ses_searxng s) else yandex_dump (ses_yandex s)))"

subsection \<open>The settings\<close>

record Settings =
  st_app :: AppSettings
  st_auth :: AuthSettings
  st_database :: DatabaseSettings
  st_redis :: RedisSettings
  st_content_store :: ContentStoreSettings
  st_observability :: ObservabilitySettings
  st_security :: SecuritySettings
  st_retrieval :: RetrievalSettings
  st_parser :: ParserSettings
  st_search :: SearchSettings

definition validate_profile :: "Settings \<Rightarrow> bool" where
  "validate_profile s \<longleftrightarrow> \<not> (ap_environment (st_app s) \<noteq> TEST_ENVIRONMENT \<and> as_principals (st_auth s) = [])
     \<and> (ap_environment (st_app s) = PRODUCTION \<longrightarrow>
          \<not> ap_debug (st_app s) \<and> starts_with ''/'' (cts_root (st_content_store s))
          \<and> ''url'' \<in> set (db_fields_set (st_database s)) \<and> ''url'' \<in> set (rds_fields_set (st_redis s))
          \<and> \<not> (sx_enabled (ses_searxng (st_search s)) \<and> ''endpoint'' \<notin> set (sx_fields_set (ses_searxng (st_search s))))
          \<and> \<not> (yx_enabled (ses_yandex (st_search s)) \<and> \<not> starts_with ''https:'' (yx_endpoint (ses_yandex (st_search s))))
          \<and> se_content_cursor_hmac_secret (st_security s) \<noteq> None)"

text \<open>\<open>st_auth\<close> holds the principals of the registry file, when there is one.\<close>

definition auth_loaded :: "AuthSettings \<Rightarrow> bool" where
  "auth_loaded a \<longleftrightarrow> list_all principal_ok (as_principals a) \<and> registry_ok (as_principals a) \<and> non_empty_text (as_diagnostic_scope a)"

definition settings_ok :: "Settings \<Rightarrow> bool" where
  "settings_ok s \<longleftrightarrow> app_settings_ok (st_app s) \<and> auth_loaded (st_auth s) \<and> database_settings_ok (st_database s)
     \<and> redis_settings_ok (st_redis s) \<and> content_store_settings_ok (st_content_store s) \<and> service_security_ok (st_security s)
     \<and> retrieval_settings_ok (st_retrieval s) \<and> parser_settings_ok (st_parser s) \<and> search_settings_ok (st_search s)
     \<and> validate_profile s"

record safe_summary =
  sy_service_name :: string
  sy_environment :: Environment
  sy_principal_ids :: "string list"
  sy_principal_count :: nat
  sy_log_format :: log_format
  sy_tracing_enabled :: bool

definition safe_summary_of :: "Settings \<Rightarrow> safe_summary" where
  "safe_summary_of s = \<lparr>sy_service_name = ap_service_name (st_app s), sy_environment = ap_environment (st_app s),
     sy_principal_ids = map ps_principal_id (as_principals (st_auth s)), sy_principal_count = length (as_principals (st_auth s)),
     sy_log_format = ob_log_format (st_observability s), sy_tracing_enabled = ob_tracing_enabled (st_observability s)\<rparr>"

subsection \<open>Secrets\<close>

text \<open>The settings with every secret replaced.\<close>

definition scrub :: "ustr list \<Rightarrow> string option \<Rightarrow> string \<Rightarrow> ustr option \<Rightarrow> Settings \<Rightarrow> Settings" where
  "scrub tokens key url secret s = s\<lparr>
     st_auth := (st_auth s)\<lparr>as_principals := map (\<lambda>p. p\<lparr>ps_tokens := tokens\<rparr>) (as_principals (st_auth s))\<rparr>,
     st_database := (st_database s)\<lparr>db_url := url\<rparr>, st_redis := (st_redis s)\<lparr>rds_url := url\<rparr>,
     st_security := (st_security s)\<lparr>se_content_cursor_hmac_secret := secret\<rparr>,
     st_search := (st_search s)\<lparr>ses_yandex := (ses_yandex (st_search s))\<lparr>yx_api_key := key\<rparr>\<rparr>\<rparr>"

lemma summary_hides_secrets: "safe_summary_of (scrub tokens key url secret s) = safe_summary_of s"
  by (simp add: safe_summary_of_def scrub_def comp_def)

lemma revision_hides_key: "provider_revision flt (st_search (scrub tokens key url secret s)) pid = provider_revision flt (st_search s) pid"
  by (simp add: provider_revision_def scrub_def yandex_dump_def)

lemma production_explicit:
  assumes "settings_ok s" "ap_environment (st_app s) = PRODUCTION"
  shows "as_principals (st_auth s) \<noteq> []" "\<exists>t. se_content_cursor_hmac_secret (st_security s) = Some t \<and> 32 \<le> length (utf8_encode t)"
  using assms by (auto simp: settings_ok_def validate_profile_def service_security_ok_def cursor_secret_ok_def)

end
