(* ===== verification/Health.thy ===== *)
theory Health
  imports Search_Admission Search_Providers
begin

section \<open>Health and readiness\<close>

text \<open>
  The health service (\<open>application/common/health.py\<close>), the readiness of the search providers
  (\<open>application/search/readiness.py\<close>, \<open>infrastructure/search/readiness.py\<close>) and the Redis client's life
  (\<open>infrastructure/redis/client.py\<close>). A probe's answer is an argument: a truth value, or an exception.
\<close>

subsection \<open>The health service (health.py)\<close>

record DependencyStatus =
  ds_name :: string
  ds_status :: Availability
  ds_mandatory :: bool
  ds_checked_at :: instant
  ds_code :: "string option"

definition dependency_status_ok :: "DependencyStatus \<Rightarrow> bool" where
  "dependency_status_ok d \<longleftrightarrow> machine_code (ds_name d) \<and> (case ds_code d of None \<Rightarrow> True | Some c \<Rightarrow> machine_code c)"

record RuntimeStatus =
  rn_live :: bool
  rn_ready :: bool
  rn_bootstrapped :: bool
  rn_draining :: bool

record ServiceStatus =
  ss_status :: Availability
  ss_runtime :: RuntimeStatus
  ss_dependencies :: "DependencyStatus list"

record DependencyProbe =
  dp_name :: string
  dp_mandatory :: bool

record HealthService =
  hs_probes :: "DependencyProbe list"
  hs_bootstrapped :: bool
  hs_draining :: bool

definition make_health :: "DependencyProbe list \<Rightarrow> HealthService option" where
  "make_health ps = (if \<not> distinct (map dp_name ps) then None
     else Some \<lparr>hs_probes = ps, hs_bootstrapped = False, hs_draining = False\<rparr>)"

definition mark_bootstrapped :: "HealthService \<Rightarrow> HealthService" where
  "mark_bootstrapped h = h\<lparr>hs_bootstrapped := True\<rparr>"

definition begin_shutdown :: "HealthService \<Rightarrow> HealthService" where
  "begin_shutdown h = h\<lparr>hs_draining := True\<rparr>"

definition liveness :: "HealthService \<Rightarrow> bool" where
  "liveness h = True"

text \<open>\<open>asyncio.gather\<close> of the probes: the first exception, or all answers.\<close>

fun gather_checks :: "('e + bool) list \<Rightarrow> 'e + bool list" where
  "gather_checks [] = Inr []"
| "gather_checks (c # cs) = res_bind c (\<lambda>b. res_bind (gather_checks cs) (\<lambda>bs. Inr (b # bs)))"

definition dependency_status :: "instant \<Rightarrow> DependencyProbe \<times> bool \<Rightarrow> DependencyStatus" where
  "dependency_status now = (\<lambda>(p, healthy). \<lparr>ds_name = dp_name p, ds_status = (if healthy then AV_READY else AV_UNAVAILABLE),
     ds_mandatory = dp_mandatory p, ds_checked_at = now, ds_code = (if healthy then None else Some ''probe_failed'')\<rparr>)"

definition service_status :: "HealthService \<Rightarrow> instant \<Rightarrow> bool list \<Rightarrow> ServiceStatus" where
  "service_status h now checks = (let
     ds = map (dependency_status now) (zip (hs_probes h) checks);
     mandatory_ready = list_all (\<lambda>d. ds_mandatory d \<longrightarrow> ds_status d = AV_READY) ds;
     ready = hs_bootstrapped h \<and> \<not> hs_draining h \<and> mandatory_ready;
     availability = (if \<not> ready then AV_UNAVAILABLE
       else if list_ex (\<lambda>d. ds_status d = AV_UNAVAILABLE) ds then AV_DEGRADED else AV_READY)
   in \<lparr>ss_status = availability,
       ss_runtime = \<lparr>rn_live = True, rn_ready = ready, rn_bootstrapped = hs_bootstrapped h, rn_draining = hs_draining h\<rparr>,
       ss_dependencies = ds\<rparr>)"

definition health_status :: "HealthService \<Rightarrow> instant \<Rightarrow> ('e + bool) list \<Rightarrow> 'e + ServiceStatus" where
  "health_status h now checks = res_bind (gather_checks checks) (\<lambda>bs. Inr (service_status h now bs))"

definition readiness :: "HealthService \<Rightarrow> instant \<Rightarrow> ('e + bool) list \<Rightarrow> 'e + bool" where
  "readiness h now checks = res_bind (health_status h now checks) (\<lambda>s. Inr (rn_ready (ss_runtime s)))"

subsection \<open>The Redis client (redis/client.py)\<close>

text \<open>The client is there between \<open>start\<close> and \<open>close\<close>; closing forgets it before it awaits.\<close>

record redis_dependency =
  rd_client :: bool
  rd_opened :: nat
  rd_closed :: nat

definition redis_start :: "redis_dependency \<Rightarrow> redis_dependency" where
  "redis_start r = (if rd_client r then r else r\<lparr>rd_client := True, rd_opened := Suc (rd_opened r)\<rparr>)"

definition redis_ping :: "redis_dependency \<Rightarrow> 'e + bool \<Rightarrow> bool" where
  "redis_ping r answer = (rd_client r \<and> (case answer of Inl _ \<Rightarrow> False | Inr b \<Rightarrow> b))"

definition redis_close :: "'e option \<Rightarrow> redis_dependency \<Rightarrow> ('e + unit) \<times> redis_dependency" where
  "redis_close fault r = (if \<not> rd_client r then (Inr (), r)
     else (case fault of None \<Rightarrow> Inr () | Some e \<Rightarrow> Inl e, r\<lparr>rd_client := False, rd_closed := Suc (rd_closed r)\<rparr>))"

definition probe_database :: "'e + unit \<Rightarrow> bool" where
  "probe_database answer = (case answer of Inl _ \<Rightarrow> False | Inr _ \<Rightarrow> True)"

subsection \<open>Provider readiness (infrastructure/search/readiness.py)\<close>

text \<open>The answer to \<open>GET /healthz\<close>: a transport failure, or a status and the chunks of a body that may break off.\<close>

datatype healthz = HealthzHttpError | HealthzOther | Healthz int "nat list" "bool option"

fun healthz_size :: "int \<Rightarrow> nat list \<Rightarrow> bool" where
  "healthz_size acc [] = True"
| "healthz_size acc (c # cs) = (if acc + int c > 1024 then False else healthz_size (acc + int c) cs)"

text \<open>The last component says how the body broke off, if it did: with an \<open>httpx.HTTPError\<close> or with another exception.\<close>

definition healthz_check :: "healthz \<Rightarrow> unit + Availability" where
  "healthz_check answer = (case answer of
     HealthzHttpError \<Rightarrow> Inr AV_UNAVAILABLE
   | HealthzOther \<Rightarrow> Inl ()
   | Healthz status chunks broken \<Rightarrow>
       if status \<noteq> 200 then Inr AV_UNAVAILABLE
       else if \<not> healthz_size 0 chunks then Inr AV_UNAVAILABLE
       else (case broken of None \<Rightarrow> Inr AV_READY | Some http \<Rightarrow> if http then Inr AV_UNAVAILABLE else Inl ()))"

definition searxng_check :: "SearxngSettings \<Rightarrow> unit + Availability \<Rightarrow> healthz \<Rightarrow> unit + Availability" where
  "searxng_check s admission answer = (if \<not> sx_enabled s then Inr AV_UNAVAILABLE
     else res_bind admission (\<lambda>a. if a \<noteq> AV_READY then Inr AV_UNAVAILABLE else healthz_check answer))"

definition yandex_check :: "YandexSearchSettings \<Rightarrow> unit + Availability \<Rightarrow> unit + bool \<Rightarrow> unit + Availability" where
  "yandex_check s admission usage_ready = (if \<not> yx_enabled s then Inr AV_UNAVAILABLE
     else if yx_folder_id s = None \<or> yx_api_key s = None then Inr AV_UNAVAILABLE
     else res_bind admission (\<lambda>a. res_bind usage_ready (\<lambda>u.
       Inr (if a = AV_READY \<and> u then AV_READY else AV_UNAVAILABLE))))"

subsection \<open>Discovery (application/search/readiness.py)\<close>

record PublicProviderCapabilities =
  pu_pagination :: bool
  pu_language :: bool
  pu_region :: bool
  pu_safe_search :: bool
  pu_time_range :: bool

record SearchProviderDiscovery =
  sd_provider_id :: SearchProviderId
  sd_name :: string
  sd_enabled :: bool
  sd_billable :: bool
  sd_capabilities :: PublicProviderCapabilities
  sd_readiness :: Availability

record readiness_service =
  rs_providers :: provider_registry
  rs_probes :: "SearchProviderId list"

definition make_readiness_service :: "provider_registry \<Rightarrow> SearchProviderId list \<Rightarrow> readiness_service option" where
  "make_readiness_service providers probes = (if \<not> distinct probes then None
     else Some \<lparr>rs_providers = providers, rs_probes = probes\<rparr>)"

text \<open>\<open>except Exception\<close>: a failing probe makes its provider unavailable.\<close>

definition provider_readiness :: "readiness_service \<Rightarrow> (SearchProviderId \<Rightarrow> unit + Availability) \<Rightarrow> ProviderDescriptor \<Rightarrow> Availability" where
  "provider_readiness rs check d = (if \<not> pd_enabled d \<or> pd_provider_id d \<notin> set (rs_probes rs) then AV_UNAVAILABLE
     else case check (pd_provider_id d) of Inl _ \<Rightarrow> AV_UNAVAILABLE | Inr a \<Rightarrow> a)"

definition discovered :: "readiness_service \<Rightarrow> (SearchProviderId \<Rightarrow> unit + Availability) \<Rightarrow> ProviderDescriptor \<Rightarrow> SearchProviderDiscovery" where
  "discovered rs check d = \<lparr>sd_provider_id = pd_provider_id d, sd_name = pd_name d, sd_enabled = pd_enabled d, sd_billable = billable d,
     sd_capabilities = \<lparr>pu_pagination = pc_pagination (pd_capabilities d), pu_language = pc_language (pd_capabilities d),
       pu_region = pc_region (pd_capabilities d), pu_safe_search = pc_safe_search (pd_capabilities d),
       pu_time_range = pc_time_range (pd_capabilities d)\<rparr>,
     sd_readiness = provider_readiness rs check d\<rparr>"

definition discover :: "readiness_service \<Rightarrow> (SearchProviderId \<Rightarrow> unit + Availability) \<Rightarrow> ExecutionContext
    \<Rightarrow> AuthenticationFailure + SearchProviderDiscovery list OperationResult" where
  "discover rs check cx = res_bind (require_scope (cx_principal cx) ''search:read'') (\<lambda>_.
     Inr \<lparr>or_operation_id = cx_operation_id cx, or_outcome = OO_SUCCEEDED,
       or_data = Some (map (discovered rs check) (pr_providers (rs_providers rs))), or_error = None, or_warnings = [], or_hints = []\<rparr>)"

end
