(* ===== verification/Content_Csv.thy ===== *)
theory Content_Csv
  imports Content_Html
begin

section \<open>The CSV parser\<close>

text \<open>
  \<open>infrastructure/content/parsers/csv_parser.py\<close> over the reader of Python's \<open>csv\<close> module: its state machine on the characters
  of each line and on the end of line, for dialects without an escape character, as \<open>csv.excel\<close> and those the sniffer
  makes are. Which dialect \<open>csv.Sniffer\<close> finds in a sample is an argument, \<open>None\<close> its \<open>csv.Error\<close>.
\<close>

subsection \<open>The reader of the csv module\<close>

record csv_dialect =
  cd_delimiter :: codepoint
  cd_quotechar :: codepoint
  cd_doublequote :: bool
  cd_skipinitialspace :: bool

definition csv_excel :: csv_dialect where
  "csv_excel = \<lparr>cd_delimiter = 44, cd_quotechar = 34, cd_doublequote = True, cd_skipinitialspace = False\<rparr>"

datatype csv_state = StartRecord | StartField | InField | InQuotedField | QuoteInQuotedField | EatCrnl

text \<open>The field under construction is held in reverse.\<close>

record csv_reader =
  cv_state :: csv_state
  cv_field :: ustr
  cv_fields :: "ustr list"

definition csv_fresh :: csv_reader where
  "csv_fresh = \<lparr>cv_state = StartRecord, cv_field = [], cv_fields = []\<rparr>"

definition csv_field_limit :: nat where
  "csv_field_limit = 131072"

definition csv_add :: "csv_state \<Rightarrow> codepoint \<Rightarrow> csv_reader \<Rightarrow> csv_reader option" where
  "csv_add st c r = (if csv_field_limit \<le> length (cv_field r) then None else Some (r\<lparr>cv_field := c # cv_field r, cv_state := st\<rparr>))"

definition csv_save :: "csv_state \<Rightarrow> csv_reader \<Rightarrow> csv_reader" where
  "csv_save st r = \<lparr>cv_state = st, cv_field = [], cv_fields = cv_fields r @ [rev (cv_field r)]\<rparr>"

text \<open>\<open>None\<close> stands for the end of a line; it and the line break characters end a field.\<close>

definition csv_ends :: "codepoint option \<Rightarrow> csv_state option" where
  "csv_ends c = (case c of None \<Rightarrow> Some StartRecord | Some x \<Rightarrow> if x = 10 \<or> x = 13 then Some EatCrnl else None)"

definition csv_start_field :: "csv_dialect \<Rightarrow> csv_reader \<Rightarrow> codepoint option \<Rightarrow> csv_reader option" where
  "csv_start_field d r c = (case csv_ends c of Some st \<Rightarrow> Some (csv_save st r)
     | None \<Rightarrow> if the c = cd_quotechar d then Some (r\<lparr>cv_state := InQuotedField\<rparr>)
         else if the c = 32 \<and> cd_skipinitialspace d then Some (r\<lparr>cv_state := StartField\<rparr>)
         else if the c = cd_delimiter d then Some (csv_save StartField r)
         else csv_add InField (the c) r)"

definition csv_char :: "csv_dialect \<Rightarrow> csv_reader \<Rightarrow> codepoint option \<Rightarrow> csv_reader option" where
  "csv_char d r c = (case cv_state r of
     StartRecord \<Rightarrow> (case csv_ends c of Some st \<Rightarrow> Some (r\<lparr>cv_state := st\<rparr>) | None \<Rightarrow> csv_start_field d r c)
   | StartField \<Rightarrow> csv_start_field d r c
   | InField \<Rightarrow> (case csv_ends c of Some st \<Rightarrow> Some (csv_save st r)
       | None \<Rightarrow> if the c = cd_delimiter d then Some (csv_save StartField r) else csv_add InField (the c) r)
   | InQuotedField \<Rightarrow> (case c of None \<Rightarrow> Some r
       | Some x \<Rightarrow> if x = cd_quotechar d then Some (r\<lparr>cv_state := if cd_doublequote d then QuoteInQuotedField else InField\<rparr>)
           else csv_add InQuotedField x r)
   | QuoteInQuotedField \<Rightarrow> if c = Some (cd_quotechar d) then csv_add InQuotedField (the c) r
       else if c = Some (cd_delimiter d) then Some (csv_save StartField r)
       else (case csv_ends c of Some st \<Rightarrow> Some (csv_save st r) | None \<Rightarrow> csv_add InField (the c) r)
   | EatCrnl \<Rightarrow> (case c of None \<Rightarrow> Some (r\<lparr>cv_state := StartRecord\<rparr>) | Some x \<Rightarrow> if x = 10 \<or> x = 13 then Some r else None))"

fun csv_line :: "csv_dialect \<Rightarrow> csv_reader \<Rightarrow> ustr \<Rightarrow> csv_reader option" where
  "csv_line d r [] = csv_char d r None"
| "csv_line d r (c # cs) = Option.bind (csv_char d r (Some c)) (\<lambda>r. csv_line d r cs)"

text \<open>The lines of a \<open>StringIO\<close>, each with its line feed.\<close>

fun text_lines :: "ustr \<Rightarrow> ustr list" where
  "text_lines [] = []"
| "text_lines (c # cs) = (if c = 10 then [c] # text_lines cs else case text_lines cs of [] \<Rightarrow> [[c]] | l # ls \<Rightarrow> (c # l) # ls)"

text \<open>The next record and the lines left: \<open>Inl\<close> is a \<open>csv.Error\<close>, \<open>Inr None\<close> the end.\<close>

fun csv_record :: "csv_dialect \<Rightarrow> csv_reader \<Rightarrow> ustr list \<Rightarrow> unit + (ustr list \<times> ustr list) option" where
  "csv_record d r [] = Inr (if cv_field r \<noteq> [] \<or> cv_state r = InQuotedField then Some (cv_fields (csv_save StartRecord r), []) else None)"
| "csv_record d r (l # ls) = (case csv_line d r l of None \<Rightarrow> Inl ()
     | Some r \<Rightarrow> if cv_state r = StartRecord then Inr (Some (cv_fields r, ls)) else csv_record d r ls)"

lemma csv_record_suffix: "csv_record d r ls = Inr (Some (row, rest)) \<Longrightarrow> length rest < length ls \<or> rest = []"
proof (induction ls arbitrary: r)
  case (Cons l ls)
  then show ?case by (auto split: option.split_asm if_split_asm) fastforce
qed (auto split: if_split_asm)

lemma csv_record_shorter: "csv_record d csv_fresh ls = Inr (Some (row, rest)) \<Longrightarrow> length rest < length ls"
  using csv_record_suffix [of d csv_fresh ls row rest] by (cases ls) (auto simp: csv_fresh_def)

subsection \<open>The parser (csv\_parser.py)\<close>

text \<open>The loop over \<open>enumerate(csv.reader(...))\<close>: the rows kept, and whether there were more.\<close>

function csv_rows :: "ParserSettings \<Rightarrow> csv_dialect \<Rightarrow> int \<Rightarrow> ustr list \<Rightarrow> content_exc + (ustr list list \<times> bool)" where
  "csv_rows s d i ls = (case csv_record d csv_fresh ls of
     Inl _ \<Rightarrow> Inl native_parse_failed
   | Inr None \<Rightarrow> Inr ([], False)
   | Inr (Some (row, rest)) \<Rightarrow>
       if pa_csv_max_rows s \<le> i then Inr ([], True)
       else if pa_csv_max_columns s < int (length row) then Inl native_parse_failed
       else if list_ex (\<lambda>cell. pa_csv_max_cell_chars s < int (length cell)) row then Inl native_parse_failed
       else res_bind (csv_rows s d (i + 1) rest) (\<lambda>(rows, truncated). Inr (row # rows, truncated)))"
  by pat_completeness auto
termination
  by (relation "measure (\<lambda>(s, d, i, ls). length ls)") (auto dest: csv_record_shorter)

declare csv_rows.simps [simp del]

definition csv_document :: "csv_dialect \<Rightarrow> ustr list list \<Rightarrow> bool \<Rightarrow> json" where
  "csv_document d rows truncated = JObj [(cps ''schema_revision'', JStr (cps ''content-csv-v1'')), (cps ''delimiter'', JStr [cd_delimiter d]),
     (cps ''rows'', JArr (map (\<lambda>row. JArr (map JStr row)) rows)), (cps ''truncated'', JBool truncated)]"

definition select_dialect :: "(ustr \<Rightarrow> csv_dialect option) \<Rightarrow> ustr \<Rightarrow> csv_dialect \<times> Warning list" where
  "select_dialect sniff sample = (case sniff sample of Some d \<Rightarrow> (d, []) | None \<Rightarrow> (csv_excel, [warning ''csv_dialect_ambiguous'']))"

definition parse_csv ::
  "parser_lib \<Rightarrow> (ustr \<Rightarrow> csv_dialect option) \<Rightarrow> ParserSettings \<Rightarrow> ContentInspection \<Rightarrow> bytes \<Rightarrow> content_exc + NativeParserOutput" where
  "parse_csv lib sniff s insp data = res_bind (require_input_bound data (pa_inline_max_input_bytes s)) (\<lambda>_.
     case nl_codec lib (or_default (in_encoding insp) ''utf-8-sig'') data of
       Inl _ \<Rightarrow> Inl native_parse_failed
     | Inr t \<Rightarrow> (case select_dialect sniff (take (nat (pa_csv_sample_chars s)) t) of (d, warnings) \<Rightarrow>
         res_bind (csv_rows s d 0 (text_lines t)) (\<lambda>(rows, truncated).
         res_bind (bounded_json_bytes (nl_float lib) (csv_document d rows truncated) (pa_inline_max_output_bytes s)) (\<lambda>encoded.
           Inr \<lparr>po_representations = [structured ''content-csv-v1'' encoded], po_warnings = warnings, po_hints = []\<rparr>))))"

section \<open>Reading back a written table\<close>

text \<open>A table written with every cell quoted.\<close>

definition quote_char :: "csv_dialect \<Rightarrow> codepoint \<Rightarrow> ustr" where
  "quote_char d c = (if c = cd_quotechar d then [c, c] else [c])"

definition render_cell :: "csv_dialect \<Rightarrow> ustr \<Rightarrow> ustr" where
  "render_cell d cell = [cd_quotechar d] @ concat (map (quote_char d) cell) @ [cd_quotechar d]"

definition render_row :: "csv_dialect \<Rightarrow> ustr list \<Rightarrow> ustr" where
  "render_row d row = join [cd_delimiter d] (map (render_cell d) row) @ [10]"

definition dialect_plain :: "csv_dialect \<Rightarrow> bool" where
  "dialect_plain d \<longleftrightarrow> cd_doublequote d \<and> cd_quotechar d \<noteq> cd_delimiter d \<and> cd_quotechar d \<notin> {10, 13} \<and> cd_delimiter d \<notin> {10, 13}"

definition cell_plain :: "ustr \<Rightarrow> bool" where
  "cell_plain cell \<longleftrightarrow> 10 \<notin> set cell \<and> length cell \<le> csv_field_limit"

lemma csv_quoted_content:
  assumes "dialect_plain d"
  shows "length f + length cell \<le> csv_field_limit \<Longrightarrow>
    csv_line d \<lparr>cv_state = InQuotedField, cv_field = f, cv_fields = fs\<rparr> (concat (map (quote_char d) cell) @ rest)
     = csv_line d \<lparr>cv_state = InQuotedField, cv_field = rev cell @ f, cv_fields = fs\<rparr> rest"
proof (induction cell arbitrary: f)
  case (Cons c cell)
  have "\<not> csv_field_limit \<le> length f" using Cons.prems by simp
  then have "csv_line d \<lparr>cv_state = InQuotedField, cv_field = f, cv_fields = fs\<rparr> (quote_char d c @ r)
      = csv_line d \<lparr>cv_state = InQuotedField, cv_field = c # f, cv_fields = fs\<rparr> r" for r
    using assms by (simp add: quote_char_def csv_char_def csv_add_def dialect_plain_def)
  from this [of "concat (map (quote_char d) cell) @ rest"] show ?case using Cons.IH [of "c # f"] Cons.prems by simp
qed simp

lemma csv_cell:
  assumes "dialect_plain d" "cell_plain cell" "st \<in> {StartRecord, StartField}"
  shows "csv_line d \<lparr>cv_state = st, cv_field = [], cv_fields = fs\<rparr> (render_cell d cell @ rest)
     = csv_line d \<lparr>cv_state = QuoteInQuotedField, cv_field = rev cell, cv_fields = fs\<rparr> rest"
proof -
  have "csv_char d \<lparr>cv_state = st, cv_field = [], cv_fields = fs\<rparr> (Some (cd_quotechar d))
      = Some \<lparr>cv_state = InQuotedField, cv_field = [], cv_fields = fs\<rparr>"
    using assms(1, 3) by (auto simp: csv_char_def csv_ends_def csv_start_field_def dialect_plain_def)
  then show ?thesis using csv_quoted_content [OF assms(1), of "[]" cell fs "cd_quotechar d # rest"] assms
    by (simp add: render_cell_def cell_plain_def csv_char_def dialect_plain_def)
qed

lemma csv_row:
  assumes "dialect_plain d"
  shows "cells \<noteq> [] \<Longrightarrow> list_all cell_plain cells \<Longrightarrow> st \<in> {StartRecord, StartField} \<Longrightarrow>
    csv_line d \<lparr>cv_state = st, cv_field = [], cv_fields = fs\<rparr> (render_row d cells)
     = Some \<lparr>cv_state = StartRecord, cv_field = [], cv_fields = fs @ cells\<rparr>"
proof (induction cells arbitrary: fs st)
  case (Cons cell cells)
  have quoted: "csv_line d \<lparr>cv_state = st, cv_field = [], cv_fields = fs\<rparr> (render_cell d cell @ rest)
     = csv_line d \<lparr>cv_state = QuoteInQuotedField, cv_field = rev cell, cv_fields = fs\<rparr> rest" for rest
    using csv_cell [OF assms, of cell st fs rest] Cons.prems by simp
  show ?case
  proof (cases "cells = []")
    case True
    then show ?thesis using quoted [of "[10]"] assms
      by (simp add: render_row_def dialect_plain_def csv_char_def csv_ends_def csv_save_def)
  next
    case False
    then have "render_row d (cell # cells) = render_cell d cell @ cd_delimiter d # render_row d cells"
      by (cases cells) (simp_all add: render_row_def)
    then show ?thesis using quoted [of "cd_delimiter d # render_row d cells"] assms Cons.IH [OF False, of StartField "fs @ [cell]"] Cons.prems
      by (simp add: dialect_plain_def csv_char_def csv_save_def)
  qed
qed simp

lemma text_lines_line: "10 \<notin> set l \<Longrightarrow> text_lines (l @ 10 # rest) = (l @ [10]) # text_lines rest"
  by (induction l) auto

lemma render_row_line:
  assumes "dialect_plain d" "list_all cell_plain row"
  obtains l where "render_row d row = l @ [10]" "10 \<notin> set l"
proof -
  have "10 \<notin> set (render_cell d cell)" if "cell_plain cell" for cell
    using that assms(1) by (auto simp: render_cell_def quote_char_def cell_plain_def dialect_plain_def split: if_splits)
  then have "10 \<notin> set (join [cd_delimiter d] (map (render_cell d) row))"
    using assms by (induction row rule: induct_list012) (auto simp: dialect_plain_def)
  then show ?thesis using that by (simp add: render_row_def)
qed

definition row_plain :: "ParserSettings \<Rightarrow> ustr list \<Rightarrow> bool" where
  "row_plain s row \<longleftrightarrow> row \<noteq> [] \<and> int (length row) \<le> pa_csv_max_columns s \<and> list_all cell_plain row
     \<and> list_all (\<lambda>cell. int (length cell) \<le> pa_csv_max_cell_chars s) row"

lemma csv_rows_rendered:
  assumes "dialect_plain d"
  shows "list_all (row_plain s) rows \<Longrightarrow> i \<le> pa_csv_max_rows s \<Longrightarrow>
    csv_rows s d i (text_lines (concat (map (render_row d) rows)))
      = Inr (take (nat (pa_csv_max_rows s - i)) rows, pa_csv_max_rows s - i < int (length rows))"
proof (induction rows arbitrary: i)
  case Nil
  then show ?case by (subst csv_rows.simps) (simp add: csv_fresh_def)
next
  case (Cons row rows)
  have row: "row \<noteq> []" "list_all cell_plain row" "\<not> pa_csv_max_columns s < int (length row)"
      "\<not> list_ex (\<lambda>cell. pa_csv_max_cell_chars s < int (length cell)) row"
    using Cons.prems(1) by (auto simp: row_plain_def list_all_iff list_ex_iff not_less)
  obtain l where l: "render_row d row = l @ [10]" "10 \<notin> set l" by (rule render_row_line [OF assms row(2)])
  have lines: "text_lines (concat (map (render_row d) (row # rows))) = render_row d row # text_lines (concat (map (render_row d) rows))"
    using text_lines_line [OF l(2)] l(1) by simp
  have "csv_line d csv_fresh (render_row d row) = Some \<lparr>cv_state = StartRecord, cv_field = [], cv_fields = row\<rparr>"
    using csv_row [OF assms row(1, 2), of StartRecord "[]"] by (simp add: csv_fresh_def)
  then have rec: "csv_record d csv_fresh (render_row d row # ls) = Inr (Some (row, ls))" for ls by simp
  show ?case
  proof (cases "pa_csv_max_rows s \<le> i")
    case True
    then show ?thesis unfolding lines using Cons.prems(2) by (subst csv_rows.simps) (simp add: rec del: csv_record.simps)
  next
    case False
    then have "nat (pa_csv_max_rows s - i) = Suc (nat (pa_csv_max_rows s - (i + 1)))" by simp
    then show ?thesis unfolding lines using Cons.IH [of "i + 1"] Cons.prems(1) False row(3, 4)
      by (subst csv_rows.simps) (auto simp: rec simp del: csv_record.simps)
  qed
qed

section \<open>Bounds\<close>

lemma csv_rows_bounded:
  "csv_rows s d i ls = Inr (rows, truncated) \<Longrightarrow> i \<le> pa_csv_max_rows s \<Longrightarrow>
     int (length rows) \<le> pa_csv_max_rows s - i \<and> list_all (\<lambda>row. int (length row) \<le> pa_csv_max_columns s
       \<and> list_all (\<lambda>cell. int (length cell) \<le> pa_csv_max_cell_chars s) row) rows"
proof (induction s d i ls arbitrary: rows truncated rule: csv_rows.induct)
  case (1 s d i ls)
  note run = "1.prems"(1) [unfolded csv_rows.simps [of s d i ls]]
  show ?case
  proof (cases "\<exists>row rest. csv_record d csv_fresh ls = Inr (Some (row, rest)) \<and> \<not> pa_csv_max_rows s \<le> i")
    case False
    then have "rows = []" using run by (auto split: sum.split_asm option.split_asm prod.split_asm if_split_asm)
    then show ?thesis using "1.prems"(2) by simp
  next
    case True
    then obtain row rest where row: "csv_record d csv_fresh ls = Inr (Some (row, rest))" "\<not> pa_csv_max_rows s \<le> i" by blast
    then obtain rows' where r: "csv_rows s d (i + 1) rest = Inr (rows', truncated)" "rows = row # rows'"
        "\<not> pa_csv_max_columns s < int (length row)" "\<not> list_ex (\<lambda>cell. pa_csv_max_cell_chars s < int (length cell)) row"
      using run by (auto simp: res_bind_Inr split: if_split_asm)
    have "int (length rows') \<le> pa_csv_max_rows s - (i + 1) \<and> list_all (\<lambda>row. int (length row) \<le> pa_csv_max_columns s
       \<and> list_all (\<lambda>cell. int (length cell) \<le> pa_csv_max_cell_chars s) row) rows'"
      using "1.IH" [OF row(1) refl refl row(2) r(3, 4, 1)] row(2) by simp
    then show ?thesis using r(2-4) by (auto simp: list_all_iff list_ex_iff not_less)
  qed
qed

lemma parse_csv_bounded:
  assumes "parse_csv lib sniff s insp data = Inr out"
  shows "int (length data) \<le> pa_inline_max_input_bytes s \<and> native_parser_output_ok out
    \<and> list_all (representation_bounded (pa_inline_max_output_bytes s)) (po_representations out)"
  using assms
  by (auto simp: parse_csv_def res_bind_Inr require_input_bound_Inr native_parser_output_ok_def structured_def representation_bounded_def
      select_dialect_def split: sum.split_asm option.split_asm prod.split_asm dest!: bounded_json_bytes_Inr)

section \<open>Properties\<close>

text \<open>C27: Native parsing is bounded. Whatever the page or document, and whatever the libraries return, a JSON, XML, text, HTML
  or CSV parser under valid settings that succeeds was given at most the input limit and answers with one to eight
  representations of distinct kinds, each of at most the output limit and each valid UTF-8 (a main text that had to be cut is
  cut between characters), and with at most sixteen warnings and hints.\<close>

theorem native_parsers_bounded:
  assumes "parser_settings_ok s"
    and "parse_json lib s insp data = Inr out \<or> parse_xml_document lib s data = Inr out \<or> parse_text lib s insp data = Inr out
      \<or> parse_html hlib s insp data = Inr out \<or> parse_csv lib sniff s insp data = Inr out"
  shows "int (length data) \<le> pa_inline_max_input_bytes s \<and> native_parser_output_ok out
    \<and> (\<forall>r \<in> set (po_representations out). int (length (pp_data r)) \<le> pa_inline_max_output_bytes s
        \<and> (\<exists>t. list_all scalar_value t \<and> pp_data r = utf8_encode t))"
proof -
  have "0 \<le> pa_inline_max_output_bytes s" using assms(1) by (simp add: parser_settings_ok_def)
  then have "int (length data) \<le> pa_inline_max_input_bytes s \<and> native_parser_output_ok out
    \<and> list_all (representation_bounded (pa_inline_max_output_bytes s)) (po_representations out)"
    using assms(2) parse_json_bounded parse_xml_document_bounded parse_text_bounded parse_html_bounded parse_csv_bounded by metis
  then show ?thesis unfolding representation_bounded_def list_all_iff by blast
qed

theorem native_parsers_bounded_witness:
  "\<exists>out. parse_html demo_html_lib parser_defaults demo_inspection (cps ''<p>'') = Inr out \<and> native_parser_output_ok out"
proof -
  have "\<exists>out. parse_html demo_html_lib parser_defaults demo_inspection (cps ''<p>'') = Inr out"
    by (simp add: parse_html_def demo_html_lib_def demo_page_def demo_inspection_def parser_defaults_def require_input_bound_def Let_def
        is_script_shell_def or_default_def main_representation_def extract_structure_def first_text_def first_attribute_def
        bounded_text_def strip_by_def uni_space_def cps_def encode_text_def scalar_value_def utf8_encode_def encode_cp_def
        bounded_json_bytes_def dump_str_def escape_cp_def str_of_int_def dec_digits.simps)
  then obtain out where out: "parse_html demo_html_lib parser_defaults demo_inspection (cps ''<p>'') = Inr out" by blast
  then show ?thesis using native_parsers_bounded [OF parser_defaults_ok] by blast
qed

text \<open>A written CSV table is read back exactly. For a dialect with doubled quotes and any table within the column and cell limits whose cells
  have no line feed, the text with every cell quoted is parsed to the document of exactly those cells, whatever quotes,
  delimiters, spaces or carriage returns they hold: of all rows, or of the first ones up to the row limit and then marked as
  truncated; the published bytes read back as that document, and only its size can refuse it.\<close>

theorem csv_table_exact:
  assumes "int (length data) \<le> pa_inline_max_input_bytes s"
    and "nl_codec lib (or_default (in_encoding insp) ''utf-8-sig'') data = Inr (concat (map (render_row d) rows))"
    and "select_dialect sniff (take (nat (pa_csv_sample_chars s)) (concat (map (render_row d) rows))) = (d, ws)"
    and "dialect_plain d" "scalar_value (cd_delimiter d)" "list_all (row_plain s) rows" "list_all (list_all (list_all scalar_value)) rows"
    and "0 \<le> pa_csv_max_rows s"
  shows "let v = json_sorted (csv_document d (take (nat (pa_csv_max_rows s)) rows) (pa_csv_max_rows s < int (length rows)));
      b = utf8_encode (json_dumps v)
    in (if int (length b) > pa_inline_max_output_bytes s then parse_csv lib sniff s insp data = Inl parser_output_limit
        else \<exists>out. parse_csv lib sniff s insp data = Inr out \<and> map pp_data (po_representations out) = [b] \<and> po_warnings out = ws)
      \<and> utf8_decode b = Some (json_dumps v) \<and> json_loads (json_dumps v) = Inr v"
proof -
  define doc where "doc = csv_document d (take (nat (pa_csv_max_rows s)) rows) (pa_csv_max_rows s < int (length rows))"
  have scalars: "list_all (list_all (list_all scalar_value)) (take n rows)" for n using assms(7) by (auto simp: list_all_iff dest: in_set_takeD)
  have "distinct [cps ''schema_revision'', cps ''delimiter'', cps ''rows'', cps ''truncated'']" by code_simp
  then have doc: "json_plain doc" "json_scalar doc"
    using assms(5) scalars by (auto simp: doc_def csv_document_def list_all_iff cps_scalar [unfolded list_all_iff])
  have "csv_rows s d 0 (text_lines (concat (map (render_row d) rows)))
      = Inr (take (nat (pa_csv_max_rows s)) rows, pa_csv_max_rows s < int (length rows))"
    using csv_rows_rendered [OF assms(4, 6, 8)] by simp
  then have run: "parse_csv lib sniff s insp data = (let b = utf8_encode (json_dumps (json_sorted doc)) in
      if int (length b) > pa_inline_max_output_bytes s then Inl parser_output_limit
      else Inr \<lparr>po_representations = [structured ''content-csv-v1'' b], po_warnings = ws, po_hints = []\<rparr>)"
    using assms(1-3) bounded_json_plain [OF doc] by (simp add: parse_csv_def require_input_bound_def doc_def Let_def)
  have "utf8_decode (utf8_encode (json_dumps (json_sorted doc))) = Some (json_dumps (json_sorted doc))"
      "json_loads (json_dumps (json_sorted doc)) = Inr (json_sorted doc)"
    using utf8_decode_encode [OF json_dumps_scalar [OF json_sorted_plain [OF doc(1)] json_sorted_scalar [OF doc(2)]]]
      json_roundtrip [OF json_sorted_plain [OF doc(1)]] by simp_all
  then show ?thesis unfolding doc_def [symmetric] Let_def run by (simp add: structured_def)
qed

theorem csv_table_exact_witness:
  "\<exists>out b. parse_csv demo_parser_lib (\<lambda>_. None) parser_defaults demo_inspection (utf8_encode (render_row csv_excel [cps ''a,b'', []]))
      = Inr out \<and> map pp_data (po_representations out) = [b] \<and> po_warnings out = [warning ''csv_dialect_ambiguous'']"
proof -
  let ?rows = "[[cps ''a,b'', []]] :: ustr list list"
  have plain: "dialect_plain csv_excel" "scalar_value (cd_delimiter csv_excel)" by (simp_all add: dialect_plain_def csv_excel_def scalar_value_def)
  have rows: "list_all (row_plain parser_defaults) ?rows" "list_all (list_all (list_all scalar_value)) ?rows"
    by (simp_all add: row_plain_def cell_plain_def parser_defaults_def csv_field_limit_def cps_def scalar_value_def)
  have chars: "list_all scalar_value (concat (map (render_row csv_excel) ?rows))"
    by (simp add: render_row_def render_cell_def quote_char_def csv_excel_def cps_def scalar_value_def)
  define data where "data = utf8_encode (concat (map (render_row csv_excel) ?rows))"
  have "length data = 9"
    by (simp add: data_def render_row_def render_cell_def quote_char_def csv_excel_def cps_def utf8_encode_def encode_cp_def)
  then have small: "int (length data) \<le> pa_inline_max_input_bytes parser_defaults" by (simp add: parser_defaults_def)
  have codec: "nl_codec demo_parser_lib (or_default (in_encoding demo_inspection) ''utf-8-sig'') data = Inr (concat (map (render_row csv_excel) ?rows))"
    using utf8_decode_encode [OF chars] by (simp add: demo_parser_lib_def data_def)
  have dialect: "select_dialect (\<lambda>_. None) (take (nat (pa_csv_sample_chars parser_defaults)) (concat (map (render_row csv_excel) ?rows)))
      = (csv_excel, [warning ''csv_dialect_ambiguous''])" by (simp add: select_dialect_def)
  have max: "pa_csv_max_rows parser_defaults = 10000" "pa_inline_max_output_bytes parser_defaults = 8388608" by (simp_all add: parser_defaults_def)
  then have "0 \<le> pa_csv_max_rows parser_defaults" by simp
  note exact = csv_table_exact [OF small codec dialect plain rows \<open>0 \<le> pa_csv_max_rows parser_defaults\<close>]
  have "take (nat (pa_csv_max_rows parser_defaults)) ?rows = ?rows" "\<not> pa_csv_max_rows parser_defaults < int (length ?rows)" using max by simp_all
  note exact = exact [unfolded this if_False]
  have "length (utf8_encode (json_dumps (json_sorted (csv_document csv_excel ?rows (pa_csv_max_rows parser_defaults < int (length ?rows)))))) \<le> 100" by code_simp
  then have "\<exists>out. parse_csv demo_parser_lib (\<lambda>_. None) parser_defaults demo_inspection data = Inr out
      \<and> (\<exists>b. map pp_data (po_representations out) = [b]) \<and> po_warnings out = [warning ''csv_dialect_ambiguous'']"
    using exact max(2) by (auto simp: Let_def)
  then show ?thesis by (simp add: data_def)
qed

end
