(* ===== verification/Runtime.thy ===== *)
theory Runtime
  imports Configuration Health Search_Cache Retrieval_Service Content_Cursor Content_Csv Content_Identifier Parser_Isolation
begin

section \<open>The composition root\<close>

text \<open>
  \<open>bootstrap/lifespan.py\<close>: the components built from the settings, in the order of the code, and the life of the process from
  the first start to the last close. The constructors that can refuse their arguments are the models of their
  components; engines and HTTP clients are only recorded as owned dependencies. Every awaited start and close may fail.
\<close>

subsection \<open>Building\<close>

record wire_env =
  wi_codec :: "string \<Rightarrow> bytes \<Rightarrow> ustr option"
  wi_identifier :: identifier_lib
  wi_parsers :: parser_lib
  wi_html :: html_lib
  wi_sniff :: "ustr \<Rightarrow> csv_dialect option"
  wi_isolated :: "string \<Rightarrow> bytes \<Rightarrow> (string \<times> int) list \<Rightarrow> content_exc + NativeParserOutput"
  wi_json_size :: "ContentInspection \<Rightarrow> int"
  wi_canonical :: "SearchProviderId \<Rightarrow> ustr"
  wi_ports :: search_ports

datatype build_error = BuildParsers | BuildCursor | BuildContent | BuildAuth | BuildHealth
  | BuildProviders | BuildRegions | BuildConcurrency | BuildFlight | BuildPolicy | BuildReadiness

definition wired :: "'e \<Rightarrow> 'a option \<Rightarrow> 'e + 'a" where
  "wired e v = (case v of None \<Rightarrow> Inl e | Some x \<Rightarrow> Inr x)"

definition parser_descriptors :: "ParserDescriptor list" where
  "parser_descriptors = [text_descriptor, html_descriptor, json_descriptor, xml_descriptor, csv_descriptor, pdf_descriptor]"

text \<open>\<open>InlineNativeParserExecutor\<close>: the \<open>parse\<close> of the registered parser; the one for PDF always raises.\<close>

definition inline_parse :: "wire_env \<Rightarrow> ParserSettings \<Rightarrow> string \<Rightarrow> ContentInspection \<Rightarrow> bytes \<Rightarrow> content_exc + NativeParserOutput" where
  "inline_parse env s capability insp data =
     (if capability = ''text'' then parse_text (wi_parsers env) s insp data
      else if capability = ''html'' then parse_html (wi_html env) s insp data
      else if capability = ''json'' then parse_json (wi_parsers env) s insp data
      else if capability = ''xml'' then parse_xml_document (wi_parsers env) s data
      else if capability = ''csv'' then parse_csv (wi_parsers env) (wi_sniff env) s insp data
      else Inl native_parse_failed)"

definition development_cursor_secret :: ustr where
  "development_cursor_secret = cps ''development-only-content-cursor-secret''"

definition cursor_secret :: "Settings \<Rightarrow> bytes" where
  "cursor_secret s = utf8_encode (case se_content_cursor_hmac_secret (st_security s) of None \<Rightarrow> development_cursor_secret | Some t \<Rightarrow> t)"

definition content_service_of ::
  "wire_env \<Rightarrow> Settings \<Rightarrow> ParserDescriptor list \<Rightarrow> (ContentCursorClaims \<Rightarrow> string) \<times> (string \<Rightarrow> ContentCursorClaims option) \<Rightarrow> content_service" where
  "content_service_of env s parsers codec = \<lparr>
     sv_identifier = Some (identifier_inspect (wi_identifier env) (available_formats parsers)),
     sv_registry = Some (select_parser parsers),
     sv_executor = Some (\<lambda>d source insp data. routing_execute (st_parser s) (inline_parse env (st_parser s)) (wi_isolated env) d insp data),
     sv_codec = Some codec, sv_json_size = wi_json_size env, sv_chunk_size = nat (cts_chunk_size (st_content_store s)),
     sv_inspection_sample_bytes = cts_inspection_sample_bytes (st_content_store s),
     sv_max_inspection_json_bytes = cts_max_inspection_json_bytes (st_content_store s),
     sv_parser_input_bytes = max (pa_inline_max_input_bytes (st_parser s)) (pa_pdf_max_bytes (st_parser s)),
     sv_representation_wait_seconds = pa_representation_wait_seconds (st_parser s),
     sv_representation_poll_seconds = pa_representation_poll_seconds (st_parser s)\<rparr>"

definition health_probes :: "Settings \<Rightarrow> DependencyProbe list" where
  "health_probes s = map (\<lambda>n. \<lparr>dp_name = n, dp_mandatory = n \<in> set (ap_mandatory_dependencies (st_app s))\<rparr>) [''postgres'', ''redis'', ''content_store'']"

record foundation =
  fo_content :: content_service
  fo_retrieval_policy :: url_policy
  fo_auth :: "Credential list"
  fo_health :: HealthService

text \<open>What is built before anything is started.\<close>

definition build_foundation :: "wire_env \<Rightarrow> Settings \<Rightarrow> build_error + foundation" where
  "build_foundation env s =
     res_bind (wired BuildParsers (make_parser_registry parser_descriptors)) (\<lambda>parsers.
     res_bind (wired BuildCursor (cursor_codec (wi_codec env) (cursor_secret s))) (\<lambda>codec.
     let content = content_service_of env s parsers codec in
     if \<not> service_ok content then Inl BuildContent
     else res_bind (wired BuildAuth (static_bearer (as_principals (st_auth s)))) (\<lambda>auth.
       res_bind (wired BuildHealth (make_health (health_probes s))) (\<lambda>health.
         Inr \<lparr>fo_content = content, fo_retrieval_policy = rt_security (st_retrieval s), fo_auth = auth, fo_health = health\<rparr>))))"

definition region_entry_of :: "SearchRegionSettings \<Rightarrow> SearchRegionEntry" where
  "region_entry_of r = \<lparr>re_region_id = sr_region_id r, re_label = sr_label r,
     re_mappings = map (\<lambda>m. \<lparr>rm_provider_id = sp_region_provider_id m, rm_provider_region = sp_provider_region m\<rparr>) (sr_mappings r)\<rparr>"

definition flow_of :: "Settings \<Rightarrow> flow_settings" where
  "flow_of s = \<lparr>fs_namespace = rds_namespace (st_redis s),
     fs_rate_searxng = srl_searxng (ses_rate_limit (st_search s)), fs_rate_yandex = srl_yandex (ses_rate_limit (st_search s)),
     fs_concurrency_searxng = scc_searxng (ses_concurrency (st_search s)), fs_concurrency_yandex = scc_yandex (ses_concurrency (st_search s))\<rparr>"

definition search_policy_of :: "SearchSettings \<Rightarrow> SearchServicePolicy" where
  "search_policy_of s = \<lparr>sp_cache_mode = sch_mode (ses_cache s),
     sp_searxng_cache_ttl_seconds = sch_searxng_ttl_seconds (ses_cache s), sp_yandex_cache_ttl_seconds = sch_yandex_ttl_seconds (ses_cache s),
     sp_searxng_max_attempts = srt_searxng_max_attempts (ses_retry s), sp_yandex_max_attempts = srt_yandex_max_attempts (ses_retry s),
     sp_batch_concurrency = ses_batch_concurrency s, sp_operation_timeout_seconds = ses_operation_timeout_seconds s,
     sp_retry_backoff_seconds = srt_backoff_seconds (ses_retry s), sp_retry_jitter_ratio = srt_jitter_ratio (ses_retry s)\<rparr>"

record search_parts =
  pt_service :: search_service
  pt_rate :: rate_limiter
  pt_concurrency :: "concurrency_limiter \<times> (SearchProviderId \<rightharpoonup> nat)"
  pt_flight :: single_flight
  pt_readiness :: readiness_service

definition build_search :: "wire_env \<Rightarrow> Settings \<Rightarrow> build_error + search_parts" where
  "build_search env s = (let se = st_search s in
     res_bind (map_sum (\<lambda>_. BuildProviders) id (make_provider_registry
       [searxng_descriptor (ses_searxng se) (wi_canonical env SEARXNG), yandex_descriptor (ses_yandex se) (wi_canonical env YANDEX)]
       (ses_default_provider se))) (\<lambda>providers.
     let entries = map region_entry_of (ses_regions se) in
     if \<not> list_all region_entry_ok entries then Inl BuildRegions
     else res_bind (map_sum (\<lambda>_. BuildRegions) id (make_region_registry entries)) (\<lambda>regions.
     res_bind (map_sum (\<lambda>_. BuildConcurrency) id (lifespan_concurrency_limiter (flow_of s))) (\<lambda>concurrency.
     res_bind (map_sum (\<lambda>_. BuildFlight) id (make_single_flight (rds_namespace (st_redis s))
       (of_int (sch_single_flight_ttl_seconds (ses_cache se))) (sch_waiter_poll_seconds (ses_cache se)))) (\<lambda>flight.
     let policy = search_policy_of se in
     if \<not> service_policy_ok policy then Inl BuildPolicy
     else res_bind (wired BuildReadiness (make_readiness_service providers [SEARXNG, YANDEX])) (\<lambda>ready.
       Inr \<lparr>pt_service = \<lparr>ss_providers = providers, ss_regions = regions, ss_policy = policy, ss_usage_configured = True, ss_ports = wi_ports env\<rparr>,
         pt_rate = lifespan_rate_limiter (flow_of s), pt_concurrency = concurrency, pt_flight = flight, pt_readiness = ready\<rparr>)))))) "

subsection \<open>The life of the process\<close>

datatype life_exc = LifeBuild build_error | LifeFault | LifeCancelled

datatype start_step = StoreStart | RedisStart | ParserStart

datatype dependency = RetrievalHttp | YandexHttp | SearxngHttp | RedisClient | DatabaseEngine | Tracing

datatype close_result = CloseOk | CloseFails | CloseTimesOut | CloseCancelled

record lifespan_env =
  le_fault :: "start_step \<Rightarrow> life_exc option"
  le_serving :: "life_exc option"
  le_close :: "dependency \<Rightarrow> close_result"

record life =
  lf_health :: HealthService
  lf_redis :: redis_dependency
  lf_attempted :: "dependency list"
  lf_served :: "HealthService option"

definition start_io :: "lifespan_env \<Rightarrow> start_step \<Rightarrow> (life \<Rightarrow> life) \<Rightarrow> life \<Rightarrow> (life_exc + unit) \<times> life" where
  "start_io le st act w = (case le_fault le st of None \<Rightarrow> (Inr (), act w) | Some e \<Rightarrow> (Inl e, w))"

text \<open>The body of the context manager: starting, the search components, and serving until the end.\<close>

definition run_service :: "wire_env \<Rightarrow> lifespan_env \<Rightarrow> Settings \<Rightarrow> life \<Rightarrow> (life_exc + unit) \<times> life" where
  "run_service env le s w =
     try_seq (start_io le StoreStart id w) (\<lambda>_ w.
     try_seq (start_io le RedisStart (\<lambda>w. w\<lparr>lf_redis := redis_start (lf_redis w)\<rparr>) w) (\<lambda>_ w.
     try_seq (start_io le ParserStart id w) (\<lambda>_ w.
     try_seq (map_sum LifeBuild id (build_search env s), w) (\<lambda>_ w.
     let w = w\<lparr>lf_health := mark_bootstrapped (lf_health w)\<rparr>;
         w = w\<lparr>lf_served := Some (lf_health w)\<rparr>
     in (case le_serving le of None \<Rightarrow> Inr () | Some e \<Rightarrow> Inl e, w)))))"

definition close_order :: "dependency list" where
  "close_order = [RetrievalHttp, YandexHttp, SearxngHttp, RedisClient, DatabaseEngine, Tracing]"

definition close_one :: "lifespan_env \<Rightarrow> dependency \<Rightarrow> life \<Rightarrow> life" where
  "close_one le d w = (let w = w\<lparr>lf_attempted := lf_attempted w @ [d]\<rparr> in
     if d = RedisClient then w\<lparr>lf_redis := snd (redis_close (None :: unit option) (lf_redis w))\<rparr> else w)"

text \<open>A failing close is logged; the shutdown deadline ends the loop, a cancellation leaves it as an exception.\<close>

fun close_all :: "lifespan_env \<Rightarrow> dependency list \<Rightarrow> life \<Rightarrow> (life_exc + unit) \<times> life" where
  "close_all le [] w = (Inr (), w)"
| "close_all le (d # ds) w = (let w = close_one le d w in case le_close le d of
     CloseTimesOut \<Rightarrow> (Inr (), w)
   | CloseCancelled \<Rightarrow> (Inl LifeCancelled, w)
   | _ \<Rightarrow> close_all le ds w)"

definition new_life :: "HealthService \<Rightarrow> life" where
  "new_life h = \<lparr>lf_health = h, lf_redis = \<lparr>rd_client = False, rd_opened = 0, rd_closed = 0\<rparr>, lf_attempted = [], lf_served = None\<rparr>"

definition runtime_lifespan :: "wire_env \<Rightarrow> lifespan_env \<Rightarrow> Settings \<Rightarrow> (life_exc + unit) \<times> life option" where
  "runtime_lifespan env le s = (case build_foundation env s of
     Inl e \<Rightarrow> (Inl (LifeBuild e), None)
   | Inr f \<Rightarrow> (case run_service env le s (new_life (fo_health f)) of (res, w) \<Rightarrow>
       (case close_all le close_order (w\<lparr>lf_health := begin_shutdown (lf_health w)\<rparr>) of
          (Inl e, w) \<Rightarrow> (Inl e, Some w)
        | (Inr _, w) \<Rightarrow> (res, Some w))))"

section \<open>Valid settings build a service\<close>

lemma parser_registry_built: "make_parser_registry parser_descriptors = Some parser_descriptors"
  by (simp add: make_parser_registry_def parser_descriptors_def text_descriptor_def html_descriptor_def json_descriptor_def
      xml_descriptor_def csv_descriptor_def pdf_descriptor_def)

lemma cursor_secret_long:
  assumes "service_security_ok (st_security s)"
  shows "32 \<le> length (cursor_secret s)"
proof (cases "se_content_cursor_hmac_secret (st_security s)")
  case None
  have "length (utf8_encode development_cursor_secret) = 38"
    by (simp add: development_cursor_secret_def cps_def utf8_encode_def encode_cp_def)
  then show ?thesis by (simp add: cursor_secret_def None)
next
  case (Some t)
  then show ?thesis using assms by (simp add: service_security_ok_def cursor_secret_ok_def cursor_secret_def)
qed

lemma content_service_built:
  assumes "content_store_settings_ok (st_content_store s)" "parser_settings_ok (st_parser s)"
  shows "service_ok (content_service_of env s parsers codec)"
  using assms by (simp add: service_ok_def content_service_of_def content_store_settings_ok_def parser_settings_ok_def less_max_iff_disj)

lemma foundation_built:
  assumes "settings_ok s" "as_principals (st_auth s) \<noteq> []"
  obtains f where "build_foundation env s = Inr f" "service_ok (fo_content f)" "fo_retrieval_policy f = rt_security (st_retrieval s)"
    "static_bearer (as_principals (st_auth s)) = Some (fo_auth f)" "make_health (health_probes s) = Some (fo_health f)"
proof -
  obtain codec where codec: "cursor_codec (wi_codec env) (cursor_secret s) = Some codec"
    using cursor_secret_long [of s] assms(1) by (auto simp: settings_ok_def cursor_codec_def)
  obtain auth where auth: "static_bearer (as_principals (st_auth s)) = Some auth" using assms(2) by (simp add: static_bearer_def)
  obtain health where health: "make_health (health_probes s) = Some health" by (simp add: make_health_def health_probes_def)
  have "service_ok (content_service_of env s parser_descriptors codec)"
    using content_service_built assms(1) by (simp add: settings_ok_def)
  moreover define f where "f = \<lparr>fo_content = content_service_of env s parser_descriptors codec,
    fo_retrieval_policy = rt_security (st_retrieval s), fo_auth = auth, fo_health = health\<rparr>"
  ultimately have "build_foundation env s = Inr f"
    by (simp add: build_foundation_def wired_def parser_registry_built codec auth health Let_def)
  then show thesis using that [of f] auth health \<open>service_ok _\<close> by (simp add: f_def)
qed

lemma region_entries_built: "region_settings_ok r \<Longrightarrow> region_entry_ok (region_entry_of r)"
  by (auto simp: region_settings_ok_def region_entry_ok_def region_entry_of_def search_region_ok_def list_all_iff
      region_provider_settings_ok_def region_mapping_ok_def comp_def)

lemma provider_registry_built:
  assumes "validate_search_graph se"
  shows "\<exists>r. make_provider_registry [searxng_descriptor (ses_searxng se) a, yandex_descriptor (ses_yandex se) b] (ses_default_provider se) = Inr r
    \<and> pr_providers r = [searxng_descriptor (ses_searxng se) a, yandex_descriptor (ses_yandex se) b]"
  using assms by (cases "ses_default_provider se")
    (auto simp: validate_search_graph_def make_provider_registry_def find_provider_def searxng_descriptor_def yandex_descriptor_def)

lemma policy_built: "search_settings_ok se \<Longrightarrow> service_policy_ok (search_policy_of se)"
  by (simp add: search_settings_ok_def service_policy_ok_def search_policy_of_def cache_settings_ok_def retry_settings_ok_def)

lemma descriptors_built:
  assumes "search_settings_ok se"
  shows "provider_descriptor_ok (searxng_descriptor (ses_searxng se) a)" "provider_descriptor_ok (yandex_descriptor (ses_yandex se) b)"
  using assms by (simp_all add: search_settings_ok_def searxng_settings_ok_def yandex_settings_ok_def provider_descriptor_ok_def
      searxng_descriptor_def yandex_descriptor_def provider_capabilities_ok_def)

lemma search_built:
  assumes "settings_ok s"
  obtains p where "build_search env s = Inr p" "service_policy_ok (ss_policy (pt_service p))"
    "list_all provider_descriptor_ok (pr_providers (ss_providers (pt_service p)))" "list_all region_entry_ok (rr_entries (ss_regions (pt_service p)))"
    "0 < sg_poll (pt_flight p)" "pt_rate p = lifespan_rate_limiter (flow_of s)" "lifespan_concurrency_limiter (flow_of s) = Inr (pt_concurrency p)"
proof -
  define se where "se = st_search s"
  have se: "search_settings_ok se" "validate_search_graph se" using assms by (simp_all add: settings_ok_def se_def search_settings_ok_def)
  obtain providers where providers: "make_provider_registry
       [searxng_descriptor (ses_searxng se) (wi_canonical env SEARXNG), yandex_descriptor (ses_yandex se) (wi_canonical env YANDEX)]
       (ses_default_provider se) = Inr providers"
    "pr_providers providers = [searxng_descriptor (ses_searxng se) (wi_canonical env SEARXNG), yandex_descriptor (ses_yandex se) (wi_canonical env YANDEX)]"
    using provider_registry_built [OF se(2)] by blast
  have entries: "list_all region_entry_ok (map region_entry_of (ses_regions se))"
    using se(1) region_entries_built by (auto simp: search_settings_ok_def list_all_iff)
  have "distinct (map re_region_id (map region_entry_of (ses_regions se)))"
    using se(2) by (simp add: validate_search_graph_def region_entry_of_def comp_def)
  then obtain regions where regions: "make_region_registry (map region_entry_of (ses_regions se)) = Inr regions"
    "rr_entries regions = map region_entry_of (ses_regions se)" by (simp add: make_region_registry_def)
  obtain concurrency where concurrency: "lifespan_concurrency_limiter (flow_of s) = Inr concurrency"
    by (simp add: lifespan_concurrency_limiter_def make_concurrency_limiter_def)
  have "2 \<le> sch_single_flight_ttl_seconds (ses_cache se)" "0 < sch_waiter_poll_seconds (ses_cache se)"
    using se(1) by (simp_all add: search_settings_ok_def cache_settings_ok_def)
  then obtain flight where flight: "make_single_flight (rds_namespace (st_redis s)) (of_int (sch_single_flight_ttl_seconds (ses_cache se)))
      (sch_waiter_poll_seconds (ses_cache se)) = Inr flight" "0 < sg_poll flight"
    by (simp add: make_single_flight_def not_le)
  define p where "p = \<lparr>pt_service = \<lparr>ss_providers = providers, ss_regions = regions, ss_policy = search_policy_of se,
      ss_usage_configured = True, ss_ports = wi_ports env\<rparr>, pt_rate = lifespan_rate_limiter (flow_of s), pt_concurrency = concurrency,
    pt_flight = flight, pt_readiness = \<lparr>rs_providers = providers, rs_probes = [SEARXNG, YANDEX]\<rparr>\<rparr>"
  show thesis
    by (rule that [of p]) (use providers entries regions concurrency flight policy_built [OF se(1)] descriptors_built [OF se(1)] in
      \<open>simp_all add: p_def build_search_def Let_def se_def [symmetric] make_readiness_service_def wired_def\<close>)
qed

section \<open>Start and stop\<close>

definition stops :: "lifespan_env \<Rightarrow> dependency \<Rightarrow> bool" where
  "stops le d \<longleftrightarrow> le_close le d \<in> {CloseTimesOut, CloseCancelled}"

text \<open>What is closed: everything up to the first close that is cut short, this one included.\<close>

fun closed_part :: "lifespan_env \<Rightarrow> dependency list \<Rightarrow> dependency list" where
  "closed_part le [] = []"
| "closed_part le (d # ds) = d # (if stops le d then [] else closed_part le ds)"

lemma close_one_fields [simp]:
  "lf_health (close_one le d w) = lf_health w" "lf_served (close_one le d w) = lf_served w"
  "lf_attempted (close_one le d w) = lf_attempted w @ [d]"
  by (simp_all add: close_one_def Let_def)

lemma close_all_fields:
  "lf_health (snd (close_all le ds w)) = lf_health w \<and> lf_served (snd (close_all le ds w)) = lf_served w
   \<and> lf_attempted (snd (close_all le ds w)) = lf_attempted w @ closed_part le ds"
  by (induction le ds w rule: close_all.induct) (auto simp: Let_def stops_def split: close_result.split)

lemma close_all_result: "fst (close_all le ds w) \<in> {Inr (), Inl LifeCancelled}"
  by (induction le ds w rule: close_all.induct) (auto simp: Let_def split: close_result.split)

definition redis_balanced :: "redis_dependency \<Rightarrow> bool" where
  "redis_balanced r \<longleftrightarrow> rd_opened r = rd_closed r + (if rd_client r then 1 else 0)"

lemma close_one_redis:
  "redis_balanced (lf_redis w) \<Longrightarrow> redis_balanced (lf_redis (close_one le d w))"
  "(rd_client (lf_redis w) \<longrightarrow> d \<noteq> RedisClient) \<longleftrightarrow> rd_client (lf_redis (close_one le d w)) = rd_client (lf_redis w)"
  by (auto simp: close_one_def Let_def redis_close_def redis_balanced_def)

lemma close_all_redis:
  assumes "redis_balanced (lf_redis w)"
  shows "redis_balanced (lf_redis (snd (close_all le ds w)))
    \<and> (RedisClient \<in> set (closed_part le ds) \<or> \<not> rd_client (lf_redis w) \<longrightarrow> \<not> rd_client (lf_redis (snd (close_all le ds w))))"
  using assms
proof (induction le ds w rule: close_all.induct)
  case (2 le d ds w)
  have one: "redis_balanced (lf_redis (close_one le d w))" using close_one_redis(1) "2.prems" by blast
  have gone: "\<not> rd_client (lf_redis (close_one le d w))" if "d = RedisClient \<or> \<not> rd_client (lf_redis w)"
    using that by (auto simp: close_one_def Let_def redis_close_def)
  show ?case
    using "2.IH" [OF refl _ one] one gone by (cases "le_close le d") (auto simp: Let_def stops_def)
qed simp

lemma run_service_fields:
  assumes "run_service env le s (new_life h) = (res, w)"
  shows "lf_attempted w = [] \<and> redis_balanced (lf_redis w)
    \<and> (lf_served w = (if (\<forall>st. le_fault le st = None) \<and> (\<exists>p. build_search env s = Inr p) then Some (mark_bootstrapped h) else None))
    \<and> (lf_served w = None \<longrightarrow> (\<exists>e. res = Inl e)) \<and> (lf_served w \<noteq> None \<longrightarrow> res = (case le_serving le of None \<Rightarrow> Inr () | Some e \<Rightarrow> Inl e))
    \<and> hs_probes (lf_health w) = hs_probes h"
proof -
  have steps: "(\<forall>st. le_fault le st = None) \<longleftrightarrow> le_fault le StoreStart = None \<and> le_fault le RedisStart = None \<and> le_fault le ParserStart = None"
    by (metis start_step.exhaust)
  show ?thesis using assms unfolding steps
    by (cases "build_search env s")
      (auto simp: run_service_def start_io_def new_life_def redis_start_def redis_balanced_def Let_def mark_bootstrapped_def
        split: option.split_asm)
qed

lemma gather_checks_Inr [simp]: "gather_checks (map Inr bs) = Inr bs"
  by (induction bs) auto

text \<open>Ready means started, not stopping, and every mandatory probe positive.\<close>

lemma readiness_iff:
  "readiness h now (map Inr bs) = Inr (hs_bootstrapped h \<and> \<not> hs_draining h \<and> (\<forall>(p, b) \<in> set (zip (hs_probes h) bs). dp_mandatory p \<longrightarrow> b))"
proof -
  have fields: "ds_mandatory (dependency_status now x) = dp_mandatory (fst x)" "ds_status (dependency_status now x) = AV_READY \<longleftrightarrow> snd x" for x
    by (simp_all add: dependency_status_def split_beta)
  show ?thesis by (auto simp: readiness_def health_status_def service_status_def Let_def list_all_iff fields split_beta)
qed

section \<open>Properties\<close>


definition demo_wire :: wire_env where
  "demo_wire = \<lparr>wi_codec = (\<lambda>_ b. Some b), wi_identifier = demo_identifier_lib, wi_parsers = demo_parser_lib, wi_html = demo_html_lib,
     wi_sniff = (\<lambda>_. None), wi_isolated = (\<lambda>_ _ _. Inl child_crash), wi_json_size = (\<lambda>_. 0), wi_canonical = (\<lambda>_. []),
     wi_ports = demo_ports (\<lambda>_. 0) demo_miss\<rparr>"

definition demo_settings :: Settings where
  "demo_settings = \<lparr>
     st_app = \<lparr>ap_environment = DEVELOPMENT, ap_service_name = ''web-access'', ap_debug = False, ap_host = ''0.0.0.0'', ap_port = 8000,
       ap_mandatory_dependencies = [''postgres'', ''redis'', ''content_store'']\<rparr>,
     st_auth = demo_auth,
     st_database = \<lparr>db_url = ''postgresql+asyncpg://localhost/web_access'', db_pool_size = 5, db_pool_timeout_seconds = 10, db_fields_set = []\<rparr>,
     st_redis = \<lparr>rds_url = ''redis://localhost:6379/0'', rds_namespace = ''web-access:v1'', rds_socket_timeout_seconds = 2, rds_fields_set = []\<rparr>,
     st_content_store = \<lparr>cts_root = ''.content'', cts_chunk_size = 65536, cts_inspection_sample_bytes = 262144, cts_max_inspection_json_bytes = 65536\<rparr>,
     st_observability = \<lparr>ob_log_format = LOG_JSON, ob_log_level = LOG_INFO, ob_tracing_enabled = False, ob_otlp_endpoint = None\<rparr>,
     st_security = \<lparr>se_request_id_max_length = 128, se_shutdown_timeout_seconds = 10, se_content_cursor_hmac_secret = None\<rparr>,
     st_retrieval = \<lparr>rt_operation_timeout_seconds = 30, rt_batch_concurrency = 8, rt_max_connections = 32, rt_max_connections_per_host = 4,
       rt_max_redirects = 5, rt_stream_chunk_size = 65536, rt_max_wire_bytes = 16777216, rt_max_entity_bytes = 33554432,
       rt_max_decompression_ratio = 100, rt_read_inactivity_seconds = 5,
       rt_security = \<lparr>up_additional_ports = [], up_internal_networks = [], up_revision = ''retrieval-egress-v1''\<rparr>\<rparr>,
     st_parser = parser_defaults,
     st_search = \<lparr>ses_default_provider = SEARXNG, ses_provider_order = [SEARXNG, YANDEX], ses_max_batch_size = 32, ses_max_query_length = 4096,
       ses_max_results = 50, ses_max_page = 100, ses_batch_concurrency = 8, ses_operation_timeout_seconds = 30,
       ses_searxng = \<lparr>sx_enabled = True, sx_endpoint = ''http://localhost:8080/'', sx_profile_revision = ''searxng-default-v1'',
         sx_request_timeout_seconds = 10, sx_max_response_bytes = 2097152, sx_max_results = 50, sx_fields_set = []\<rparr>,
       ses_yandex = \<lparr>yx_enabled = False, yx_endpoint = ''https://searchapi.api.cloud.yandex.net/v2/web/search'', yx_folder_id = None,
         yx_api_key = None, yx_search_type = ''SEARCH_TYPE_RU'', yx_profile_revision = ''yandex-search-v2-v1'', yx_request_timeout_seconds = 10,
         yx_max_response_bytes = 2097152, yx_max_results = 50\<rparr>,
       ses_cache = \<lparr>sch_mode = MODE_PRINCIPAL, sch_searxng_ttl_seconds = 300, sch_yandex_ttl_seconds = 300, sch_single_flight_ttl_seconds = 30,
         sch_waiter_poll_seconds = 1 / 20\<rparr>,
       ses_rate_limit = \<lparr>srl_mandatory = True,
         srl_searxng = \<lparr>sr_principal = \<lparr>sb_capacity = 20, sb_refill_per_second = 5\<rparr>, sr_global = \<lparr>sb_capacity = 100, sb_refill_per_second = 20\<rparr>\<rparr>,
         srl_yandex = \<lparr>sr_principal = \<lparr>sb_capacity = 20, sb_refill_per_second = 5\<rparr>, sr_global = \<lparr>sb_capacity = 100, sb_refill_per_second = 20\<rparr>\<rparr>\<rparr>,
       ses_concurrency = \<lparr>scc_searxng = \<lparr>sc_local_limit = 10, sc_global_limit = 20, sc_lease_seconds = 65, sc_admission_timeout_seconds = 2\<rparr>,
         scc_yandex = \<lparr>sc_local_limit = 5, sc_global_limit = 10, sc_lease_seconds = 65, sc_admission_timeout_seconds = 2\<rparr>\<rparr>,
       ses_retry = \<lparr>srt_searxng_max_attempts = 2, srt_yandex_max_attempts = 1, srt_backoff_seconds = 1 / 20, srt_jitter_ratio = 1 / 5\<rparr>,
       ses_regions = [\<lparr>sr_region_id = ''moscow'', sr_label = ''Moscow'', sr_mappings = [\<lparr>sp_region_provider_id = YANDEX, sp_provider_region = ''213''\<rparr>]\<rparr>]\<rparr>\<rparr>"

lemma demo_settings_ok: "settings_ok demo_settings"
proof -
  have "list_all principal_ok demo_registry"
    by (simp add: demo_registry_def principal_ok_def validate_tokens_def strip_by_def uni_space_def cps_def
        non_empty_text_def name_char_def ascii_alnum_def ascii_lower_def ascii_upper_def ascii_digit_def in_range_def)
  moreover have "registry_ok demo_registry" by (simp add: registry_ok_def demo_registry_def cps_def)
  moreover have "non_empty_text ''admin:read''" by code_simp
  ultimately have auth: "auth_loaded demo_auth" by (simp add: auth_loaded_def demo_auth_def)
  have texts: "non_empty_text ''web-access''" "non_empty_text ''web-access:v1''" "validate_root ''.content''" by code_simp+
  have search: "search_settings_ok (st_search demo_settings)"
  proof -
    have "region_settings_ok \<lparr>sr_region_id = ''moscow'', sr_label = ''Moscow'', sr_mappings = [\<lparr>sp_region_provider_id = YANDEX, sp_provider_region = ''213''\<rparr>]\<rparr>"
      by code_simp
    then show ?thesis
      by (simp add: demo_settings_def search_settings_ok_def searxng_settings_ok_def yandex_settings_ok_def cache_settings_ok_def
          provider_rate_settings_ok_def rate_bucket_settings_ok_def concurrency_settings_ok_def retry_settings_ok_def validate_search_graph_def)
  qed
  have rest: "st_app demo_settings = \<lparr>ap_environment = DEVELOPMENT, ap_service_name = ''web-access'', ap_debug = False, ap_host = ''0.0.0.0'', ap_port = 8000,
       ap_mandatory_dependencies = [''postgres'', ''redis'', ''content_store'']\<rparr>" "st_auth demo_settings = demo_auth" "st_parser demo_settings = parser_defaults"
    by (simp_all add: demo_settings_def)
  have "validate_profile demo_settings" by (simp add: validate_profile_def rest demo_auth_def demo_registry_def)
  moreover have "retrieval_settings_ok (st_retrieval demo_settings)"
    by (simp add: demo_settings_def retrieval_settings_ok_def security_settings_ok_def)
  moreover have "database_settings_ok (st_database demo_settings)" "redis_settings_ok (st_redis demo_settings)"
    "content_store_settings_ok (st_content_store demo_settings)" "service_security_ok (st_security demo_settings)"
    using texts by (simp_all add: demo_settings_def database_settings_ok_def redis_settings_ok_def content_store_settings_ok_def
        service_security_ok_def cursor_secret_ok_def)
  moreover have "app_settings_ok (st_app demo_settings)" using texts by (simp add: rest app_settings_ok_def)
  ultimately show ?thesis using auth search parser_defaults_ok by (simp add: settings_ok_def rest)
qed




end
