(* ===== verification/Requests.thy ===== *)
theory Requests
  imports Runtime
begin

section \<open>Requests of the transports\<close>

text \<open>
  What the REST and MCP schemas accept and what they hand to the application: \<open>transport/rest/search_schemas.py\<close>,
  \<open>retrieval_schemas.py\<close>, \<open>content_schemas.py\<close>, \<open>transport/mcp/search_schemas.py\<close> and \<open>content_schemas.py\<close>. The
  language tags of \<open>langcodes\<close> and Unicode's tables are arguments.
\<close>

record language_lib =
  lg_valid :: "string \<Rightarrow> bool"
  lg_tag :: "string \<Rightarrow> string"

definition bounded_option :: "string option \<Rightarrow> bool" where
  "bounded_option v \<longleftrightarrow> (case v of None \<Rightarrow> True | Some s \<Rightarrow> 1 \<le> length s \<and> length s \<le> 64)"

subsection \<open>REST\<close>

text \<open>One query as the schema holds it: the text stripped, the language normalized.\<close>

definition rest_search_query :: "language_lib \<Rightarrow> SearchQuery \<Rightarrow> SearchQuery option" where
  "rest_search_query lg q = (if \<not> bounded_option (sq_language q) \<or> \<not> bounded_option (sq_region q) then None
     else make_query (lg_valid lg) (lg_tag lg) q)"

definition rest_search_request :: "language_lib \<Rightarrow> SearchQuery list \<Rightarrow> SearchQuery list option" where
  "rest_search_request lg qs = (if length qs < 1 \<or> length qs > 32 then None else those (map (rest_search_query lg) qs))"

text \<open>\<open>to_application\<close> validates each query again; \<open>None\<close> is a \<open>ValidationError\<close> in the handler.\<close>

definition to_search_request :: "language_lib \<Rightarrow> SearchQuery list \<Rightarrow> SearchQuery list option" where
  "to_search_request lg qs = (case those (map (make_query (lg_valid lg) (lg_tag lg)) qs) of None \<Rightarrow> None
     | Some xs \<Rightarrow> if batch_request_ok xs then Some xs else None)"

definition rest_fetch_request :: "unicode_lib \<Rightarrow> ustr list \<Rightarrow> ustr list option" where
  "rest_fetch_request lib urls = (if 1 \<le> length urls \<and> length urls \<le> 32
     \<and> list_all (\<lambda>u. 1 \<le> length u \<and> length u \<le> 8192 \<and> request_item_ok lib u) urls then Some urls else None)"

definition content_path_id :: "string \<Rightarrow> bool" where
  "content_path_id c \<longleftrightarrow> 1 \<le> length c \<and> length c \<le> 128"

definition rest_content_ids :: "string list \<Rightarrow> string list option" where
  "rest_content_ids ids = (if 1 \<le> length ids \<and> length ids \<le> 32 \<and> list_all content_path_id ids \<and> distinct ids then Some ids else None)"

subsection \<open>MCP\<close>

record web_search_input =
  ws_queries :: "string list"
  ws_provider :: SearchProviderSelection
  ws_page :: int
  ws_limit :: int
  ws_language :: "string option"
  ws_region :: "string option"
  ws_safe_search :: "SearchSafeMode option"
  ws_time_range :: "SearchTimeRange option"

definition input_query :: "web_search_input \<Rightarrow> string \<Rightarrow> SearchQuery" where
  "input_query i q = \<lparr>sq_query = q, sq_provider = ws_provider i, sq_page = ws_page i, sq_limit = ws_limit i, sq_language = ws_language i,
     sq_region = ws_region i, sq_safe_search = ws_safe_search i, sq_time_range = ws_time_range i\<rparr>"

definition mcp_search_input :: "language_lib \<Rightarrow> web_search_input \<Rightarrow> web_search_input option" where
  "mcp_search_input lg i = (let qs = map str_strip (ws_queries i) in
     if \<not> (1 \<le> length qs \<and> length qs \<le> 8 \<and> list_all (\<lambda>q. 1 \<le> length q \<and> length q \<le> 2048) qs
         \<and> 1 \<le> ws_page i \<and> ws_page i \<le> 100 \<and> 1 \<le> ws_limit i \<and> ws_limit i \<le> 20
         \<and> bounded_option (ws_language i) \<and> bounded_option (ws_region i)
         \<and> (case ws_region i of None \<Rightarrow> True | Some r \<Rightarrow> search_region_ok r)) then None
     else case ws_language i of None \<Rightarrow> Some (i\<lparr>ws_queries := qs\<rparr>)
       | Some l \<Rightarrow> map_option (\<lambda>l. i\<lparr>ws_queries := qs, ws_language := Some l\<rparr>) (normalize_search_language (lg_valid lg) (lg_tag lg) l))"

definition mcp_to_search_request :: "language_lib \<Rightarrow> web_search_input \<Rightarrow> SearchQuery list option" where
  "mcp_to_search_request lg i = to_search_request lg (map (input_query i) (ws_queries i))"

definition mcp_fetch_input :: "unicode_lib \<Rightarrow> ustr list \<Rightarrow> ustr list option" where
  "mcp_fetch_input lib urls = (if 1 \<le> length urls \<and> length urls \<le> 8
     \<and> list_all (\<lambda>u. 1 \<le> length u \<and> length u \<le> 4096 \<and> request_item_ok lib u) urls then Some urls else None)"

record content_get_input =
  cg_items :: "(string \<times> string option) list"
  cg_max_chars :: int

definition mcp_content_get :: "content_get_input \<Rightarrow> bool" where
  "mcp_content_get i \<longleftrightarrow> 1 \<le> length (cg_items i) \<and> length (cg_items i) \<le> 8 \<and> 1 \<le> cg_max_chars i \<and> cg_max_chars i \<le> 30000
     \<and> list_all (\<lambda>(c, cursor). content_path_id c \<and> (case cursor of None \<Rightarrow> True | Some t \<Rightarrow> 1 \<le> length t \<and> length t \<le> 2048)) (cg_items i)"

definition mcp_content_ids :: "string list \<Rightarrow> bool" where
  "mcp_content_ids ids \<longleftrightarrow> 1 \<le> length ids \<and> length ids \<le> 8 \<and> list_all content_path_id ids \<and> distinct ids"

subsection \<open>What reaches the application\<close>

lemma those_Some_iff: "those xs = Some ys \<longleftrightarrow> xs = map Some ys"
  by (induction xs arbitrary: ys) (auto split: option.splits simp: Cons_eq_map_conv)

lemma make_query_ok: "make_query v t q = Some r \<Longrightarrow> search_query_ok r"
  by (auto simp: make_query_def split: option.split_asm if_split_asm)

lemma to_search_request_ok: "to_search_request lg qs = Some xs \<Longrightarrow> batch_request_ok xs \<and> length xs = length qs"
  by (auto simp: to_search_request_def those_Some_iff split: option.split_asm if_split_asm dest: map_eq_imp_length_eq)

text \<open>A normalizer that leaves its own tags alone.\<close>

definition stable_tags :: "language_lib \<Rightarrow> bool" where
  "stable_tags lg \<longleftrightarrow> (\<forall>l n. normalize_search_language (lg_valid lg) (lg_tag lg) l = Some n \<longrightarrow>
     normalize_search_language (lg_valid lg) (lg_tag lg) n = Some n)"

lemma str_strip_idem [simp]: "str_strip (str_strip s) = str_strip s"
proof -
  define x where "x = dropWhile is_space s"
  define y where "y = rev (dropWhile is_space (rev x))"
  have "rev x = takeWhile is_space (rev x) @ rev y" by (simp add: y_def)
  then have x: "x = y @ rev (takeWhile is_space (rev x))" by (metis rev_append rev_rev_ident)
  have "dropWhile is_space y = y"
  proof (cases y)
    case (Cons c r)
    then have "x \<noteq> [] \<and> c = List.hd x" using x by (metis append_Cons list.distinct(1) list.sel(1))
    then have "\<not> is_space c" using hd_dropWhile [of is_space s] by (simp add: x_def)
    then show ?thesis by (simp add: Cons)
  qed simp
  moreover have "dropWhile is_space (rev y) = rev y" by (simp add: y_def dropWhile_idem)
  ultimately show ?thesis by (simp add: str_strip_def strip_set_def x_def [symmetric] y_def [symmetric])
qed

lemma make_query_facts:
  assumes "make_query v t q = Some r"
  shows "search_query_ok r" "str_strip (sq_query r) = sq_query r" "\<And>n. sq_language r = Some n \<Longrightarrow> \<exists>l. normalize_search_language v t l = Some n"
    "\<And>g. sq_region r = Some g \<Longrightarrow> search_region_ok g"
  using assms by (cases "sq_language q"; cases "sq_region q";
      auto simp: make_query_def normalize_query_def split: option.split_asm if_split_asm)+

lemma make_query_fixed:
  assumes "search_query_ok r" "str_strip (sq_query r) = sq_query r"
    and "\<And>n. sq_language r = Some n \<Longrightarrow> normalize_search_language v t n = Some n" "\<And>g. sq_region r = Some g \<Longrightarrow> search_region_ok g"
  shows "make_query v t r = Some r"
proof -
  have lang: "(case sq_language r of None \<Rightarrow> Some None | Some l \<Rightarrow> map_option Some (normalize_search_language v t l)) = Some (sq_language r)"
    using assms(3) by (cases "sq_language r") auto
  have "r\<lparr>sq_query := sq_query r, sq_language := sq_language r\<rparr> = r" by simp
  then have "normalize_query v t r = Some r" using assms(2,4) by (cases "sq_region r") (auto simp: normalize_query_def lang)
  then show ?thesis using assms(1) by (simp add: make_query_def)
qed

lemma make_query_stable:
  assumes "stable_tags lg" "make_query (lg_valid lg) (lg_tag lg) q = Some r"
  shows "make_query (lg_valid lg) (lg_tag lg) r = Some r"
  using make_query_facts [OF assms(2)] assms(1) by (intro make_query_fixed) (auto simp: stable_tags_def)

lemma rest_search_request_accepted:
  assumes "stable_tags lg" "rest_search_request lg qs = Some xs"
  shows "to_search_request lg xs = Some xs"
proof -
  have m: "map (rest_search_query lg) qs = map Some xs" and n: "1 \<le> length qs" "length qs \<le> 32"
    using assms(2) by (auto simp: rest_search_request_def those_Some_iff not_less Suc_le_eq split: if_split_asm)
  have len: "1 \<le> length xs" "length xs \<le> 32" using n map_eq_imp_length_eq [OF m] by simp_all
  have "make_query (lg_valid lg) (lg_tag lg) x = Some x \<and> search_query_ok x" if "x \<in> set xs" for x
  proof -
    have "Some x \<in> set (map (rest_search_query lg) qs)" using that m by simp
    then obtain q where "rest_search_query lg q = Some x" by auto
    then have "make_query (lg_valid lg) (lg_tag lg) q = Some x" by (simp add: rest_search_query_def split: if_split_asm)
    then show ?thesis using make_query_stable [OF assms(1)] make_query_ok by blast
  qed
  then have "those (map (make_query (lg_valid lg) (lg_tag lg)) xs) = Some xs" "list_all search_query_ok xs"
    by (auto simp: those_Some_iff list_all_iff)
  then show ?thesis using len by (simp add: to_search_request_def batch_request_ok_def)
qed

lemma mcp_search_request_accepted:
  assumes "stable_tags lg" "mcp_search_input lg i = Some j"
  shows "to_search_request lg (map (input_query j) (ws_queries j)) = Some (map (input_query j) (ws_queries j))
    \<and> length (ws_queries j) \<le> 8 \<and> ws_queries j = map str_strip (ws_queries i)"
proof -
  have j: "1 \<le> length (ws_queries j)" "length (ws_queries j) \<le> 8" "list_all (\<lambda>q. 1 \<le> length q \<and> length q \<le> 2048) (ws_queries j)"
    "1 \<le> ws_page j" "ws_page j \<le> 100" "1 \<le> ws_limit j" "ws_limit j \<le> 20" "ws_queries j = map str_strip (ws_queries i)"
    "case ws_region j of None \<Rightarrow> True | Some r \<Rightarrow> search_region_ok r"
    using assms(2) by (auto simp: mcp_search_input_def Let_def split: if_split_asm option.split_asm)
  have lang: "case ws_language j of None \<Rightarrow> True
      | Some l \<Rightarrow> search_language_ok l \<and> normalize_search_language (lg_valid lg) (lg_tag lg) l = Some l"
  proof (cases "ws_language j")
    case (Some l)
    then obtain raw where "normalize_search_language (lg_valid lg) (lg_tag lg) raw = Some l"
      using assms(2) by (auto simp: mcp_search_input_def Let_def split: if_split_asm option.split_asm)
    then show ?thesis using assms(1) Some
      by (auto simp: stable_tags_def) (auto simp: normalize_search_language_def Let_def split: if_split_asm)
  qed simp
  have "make_query (lg_valid lg) (lg_tag lg) (input_query j q) = Some (input_query j q) \<and> search_query_ok (input_query j q)"
    if "q \<in> set (ws_queries j)" for q
  proof -
    have "1 \<le> length q" "length q \<le> 2048" "str_strip q = q" using that j(3,8) by (auto simp: list_all_iff)
    then show ?thesis using lang j(4-7,9)
      by (auto simp: make_query_def normalize_query_def search_query_ok_def input_query_def split: option.split_asm option.split)
  qed
  then have "those (map (make_query (lg_valid lg) (lg_tag lg)) (map (input_query j) (ws_queries j))) = Some (map (input_query j) (ws_queries j))"
    "list_all search_query_ok (map (input_query j) (ws_queries j))"
    by (auto simp: those_Some_iff list_all_iff comp_def)
  then show ?thesis using j(1,2,8) by (simp add: to_search_request_def batch_request_ok_def)
qed

section \<open>Properties\<close>

text \<open>What a transport accepts, the application accepts. With a tag normalizer that leaves its own tags alone, a search batch that
  the REST or the MCP schema took passes the second validation on the way to the service unchanged; it is a valid batch, an
  MCP batch of at most eight stripped queries. Accepted URLs and Content ids satisfy the conditions of the retrieval and
  Content services.\<close>

theorem transport_requests_accepted:
  assumes "stable_tags lg"
  shows "(rest_search_request lg qs = Some xs \<longrightarrow> to_search_request lg xs = Some xs \<and> batch_request_ok xs)
    \<and> (mcp_search_input lg i = Some j \<longrightarrow> mcp_to_search_request lg j = Some (map (input_query j) (ws_queries j))
        \<and> batch_request_ok (map (input_query j) (ws_queries j)) \<and> length (ws_queries j) \<le> 8)
    \<and> (rest_fetch_request lib urls = Some us \<longrightarrow> us = urls \<and> retrieval_request_ok lib us)
    \<and> (mcp_fetch_input lib urls = Some us \<longrightarrow> us = urls \<and> retrieval_request_ok lib us \<and> rest_fetch_request lib urls = Some urls)
    \<and> (mcp_content_ids ids \<longrightarrow> rest_content_ids ids = Some ids)"
proof -
  have 1: "rest_search_request lg qs = Some xs \<longrightarrow> to_search_request lg xs = Some xs \<and> batch_request_ok xs"
    using rest_search_request_accepted [OF assms] to_search_request_ok by blast
  have 2: "mcp_search_input lg i = Some j \<longrightarrow> mcp_to_search_request lg j = Some (map (input_query j) (ws_queries j))
        \<and> batch_request_ok (map (input_query j) (ws_queries j)) \<and> length (ws_queries j) \<le> 8"
    unfolding mcp_to_search_request_def using mcp_search_request_accepted [OF assms] to_search_request_ok by blast
  have 3: "rest_fetch_request lib urls = Some us \<longrightarrow> us = urls \<and> retrieval_request_ok lib us"
    by (auto simp: rest_fetch_request_def retrieval_request_ok_def list_all_iff)
  have 4: "mcp_fetch_input lib urls = Some us \<longrightarrow> us = urls \<and> retrieval_request_ok lib us \<and> rest_fetch_request lib urls = Some urls"
    by (auto simp: mcp_fetch_input_def rest_fetch_request_def retrieval_request_ok_def list_all_iff)
  have 5: "mcp_content_ids ids \<longrightarrow> rest_content_ids ids = Some ids"
    by (auto simp: mcp_content_ids_def rest_content_ids_def)
  show ?thesis using 1 2 3 4 5 by blast
qed

definition demo_language :: language_lib where
  "demo_language = \<lparr>lg_valid = (\<lambda>_. True), lg_tag = (\<lambda>l. l)\<rparr>"

lemma demo_language_stable: "stable_tags demo_language"
  by (auto simp: stable_tags_def demo_language_def normalize_search_language_def Let_def split: if_split_asm)

definition demo_input :: web_search_input where
  "demo_input = \<lparr>ws_queries = ['' isabelle ''], ws_provider = SEL_DEFAULT, ws_page = 1, ws_limit = 10, ws_language = None, ws_region = None,
     ws_safe_search = None, ws_time_range = None\<rparr>"

theorem transport_requests_accepted_witness:
  "mcp_to_search_request demo_language (demo_input\<lparr>ws_queries := [''isabelle'']\<rparr>) = Some [input_query (demo_input\<lparr>ws_queries := [''isabelle'']\<rparr>) ''isabelle'']"
proof -
  have "mcp_search_input demo_language demo_input = Some (demo_input\<lparr>ws_queries := [''isabelle'']\<rparr>)"
    by (simp add: mcp_search_input_def demo_input_def bounded_option_def str_strip_def strip_set_def is_space_def Let_def)
  then show ?thesis
    using transport_requests_accepted [OF demo_language_stable, of "[]" "[]" demo_input "demo_input\<lparr>ws_queries := [''isabelle'']\<rparr>"] by auto
qed

end
