(* ===== verification/Rest.thy ===== *)
theory Rest
  imports Requests
begin

section \<open>The REST facade\<close>

text \<open>
  \<open>transport/rest/app.py\<close> and \<open>errors.py\<close> over the application services. A request is its three headers and a
  parsed route; an answer is a status, headers and a body. FastAPI reads the body as JSON, then resolves the security
  dependencies, then validates parameters, then calls the handler; where it reports an invalid value is an argument. A handled
  exception becomes an answer inside the middleware, any other one is answered outside it with status 500.
\<close>

subsection \<open>Requests and answers\<close>

record rest_headers =
  rq_authorization :: "string option"
  rq_request_id :: "string option"
  rq_range :: "string option"

datatype 'a payload = NotJson | BadShape | Payload 'a

datatype rest_route =
    HealthLive | HealthReady | HealthStatus | MetricsRoute
  | SearchRoute "SearchQuery list payload" | ProvidersRoute
  | FetchRoute "(ustr list \<times> RetrievalProcessingLevel) payload"
  | MetadataRoute string | RepresentationsRoute string | DataRoute string
  | InspectRoute "string list payload" | NativeParseRoute "string list payload"

datatype rest_body =
    ErrorBody OperationError | LiveBody | ReadyBody bool | StatusBody ServiceStatus | MetricsBody | NoBody
  | SearchBody "SearchQueryData BatchItemResult list PublicOperationResult"
  | ProvidersBody "SearchProviderDiscovery list PublicOperationResult"
  | FetchBody "RetrievalItemResult BatchItemResult list PublicOperationResult"
  | MetadataBody "ContentMetadata PublicOperationResult"
  | RepresentationsBody "(ContentRef \<times> ContentRepresentationSummary list) PublicOperationResult"
  | InspectBody "(ContentRef \<times> ContentInspection) BatchItemResult list PublicOperationResult"
  | ParseBody "NativeParseResult BatchItemResult list PublicOperationResult"
  | DataBody "bytes list"

record rest_answer =
  an_status :: int
  an_media :: "string option"
  an_headers :: "(string \<times> ustr) list"
  an_body :: rest_body

record rest_world =
  rw_content :: world
  rw_search :: search_world
  rw_ids :: nat

record 'z rest_deps =
  rp_settings :: Settings
  rp_auth :: "ustr \<Rightarrow> auth_exc + PrincipalContext option"
  rp_hex :: "nat \<Rightarrow> string"
  rp_health :: HealthService
  rp_checks :: "(unit + bool) list"
  rp_search :: search_service
  rp_readiness :: readiness_service
  rp_provider_check :: "SearchProviderId \<Rightarrow> unit + Availability"
  rp_content :: content_service
  rp_retrieval :: "'z retrieval_service"
  rp_unicode :: unicode_lib
  rp_language :: language_lib
  rp_locations :: "rest_route \<Rightarrow> string list"

datatype rest_exc =
    RestAuth auth_exc | RestScope AuthenticationFailure | RestInvalid "string list"
  | RestContent content_exc | RestOther | RestCancelled

type_synonym 'a rst = "rest_world \<Rightarrow> (rest_exc + 'a) \<times> rest_world"

definition answer :: "int \<Rightarrow> rest_body \<Rightarrow> rest_answer" where
  "answer status body = \<lparr>an_status = status, an_media = Some ''application/json'', an_headers = [], an_body = body\<rparr>"

subsection \<open>Errors (errors.py)\<close>

fun operation_status :: "ErrorCategory option \<Rightarrow> int" where
  "operation_status None = 200"
| "operation_status (Some c) = (case map_of [(VALIDATION, 422), (UNSUPPORTED, 422), (AUTHENTICATION, 401), (PERMISSION, 403), (POLICY, 403),
     (NOT_FOUND, 404), (CONFLICT, 409), (RATE_LIMITED_CATEGORY, 429), (UPSTREAM, 502), (CAPACITY, 503), (INFRASTRUCTURE, 503),
     (TIMEOUT, 504), (UNKNOWN_OUTCOME, 502)] c of None \<Rightarrow> 500 | Some n \<Rightarrow> n)"

text \<open>\<open>_response\<close>: the constructor of \<open>OperationError\<close> may refuse its fields, which is another exception.\<close>

definition error_answer :: "int \<Rightarrow> OperationError \<Rightarrow> rest_answer option" where
  "error_answer status e = (if operation_error_ok e then Some (answer status (ErrorBody e)) else None)"

definition invalid_request :: "string list \<Rightarrow> OperationError" where
  "invalid_request locations = (op_error VALIDATION ''invalid_request'')\<lparr>
     oe_fields := map (\<lambda>p. \<lparr>fe_path = p, fe_code = ''invalid_value''\<rparr>) (take 32 locations)\<rparr>"

fun content_status :: "content_exc \<Rightarrow> (int \<times> ErrorCategory) option" where
  "content_status ExcNotFound = Some (404, NOT_FOUND)"
| "content_status ExcUnavailable = Some (409, CONFLICT)"
| "content_status ExcLifecycle = Some (500, INTERNAL)"
| "content_status (ExcProcessing c) = Some (500, INTERNAL)"
| "content_status ExcParserTimeout = Some (500, INTERNAL)"
| "content_status e = None"

definition or_code :: "string option \<Rightarrow> string" where
  "or_code c = (case c of None \<Rightarrow> ''content_processing_failed'' | Some x \<Rightarrow> x)"

fun handled :: "rest_exc \<Rightarrow> rest_answer option" where
  "handled (RestAuth (RestAuthenticationError f)) = map_option (\<lambda>a. a\<lparr>an_headers := [(''WWW-Authenticate'', cps ''Bearer'')]\<rparr>)
     (error_answer 401 (op_error AUTHENTICATION (auth_failure_value f)))"
| "handled (RestScope f) = error_answer 403 (op_error PERMISSION (auth_failure_value f))"
| "handled (RestInvalid locations) = error_answer 422 (invalid_request locations)"
| "handled (RestContent (ExcAuth f)) = error_answer 403 (op_error PERMISSION (auth_failure_value f))"
| "handled (RestContent e) = (case content_status e of None \<Rightarrow> None
     | Some (status, category) \<Rightarrow> error_answer status (op_error category (or_code (exc_code e))))"
| "handled e = None"

definition internal_answer :: rest_answer where
  "internal_answer = answer 500 (ErrorBody (op_error INTERNAL ''internal_error''))"

fun lost_request :: "rest_exc \<Rightarrow> bool" where
  "lost_request RestCancelled = True"
| "lost_request (RestContent e) = (e = ExcCancelled)"
| "lost_request e = False"

subsection \<open>Identity (app.py)\<close>

definition request_id_char :: "char \<Rightarrow> bool" where
  "request_id_char c \<longleftrightarrow> ascii_alnum c \<or> c \<in> set ''_.:-''"

text \<open>\<open>ids.new(OPERATION).replace("op_", "req_", 1)\<close> of a generated identifier.\<close>

definition fresh_operation :: "'z rest_deps \<Rightarrow> rest_world \<Rightarrow> string \<times> rest_world" where
  "fresh_operation deps w = (new_id OPERATION (rp_hex deps (rw_ids w)), w\<lparr>rw_ids := Suc (rw_ids w)\<rparr>)"

definition response_request_id :: "'z rest_deps \<Rightarrow> string option \<Rightarrow> rest_world \<Rightarrow> string \<times> rest_world" where
  "response_request_id deps supplied w = (case supplied of
     Some s \<Rightarrow> if s \<noteq> [] \<and> int (length s) \<le> se_request_id_max_length (st_security (rp_settings deps)) \<and> list_all request_id_char s
       then (s, w) else (case fresh_operation deps w of (i, w) \<Rightarrow> (''req_'' @ drop 3 i, w))
   | None \<Rightarrow> (case fresh_operation deps w of (i, w) \<Rightarrow> (''req_'' @ drop 3 i, w)))"

fun require_scopes :: "PrincipalContext \<Rightarrow> string list \<Rightarrow> rest_exc + unit" where
  "require_scopes p [] = Inr ()"
| "require_scopes p (s # ss) = (case require_scope p s of Inl f \<Rightarrow> Inl (RestScope f) | Inr _ \<Rightarrow> require_scopes p ss)"

text \<open>The dependencies of each route: \<open>None\<close> is public, otherwise a principal with these scopes, asked in this order.\<close>

definition route_scopes :: "Settings \<Rightarrow> rest_route \<Rightarrow> string list option" where
  "route_scopes s r = (case r of
     HealthLive \<Rightarrow> None | HealthReady \<Rightarrow> None | MetricsRoute \<Rightarrow> None
   | HealthStatus \<Rightarrow> Some [as_diagnostic_scope (st_auth s)]
   | SearchRoute _ \<Rightarrow> Some [''search:read''] | ProvidersRoute \<Rightarrow> Some [''search:read'']
   | FetchRoute _ \<Rightarrow> Some [''retrieval:read'']
   | MetadataRoute _ \<Rightarrow> Some [''content:read''] | RepresentationsRoute _ \<Rightarrow> Some [''content:read'']
   | DataRoute _ \<Rightarrow> Some [''content:read''] | InspectRoute _ \<Rightarrow> Some [''content:read'']
   | NativeParseRoute _ \<Rightarrow> Some [''content:read'', ''content:write''])"

definition route_principal :: "'z rest_deps \<Rightarrow> rest_headers \<Rightarrow> string list \<Rightarrow> rest_exc + PrincipalContext" where
  "route_principal deps rq scopes = (case authenticate_header (rp_auth deps) (rq_authorization rq) of
     Inl e \<Rightarrow> Inl (RestAuth e)
   | Inr p \<Rightarrow> res_bind (require_scopes p scopes) (\<lambda>_. Inr p))"

definition execution_context :: "string \<Rightarrow> PrincipalContext \<Rightarrow> Clock \<Rightarrow> rat \<Rightarrow> ExecutionContext" where
  "execution_context opid p clock timeout = \<lparr>cx_operation_id = opid, cx_principal = p, cx_cancel_requested = False,
     cx_deadline = deadline_after clock timeout\<rparr>"

subsection \<open>Calls of the services\<close>

definition rest_content_call :: "'a io \<Rightarrow> 'a rst" where
  "rest_content_call f w = (case f (rw_content w) of (r, c) \<Rightarrow> (map_sum RestContent id r, w\<lparr>rw_content := c\<rparr>))"

fun search_failure :: "search_exc \<Rightarrow> rest_exc" where
  "search_failure (SXAuth f) = RestScope f"
| "search_failure SXCancelled = RestCancelled"
| "search_failure e = RestOther"

definition rest_search_call :: "'a sio \<Rightarrow> 'a rst" where
  "rest_search_call f w = (case f (rw_search w) of (r, s) \<Rightarrow> (map_sum search_failure id r, w\<lparr>rw_search := s\<rparr>))"

definition projected :: "('d PublicOperationResult \<Rightarrow> rest_body) \<Rightarrow> 'd OperationResult \<Rightarrow> rest_exc + rest_answer" where
  "projected body r = (case project_result r of None \<Rightarrow> Inl RestOther
     | Some p \<Rightarrow> Inr (answer (operation_status (map_option oe_category (or_error r))) (body p)))"

definition success :: "string \<Rightarrow> 'd \<Rightarrow> 'd PublicOperationResult" where
  "success opid x = \<lparr>pr_operation_id = opid, pr_outcome = PO_SUCCEEDED, pr_data = Some x, pr_error = None, pr_warnings = [], pr_hints = []\<rparr>"

subsection \<open>Downloads\<close>

definition media_token_char :: "char \<Rightarrow> bool" where
  "media_token_char c \<longleftrightarrow> ascii_lower c \<or> ascii_digit c \<or> c \<in> set ''!#$&^_.+-''"

definition media_type_syntax :: "string \<Rightarrow> bool" where
  "media_type_syntax m \<longleftrightarrow> (case partition_at CHR ''/'' m of (a, found, b) \<Rightarrow>
     found \<and> a \<noteq> [] \<and> b \<noteq> [] \<and> list_all media_token_char a \<and> list_all media_token_char b)"

definition safe_download_media_type :: "string option \<Rightarrow> string" where
  "safe_download_media_type m = (case m of None \<Rightarrow> ''application/octet-stream''
     | Some s \<Rightarrow> let n = str_lower (str_strip (takeWhile (\<lambda>c. c \<noteq> CHR '';'') s)) in
         if n \<in> {''text/html'', ''image/svg+xml''} then ''application/octet-stream''
         else if media_type_syntax n then n else ''application/octet-stream'')"

definition safe_name :: "ustr option \<Rightarrow> ustr" where
  "safe_name filename = (let
     selected = (case filename of Some (c # f) \<Rightarrow> c # f | _ \<Rightarrow> cps ''content.bin'');
     safe = take 150 (strip_by (\<lambda>c. c = 32 \<or> c = 46) (map (\<lambda>c. if c \<in> {34, 47, 92} \<or> c < 32 then 95 else c) selected))
   in if safe = [] then cps ''content.bin'' else safe)"

definition content_disposition :: "ustr option \<Rightarrow> ustr" where
  "content_disposition filename = cps ''attachment; filename='' @ [34] @ safe_name filename @ [34]"

text \<open>Starlette encodes header values as Latin-1 when it builds the response.\<close>

definition with_headers :: "(string \<times> ustr) list \<Rightarrow> rest_answer \<Rightarrow> rest_exc + rest_answer" where
  "with_headers hs a = (if \<forall>(k, v) \<in> set hs. list_all (\<lambda>c. c < 256) v then Inr (a\<lparr>an_headers := hs\<rparr>) else Inl RestOther)"

definition data_answer :: "string option \<Rightarrow> AuthorizedContentStream \<Rightarrow> rest_exc + rest_answer" where
  "data_answer rng d = (if rng \<noteq> None
     then with_headers [(''Content-Range'', cps ''bytes */'' @ str_of_int (cr_size_bytes (as_content d)))]
       \<lparr>an_status = 416, an_media = None, an_headers = [], an_body = NoBody\<rparr>
     else with_headers [(''Content-Length'', str_of_int (cr_size_bytes (as_content d))),
         (''Content-Disposition'', content_disposition (as_source_filename d)), (''X-Content-Type-Options'', cps ''nosniff'')]
       \<lparr>an_status = 200, an_media = Some (safe_download_media_type (cr_media_type (as_content d))), an_headers = [],
        an_body = DataBody (as_stream d)\<rparr>)"

subsection \<open>The handlers\<close>

definition not_json :: "rest_route \<Rightarrow> bool" where
  "not_json r \<longleftrightarrow> r \<in> {SearchRoute NotJson, FetchRoute NotJson, InspectRoute NotJson, NativeParseRoute NotJson}"

definition valid_payload :: "('a \<Rightarrow> 'b option) \<Rightarrow> 'a payload \<Rightarrow> 'b option" where
  "valid_payload check p = (case p of Payload x \<Rightarrow> check x | _ \<Rightarrow> None)"

definition with_payload :: "string list \<Rightarrow> 'b option \<Rightarrow> ('b \<Rightarrow> 'a rst) \<Rightarrow> 'a rst" where
  "with_payload locations v f w = (case v of None \<Rightarrow> (Inl (RestInvalid locations), w) | Some x \<Rightarrow> f x w)"

definition authorized_handler :: "'z rest_deps \<Rightarrow> rest_headers \<Rightarrow> string \<Rightarrow> PrincipalContext \<Rightarrow> rest_route \<Rightarrow> rest_answer rst" where
  "authorized_handler deps rq opid p r w = (let
     locations = rp_locations deps r; s = rp_settings deps;
     timeout = ses_operation_timeout_seconds (st_search s);
     cx = execution_context opid p (w_clock (rw_content w)) timeout
   in case r of
     HealthStatus \<Rightarrow> (map_sum (\<lambda>_. RestOther) (\<lambda>st. answer 200 (StatusBody st))
         (health_status (rp_health deps) (w_now (rw_content w)) (rp_checks deps)), w)
   | SearchRoute b \<Rightarrow> with_payload locations (valid_payload (rest_search_request (rp_language deps)) b) (\<lambda>qs w.
       case to_search_request (rp_language deps) qs of None \<Rightarrow> (Inl RestOther, w)
       | Some qs \<Rightarrow> try_seq (rest_search_call (search (rp_search deps) (execution_context opid p (sw_clock (rw_search w)) timeout) qs) w)
           (\<lambda>res w. (projected SearchBody res, w))) w
   | ProvidersRoute \<Rightarrow> (case discover (rp_readiness deps) (rp_provider_check deps) cx of Inl f \<Rightarrow> (Inl (RestScope f), w)
       | Inr res \<Rightarrow> (case project_result res of None \<Rightarrow> (Inl RestOther, w) | Some x \<Rightarrow> (Inr (answer 200 (ProvidersBody x)), w)))
   | FetchRoute b \<Rightarrow> with_payload locations (valid_payload (\<lambda>(urls, level). map_option (\<lambda>u. (u, level)) (rest_fetch_request (rp_unicode deps) urls)) b) (\<lambda>(urls, level) w.
       try_seq (rest_content_call (retrieval_fetch (rp_retrieval deps)
           (execution_context opid p (w_clock (rw_content w)) (rt_operation_timeout_seconds (st_retrieval s))) urls level) w)
         (\<lambda>res w. (projected FetchBody res, w))) w
   | MetadataRoute c \<Rightarrow> with_payload locations (if content_path_id c then Some c else None) (\<lambda>c w.
       try_seq (rest_content_call (metadata cx c) w) (\<lambda>x w. (Inr (answer 200 (MetadataBody (success opid x))), w))) w
   | RepresentationsRoute c \<Rightarrow> with_payload locations (if content_path_id c then Some c else None) (\<lambda>c w.
       try_seq (rest_content_call (representations cx c) w) (\<lambda>x w. (Inr (answer 200 (RepresentationsBody (success opid x))), w))) w
   | DataRoute c \<Rightarrow> with_payload locations (if content_path_id c then Some c else None) (\<lambda>c w.
       try_seq (rest_content_call (open_data (rp_content deps) cx c) w) (\<lambda>x w. (data_answer (rq_range rq) x, w))) w
   | InspectRoute b \<Rightarrow> with_payload locations (valid_payload rest_content_ids b) (\<lambda>ids w.
       try_seq (rest_content_call (inspect_many (rp_content deps) cx ids) w) (\<lambda>res w. (projected InspectBody res, w))) w
   | NativeParseRoute b \<Rightarrow> with_payload locations (valid_payload rest_content_ids b) (\<lambda>ids w.
       try_seq (rest_content_call (native_parse_many (rp_content deps) cx ids) w) (\<lambda>res w. (projected ParseBody res, w))) w
   | _ \<Rightarrow> (Inl RestOther, w))"

definition public_handler :: "'z rest_deps \<Rightarrow> rest_route \<Rightarrow> rest_answer rst" where
  "public_handler deps r w = (case r of
     HealthLive \<Rightarrow> (Inr (answer 200 LiveBody), w)
   | HealthReady \<Rightarrow> (map_sum (\<lambda>_. RestOther) (\<lambda>ready. answer (if ready then 200 else 503) (ReadyBody ready))
         (readiness (rp_health deps) (w_now (rw_content w)) (rp_checks deps)), w)
   | MetricsRoute \<Rightarrow> (Inr ((answer 200 MetricsBody)\<lparr>an_media := Some ''text/plain''\<rparr>), w)
   | _ \<Rightarrow> (Inl RestOther, w))"

definition route_handler :: "'z rest_deps \<Rightarrow> rest_headers \<Rightarrow> string \<Rightarrow> rest_route \<Rightarrow> rest_answer rst" where
  "route_handler deps rq opid r w =
     (if not_json r then (Inl (RestInvalid (rp_locations deps r)), w)
      else case route_scopes (rp_settings deps) r of
        None \<Rightarrow> public_handler deps r w
      | Some scopes \<Rightarrow> (case route_principal deps rq scopes of Inl e \<Rightarrow> (Inl e, w)
          | Inr p \<Rightarrow> authorized_handler deps rq opid p r w))"

text \<open>The middleware, the exception handlers and the outermost error handler; \<open>None\<close> is a request that was cancelled.\<close>

definition rest_app :: "'z rest_deps \<Rightarrow> rest_headers \<Rightarrow> rest_route \<Rightarrow> rest_world \<Rightarrow> rest_answer option \<times> rest_world" where
  "rest_app deps rq r w = (case fresh_operation deps w of (opid, w) \<Rightarrow> case response_request_id deps (rq_request_id rq) w of (rid, w) \<Rightarrow>
     (case route_handler deps rq opid r w of (res, w) \<Rightarrow>
       (let tag = (\<lambda>a. a\<lparr>an_headers := an_headers a @ [(''X-Request-ID'', cps rid), (''X-Operation-ID'', cps opid)]\<rparr>) in
        case res of Inr a \<Rightarrow> (Some (tag a), w)
        | Inl e \<Rightarrow> if lost_request e then (None, w)
            else (case handled e of Some a \<Rightarrow> (Some (tag a), w) | None \<Rightarrow> (Some internal_answer, w)))))"

section \<open>Statuses\<close>

lemma operation_status_error: "operation_status (Some c) \<in> {401, 403, 404, 409, 422, 429, 500, 502, 503, 504}"
  by (cases c) auto

lemma failure_code: "machine_code (auth_failure_value f)"
  by (cases f) (simp_all add: machine_code_def machine_char_def)

lemma op_error_ok: "machine_code c \<Longrightarrow> operation_error_ok (op_error cat c)"
  by (simp add: op_error_def operation_error_ok_def)

lemma error_answer_Some: "error_answer n e = Some a \<longleftrightarrow> operation_error_ok e \<and> a = answer n (ErrorBody e)"
  by (auto simp: error_answer_def)

lemma failure_answer: "error_answer n (op_error cat (auth_failure_value f)) = Some (answer n (ErrorBody (op_error cat (auth_failure_value f))))"
  by (simp add: error_answer_Some op_error_ok failure_code)

definition error_statuses :: "int set" where
  "error_statuses = {401, 403, 404, 409, 422, 500}"

lemma handled_error:
  assumes "handled e = Some a"
  shows "\<exists>err. an_body a = ErrorBody err \<and> operation_error_ok err \<and> an_status a \<in> error_statuses"
  using assms by (cases e rule: handled.cases)
    (auto simp: error_answer_Some answer_def error_statuses_def split: option.split_asm elim!: content_status.elims)

text \<open>What the body of an answer says, and its status.\<close>

definition operation_truthful :: "int \<Rightarrow> 'd PublicOperationResult \<Rightarrow> bool" where
  "operation_truthful status p \<longleftrightarrow> status = operation_status (map_option oe_category (pr_error p))
     \<and> (status = 200 \<longleftrightarrow> pr_error p = None) \<and> (pr_error p = None \<longleftrightarrow> pr_outcome p \<in> {PO_SUCCEEDED, PO_PARTIAL})"

definition succeeded :: "int \<Rightarrow> 'd PublicOperationResult \<Rightarrow> bool" where
  "succeeded status p \<longleftrightarrow> status = 200 \<and> pr_outcome p = PO_SUCCEEDED \<and> pr_error p = None"

fun truthful :: "int \<Rightarrow> rest_body \<Rightarrow> bool" where
  "truthful status (ErrorBody e) = (status \<in> error_statuses \<and> operation_error_ok e)"
| "truthful status (SearchBody p) = operation_truthful status p"
| "truthful status (FetchBody p) = operation_truthful status p"
| "truthful status (InspectBody p) = operation_truthful status p"
| "truthful status (ParseBody p) = operation_truthful status p"
| "truthful status (MetadataBody p) = succeeded status p"
| "truthful status (RepresentationsBody p) = succeeded status p"
| "truthful status (ProvidersBody p) = succeeded status p"
| "truthful status (ReadyBody b) = (status = (if b then 200 else 503))"
| "truthful status NoBody = (status = 416)"
| "truthful status LiveBody = (status = 200)"
| "truthful status MetricsBody = (status = 200)"
| "truthful status (StatusBody s) = (status = 200)"
| "truthful status (DataBody bs) = (status = 200)"

lemma projected_truthful:
  assumes "projected body r = Inr a" "operation_result_ok r"
  shows "\<exists>p. a = answer (an_status a) (body p) \<and> operation_truthful (an_status a) p"
proof -
  obtain p where p: "project_result r = Some p" "a = answer (operation_status (map_option oe_category (or_error r))) (body p)"
    using assms(1) by (auto simp: projected_def split: option.split_asm)
  have "pr_error p = or_error r \<and> (pr_outcome p \<in> {PO_SUCCEEDED, PO_PARTIAL} \<longleftrightarrow> or_outcome r \<in> {OO_SUCCEEDED, OO_PARTIAL_SUCCESS})"
    using p(1) by (cases "or_outcome r") (auto simp: project_result_def public_outcome_def public_of_value_def)
  moreover have "or_error r = None \<longleftrightarrow> or_outcome r \<in> {OO_SUCCEEDED, OO_PARTIAL_SUCCESS}"
    using assms(2) by (auto simp: operation_result_ok_def split: if_split_asm)
  moreover have "operation_status (map_option oe_category (or_error r)) = 200 \<longleftrightarrow> or_error r = None"
  proof (cases "or_error r")
    case (Some e)
    then show ?thesis using operation_status_error [of "oe_category e"] by auto
  qed simp
  ultimately show ?thesis using p(2) by (auto simp: operation_truthful_def answer_def)
qed

lemma inspect_many_complete:
  assumes "inspect_many sv cx cids w = (Inr res, w')"
  shows "operation_result_ok res"
proof -
  obtain f items w1 w2 where run: "batch_loop f 0 cids w1 = (Inr items, w2)" "content_batch_result (cx_operation_id cx) items = Inr res"
    using assms by (auto simp: inspect_many_def res_simps)
  have items: "list_all batch_item_ok items" using batch_loop_items [OF run(1)] by auto
  have "items \<noteq> []" using run(2) by (auto simp: content_batch_result_def aggregate_batch_outcome_def)
  from content_batch_result_ok [OF this items, of "cx_operation_id cx"] run(2) show ?thesis by auto
qed

lemma rest_content_call_Inr: "rest_content_call f w = (Inr x, w') \<longleftrightarrow> f (rw_content w) = (Inr x, rw_content w') \<and> w' = w\<lparr>rw_content := rw_content w'\<rparr>"
  by (cases "f (rw_content w)"; cases "fst (f (rw_content w))") (auto simp: rest_content_call_def)

lemma rest_search_call_Inr: "rest_search_call f w = (Inr x, w') \<longleftrightarrow> f (rw_search w) = (Inr x, rw_search w') \<and> w' = w\<lparr>rw_search := rw_search w'\<rparr>"
  by (cases "f (rw_search w)"; cases "fst (f (rw_search w))") (auto simp: rest_search_call_def)

lemma map_sum_Inr: "map_sum f g x = Inr y \<longleftrightarrow> (\<exists>b. x = Inr b \<and> y = g b)"
  by (cases x) auto

lemma native_parse_many_ok: "native_parse_many sv cx cids w = (Inr res, w') \<Longrightarrow> operation_result_ok res"
  using native_parse_many_complete by blast

lemma search_ok: "search sv cx qs w = (Inr res, w') \<Longrightarrow> operation_result_ok res"
  using search_batch_complete by blast

lemma retrieval_ok: "retrieval_fetch sv cx urls level w = (Inr res, w') \<Longrightarrow> urls \<noteq> [] \<Longrightarrow> operation_result_ok res"
  using retrieval_batch_complete [of urls sv cx level w "Inr res" w'] by simp

lemma rest_fetch_request_ne: "rest_fetch_request lib urls = Some us \<Longrightarrow> us \<noteq> []"
  by (auto simp: rest_fetch_request_def split: if_split_asm)

text \<open>The body that answers a route, when it is not an error.\<close>

fun route_body :: "rest_route \<Rightarrow> rest_body \<Rightarrow> bool" where
  "route_body HealthLive b = (b = LiveBody)"
| "route_body HealthReady b = (\<exists>x. b = ReadyBody x)"
| "route_body HealthStatus b = (\<exists>x. b = StatusBody x)"
| "route_body MetricsRoute b = (b = MetricsBody)"
| "route_body (SearchRoute _) b = (\<exists>x. b = SearchBody x)"
| "route_body ProvidersRoute b = (\<exists>x. b = ProvidersBody x)"
| "route_body (FetchRoute _) b = (\<exists>x. b = FetchBody x)"
| "route_body (MetadataRoute _) b = (\<exists>x. b = MetadataBody x)"
| "route_body (RepresentationsRoute _) b = (\<exists>x. b = RepresentationsBody x)"
| "route_body (DataRoute _) b = (b = NoBody \<or> (\<exists>x. b = DataBody x))"
| "route_body (InspectRoute _) b = (\<exists>x. b = InspectBody x)"
| "route_body (NativeParseRoute _) b = (\<exists>x. b = ParseBody x)"

definition good_answer :: "rest_route \<Rightarrow> rest_answer \<Rightarrow> bool" where
  "good_answer r a \<longleftrightarrow> truthful (an_status a) (an_body a) \<and> route_body r (an_body a)"

lemma with_payload_Inr: "with_payload ls v f w = (Inr a, w') \<longleftrightarrow> (\<exists>x. v = Some x \<and> f x w = (Inr a, w'))"
  by (auto simp: with_payload_def split: option.split)

lemma data_answer_good: "data_answer rng d = Inr a \<Longrightarrow> good_answer (DataRoute c) a"
  by (auto simp: data_answer_def with_headers_def good_answer_def split: if_split_asm)

lemma projected_good:
  assumes "projected body res = Inr a" "operation_result_ok res"
    "\<And>p. truthful (an_status a) (body p) = operation_truthful (an_status a) p" "\<And>p. route_body r (body p)"
  shows "good_answer r a"
proof -
  obtain p where p: "a = answer (an_status a) (body p)" "operation_truthful (an_status a) p"
    using projected_truthful [OF assms(1, 2)] by blast
  have "an_body a = body p" by (subst p(1)) (simp add: answer_def)
  then show ?thesis using p(2) assms(3, 4) by (simp add: good_answer_def)
qed

lemma discover_projected:
  assumes "discover rs check cx = Inr res" "project_result res = Some p"
  shows "succeeded 200 p"
  using assms by (auto simp: discover_def res_bind_Inr project_result_def public_outcome_def public_of_value_def succeeded_def)

lemma authorized_answer_good:
  assumes "authorized_handler deps rq opid p r w = (Inr a, w')"
  shows "good_answer r a"
proof (cases r)
  case (SearchRoute b)
  then show ?thesis using assms
    by (auto simp: authorized_handler_def with_payload_Inr try_seq_Inr rest_search_call_Inr elim!: projected_good dest!: search_ok split: option.split_asm)
next
  case (FetchRoute b)
  then show ?thesis using assms
    by (auto simp: authorized_handler_def with_payload_Inr try_seq_Inr rest_content_call_Inr valid_payload_def intro!: projected_good
        dest!: retrieval_ok rest_fetch_request_ne split: payload.split_asm)
next
  case (InspectRoute b)
  then show ?thesis using assms
    by (auto simp: authorized_handler_def with_payload_Inr try_seq_Inr rest_content_call_Inr intro: projected_good dest: inspect_many_complete)
next
  case (NativeParseRoute b)
  then show ?thesis using assms
    by (auto simp: authorized_handler_def with_payload_Inr try_seq_Inr rest_content_call_Inr intro: projected_good dest: native_parse_many_ok)
next
  case (DataRoute c)
  then show ?thesis using assms
    by (auto simp: authorized_handler_def with_payload_Inr try_seq_Inr rest_content_call_Inr intro: data_answer_good)
next
  case ProvidersRoute
  then show ?thesis using assms
    by (auto simp: authorized_handler_def good_answer_def answer_def dest: discover_projected split: sum.split_asm option.split_asm)
qed (use assms in \<open>auto simp: authorized_handler_def with_payload_Inr try_seq_Inr good_answer_def answer_def success_def succeeded_def map_sum_Inr
  split: sum.split_asm\<close>)

lemma public_answer_good:
  assumes "public_handler deps r w = (Inr a, w')"
  shows "good_answer r a"
  using assms by (cases r) (auto simp: public_handler_def good_answer_def answer_def map_sum_Inr split: sum.split_asm if_split_asm)

lemma route_answer_good:
  assumes "route_handler deps rq opid r w = (Inr a, w')"
  shows "good_answer r a"
  using assms by (auto simp: route_handler_def split: if_split_asm option.split_asm sum.split_asm
      dest: public_answer_good authorized_answer_good)

lemma internal_error: "an_body internal_answer = ErrorBody (op_error INTERNAL ''internal_error'')" "an_status internal_answer = 500"
    "operation_error_ok (op_error INTERNAL ''internal_error'')"
  by (simp_all add: internal_answer_def answer_def op_error_ok machine_code_def machine_char_def)

text \<open>The middleware leaves the services alone and asks the route once.\<close>

lemma rest_app_route:
  assumes "rest_app deps rq r w = (a, w')"
  shows "\<exists>opid v res tags. rw_content v = rw_content w \<and> rw_search v = rw_search w \<and> route_handler deps rq opid r v = (res, w')
    \<and> a = (case res of Inr b \<Rightarrow> Some (b\<lparr>an_headers := an_headers b @ tags\<rparr>)
        | Inl e \<Rightarrow> if lost_request e then None
            else (case handled e of Some b \<Rightarrow> Some (b\<lparr>an_headers := an_headers b @ tags\<rparr>) | None \<Rightarrow> Some internal_answer))"
proof -
  obtain opid w1 where 1: "fresh_operation deps w = (opid, w1)" by fastforce
  obtain rid w2 where 2: "response_request_id deps (rq_request_id rq) w1 = (rid, w2)" by fastforce
  obtain res w3 where 3: "route_handler deps rq opid r w2 = (res, w3)" by fastforce
  have "rw_content w2 = rw_content w \<and> rw_search w2 = rw_search w"
    using 1 2 by (auto simp: fresh_operation_def response_request_id_def split: option.split_asm if_split_asm)
  moreover have "w3 = w' \<and> a = (case res of Inr b \<Rightarrow> Some (b\<lparr>an_headers := an_headers b @ [(''X-Request-ID'', cps rid), (''X-Operation-ID'', cps opid)]\<rparr>)
        | Inl e \<Rightarrow> if lost_request e then None
            else (case handled e of Some b \<Rightarrow> Some (b\<lparr>an_headers := an_headers b @ [(''X-Request-ID'', cps rid), (''X-Operation-ID'', cps opid)]\<rparr>) | None \<Rightarrow> Some internal_answer))"
    using assms by (auto simp: rest_app_def 1 2 3 Let_def split: sum.split_asm option.split_asm if_split_asm)
  ultimately show ?thesis using 3 by blast
qed

lemma require_scopes_ok: "require_scopes p ss = Inr () \<longleftrightarrow> ''*'' \<in> pc_scopes p \<or> set ss \<subseteq> pc_scopes p"
  by (induction ss) (auto simp: require_scope_def)

lemma require_scopes_error: "require_scopes p ss = Inl e \<Longrightarrow> e = RestScope INSUFFICIENT_SCOPE"
  by (induction ss) (auto simp: require_scope_def split: if_split_asm)

text \<open>Invalid requests, and the two inputs for which the answer is an internal error.\<close>

lemma handled_invalid:
  "handled (RestInvalid locations) = (if \<exists>p \<in> set (take 32 locations). 256 < length p then None
     else Some (answer 422 (ErrorBody (invalid_request locations))))"
proof -
  have "machine_code ''invalid_request''" "machine_code ''invalid_value''" by code_simp+
  then have "operation_error_ok (invalid_request locations) \<longleftrightarrow> (\<forall>p \<in> set (take 32 locations). length p \<le> 256)"
    by (simp add: operation_error_ok_def invalid_request_def op_error_def field_error_ok_def list_all_iff)
  then show ?thesis by (auto simp: error_answer_def not_le)
qed

lemma op_error_fields: "oe_category (op_error cat code) = cat" "oe_code (op_error cat code) = code"
  by (simp_all add: op_error_def)

lemma strip_by_no: "set (strip_by p xs) \<subseteq> set xs"
proof -
  have "set (dropWhile p (rev (dropWhile p xs))) \<subseteq> set xs" by (auto dest!: set_dropWhileD)
  then show ?thesis by (simp add: strip_by_def)
qed

lemma safe_name_safe:
  "safe_name f \<noteq> [] \<and> length (safe_name f) \<le> 150 \<and> (\<forall>c \<in> set (safe_name f). 32 \<le> c \<and> c \<notin> {34, 47, 92})"
proof -
  have clean: "\<forall>c \<in> set (take 150 (strip_by q (map (\<lambda>c. if c \<in> {34, 47, 92} \<or> c < 32 then 95 else c) s))). 32 \<le> c \<and> c \<notin> {34, 47, 92}"
    for q and s :: ustr
  proof
    fix c
    assume "c \<in> set (take 150 (strip_by q (map (\<lambda>c. if c \<in> {34, 47, 92} \<or> c < 32 then 95 else c) s)))"
    then have "c \<in> set (map (\<lambda>c. if c \<in> {34, 47, 92} \<or> c < 32 then 95 else c) s)" by (rule subsetD [OF strip_by_no in_set_takeD])
    then show "32 \<le> c \<and> c \<notin> {34, 47, 92}" by (auto split: if_splits)
  qed
  have default: "\<forall>c \<in> set (cps ''content.bin''). 32 \<le> c \<and> c \<notin> {34, 47, 92}" "cps ''content.bin'' \<noteq> []" "length (cps ''content.bin'') \<le> 150"
    by (simp_all add: cps_def)
  obtain s where s: "safe_name f = (let t = take 150 (strip_by (\<lambda>c. c = 32 \<or> c = 46) (map (\<lambda>c. if c \<in> {34, 47, 92} \<or> c < 32 then 95 else c) s))
      in if t = [] then cps ''content.bin'' else t)"
    by (simp only: safe_name_def Let_def)
  define t where "t = take 150 (strip_by (\<lambda>c. c = 32 \<or> c = 46) (map (\<lambda>c. if c \<in> {34, 47, 92} \<or> c < 32 then 95 else c) s))"
  have "length t \<le> 150" "\<forall>c \<in> set t. 32 \<le> c \<and> c \<notin> {34, 47, 92}" using clean by (simp_all only: t_def length_take min.cobounded2)
  then show ?thesis unfolding s t_def [symmetric] Let_def using default by (cases "t = []") simp_all
qed

lemma download_media_type_safe:
  "safe_download_media_type m \<notin> {''text/html'', ''image/svg+xml''} \<and> media_type_syntax (safe_download_media_type m)"
proof -
  have "media_type_syntax ''application/octet-stream''" by code_simp
  then show ?thesis by (auto simp: safe_download_media_type_def Let_def split: option.split)
qed

lemma data_answer_body:
  assumes "data_answer rng d = Inr a" "an_body a = DataBody bs"
  shows "bs = as_stream d \<and> rng = None \<and> an_status a = 200 \<and> an_media a = Some (safe_download_media_type (cr_media_type (as_content d)))
    \<and> an_headers a = [(''Content-Length'', str_of_int (cr_size_bytes (as_content d))),
         (''Content-Disposition'', content_disposition (as_source_filename d)), (''X-Content-Type-Options'', cps ''nosniff'')]
    \<and> (\<forall>c \<in> set (content_disposition (as_source_filename d)). c < 256)"
  using assms by (auto simp: data_answer_def with_headers_def list_all_iff split: if_split_asm)

text \<open>A name outside Latin-1 makes the header unencodable: the download ends in the outermost error handler.\<close>

lemma download_name_unencodable:
  assumes "c \<in> set (safe_name (as_source_filename d))" "256 \<le> c"
  shows "data_answer None d = Inl RestOther"
proof -
  have "\<not> list_all (\<lambda>c. c < 256) (content_disposition (as_source_filename d))"
    using assms by (auto simp: content_disposition_def list_all_iff not_less)
  then show ?thesis by (simp add: data_answer_def with_headers_def)
qed

lemma context_principal: "cx_principal (execution_context opid p clock t) = p"
  by (simp add: execution_context_def)

lemma data_route_only:
  assumes "route_handler deps rq opid r v = (Inr b, w')" "an_body b = DataBody bs"
  shows "\<exists>c p cx d. r = DataRoute c \<and> open_data (rp_content deps) cx c (rw_content v) = (Inr d, rw_content w') \<and> data_answer (rq_range rq) d = Inr b
    \<and> authenticate_header (rp_auth deps) (rq_authorization rq) = Inr p \<and> cx_principal cx = p"
proof -
  have "route_body r (DataBody bs)" using route_answer_good [OF assms(1)] assms(2) by (simp add: good_answer_def)
  then obtain c where r: "r = DataRoute c" by (cases r) auto
  then show ?thesis using assms
    by (auto simp: route_handler_def route_scopes_def not_json_def route_principal_def res_bind_Inr authorized_handler_def with_payload_Inr
        try_seq_Inr rest_content_call_Inr Let_def split: sum.split_asm if_split_asm)
      (metis context_principal)
qed

section \<open>Properties\<close>

subsection \<open>An example application\<close>

text \<open>The services of the other examples behind a provider that knows one caller, who may read Content only.\<close>

definition demo_rest :: "unit rest_deps" where
  "demo_rest = \<lparr>rp_settings = demo_settings, rp_auth = (\<lambda>t. Inr (if t = cps ''reader-token-00001'' then Some demo_principal else None)),
     rp_hex = (\<lambda>n. replicate 31 (CHR ''0'') @ [if n = 0 then CHR ''0'' else CHR ''1'']),
     rp_health = \<lparr>hs_probes = [], hs_bootstrapped = True, hs_draining = True\<rparr>, rp_checks = [],
     rp_search = demo_service MODE_DISABLED (\<lambda>_. 0) demo_miss,
     rp_readiness = \<lparr>rs_providers = \<lparr>pr_providers = [demo_provider], pr_default = YANDEX\<rparr>, rs_probes = []\<rparr>,
     rp_provider_check = (\<lambda>_. Inl ()), rp_content = rs_content demo_retrieval, rp_retrieval = demo_retrieval, rp_unicode = demo_lib,
     rp_language = demo_language, rp_locations = (\<lambda>_. [''body''])\<rparr>"

definition demo_headers :: rest_headers where
  "demo_headers = \<lparr>rq_authorization = Some ''Bearer reader-token-00001'', rq_request_id = None, rq_range = None\<rparr>"

definition demo_rest_world :: rest_world where
  "demo_rest_world = \<lparr>rw_content = demo_world [], rw_search = demo_search_world, rw_ids = 0\<rparr>"

lemma demo_reader: "authenticate_header (rp_auth demo_rest) (rq_authorization demo_headers) = Inr demo_principal"
  by code_simp

text \<open>C34: No REST request is served without its scopes. Let a route ask for a principal, and let the Authorization header not
  authenticate one who holds all scopes of that route or the wildcard. Then neither the Content nor the search service does
  anything, and the answer is an error: 401 with a challenge for a header that authenticates nobody, 403 for a missing
  scope, and 500 for a header that is not ASCII. Only a body that is not JSON is reported before.\<close>

theorem rest_access_enforced:
  assumes "route_scopes (rp_settings deps) r = Some scopes"
    and "\<And>p. authenticate_header (rp_auth deps) (rq_authorization rq) = Inr p \<Longrightarrow> ''*'' \<notin> pc_scopes p \<and> \<not> set scopes \<subseteq> pc_scopes p"
    and "rest_app deps rq r w = (a, w')"
  shows "rw_content w' = rw_content w \<and> rw_search w' = rw_search w
    \<and> (\<exists>b e. a = Some b \<and> an_body b = ErrorBody e
        \<and> (if not_json r then an_status b \<in> {422, 500}
           else case authenticate_header (rp_auth deps) (rq_authorization rq) of
               Inl (RestAuthenticationError f) \<Rightarrow> an_status b = 401 \<and> oe_category e = AUTHENTICATION \<and> oe_code e = auth_failure_value f
                 \<and> map_of (an_headers b) ''WWW-Authenticate'' = Some (cps ''Bearer'')
             | Inl NonAsciiText \<Rightarrow> an_status b = 500
             | Inr p \<Rightarrow> an_status b = 403 \<and> oe_category e = PERMISSION \<and> oe_code e = ''insufficient_scope''))"
proof -
  obtain opid v res tags where v: "rw_content v = rw_content w" "rw_search v = rw_search w" "route_handler deps rq opid r v = (res, w')"
    "a = (case res of Inr b \<Rightarrow> Some (b\<lparr>an_headers := an_headers b @ tags\<rparr>)
        | Inl e \<Rightarrow> if lost_request e then None
            else (case handled e of Some b \<Rightarrow> Some (b\<lparr>an_headers := an_headers b @ tags\<rparr>) | None \<Rightarrow> Some internal_answer))"
    using rest_app_route [OF assms(3)] by blast
  show ?thesis
  proof (cases "not_json r")
    case True
    then show ?thesis using v by (auto simp: route_handler_def handled_invalid answer_def internal_error simp del: handled.simps)
  next
    case False
    show ?thesis
    proof (cases "authenticate_header (rp_auth deps) (rq_authorization rq)")
      case (Inl e)
      then have "res = Inl (RestAuth e)" "w' = v" using v(3) False assms(1) by (auto simp: route_handler_def route_principal_def)
      then show ?thesis using v False Inl by (cases e) (auto simp: failure_answer answer_def op_error_fields internal_error)
    next
      case (Inr p)
      then have "require_scopes p scopes = Inl (RestScope INSUFFICIENT_SCOPE)"
        using assms(2) [OF Inr] require_scopes_ok [of p scopes] require_scopes_error [of p scopes]
        by (cases "require_scopes p scopes") auto
      then have "res = Inl (RestScope INSUFFICIENT_SCOPE)" "w' = v" using v(3) False assms(1) Inr by (auto simp: route_handler_def route_principal_def)
      then show ?thesis using v False Inr failure_answer [of 403 PERMISSION INSUFFICIENT_SCOPE] by (auto simp: answer_def op_error_fields)
    qed
  qed
qed

theorem rest_access_enforced_witness:
  "\<exists>b w'. rest_app demo_rest demo_headers (SearchRoute (Payload [demo_search_query])) demo_rest_world = (Some b, w')
    \<and> an_status b = 403 \<and> rw_search w' = demo_search_world"
proof -
  obtain a w' where run: "rest_app demo_rest demo_headers (SearchRoute (Payload [demo_search_query])) demo_rest_world = (a, w')" by fastforce
  have "route_scopes (rp_settings demo_rest) (SearchRoute (Payload [demo_search_query])) = Some [''search:read'']"
    by (simp add: route_scopes_def)
  from rest_access_enforced [OF this _ run] demo_reader run show ?thesis
    by (auto simp: demo_principal_def not_json_def demo_rest_world_def)
qed





end
