(* ===== verification/Mcp.thy ===== *)
theory Mcp
  imports Rest
begin

section \<open>The MCP server\<close>

text \<open>
  The four tools of \<open>transport/mcp/server.py\<close>. FastMCP has verified the bearer token and validated the arguments before a tool
  runs; both results are arguments of the call, the token's being absent when the context has none. The state is
  that of the REST facade, the same services.
\<close>

record 'z mcp_deps =
  mp_settings :: Settings
  mp_hex :: "nat \<Rightarrow> string"
  mp_search :: search_service
  mp_content :: content_service
  mp_retrieval :: "'z retrieval_service"
  mp_unicode :: unicode_lib
  mp_language :: language_lib

datatype mcp_exc = McpInvalid | McpRuntimeError | McpFails | McpCancelled

type_synonym 'a mcp = "rest_world \<Rightarrow> (mcp_exc + 'a) \<times> rest_world"

text \<open>\<open>McpRuntimeBinding\<close>: bound while the process serves.\<close>

type_synonym 'z mcp_binding = "'z mcp_deps option"

definition mcp_bind :: "'z mcp_deps \<Rightarrow> 'z mcp_binding \<Rightarrow> 'z mcp_binding" where
  "mcp_bind deps b = Some deps"

definition mcp_clear :: "'z mcp_binding \<Rightarrow> 'z mcp_binding" where
  "mcp_clear b = None"

definition mcp_call :: "'z mcp_binding \<Rightarrow> AccessToken option \<Rightarrow> ('z mcp_deps \<times> PrincipalContext \<times> string) mcp" where
  "mcp_call binding token w = (case token of None \<Rightarrow> (Inl McpRuntimeError, w)
     | Some t \<Rightarrow> (case binding of None \<Rightarrow> (Inl McpRuntimeError, w)
         | Some deps \<Rightarrow> (Inr (deps, principal_from_access_token t, new_id OPERATION (mp_hex deps (rw_ids w))), w\<lparr>rw_ids := Suc (rw_ids w)\<rparr>)))"

definition mcp_context :: "string \<Rightarrow> PrincipalContext \<Rightarrow> Clock \<Rightarrow> rat option \<Rightarrow> ExecutionContext" where
  "mcp_context opid p clock timeout = \<lparr>cx_operation_id = opid, cx_principal = p, cx_cancel_requested = False,
     cx_deadline = (case timeout of None \<Rightarrow> None | Some t \<Rightarrow> deadline_after clock t)\<rparr>"

definition rejected_result :: "string \<Rightarrow> AuthenticationFailure \<Rightarrow> 'd OperationResult" where
  "rejected_result opid f = \<lparr>or_operation_id = opid, or_outcome = OO_REJECTED, or_data = None,
     or_error = Some (op_error PERMISSION (auth_failure_value f)), or_warnings = [], or_hints = []\<rparr>"

definition mcp_project :: "'d OperationResult \<Rightarrow> mcp_exc + 'd PublicOperationResult" where
  "mcp_project r = (case project_result r of None \<Rightarrow> Inl McpFails | Some p \<Rightarrow> Inr p)"

text \<open>\<open>_authorize\<close> for each scope in turn; the first missing one is answered.\<close>

fun mcp_authorize :: "string \<Rightarrow> PrincipalContext \<Rightarrow> string list \<Rightarrow> 'd OperationResult option" where
  "mcp_authorize opid p [] = None"
| "mcp_authorize opid p (s # ss) = (case require_scope p s of Inl f \<Rightarrow> Some (rejected_result opid f) | Inr _ \<Rightarrow> mcp_authorize opid p ss)"

definition authorized_tool :: "'z mcp_binding \<Rightarrow> AccessToken option \<Rightarrow> string list
    \<Rightarrow> ('z mcp_deps \<Rightarrow> PrincipalContext \<Rightarrow> string \<Rightarrow> 'd OperationResult mcp) \<Rightarrow> 'd PublicOperationResult mcp" where
  "authorized_tool binding token scopes body w = try_seq (mcp_call binding token w) (\<lambda>(deps, p, opid) w.
     case mcp_authorize opid p scopes of Some denied \<Rightarrow> (mcp_project denied, w)
     | None \<Rightarrow> try_seq (body deps p opid w) (\<lambda>r w. (mcp_project r, w)))"

fun mcp_search_failure :: "search_exc \<Rightarrow> mcp_exc" where
  "mcp_search_failure SXCancelled = McpCancelled"
| "mcp_search_failure e = McpFails"

fun mcp_content_failure :: "content_exc \<Rightarrow> mcp_exc" where
  "mcp_content_failure ExcCancelled = McpCancelled"
| "mcp_content_failure e = McpFails"

definition on_content :: "'a io \<Rightarrow> 'a mcp" where
  "on_content f w = (case f (rw_content w) of (r, c) \<Rightarrow> (map_sum mcp_content_failure id r, w\<lparr>rw_content := c\<rparr>))"

definition on_search :: "'a sio \<Rightarrow> 'a mcp" where
  "on_search f w = (case f (rw_search w) of (r, s) \<Rightarrow> (map_sum mcp_search_failure id r, w\<lparr>rw_search := s\<rparr>))"

subsection \<open>The tools\<close>

text \<open>The arguments are those FastMCP validated against the annotations; the tool validates them once more.\<close>

definition web_search :: "'z mcp_binding \<Rightarrow> AccessToken option \<Rightarrow> web_search_input \<Rightarrow> SearchQueryData BatchItemResult list PublicOperationResult mcp" where
  "web_search binding token input = authorized_tool binding token [''search:read''] (\<lambda>deps p opid w.
     case mcp_search_input (mp_language deps) input of None \<Rightarrow> (Inl McpFails, w)
     | Some i \<Rightarrow> (case mcp_to_search_request (mp_language deps) i of None \<Rightarrow> (Inl McpFails, w)
         | Some qs \<Rightarrow> on_search (search (mp_search deps) (mcp_context opid p (sw_clock (rw_search w))
             (Some (ses_operation_timeout_seconds (st_search (mp_settings deps))))) qs) w))"

definition web_fetch :: "'z mcp_binding \<Rightarrow> AccessToken option \<Rightarrow> ustr list \<Rightarrow> RetrievalItemResult BatchItemResult list PublicOperationResult mcp" where
  "web_fetch binding token urls = authorized_tool binding token [''retrieval:read''] (\<lambda>deps p opid w.
     case mcp_fetch_input (mp_unicode deps) urls of None \<Rightarrow> (Inl McpFails, w)
     | Some urls \<Rightarrow> on_content (retrieval_fetch (mp_retrieval deps) (mcp_context opid p (w_clock (rw_content w))
         (Some (rt_operation_timeout_seconds (st_retrieval (mp_settings deps))))) urls NATIVE) w)"

text \<open>\<open>_content_error\<close>.\<close>

fun read_error_of :: "content_exc \<Rightarrow> LeafOutcome \<times> ErrorCategory \<times> string" where
  "read_error_of (ExcAuth f) = (LO_REJECTED, PERMISSION, auth_failure_value f)"
| "read_error_of ExcNotFound = (LO_FAILED, NOT_FOUND, ''content_not_found'')"
| "read_error_of ExcUnavailable = (LO_FAILED, CONFLICT, ''content_unavailable'')"
| "read_error_of ExcCursor = (LO_FAILED, VALIDATION, ''invalid_content_cursor'')"
| "read_error_of e = (LO_FAILED, INTERNAL, or_code (exc_code e))"

definition content_error :: "int \<Rightarrow> content_exc \<Rightarrow> 'd BatchItemResult" where
  "content_error i e = (case read_error_of e of (oc, cat, code) \<Rightarrow>
     \<lparr>bi_index = i, bi_outcome = oc, bi_data = None, bi_error = Some (op_error cat code), bi_warnings = [], bi_hints = []\<rparr>)"

fun read_items :: "content_service \<Rightarrow> ExecutionContext \<Rightarrow> int \<Rightarrow> int \<Rightarrow> (string \<times> string option) list \<Rightarrow> ContentReadResult BatchItemResult list io" where
  "read_items sv cx max_chars i [] w = (Inr [], w)"
| "read_items sv cx max_chars i ((c, cursor) # items) w = (case content_read sv cx c max_chars cursor w of
     (Inl ExcCancelled, w) \<Rightarrow> (Inl ExcCancelled, w)
   | (Inl e, w) \<Rightarrow> try_seq (read_items sv cx max_chars (i + 1) items w) (\<lambda>rs w. (Inr (content_error i e # rs), w))
   | (Inr x, w) \<Rightarrow> try_seq (read_items sv cx max_chars (i + 1) items w) (\<lambda>rs w. (Inr (batch_success i x # rs), w)))"

text \<open>\<open>_content_read_result\<close>.\<close>

definition content_read_result :: "string \<Rightarrow> ContentReadResult BatchItemResult list \<Rightarrow> mcp_exc + ContentReadResult BatchItemResult list OperationResult" where
  "content_read_result opid items = (case aggregate_batch_outcome (map bi_outcome items) of Inl _ \<Rightarrow> Inl McpFails
     | Inr oc \<Rightarrow> (if oc \<in> {OO_SUCCEEDED, OO_PARTIAL_SUCCESS}
         then Inr \<lparr>or_operation_id = opid, or_outcome = oc, or_data = Some items, or_error = None, or_warnings = [], or_hints = []\<rparr>
         else case filter (\<lambda>x. bi_error x \<noteq> None) items of [] \<Rightarrow> Inl McpFails
           | x # _ \<Rightarrow> Inr \<lparr>or_operation_id = opid, or_outcome = oc, or_data = Some items, or_error = bi_error x, or_warnings = [], or_hints = []\<rparr>))"

definition content_get :: "'z mcp_binding \<Rightarrow> AccessToken option \<Rightarrow> content_get_input \<Rightarrow> ContentReadResult BatchItemResult list PublicOperationResult mcp" where
  "content_get binding token input = authorized_tool binding token [''content:read''] (\<lambda>deps p opid w.
     if \<not> mcp_content_get input then (Inl McpFails, w)
     else try_seq (on_content (read_items (mp_content deps) (mcp_context opid p (w_clock (rw_content w)) None) (cg_max_chars input) 0 (cg_items input)) w)
       (\<lambda>items w. (content_read_result opid items, w)))"

definition content_parse :: "'z mcp_binding \<Rightarrow> AccessToken option \<Rightarrow> string list \<Rightarrow> NativeParseResult BatchItemResult list PublicOperationResult mcp" where
  "content_parse binding token ids = authorized_tool binding token [''content:read'', ''content:write''] (\<lambda>deps p opid w.
     if \<not> mcp_content_ids ids then (Inl McpFails, w)
     else on_content (native_parse_many (mp_content deps) (mcp_context opid p (w_clock (rw_content w)) None) ids) w)"

section \<open>Scopes\<close>

text \<open>A call that did not touch the services.\<close>

definition untouched :: "rest_world \<Rightarrow> rest_world \<Rightarrow> bool" where
  "untouched w w' \<longleftrightarrow> rw_content w' = rw_content w \<and> rw_search w' = rw_search w"

text \<open>What a caller without the scope is answered.\<close>

definition denied_call :: "rest_world \<Rightarrow> (mcp_exc + 'd PublicOperationResult) \<times> rest_world \<Rightarrow> bool" where
  "denied_call w r \<longleftrightarrow> untouched w (snd r) \<and> (\<exists>res e. fst r = Inr res \<and> pr_outcome res = PO_REJECTED \<and> pr_data res = None
     \<and> pr_error res = Some e \<and> oe_category e = PERMISSION \<and> oe_code e = ''insufficient_scope'')"

lemma mcp_authorize_ok: "mcp_authorize opid p ss = None \<longleftrightarrow> ''*'' \<in> pc_scopes p \<or> set ss \<subseteq> pc_scopes p"
  by (induction ss) (auto simp: require_scope_def)

lemma mcp_authorize_denied: "mcp_authorize opid p ss = Some r \<Longrightarrow> r = rejected_result opid INSUFFICIENT_SCOPE"
  by (induction ss) (auto simp: require_scope_def split: if_split_asm)

lemma rejected_projects: "mcp_project (rejected_result opid f) = Inr \<lparr>pr_operation_id = opid, pr_outcome = PO_REJECTED, pr_data = None,
    pr_error = Some (op_error PERMISSION (auth_failure_value f)), pr_warnings = [], pr_hints = []\<rparr>"
  by (simp add: mcp_project_def project_result_def rejected_result_def public_outcome_def public_of_value_def)

lemma authorized_tool_denied:
  fixes body :: "'z mcp_deps \<Rightarrow> PrincipalContext \<Rightarrow> string \<Rightarrow> 'd OperationResult mcp"
  assumes "''*'' \<notin> pc_scopes (principal_from_access_token t)" "\<not> set scopes \<subseteq> pc_scopes (principal_from_access_token t)"
  shows "denied_call w (authorized_tool (Some deps) (Some t) scopes body w)"
proof -
  define opid where "opid = new_id OPERATION (mp_hex deps (rw_ids w))"
  obtain r :: "'d OperationResult" where "mcp_authorize opid (principal_from_access_token t) scopes = Some r"
    using assms mcp_authorize_ok [of opid "principal_from_access_token t" scopes] by fastforce
  moreover from mcp_authorize_denied [OF this] have "r = rejected_result opid INSUFFICIENT_SCOPE" .
  ultimately have "authorized_tool (Some deps) (Some t) scopes body w =
      (mcp_project (rejected_result opid INSUFFICIENT_SCOPE), w\<lparr>rw_ids := Suc (rw_ids w)\<rparr>)"
    by (simp add: authorized_tool_def mcp_call_def opid_def [symmetric])
  then show ?thesis by (simp add: denied_call_def untouched_def rejected_projects op_error_fields)
qed

lemma authorized_tool_unbound: "binding = None \<or> token = None \<Longrightarrow> authorized_tool binding token scopes body w = (Inl McpRuntimeError, w)"
  by (auto simp: authorized_tool_def mcp_call_def split: option.split)

lemma authorized_tool_runs:
  assumes "''*'' \<in> pc_scopes (principal_from_access_token t) \<or> set scopes \<subseteq> pc_scopes (principal_from_access_token t)"
  shows "authorized_tool (Some deps) (Some t) scopes (body :: 'z mcp_deps \<Rightarrow> PrincipalContext \<Rightarrow> string \<Rightarrow> 'd OperationResult mcp) w =
    try_seq (body deps (principal_from_access_token t) (new_id OPERATION (mp_hex deps (rw_ids w))) (w\<lparr>rw_ids := Suc (rw_ids w)\<rparr>)) (\<lambda>r w. (mcp_project r, w))"
proof -
  have "(mcp_authorize opid (principal_from_access_token t) scopes :: 'd OperationResult option) = None" for opid
    using assms by (simp add: mcp_authorize_ok)
  then show ?thesis by (simp add: authorized_tool_def mcp_call_def)
qed

section \<open>Reading a batch\<close>

lemma content_error_ok: "0 \<le> i \<Longrightarrow> batch_item_ok (content_error i e) \<and> bi_index (content_error i e) = i"
  by (auto simp: content_error_def batch_item_ok_def split: prod.split) (cases e; simp)+

lemma read_success_ok: "0 \<le> i \<Longrightarrow> batch_item_ok (batch_success i x) \<and> bi_index (batch_success i x) = i"
  by (simp add: batch_success_def batch_item_ok_def)

lemma read_items_Cons:
  "read_items sv cx m i ((c, cursor) # reqs) w = (case content_read sv cx c m cursor w of (r, w1) \<Rightarrow>
     if r = Inl ExcCancelled then (Inl ExcCancelled, w1)
     else try_seq (read_items sv cx m (i + 1) reqs w1) (\<lambda>rs w.
       (Inr ((case r of Inl e \<Rightarrow> content_error i e | Inr x \<Rightarrow> batch_success i x) # rs), w)))"
  by (simp split: prod.split sum.split content_exc.split)

lemma read_items_ok:
  "read_items sv cx m i reqs w = (Inr items, w') \<Longrightarrow> 0 \<le> i \<Longrightarrow>
     map bi_index items = map (\<lambda>j. i + int j) [0..<length reqs] \<and> list_all batch_item_ok items"
proof (induction reqs arbitrary: i w items)
  case (Cons q reqs)
  obtain c cursor where q: "q = (c, cursor)" by fastforce
  obtain r w1 where r: "content_read sv cx c m cursor w = (r, w1)" by fastforce
  define it where "it = (case r of Inl e \<Rightarrow> content_error i e | Inr x \<Rightarrow> batch_success i x)"
  obtain items' where b: "read_items sv cx m (i + 1) reqs w1 = (Inr items', w')" "items = it # items'"
    using Cons.prems(1) unfolding q read_items_Cons r it_def [symmetric]
    by (auto simp: it_def try_seq_Inr split: if_split_asm)
  have it: "batch_item_ok it \<and> bi_index it = i"
  proof (cases r)
    case (Inl e)
    show ?thesis unfolding it_def Inl sum.case by (rule content_error_ok [OF Cons.prems(2)])
  next
    case (Inr x)
    show ?thesis unfolding it_def Inr sum.case by (rule read_success_ok [OF Cons.prems(2)])
  qed
  have "map bi_index items' = map (\<lambda>j. (i + 1) + int j) [0..<length reqs] \<and> list_all batch_item_ok items'"
    using Cons.IH [OF b(1)] Cons.prems(2) by simp
  then show ?case using b(2) it by (simp only: length_Cons upt_shift list.map list.pred_inject)
qed simp

lemma read_items_error: "read_items sv cx m i reqs w = (Inl e, w') \<Longrightarrow> e = ExcCancelled"
proof (induction reqs arbitrary: i w)
  case (Cons q reqs)
  obtain c cursor where q: "q = (c, cursor)" by fastforce
  obtain r w1 where r: "content_read sv cx c m cursor w = (r, w1)" by fastforce
  show ?case using Cons unfolding q read_items_Cons r by (auto simp: try_seq_Inl split: if_split_asm)
qed simp

lemma content_read_result_ok:
  assumes "items \<noteq> []" "list_all batch_item_ok items"
  shows "\<exists>res. content_read_result opid items = Inr res \<and> operation_result_ok res \<and> or_data res = Some items
    \<and> aggregate_batch_outcome (map bi_outcome items) = Inr (or_outcome res) \<and> or_operation_id res = opid"
proof -
  obtain res where res: "content_batch_result opid items = Inr res" "operation_result_ok res" "or_data res = Some items"
      "aggregate_batch_outcome (map bi_outcome items) = Inr (or_outcome res)"
    using content_batch_result_ok [OF assms] by blast
  show ?thesis
  proof (cases "or_outcome res \<in> {OO_SUCCEEDED, OO_PARTIAL_SUCCESS}")
    case True
    then show ?thesis using res by (auto simp: content_read_result_def content_batch_result_def operation_result_ok_def)
  next
    case False
    have "\<exists>x \<in> set items. bi_outcome x \<noteq> LO_SUCCEEDED"
      using False res(4) by (auto simp: aggregate_batch_outcome_def list_all_iff split: if_split_asm)
    then have "filter (\<lambda>x. bi_error x \<noteq> None) items \<noteq> []"
      using assms(2) by (fastforce simp: filter_empty_conv list_all_iff batch_item_ok_def)
    then obtain x xs where x: "filter (\<lambda>x. bi_error x \<noteq> None) items = x # xs" by (cases "filter (\<lambda>x. bi_error x \<noteq> None) items") auto
    then have "bi_error x \<noteq> None" by (metis (mono_tags, lifting) filter_eq_Cons_iff)
    then show ?thesis using False res(4) x by (auto simp: content_read_result_def operation_result_ok_def)
  qed
qed

lemma aggregate_projects: "aggregate_batch_outcome os = Inr oc \<Longrightarrow> public_outcome oc \<noteq> None"
  by (auto simp: aggregate_batch_outcome_def public_outcome_def public_of_value_def split: if_split_asm)

lemma mcp_project_fails: "mcp_project r = Inl e \<Longrightarrow> e = McpFails"
  by (auto simp: mcp_project_def split: option.split_asm)

lemma content_read_result_fails: "content_read_result opid items = Inl e \<Longrightarrow> e = McpFails"
  by (auto simp: content_read_result_def split: sum.split_asm if_split_asm list.split_asm)

lemma aggregate_success: "aggregate_batch_outcome os = Inr oc \<Longrightarrow> oc \<in> {OO_SUCCEEDED, OO_PARTIAL_SUCCESS} \<longleftrightarrow> LO_SUCCEEDED \<in> set os"
  by (cases os) (auto simp: aggregate_batch_outcome_def list_all_iff list_ex_iff split: if_split_asm)

section \<open>Properties\<close>

subsection \<open>An example server\<close>

definition demo_mcp :: "unit mcp_deps" where
  "demo_mcp = \<lparr>mp_settings = demo_settings, mp_hex = rp_hex demo_rest, mp_search = rp_search demo_rest, mp_content = rp_content demo_rest,
     mp_retrieval = demo_retrieval, mp_unicode = demo_lib, mp_language = demo_language\<rparr>"

definition demo_access_token :: AccessToken where
  "demo_access_token = \<lparr>at_token = cps ''reader-token-00001'', at_client_id = ''alice'', at_scopes = [''content:read''], at_claims = []\<rparr>"

text \<open>C37: No MCP tool acts for a caller without its scopes. Without an access token, or before the runtime is bound, every tool raises and
  leaves all state alone. A caller whose token has neither the wildcard nor all scopes of a tool gets a rejection with a
  permission error and no data, and neither the search nor the Content service does anything; reading does not
  grant parsing, which needs the write scope as well.\<close>

theorem mcp_scopes_enforced:
  assumes "''*'' \<notin> pc_scopes (principal_from_access_token t)"
  shows "(''search:read'' \<notin> pc_scopes (principal_from_access_token t) \<longrightarrow> denied_call w (web_search (Some deps) (Some t) input w))
    \<and> (''retrieval:read'' \<notin> pc_scopes (principal_from_access_token t) \<longrightarrow> denied_call w (web_fetch (Some deps) (Some t) urls w))
    \<and> (''content:read'' \<notin> pc_scopes (principal_from_access_token t) \<longrightarrow> denied_call w (content_get (Some deps) (Some t) items w))
    \<and> (\<not> {''content:read'', ''content:write''} \<subseteq> pc_scopes (principal_from_access_token t) \<longrightarrow> denied_call w (content_parse (Some deps) (Some t) ids w))
    \<and> (binding = None \<or> token = None \<longrightarrow> web_search binding token input w = (Inl McpRuntimeError, w)
         \<and> web_fetch binding token urls w = (Inl McpRuntimeError, w) \<and> content_get binding token items w = (Inl McpRuntimeError, w)
         \<and> content_parse binding token ids w = (Inl McpRuntimeError, w))"
proof -
  show ?thesis unfolding web_search_def web_fetch_def content_get_def content_parse_def
    by (intro conjI impI) (simp_all add: authorized_tool_denied [OF assms] authorized_tool_unbound)
qed

theorem mcp_scopes_enforced_witness:
  "denied_call demo_rest_world (content_parse (Some demo_mcp) (Some demo_access_token) [demo_id] demo_rest_world)
    \<and> denied_call demo_rest_world (web_search (Some demo_mcp) (Some demo_access_token) demo_input demo_rest_world)"
proof -
  have scopes: "pc_scopes (principal_from_access_token demo_access_token) = {''content:read''}"
    by (simp add: principal_from_access_token_def demo_access_token_def)
  then have "''*'' \<notin> pc_scopes (principal_from_access_token demo_access_token)" by simp
  from mcp_scopes_enforced [OF this, where w = demo_rest_world and deps = demo_mcp and input = demo_input and ids = "[demo_id]" and binding = None]
  show ?thesis unfolding scopes by blast
qed



end
