(* ===== verification/Observability.thy ===== *)
theory Observability
  imports Search_Admission Search_Providers Content_Parsers
begin

section \<open>Logs, correlation and metrics\<close>

text \<open>
  The redaction of log events (\<open>infrastructure/observability/logging.py\<close>), the correlation variables
  (\<open>application/common/correlation.py\<close>), the metrics (\<open>metrics.py\<close>) and the provider decorator that feeds them
  (\<open>infrastructure/observability/search.py\<close>). structlog's rendering, the Prometheus exposition format and spans are outside.
\<close>

subsection \<open>Redaction (logging.py)\<close>

text \<open>A value of a log event: a text or other scalar, bytes, a sequence, or a mapping with its keys as texts.\<close>

datatype log_value = LogText ustr | LogNumber rat | LogNone | LogBytes bytes | LogSeq "log_value list" | LogMap "(string \<times> log_value) list"

definition log_redacted :: log_value where
  "log_redacted = LogText (cps ''[REDACTED]'')"

definition sensitive_fragments :: "string list" where
  "sensitive_fragments = [''authorization'', ''cookie'', ''credential'', ''password'', ''secret'', ''token'', ''dsn'', ''body'', ''content'',
     ''query'', ''url'', ''path'']"

definition is_sensitive :: "string \<Rightarrow> bool" where
  "is_sensitive key = list_ex (\<lambda>f. contains f (str_lower key)) sensitive_fragments"

fun redact :: "log_value \<Rightarrow> log_value" where
  "redact (LogMap ms) = LogMap (map (\<lambda>(k, v). (k, if is_sensitive k then log_redacted else redact v)) ms)"
| "redact (LogSeq vs) = LogSeq (map redact vs)"
| "redact (LogBytes b) = log_redacted"
| "redact v = v"

definition redact_processor :: "(string \<times> log_value) list \<Rightarrow> (string \<times> log_value) list" where
  "redact_processor event = map (\<lambda>(k, v). (k, if is_sensitive k then log_redacted else redact v)) event"

subsection \<open>Correlation (correlation.py)\<close>

text \<open>The context variable: \<open>None\<close> until it is set.\<close>

type_synonym correlation = "(string \<rightharpoonup> string) option"

definition correlation_values :: "correlation \<Rightarrow> string \<rightharpoonup> string" where
  "correlation_values v = (case v of None \<Rightarrow> Map.empty | Some m \<Rightarrow> m)"

definition set_value :: "string \<Rightarrow> string option \<Rightarrow> (string \<rightharpoonup> string) \<Rightarrow> (string \<rightharpoonup> string)" where
  "set_value k x m = (case x of None \<Rightarrow> m | Some s \<Rightarrow> m(k \<mapsto> s))"

definition bind_correlation :: "string option \<Rightarrow> string option \<Rightarrow> string option \<Rightarrow> correlation \<Rightarrow> correlation" where
  "bind_correlation opid rid tid v = Some (set_value ''trace_id'' tid (set_value ''request_id'' rid (set_value ''operation_id'' opid (correlation_values v))))"

definition clear_correlation :: "correlation \<Rightarrow> correlation" where
  "clear_correlation v = Some Map.empty"

text \<open>\<open>correlation_context\<close> around a body; the token of the first \<open>set\<close> brings back what was there.\<close>

definition correlation_context :: "string option \<Rightarrow> string option \<Rightarrow> string option \<Rightarrow> (correlation \<Rightarrow> ('e + 'a) \<times> correlation)
    \<Rightarrow> correlation \<Rightarrow> ('e + 'a) \<times> correlation" where
  "correlation_context opid rid tid body v = (case body (bind_correlation opid rid tid (clear_correlation v)) of (r, _) \<Rightarrow> (r, v))"

text \<open>\<open>merge_correlation_processor\<close>: \<open>setdefault\<close> for each value, listed in the order they were set.\<close>

fun set_defaults :: "(string \<times> log_value) list \<Rightarrow> (string \<times> string) list \<Rightarrow> (string \<times> log_value) list" where
  "set_defaults event [] = event"
| "set_defaults event ((k, x) # xs) = set_defaults (if k \<in> set (map fst event) then event else event @ [(k, LogText (cps x))]) xs"

definition merge_correlation_processor :: "correlation \<Rightarrow> (string \<times> log_value) list \<Rightarrow> (string \<times> log_value) list" where
  "merge_correlation_processor v event = set_defaults event
     (concat (map (\<lambda>k. case correlation_values v k of None \<Rightarrow> [] | Some x \<Rightarrow> [(k, x)]) [''operation_id'', ''request_id'', ''trace_id'']))"

subsection \<open>Metrics (metrics.py)\<close>

text \<open>A series is a metric with its label values.\<close>

datatype metric = HttpRequests | RequestDuration | ReadinessGauge | ProviderCalls | ProviderDuration | CacheStates | AdmissionRejections
  | ResultCounts | ProviderTimeouts | InternalRetries | BillableAttempts | ProviderReadiness

record service_metrics =
  sm_count :: "metric \<times> string list \<Rightarrow> nat"
  sm_observed :: "metric \<times> string list \<Rightarrow> rat list"
  sm_gauge :: "metric \<times> string list \<Rightarrow> rat"

text \<open>The name and the label names of each metric.\<close>

fun metric_info :: "metric \<Rightarrow> string \<times> string list" where
  "metric_info HttpRequests = (''web_access_http_requests_total'', [''method'', ''route'', ''status_class''])"
| "metric_info RequestDuration = (''web_access_http_request_duration_seconds'', [''method'', ''route''])"
| "metric_info ReadinessGauge = (''web_access_ready'', [])"
| "metric_info ProviderCalls = (''web_access_search_provider_calls_total'', [''provider'', ''outcome''])"
| "metric_info ProviderDuration = (''web_access_search_provider_duration_seconds'', [''provider'', ''outcome''])"
| "metric_info CacheStates = (''web_access_search_cache_total'', [''provider'', ''state''])"
| "metric_info AdmissionRejections = (''web_access_search_admission_rejections_total'', [''provider'', ''kind''])"
| "metric_info ResultCounts = (''web_access_search_result_count'', [''provider''])"
| "metric_info ProviderTimeouts = (''web_access_search_provider_timeouts_total'', [''provider''])"
| "metric_info InternalRetries = (''web_access_search_internal_retries_total'', [''provider'', ''reason''])"
| "metric_info BillableAttempts = (''web_access_search_billable_attempts_total'', [''provider'', ''stage'', ''outcome''])"
| "metric_info ProviderReadiness = (''web_access_search_provider_readiness'', [''provider'', ''status''])"

definition create_metrics :: service_metrics where
  "create_metrics = \<lparr>sm_count = (\<lambda>_. 0), sm_observed = (\<lambda>_. []), sm_gauge = (\<lambda>_. 0)\<rparr>"

definition metric_inc :: "metric \<Rightarrow> string list \<Rightarrow> service_metrics \<Rightarrow> service_metrics" where
  "metric_inc x labels m = m\<lparr>sm_count := (sm_count m)((x, labels) := Suc (sm_count m (x, labels)))\<rparr>"

definition metric_observe :: "metric \<Rightarrow> string list \<Rightarrow> rat \<Rightarrow> service_metrics \<Rightarrow> service_metrics" where
  "metric_observe x labels v m = m\<lparr>sm_observed := (sm_observed m)((x, labels) := sm_observed m (x, labels) @ [v])\<rparr>"

definition metric_set :: "metric \<Rightarrow> string list \<Rightarrow> rat \<Rightarrow> service_metrics \<Rightarrow> service_metrics" where
  "metric_set x labels v m = m\<lparr>sm_gauge := (sm_gauge m)((x, labels) := v)\<rparr>"

definition observe_http_request :: "string \<Rightarrow> string \<Rightarrow> string \<Rightarrow> rat \<Rightarrow> service_metrics \<Rightarrow> service_metrics" where
  "observe_http_request verb route status_class seconds m =
     metric_observe RequestDuration [verb, route] seconds (metric_inc HttpRequests [verb, route, status_class] m)"

definition set_readiness :: "bool \<Rightarrow> service_metrics \<Rightarrow> service_metrics" where
  "set_readiness ready = metric_set ReadinessGauge [] (if ready then 1 else 0)"

definition observe_search_provider_call :: "string \<Rightarrow> string \<Rightarrow> rat \<Rightarrow> nat option \<Rightarrow> bool \<Rightarrow> service_metrics \<Rightarrow> service_metrics" where
  "observe_search_provider_call provider outcome seconds result_count timed_out m = (let
     m = metric_observe ProviderDuration [provider, outcome] seconds (metric_inc ProviderCalls [provider, outcome] m);
     m = (case result_count of None \<Rightarrow> m | Some n \<Rightarrow> metric_observe ResultCounts [provider] (of_nat n) m)
   in if timed_out then metric_inc ProviderTimeouts [provider] m else m)"

fun cache_state_value :: "CacheLookupState \<Rightarrow> string" where
  "cache_state_value CACHE_HIT = ''hit''"
| "cache_state_value CACHE_MISS = ''miss''"
| "cache_state_value CACHE_CORRUPT = ''corrupt''"
| "cache_state_value CACHE_UNAVAILABLE = ''unavailable''"

fun availability_value :: "Availability \<Rightarrow> string" where
  "availability_value AV_READY = ''ready''"
| "availability_value AV_DEGRADED = ''degraded''"
| "availability_value AV_UNAVAILABLE = ''unavailable''"

definition observe_search_cache :: "SearchProviderId \<Rightarrow> CacheLookupState \<Rightarrow> service_metrics \<Rightarrow> service_metrics" where
  "observe_search_cache p st = metric_inc CacheStates [provider_value p, cache_state_value st]"

definition observe_search_admission_rejection :: "SearchProviderId \<Rightarrow> string \<Rightarrow> service_metrics \<Rightarrow> service_metrics" where
  "observe_search_admission_rejection p kind = metric_inc AdmissionRejections [provider_value p, kind]"

definition observe_search_retry :: "SearchProviderId \<Rightarrow> string \<Rightarrow> service_metrics \<Rightarrow> service_metrics" where
  "observe_search_retry p reason = metric_inc InternalRetries [provider_value p, reason]"

definition observe_search_billable_attempt :: "SearchProviderId \<Rightarrow> AttemptStage \<Rightarrow> string \<Rightarrow> service_metrics \<Rightarrow> service_metrics" where
  "observe_search_billable_attempt p stage outcome = metric_inc BillableAttempts [provider_value p, stage_value stage, outcome]"

definition set_search_provider_readiness :: "SearchProviderId \<Rightarrow> Availability \<Rightarrow> service_metrics \<Rightarrow> service_metrics" where
  "set_search_provider_readiness p status m = foldl (\<lambda>m c. metric_set ProviderReadiness [provider_value p, c]
     (if availability_value status = c then 1 else 0) m) m [''ready'', ''degraded'', ''unavailable'']"

subsection \<open>The observed provider (search.py)\<close>

text \<open>The provider's answer and the clock before and after it; any other exception is recorded as a cancellation.\<close>

definition attempt_outcome :: "provider_exc + ProviderSearchResult \<Rightarrow> string" where
  "attempt_outcome r = (case r of Inr _ \<Rightarrow> ''succeeded''
     | Inl (PxAttempt e) \<Rightarrow> if oe_category (ae_error e) = UNKNOWN_OUTCOME then ''unknown'' else ''failed''
     | Inl _ \<Rightarrow> ''cancelled'')"

definition observed_search :: "SearchProviderId \<Rightarrow> rat \<Rightarrow> rat \<Rightarrow> provider_exc + ProviderSearchResult \<Rightarrow> service_metrics
    \<Rightarrow> (provider_exc + ProviderSearchResult) \<times> service_metrics" where
  "observed_search p started ended r m = (let seconds = max 0 (ended - started) in
     (r, observe_search_provider_call (provider_value p) (attempt_outcome r) seconds
        (case r of Inr x \<Rightarrow> Some (length (px_results x)) | Inl _ \<Rightarrow> None)
        (case r of Inl (PxAttempt e) \<Rightarrow> oe_category (ae_error e) = TIMEOUT | _ \<Rightarrow> False) m))"

section \<open>What reaches a log\<close>

text \<open>Two values that differ at most below sensitive keys and in bytes.\<close>

fun same_public :: "log_value \<Rightarrow> log_value \<Rightarrow> bool" where
  "same_public (LogMap ms) (LogMap ns) = list_all2 (\<lambda>m n. fst m = fst n \<and> (is_sensitive (fst m) \<or> same_public (snd m) (snd n))) ms ns"
| "same_public (LogSeq vs) (LogSeq ws) = list_all2 same_public vs ws"
| "same_public (LogBytes b) (LogBytes c) = True"
| "same_public v w = (v = w)"

text \<open>No mapping of the value holds anything else than the placeholder below a sensitive key, and no bytes are left.\<close>

fun clean_value :: "log_value \<Rightarrow> bool" where
  "clean_value (LogMap ms) = (\<forall>m \<in> set ms. if is_sensitive (fst m) then snd m = log_redacted else clean_value (snd m))"
| "clean_value (LogSeq vs) = (\<forall>v \<in> set vs. clean_value v)"
| "clean_value (LogBytes b) = False"
| "clean_value v = True"

lemma redact_clean: "clean_value (redact v)"
  by (induction v rule: redact.induct) (auto simp: log_redacted_def)

lemma redact_idem: "clean_value v \<Longrightarrow> redact v = v"
  by (induction v rule: clean_value.induct) (auto simp: map_idI split: if_splits prod.splits intro!: map_idI)

lemma map_list_all2:
  "list_all2 P xs ys \<Longrightarrow> (\<And>x y. x \<in> set xs \<Longrightarrow> y \<in> set ys \<Longrightarrow> P x y \<Longrightarrow> f x = f y) \<Longrightarrow> map f xs = map f ys"
  by (induction rule: list_all2_induct) auto

lemma redact_same: "same_public v w \<Longrightarrow> redact v = redact w"
proof (induction v w rule: same_public.induct)
  case (1 ms ns)
  have "map (\<lambda>(k, v). (k, if is_sensitive k then log_redacted else redact v)) ms = map (\<lambda>(k, v). (k, if is_sensitive k then log_redacted else redact v)) ns"
  proof (rule map_list_all2 [OF "1.prems" [unfolded same_public.simps]])
    fix m n
    assume m: "m \<in> set ms" "n \<in> set ns" "fst m = fst n \<and> (is_sensitive (fst m) \<or> same_public (snd m) (snd n))"
    then have "\<not> is_sensitive (fst m) \<Longrightarrow> redact (snd m) = redact (snd n)" using "1.IH" [OF m(1, 2)] by blast
    then show "(case m of (k, v) \<Rightarrow> (k, if is_sensitive k then log_redacted else redact v)) = (case n of (k, v) \<Rightarrow> (k, if is_sensitive k then log_redacted else redact v))"
      using m(3) by (cases m; cases n) auto
  qed
  then show ?case by simp
next
  case (2 vs ws)
  have "map redact vs = map redact ws" by (rule map_list_all2 [OF "2.prems" [unfolded same_public.simps]]) (rule "2.IH")
  then show ?case by simp
qed simp_all

lemma processor_map: "LogMap (redact_processor event) = redact (LogMap event)"
  by (simp add: redact_processor_def)

section \<open>Correlation and metrics\<close>

lemma correlation_restored: "snd (correlation_context opid rid tid body v) = v"
  by (simp add: correlation_context_def split: prod.split)

lemma set_defaults_keeps: "k \<in> set (map fst event) \<Longrightarrow> map_of (set_defaults event xs) k = map_of event k"
proof (induction event xs rule: set_defaults.induct)
  case (2 event k' x xs)
  then show ?case by (auto simp: map_of_append map_add_def split: option.splits if_splits)
qed simp

lemma provider_readiness_one_hot:
  "sm_gauge (set_search_provider_readiness p st m) (ProviderReadiness, [provider_value p, c]) =
    (if c \<in> {''ready'', ''degraded'', ''unavailable''} then (if c = availability_value st then 1 else 0)
     else sm_gauge m (ProviderReadiness, [provider_value p, c]))"
  by (auto simp: set_search_provider_readiness_def metric_set_def)

text \<open>A series with another number of labels than its metric does not exist.\<close>

definition metrics_labelled :: "service_metrics \<Rightarrow> bool" where
  "metrics_labelled m \<longleftrightarrow> (\<forall>x labels. length labels \<noteq> length (snd (metric_info x)) \<longrightarrow>
     sm_count m (x, labels) = 0 \<and> sm_observed m (x, labels) = [] \<and> sm_gauge m (x, labels) = 0)"

lemma metric_operations_labelled:
  assumes "metrics_labelled m"
  shows "metrics_labelled create_metrics" "metrics_labelled (observe_http_request a b c t m)" "metrics_labelled (set_readiness r m)"
    "metrics_labelled (observe_search_provider_call a b t n timed m)" "metrics_labelled (observe_search_cache p st m)"
    "metrics_labelled (observe_search_admission_rejection p a m)" "metrics_labelled (observe_search_retry p a m)"
    "metrics_labelled (observe_search_billable_attempt p sg a m)" "metrics_labelled (set_search_provider_readiness p av m)"
  using assms by (simp_all add: metrics_labelled_def create_metrics_def observe_http_request_def set_readiness_def observe_search_provider_call_def
      observe_search_cache_def observe_search_admission_rejection_def observe_search_retry_def observe_search_billable_attempt_def
      set_search_provider_readiness_def metric_inc_def metric_observe_def metric_set_def Let_def split: option.split)

lemma observed_search_transparent:
  "fst (observed_search p started ended r m) = r
   \<and> sm_count (snd (observed_search p started ended r m)) (ProviderCalls, [provider_value p, attempt_outcome r])
     = Suc (sm_count m (ProviderCalls, [provider_value p, attempt_outcome r]))
   \<and> (\<forall>c. c \<noteq> attempt_outcome r \<longrightarrow> sm_count (snd (observed_search p started ended r m)) (ProviderCalls, [provider_value p, c])
        = sm_count m (ProviderCalls, [provider_value p, c]))"
  by (auto simp: observed_search_def observe_search_provider_call_def metric_inc_def metric_observe_def Let_def split: option.split sum.split)

section \<open>Properties\<close>


definition demo_event :: "string \<Rightarrow> (string \<times> log_value) list" where
  "demo_event secret = [(''event'', LogText (cps ''runtime_starting'')),
     (''config'', LogMap [(''Api_Token'', LogText (cps secret)), (''port'', LogNumber 8000)]), (''raw'', LogSeq [LogBytes [1, 2]])]"


end
