(* ===== verification/Parser_Sandbox.thy ===== *)
theory Parser_Sandbox
  imports Parser_Isolation
begin

section \<open>The network filter of a parser child\<close>

text \<open>
  \<open>workers/parser_sandbox.py\<close>: the seccomp filter that the isolated worker installs before it runs a parser. libseccomp and
  \<open>prctl\<close> are arguments; the state is what they were asked to do and what the kernel has in force.
\<close>

datatype sandbox_exc = ParserSandboxUnavailable

text \<open>Resolving a name gives a negative number for a system call the kernel does not have.\<close>

record seccomp_lib =
  sk_linux :: bool
  sk_library :: bool
  sk_resolve :: "string \<Rightarrow> int"
  sk_prctl :: int
  sk_init :: bool
  sk_rule_add :: "int \<Rightarrow> int"
  sk_load :: int

record sandbox_state =
  sn_no_new_privs :: bool
  sn_contexts :: nat
  sn_released :: nat
  sn_rules :: "int list"
  sn_denied :: "int list option"

definition sandbox_start :: sandbox_state where
  "sandbox_start = \<lparr>sn_no_new_privs = False, sn_contexts = 0, sn_released = 0, sn_rules = [], sn_denied = None\<rparr>"

type_synonym 'a sandbox_io = "sandbox_state \<Rightarrow> (sandbox_exc + 'a) \<times> sandbox_state"

definition network_syscalls :: "string list" where
  "network_syscalls = [''socket'', ''socketpair'', ''socketcall'', ''connect'', ''bind'', ''listen'', ''accept'', ''accept4'', ''send'',
     ''sendto'', ''sendmsg'', ''sendmmsg'', ''recv'', ''recvfrom'', ''recvmsg'', ''recvmmsg'', ''shutdown'', ''getsockname'', ''getpeername'',
     ''getsockopt'', ''setsockopt'', ''io_uring_setup'', ''io_uring_enter'', ''io_uring_register'']"

definition required_syscalls :: "string list" where
  "required_syscalls = [''socket'', ''connect'']"

definition load_seccomp :: "seccomp_lib \<Rightarrow> sandbox_exc + unit" where
  "load_seccomp lib = (if sk_library lib then Inr () else Inl ParserSandboxUnavailable)"

definition validate_no_network_filter_dependencies :: "seccomp_lib \<Rightarrow> sandbox_exc + unit" where
  "validate_no_network_filter_dependencies lib =
     (if \<not> sk_linux lib then Inl ParserSandboxUnavailable
      else res_bind (load_seccomp lib) (\<lambda>_.
        if list_ex (\<lambda>n. sk_resolve lib n < 0) required_syscalls then Inl ParserSandboxUnavailable else Inr ()))"

definition set_no_new_privileges :: "seccomp_lib \<Rightarrow> unit sandbox_io" where
  "set_no_new_privileges lib w = (if sk_prctl lib \<noteq> 0 then (Inl ParserSandboxUnavailable, w) else (Inr (), w\<lparr>sn_no_new_privs := True\<rparr>))"

text \<open>The loop over the names: the required names that were resolved, with a rule for each known system call.\<close>

fun deny_syscalls :: "seccomp_lib \<Rightarrow> string list \<Rightarrow> string list sandbox_io" where
  "deny_syscalls lib [] w = (Inr [], w)"
| "deny_syscalls lib (n # ns) w = (if sk_resolve lib n < 0 then deny_syscalls lib ns w
     else if sk_rule_add lib (sk_resolve lib n) \<noteq> 0 then (Inl ParserSandboxUnavailable, w)
     else try_seq (deny_syscalls lib ns (w\<lparr>sn_rules := sn_rules w @ [sk_resolve lib n]\<rparr>)) (\<lambda>found w.
       (Inr (if n \<in> set required_syscalls then n # found else found), w)))"

definition build_filter :: "seccomp_lib \<Rightarrow> unit sandbox_io" where
  "build_filter lib w = try_seq (deny_syscalls lib network_syscalls w) (\<lambda>found w.
     if set found \<noteq> set required_syscalls then (Inl ParserSandboxUnavailable, w)
     else if sk_load lib \<noteq> 0 then (Inl ParserSandboxUnavailable, w)
     else (Inr (), w\<lparr>sn_denied := Some (sn_rules w)\<rparr>))"

definition install_no_network_filter :: "seccomp_lib \<Rightarrow> unit sandbox_io" where
  "install_no_network_filter lib w =
     try_seq (validate_no_network_filter_dependencies lib, w) (\<lambda>_ w.
     try_seq (set_no_new_privileges lib w) (\<lambda>_ w.
     try_seq (load_seccomp lib, w) (\<lambda>_ w.
     if \<not> sk_init lib then (Inl ParserSandboxUnavailable, w)
     else (case build_filter lib (w\<lparr>sn_contexts := Suc (sn_contexts w)\<rparr>) of (r, w) \<Rightarrow> (r, w\<lparr>sn_released := Suc (sn_released w)\<rparr>)))))"

lemma deny_syscalls_spec:
  "deny_syscalls lib ns w = (r, w') \<Longrightarrow>
     w' = w\<lparr>sn_rules := sn_rules w'\<rparr>
     \<and> (\<forall>found. r = Inr found \<longrightarrow> sn_rules w' = sn_rules w @ filter (\<lambda>k. 0 \<le> k) (map (sk_resolve lib) ns)
          \<and> found = filter (\<lambda>n. n \<in> set required_syscalls \<and> 0 \<le> sk_resolve lib n) ns
          \<and> (\<forall>k \<in> set (filter (\<lambda>k. 0 \<le> k) (map (sk_resolve lib) ns)). sk_rule_add lib k = 0))
     \<and> (\<forall>e. r = Inl e \<longrightarrow> (\<exists>n \<in> set ns. 0 \<le> sk_resolve lib n \<and> sk_rule_add lib (sk_resolve lib n) \<noteq> 0))"
proof (induction ns arbitrary: w r)
  case (Cons n ns)
  consider (unknown) "sk_resolve lib n < 0" | (refused) "0 \<le> sk_resolve lib n" "sk_rule_add lib (sk_resolve lib n) \<noteq> 0"
    | (added) "0 \<le> sk_resolve lib n" "sk_rule_add lib (sk_resolve lib n) = 0" by linarith
  then show ?case
  proof cases
    case unknown
    then show ?thesis using Cons.IH [of w r] Cons.prems by auto
  next
    case refused
    then show ?thesis using Cons.prems by auto
  next
    case added
    obtain r1 where step: "deny_syscalls lib ns (w\<lparr>sn_rules := sn_rules w @ [sk_resolve lib n]\<rparr>) = (r1, w')"
        "r = (case r1 of Inl e \<Rightarrow> Inl e | Inr found \<Rightarrow> Inr (if n \<in> set required_syscalls then n # found else found))"
      using Cons.prems added by (cases "deny_syscalls lib ns (w\<lparr>sn_rules := sn_rules w @ [sk_resolve lib n]\<rparr>)";
        cases "fst (deny_syscalls lib ns (w\<lparr>sn_rules := sn_rules w @ [sk_resolve lib n]\<rparr>))") auto
    show ?thesis using Cons.IH [OF step(1)] step(2) added by (cases r1) auto
  qed
qed simp

section \<open>Properties\<close>

text \<open>C40: The sandbox fails closed. Installing the filter succeeds exactly if the platform is Linux, the library is there and resolves
  \<open>socket\<close> and \<open>connect\<close>, new privileges can be given up, and every rule and the filter are accepted; then privileges cannot be
  regained and each known network system call is denied by the kernel. In every other case it raises and no filter is in
  force. A context that was allocated is released once, whatever happens.\<close>

theorem sandbox_fails_closed:
  assumes "install_no_network_filter lib sandbox_start = (r, w)"
  shows "(r = Inr () \<longleftrightarrow> sk_linux lib \<and> sk_library lib \<and> (\<forall>n \<in> set required_syscalls. 0 \<le> sk_resolve lib n) \<and> sk_prctl lib = 0 \<and> sk_init lib
        \<and> (\<forall>n \<in> set network_syscalls. 0 \<le> sk_resolve lib n \<longrightarrow> sk_rule_add lib (sk_resolve lib n) = 0) \<and> sk_load lib = 0)
    \<and> (r = Inr () \<longrightarrow> sn_no_new_privs w \<and> (\<exists>denied. sn_denied w = Some denied \<and> sk_resolve lib ''socket'' \<in> set denied \<and> sk_resolve lib ''connect'' \<in> set denied
        \<and> (\<forall>n \<in> set network_syscalls. 0 \<le> sk_resolve lib n \<longrightarrow> sk_resolve lib n \<in> set denied)))
    \<and> (r \<noteq> Inr () \<longrightarrow> r = Inl ParserSandboxUnavailable \<and> sn_denied w = None)
    \<and> sn_released w = sn_contexts w \<and> sn_contexts w \<le> 1"
proof -
  have names: "''socket'' \<in> set network_syscalls" "''connect'' \<in> set network_syscalls" by (simp_all add: network_syscalls_def)
  show ?thesis
  proof (cases "sk_linux lib \<and> sk_library lib \<and> (\<forall>n \<in> set required_syscalls. 0 \<le> sk_resolve lib n) \<and> sk_prctl lib = 0 \<and> sk_init lib")
    case False
    then have "r = Inl ParserSandboxUnavailable \<and> sn_denied w = None \<and> sn_released w = 0 \<and> sn_contexts w = 0"
      using assms by (auto simp: install_no_network_filter_def validate_no_network_filter_dependencies_def load_seccomp_def set_no_new_privileges_def
          sandbox_start_def required_syscalls_def split: if_split_asm)
    then show ?thesis using False by auto
  next
    case ready: True
    define v where "v = sandbox_start\<lparr>sn_no_new_privs := True, sn_contexts := 1\<rparr>"
    obtain found u where deny: "deny_syscalls lib network_syscalls v = (found, u)" by fastforce
    note spec = deny_syscalls_spec [OF deny]
    have run: "(r, w) = (case build_filter lib v of (r, w) \<Rightarrow> (r, w\<lparr>sn_released := Suc (sn_released w)\<rparr>))"
      using assms ready by (auto simp: install_no_network_filter_def validate_no_network_filter_dependencies_def load_seccomp_def
          set_no_new_privileges_def required_syscalls_def sandbox_start_def v_def)
    have keep: "sn_no_new_privs u" "sn_contexts u = 1" "sn_released u = 0" "sn_denied u = None"
      using spec by (metis sandbox_state.select_convs sandbox_state.surjective sandbox_state.update_convs v_def sandbox_start_def)+
    show ?thesis
    proof (cases found)
      case (Inl e)
      then show ?thesis using run deny spec keep by (cases e) (auto simp: build_filter_def)
    next
      case (Inr fs)
      have all: "set fs = set required_syscalls" using spec ready names by (auto simp: Inr required_syscalls_def)
      have rules: "sn_rules u = filter (\<lambda>k. 0 \<le> k) (map (sk_resolve lib) network_syscalls)" using spec by (simp add: Inr v_def sandbox_start_def)
      have accepted: "\<forall>n \<in> set network_syscalls. 0 \<le> sk_resolve lib n \<longrightarrow> sk_rule_add lib (sk_resolve lib n) = 0"
        using spec by (auto simp: Inr)
      show ?thesis
      proof (cases "sk_load lib = 0")
        case True
        then have "r = Inr ()" "w = u\<lparr>sn_denied := Some (sn_rules u), sn_released := Suc (sn_released u)\<rparr>"
          using run deny all by (auto simp: build_filter_def Inr)
        then show ?thesis using True ready accepted keep rules names by (auto simp: required_syscalls_def)
      next
        case False
        then have "r = Inl ParserSandboxUnavailable" "w = u\<lparr>sn_released := Suc (sn_released u)\<rparr>"
          using run deny all by (auto simp: build_filter_def Inr)
        then show ?thesis using False keep by simp
      qed
    qed
  qed
qed

definition demo_seccomp :: seccomp_lib where
  "demo_seccomp = \<lparr>sk_linux = True, sk_library = True, sk_resolve = (\<lambda>n. if n = ''socketcall'' then - 1 else int (length n)), sk_prctl = 0,
     sk_init = True, sk_rule_add = (\<lambda>_. 0), sk_load = 0\<rparr>"

theorem sandbox_fails_closed_witness:
  "\<exists>w denied. install_no_network_filter demo_seccomp sandbox_start = (Inr (), w) \<and> sn_denied w = Some denied \<and> 7 \<in> set denied \<and> sn_no_new_privs w"
proof -
  obtain r w where run: "install_no_network_filter demo_seccomp sandbox_start = (r, w)" by fastforce
  have "r = Inr ()" using sandbox_fails_closed [OF run] by (simp add: demo_seccomp_def required_syscalls_def)
  then show ?thesis using sandbox_fails_closed [OF run] run by (auto simp: demo_seccomp_def)
qed

end
