(* ===== verification/Unit_Of_Work.thy ===== *)
theory Unit_Of_Work
  imports Prelude
begin

section \<open>Units of work\<close>

text \<open>
  The three SQLAlchemy units of work (\<open>infrastructure/database/uow.py\<close>, the ones of \<open>infrastructure/database/content.py\<close> and
  \<open>infrastructure/search/usage.py\<close>) around one session of a transactional database. Every call on the session may
  raise, before or after it took effect. They differ in whether entering twice is refused and in whether what a rollback or
  close raises is swallowed.
\<close>

record uow_class =
  uc_checks_entry :: bool
  uc_swallows :: bool

definition plain_uow :: uow_class where
  "plain_uow = \<lparr>uc_checks_entry = True, uc_swallows = False\<rparr>"

definition content_uow :: uow_class where
  "content_uow = \<lparr>uc_checks_entry = False, uc_swallows = False\<rparr>"

definition search_usage_uow :: uow_class where
  "search_usage_uow = \<lparr>uc_checks_entry = False, uc_swallows = True\<rparr>"

datatype session_fate = SessionWorks | SessionRaises | SessionRaisesAfter

datatype uow_exc = UowNotActive | UowReentered | UowSession

text \<open>The committed database, the view of the session's transaction, the open sessions, and the fields of the object.\<close>

record 'd uow_state =
  us_db :: 'd
  us_view :: 'd
  us_open :: nat
  us_calls :: nat
  us_active :: bool
  us_committed :: bool

type_synonym ('d, 'a) uow_io = "'d uow_state \<Rightarrow> (uow_exc + 'a) \<times> 'd uow_state"

definition session_call :: "(nat \<Rightarrow> session_fate) \<Rightarrow> ('d uow_state \<Rightarrow> 'd uow_state) \<Rightarrow> ('d, unit) uow_io" where
  "session_call fate act u = (let v = u\<lparr>us_calls := Suc (us_calls u)\<rparr> in case fate (us_calls u) of
     SessionWorks \<Rightarrow> (Inr (), act v) | SessionRaises \<Rightarrow> (Inl UowSession, v) | SessionRaisesAfter \<Rightarrow> (Inl UowSession, act v))"

definition uow_enter :: "uow_class \<Rightarrow> ('d, unit) uow_io" where
  "uow_enter c u = (if uc_checks_entry c \<and> us_active u then (Inl UowReentered, u)
     else (Inr (), u\<lparr>us_view := us_db u, us_open := Suc (us_open u), us_active := True, us_committed := us_committed u \<and> \<not> uc_checks_entry c\<rparr>))"

definition uow_statement :: "(nat \<Rightarrow> session_fate) \<Rightarrow> ('d \<Rightarrow> 'd) \<Rightarrow> ('d, unit) uow_io" where
  "uow_statement fate f u = (if \<not> us_active u then (Inl UowNotActive, u) else session_call fate (\<lambda>u. u\<lparr>us_view := f (us_view u)\<rparr>) u)"

definition uow_commit :: "(nat \<Rightarrow> session_fate) \<Rightarrow> ('d, unit) uow_io" where
  "uow_commit fate u = (if \<not> us_active u then (Inl UowNotActive, u)
     else try_seq (session_call fate (\<lambda>u. u\<lparr>us_db := us_view u\<rparr>) u) (\<lambda>_ u. (Inr (), u\<lparr>us_committed := True\<rparr>)))"

definition session_rollback :: "'d uow_state \<Rightarrow> 'd uow_state" where
  "session_rollback u = u\<lparr>us_view := us_db u\<rparr>"

text \<open>The explicit \<open>rollback\<close> of the plain unit of work.\<close>

definition uow_rollback :: "(nat \<Rightarrow> session_fate) \<Rightarrow> ('d, unit) uow_io" where
  "uow_rollback fate u = try_seq (if us_active u then session_call fate session_rollback u else (Inr (), u))
     (\<lambda>_ u. (Inr (), u\<lparr>us_committed := False\<rparr>))"

definition session_close :: "'d uow_state \<Rightarrow> 'd uow_state" where
  "session_close u = u\<lparr>us_open := us_open u - 1\<rparr>"

definition swallow :: "uow_class \<Rightarrow> uow_exc + unit \<Rightarrow> uow_exc + unit" where
  "swallow c r = (if uc_swallows c then Inr () else r)"

text \<open>The exception of the \<open>finally\<close> clause replaces that of the rollback, and leaves the object as it is.\<close>

definition uow_exit :: "uow_class \<Rightarrow> (nat \<Rightarrow> session_fate) \<Rightarrow> bool \<Rightarrow> ('d, unit) uow_io" where
  "uow_exit c fate raised u = (if \<not> us_active u then (Inr (), u)
     else case (if raised \<or> \<not> us_committed u then session_call fate session_rollback u else (Inr (), u)) of (rolled, u) \<Rightarrow>
       (case session_call fate session_close u of (closed_, u) \<Rightarrow>
         (case swallow c closed_ of Inl e \<Rightarrow> (Inl e, u)
          | Inr _ \<Rightarrow> (swallow c rolled, u\<lparr>us_active := False, us_committed := False\<rparr>))))"

text \<open>\<open>async with factory() as uow\<close>: a new object, whose exit sees whether the body raised.\<close>

definition uow_block :: "uow_class \<Rightarrow> (nat \<Rightarrow> session_fate) \<Rightarrow> ('d, 'a) uow_io \<Rightarrow> ('d, 'a) uow_io" where
  "uow_block c fate body u = try_seq (uow_enter c (u\<lparr>us_active := False, us_committed := False\<rparr>)) (\<lambda>_ u.
     case body u of (r, u) \<Rightarrow> (case uow_exit c fate (\<exists>e. r = Inl e) u of (Inl e, u) \<Rightarrow> (Inl e, u) | (Inr _, u) \<Rightarrow> (r, u)))"

fun uow_statements :: "(nat \<Rightarrow> session_fate) \<Rightarrow> ('d \<Rightarrow> 'd) list \<Rightarrow> ('d, unit) uow_io" where
  "uow_statements fate [] u = (Inr (), u)"
| "uow_statements fate (f # fs) u = try_seq (uow_statement fate f u) (\<lambda>_. uow_statements fate fs)"

section \<open>Atomicity\<close>

lemma uow_statements_spec:
  "uow_statements fate fs u = (r, v) \<Longrightarrow> us_active u \<Longrightarrow>
     us_db v = us_db u \<and> us_open v = us_open u \<and> us_active v \<and> us_committed v = us_committed u
     \<and> (r = Inr () \<longrightarrow> us_view v = fold (\<lambda>f. f) fs (us_view u))"
proof (induction fs arbitrary: u)
  case (Cons f fs)
  show ?case
  proof (cases "fate (us_calls u)")
    case SessionWorks
    have "uow_statements fate fs (u\<lparr>us_calls := Suc (us_calls u), us_view := f (us_view u)\<rparr>) = (r, v)"
      using Cons.prems SessionWorks by (simp add: uow_statement_def session_call_def)
    from Cons.IH [OF this] Cons.prems(2) show ?thesis by auto
  qed (use Cons.prems in \<open>auto simp: uow_statement_def session_call_def\<close>)
qed simp

lemma uow_statements_work:
  "us_active u \<Longrightarrow> \<forall>i. us_calls u \<le> i \<and> i < us_calls u + length fs \<longrightarrow> fate i = SessionWorks \<Longrightarrow>
     uow_statements fate fs u = (Inr (), u\<lparr>us_calls := us_calls u + length fs, us_view := fold (\<lambda>f. f) fs (us_view u)\<rparr>)"
proof (induction fs arbitrary: u)
  case (Cons f fs)
  let ?v = "u\<lparr>us_calls := Suc (us_calls u), us_view := f (us_view u)\<rparr>"
  have "fate (us_calls u) = SessionWorks" using Cons.prems(2) by simp
  moreover have "uow_statements fate fs ?v = (Inr (), ?v\<lparr>us_calls := us_calls ?v + length fs, us_view := fold (\<lambda>f. f) fs (us_view ?v)\<rparr>)"
    by (rule Cons.IH) (use Cons.prems in auto)
  ultimately show ?case using Cons.prems(1) by (simp add: uow_statement_def session_call_def)
qed simp

lemma uow_commit_spec:
  assumes "uow_commit fate u = (r, v)" "us_active u"
  shows "us_active v \<and> us_open v = us_open u \<and> us_view v = us_view u \<and> us_db v \<in> {us_db u, us_view u}
    \<and> (r = Inr () \<longrightarrow> us_db v = us_view u) \<and> (fate (us_calls u) = SessionWorks \<longrightarrow> r = Inr ())"
  using assms by (auto simp: uow_commit_def session_call_def Let_def split: session_fate.split_asm)

lemma uow_block_run:
  assumes "uow_block c fate body u = (r, v)"
  obtains r1 u1 where "body (u\<lparr>us_view := us_db u, us_open := Suc (us_open u), us_active := True, us_committed := False\<rparr>) = (r1, u1)"
    "case uow_exit c fate (\<exists>e. r1 = Inl e) u1 of (Inl e, w) \<Rightarrow> (r, v) = (Inl e, w) | (Inr _, w) \<Rightarrow> (r, v) = (r1, w)"
proof -
  let ?u = "u\<lparr>us_view := us_db u, us_open := Suc (us_open u), us_active := True, us_committed := False\<rparr>"
  obtain r1 u1 where body: "body ?u = (r1, u1)" by fastforce
  obtain x w where ex: "uow_exit c fate (\<exists>e. r1 = Inl e) u1 = (x, w)" by fastforce
  have "uow_block c fate body u = (case x of Inl e \<Rightarrow> (Inl e, w) | Inr _ \<Rightarrow> (r1, w))"
    by (simp add: uow_block_def uow_enter_def body ex)
  then show thesis using that [OF body] assms unfolding ex by (cases x) simp_all
qed

lemma uow_exit_spec:
  assumes "uow_exit c fate raised u = (r, v)" "us_active u" "0 < us_open u"
  shows "us_db v = us_db u \<and> (us_open v = us_open u - 1 \<or> us_open v = us_open u) \<and> (r = Inr () \<and> \<not> uc_swallows c \<longrightarrow> us_open v = us_open u - 1)
    \<and> (r = Inr () \<longrightarrow> \<not> us_active v) \<and> (uc_swallows c \<longrightarrow> r = Inr ())
    \<and> (\<forall>e. r = Inl e \<longrightarrow> e = UowSession)"
  using assms by (auto simp: uow_exit_def session_call_def session_rollback_def session_close_def swallow_def Let_def
      split: if_split_asm session_fate.split_asm)

definition uow_transaction :: "uow_class \<Rightarrow> (nat \<Rightarrow> session_fate) \<Rightarrow> ('d \<Rightarrow> 'd) list \<Rightarrow> ('d, unit) uow_io" where
  "uow_transaction c fate fs = uow_block c fate (\<lambda>u. try_seq (uow_statements fate fs u) (\<lambda>_. uow_commit fate))"

section \<open>Properties\<close>

text \<open>A unit of work is atomic. Whatever call on the session raises, before or after it took effect, a block of statements that ends with
  a commit leaves the committed database as it was or with all statements applied, and applied if the block returns; a block
  without a commit never changes it. When the block returns from a unit of work that does not swallow, its session is
  closed, and the one that swallows lets no exception of the rollback or the close replace the body's result.\<close>

theorem unit_of_work_atomic:
  assumes "uow_transaction c fate fs u = (r, v)" "uow_block c fate (uow_statements fate fs) u = (r0, v0)"
  shows "us_db v \<in> {us_db u, fold (\<lambda>f. f) fs (us_db u)}
    \<and> (r = Inr () \<longrightarrow> us_db v = fold (\<lambda>f. f) fs (us_db u))
    \<and> us_db v0 = us_db u
    \<and> (r = Inr () \<and> \<not> uc_swallows c \<longrightarrow> us_open v = us_open u)
    \<and> (uc_swallows c \<and> (\<forall>i \<ge> us_calls u. i \<le> us_calls u + length fs \<longrightarrow> fate i = SessionWorks) \<longrightarrow> r = Inr ())"
proof -
  let ?u = "u\<lparr>us_view := us_db u, us_open := Suc (us_open u), us_active := True, us_committed := False\<rparr>"
  obtain r1 u1 where run: "try_seq (uow_statements fate fs ?u) (\<lambda>_. uow_commit fate) = (r1, u1)"
      "case uow_exit c fate (\<exists>e. r1 = Inl e) u1 of (Inl e, w) \<Rightarrow> (r, v) = (Inl e, w) | (Inr _, w) \<Rightarrow> (r, v) = (r1, w)"
    by (rule uow_block_run [OF assms(1) [unfolded uow_transaction_def]])
  obtain s0 t0 where st: "uow_statements fate fs ?u = (s0, t0)" by fastforce
  note spec = uow_statements_spec [OF st]
  have t0: "us_db t0 = us_db u" "us_open t0 = Suc (us_open u)" "us_active t0" "s0 = Inr () \<longrightarrow> us_view t0 = fold (\<lambda>f. f) fs (us_db u)"
    using spec by simp_all
  have u1: "us_active u1 \<and> us_open u1 = Suc (us_open u) \<and> us_db u1 \<in> {us_db u, fold (\<lambda>f. f) fs (us_db u)}
      \<and> (r1 = Inr () \<longrightarrow> us_db u1 = fold (\<lambda>f. f) fs (us_db u))"
  proof (cases s0)
    case (Inl e)
    then have "r1 = Inl e \<and> u1 = t0" using run(1) st by simp
    then show ?thesis using t0 by simp
  next
    case (Inr y)
    then have "uow_commit fate t0 = (r1, u1)" using run(1) st by simp
    from uow_commit_spec [OF this t0(3)] show ?thesis using t0 Inr by simp
  qed
  obtain x w where ex: "uow_exit c fate (\<exists>e. r1 = Inl e) u1 = (x, w)" by fastforce
  have v: "v = w" "r = (case x of Inl e \<Rightarrow> Inl e | Inr _ \<Rightarrow> r1)" using run(2) ex by (cases x; simp)+
  have sp: "us_db w = us_db u1" "x = Inr () \<and> \<not> uc_swallows c \<longrightarrow> us_open w = us_open u1 - 1" "uc_swallows c \<longrightarrow> x = Inr ()"
    using uow_exit_spec [OF ex] u1 by simp_all
  have "r = Inr () \<longrightarrow> x = Inr () \<and> r1 = Inr ()" using v(2) by (cases x) auto
  then have 1: "us_db v \<in> {us_db u, fold (\<lambda>f. f) fs (us_db u)}" "r = Inr () \<longrightarrow> us_db v = fold (\<lambda>f. f) fs (us_db u)"
      "r = Inr () \<and> \<not> uc_swallows c \<longrightarrow> us_open v = us_open u"
    using u1 sp v(1) by auto
  have 2: "r = Inr ()" if "uc_swallows c" "\<forall>i \<ge> us_calls u. i \<le> us_calls u + length fs \<longrightarrow> fate i = SessionWorks"
  proof -
    have "uow_statements fate fs ?u = (Inr (), ?u\<lparr>us_calls := us_calls ?u + length fs, us_view := fold (\<lambda>f. f) fs (us_view ?u)\<rparr>)"
      by (rule uow_statements_work) (use that(2) in auto)
    then have "r1 = Inr ()" using run(1) that(2) uow_commit_spec [of fate "?u\<lparr>us_calls := us_calls ?u + length fs, us_view := fold (\<lambda>f. f) fs (us_view ?u)\<rparr>" r1 u1]
      by simp
    then show ?thesis using v(2) sp(3) that(1) by simp
  qed
  obtain r2 u2 where run0: "uow_statements fate fs ?u = (r2, u2)"
      "case uow_exit c fate (\<exists>e. r2 = Inl e) u2 of (Inl e, w) \<Rightarrow> (r0, v0) = (Inl e, w) | (Inr _, w) \<Rightarrow> (r0, v0) = (r2, w)"
    by (rule uow_block_run [OF assms(2)])
  obtain x0 w0 where ex0: "uow_exit c fate (\<exists>e. r2 = Inl e) u2 = (x0, w0)" by fastforce
  have "v0 = w0" using run0(2) ex0 by (cases x0) simp_all
  then have "us_db v0 = us_db u" using uow_exit_spec [OF ex0] uow_statements_spec [OF run0(1)] by simp
  then show ?thesis using 1 2 by blast
qed

theorem unit_of_work_atomic_witness:
  "\<exists>r v. uow_transaction content_uow (\<lambda>i. if i = 2 then SessionRaisesAfter else SessionWorks) [Suc, (+) 2]
      \<lparr>us_db = 0 :: nat, us_view = 0, us_open = 0, us_calls = 0, us_active = False, us_committed = False\<rparr> = (r, v) \<and> us_db v \<in> {0, 3}"
proof -
  let ?u = "\<lparr>us_db = 0 :: nat, us_view = 0, us_open = 0, us_calls = 0, us_active = False, us_committed = False\<rparr>"
  let ?fate = "\<lambda>i. if i = 2 then SessionRaisesAfter else SessionWorks :: session_fate"
  obtain r v where run: "uow_transaction content_uow ?fate [Suc, (+) 2] ?u = (r, v)" by fastforce
  obtain r0 v0 where read: "uow_block content_uow ?fate (uow_statements ?fate [Suc, (+) 2]) ?u = (r0, v0)" by fastforce
  have "us_db v \<in> {0, 3}" using unit_of_work_atomic [OF run read] by simp
  then show ?thesis using run by blast
qed

end
