(* ===== verification/Spec2Isabelle.thy ===== *)
theory Spec2Isabelle
  imports Common Utf8 Content_Service Content_Maintenance Search_Service Search_Cache Retrieval_Service Search_Providers
    Access Content_Cursor Content_Html Content_Identifier Parser_Isolation Runtime Rest Mcp
    Observability Parser_Sandbox Unit_Of_Work
begin

text \<open>
  A verification library for the Web Access MCP server (\<open>src/src/web_access\<close>), a Python service that
  searches the web through providers, fetches pages under an egress policy, and keeps what it fetches
  as Content: rows in PostgreSQL and blobs in a directory tree.

  \<^bold>\<open>The program and its model.\<close> Each theory models one part; its definitions keep the names of the code
  and follow its order. Exceptions are the \<open>Inl\<close> values of a sum type, a coroutine that acts on the
  outside world maps a world to a result and a new world, and every awaited call may be told by a
  schedule to fail before or after it took effect.

  \<^item> \<open>Prelude\<close>, \<open>Utf8\<close>, \<open>Sha256\<close>, \<open>Json\<close>, \<open>Regex\<close>, \<open>Url\<close>: results and sequencing, and the parts of Python's
    standard library the code rests on: the incremental UTF-8 decoder, SHA-256, \<open>json.dumps\<close> and
    \<open>json.loads\<close>, \<open>re.fullmatch\<close>, \<open>urlsplit\<close> and \<open>ipaddress\<close>.
  \<^item> \<open>Common\<close>: errors, outcomes, batch results, scopes, deadlines, identifiers and the retry policy
    (\<open>application/common\<close>, \<open>core/time.py\<close>, \<open>core/ids.py\<close>, \<open>transport/mcp/retry.py\<close>).
  \<^item> \<open>Content_Domain\<close>, \<open>Content_Repository\<close>, \<open>Content_Store\<close>: the Content values and their checks
    (\<open>domain/content\<close>, \<open>application/content/models.py\<close>), the repository as compare-and-set operations on
    rows with the table constraints (\<open>infrastructure/database/content.py\<close>), and the filesystem store as
    operations on a tree of directories, files and links (\<open>infrastructure/content/filesystem.py\<close>).
  \<^item> \<open>Content_Service\<close>, \<open>Content_Maintenance\<close>: ingestion, inspection, parsing, reading, downloads and batches
    (\<open>application/content/service.py\<close>), and recovery, garbage collection and audit
    (\<open>application/content/maintenance.py\<close>), both on the world of repository and store.
  \<^item> \<open>Search_Domain\<close>, \<open>Search_Usage\<close>, \<open>Search_Service\<close>: search values, registries and policies, the usage table,
    and the search service with its cache, single flight, admission, retries and accounting
    (\<open>domain/search\<close>, \<open>application/search\<close>, \<open>infrastructure/search/usage.py\<close>).
  \<^item> \<open>Search_Admission\<close>, \<open>Search_Cache\<close>: the Lua scripts of the token bucket and of the concurrency leases
    with their Python callers, the cache and the single-flight lock (\<open>infrastructure/search\<close>).
  \<^item> \<open>Search_Providers\<close>: the SearXNG and Yandex adapters (\<open>infrastructure/search/searxng.py\<close>, \<open>yandex.py\<close>).
  \<^item> \<open>Retrieval_Security\<close>, \<open>Retrieval_Fetcher\<close>, \<open>Retrieval_Service\<close>: the egress policy and resolver, redirects
    and bounded bodies, and the retrieval items and batches on the Content world
    (\<open>infrastructure/retrieval\<close>, \<open>application/retrieval\<close>, \<open>domain/retrieval\<close>).

  \<^item> \<open>Codecs\<close>, \<open>Content_Cursor\<close>: base64, HMAC and the signed paging cursors (\<open>infrastructure/content/cursor.py\<close>).
  \<^item> \<open>Content_Identifier\<close>, \<open>Content_Parsers\<close>, \<open>Content_Html\<close>, \<open>Content_Csv\<close>: the evidence and scoring that detect a format
    (\<open>infrastructure/content/identifier.py\<close>), the registry and the text, JSON, XML, HTML and CSV parsers
    (\<open>infrastructure/content/parsers\<close>).
  \<^item> \<open>Pdf_Worker\<close>, \<open>Parser_Isolation\<close>, \<open>Parser_Sandbox\<close>: the isolated worker (\<open>workers/pdf_parser.py\<close>), the executor that runs
    it as a child process with limits, a deadline and a private directory (\<open>infrastructure/content/parser_isolation.py\<close>), and
    the network filter the child installs (\<open>workers/parser_sandbox.py\<close>).
  \<^item> \<open>Unit_Of_Work\<close>, \<open>Observability\<close>: the unit-of-work classes over a session (\<open>infrastructure/database/uow.py\<close>), and log
    redaction, correlation and metrics (\<open>infrastructure/observability\<close>, \<open>application/common/correlation.py\<close>).
  \<^item> \<open>Access\<close>: principals and bearer authentication (\<open>infrastructure/auth\<close>, \<open>transport/rest/auth.py\<close>,
    \<open>transport/mcp/auth.py\<close>).
  \<^item> \<open>Health\<close>, \<open>Configuration\<close>, \<open>Runtime\<close>: probes and readiness (\<open>application/common/health.py\<close>,
    \<open>application/search/readiness.py\<close>), the settings graph with its validators (\<open>core/config.py\<close>), and the composition root:
    what is built from the settings, started, served and closed (\<open>bootstrap/lifespan.py\<close>).
  \<^item> \<open>Requests\<close>, \<open>Rest\<close>, \<open>Mcp\<close>: the request schemas of both transports, the REST facade with its routes, scopes and error
    answers, and the four MCP tools (\<open>transport/rest\<close>, \<open>transport/mcp\<close>), over the services above.

  \<^bold>\<open>What is shown.\<close> Content: database and store stay consistent under every schedule of faults; a
  fault-free ingestion publishes exactly the streamed bytes; paging returns the whole text; only
  the owner sees a Content and a download is what its digest says; repository updates are exact
  compare-and-set operations with one winner per revision, and published rows do not change; the
  store returns what was written, also when several publishers of one blob race; maintenance
  keeps the invariant, leaves nothing inconsistent, and recovery completes. Search: every item
  follows the protocol of leases, evidence and dispatch; a billable request is not repeated once it
  may have been sent; cache keys separate principals and policies; the rate limiter admits no more than its
  buckets allow and equals the ideal bucket, leases never exceed their limit, one flight per key; the
  adapters answer with well-formed results or truthful errors and accept what the registry plans.
  Retrieval: connections only go to public addresses, redirects included; bodies stay within their limits;
  an item reports truthfully what was fetched and stored; retries need evidence that nothing
  was sent.

  Parsing: a cursor is read back only by its owner and for its Content; parsers return what they read within their bounds,
  a written CSV table is read back exactly, an isolated run leaves no process and no file behind, whatever happens, and delivers
  the worker's PDF result, and the sandbox of the child fails closed.
  Process and transports: valid settings build components that satisfy what the other properties assume, and
  the shutdown closes what was opened; a request a transport accepts is one the services accept; no route or tool acts without its
  scopes, the status of an answer agrees with its body, a download cannot become active content, a batch of reads
  answers every item, a unit of work is atomic, and redacted logs do not depend on what is secret.

  \<^bold>\<open>Bounds and termination.\<close> Recursion is structural or has a measure: redirects are bounded by the
  setting, the waiting loops by the time left and the poll interval, the attempts by the policy; no
  result depends on a fuel argument. The JSON reader takes the length of its text as
  fuel, which its recursion cannot exceed. Concrete inputs of the witnesses are evaluated by the
  simplifier.

  \<^bold>\<open>What is an argument of the model.\<close> Third-party code and services: PostgreSQL beyond the statements the
  repository issues, Redis beyond the commands of the scripts, aiohttp, httpx, pydantic's reading of JSON and its
  codec, lxml and defusedxml, trafilatura, pypdf, \<open>charset_normalizer\<close>, \<open>csv.Sniffer\<close>, \<open>langcodes\<close>, zlib, the
  resolver, the kernel's process control, identifier and token generators and clocks, and Unicode's tables. Of FastAPI and
  FastMCP the order of their checks is stated where it matters.

  \<^bold>\<open>What is not modelled.\<close> Floating-point rounding (floats are rationals), recursion limits of the interpreter,
  human-readable messages, the logging pipeline, the exposition of metrics and traces. The resource limits of the worker
  are system calls. Engines, sessions and migrations of the database, the ASGI and command-line entry points and the
  OpenAPI document are plumbing around the modelled operations. A code attribute on exceptions of third-party classes is
  not looked up.
\<close>

end
